(* ===== verification/Prelude.thy ===== *)
theory Prelude
  imports
    Main
    "HOL-Library.Word"
    "HOL-Library.Char_ord"
    "HOL-Library.List_Lexorder"
    "HOL-Library.Product_Lexorder"
begin

text \<open>
  The vocabulary every component shares: machine integers by their Rust names, Rust's
  checked and saturating arithmetic, strings as the byte sequences Rust's \<open>String\<close>
  holds, the ASCII helpers of \<open>str\<close>, and the lemma collections of the development.
  A Rust \<open>usize\<close> that counts things held in memory is a \<open>nat\<close>; a \<open>u64\<close>
  (clock readings, ids, sequence numbers) is a 64-bit word, so that its wrap-around is
  part of the model.
\<close>

unbundle bit_operations_syntax

named_theorems map_simps \<open>lookups after updates of the ordered maps\<close>
named_theorems frame_simps \<open>fields an operation leaves alone\<close>
named_theorems track_simps \<open>what one message contributes to the indexes\<close>

subsection \<open>Machine integers\<close>

type_synonym u8 = "8 word"
type_synonym u32 = "32 word"
type_synonym u64 = "64 word"

text \<open>\<open>checked_add(1)\<close>, \<open>saturating_add\<close> and \<open>saturating_sub\<close> on \<open>u64\<close>.\<close>

definition checked_succ :: "'a::len word \<Rightarrow> 'a word option" where
  "checked_succ x = (if x = -1 then None else Some (x + 1))"

definition sat_add :: "'a::len word \<Rightarrow> 'a word \<Rightarrow> 'a word" where
  "sat_add x y = (if x + y < x then -1 else x + y)"

definition sat_sub :: "'a::len word \<Rightarrow> 'a word \<Rightarrow> 'a word" where
  "sat_sub x y = (if x < y then 0 else x - y)"

lemma max_word_ge [simp]: "x \<le> (-1 :: 'a::len word)"
  by simp

lemma succ_ne0: "x \<noteq> -1 \<Longrightarrow> 1 + x \<noteq> (0 :: 'a::len word)"
  using add_eq_0_iff [of 1 x] by simp

lemma succ_gt: "x \<noteq> -1 \<Longrightarrow> x < x + (1 :: 'a::len word)"
  using unatSuc [OF succ_ne0, of x] by (simp add: word_less_nat_alt add.commute)

lemma succ_least: "x < y \<Longrightarrow> x + 1 \<le> (y :: 'a::len word)"
proof -
  assume a: "x < y"
  then have "x \<noteq> -1" using word_order.extremum_strict by blast
  from unatSuc [OF succ_ne0 [OF this]] a show ?thesis
    by (simp add: word_less_nat_alt word_le_nat_alt add.commute)
qed

lemma checked_succ_Some: "checked_succ x = Some y \<Longrightarrow> x < y"
  by (auto simp: checked_succ_def succ_gt split: if_splits)

lemma checked_succ_least: "checked_succ x = Some y \<Longrightarrow> x < z \<Longrightarrow> y \<le> z"
  by (auto simp: checked_succ_def succ_least split: if_splits)

lemma checked_succ_None: "checked_succ x = None \<longleftrightarrow> x = -1"
  by (simp add: checked_succ_def)

lemma sat_sub_le: "sat_sub x y \<le> x"
  by (auto simp: sat_sub_def word_sub_le not_less)

lemma or_eq_0: "x OR y = (0 :: 'a::len word) \<longleftrightarrow> x = 0 \<and> y = 0"
  by (simp add: bit_eq_iff bit_simps) blast

lemma xor_eq_0: "x XOR y = (0 :: 'a::len word) \<longleftrightarrow> x = y"
  by (simp add: bit_eq_iff bit_simps)

subsection \<open>Strings\<close>

text \<open>
  A Rust \<open>String\<close> is UTF-8; it is modelled as its bytes, one Isabelle \<^typ>\<open>char\<close>
  per byte, so \<open>len\<close> is \<^const>\<open>length\<close> and Rust's ordering of strings is the
  lexicographic order of \<open>List_Lexorder\<close> over \<open>Char_ord\<close>.
\<close>

type_synonym str = string

definition starts_with :: "'a list \<Rightarrow> 'a list \<Rightarrow> bool" where
  "starts_with s p \<longleftrightarrow> take (length p) s = p"

definition ends_with :: "'a list \<Rightarrow> 'a list \<Rightarrow> bool" where
  "ends_with s p \<longleftrightarrow> length p \<le> length s \<and> drop (length s - length p) s = p"

fun contains_sub :: "'a list \<Rightarrow> 'a list \<Rightarrow> bool" where
  "contains_sub [] p = (p = [])"
| "contains_sub (c # s) p = (starts_with (c # s) p \<or> contains_sub s p)"

lemma starts_with_iff: "starts_with s p \<longleftrightarrow> (\<exists>t. s = p @ t)"
proof
  assume "starts_with s p"
  then have "s = p @ drop (length p) s"
    unfolding starts_with_def using append_take_drop_id [of "length p" s] by simp
  then show "\<exists>t. s = p @ t" ..
qed (auto simp: starts_with_def)

lemma ends_with_iff: "ends_with s p \<longleftrightarrow> (\<exists>t. s = t @ p)"
proof
  assume "ends_with s p"
  then have "s = take (length s - length p) s @ p"
    unfolding ends_with_def using append_take_drop_id [of "length s - length p" s] by simp
  then show "\<exists>t. s = t @ p" ..
qed (auto simp: ends_with_def)

lemma starts_with_Nil [simp]: "starts_with s []"
  by (simp add: starts_with_def)

lemma starts_with_refl [simp]: "starts_with s s"
  by (simp add: starts_with_iff)

lemma starts_with_trans: "starts_with s t \<Longrightarrow> starts_with t u \<Longrightarrow> starts_with s u"
  by (auto simp: starts_with_iff)

lemma starts_with_linear: "starts_with s p \<Longrightarrow> starts_with s q \<Longrightarrow> starts_with p q \<or> starts_with q p"
  by (auto simp: starts_with_iff append_eq_append_conv2)

lemma starts_with_between: "starts_with t k \<Longrightarrow> k \<le> m \<Longrightarrow> m \<le> t \<Longrightarrow> starts_with (m :: str) k"
proof (induction k arbitrary: m t)
  case (Cons c k)
  then obtain t' where t: "t = c # t'" "starts_with t' k" by (auto simp: starts_with_iff)
  with Cons.prems obtain m' where m: "m = c # m'" by (cases m) auto
  with Cons t show ?case by (auto simp: starts_with_iff)
qed simp

lemma starts_with_le: "starts_with s p \<Longrightarrow> p \<le> (s :: str)"
proof (induction p arbitrary: s)
  case (Cons c p)
  then obtain t where "s = c # t" "starts_with t p" by (auto simp: starts_with_iff)
  with Cons.IH show ?case by simp
qed simp

lemma contains_sub_iff: "contains_sub s p \<longleftrightarrow> (\<exists>a b. s = a @ p @ b)"
proof (induction s)
  case Nil
  then show ?case by auto
next
  case (Cons c s)
  have "(\<exists>a b. c # s = a @ p @ b) \<longleftrightarrow> (\<exists>b. c # s = p @ b) \<or> (\<exists>a b. s = a @ p @ b)"
    by (auto simp: Cons_eq_append_conv)
  with Cons show ?case by (simp add: starts_with_iff)
qed

text \<open>\<open>str::strip_prefix\<close> and \<open>str::split_once\<close> at a one-byte separator.\<close>

definition strip_prefix :: "'a list \<Rightarrow> 'a list \<Rightarrow> 'a list option" where
  "strip_prefix p s = (if starts_with s p then Some (drop (length p) s) else None)"

fun split_once :: "'a \<Rightarrow> 'a list \<Rightarrow> ('a list \<times> 'a list) option" where
  "split_once c [] = None"
| "split_once c (x # xs) =
     (if x = c then Some ([], xs)
      else map_option (\<lambda>(a, b). (x # a, b)) (split_once c xs))"

lemma split_once_first: "c \<notin> set a \<Longrightarrow> split_once c (a @ c # b) = Some (a, b)"
  by (induction a) auto

lemma split_once_None: "c \<notin> set s \<Longrightarrow> split_once c s = None"
  by (induction s) auto

text \<open>ASCII case folding and character classes, byte by byte.\<close>

definition byte_of :: "char \<Rightarrow> nat" where
  "byte_of c = of_char c"

definition ascii_upper_char :: "char \<Rightarrow> char" where
  "ascii_upper_char c = (let n = byte_of c in if 97 \<le> n \<and> n \<le> 122 then char_of (n - 32) else c)"

definition ascii_lower_char :: "char \<Rightarrow> char" where
  "ascii_lower_char c = (let n = byte_of c in if 65 \<le> n \<and> n \<le> 90 then char_of (n + 32) else c)"

definition to_ascii_uppercase :: "str \<Rightarrow> str" where
  "to_ascii_uppercase = map ascii_upper_char"

definition to_ascii_lowercase :: "str \<Rightarrow> str" where
  "to_ascii_lowercase = map ascii_lower_char"

definition eq_ignore_ascii_case :: "str \<Rightarrow> str \<Rightarrow> bool" where
  "eq_ignore_ascii_case a b \<longleftrightarrow> to_ascii_lowercase a = to_ascii_lowercase b"

definition is_ascii_digit :: "char \<Rightarrow> bool" where
  "is_ascii_digit c \<longleftrightarrow> 48 \<le> byte_of c \<and> byte_of c \<le> 57"

definition is_ascii_alphanumeric :: "char \<Rightarrow> bool" where
  "is_ascii_alphanumeric c \<longleftrightarrow>
     (let n = byte_of c in (48 \<le> n \<and> n \<le> 57) \<or> (65 \<le> n \<and> n \<le> 90) \<or> (97 \<le> n \<and> n \<le> 122))"

definition is_ascii_graphic :: "char \<Rightarrow> bool" where
  "is_ascii_graphic c \<longleftrightarrow> 33 \<le> byte_of c \<and> byte_of c \<le> 126"

subsection \<open>States and steps\<close>

text \<open>
  A system of states and steps, and what an invariant of it gives. The store is one, the
  broker another.
\<close>

inductive reaches :: "'s \<Rightarrow> ('s \<Rightarrow> 's \<Rightarrow> bool) \<Rightarrow> 's \<Rightarrow> bool" for start step where
  reaches_start: "reaches start step start"
| reaches_step: "reaches start step s \<Longrightarrow> step s t \<Longrightarrow> reaches start step t"

locale invariant_of =
  fixes start :: 's and step :: "'s \<Rightarrow> 's \<Rightarrow> bool" and inv :: "'s \<Rightarrow> bool"
  assumes inv_start: "inv start" and inv_step: "inv s \<Longrightarrow> step s t \<Longrightarrow> inv t"
begin

lemma inv_reaches: "reaches start step s \<Longrightarrow> inv s"
  by (induction rule: reaches.induct) (auto intro: inv_start inv_step)

end

end
