(* ===== verification/Sorted_Map.thy ===== *)
theory Sorted_Map
  imports Prelude
begin

text \<open>
  The standard library's ordered collections. A \<open>BTreeMap\<close> is a list of entries with
  strictly increasing keys, kept as a type of its own so that two maps with the same
  lookups are equal; a \<open>BTreeSet\<close> is such a map to \<open>unit\<close>. \<open>HashMap\<close>s of the
  program are modelled by the same type: where the program walks over one, the model walks
  in key order, one of the orders a \<open>HashMap\<close> may take.
\<close>

subsection \<open>Sorted association lists\<close>

abbreviation ssorted :: "'a::linorder list \<Rightarrow> bool" where
  "ssorted xs \<equiv> sorted_wrt (<) xs"

fun al_insert :: "'k::linorder \<Rightarrow> 'v \<Rightarrow> ('k \<times> 'v) list \<Rightarrow> ('k \<times> 'v) list" where
  "al_insert k v [] = [(k, v)]"
| "al_insert k v ((a, b) # xs) =
     (if k < a then (k, v) # (a, b) # xs
      else if k = a then (k, v) # xs
      else (a, b) # al_insert k v xs)"

lemma set_fst_al_insert: "fst ` set (al_insert k v xs) = insert k (fst ` set xs)"
  by (induction k v xs rule: al_insert.induct) auto

lemma ssorted_al_insert: "ssorted (map fst xs) \<Longrightarrow> ssorted (map fst (al_insert k v xs))"
proof (induction k v xs rule: al_insert.induct)
  case (2 k v a b xs)
  have "a < x" if "x \<in> fst ` set (al_insert k v xs)" and "a < k" for x
    using that 2(2) by (auto simp: set_fst_al_insert)
  with 2 show ?case by fastforce
qed simp

lemma map_of_al_insert: "map_of (al_insert k v xs) = (map_of xs)(k \<mapsto> v)"
  by (induction k v xs rule: al_insert.induct) (auto simp: fun_eq_iff)

lemma map_of_filter_key:
  "map_of (filter (\<lambda>(a, b). P a) xs) k = (if P k then map_of xs k else None)"
  by (induction xs) auto

lemma ssorted_filter: "ssorted (map fst xs) \<Longrightarrow> ssorted (map fst (filter P xs))"
  by (induction xs) auto

lemma map_of_map_entry:
  "map_of (map (\<lambda>(a, b). (a, f a b)) xs) k = map_option (f k) (map_of xs k)"
  by (induction xs) auto

lemma map_of_filter_entry:
  assumes "distinct (map fst xs)"
  shows "map_of (filter (\<lambda>(a, b). P a b) xs) k =
    (case map_of xs k of None \<Rightarrow> None | Some v \<Rightarrow> if P k v then Some v else None)"
  using assms
proof (induction xs)
  case (Cons x xs)
  obtain a b where x: "x = (a, b)" by fastforce
  show ?case
  proof (cases "k = a")
    case True
    with Cons.prems x have "map_of xs k = None"
      by (auto simp: map_of_eq_None_iff)
    then have "map_of (filter (\<lambda>(a, b). P a b) xs) k = None"
      by (metis (no_types, lifting) Cons.IH Cons.prems distinct.simps(2) list.simps(9) option.simps(4))
    with True x show ?thesis by simp
  next
    case False
    with Cons x show ?thesis by simp
  qed
qed simp

lemma ssorted_distinct: "ssorted (xs :: 'a::linorder list) \<Longrightarrow> distinct xs"
  by (induction xs) auto

lemma ssorted_map_of_eq:
  assumes "ssorted (map fst xs)" and "ssorted (map fst ys)" and "map_of xs = map_of ys"
  shows "xs = ys"
proof -
  have d: "distinct (map fst xs)" "distinct (map fst ys)"
    using assms by (simp_all add: strict_sorted_iff)
  have s: "set xs = set ys"
    using map_of_inject_set [OF d] assms(3) by simp
  have "sorted (map fst xs)" "sorted (map fst ys)"
    using assms(1,2) by (simp_all add: strict_sorted_iff)
  moreover have "inj_on fst (set xs \<union> set ys)"
    using d s by (simp add: distinct_map)
  ultimately show ?thesis
    using d s map_sorted_distinct_set_unique [of fst xs ys] by blast
qed

subsection \<open>The type of ordered maps\<close>

typedef (overloaded) ('k, 'v) btree_map =
  "{xs :: ('k::linorder \<times> 'v) list. ssorted (map fst xs)}"
  morphisms bm_entries Btree_map
  by (rule exI [of _ "[]"]) simp

setup_lifting type_definition_btree_map

lemma ssorted_entries [simp]: "ssorted (map fst (bm_entries m))"
  using bm_entries [of m] by simp

lemma distinct_entries [simp]: "distinct (map fst (bm_entries m))"
  using ssorted_entries ssorted_distinct by blast

lift_definition bm_empty :: "('k::linorder, 'v) btree_map" is "[]"
  by simp

lift_definition bm_insert :: "'k::linorder \<Rightarrow> 'v \<Rightarrow> ('k, 'v) btree_map \<Rightarrow> ('k, 'v) btree_map"
  is al_insert
  by (rule ssorted_al_insert)

text \<open>\<open>retain\<close>: keep the entries that satisfy a predicate.\<close>

lift_definition bm_filter ::
  "('k::linorder \<Rightarrow> 'v \<Rightarrow> bool) \<Rightarrow> ('k, 'v) btree_map \<Rightarrow> ('k, 'v) btree_map"
  is "\<lambda>P xs. filter (\<lambda>(k, v). P k v) xs"
  by (rule ssorted_filter)

text \<open>\<open>values_mut\<close>: change every value in place.\<close>

lift_definition bm_map ::
  "('k::linorder \<Rightarrow> 'v \<Rightarrow> 'w) \<Rightarrow> ('k, 'v) btree_map \<Rightarrow> ('k, 'w) btree_map"
  is "\<lambda>f xs. map (\<lambda>(k, v). (k, f k v)) xs"
  by (simp add: case_prod_beta comp_def)

definition bm_get :: "('k::linorder, 'v) btree_map \<Rightarrow> 'k \<Rightarrow> 'v option" where
  "bm_get m k = map_of (bm_entries m) k"

definition bm_remove :: "'k::linorder \<Rightarrow> ('k, 'v) btree_map \<Rightarrow> ('k, 'v) btree_map" where
  "bm_remove k m = bm_filter (\<lambda>a _. a \<noteq> k) m"

text \<open>\<open>get_mut\<close> followed by a change of what it found; a missing key changes nothing.\<close>

definition bm_update ::
  "'k::linorder \<Rightarrow> ('v \<Rightarrow> 'v) \<Rightarrow> ('k, 'v) btree_map \<Rightarrow> ('k, 'v) btree_map" where
  "bm_update k f m = bm_map (\<lambda>a v. if a = k then f v else v) m"

definition bm_keys :: "('k::linorder, 'v) btree_map \<Rightarrow> 'k list" where
  "bm_keys m = map fst (bm_entries m)"

definition bm_values :: "('k::linorder, 'v) btree_map \<Rightarrow> 'v list" where
  "bm_values m = map snd (bm_entries m)"

definition bm_len :: "('k::linorder, 'v) btree_map \<Rightarrow> nat" where
  "bm_len m = length (bm_entries m)"

definition bm_contains :: "('k::linorder, 'v) btree_map \<Rightarrow> 'k \<Rightarrow> bool" where
  "bm_contains m k \<longleftrightarrow> bm_get m k \<noteq> None"

text \<open>\<open>range\<close> with an excluded or an included start, and \<open>range(..end)\<close>.\<close>

definition bm_after :: "'k::linorder \<Rightarrow> ('k, 'v) btree_map \<Rightarrow> ('k \<times> 'v) list" where
  "bm_after k m = filter (\<lambda>(a, _). k < a) (bm_entries m)"

definition bm_from :: "'k::linorder \<Rightarrow> ('k, 'v) btree_map \<Rightarrow> ('k \<times> 'v) list" where
  "bm_from k m = filter (\<lambda>(a, _). k \<le> a) (bm_entries m)"

definition bm_before :: "'k::linorder \<Rightarrow> ('k, 'v) btree_map \<Rightarrow> ('k \<times> 'v) list" where
  "bm_before k m = filter (\<lambda>(a, _). a < k) (bm_entries m)"

fun al_last :: "'a list \<Rightarrow> 'a option" where
  "al_last [] = None"
| "al_last [x] = Some x"
| "al_last (x # y # xs) = al_last (y # xs)"

definition bm_first :: "('k::linorder, 'v) btree_map \<Rightarrow> ('k \<times> 'v) option" where
  "bm_first m = (case bm_entries m of [] \<Rightarrow> None | x # _ \<Rightarrow> Some x)"

definition bm_last :: "('k::linorder, 'v) btree_map \<Rightarrow> ('k \<times> 'v) option" where
  "bm_last m = al_last (bm_entries m)"

text \<open>\<open>collect\<close> into a map: later pairs overwrite earlier ones with the same key.\<close>

definition bm_of_list :: "('k::linorder \<times> 'v) list \<Rightarrow> ('k, 'v) btree_map" where
  "bm_of_list xs = fold (\<lambda>(k, v). bm_insert k v) xs bm_empty"

instantiation btree_map :: (linorder, equal) equal
begin

definition equal_btree_map :: "('a, 'b) btree_map \<Rightarrow> ('a, 'b) btree_map \<Rightarrow> bool" where
  "equal_btree_map m n \<longleftrightarrow>
     list_all2 (\<lambda>(k, v) (k', v'). k \<le> k' \<and> k' \<le> k \<and> v = v') (bm_entries m) (bm_entries n)"

instance
proof
  fix m n :: "('a, 'b) btree_map"
  have "(\<lambda>(k, v) (k', v'). k \<le> k' \<and> k' \<le> k \<and> v = v') = ((=) :: 'a \<times> 'b \<Rightarrow> 'a \<times> 'b \<Rightarrow> bool)"
    by (auto simp: fun_eq_iff)
  then show "HOL.equal m n = (m = n)"
    by (simp add: equal_btree_map_def list.rel_eq bm_entries_inject)
qed

end

instantiation btree_map :: (linorder, type) size
begin

definition size_btree_map :: "('a, 'b) btree_map \<Rightarrow> nat" where
  "size_btree_map m = length (bm_entries m)"

instance ..

end

subsection \<open>Lookups\<close>

lemma bm_eqI: "(\<And>k. bm_get m k = bm_get n k) \<Longrightarrow> m = n"
  by (metis bm_entries_inject bm_get_def ext ssorted_entries ssorted_map_of_eq)

lemma bm_get_empty [simp, map_simps]: "bm_get bm_empty k = None"
  by (simp add: bm_get_def bm_empty.rep_eq)

lemma bm_get_insert [simp, map_simps]:
  "bm_get (bm_insert k v m) a = (if a = k then Some v else bm_get m a)"
  by (simp add: bm_get_def bm_insert.rep_eq map_of_al_insert)

lemma bm_get_filter [simp, map_simps]:
  "bm_get (bm_filter P m) k =
    (case bm_get m k of None \<Rightarrow> None | Some v \<Rightarrow> if P k v then Some v else None)"
  by (simp add: bm_get_def bm_filter.rep_eq map_of_filter_entry)

lemma bm_get_map [simp, map_simps]: "bm_get (bm_map f m) k = map_option (f k) (bm_get m k)"
  by (simp add: bm_get_def bm_map.rep_eq map_of_map_entry)

lemma bm_get_remove [simp, map_simps]:
  "bm_get (bm_remove k m) a = (if a = k then None else bm_get m a)"
  by (simp add: bm_remove_def split: option.splits)

lemma bm_get_update [simp, map_simps]:
  "bm_get (bm_update k f m) a = (if a = k then map_option f (bm_get m a) else bm_get m a)"
  by (cases "bm_get m a") (auto simp: bm_update_def)

lemma bm_contains_iff [simp]: "bm_contains m k \<longleftrightarrow> (\<exists>v. bm_get m k = Some v)"
  by (auto simp: bm_contains_def)

lemma in_entries: "(k, v) \<in> set (bm_entries m) \<longleftrightarrow> bm_get m k = Some v"
  by (simp add: bm_get_def)

lemma in_keys [simp]: "k \<in> set (bm_keys m) \<longleftrightarrow> (\<exists>v. bm_get m k = Some v)"
  by (force simp: bm_keys_def in_entries [symmetric])

lemma in_values [simp]: "v \<in> set (bm_values m) \<longleftrightarrow> (\<exists>k. bm_get m k = Some v)"
  by (force simp: bm_values_def in_entries [symmetric])

lemma ssorted_keys [simp]: "ssorted (bm_keys m)"
  by (simp add: bm_keys_def)

lemma distinct_keys [simp]: "distinct (bm_keys m)"
  by (simp add: bm_keys_def)

lemma length_keys [simp]: "length (bm_keys m) = bm_len m"
  by (simp add: bm_keys_def bm_len_def)

lemma finite_dom_bm_get [simp]: "finite {k. \<exists>v. bm_get m k = Some v}"
  using finite_set [of "bm_keys m"] by (simp only: in_keys [symmetric] Collect_mem_eq)

lemma bm_len_card: "bm_len m = card {k. \<exists>v. bm_get m k = Some v}"
proof -
  have "{k. \<exists>v. bm_get m k = Some v} = set (bm_keys m)" by auto
  then show ?thesis using distinct_card [OF distinct_keys, of m] by simp
qed

lemma bm_get_of_list_fold:
  "bm_get (fold (\<lambda>(k, v). bm_insert k v) xs m) k =
    (case map_of (rev xs) k of None \<Rightarrow> bm_get m k | Some v \<Rightarrow> Some v)"
  by (induction xs arbitrary: m) (auto simp: map_add_def split: option.splits)

lemma bm_get_of_list [simp, map_simps]: "bm_get (bm_of_list xs) k = map_of (rev xs) k"
  by (simp add: bm_of_list_def bm_get_of_list_fold split: option.splits)

lemma in_after: "(a, v) \<in> set (bm_after k m) \<longleftrightarrow> bm_get m a = Some v \<and> k < a"
  by (auto simp: bm_after_def in_entries)

lemma in_from: "(a, v) \<in> set (bm_from k m) \<longleftrightarrow> bm_get m a = Some v \<and> k \<le> a"
  by (auto simp: bm_from_def in_entries)

lemma in_before: "(a, v) \<in> set (bm_before k m) \<longleftrightarrow> bm_get m a = Some v \<and> a < k"
  by (auto simp: bm_before_def in_entries)

lemma al_last_eq: "al_last xs = (if xs = [] then None else Some (List.last xs))"
  by (induction xs rule: al_last.induct) auto

lemma ssorted_last: "ssorted (map fst xs) \<Longrightarrow> x \<in> set xs \<Longrightarrow> fst x \<le> fst (List.last xs)"
proof (induction xs)
  case (Cons a xs)
  have "xs \<noteq> [] \<Longrightarrow> fst a \<le> fst (List.last xs)" using Cons.prems(1) by (auto simp: less_imp_le)
  with Cons show ?case by auto
qed simp

lemma bm_last_None: "bm_last m = None \<longleftrightarrow> bm_entries m = []"
  by (simp add: bm_last_def al_last_eq)

lemma bm_last_Some:
  assumes "bm_last m = Some (a, b)"
  shows "bm_get m a = Some b" and "bm_get m k = Some v \<Longrightarrow> k \<le> a"
proof -
  have l: "bm_entries m \<noteq> []" "List.last (bm_entries m) = (a, b)"
    using assms by (auto simp: bm_last_def al_last_eq split: if_splits)
  then show "bm_get m a = Some b" using last_in_set [OF l(1)] by (simp add: in_entries)
  show "bm_get m k = Some v \<Longrightarrow> k \<le> a"
    using ssorted_last [OF ssorted_entries, of "(k, v)" m] l(2) by (simp add: in_entries)
qed

subsection \<open>Ordered sets\<close>

type_synonym 'a btree_set = "('a, unit) btree_map"

definition bs_elems :: "'a::linorder btree_set \<Rightarrow> 'a set" where
  "bs_elems s = {x. bm_get s x = Some ()}"

abbreviation bs_insert :: "'a::linorder \<Rightarrow> 'a btree_set \<Rightarrow> 'a btree_set" where
  "bs_insert x s \<equiv> bm_insert x () s"

abbreviation bs_remove :: "'a::linorder \<Rightarrow> 'a btree_set \<Rightarrow> 'a btree_set" where
  "bs_remove x s \<equiv> bm_remove x s"

abbreviation bs_list :: "'a::linorder btree_set \<Rightarrow> 'a list" where
  "bs_list s \<equiv> bm_keys s"

definition bs_of_list :: "'a::linorder list \<Rightarrow> 'a btree_set" where
  "bs_of_list xs = fold (\<lambda>x. bm_insert x ()) xs bm_empty"

definition bs_union :: "'a::linorder btree_set \<Rightarrow> 'a btree_set \<Rightarrow> 'a btree_set" where
  "bs_union s t = fold (\<lambda>x. bm_insert x ()) (bm_keys t) s"

lemma bs_elems_empty [simp, map_simps]: "bs_elems bm_empty = {}"
  by (simp add: bs_elems_def)

lemma bs_elems_insert [simp, map_simps]: "bs_elems (bm_insert x () s) = insert x (bs_elems s)"
  by (auto simp: bs_elems_def)

lemma bs_elems_remove [simp, map_simps]: "bs_elems (bm_remove x s) = bs_elems s - {x}"
  by (auto simp: bs_elems_def split: if_splits)

lemma set_bs_list [simp]: "set (bm_keys s) = bs_elems s"
  by (auto simp: bs_elems_def)

lemmas bs_elems_code [code] = set_bs_list [symmetric]

lemma bs_contains [simp]: "bm_get s x = Some u \<longleftrightarrow> x \<in> bs_elems s"
  by (simp only: bs_elems_def mem_Collect_eq unit_eq [of u])

lemma bs_eqI: "bs_elems s = bs_elems t \<Longrightarrow> s = t"
  by (rule bm_eqI) (metis bs_contains not_None_eq)

lemma bs_elems_fold_insert: "bs_elems (fold (\<lambda>x. bm_insert x ()) xs s) = bs_elems s \<union> set xs"
  by (induction xs arbitrary: s) auto

lemma bs_elems_of_list [simp, map_simps]: "bs_elems (bs_of_list xs) = set xs"
  by (simp add: bs_of_list_def bs_elems_fold_insert)

lemma bs_elems_union [simp, map_simps]: "bs_elems (bs_union s t) = bs_elems s \<union> bs_elems t"
  by (simp add: bs_union_def bs_elems_fold_insert)

lemma finite_bs_elems [simp]: "finite (bs_elems s)"
  using finite_set [of "bm_keys s"] by simp

end
