(* ===== verification/Zset.thy ===== *)
theory Zset
  imports Sorted_Map
begin

text \<open>
  Sorted sets (\<open>ZSet\<close> of \<open>src/src/db.rs\<close>): members ordered by score and name, with an index
  from member to score. A score is an IEEE double kept as its 64 bits, so that the total
  order the standard library's \<open>total_cmp\<close> gives, the two zeros, the infinities and
  \<open>next_up\<close> are those of the program. NaN never enters: it is refused on input.
\<close>

subsection \<open>Doubles as bits\<close>

type_synonym f64 = u64

definition f_neg :: "f64 \<Rightarrow> bool" where
  "f_neg x \<longleftrightarrow> bit x 63"

definition f_abs :: "f64 \<Rightarrow> f64" where
  "f_abs x = x AND 0x7FFFFFFFFFFFFFFF"

definition f_infinity :: f64 where "f_infinity = 0x7FF0000000000000"
definition f_neg_infinity :: f64 where "f_neg_infinity = 0xFFF0000000000000"

definition f_nan :: "f64 \<Rightarrow> bool" where
  "f_nan x \<longleftrightarrow> f_abs x > f_infinity"

text \<open>
  The bits of two numbers of one sign are ordered as their magnitudes, so the comparison
  \<open><\<close> and \<open>==\<close> of doubles that are not NaN is that of the signed magnitudes, zero having two
  representations.
\<close>

definition f_val :: "f64 \<Rightarrow> int" where
  "f_val x = (if f_neg x then - uint (f_abs x) else uint (f_abs x))"

definition f_lt :: "f64 \<Rightarrow> f64 \<Rightarrow> bool" where "f_lt x y \<longleftrightarrow> f_val x < f_val y"
definition f_le :: "f64 \<Rightarrow> f64 \<Rightarrow> bool" where "f_le x y \<longleftrightarrow> f_val x \<le> f_val y"
definition f_eq :: "f64 \<Rightarrow> f64 \<Rightarrow> bool" where "f_eq x y \<longleftrightarrow> f_val x = f_val y"

text \<open>\<open>next_up\<close> of the standard library, on the bits.\<close>

definition f_next_up :: "f64 \<Rightarrow> f64" where
  "f_next_up x =
     (if f_nan x \<or> x = f_infinity then x
      else if f_abs x = 0 then 1
      else if x = f_abs x then x + 1 else x - 1)"

text \<open>\<open>total_cmp\<close>: the bits of a negative number, but for the sign, are flipped, and the
  result compared as signed integers.\<close>

definition total_key :: "f64 \<Rightarrow> int" where
  "total_key x = sint (x XOR drop_bit 1 (if f_neg x then -1 else 0))"

datatype score = Score (score_bits: f64)

lemma f_bound: "uint (f_abs x) < 2 ^ 63"
proof -
  have "f_abs x = take_bit 63 x"
    by (simp add: f_abs_def take_bit_eq_mask mask_eq_exp_minus_1)
  then have "uint (f_abs x) = take_bit 63 (uint x)" by (simp add: unsigned_take_bit_eq)
  then show ?thesis by (simp only: take_bit_int_less_exp)
qed

lemma f_split: "uint x = (if f_neg x then 2 ^ 63 else 0) + uint (f_abs x)"
proof -
  have "f_abs x = take_bit 63 x"
    by (simp add: f_abs_def take_bit_eq_mask mask_eq_exp_minus_1)
  then have a: "uint (f_abs x) = take_bit 63 (uint x)" by (simp add: unsigned_take_bit_eq)
  have "uint x < 2 ^ 64" using unsigned_less [of x] by simp
  then have "uint x = take_bit 64 (uint x)" by (simp add: take_bit_int_eq_self)
  also have "\<dots> = (if bit (uint x) 63 then 2 ^ 63 else 0) + take_bit 63 (uint x)"
    using take_bit_Suc_from_most [of 63 "uint x"] by (simp add: of_bool_def)
  finally show ?thesis using a by (simp add: f_neg_def bit_uint_iff)
qed

lemma f_abs_neg: "x = f_abs x \<longleftrightarrow> \<not> f_neg x"
  using f_split [of x] by (auto simp: word_uint_eq_iff split: if_splits)

lemma sint_small: "uint y < 2 ^ 63 \<Longrightarrow> sint (y :: u64) = uint y"
proof -
  assume "uint y < 2 ^ 63"
  moreover have "- (2 ^ 63) \<le> uint y" by (rule order_trans [OF _ uint_ge_0]) simp
  ultimately show ?thesis using signed_take_bit_int_eq_self [of 63 "uint y"] by (simp add: sint_uint)
qed

lemma sint_not_small:
  assumes "uint y < 2 ^ 63"
  shows "sint (NOT y :: u64) = - uint y - 1"
proof -
  have "sint (NOT y) = signed_take_bit 64 (NOT (sint y))"
    using signed_not_eq [of y, where 'a = int] by simp
  also have "NOT (sint y) = - uint y - 1" using sint_small [OF assms] by (simp add: not_int_def)
  also have "signed_take_bit 64 (- uint y - 1) = - uint y - 1"
  proof -
    have "signed_take_bit 64 (- k - 1) = - k - 1" if "k < 2 ^ 63" "0 \<le> k" for k :: int
      using that by (intro signed_take_bit_int_eq_self) simp_all
    from this [OF assms uint_ge_0] show ?thesis .
  qed
  finally show ?thesis .
qed

lemma total_key_val: "total_key x = (if f_neg x then - uint (f_abs x) - 1 else uint (f_abs x))"
proof (cases "f_neg x")
  case True
  have m: "(0x7FFFFFFFFFFFFFFF :: u64) = mask 63" by (simp add: mask_eq_exp_minus_1)
  have d: "drop_bit 1 (-1 :: u64) = mask 63"
    by (rule bit_word_eqI) (auto simp: bit_simps)
  have b: "n = 63" if "n < 64" "\<not> n < 63" for n :: nat using that by simp
  have "x XOR mask 63 = NOT (f_abs x)"
    unfolding f_abs_def m using True by (intro bit_word_eqI) (auto simp: bit_simps f_neg_def dest: b)
  then show ?thesis using True d sint_not_small [OF f_bound] by (simp add: total_key_def)
next
  case False
  then have "uint x = uint (f_abs x)" using f_split [of x] by simp
  then show ?thesis using False sint_small [of x] f_bound [of x] by (simp add: total_key_def)
qed

lemma total_key_inject: "total_key x = total_key y \<longleftrightarrow> x = y"
proof
  assume "total_key x = total_key y"
  then have "f_neg x = f_neg y \<and> uint (f_abs x) = uint (f_abs y)"
    using uint_ge_0 [of "f_abs x"] uint_ge_0 [of "f_abs y"] unfolding total_key_val
    by (cases "f_neg x"; cases "f_neg y") (simp_all del: uint_ge_0)
  then have "uint x = uint y" using f_split [of x] f_split [of y] by simp
  then show "x = y" by (simp add: word_uint_eq_iff)
qed simp

instantiation score :: linorder
begin

definition less_eq_score :: "score \<Rightarrow> score \<Rightarrow> bool" where
  "less_eq_score a b \<longleftrightarrow> total_key (score_bits a) \<le> total_key (score_bits b)"

definition less_score :: "score \<Rightarrow> score \<Rightarrow> bool" where
  "less_score a b \<longleftrightarrow> total_key (score_bits a) < total_key (score_bits b)"

instance
proof
  fix x y z :: score
  show "(x < y) = (x \<le> y \<and> \<not> y \<le> x)" by (auto simp: less_eq_score_def less_score_def)
  show "x \<le> x" by (simp add: less_eq_score_def)
  show "x \<le> y \<Longrightarrow> y \<le> z \<Longrightarrow> x \<le> z" by (auto simp: less_eq_score_def)
  show "x \<le> y \<Longrightarrow> y \<le> x \<Longrightarrow> x = y"
    by (cases x; cases y) (simp add: less_eq_score_def total_key_inject [symmetric])
  show "x \<le> y \<or> y \<le> x" by (auto simp: less_eq_score_def)
qed

end

subsection \<open>Numbers and the total order\<close>

definition f_normal :: "f64 \<Rightarrow> bool" where
  "f_normal x \<longleftrightarrow> \<not> f_nan x \<and> x \<noteq> 0x8000000000000000"

lemma f_normal_neg: "f_normal x \<Longrightarrow> f_neg x \<Longrightarrow> 0 < uint (f_abs x)"
proof -
  assume n: "f_normal x" "f_neg x"
  have "uint (f_abs x) \<noteq> 0"
  proof
    assume "uint (f_abs x) = 0"
    then have "uint x = uint (0x8000000000000000 :: u64)" using f_split [of x] n(2) by simp
    then have "x = 0x8000000000000000" by (simp only: word_uint_eq_iff)
    with n(1) show False by (simp add: f_normal_def)
  qed
  then show ?thesis using uint_ge_0 [of "f_abs x"] by linarith
qed

lemma abs_cases: "uint (f_abs x) = 0 \<or> 0 < uint (f_abs x)"
  using uint_ge_0 [of "f_abs x"] by linarith

lemma total_le_iff: "f_normal y \<Longrightarrow> total_key x \<le> total_key y \<longleftrightarrow> f_le x y"
  using f_normal_neg [of y] abs_cases [of x] abs_cases [of y]
  by (auto simp: total_key_val f_le_def f_val_def)

lemma total_lt_iff: "f_normal y \<Longrightarrow> total_key y < total_key x \<longleftrightarrow> f_lt y x"
  using total_le_iff [of y x] by (auto simp: f_le_def f_lt_def)

lemma f_parts_add:
  assumes "\<not> f_neg x" "uint (f_abs x) < 2 ^ 63 - 1"
  shows "\<not> f_neg (x + 1)" "uint (f_abs (x + 1)) = uint (f_abs x) + 1"
proof -
  have "uint x < 2 ^ 63 - 1" using assms f_split [of x] by simp
  then have u: "uint (x + 1) = uint x + 1" by (simp add: uint_word_ariths)
  have "uint (x + 1) < 2 ^ 63" using u \<open>uint x < 2 ^ 63 - 1\<close> by simp
  then show n: "\<not> f_neg (x + 1)" using f_split [of "x + 1"] uint_ge_0 [of "f_abs (x + 1)"]
    by (auto split: if_splits)
  then show "uint (f_abs (x + 1)) = uint (f_abs x) + 1"
    using u f_split [of x] f_split [of "x + 1"] assms(1) by simp
qed

lemma f_parts_sub:
  assumes "f_neg x" "0 < uint (f_abs x)"
  shows "f_neg (x - 1)" "uint (f_abs (x - 1)) = uint (f_abs x) - 1"
proof -
  have "2 ^ 63 < uint x" using assms f_split [of x] by simp
  then have u: "uint (x - 1) = uint x - 1"
    using uint_minus_simple_alt [of 1 x] by (simp add: word_le_def)
  show n: "f_neg (x - 1)"
    using f_split [of "x - 1"] f_bound [of "x - 1"] u \<open>2 ^ 63 < uint x\<close> by (auto split: if_splits)
  then show "uint (f_abs (x - 1)) = uint (f_abs x) - 1"
    using u f_split [of x] f_split [of "x - 1"] assms(1) by simp
qed

lemma next_up_total:
  assumes "\<not> f_nan x" "x \<noteq> f_infinity" "f_normal y"
  shows "total_key (f_next_up x) \<le> total_key y \<longleftrightarrow> f_lt x y"
proof (cases "f_abs x = 0")
  case True
  have "total_key 1 = 1" by code_simp
  then show ?thesis
    using True assms f_normal_neg [of y] abs_cases [of y]
    by (auto simp: f_next_up_def total_key_val f_lt_def f_val_def)
next
  case z: False
  then have pos: "0 < uint (f_abs x)" using uint_ge_0 [of "f_abs x"]
    by (metis order_le_less uint_0_iff)
  have le: "uint (f_abs x) \<le> uint f_infinity"
    using assms(1) by (simp add: f_nan_def not_less word_le_def)
  show ?thesis
  proof (cases "f_neg x")
    case True
    then have "f_next_up x = x - 1" using z assms by (auto simp: f_next_up_def f_abs_neg)
    then show ?thesis
      using f_parts_sub [OF True pos] True f_normal_neg [OF assms(3)] abs_cases [of y] pos
      by (auto simp: total_key_val f_lt_def f_val_def)
  next
    case False
    then have "f_next_up x = x + 1" using z assms by (auto simp: f_next_up_def f_abs_neg)
    moreover have "uint (f_abs x) < 2 ^ 63 - 1" using le by (simp add: f_infinity_def)
    ultimately show ?thesis
      using f_parts_add [OF False] False f_normal_neg [OF assms(3)] abs_cases [of y] pos
      by (auto simp: total_key_val f_lt_def f_val_def)
  qed
qed

subsection \<open>Sorted sets\<close>

type_synonym ranked = "score \<times> str"

record zset =
  zs_scores :: "(str, f64) btree_map"
  zs_order :: "ranked btree_set"

definition zset_empty :: zset where
  "zset_empty = \<lparr>zs_scores = bm_empty, zs_order = bm_empty\<rparr>"

text \<open>Both zeros are stored as the positive one.\<close>

definition f_plain_zero :: "f64 \<Rightarrow> f64" where
  "f_plain_zero s = (if f_eq s 0 then 0 else s)"

definition zset_insert :: "str \<Rightarrow> f64 \<Rightarrow> zset \<Rightarrow> zset \<times> bool" where
  "zset_insert member score z =
     (let s = f_plain_zero score in
      case bm_get (zs_scores z) member of
        Some old \<Rightarrow>
          (z\<lparr>zs_order := bs_insert (Score s, member) (bs_remove (Score old, member) (zs_order z)),
             zs_scores := bm_insert member s (zs_scores z)\<rparr>, False)
      | None \<Rightarrow>
          (z\<lparr>zs_order := bs_insert (Score s, member) (zs_order z),
             zs_scores := bm_insert member s (zs_scores z)\<rparr>, True))"

definition zset_remove :: "str \<Rightarrow> zset \<Rightarrow> zset \<times> bool" where
  "zset_remove member z =
     (case bm_get (zs_scores z) member of
        Some score \<Rightarrow>
          (z\<lparr>zs_scores := bm_remove member (zs_scores z),
             zs_order := bs_remove (Score score, member) (zs_order z)\<rparr>, True)
      | None \<Rightarrow> (z, False))"

definition zset_len :: "zset \<Rightarrow> nat" where
  "zset_len z = bm_len (zs_scores z)"

text \<open>\<open>by_score\<close>: where the range starts, where it ends, and the members between.\<close>

definition range_lower :: "f64 \<times> bool \<Rightarrow> ranked option" where
  "range_lower = (\<lambda>(score, exclusive).
     if exclusive \<and> score = f_infinity then None
     else if exclusive then Some (Score (f_next_up score), [])
     else Some (Score score, []))"

definition range_upper :: "f64 \<times> bool \<Rightarrow> ranked option" where
  "range_upper = (\<lambda>(score, exclusive).
     if \<not> exclusive \<and> score = f_infinity then None
     else if \<not> exclusive then Some (Score (f_next_up score), [])
     else Some (Score score, []))"

definition by_score :: "f64 \<times> bool \<Rightarrow> f64 \<times> bool \<Rightarrow> zset \<Rightarrow> ranked list" where
  "by_score mn mx z =
     (case range_lower mn of
        None \<Rightarrow> []
      | Some lo \<Rightarrow>
          (case range_upper mx of
             None \<Rightarrow> filter (\<lambda>r. lo \<le> r) (bs_list (zs_order z))
           | Some hi \<Rightarrow> if lo < hi then filter (\<lambda>r. lo \<le> r \<and> r < hi) (bs_list (zs_order z)) else []))"

text \<open>The index and the order hold the same members, no score is NaN and none is minus zero.\<close>

definition zset_ok :: "zset \<Rightarrow> bool" where
  "zset_ok z \<longleftrightarrow>
     (\<forall>s m. (Score s, m) \<in> bs_elems (zs_order z) \<longleftrightarrow> bm_get (zs_scores z) m = Some s) \<and>
     (\<forall>m s. bm_get (zs_scores z) m = Some s \<longrightarrow> f_normal s)"

lemma f_plain_zero_normal: "\<not> f_nan s \<Longrightarrow> f_normal (f_plain_zero s)"
proof -
  assume n: "\<not> f_nan s"
  have "f_normal 0" by code_simp
  moreover have "f_eq 0x8000000000000000 0" by code_simp
  ultimately show ?thesis using n by (auto simp: f_plain_zero_def f_normal_def)
qed

lemma zset_empty_ok: "zset_ok zset_empty"
  by (simp add: zset_ok_def zset_empty_def)

lemma zset_insert_ok: "zset_ok z \<Longrightarrow> \<not> f_nan s \<Longrightarrow> zset_ok (fst (zset_insert m s z))"
  using f_plain_zero_normal [of s]
  by (auto simp: zset_ok_def zset_insert_def Let_def split: option.splits if_splits)

lemma zset_remove_ok: "zset_ok z \<Longrightarrow> zset_ok (fst (zset_remove m z))"
  by (auto simp: zset_ok_def zset_remove_def split: option.splits if_splits)

text \<open>Everything a sorted set can become, starting empty and never given a NaN.\<close>

inductive zset_reachable :: "zset \<Rightarrow> bool" where
  zset_start: "zset_reachable zset_empty"
| zset_step_insert: "zset_reachable z \<Longrightarrow> \<not> f_nan s \<Longrightarrow> zset_reachable (fst (zset_insert m s z))"
| zset_step_remove: "zset_reachable z \<Longrightarrow> zset_reachable (fst (zset_remove m z))"

lemma zset_reachable_ok: "zset_reachable z \<Longrightarrow> zset_ok z"
  by (induction rule: zset_reachable.induct) (simp_all add: zset_empty_ok zset_insert_ok zset_remove_ok)

lemma ranked_lower: "(Score x, []) \<le> (Score s, m :: str) \<longleftrightarrow> total_key x \<le> total_key s"
  by (auto simp: less_score_def less_eq_score_def)

lemma ranked_upper: "(Score s, m :: str) < (Score x, []) \<longleftrightarrow> total_key s < total_key x"
  by (auto simp: less_score_def less_eq_score_def)

definition above_min :: "f64 \<times> bool \<Rightarrow> f64 \<Rightarrow> bool" where
  "above_min = (\<lambda>(mn, exclusive) s. if exclusive then f_lt mn s else f_le mn s)"

definition below_max :: "f64 \<times> bool \<Rightarrow> f64 \<Rightarrow> bool" where
  "below_max = (\<lambda>(mx, exclusive) s. if exclusive then f_lt s mx else f_le s mx)"

lemma f_normal_le_infinity: "\<not> f_nan s \<Longrightarrow> f_le s f_infinity \<and> \<not> f_lt f_infinity s"
proof -
  assume "\<not> f_nan s"
  then have "uint (f_abs s) \<le> uint f_infinity" by (simp add: f_nan_def not_less word_le_def)
  moreover have "f_val f_infinity = uint f_infinity" by code_simp
  moreover have "0 \<le> uint f_infinity" by simp
  ultimately show ?thesis
    using abs_cases [of s] by (auto simp: f_le_def f_lt_def f_val_def)
qed

lemma f_normal_nan: "f_normal s \<Longrightarrow> \<not> f_nan s"
  by (simp add: f_normal_def)

lemma range_lower_iff:
  assumes "\<not> f_nan (fst mn)" "f_normal s"
  shows "(case range_lower mn of None \<Rightarrow> False | Some lo \<Rightarrow> lo \<le> (Score s, m)) \<longleftrightarrow> above_min mn s"
  using assms f_normal_le_infinity [of s, OF f_normal_nan [OF assms(2)]]
    next_up_total [of "fst mn" s] total_le_iff [of s "fst mn"]
  by (cases mn) (auto simp: range_lower_def above_min_def ranked_lower simp del: less_eq_prod_simp less_prod_simp)

lemma range_upper_iff:
  assumes "\<not> f_nan (fst mx)" "f_normal s"
  shows "(case range_upper mx of None \<Rightarrow> True | Some hi \<Rightarrow> (Score s, m) < hi) \<longleftrightarrow> below_max mx s"
proof -
  have "total_key s < total_key (f_next_up (fst mx)) \<longleftrightarrow> f_le s (fst mx)" if "fst mx \<noteq> f_infinity"
    using next_up_total [OF assms(1) that assms(2)] by (auto simp: f_le_def f_lt_def)
  then show ?thesis
    using assms f_normal_le_infinity [of s, OF f_normal_nan [OF assms(2)]]
    by (cases mx) (auto simp: range_upper_def below_max_def ranked_upper total_lt_iff simp del: less_eq_prod_simp less_prod_simp)
qed

lemma by_score_filter:
  "by_score mn mx z = filter (\<lambda>r. (case range_lower mn of None \<Rightarrow> False | Some lo \<Rightarrow> lo \<le> r) \<and>
      (case range_upper mx of None \<Rightarrow> True | Some hi \<Rightarrow> r < hi)) (bs_list (zs_order z))"
  by (auto simp: by_score_def filter_empty_conv split: option.splits intro!: filter_False [symmetric])

text \<open>
  C34: for any sorted set the program can hold, the range of scores between two bounds is
  exactly the members whose score is numerically within them, in order, infinities and
  both zeros included.
\<close>

theorem by_score_exact:
  assumes "zset_reachable z" "\<not> f_nan (fst mn)" "\<not> f_nan (fst mx)"
  shows "by_score mn mx z =
      filter (\<lambda>(s, m). above_min mn (score_bits s) \<and> below_max mx (score_bits s)) (bs_list (zs_order z)) \<and>
    set (by_score mn mx z) =
      {(Score s, m) | s m. bm_get (zs_scores z) m = Some s \<and> above_min mn s \<and> below_max mx s}"
proof -
  have ok: "zset_ok z" using assms(1) by (rule zset_reachable_ok)
  have elem: "(s, m) \<in> bs_elems (zs_order z) \<longleftrightarrow> bm_get (zs_scores z) m = Some (score_bits s)" for s m
    using ok by (cases s) (simp add: zset_ok_def)
  have norm: "f_normal (score_bits s)" if "(s, m) \<in> set (bs_list (zs_order z))" for s m
    using that ok elem [of s m] by (auto simp: zset_ok_def)
  have f: "by_score mn mx z =
      filter (\<lambda>(s, m). above_min mn (score_bits s) \<and> below_max mx (score_bits s)) (bs_list (zs_order z))"
    unfolding by_score_filter
  proof (rule filter_cong [OF refl])
    fix r assume r: "r \<in> set (bs_list (zs_order z))"
    obtain s m where rs: "r = (s, m)" by fastforce
    obtain b where s: "s = Score b" by (cases s)
    have "f_normal b" using norm [of s m] r rs s by simp
    then show "((case range_lower mn of None \<Rightarrow> False | Some lo \<Rightarrow> lo \<le> r) \<and>
        (case range_upper mx of None \<Rightarrow> True | Some hi \<Rightarrow> r < hi)) =
      (case r of (s, m) \<Rightarrow> above_min mn (score_bits s) \<and> below_max mx (score_bits s))"
      using range_lower_iff [OF assms(2), of b m] range_upper_iff [OF assms(3), of b m] unfolding rs s by simp
  qed
  show ?thesis
    unfolding f by (auto simp: elem intro: score.collapse [symmetric])
qed

lemma by_score_exact_witness:
  "set (by_score (0, True) (f_infinity, False) (fst (zset_insert ''a'' 1 zset_empty))) =
    {(Score s, m) | s m. bm_get (zs_scores (fst (zset_insert ''a'' 1 zset_empty))) m = Some s \<and>
      above_min (0, True) s \<and> below_max (f_infinity, False) s}"
proof -
  have "\<not> f_nan 1" "\<not> f_nan 0" "\<not> f_nan f_infinity" by code_simp+
  then show ?thesis
    using by_score_exact [OF zset_step_insert [OF zset_start], of 1 "(0, True)" "(f_infinity, False)" "''a''"]
    unfolding fst_conv by blast
qed

end
