(* ===== verification/Capture.thy ===== *)
theory Capture
  imports Sorted_Map
begin

text \<open>
  Writing a map out as it was at one moment while it goes on changing: the capture both
  \<open>src/src/capture.rs\<close> (rooms and messages) and \<open>src/src/db.rs\<close> (the keyspace) keep, and the
  map of the former. Every change to a key goes through \<open>preserve\<close>, which writes the key
  first if the capture has not reached it.

  What \<open>serde_json::to_writer\<close> writes for a value is a parameter \<open>ser\<close>: the text of the
  value, or \<open>None\<close> when it fails. A budget of \<open>None\<close> is \<open>usize::MAX\<close>, which no output
  reaches.
\<close>

subsection \<open>The capture\<close>

record (overloaded) 'k capture_state =
  cs_cursor :: "'k option"
  cs_early :: "'k btree_set"
  cs_parts :: "str list"
  cs_out :: str
  cs_filled :: nat
  cs_written :: nat
  cs_done :: bool
  cs_broken :: bool

definition capture_part :: nat where
  "capture_part = 2 ^ 20"

definition capture_size :: "('k::linorder, 'e) capture_state_scheme \<Rightarrow> nat" where
  "capture_size c = cs_filled c + length (cs_out c)"

definition capture_reached :: "('k::linorder, 'e) capture_state_scheme \<Rightarrow> 'k \<Rightarrow> bool" where
  "capture_reached c key \<longleftrightarrow>
     cs_done c \<or> (case cs_cursor c of Some cur \<Rightarrow> key \<le> cur | None \<Rightarrow> False)"

text \<open>\<open>Capture::write\<close>: a full part is set aside first; a value that fails leaves no trace.\<close>

definition capture_write ::
  "str option \<Rightarrow> ('k::linorder, 'e) capture_state_scheme \<Rightarrow> ('k, 'e) capture_state_scheme" where
  "capture_write text c =
     (let c = (if length (cs_out c) \<ge> capture_part
               then c\<lparr>cs_filled := cs_filled c + length (cs_out c), cs_parts := cs_parts c @ [cs_out c], cs_out := []\<rparr>
               else c);
          sep = (if cs_written c > 0 then '','' else [])
      in case text of
           Some t \<Rightarrow> c\<lparr>cs_out := cs_out c @ sep @ t, cs_written := cs_written c + 1\<rparr>
         | None \<Rightarrow> c\<lparr>cs_broken := True\<rparr>)"

text \<open>Whether a key still has to be written, and the note that it now is, as \<open>preserve\<close> does.\<close>

definition capture_preserve ::
  "bool \<Rightarrow> 'k::linorder \<Rightarrow> str option option \<Rightarrow> ('k, 'e) capture_state_scheme \<Rightarrow> ('k, 'e) capture_state_scheme" where
  "capture_preserve passed key held c =
     (if passed \<or> bm_contains (cs_early c) key then c
      else
        (let c = c\<lparr>cs_early := bs_insert key (cs_early c)\<rparr>
         in case held of Some text \<Rightarrow> capture_write text c | None \<Rightarrow> c))"

definition within :: "nat \<Rightarrow> nat option \<Rightarrow> bool" where
  "within used budget = (case budget of None \<Rightarrow> True | Some b \<Rightarrow> used < b)"

text \<open>The loop of \<open>capture_step\<close> over a run of entries, and the last key it took.\<close>

fun capture_loop ::
  "('k::linorder \<Rightarrow> 'v \<Rightarrow> str option) \<Rightarrow> nat option \<Rightarrow> nat \<Rightarrow> ('k \<times> 'v) list \<Rightarrow> 'k option \<Rightarrow>
   ('k, 'e) capture_state_scheme \<Rightarrow> ('k, 'e) capture_state_scheme \<times> 'k option" where
  "capture_loop ser budget start [] taken c =
     (if within (capture_size c - start) budget then (c\<lparr>cs_done := True\<rparr>, taken) else (c, taken))"
| "capture_loop ser budget start ((key, v) # run) taken c =
     (if within (capture_size c - start) budget then
        capture_loop ser budget start run (Some key)
          (if bm_contains (cs_early c) key then c\<lparr>cs_early := bs_remove key (cs_early c)\<rparr>
           else capture_write (ser key v) c)
      else (c, taken))"

definition capture_take ::
  "('k::linorder \<Rightarrow> 'v \<Rightarrow> str option) \<Rightarrow> nat option \<Rightarrow> ('k \<times> 'v) list \<Rightarrow>
   ('k, 'e) capture_state_scheme \<Rightarrow> ('k, 'e) capture_state_scheme" where
  "capture_take ser budget run c =
     (case capture_loop ser budget (capture_size c) run None c of
        (c, Some key) \<Rightarrow> c\<lparr>cs_cursor := Some key\<rparr>
      | (c, None) \<Rightarrow> c)"

definition run_after :: "'k::linorder option \<Rightarrow> ('k, 'v) btree_map \<Rightarrow> ('k \<times> 'v) list" where
  "run_after cursor m = (case cursor of Some cur \<Rightarrow> bm_after cur m | None \<Rightarrow> bm_entries m)"

subsection \<open>What has been written\<close>

text \<open>
  \<open>m0\<close> is the map when the capture began, \<open>pre\<close> the bytes before it, \<open>handed\<close> the parts
  handed out so far, \<open>ws\<close> the keys written, in that order, and \<open>lim\<close> bounds the keys of
  \<open>m0\<close>.
\<close>

definition written_text :: "('k::linorder \<Rightarrow> 'v \<Rightarrow> str option) \<Rightarrow> ('k, 'v) btree_map \<Rightarrow> 'k \<Rightarrow> str option" where
  "written_text ser m0 k = Option.bind (bm_get m0 k) (ser k)"

fun join :: "str \<Rightarrow> str list \<Rightarrow> str" where
  "join sep [] = []"
| "join sep [t] = t"
| "join sep (t # u # ts) = t @ sep @ join sep (u # ts)"

lemma join_snoc: "join sep (ts @ [t]) = (if ts = [] then t else join sep ts @ sep @ t)"
  by (induction sep ts rule: join.induct) auto

definition output_ok ::
  "('k::linorder \<Rightarrow> 'v \<Rightarrow> str option) \<Rightarrow> ('k, 'v) btree_map \<Rightarrow> str \<Rightarrow> str list \<Rightarrow> 'k list \<Rightarrow>
   ('k, 'e) capture_state_scheme \<Rightarrow> bool" where
  "output_ok ser m0 pre handed ws c \<longleftrightarrow>
     (cs_broken c \<longleftrightarrow> (\<exists>k \<in> set ws. written_text ser m0 k = None)) \<and>
     (\<not> cs_broken c \<longrightarrow>
        concat handed @ concat (cs_parts c) @ cs_out c =
          pre @ join '','' (map (\<lambda>k. the (written_text ser m0 k)) ws) \<and>
        cs_written c = length ws)"

definition capture_inv ::
  "('k::linorder \<Rightarrow> 'v \<Rightarrow> str option) \<Rightarrow> ('k \<Rightarrow> bool) \<Rightarrow> ('k, 'v) btree_map \<Rightarrow> str \<Rightarrow> str list \<Rightarrow>
   ('k, 'v) btree_map \<Rightarrow> ('k, 'e) capture_state_scheme \<Rightarrow> bool" where
  "capture_inv ser lim m0 pre handed m c \<longleftrightarrow>
     (\<forall>k v. bm_get m0 k = Some v \<longrightarrow> lim k) \<and>
     (\<forall>k. lim k \<and> \<not> capture_reached c k \<and> k \<notin> bs_elems (cs_early c) \<longrightarrow> bm_get m k = bm_get m0 k) \<and>
     (\<exists>ws. distinct ws \<and> output_ok ser m0 pre handed ws c \<and>
        set ws = {k. bm_get m0 k \<noteq> None \<and> (capture_reached c k \<or> k \<in> bs_elems (cs_early c))})"

lemma capture_write_fields [simp]:
  "cs_cursor (capture_write t c) = cs_cursor c" "cs_early (capture_write t c) = cs_early c"
  "cs_done (capture_write t c) = cs_done c"
  by (simp_all add: capture_write_def Let_def split: option.splits)

lemma reached_write [simp]: "capture_reached (capture_write t c) k = capture_reached c k"
  by (simp add: capture_reached_def)

lemma output_write:
  assumes "output_ok ser m0 pre handed ws c"
  shows "output_ok ser m0 pre handed (ws @ [k]) (capture_write (written_text ser m0 k) c)"
proof (cases "written_text ser m0 k")
  case None
  with assms show ?thesis by (auto simp: output_ok_def capture_write_def Let_def)
next
  case (Some t)
  with assms show ?thesis by (auto simp: output_ok_def capture_write_def Let_def join_snoc)
qed

lemma output_fields:
  "output_ok ser m0 pre handed ws (c\<lparr>cs_early := e\<rparr>) = output_ok ser m0 pre handed ws c"
  "output_ok ser m0 pre handed ws (c\<lparr>cs_cursor := x\<rparr>) = output_ok ser m0 pre handed ws c"
  "output_ok ser m0 pre handed ws (c\<lparr>cs_done := d\<rparr>) = output_ok ser m0 pre handed ws c"
  by (simp_all add: output_ok_def)

text \<open>A change to one key, once \<open>preserve\<close> has run.\<close>

lemma preserve_inv:
  assumes inv: "capture_inv ser lim m0 pre handed m c"
    and passed: "passed \<longleftrightarrow> capture_reached c key \<or> \<not> lim key"
    and same: "\<And>k. k \<noteq> key \<Longrightarrow> bm_get m' k = bm_get m k"
  shows "capture_inv ser lim m0 pre handed m'
    (capture_preserve passed key (map_option (ser key) (bm_get m key)) c)"
proof (cases "passed \<or> bm_contains (cs_early c) key")
  case True
  then have "capture_preserve passed key (map_option (ser key) (bm_get m key)) c = c"
    by (simp add: capture_preserve_def)
  moreover have "capture_inv ser lim m0 pre handed m' c"
    using inv True passed same unfolding capture_inv_def by (metis bm_contains_iff bs_contains)
  ultimately show ?thesis by simp
next
  case False
  then have key: "lim key" "\<not> capture_reached c key" "key \<notin> bs_elems (cs_early c)"
    using passed by auto
  from inv obtain ws where ws: "distinct ws" "output_ok ser m0 pre handed ws c"
      "set ws = {k. bm_get m0 k \<noteq> None \<and> (capture_reached c k \<or> k \<in> bs_elems (cs_early c))}"
    and lims: "\<forall>k v. bm_get m0 k = Some v \<longrightarrow> lim k"
    and old: "\<forall>k. lim k \<and> \<not> capture_reached c k \<and> k \<notin> bs_elems (cs_early c) \<longrightarrow> bm_get m k = bm_get m0 k"
    unfolding capture_inv_def by blast
  have held: "bm_get m key = bm_get m0 key" using old key by blast
  let ?c = "c\<lparr>cs_early := bs_insert key (cs_early c)\<rparr>"
  let ?c' = "capture_preserve passed key (map_option (ser key) (bm_get m key)) c"
  have fields: "cs_early ?c' = bs_insert key (cs_early c)" "capture_reached ?c' k = capture_reached c k" for k
    using False by (auto simp: capture_preserve_def capture_reached_def Let_def split: option.splits)
  have keep: "\<forall>k. lim k \<and> \<not> capture_reached ?c' k \<and> k \<notin> bs_elems (cs_early ?c') \<longrightarrow> bm_get m' k = bm_get m0 k"
    using old same fields by auto
  have "\<exists>ws. distinct ws \<and> output_ok ser m0 pre handed ws ?c' \<and>
        set ws = {k. bm_get m0 k \<noteq> None \<and> (capture_reached ?c' k \<or> k \<in> bs_elems (cs_early ?c'))}"
  proof (cases "bm_get m0 key")
    case None
    then have "?c' = ?c" using False held by (simp add: capture_preserve_def)
    then have "output_ok ser m0 pre handed ws ?c'" using ws(2) by (simp add: output_fields)
    then show ?thesis using ws None fields by (intro exI [of _ ws]) auto
  next
    case (Some v)
    then have "?c' = capture_write (written_text ser m0 key) ?c"
      using False held by (simp add: capture_preserve_def written_text_def)
    then have "output_ok ser m0 pre handed (ws @ [key]) ?c'"
      using output_write [of ser m0 pre handed ws ?c key] ws(2) by (simp add: output_fields)
    moreover have "distinct (ws @ [key])" using ws(1,3) key by auto
    ultimately show ?thesis using ws(3) Some fields by (intro exI [of _ "ws @ [key]"]) auto
  qed
  then show ?thesis unfolding capture_inv_def using lims keep by blast
qed

definition at_cursor :: "'k option \<Rightarrow> ('k::linorder, 'e) capture_state_scheme \<Rightarrow> ('k, 'e) capture_state_scheme" where
  "at_cursor taken c = (case taken of Some key \<Rightarrow> c\<lparr>cs_cursor := Some key\<rparr> | None \<Rightarrow> c)"

definition run_of ::
  "('k::linorder \<Rightarrow> bool) \<Rightarrow> ('k, 'v) btree_map \<Rightarrow> ('k, 'e) capture_state_scheme \<Rightarrow> ('k \<times> 'v) list \<Rightarrow> bool" where
  "run_of lim m c run \<longleftrightarrow> ssorted (map fst run) \<and>
     (\<forall>k v. (k, v) \<in> set run \<longleftrightarrow> bm_get m k = Some v \<and> lim k \<and> \<not> capture_reached c k)"

lemma at_cursor_fields [simp]:
  "cs_early (at_cursor t c) = cs_early c" "cs_done (at_cursor t c) = cs_done c"
  "at_cursor (Some k) (at_cursor t c) = at_cursor (Some k) c"
  "output_ok ser m0 pre handed ws (at_cursor t c) = output_ok ser m0 pre handed ws c"
  by (cases t; simp add: at_cursor_def output_fields)+

lemma reached_at_cursor:
  "capture_reached (at_cursor (Some key) c) k \<longleftrightarrow> cs_done c \<or> k \<le> key"
  by (simp add: at_cursor_def capture_reached_def)

lemma run_step_inv:
  assumes inv: "capture_inv ser lim m0 pre handed m (at_cursor taken c)"
    and run: "run_of lim m (at_cursor taken c) ((key, v) # run)"
    and nd: "\<not> cs_done c"
  defines "c' \<equiv> (if bm_contains (cs_early c) key then c\<lparr>cs_early := bs_remove key (cs_early c)\<rparr>
           else capture_write (ser key v) c)"
  shows "capture_inv ser lim m0 pre handed m (at_cursor (Some key) c') \<and>
    run_of lim m (at_cursor (Some key) c') run \<and> \<not> cs_done c'"
proof -
  let ?a = "at_cursor taken c"
  let ?b = "at_cursor (Some key) c'"
  from inv obtain ws where ws: "distinct ws" "output_ok ser m0 pre handed ws c"
      "set ws = {k. bm_get m0 k \<noteq> None \<and> (capture_reached ?a k \<or> k \<in> bs_elems (cs_early c))}"
    and lims: "\<forall>k v. bm_get m0 k = Some v \<longrightarrow> lim k"
    and old: "\<forall>k. lim k \<and> \<not> capture_reached ?a k \<and> k \<notin> bs_elems (cs_early c) \<longrightarrow> bm_get m k = bm_get m0 k"
    unfolding capture_inv_def by auto
  have nd': "\<not> cs_done c'" using nd by (simp add: c'_def)
  have mem: "\<And>k w. (k, w) \<in> set ((key, v) # run) \<longleftrightarrow> bm_get m k = Some w \<and> lim k \<and> \<not> capture_reached ?a k"
    and srt: "ssorted (map fst ((key, v) # run))"
    using run unfolding run_of_def by blast+
  have key: "bm_get m key = Some v" "lim key" "\<not> capture_reached ?a key" using mem [of key v] by auto
  have reach: "capture_reached ?b k \<longleftrightarrow> k \<le> key" for k
    using nd' by (simp add: reached_at_cursor)
  have up: "capture_reached ?a k \<Longrightarrow> k \<le> key" for k
    using key(3) nd by (auto simp: capture_reached_def at_cursor_def split: option.splits)
  have low: "k = key" if "k \<le> key" "\<not> capture_reached ?a k" "lim k" "bm_get m k \<noteq> None" for k
  proof -
    note that' = that
    obtain w where "bm_get m k = Some w" using that'(4) by auto
    then have "(k, w) \<in> set ((key, v) # run)" unfolding mem using that(2,3) by simp
    then have "k = key \<or> k \<in> set (map fst run)" by force
    then show ?thesis using srt that(1) by auto
  qed
  have early': "bs_elems (cs_early c') = bs_elems (cs_early c) - {key}"
    by (auto simp: c'_def)
  have run': "run_of lim m ?b run"
    unfolding run_of_def reach
  proof (intro conjI allI)
    show "ssorted (map fst run)" using srt by simp
    fix k w
    have k: "key < k" if "(k, w) \<in> set run"
    proof -
      have "k \<in> set (map fst run)" using that by force
      then show ?thesis using srt by auto
    qed
    show "(k, w) \<in> set run \<longleftrightarrow> bm_get m k = Some w \<and> lim k \<and> \<not> k \<le> key"
      using mem [of k w] k up [of k] by (auto simp: not_le)
  qed
  have keep: "\<forall>k. lim k \<and> \<not> capture_reached ?b k \<and> k \<notin> bs_elems (cs_early ?b) \<longrightarrow> bm_get m k = bm_get m0 k"
    using old up by (auto simp: reach early')
  define ws' where "ws' = (if key \<in> bs_elems (cs_early c) then ws else ws @ [key])"
  have m0key: "bm_get m0 key = Some v" if "key \<notin> bs_elems (cs_early c)"
    using old key that by simp
  have d: "distinct ws'" using ws(1,3) key(3) by (auto simp: ws'_def)
  have o: "output_ok ser m0 pre handed ws' c'"
  proof (cases "key \<in> bs_elems (cs_early c)")
    case True
    then show ?thesis using ws(2) by (simp add: ws'_def c'_def output_fields)
  next
    case False
    then show ?thesis
      using output_write [OF ws(2), of key] m0key [OF False] by (simp add: ws'_def c'_def written_text_def)
  qed
  have "k = key" if "bm_get m0 k \<noteq> None" "k \<le> key" "\<not> capture_reached ?a k" "k \<notin> bs_elems (cs_early c)" for k
    using low [OF that(2,3)] old that lims by auto
  then have s: "set ws' = {k. bm_get m0 k \<noteq> None \<and> (capture_reached ?b k \<or> k \<in> bs_elems (cs_early ?b))}"
    using up ws(3) m0key by (auto simp: ws'_def reach early')
  show ?thesis
    unfolding capture_inv_def using lims keep run' nd' d o s by auto
qed

lemma finish_inv:
  assumes "capture_inv ser lim m0 pre handed m c"
    and none: "\<And>k. lim k \<Longrightarrow> \<not> capture_reached c k \<Longrightarrow> bm_get m k = None"
  shows "capture_inv ser lim m0 pre handed m (c\<lparr>cs_done := True\<rparr>)"
proof -
  from assms(1) obtain ws where ws: "distinct ws" "output_ok ser m0 pre handed ws c"
      "set ws = {k. bm_get m0 k \<noteq> None \<and> (capture_reached c k \<or> k \<in> bs_elems (cs_early c))}"
    and lims: "\<forall>k v. bm_get m0 k = Some v \<longrightarrow> lim k"
    and old: "\<forall>k. lim k \<and> \<not> capture_reached c k \<and> k \<notin> bs_elems (cs_early c) \<longrightarrow> bm_get m k = bm_get m0 k"
    unfolding capture_inv_def by blast
  have r: "capture_reached (c\<lparr>cs_done := True\<rparr>) k" for k by (simp add: capture_reached_def)
  have "capture_reached c k \<or> k \<in> bs_elems (cs_early c)" if "bm_get m0 k = Some v" for k v
    using that lims old none [of k] by fastforce
  then have "set ws = {k. bm_get m0 k \<noteq> None}" using ws(3) by auto
  then show ?thesis
    unfolding capture_inv_def using lims r ws(1,2) by (auto simp: output_fields)
qed

lemma capture_loop_inv:
  assumes "capture_inv ser lim m0 pre handed m (at_cursor taken c)"
    and "run_of lim m (at_cursor taken c) run" and "\<not> cs_done c"
    and "capture_loop ser budget start run taken c = (c', taken')"
  shows "capture_inv ser lim m0 pre handed m (at_cursor taken' c')"
  using assms
proof (induction ser budget start run taken c rule: capture_loop.induct)
  case (1 ser budget start taken c)
  have none: "bm_get m k = None" if "lim k" "\<not> capture_reached (at_cursor taken c) k" for k
    using 1(2) that unfolding run_of_def by (metis empty_iff list.set(1) not_None_eq)
  have eq: "at_cursor taken (c\<lparr>cs_done := True\<rparr>) = (at_cursor taken c)\<lparr>cs_done := True\<rparr>"
    by (cases taken) (simp_all add: at_cursor_def)
  have "capture_inv ser lim m0 pre handed m (at_cursor taken (c\<lparr>cs_done := True\<rparr>))"
    using finish_inv [OF 1(1) none] unfolding eq .
  then show ?case using 1 by (auto split: if_splits)
next
  case (2 ser budget start key v run taken c)
  show ?case
  proof (cases "within (capture_size c - start) budget")
    case True
    from run_step_inv [OF 2(2-4)] 2(1) [OF True] 2(5) True show ?thesis by simp
  next
    case False
    then show ?thesis using 2 by auto
  qed
qed

lemma capture_take_inv:
  assumes "capture_inv ser lim m0 pre handed m c" and "run_of lim m c run" and "\<not> cs_done c"
  shows "capture_inv ser lim m0 pre handed m (capture_take ser budget run c)"
proof -
  obtain c' taken where l: "capture_loop ser budget (capture_size c) run None c = (c', taken)" by fastforce
  have "capture_inv ser lim m0 pre handed m (at_cursor None c)" "run_of lim m (at_cursor None c) run"
    using assms by (simp_all add: at_cursor_def)
  from capture_loop_inv [OF this assms(3) l] show ?thesis
    by (simp add: capture_take_def l at_cursor_def split: option.splits)
qed

lemma loop_unbounded_done: "cs_done (fst (capture_loop ser None start run taken c))"
  by (induction run arbitrary: taken c) (auto simp: within_def)

lemma take_unbounded_done: "cs_done (capture_take ser None run c)"
  using loop_unbounded_done [of ser "capture_size c" run None c]
  by (auto simp: capture_take_def split: prod.splits option.splits)

text \<open>Once every key is written, the output is complete.\<close>

definition capture_complete ::
  "('k::linorder \<Rightarrow> 'v \<Rightarrow> str option) \<Rightarrow> ('k, 'v) btree_map \<Rightarrow> str \<Rightarrow> str \<Rightarrow> bool" where
  "capture_complete ser m0 pre out \<longleftrightarrow>
     (\<exists>es. distinct es \<and> set es = set (bm_entries m0) \<and> list_all (\<lambda>(k, v). ser k v \<noteq> None) es \<and>
        out = pre @ join '','' (map (\<lambda>(k, v). the (ser k v)) es))"

lemma capture_done_complete:
  assumes inv: "capture_inv ser lim m0 pre handed m c" and "cs_done c"
  shows "if cs_broken c then (\<exists>(k, v) \<in> set (bm_entries m0). ser k v = None)
    else capture_complete ser m0 pre (concat handed @ concat (cs_parts c) @ cs_out c)"
proof -
  from inv assms(2) obtain ws where ws: "distinct ws" "output_ok ser m0 pre handed ws c"
      "set ws = {k. bm_get m0 k \<noteq> None}"
    by (auto simp: capture_inv_def capture_reached_def)
  define es where "es = map (\<lambda>k. (k, the (bm_get m0 k))) ws"
  have m: "distinct es" "set es = set (bm_entries m0)"
    using ws by (auto simp: es_def distinct_map inj_on_def in_entries image_iff)
  have t: "written_text ser m0 k = ser k (the (bm_get m0 k))" if "k \<in> set ws" for k
    using that ws(3) by (auto simp: written_text_def)
  show ?thesis
  proof (cases "cs_broken c")
    case True
    then obtain k where "k \<in> set ws" "written_text ser m0 k = None" using ws(2) by (auto simp: output_ok_def)
    then show ?thesis using True t ws(3) by (fastforce simp: in_entries)
  next
    case False
    then have "\<forall>k \<in> set ws. written_text ser m0 k \<noteq> None"
      "concat handed @ concat (cs_parts c) @ cs_out c = pre @ join '','' (map (\<lambda>k. the (written_text ser m0 k)) ws)"
      using ws(2) by (auto simp: output_ok_def)
    moreover have "map (\<lambda>k. the (written_text ser m0 k)) ws = map (\<lambda>(k, v). the (ser k v)) es"
      using t by (simp add: es_def)
    moreover have "list_all (\<lambda>(k, v). ser k v \<noteq> None) es"
      using calculation(1) t by (auto simp: es_def list_all_iff)
    ultimately show ?thesis
      using False m unfolding capture_complete_def by auto
  qed
qed

lemma capture_inv_start:
  assumes "\<forall>k v. bm_get m k = Some v \<longrightarrow> lim k" "capture_reached c k \<Longrightarrow> bm_entries m = []"
    and "cs_early c = bm_empty" "cs_parts c = []" "cs_out c = pre" "cs_written c = 0" "\<not> cs_broken c" "cs_cursor c = None"
    and "cs_done c \<longrightarrow> bm_entries m = []"
  shows "capture_inv ser lim m pre [] m c"
proof -
  have none: "bm_get m k = None" if "cs_done c" for k
    using assms(9) that by (simp add: bm_get_def)
  have "output_ok ser m pre [] [] c" using assms by (simp add: output_ok_def)
  then show ?thesis
    unfolding capture_inv_def using assms none
    by (auto simp: capture_reached_def intro!: exI [of _ "[]"])
qed

lemma capture_inv_drain:
  "capture_inv ser lim m0 pre handed m c \<Longrightarrow>
   capture_inv ser lim m0 pre (handed @ cs_parts c) m (c\<lparr>cs_parts := []\<rparr>)"
  unfolding capture_inv_def output_ok_def capture_reached_def by simp

subsection \<open>The contract of a snapshot\<close>

text \<open>
  What the broker relies on when it drives a capture, of either map: however the changes,
  the steps and the parts handed out interleave, what comes out in the end is what the map
  held at the start, and it fails only if a value cannot be written. \<open>closing\<close> is what
  follows the last value.
\<close>

datatype snap_out = Going "str list" | Finished "str list" | Failed

fun snap_run :: "('op \<Rightarrow> 's \<Rightarrow> 's \<times> snap_out) \<Rightarrow> 'op list \<Rightarrow> str list \<Rightarrow> 's \<Rightarrow> 's \<times> snap_out" where
  "snap_run perform [] handed s = (s, Going handed)"
| "snap_run perform (x # xs) handed s =
     (case perform x s of
        (s', Going parts) \<Rightarrow> snap_run perform xs (handed @ parts) s'
      | (s', Finished parts) \<Rightarrow> (s', Finished (handed @ parts))
      | (s', Failed) \<Rightarrow> (s', Failed))"

fun ended :: "snap_out \<Rightarrow> bool" where
  "ended (Going _) = False"
| "ended (Finished _) = True"
| "ended Failed = True"

locale snapshotting =
  fixes entries_of :: "'s \<Rightarrow> ('k::linorder, 'v) btree_map"
    and ser :: "'k \<Rightarrow> 'v \<Rightarrow> str option"
    and closing :: str
    and start :: "str \<Rightarrow> 's \<Rightarrow> 's"
    and perform :: "'op \<Rightarrow> 's \<Rightarrow> 's \<times> snap_out"
    and inv :: "('k, 'v) btree_map \<Rightarrow> str \<Rightarrow> str list \<Rightarrow> 's \<Rightarrow> bool"
  assumes start_inv: "inv (entries_of s) pre [] (start pre s)"
    and going_inv: "inv m0 pre handed s \<Longrightarrow> perform x s = (s', Going parts) \<Longrightarrow> inv m0 pre (handed @ parts) s'"
    and finished: "inv m0 pre handed s \<Longrightarrow> perform x s = (s', Finished parts) \<Longrightarrow>
      \<exists>out. concat (handed @ parts) = out @ closing \<and> capture_complete ser m0 pre out"
    and failed: "inv m0 pre handed s \<Longrightarrow> perform x s = (s', Failed) \<Longrightarrow>
      \<exists>(k, v) \<in> set (bm_entries m0). ser k v = None"
begin

lemma snap_run_outcome:
  assumes "inv m0 pre handed s" and "snap_run perform xs handed s = (s', r)"
  shows "case r of
      Going parts \<Rightarrow> inv m0 pre parts s'
    | Finished parts \<Rightarrow> \<exists>out. concat parts = out @ closing \<and> capture_complete ser m0 pre out
    | Failed \<Rightarrow> \<exists>(k, v) \<in> set (bm_entries m0). ser k v = None"
  using assms
proof (induction xs arbitrary: handed s)
  case (Cons x xs)
  obtain t o' where p: "perform x s = (t, o')" by fastforce
  show ?case
  proof (cases o')
    case (Going parts)
    with p have "inv m0 pre (handed @ parts) t" using going_inv [OF Cons.prems(1)] by simp
    from Cons.IH [OF this] Cons.prems(2) p Going show ?thesis by simp
  next
    case (Finished parts)
    with Cons.IH Cons.prems p finished [OF Cons.prems(1)] show ?thesis by fastforce
  next
    case Failed
    with Cons.IH Cons.prems p failed [OF Cons.prems(1)] show ?thesis by fastforce
  qed
qed auto

text \<open>An operation that always ends the capture leaves no third outcome.\<close>

lemma snap_run_ends:
  assumes "\<And>s. ended (snd (perform x s))"
  shows "ended (snd (snap_run perform (xs @ [x]) handed s))"
proof (induction xs arbitrary: handed s)
  case Nil
  with assms [of s] show ?case by (auto split: prod.splits snap_out.splits)
next
  case (Cons y ys)
  then show ?case by (simp split: prod.split snap_out.split)
qed

lemma snapshot_exact:
  assumes "\<And>s. ended (snd (perform x s))"
  shows "case snap_run perform (xs @ [x]) [] (start pre s) of
      (_, Going _) \<Rightarrow> False
    | (_, Finished parts) \<Rightarrow> \<exists>out. concat parts = out @ closing \<and> capture_complete ser (entries_of s) pre out
    | (_, Failed) \<Rightarrow> \<exists>(k, v) \<in> set (bm_entries (entries_of s)). ser k v = None"
proof -
  obtain s' r where r: "snap_run perform (xs @ [x]) [] (start pre s) = (s', r)" by fastforce
  from snap_run_outcome [OF start_inv r] snap_run_ends [OF assms, of xs "[]" "start pre s"] r
  show ?thesis by (cases r) simp_all
qed

end

subsection \<open>The map of rooms and messages\<close>

record (overloaded) 'k bounded_capture = "'k capture_state" +
  cs_bound :: "'k option"

record (overloaded) ('k, 'v) captured =
  cmap :: "('k, 'v) btree_map"
  capture :: "'k bounded_capture option"

definition captured_new :: "('k::linorder, 'v) captured" where
  "captured_new = \<lparr>cmap = bm_empty, capture = None\<rparr>"

definition captured_passed :: "'k::linorder bounded_capture \<Rightarrow> 'k \<Rightarrow> bool" where
  "captured_passed c key \<longleftrightarrow>
     cs_done c \<or> (case cs_bound c of None \<Rightarrow> True | Some bound \<Rightarrow> key > bound) \<or>
     (case cs_cursor c of Some cur \<Rightarrow> key \<le> cur | None \<Rightarrow> False)"

definition captured_preserve ::
  "('v \<Rightarrow> str option) \<Rightarrow> 'k::linorder \<Rightarrow> ('k, 'v) captured \<Rightarrow> ('k, 'v) captured" where
  "captured_preserve ser key s =
     (case capture s of
        None \<Rightarrow> s
      | Some c \<Rightarrow>
          s\<lparr>capture := Some (capture_preserve (captured_passed c key) key
              (map_option ser (bm_get (cmap s) key)) c)\<rparr>)"

text \<open>\<open>get_mut\<close> with what its caller does to the value it finds.\<close>

definition captured_update ::
  "('v \<Rightarrow> str option) \<Rightarrow> 'k::linorder \<Rightarrow> ('v \<Rightarrow> 'v) \<Rightarrow> ('k, 'v) captured \<Rightarrow> ('k, 'v) captured" where
  "captured_update ser key f s =
     (let s = captured_preserve ser key s in s\<lparr>cmap := bm_update key f (cmap s)\<rparr>)"

definition captured_insert ::
  "('v \<Rightarrow> str option) \<Rightarrow> 'k::linorder \<Rightarrow> 'v \<Rightarrow> ('k, 'v) captured \<Rightarrow> ('k, 'v) captured \<times> 'v option" where
  "captured_insert ser key v s =
     (let s = captured_preserve ser key s
      in (s\<lparr>cmap := bm_insert key v (cmap s)\<rparr>, bm_get (cmap s) key))"

definition captured_remove ::
  "('v \<Rightarrow> str option) \<Rightarrow> 'k::linorder \<Rightarrow> ('k, 'v) captured \<Rightarrow> ('k, 'v) captured \<times> 'v option" where
  "captured_remove ser key s =
     (let s = captured_preserve ser key s
      in (s\<lparr>cmap := bm_remove key (cmap s)\<rparr>, bm_get (cmap s) key))"

definition captured_begin :: "str \<Rightarrow> ('k::linorder, 'v) captured \<Rightarrow> ('k, 'v) captured" where
  "captured_begin out s =
     (let bound = map_option fst (bm_last (cmap s))
      in s\<lparr>capture := Some
          \<lparr>cs_cursor = None, cs_early = bm_empty, cs_parts = [], cs_out = out, cs_filled = 0,
           cs_written = 0, cs_done = (bound = None), cs_broken = False, cs_bound = bound\<rparr>\<rparr>)"

definition captured_step ::
  "('v \<Rightarrow> str option) \<Rightarrow> nat option \<Rightarrow> ('k::linorder, 'v) captured \<Rightarrow> ('k, 'v) captured \<times> bool" where
  "captured_step ser budget s =
     (case capture s of
        None \<Rightarrow> (s, True)
      | Some c \<Rightarrow>
          if cs_done c then (s, True)
          else (case cs_bound c of
                  None \<Rightarrow> (s\<lparr>capture := Some (c\<lparr>cs_done := True\<rparr>)\<rparr>, True)
                | Some bound \<Rightarrow>
                    (let run = filter (\<lambda>(k, _). k \<le> bound) (run_after (cs_cursor c) (cmap s));
                         c = capture_take (\<lambda>_. ser) budget run c
                     in (s\<lparr>capture := Some c\<rparr>, cs_done c))))"

definition captured_map_values ::
  "('v \<Rightarrow> str option) \<Rightarrow> ('v \<Rightarrow> 'v) \<Rightarrow> ('k::linorder, 'v) captured \<Rightarrow> ('k, 'v) captured" where
  "captured_map_values ser f s =
     (let s = fst (captured_step ser None s) in s\<lparr>cmap := bm_map (\<lambda>_. f) (cmap s)\<rparr>)"

definition captured_end ::
  "('v \<Rightarrow> str option) \<Rightarrow> ('k::linorder, 'v) captured \<Rightarrow> ('k, 'v) captured \<times> (str + str list)" where
  "captured_end ser s =
     (let s = fst (captured_step ser None s)
      in case capture s of
           None \<Rightarrow> (s, Inr [])
         | Some c \<Rightarrow>
             (s\<lparr>capture := None\<rparr>,
              if cs_broken c then Inl ''a value could not be serialized'' else Inr (cs_parts c @ [cs_out c])))"

definition captured_drain ::
  "('v \<Rightarrow> str option) \<Rightarrow> ('k::linorder, 'v) captured \<Rightarrow>
   ('k, 'v) captured \<times> (str + str list \<times> bool)" where
  "captured_drain ser s =
     (case capture s of
        None \<Rightarrow> (s, Inr ([], True))
      | Some c \<Rightarrow>
          if \<not> cs_done c then (s\<lparr>capture := Some (c\<lparr>cs_parts := []\<rparr>)\<rparr>, Inr (cs_parts c, False))
          else (case captured_end ser s of
                  (s, Inl e) \<Rightarrow> (s, Inl e)
                | (s, Inr parts) \<Rightarrow> (s, Inr (parts, True))))"

definition captured_abandon :: "('k::linorder, 'v) captured \<Rightarrow> ('k, 'v) captured" where
  "captured_abandon s = s\<lparr>capture := None\<rparr>"

text \<open>Everything that can happen to the map while a capture is in progress.\<close>

datatype ('k, 'v) captured_op =
    Captured_insert 'k 'v
  | Captured_remove 'k
  | Captured_update 'k "'v \<Rightarrow> 'v"
  | Captured_map_values "'v \<Rightarrow> 'v"
  | Captured_step "nat option"
  | Captured_drain
  | Captured_end

fun captured_perform ::
  "('v \<Rightarrow> str option) \<Rightarrow> ('k::linorder, 'v) captured_op \<Rightarrow> ('k, 'v) captured \<Rightarrow> ('k, 'v) captured \<times> snap_out" where
  "captured_perform ser (Captured_insert k v) s = (fst (captured_insert ser k v s), Going [])"
| "captured_perform ser (Captured_remove k) s = (fst (captured_remove ser k s), Going [])"
| "captured_perform ser (Captured_update k f) s = (captured_update ser k f s, Going [])"
| "captured_perform ser (Captured_map_values f) s = (captured_map_values ser f s, Going [])"
| "captured_perform ser (Captured_step b) s = (fst (captured_step ser b s), Going [])"
| "captured_perform ser Captured_drain s =
     (case captured_drain ser s of
        (s, Inl _) \<Rightarrow> (s, Failed)
      | (s, Inr (parts, True)) \<Rightarrow> (s, Finished parts)
      | (s, Inr (parts, False)) \<Rightarrow> (s, Going parts))"
| "captured_perform ser Captured_end s =
     (case captured_end ser s of (s, Inl _) \<Rightarrow> (s, Failed) | (s, Inr parts) \<Rightarrow> (s, Finished parts))"

definition below :: "'k::linorder option \<Rightarrow> 'k \<Rightarrow> bool" where
  "below bound k \<longleftrightarrow> (case bound of None \<Rightarrow> False | Some b \<Rightarrow> k \<le> b)"

definition captured_inv ::
  "('v \<Rightarrow> str option) \<Rightarrow> ('k::linorder, 'v) btree_map \<Rightarrow> str \<Rightarrow> str list \<Rightarrow> ('k, 'v) captured \<Rightarrow> bool" where
  "captured_inv ser m0 pre handed s \<longleftrightarrow>
     (\<exists>c. capture s = Some c \<and> capture_inv (\<lambda>_. ser) (below (cs_bound c)) m0 pre handed (cmap s) c)"

lemma bound_write [simp]: "cs_bound (capture_write t c) = cs_bound c"
  by (simp add: capture_write_def Let_def split: option.splits)

lemma bound_preserve [simp]: "cs_bound (capture_preserve p k t c) = cs_bound c"
  by (simp add: capture_preserve_def Let_def split: option.splits)

lemma bound_loop: "cs_bound (fst (capture_loop ser b st run taken c)) = cs_bound c"
  by (induction ser b st run taken c rule: capture_loop.induct) (simp_all add: Let_def)

lemma bound_take [simp]: "cs_bound (capture_take ser b run c) = cs_bound c"
  using bound_loop [of ser b "capture_size c" run None c]
  by (auto simp: capture_take_def split: prod.splits option.splits)

lemma passed_reached: "captured_passed c key \<longleftrightarrow> capture_reached c key \<or> \<not> below (cs_bound c) key"
  by (auto simp: captured_passed_def capture_reached_def below_def split: option.splits)

lemma captured_preserve_inv:
  assumes "captured_inv ser m0 pre handed s" and "\<And>k. k \<noteq> key \<Longrightarrow> bm_get m' k = bm_get (cmap s) k"
  shows "captured_inv ser m0 pre handed ((captured_preserve ser key s)\<lparr>cmap := m'\<rparr>)"
proof -
  obtain c where c: "capture s = Some c" "capture_inv (\<lambda>_. ser) (below (cs_bound c)) m0 pre handed (cmap s) c"
    using assms(1) by (auto simp: captured_inv_def)
  from preserve_inv [OF c(2) passed_reached assms(2)] c(1) show ?thesis
    by (simp add: captured_inv_def captured_preserve_def)
qed

lemma run_after_run:
  assumes "\<not> cs_done c"
  shows "run_of lim m c (filter (\<lambda>(k, _). lim k) (run_after (cs_cursor c) m))"
proof -
  have "ssorted (map fst (run_after (cs_cursor c) m))"
    by (auto simp: run_after_def bm_after_def ssorted_filter split: option.split)
  then show ?thesis
    using assms unfolding run_of_def
    by (auto simp: ssorted_filter run_after_def in_after in_entries capture_reached_def not_le split: option.splits)
qed

lemma captured_step_inv:
  assumes "captured_inv ser m0 pre handed s"
  shows "captured_inv ser m0 pre handed (fst (captured_step ser budget s))"
proof -
  obtain c where c: "capture s = Some c" "capture_inv (\<lambda>_. ser) (below (cs_bound c)) m0 pre handed (cmap s) c"
    using assms by (auto simp: captured_inv_def)
  show ?thesis
  proof (cases "cs_done c")
    case True
    with assms c show ?thesis by (simp add: captured_step_def)
  next
    case nd: False
    show ?thesis
    proof (cases "cs_bound c")
      case None
      then have "capture_inv (\<lambda>_. ser) (below (cs_bound c)) m0 pre handed (cmap s) (c\<lparr>cs_done := True\<rparr>)"
        by (intro finish_inv [OF c(2)]) (simp add: below_def)
      with None c nd show ?thesis by (simp add: captured_step_def captured_inv_def)
    next
      case (Some bound)
      then have "below (cs_bound c) = (\<lambda>k. k \<le> bound)" by (auto simp: below_def)
      with capture_take_inv [OF c(2) run_after_run [OF nd] nd] Some c nd show ?thesis
        by (simp add: captured_step_def captured_inv_def Let_def)
    qed
  qed
qed

lemma captured_step_unbounded:
  "capture (fst (captured_step ser None s)) = Some c \<Longrightarrow> cs_done c"
  by (auto simp: captured_step_def Let_def take_unbounded_done split: option.splits if_splits)

lemma captured_step_map [simp]: "cmap (fst (captured_step ser b s)) = cmap s"
  by (simp add: captured_step_def Let_def split: option.splits)

lemma captured_end_outcome:
  assumes "captured_inv ser m0 pre handed s"
  shows "case captured_end ser s of
      (s', Inl _) \<Rightarrow> \<exists>(k, v) \<in> set (bm_entries m0). ser v = None
    | (s', Inr parts) \<Rightarrow> capture_complete (\<lambda>_. ser) m0 pre (concat (handed @ parts))"
proof -
  let ?s = "fst (captured_step ser None s)"
  obtain c where c: "capture ?s = Some c" "capture_inv (\<lambda>_. ser) (below (cs_bound c)) m0 pre handed (cmap ?s) c"
    using captured_step_inv [OF assms] by (auto simp: captured_inv_def)
  from capture_done_complete [OF c(2) captured_step_unbounded [OF c(1)]] c(1) show ?thesis
    by (cases "cs_broken c") (simp_all add: captured_end_def Let_def)
qed

lemma last_bound: "bm_get m k = Some v \<Longrightarrow> below (map_option fst (bm_last m)) k"
  using bm_last_None [of m] in_entries [of k v m] bm_last_Some(2) [of m _ _ k v]
  by (cases "bm_last m") (auto simp: below_def)

lemma captured_begin_inv: "captured_inv ser (cmap s) pre [] (captured_begin pre s)"
proof -
  show ?thesis
    unfolding captured_inv_def captured_begin_def Let_def
    by (auto intro!: capture_inv_start last_bound simp: capture_reached_def bm_last_None)
qed

lemma captured_perform_inv:
  assumes inv: "captured_inv ser m0 pre handed s"
  shows "case captured_perform ser x s of
      (s', Going parts) \<Rightarrow> captured_inv ser m0 pre (handed @ parts) s'
    | (s', Finished parts) \<Rightarrow> capture_complete (\<lambda>_. ser) m0 pre (concat (handed @ parts))
    | (s', Failed) \<Rightarrow> \<exists>(k, v) \<in> set (bm_entries m0). ser v = None"
proof (cases x)
  case (Captured_map_values f)
  let ?s = "fst (captured_step ser None s)"
  obtain c where c: "capture ?s = Some c" "capture_inv (\<lambda>_. ser) (below (cs_bound c)) m0 pre handed (cmap ?s) c"
    using captured_step_inv [OF inv] by (auto simp: captured_inv_def)
  have "cs_done c" using captured_step_unbounded [OF c(1)] .
  then have "capture_inv (\<lambda>_. ser) (below (cs_bound c)) m0 pre handed m' c" for m'
    using c(2) by (simp add: capture_inv_def capture_reached_def)
  then show ?thesis
    using Captured_map_values c(1) by (simp add: captured_map_values_def captured_inv_def Let_def)
next
  case Captured_drain
  obtain c where c: "capture s = Some c" "capture_inv (\<lambda>_. ser) (below (cs_bound c)) m0 pre handed (cmap s) c"
    using inv by (auto simp: captured_inv_def)
  show ?thesis
  proof (cases "cs_done c")
    case True
    then show ?thesis
      using captured_end_outcome [OF inv] Captured_drain c(1)
      by (auto simp: captured_drain_def split: prod.splits sum.splits)
  next
    case False
    then show ?thesis
      using capture_inv_drain [OF c(2)] Captured_drain c(1)
      by (simp add: captured_drain_def captured_inv_def)
  qed
next
  case Captured_end
  then show ?thesis
    using captured_end_outcome [OF inv] by (auto split: prod.splits sum.splits)
qed (use captured_preserve_inv [OF inv] captured_step_inv [OF inv] in
    \<open>simp_all add: captured_insert_def captured_remove_def captured_update_def Let_def captured_preserve_def split: option.split\<close>)


interpretation captured_snap: snapshotting cmap "\<lambda>_. ser" "[]" captured_begin "captured_perform ser" "captured_inv ser"
  for ser :: "'v \<Rightarrow> str option"
proof unfold_locales
  show "captured_inv ser (cmap s) pre [] (captured_begin pre s)" for s :: "('k::linorder, 'v) captured" and pre
    by (rule captured_begin_inv)
  fix m0 pre handed x and s s' :: "('k::linorder, 'v) captured" and parts
  assume inv: "captured_inv ser m0 pre handed s"
  note out = captured_perform_inv [OF inv, of x]
  show "captured_perform ser x s = (s', Going parts) \<Longrightarrow> captured_inv ser m0 pre (handed @ parts) s'"
    using out by simp
  show "captured_perform ser x s = (s', Finished parts) \<Longrightarrow>
      \<exists>out. concat (handed @ parts) = out @ [] \<and> capture_complete (\<lambda>_. ser) m0 pre out"
    using out by simp
  show "captured_perform ser x s = (s', Failed) \<Longrightarrow> \<exists>(k, v) \<in> set (bm_entries m0). ser v = None"
    using out by simp
qed

text \<open>
  C28: however inserts, removals, changes, capture steps and drained parts interleave, the
  parts of a capture are, put together, the bytes before it and then every value the map
  held when the capture began, as it was then, each once and separated by commas; the
  capture fails only if one of those values cannot be written.
\<close>

theorem captured_snapshot_exact:
  fixes s :: "('k::linorder, 'v) captured"
  shows "case snap_run (captured_perform ser) (xs @ [Captured_end]) [] (captured_begin pre s) of
      (_, Going _) \<Rightarrow> False
    | (_, Finished parts) \<Rightarrow> capture_complete (\<lambda>_. ser) (cmap s) pre (concat parts)
    | (_, Failed) \<Rightarrow> None \<in> ser ` set (bm_values (cmap s))"
proof -
  have e: "ended (snd (captured_perform ser Captured_end s))" for s :: "('k, 'v) captured"
    by (simp split: prod.split sum.split)
  have v: "(\<exists>(k, v) \<in> set (bm_entries (cmap s)). ser v = None) \<longleftrightarrow> None \<in> ser ` set (bm_values (cmap s))"
    by (force simp: bm_values_def)
  from captured_snap.snapshot_exact [OF e, where xs = xs and pre = pre and s = s] show ?thesis
    unfolding v by (auto split: prod.splits snap_out.splits)
qed

end
