(* ===== verification/Ids.thy ===== *)
theory Ids
  imports Decimal
begin

text \<open>
  Entry ids (\<open>src/src/id.rs\<close>): a millisecond clock reading and a sequence number, ordered
  lexicographically, and the source of ids that stays strictly increasing when the clock
  steps back.
\<close>

subsection \<open>Ids and their order\<close>

datatype id = Id (id_ms: u64) (id_seq: u64)

instantiation id :: linorder
begin

definition less_eq_id :: "id \<Rightarrow> id \<Rightarrow> bool" where
  "less_eq_id a b \<longleftrightarrow> id_ms a < id_ms b \<or> (id_ms a = id_ms b \<and> id_seq a \<le> id_seq b)"

definition less_id :: "id \<Rightarrow> id \<Rightarrow> bool" where
  "less_id a b \<longleftrightarrow> id_ms a < id_ms b \<or> (id_ms a = id_ms b \<and> id_seq a < id_seq b)"

instance
proof
  fix x y z :: id
  show "(x < y) = (x \<le> y \<and> \<not> y \<le> x)" by (auto simp: less_eq_id_def less_id_def)
  show "x \<le> x" by (simp add: less_eq_id_def)
  show "x \<le> y \<Longrightarrow> y \<le> z \<Longrightarrow> x \<le> z" by (auto simp: less_eq_id_def)
  show "x \<le> y \<Longrightarrow> y \<le> x \<Longrightarrow> x = y" by (auto simp: less_eq_id_def intro: id.expand)
  show "x \<le> y \<or> y \<le> x" by (auto simp: less_eq_id_def)
qed

end

definition id_default :: id where
  "id_default = Id 0 0"

definition id_max :: id where
  "id_max = Id (-1) (-1)"

lemma id_default_least [simp]: "id_default \<le> i"
  by (auto simp: id_default_def less_eq_id_def word_neq_0_conv)

lemma id_max_greatest [simp]: "i \<le> id_max"
  by (auto simp: id_max_def less_eq_id_def word_order.not_eq_extremum)

subsection \<open>The next id\<close>

definition id_after :: "id \<Rightarrow> id option" where
  "id_after i =
     (case checked_succ (id_seq i) of
        Some seq \<Rightarrow> Some (Id (id_ms i) seq)
      | None \<Rightarrow> map_option (\<lambda>ms. Id ms 0) (checked_succ (id_ms i)))"

definition id_next_after :: "id \<Rightarrow> u64 \<Rightarrow> id option" where
  "id_next_after prev now_ms =
     (if now_ms > id_ms prev then Some (Id now_ms 0) else id_after prev)"

lemma id_after_gt: "id_after i = Some j \<Longrightarrow> i < j"
  by (auto simp: id_after_def less_id_def dest: checked_succ_Some split: option.splits)

lemma id_after_least:
  assumes "id_after i = Some j" and "i < k"
  shows "j \<le> k"
proof (cases "checked_succ (id_seq i)")
  case None
  with assms(1) obtain ms where ms: "checked_succ (id_ms i) = Some ms" "j = Id ms 0"
    by (auto simp: id_after_def)
  from None assms(2) have "id_ms i < id_ms k"
    by (auto simp: less_id_def checked_succ_None)
  from checked_succ_least [OF ms(1) this] ms(2) show ?thesis
    by (auto simp: less_eq_id_def)
next
  case (Some s)
  with assms show ?thesis
    by (auto simp: id_after_def less_id_def less_eq_id_def dest: checked_succ_least)
qed

lemma id_after_None: "id_after i = None \<longleftrightarrow> i = id_max"
  by (cases i) (auto simp: id_after_def id_max_def checked_succ_def)

subsection \<open>A source of increasing ids\<close>

text \<open>
  What a stream, an inbox or a room relies on: each id handed out after \<open>prev\<close> is
  greater than it, whatever the clock says. The store and the streams both take their ids
  through this interface.
\<close>

locale id_source =
  fixes next_id :: "'i::linorder \<Rightarrow> 't \<Rightarrow> 'i option"
  assumes next_gt: "next_id prev now = Some i \<Longrightarrow> prev < i"
begin

fun ids_from :: "'i \<Rightarrow> 't list \<Rightarrow> 'i list" where
  "ids_from prev [] = []"
| "ids_from prev (now # nows) =
     (case next_id prev now of None \<Rightarrow> [] | Some i \<Rightarrow> i # ids_from i nows)"

lemma ids_from_above: "i \<in> set (ids_from prev nows) \<Longrightarrow> prev < i"
proof (induction prev nows rule: ids_from.induct)
  case (2 prev now nows)
  then show ?case
  proof (cases "next_id prev now")
    case (Some j)
    with 2 show ?thesis using next_gt [OF Some] by (auto intro: less_trans)
  qed simp
qed simp

lemma ids_from_ssorted: "sorted_wrt (<) (ids_from prev nows)"
  by (induction prev nows rule: ids_from.induct)
    (auto split: option.splits dest: ids_from_above)

end

interpretation clock_ids: id_source id_next_after
  by unfold_locales
    (auto simp: id_next_after_def less_id_def dest: id_after_gt split: if_splits)

subsection \<open>Text form\<close>

definition id_to_string :: "id \<Rightarrow> str" where
  "id_to_string i = show_nat (unat (id_ms i)) @ ''-'' @ show_nat (unat (id_seq i))"

definition id_from_str :: "str \<Rightarrow> str + id" where
  "id_from_str s =
     (let (ms, seq) = (case split_once (CHR ''-'') s of Some p \<Rightarrow> p | None \<Rightarrow> (s, ''0''))
      in case (parse_u64 ms, parse_u64 seq) of
           (Some m, Some q) \<Rightarrow> Inr (Id m q)
         | _ \<Rightarrow> Inl (''invalid id: '' @ s))"

lemma id_from_to_string: "id_from_str (id_to_string i) = Inr i"
proof -
  have "split_once (CHR ''-'') (id_to_string i) =
      Some (show_nat (unat (id_ms i)), show_nat (unat (id_seq i)))"
    using split_once_first [OF minus_notin_show_nat] by (simp add: id_to_string_def)
  then show ?thesis
    by (simp add: id_from_str_def parse_u64_show)
qed

text \<open>
  C39: The id handed out after another is later than it and no earlier than the clock, and
  the source gives out only when the very last id has been used: a clock that steps back
  never makes ids repeat or go back.
\<close>

theorem id_next_after_increases:
  "case id_next_after prev now of
     Some i \<Rightarrow> prev < i \<and> now \<le> id_ms i
   | None \<Rightarrow> prev = id_max"
proof (cases "id_next_after prev now")
  case None
  then show ?thesis by (simp add: id_next_after_def id_after_None split: if_splits)
next
  case (Some i)
  have "now \<le> id_ms i"
  proof (cases "now > id_ms prev")
    case True
    with Some show ?thesis by (auto simp: id_next_after_def)
  next
    case False
    then have "id_after prev = Some i" using Some by (simp add: id_next_after_def)
    from id_after_gt [OF this] have "id_ms prev \<le> id_ms i" by (auto simp: less_id_def)
    with False show ?thesis by simp
  qed
  with clock_ids.next_gt [OF Some] Some show ?thesis by simp
qed

text \<open>
  Every id reads back from its text form as itself.
\<close>

theorem id_text_roundtrip: "id_from_str (id_to_string i) = Inr i"
  by (rule id_from_to_string)

end
