(* ===== verification/Db.thy ===== *)
theory Db
  imports Zset Capture Ids
begin

text \<open>
  The keyspace (\<open>src/src/db.rs\<close>): what a key holds, its expiry, the operations every change
  goes through, the expire cycle and the capture of the whole keyspace. Freeing a large
  value on another thread changes nothing that can be observed and is left out.
\<close>

subsection \<open>Values\<close>

record pending_entry =
  pe_consumer :: str
  pe_delivered :: u64
  pe_count :: u64

record consumer =
  con_seen :: u64
  con_active :: "u64 option"

record group =
  grp_last_delivered :: id
  grp_read :: u64
  grp_pending :: "(id, pending_entry) btree_map"
  grp_consumers :: "(str, consumer) btree_map"

record stream =
  st_entries :: "(id, (str \<times> str) list) btree_map"
  st_last_id :: id
  st_added :: u64
  st_max_deleted :: id
  st_groups :: "(str, group) btree_map"

text \<open>\<open>drop_oldest\<close> and the two ways to trim a stream.\<close>

fun drop_oldest :: "nat \<Rightarrow> stream \<Rightarrow> stream" where
  "drop_oldest 0 s = s"
| "drop_oldest (Suc n) s =
     drop_oldest n
       (case bm_first (st_entries s) of
          Some (i, _) \<Rightarrow> s\<lparr>st_entries := bm_remove i (st_entries s), st_max_deleted := max (st_max_deleted s) i\<rparr>
        | None \<Rightarrow> s)"

definition trim_to :: "nat \<Rightarrow> stream \<Rightarrow> stream \<times> nat" where
  "trim_to keep s = (let excess = bm_len (st_entries s) - keep in (drop_oldest excess s, excess))"

definition trim_before :: "id \<Rightarrow> stream \<Rightarrow> stream \<times> nat" where
  "trim_before mn s = (let excess = length (bm_before mn (st_entries s)) in (drop_oldest excess s, excess))"

datatype kvalue =
    V_String str
  | V_List "str list"
  | V_Hash "(str, str) btree_map"
  | V_Set "str btree_set"
  | V_ZSet zset
  | V_Stream stream

fun type_name :: "kvalue \<Rightarrow> str" where
  "type_name (V_String _) = ''string''"
| "type_name (V_List _) = ''list''"
| "type_name (V_Hash _) = ''hash''"
| "type_name (V_Set _) = ''set''"
| "type_name (V_ZSet _) = ''zset''"
| "type_name (V_Stream _) = ''stream''"

fun value_elements :: "kvalue \<Rightarrow> nat" where
  "value_elements (V_String _) = 1"
| "value_elements (V_List l) = length l"
| "value_elements (V_Hash h) = bm_len h"
| "value_elements (V_Set s) = bm_len s"
| "value_elements (V_ZSet z) = zset_len z"
| "value_elements (V_Stream s) = bm_len (st_entries s)"

fun is_empty_collection :: "kvalue \<Rightarrow> bool" where
  "is_empty_collection (V_List l) = (l = [])"
| "is_empty_collection (V_Hash h) = (bm_len h = 0)"
| "is_empty_collection (V_Set s) = (bm_len s = 0)"
| "is_empty_collection (V_ZSet z) = (zset_len z = 0)"
| "is_empty_collection (V_String _) = False"
| "is_empty_collection (V_Stream _) = False"

record kentry =
  ent_value :: kvalue
  ent_expires :: "u64 option"

definition entry_expired :: "u64 \<Rightarrow> kentry \<Rightarrow> bool" where
  "entry_expired now e = (case ent_expires e of Some at \<Rightarrow> at \<le> now | None \<Rightarrow> False)"

subsection \<open>The keyspace\<close>

text \<open>
  The heap of deadlines is the list it pops in order. \<open>captures\<close> numbers the captures.
\<close>

record numbered_capture = "str capture_state" +
  cs_number :: nat

record db =
  db_keys :: "(str, kentry) btree_map"
  db_deadlines :: "(u64 \<times> str) list"
  db_capture :: "numbered_capture option"
  db_captures :: nat

definition db_default :: db where
  "db_default = \<lparr>db_keys = bm_empty, db_deadlines = [], db_capture = None, db_captures = 0\<rparr>"

definition key_deadlines :: "(str, kentry) btree_map \<Rightarrow> (u64 \<times> str) list" where
  "key_deadlines keys =
     sort (concat (map (\<lambda>(k, e). case ent_expires e of Some at \<Rightarrow> [(at, k)] | None \<Rightarrow> []) (bm_entries keys)))"

definition reindex_deadlines :: "db \<Rightarrow> db" where
  "reindex_deadlines d = d\<lparr>db_deadlines := key_deadlines (db_keys d)\<rparr>"

definition db_load :: "(str, kentry) btree_map \<Rightarrow> db" where
  "db_load keys = reindex_deadlines (db_default\<lparr>db_keys := keys\<rparr>)"

text \<open>\<open>ser\<close> is the text of a key with its entry in the snapshot, \<open>"key":entry\<close>.\<close>

type_synonym key_text = "str \<Rightarrow> kentry \<Rightarrow> str option"

definition key_text :: "(str \<Rightarrow> str option) \<Rightarrow> (kentry \<Rightarrow> str option) \<Rightarrow> key_text" where
  "key_text key_json entry_json key e =
     (case (key_json key, entry_json e) of (Some k, Some v) \<Rightarrow> Some (k @ '':'' @ v) | _ \<Rightarrow> None)"

definition db_preserve :: "key_text \<Rightarrow> str \<Rightarrow> db \<Rightarrow> db" where
  "db_preserve ser key d =
     (case db_capture d of
        None \<Rightarrow> d
      | Some c \<Rightarrow>
          d\<lparr>db_capture := Some (capture_preserve (capture_reached c key) key
              (map_option (ser key) (bm_get (db_keys d) key)) c)\<rparr>)"

definition db_insert :: "key_text \<Rightarrow> str \<Rightarrow> kentry \<Rightarrow> db \<Rightarrow> db" where
  "db_insert ser key e d = (let d = db_preserve ser key d in d\<lparr>db_keys := bm_insert key e (db_keys d)\<rparr>)"

definition db_replace :: "key_text \<Rightarrow> str \<Rightarrow> kentry \<Rightarrow> db \<Rightarrow> db \<times> kentry option" where
  "db_replace ser key e d =
     (let d = db_preserve ser key d in
      case bm_get (db_keys d) key of
        Some held \<Rightarrow> (d\<lparr>db_keys := bm_insert key e (db_keys d)\<rparr>, None)
      | None \<Rightarrow> (d, Some e))"

definition db_take :: "key_text \<Rightarrow> str \<Rightarrow> db \<Rightarrow> db \<times> kentry option" where
  "db_take ser key d =
     (let d = db_preserve ser key d
      in (d\<lparr>db_keys := bm_remove key (db_keys d)\<rparr>, bm_get (db_keys d) key))"

definition db_get :: "str \<Rightarrow> u64 \<Rightarrow> db \<Rightarrow> kentry option" where
  "db_get key now d =
     (case bm_get (db_keys d) key of
        Some e \<Rightarrow> if entry_expired now e then None else Some e
      | None \<Rightarrow> None)"

text \<open>\<open>get_mut\<close> with what its caller does to the live entry it finds.\<close>

definition db_get_mut :: "key_text \<Rightarrow> str \<Rightarrow> u64 \<Rightarrow> (kentry \<Rightarrow> kentry) \<Rightarrow> db \<Rightarrow> db" where
  "db_get_mut ser key now f d =
     (let d = db_preserve ser key d;
          d = (case bm_get (db_keys d) key of
                 Some e \<Rightarrow> if entry_expired now e then d\<lparr>db_keys := bm_remove key (db_keys d)\<rparr> else d
               | None \<Rightarrow> d)
      in d\<lparr>db_keys := bm_update key f (db_keys d)\<rparr>)"

definition db_exists :: "str \<Rightarrow> u64 \<Rightarrow> db \<Rightarrow> bool" where
  "db_exists key now d \<longleftrightarrow> db_get key now d \<noteq> None"

definition db_remove :: "key_text \<Rightarrow> str \<Rightarrow> u64 \<Rightarrow> db \<Rightarrow> db \<times> kentry option" where
  "db_remove ser key now d =
     (case db_take ser key d of
        (d, None) \<Rightarrow> (d, None)
      | (d, Some e) \<Rightarrow> (d, if entry_expired now e then None else Some e))"

definition db_delete :: "key_text \<Rightarrow> str \<Rightarrow> u64 \<Rightarrow> db \<Rightarrow> db \<times> bool" where
  "db_delete ser key now d =
     (case db_take ser key d of
        (d, None) \<Rightarrow> (d, False)
      | (d, Some e) \<Rightarrow> (d, \<not> entry_expired now e))"

definition db_prune :: "key_text \<Rightarrow> str \<Rightarrow> db \<Rightarrow> db" where
  "db_prune ser key d =
     (case bm_get (db_keys d) key of
        Some e \<Rightarrow> if is_empty_collection (ent_value e) then fst (db_take ser key d) else d
      | None \<Rightarrow> d)"

definition live_keys :: "u64 \<Rightarrow> db \<Rightarrow> (str \<times> kentry) list" where
  "live_keys now d = filter (\<lambda>(_, e). \<not> entry_expired now e) (bm_entries (db_keys d))"

definition db_len :: "u64 \<Rightarrow> db \<Rightarrow> nat" where
  "db_len now d = length (live_keys now d)"

definition db_is_empty :: "u64 \<Rightarrow> db \<Rightarrow> bool" where
  "db_is_empty now d \<longleftrightarrow> live_keys now d = []"

definition with_prefixes :: "str list \<Rightarrow> str option \<Rightarrow> db \<Rightarrow> (str \<times> kentry) list" where
  "with_prefixes prefixes after d =
     concat (map (\<lambda>prefix.
       let run = (case after of
                    Some a \<Rightarrow> if prefix \<le> a then bm_after a (db_keys d) else bm_from prefix (db_keys d)
                  | None \<Rightarrow> bm_from prefix (db_keys d))
       in takeWhile (\<lambda>(k, _). starts_with k prefix) run) prefixes)"

subsection \<open>The capture of the keyspace\<close>

definition db_capture_step :: "key_text \<Rightarrow> nat option \<Rightarrow> db \<Rightarrow> db \<times> bool" where
  "db_capture_step ser budget d =
     (case db_capture d of
        None \<Rightarrow> (d, True)
      | Some c \<Rightarrow>
          if cs_done c then (d, True)
          else
            (let c = capture_take ser budget (run_after (cs_cursor c) (db_keys d)) c
             in (d\<lparr>db_capture := Some c\<rparr>, cs_done c)))"

definition db_clear :: "key_text \<Rightarrow> db \<Rightarrow> db" where
  "db_clear ser d = (fst (db_capture_step ser None d))\<lparr>db_keys := bm_empty\<rparr>"

definition db_begin_capture :: "str \<Rightarrow> db \<Rightarrow> db" where
  "db_begin_capture out d =
     (let d = d\<lparr>db_captures := db_captures d + 1\<rparr>
      in d\<lparr>db_capture := Some
          \<lparr>cs_cursor = None, cs_early = bm_empty, cs_parts = [], cs_out = out, cs_filled = 0,
           cs_written = 0, cs_done = False, cs_broken = False, cs_number = db_captures d\<rparr>\<rparr>)"

definition db_drain_capture :: "db \<Rightarrow> db \<times> str list" where
  "db_drain_capture d =
     (case db_capture d of
        Some c \<Rightarrow> (d\<lparr>db_capture := Some (c\<lparr>cs_parts := []\<rparr>)\<rparr>, cs_parts c)
      | None \<Rightarrow> (d, []))"

definition db_end_capture :: "key_text \<Rightarrow> db \<Rightarrow> db \<times> (str + str list)" where
  "db_end_capture ser d =
     (let d = fst (db_capture_step ser None d) in
      case db_capture d of
        None \<Rightarrow> (d, Inl ''no snapshot is being taken'')
      | Some c \<Rightarrow>
          (d\<lparr>db_capture := None\<rparr>,
           if cs_broken c then Inl ''a key could not be serialized''
           else Inr (cs_parts c @ [cs_out c @ ''}''])))"

definition db_abandon_capture :: "db \<Rightarrow> db" where
  "db_abandon_capture d = d\<lparr>db_capture := None\<rparr>"

subsection \<open>Expiry\<close>

definition db_deadline :: "str \<Rightarrow> u64 \<Rightarrow> db \<Rightarrow> db" where
  "db_deadline key at d =
     (let d = d\<lparr>db_deadlines := insort (at, key) (db_deadlines d)\<rparr>
      in if length (db_deadlines d) > 2 * bm_len (db_keys d) + 1024 then reindex_deadlines d else d)"

definition expire_batch :: nat where
  "expire_batch = 1000"

text \<open>The loop of \<open>expire_keys\<close> over the deadlines, with how many it visited and the names
  of the keys it removed; it hands back the deadlines it leaves.\<close>

fun expire_loop ::
  "key_text \<Rightarrow> u64 \<Rightarrow> (u64 \<times> str) list \<Rightarrow> nat \<Rightarrow> str list \<Rightarrow> db \<Rightarrow> (u64 \<times> str) list \<times> str list \<times> db" where
  "expire_loop ser now [] visited gone d = ([], gone, d)"
| "expire_loop ser now ((at, key) # ds) visited gone d =
     (if length gone < expire_batch \<and> visited < 4 * expire_batch \<and> at \<le> now then
        (if (case bm_get (db_keys d) key of Some e \<Rightarrow> ent_expires e = Some at | None \<Rightarrow> False)
         then expire_loop ser now ds (visited + 1) (gone @ [key]) (fst (db_take ser key d))
         else expire_loop ser now ds (visited + 1) gone d)
      else ((at, key) # ds, gone, d))"

definition expire_keys :: "key_text \<Rightarrow> u64 \<Rightarrow> db \<Rightarrow> db \<times> str list" where
  "expire_keys ser now d =
     (case expire_loop ser now (db_deadlines d) 0 [] d of
        (ds, gone, d) \<Rightarrow> (d\<lparr>db_deadlines := ds\<rparr>, gone))"

definition expiry_due :: "u64 \<Rightarrow> db \<Rightarrow> bool" where
  "expiry_due now d = (case db_deadlines d of (at, _) # _ \<Rightarrow> at \<le> now | [] \<Rightarrow> False)"

subsection \<open>The expire cycle\<close>

text \<open>Every expiry of a key has its deadline, and the deadlines come in order.\<close>

definition deadlines_ok :: "db \<Rightarrow> bool" where
  "deadlines_ok d \<longleftrightarrow> sorted (db_deadlines d) \<and>
     (\<forall>k e at. bm_get (db_keys d) k = Some e \<and> ent_expires e = Some at \<longrightarrow> (at, k) \<in> set (db_deadlines d))"

lemma preserve_fields [simp, frame_simps]:
  "db_keys (db_preserve ser k d) = db_keys d" "db_deadlines (db_preserve ser k d) = db_deadlines d"
  "db_captures (db_preserve ser k d) = db_captures d"
  by (simp_all add: db_preserve_def split: option.split)

lemma take_fields [simp, frame_simps]:
  "db_keys (fst (db_take ser k d)) = bm_remove k (db_keys d)"
  "db_deadlines (fst (db_take ser k d)) = db_deadlines d"
  "snd (db_take ser k d) = bm_get (db_keys d) k"
  by (simp_all add: db_take_def Let_def)

lemma step_fields [simp, frame_simps]:
  "db_keys (fst (db_capture_step ser b d)) = db_keys d"
  "db_deadlines (fst (db_capture_step ser b d)) = db_deadlines d"
  by (simp_all add: db_capture_step_def Let_def split: option.split)

lemma in_key_deadlines:
  "(at, k) \<in> set (key_deadlines keys) \<longleftrightarrow> (\<exists>e. bm_get keys k = Some e \<and> ent_expires e = Some at)"
  by (auto simp: key_deadlines_def in_entries [symmetric] split: option.splits) force

lemma reindex_ok: "deadlines_ok (reindex_deadlines d)"
  by (simp add: deadlines_ok_def reindex_deadlines_def in_key_deadlines) (simp add: key_deadlines_def)

lemma load_ok: "deadlines_ok (db_load keys)"
  by (simp add: db_load_def reindex_ok)

text \<open>What a command does to a key: insert an entry and note its expiry, if it has one.\<close>

definition db_store :: "key_text \<Rightarrow> str \<Rightarrow> kentry \<Rightarrow> db \<Rightarrow> db" where
  "db_store ser key e d =
     (let d = db_insert ser key e d
      in case ent_expires e of Some at \<Rightarrow> db_deadline key at d | None \<Rightarrow> d)"

lemma store_ok: "deadlines_ok d \<Longrightarrow> deadlines_ok (db_store ser key e d)"
  by (auto simp: db_store_def db_insert_def db_deadline_def Let_def reindex_ok set_insort_key
      deadlines_ok_def sorted_insort split: option.split)
    (auto simp: reindex_ok [unfolded deadlines_ok_def])

lemma take_ok: "deadlines_ok d \<Longrightarrow> deadlines_ok (fst (db_take ser k d))"
  by (auto simp: deadlines_ok_def split: if_splits)

lemma clear_ok: "deadlines_ok d \<Longrightarrow> deadlines_ok (db_clear ser d)"
  by (simp add: deadlines_ok_def db_clear_def)

lemma prune_ok: "deadlines_ok d \<Longrightarrow> deadlines_ok (db_prune ser k d)"
  by (simp add: db_prune_def take_ok split: option.split)

lemma get_mut_ok:
  assumes "deadlines_ok d" "\<And>e. ent_expires (f e) = ent_expires e"
  shows "deadlines_ok (db_get_mut ser k now f d)"
  using assms by (auto simp: deadlines_ok_def db_get_mut_def Let_def split: option.splits if_splits)

definition removes :: "u64 \<Rightarrow> db \<Rightarrow> str list \<Rightarrow> db \<Rightarrow> bool" where
  "removes now d gone d' \<longleftrightarrow>
     (\<forall>k. bm_get (db_keys d') k = (if k \<in> set gone then None else bm_get (db_keys d) k)) \<and>
     (\<forall>k \<in> set gone. \<exists>e. bm_get (db_keys d) k = Some e \<and> entry_expired now e)"

lemma expire_loop_removes:
  assumes "expire_loop ser now ds visited gone d = (ds', gone', d')"
    and "removes now d0 gone d"
  shows "removes now d0 gone' d' \<and> db_deadlines d' = db_deadlines d"
  using assms
proof (induction ser now ds visited gone d rule: expire_loop.induct)
  case (2 ser now at key ds visited gone d)
  show ?case
  proof (cases "length gone < expire_batch \<and> visited < 4 * expire_batch \<and> at \<le> now")
    case True
    show ?thesis
    proof (cases "case bm_get (db_keys d) key of Some e \<Rightarrow> ent_expires e = Some at | None \<Rightarrow> False")
      case due: True
      then obtain e where e: "bm_get (db_keys d) key = Some e" "ent_expires e = Some at"
        by (auto split: option.splits)
      then have "bm_get (db_keys d0) key = Some e" "entry_expired now e"
        using 2(4) True by (auto simp: removes_def entry_expired_def split: if_splits)
      then have "removes now d0 (gone @ [key]) (fst (db_take ser key d))"
        using 2(4) by (auto simp: removes_def)
      from 2(1) [OF True due _ this] 2(3) True due show ?thesis by simp
    next
      case False
      from 2(2) [OF True False _ 2(4)] 2(3) True False show ?thesis by simp
    qed
  next
    case False
    then show ?thesis using 2(3,4) by auto
  qed
qed auto

lemma expire_loop_covers:
  assumes "expire_loop ser now ds visited gone d = (ds', gone', d')" and "sorted ds"
    and "\<forall>k e at. bm_get (db_keys d) k = Some e \<and> ent_expires e = Some at \<longrightarrow> (at, k) \<in> set ds"
  shows "sorted ds' \<and>
    (\<forall>k e at. bm_get (db_keys d') k = Some e \<and> ent_expires e = Some at \<longrightarrow> (at, k) \<in> set ds')"
  using assms
proof (induction ser now ds visited gone d rule: expire_loop.induct)
  case (2 ser now at key ds visited gone d)
  show ?case
  proof (cases "length gone < expire_batch \<and> visited < 4 * expire_batch \<and> at \<le> now")
    case True
    show ?thesis
    proof (cases "case bm_get (db_keys d) key of Some e \<Rightarrow> ent_expires e = Some at | None \<Rightarrow> False")
      case due: True
      have "\<forall>k e a. bm_get (db_keys (fst (db_take ser key d))) k = Some e \<and> ent_expires e = Some a \<longrightarrow> (a, k) \<in> set ds"
        using 2(5) by (auto split: if_splits)
      moreover have "expire_loop ser now ds (visited + 1) (gone @ [key]) (fst (db_take ser key d)) = (ds', gone', d')"
        using 2(3) True due by simp
      moreover have "sorted ds" using 2(4) by simp
      ultimately show ?thesis using 2(1) [OF True due] by blast
    next
      case False
      have "\<forall>k e a. bm_get (db_keys d) k = Some e \<and> ent_expires e = Some a \<longrightarrow> (a, k) \<in> set ds"
        using 2(5) False by fastforce
      moreover have "expire_loop ser now ds (visited + 1) gone d = (ds', gone', d')"
        using 2(3) True False by simp
      moreover have "sorted ds" using 2(4) by simp
      ultimately show ?thesis using 2(2) [OF True False] by blast
    qed
  next
    case False
    then show ?thesis using 2(3-5) by auto
  qed
qed auto

lemma expire_loop_length:
  "length (fst (expire_loop ser now ds visited gone d)) \<le> length ds"
  by (induction ser now ds visited gone d rule: expire_loop.induct) (auto intro: le_SucI)

lemma expire_keys_removes:
  "expire_keys ser now d = (d', gone) \<Longrightarrow> removes now d gone d'"
  using expire_loop_removes [of ser now "db_deadlines d" 0 "[]" d _ _ _ d]
  by (auto simp: expire_keys_def removes_def split: prod.splits)

lemma expire_keys_ok: "deadlines_ok d \<Longrightarrow> deadlines_ok (fst (expire_keys ser now d))"
  using expire_loop_covers [of ser now "db_deadlines d" 0 "[]" d]
  by (auto simp: expire_keys_def deadlines_ok_def split: prod.splits)

lemma expire_progress:
  assumes "expiry_due now d"
  shows "length (db_deadlines (fst (expire_keys ser now d))) < length (db_deadlines d)"
proof -
  obtain at key ds where ds: "db_deadlines d = (at, key) # ds" "at \<le> now"
    using assms by (auto simp: expiry_due_def split: list.splits)
  have *: "length (fst (expire_loop ser now ds v g d')) \<le> length ds" for v g d'
    by (rule expire_loop_length)
  have "length (fst (expire_loop ser now (db_deadlines d) 0 [] d)) < length (db_deadlines d)"
    using ds * [of 1 "[key]"] * [of 1 "[]"] by (auto simp: expire_batch_def less_Suc_eq_le)
  then show ?thesis by (auto simp: expire_keys_def split: prod.splits)
qed

lemma not_due_live:
  assumes "deadlines_ok d" "\<not> expiry_due now d" "bm_get (db_keys d) k = Some e"
  shows "\<not> entry_expired now e"
proof
  assume "entry_expired now e"
  then obtain at where at: "ent_expires e = Some at" "at \<le> now" by (auto simp: entry_expired_def split: option.splits)
  then have m: "(at, k) \<in> set (db_deadlines d)" using assms by (auto simp: deadlines_ok_def)
  then obtain a b ds where ds: "db_deadlines d = (a, b) # ds" by (cases "db_deadlines d") auto
  then have "(a, b) \<le> (at, k)" using m assms(1) by (auto simp: deadlines_ok_def)
  then have "a \<le> at" by auto
  with at(2) ds assms(2) show False by (auto simp: expiry_due_def)
qed

lemma expire_iterate:
  assumes "deadlines_ok d" "length (db_deadlines d) \<le> n"
  shows "let d' = ((\<lambda>d. fst (expire_keys ser now d)) ^^ n) d
    in deadlines_ok d' \<and> (\<not> expiry_due now d') \<and>
      (\<exists>gone. removes now d gone d')"
  using assms
proof (induction n arbitrary: d)
  case 0
  then show ?case by (auto simp: expiry_due_def removes_def intro!: exI [of _ "[]"])
next
  case (Suc n)
  let ?d = "fst (expire_keys ser now d)"
  obtain gone where g: "removes now d gone ?d"
    using expire_keys_removes [of ser now d] by (metis prod.collapse)
  show ?case
  proof (cases "expiry_due now d")
    case True
    then have "length (db_deadlines ?d) \<le> n" using expire_progress [OF True, of ser] Suc.prems by simp
    from Suc.IH [OF expire_keys_ok [OF Suc.prems(1)] this] obtain gone' where
      IH: "deadlines_ok (((\<lambda>d. fst (expire_keys ser now d)) ^^ n) ?d)"
        "\<not> expiry_due now (((\<lambda>d. fst (expire_keys ser now d)) ^^ n) ?d)"
        "removes now ?d gone' (((\<lambda>d. fst (expire_keys ser now d)) ^^ n) ?d)"
      by (auto simp: Let_def)
    have "removes now d (gone @ gone') (((\<lambda>d. fst (expire_keys ser now d)) ^^ n) ?d)"
      using g IH(3) unfolding removes_def by (auto split: if_splits)
    with IH show ?thesis by (auto simp: funpow_Suc_right simp del: funpow.simps)
  next
    case False
    have stop: "expire_keys ser now d = (d, [])" if "\<not> expiry_due now d" for d
    proof (cases "db_deadlines d")
      case (Cons x ds)
      with that show ?thesis by (cases x) (auto simp: expire_keys_def expiry_due_def)
    qed (simp add: expire_keys_def)
    have "((\<lambda>d. fst (expire_keys ser now d)) ^^ m) d = d" for m
      by (induction m) (simp_all add: stop [OF False])
    from this [of "Suc n"] Suc.prems False show ?thesis
      by (auto simp: removes_def simp del: funpow.simps intro!: exI [of _ "[]"])
  qed
qed

text \<open>
  C33: running the expire cycle until nothing is due, which takes at most one round per
  deadline held, removes exactly the keys whose time has come and leaves every other key
  as it was.
\<close>

theorem expire_cycle_exact:
  assumes "deadlines_ok d"
  shows "let d' = ((\<lambda>d. fst (expire_keys ser now d)) ^^ length (db_deadlines d)) d
    in \<not> expiry_due now d' \<and> db_keys d' = bm_filter (\<lambda>_ e. \<not> entry_expired now e) (db_keys d)"
proof -
  let ?d = "((\<lambda>d. fst (expire_keys ser now d)) ^^ length (db_deadlines d)) d"
  obtain gone where d: "deadlines_ok ?d" "\<not> expiry_due now ?d" "removes now d gone ?d"
    using expire_iterate [OF assms order_refl, of ser now] by (auto simp: Let_def)
  have "db_keys ?d = bm_filter (\<lambda>_ e. \<not> entry_expired now e) (db_keys d)"
  proof (rule bm_eqI)
    fix k
    show "bm_get (db_keys ?d) k = bm_get (bm_filter (\<lambda>_ e. \<not> entry_expired now e) (db_keys d)) k"
      using d(3) not_due_live [OF d(1,2), of k] unfolding removes_def
      by (cases "bm_get (db_keys d) k") (auto split: if_splits)
  qed
  with d(2) show ?thesis by (simp add: Let_def)
qed


lemma expire_cycle_exact_witness:
  "let d = db_load (bm_of_list [(''a'', \<lparr>ent_value = V_String ''x'', ent_expires = Some 5\<rparr>),
        (''b'', \<lparr>ent_value = V_String ''y'', ent_expires = None\<rparr>)]);
      d' = ((\<lambda>d. fst (expire_keys (\<lambda>_ _. None) 5 d)) ^^ length (db_deadlines d)) d
    in \<not> expiry_due 5 d' \<and> db_keys d' = bm_filter (\<lambda>_ e. \<not> entry_expired 5 e) (db_keys d)"
  unfolding Let_def [of "db_load _"] by (rule expire_cycle_exact) (rule load_ok)

subsection \<open>Listing by prefixes\<close>

lemma takeWhile_run:
  "sorted (map fst xs) \<Longrightarrow> \<forall>x \<in> set xs. (p :: str) \<le> fst x \<Longrightarrow>
   takeWhile (\<lambda>(k, _). starts_with k p) xs = filter (\<lambda>(k, _). starts_with k p) xs"
proof (induction xs)
  case (Cons x xs)
  obtain k v where x: "x = (k, v)" by fastforce
  show ?case
  proof (cases "starts_with k p")
    case False
    have "\<not> starts_with k' p" if "(k', v') \<in> set xs" for k' v'
    proof
      assume "starts_with k' p"
      moreover have "k \<le> k'" using Cons.prems(1) that x by force
      moreover have "p \<le> k" using Cons.prems(2) x by simp
      ultimately have "starts_with k p" by (blast intro: starts_with_between)
      with False show False ..
    qed
    then have "filter (\<lambda>(k, _). starts_with k p) xs = []" by (auto simp: filter_empty_conv)
    then show ?thesis using False x by simp
  qed (use Cons x in simp)
qed simp

definition after_ok :: "str option \<Rightarrow> str \<Rightarrow> bool" where
  "after_ok after k = (case after of Some a \<Rightarrow> a < k | None \<Rightarrow> True)"

lemma sorted_entries: "sorted (map fst (bm_entries m))"
  using ssorted_entries strict_sorted_iff by blast

lemma sorted_filter_fst: "sorted (map fst xs) \<Longrightarrow> sorted (map fst (filter P xs))"
  by (induction xs) auto

lemma prefix_run:
  "(let run = (case after of
        Some a \<Rightarrow> if prefix \<le> a then bm_after a m else bm_from prefix m
      | None \<Rightarrow> bm_from prefix m)
    in takeWhile (\<lambda>(k, _). starts_with k prefix) run) =
   filter (\<lambda>(k, _). after_ok after k \<and> starts_with k prefix) (bm_entries m)"
proof -
  have f: "takeWhile (\<lambda>(k, _). starts_with k prefix) (bm_from prefix m) =
      filter (\<lambda>(k, _). starts_with k prefix) (bm_entries m)"
    unfolding bm_from_def
    by (subst takeWhile_run) (auto simp: sorted_filter_fst sorted_entries intro!: filter_cong dest: starts_with_le)
  have a: "takeWhile (\<lambda>(k, _). starts_with k prefix) (bm_after a m) =
      filter (\<lambda>(k, _). a < k \<and> starts_with k prefix) (bm_entries m)" if "prefix \<le> a" for a
    unfolding bm_after_def using that
    by (subst takeWhile_run) (auto simp: sorted_filter_fst sorted_entries intro!: filter_cong)
  have "filter (\<lambda>(k, _). starts_with k prefix) (bm_entries m) =
      filter (\<lambda>(k, _). a < k \<and> starts_with k prefix) (bm_entries m)" if "\<not> prefix \<le> a" for a
    using that by (intro filter_cong) (auto dest: starts_with_le)
  with f a show ?thesis by (simp add: Let_def after_ok_def split: option.split)
qed

lemma filter_two_runs:
  assumes "sorted_wrt (<) (map fst xs)" and "\<And>x y. x \<in> set xs \<Longrightarrow> y \<in> set xs \<Longrightarrow> P x \<Longrightarrow> Q y \<Longrightarrow> fst x < (fst y :: 'a::linorder)"
  shows "filter P xs @ filter Q xs = filter (\<lambda>x. P x \<or> Q x) xs"
  using assms
proof (induction xs)
  case (Cons x xs)
  show ?case
  proof (cases "Q x")
    case True
    have "\<not> P y" if "y \<in> set (x # xs)" for y
    proof
      assume "P y"
      with Cons.prems(2) [OF that, of x] True have "fst y < fst x" by simp
      then show False using Cons.prems(1) that by force
    qed
    then have p: "filter P (x # xs) = []" "filter (\<lambda>x. P x \<or> Q x) (x # xs) = filter Q (x # xs)"
      by (auto simp: filter_empty_conv intro: filter_cong)
    show ?thesis unfolding p by simp
  next
    case False
    then show ?thesis using Cons by auto
  qed
qed simp

lemma with_prefixes_filter:
  assumes "sorted_wrt (\<lambda>a b. a < b \<and> \<not> starts_with b a) prefixes"
  shows "with_prefixes prefixes after d =
    filter (\<lambda>(k, _). after_ok after k \<and> list_ex (starts_with k) prefixes) (bm_entries (db_keys d))"
  using assms
proof (induction prefixes)
  case Nil
  then show ?case by (simp add: with_prefixes_def)
next
  case (Cons p ps)
  let ?E = "bm_entries (db_keys d)"
  have lt: "k < k'" if "starts_with k p" "starts_with k' q" "q \<in> set ps" for k k' q
  proof -
    have q: "p < q" "\<not> starts_with q p" using Cons.prems that(3) by auto
    have "q \<le> k'" using that(2) by (rule starts_with_le)
    moreover have "k < q"
    proof (rule ccontr)
      assume "\<not> k < q"
      then have "starts_with q p" using that(1) q(1) by (intro starts_with_between [of k p q]) auto
      with q(2) show False ..
    qed
    ultimately show ?thesis by simp
  qed
  have "with_prefixes (p # ps) after d =
      filter (\<lambda>(k, _). after_ok after k \<and> starts_with k p) ?E @ with_prefixes ps after d"
    using prefix_run [where after = after and prefix = p and m = "db_keys d"] by (simp add: with_prefixes_def)
  also have "\<dots> = filter (\<lambda>(k, _). after_ok after k \<and> starts_with k p) ?E @
      filter (\<lambda>(k, _). after_ok after k \<and> list_ex (starts_with k) ps) ?E"
    using Cons by simp
  also have "\<dots> = filter (\<lambda>x. (case x of (k, _) \<Rightarrow> after_ok after k \<and> starts_with k p) \<or>
      (case x of (k, _) \<Rightarrow> after_ok after k \<and> list_ex (starts_with k) ps)) ?E"
    by (rule filter_two_runs) (auto simp: list_ex_iff lt)
  also have "\<dots> = filter (\<lambda>(k, _). after_ok after k \<and> list_ex (starts_with k) (p # ps)) ?E"
    by (rule filter_cong) auto
  finally show ?case .
qed

subsection \<open>The capture is a snapshot\<close>

datatype db_op =
    Db_insert str kentry
  | Db_replace str kentry
  | Db_take str
  | Db_get_mut str u64 "kentry \<Rightarrow> kentry"
  | Db_prune str
  | Db_clear
  | Db_deadline str u64
  | Db_expire u64
  | Db_step "nat option"
  | Db_drain
  | Db_end

fun db_perform :: "key_text \<Rightarrow> db_op \<Rightarrow> db \<Rightarrow> db \<times> snap_out" where
  "db_perform ser (Db_insert k e) d = (db_insert ser k e d, Going [])"
| "db_perform ser (Db_replace k e) d = (fst (db_replace ser k e d), Going [])"
| "db_perform ser (Db_take k) d = (fst (db_take ser k d), Going [])"
| "db_perform ser (Db_get_mut k now f) d = (db_get_mut ser k now f d, Going [])"
| "db_perform ser (Db_prune k) d = (db_prune ser k d, Going [])"
| "db_perform ser Db_clear d = (db_clear ser d, Going [])"
| "db_perform ser (Db_deadline k at) d = (db_deadline k at d, Going [])"
| "db_perform ser (Db_expire now) d = (fst (expire_keys ser now d), Going [])"
| "db_perform ser (Db_step b) d = (fst (db_capture_step ser b d), Going [])"
| "db_perform ser Db_drain d = (case db_drain_capture d of (d, parts) \<Rightarrow> (d, Going parts))"
| "db_perform ser Db_end d =
     (case db_end_capture ser d of (d, Inl _) \<Rightarrow> (d, Failed) | (d, Inr parts) \<Rightarrow> (d, Finished parts))"

definition db_snap_inv :: "key_text \<Rightarrow> (str, kentry) btree_map \<Rightarrow> str \<Rightarrow> str list \<Rightarrow> db \<Rightarrow> bool" where
  "db_snap_inv ser m0 pre handed d \<longleftrightarrow>
     (\<exists>c. db_capture d = Some c \<and> capture_inv ser (\<lambda>_. True) m0 pre handed (db_keys d) c)"

lemma db_preserve_inv:
  assumes "db_snap_inv ser m0 pre handed d" and "\<And>k. k \<noteq> key \<Longrightarrow> bm_get m' k = bm_get (db_keys d) k"
  shows "db_snap_inv ser m0 pre handed ((db_preserve ser key d)\<lparr>db_keys := m'\<rparr>)"
proof -
  obtain c where c: "db_capture d = Some c" "capture_inv ser (\<lambda>_. True) m0 pre handed (db_keys d) c"
    using assms(1) by (auto simp: db_snap_inv_def)
  have "capture_reached c key \<longleftrightarrow> capture_reached c key \<or> \<not> True" by simp
  from preserve_inv [OF c(2) this assms(2)] c(1) show ?thesis
    by (simp add: db_snap_inv_def db_preserve_def)
qed

lemma db_preserve_inv_same:
  assumes "db_snap_inv ser m0 pre handed d" and "db_capture d' = db_capture (db_preserve ser key d)"
    and "\<And>k. k \<noteq> key \<Longrightarrow> bm_get (db_keys d') k = bm_get (db_keys d) k"
  shows "db_snap_inv ser m0 pre handed d'"
  using db_preserve_inv [OF assms(1,3)] assms(2) by (simp add: db_snap_inv_def)

lemma db_snap_take: "db_snap_inv ser m0 pre handed d \<Longrightarrow> db_snap_inv ser m0 pre handed (fst (db_take ser k d))"
  by (erule db_preserve_inv_same [where key = k]) (auto simp: db_take_def Let_def)

lemma db_snap_expire_loop:
  "db_snap_inv ser m0 pre handed d \<Longrightarrow> db_snap_inv ser m0 pre handed (snd (snd (expire_loop ser now ds v gone d)))"
  by (induction ser now ds v gone d rule: expire_loop.induct) (auto simp: db_snap_take)

lemma db_snap_deadlines [simp]:
  "db_snap_inv ser m0 pre handed (d\<lparr>db_deadlines := x\<rparr>) = db_snap_inv ser m0 pre handed d"
  by (simp add: db_snap_inv_def)

lemma db_snap_step:
  assumes "db_snap_inv ser m0 pre handed d"
  shows "db_snap_inv ser m0 pre handed (fst (db_capture_step ser budget d))"
proof -
  obtain c where c: "db_capture d = Some c" "capture_inv ser (\<lambda>_. True) m0 pre handed (db_keys d) c"
    using assms by (auto simp: db_snap_inv_def)
  show ?thesis
  proof (cases "cs_done c")
    case False
    have "filter (\<lambda>(k, _). True) xs = xs" for xs :: "(str \<times> kentry) list" by (induction xs) auto
    with run_after_run [OF False, of "\<lambda>_. True" "db_keys d"] have "run_of (\<lambda>_. True) (db_keys d) c (run_after (cs_cursor c) (db_keys d))"
      by simp
    from capture_take_inv [OF c(2) this False] c False show ?thesis
      by (simp add: db_capture_step_def db_snap_inv_def Let_def)
  qed (use assms c in \<open>simp add: db_capture_step_def\<close>)
qed

lemma db_step_unbounded:
  "db_capture (fst (db_capture_step ser None d)) = Some c \<Longrightarrow> cs_done c"
  by (auto simp: db_capture_step_def Let_def take_unbounded_done split: option.splits if_splits)

lemma db_snap_clear:
  assumes "db_snap_inv ser m0 pre handed d"
  shows "db_snap_inv ser m0 pre handed (db_clear ser d)"
proof -
  let ?d = "fst (db_capture_step ser None d)"
  obtain c where c: "db_capture ?d = Some c" "capture_inv ser (\<lambda>_. True) m0 pre handed (db_keys ?d) c"
    using db_snap_step [OF assms] by (auto simp: db_snap_inv_def)
  have "cs_done c" using db_step_unbounded [OF c(1)] .
  then have "capture_inv ser (\<lambda>_. True) m0 pre handed bm_empty c"
    using c(2) by (simp add: capture_inv_def capture_reached_def)
  then show ?thesis using c(1) by (simp add: db_clear_def db_snap_inv_def)
qed

lemma db_end_outcome:
  assumes "db_snap_inv ser m0 pre handed d"
  shows "case db_end_capture ser d of
      (_, Inl _) \<Rightarrow> \<exists>(k, v) \<in> set (bm_entries m0). ser k v = None
    | (_, Inr parts) \<Rightarrow> \<exists>out. concat (handed @ parts) = out @ ''}'' \<and> capture_complete ser m0 pre out"
proof -
  let ?d = "fst (db_capture_step ser None d)"
  obtain c where c: "db_capture ?d = Some c" "capture_inv ser (\<lambda>_. True) m0 pre handed (db_keys ?d) c"
    using db_snap_step [OF assms] by (auto simp: db_snap_inv_def)
  from capture_done_complete [OF c(2) db_step_unbounded [OF c(1)]] c(1) show ?thesis
    by (cases "cs_broken c") (auto simp: db_end_capture_def Let_def)
qed

lemma db_snap_get_mut:
  "db_snap_inv ser m0 pre handed d \<Longrightarrow> db_snap_inv ser m0 pre handed (db_get_mut ser k now f d)"
  by (erule db_preserve_inv_same [where key = k]) (auto simp: db_get_mut_def Let_def split: option.splits)

lemma db_perform_inv:
  assumes inv: "db_snap_inv ser m0 pre handed d"
  shows "case db_perform ser x d of
      (d', Going parts) \<Rightarrow> db_snap_inv ser m0 pre (handed @ parts) d'
    | (d', Finished parts) \<Rightarrow> \<exists>out. concat (handed @ parts) = out @ ''}'' \<and> capture_complete ser m0 pre out
    | (d', Failed) \<Rightarrow> \<exists>(k, v) \<in> set (bm_entries m0). ser k v = None"
proof (cases x)
  case (Db_replace k e)
  have "db_snap_inv ser m0 pre handed (fst (db_replace ser k e d))"
    by (rule db_preserve_inv_same [OF inv, where key = k]) (auto simp: db_replace_def Let_def split: option.split)
  then show ?thesis using Db_replace by simp
next
  case Db_drain
  obtain c where c: "db_capture d = Some c" "capture_inv ser (\<lambda>_. True) m0 pre handed (db_keys d) c"
    using inv by (auto simp: db_snap_inv_def)
  then show ?thesis
    using capture_inv_drain [OF c(2)] Db_drain by (simp add: db_drain_capture_def db_snap_inv_def)
next
  case Db_end
  then show ?thesis using db_end_outcome [OF inv] by (auto split: prod.splits sum.splits)
next
  case (Db_expire now)
  then show ?thesis
    using db_snap_expire_loop [OF inv, of now "db_deadlines d" 0 "[]"]
    by (auto simp: expire_keys_def split: prod.splits)
qed (use inv db_preserve_inv [OF inv] in
    \<open>simp_all add: db_insert_def Let_def db_snap_take db_snap_get_mut db_snap_clear db_snap_step
      db_prune_def db_deadline_def reindex_deadlines_def split: option.split\<close>)

interpretation db_snap: snapshotting db_keys ser "''}''" db_begin_capture "db_perform ser" "db_snap_inv ser"
  for ser
proof unfold_locales
  show "db_snap_inv ser (db_keys d) pre [] (db_begin_capture pre d)" for d pre
    unfolding db_snap_inv_def db_begin_capture_def Let_def
    by (auto intro!: capture_inv_start simp: capture_reached_def)
  fix m0 pre handed x d d' parts
  assume inv: "db_snap_inv ser m0 pre handed d"
  note out = db_perform_inv [OF inv, of x]
  show "db_perform ser x d = (d', Going parts) \<Longrightarrow> db_snap_inv ser m0 pre (handed @ parts) d'"
    using out by simp
  show "db_perform ser x d = (d', Finished parts) \<Longrightarrow>
      \<exists>out. concat (handed @ parts) = out @ ''}'' \<and> capture_complete ser m0 pre out"
    using out by simp
  show "db_perform ser x d = (d', Failed) \<Longrightarrow> \<exists>(k, v) \<in> set (bm_entries m0). ser k v = None"
    using out by simp
qed

text \<open>
  C27: a snapshot of the keyspace taken while commands, expiry and flushes go on is the
  bytes before it, then every key with its entry as they were when it began, each once,
  and the closing brace; it fails only if one of them cannot be written.
\<close>

theorem db_snapshot_exact:
  "case snap_run (db_perform ser) (xs @ [Db_end]) [] (db_begin_capture pre d) of
      (_, Going _) \<Rightarrow> False
    | (_, Finished parts) \<Rightarrow> \<exists>out. concat parts = out @ ''}'' \<and> capture_complete ser (db_keys d) pre out
    | (_, Failed) \<Rightarrow> None \<in> (\<lambda>(k, e). ser k e) ` set (bm_entries (db_keys d))"
proof -
  have e: "ended (snd (db_perform ser Db_end d))" for d
    by (simp split: prod.split sum.split)
  have v: "(\<exists>(k, v) \<in> set (bm_entries (db_keys d)). ser k v = None) \<longleftrightarrow>
      None \<in> (\<lambda>(k, e). ser k e) ` set (bm_entries (db_keys d))"
    by force
  from db_snap.snapshot_exact [OF e, where xs = xs and pre = pre and s = d] show ?thesis
    unfolding v by (auto split: prod.splits snap_out.splits)
qed

subsection \<open>Trimming a stream\<close>

lemma entries_remove_first:
  assumes "bm_entries m = (i, v) # xs"
  shows "bm_entries (bm_remove i m) = xs"
proof -
  have "ssorted (map fst ((i, v) # xs))" using ssorted_entries [of m] assms by simp
  then have "\<forall>(a, b) \<in> set xs. a \<noteq> i" by force
  then have "filter (\<lambda>(a, b). a \<noteq> i) xs = xs" by (auto simp: filter_id_conv)
  then show ?thesis using assms by (simp add: bm_remove_def bm_filter.rep_eq)
qed

lemma drop_oldest_entries:
  "bm_entries (st_entries (drop_oldest n s)) = drop n (bm_entries (st_entries s)) \<and>
   st_max_deleted (drop_oldest n s) = fold max (map fst (take n (bm_entries (st_entries s)))) (st_max_deleted s) \<and>
   st_last_id (drop_oldest n s) = st_last_id s \<and> st_groups (drop_oldest n s) = st_groups s"
proof (induction n arbitrary: s)
  case (Suc n)
  show ?case
  proof (cases "bm_entries (st_entries s)")
    case Nil
    then show ?thesis using Suc.IH [of s] by (simp add: bm_first_def)
  next
    case (Cons x xs)
    obtain i v where x: "x = (i, v)" by fastforce
    let ?s = "s\<lparr>st_entries := bm_remove i (st_entries s), st_max_deleted := max (st_max_deleted s) i\<rparr>"
    have "drop_oldest (Suc n) s = drop_oldest n ?s" using Cons x by (simp add: bm_first_def)
    then show ?thesis
      using Suc.IH [of ?s] Cons x entries_remove_first [of "st_entries s" i v xs]
      by (simp add: max.commute)
  qed
qed simp

lemma drop_before:
  "sorted (map fst xs) \<Longrightarrow>
   drop (length (filter (\<lambda>(k, _). k < mn) xs)) xs = filter (\<lambda>(k, _). (mn :: 'a::linorder) \<le> k) xs"
proof (induction xs)
  case (Cons x xs)
  obtain k v where x: "x = (k, v)" by fastforce
  show ?case
  proof (cases "k < mn")
    case False
    then have "\<forall>(k', v') \<in> set xs. mn \<le> k'" using Cons.prems x by force
    then have "filter (\<lambda>(k, _). k < mn) xs = []" "filter (\<lambda>(k, _). mn \<le> k) xs = xs"
      by (auto simp: filter_empty_conv filter_id_conv)
    then show ?thesis using False x by simp
  qed (use Cons x in simp)
qed simp

text \<open>
  trimming a stream removes its oldest entries and only those, keeping the newest
  \<open>keep\<close> or those from \<open>mn\<close> on, reports how many went, never lets the greatest id deleted
  fall behind one it removed, and leaves the groups and the last id alone.
\<close>

theorem stream_trims:
  "(let (s', n) = trim_to keep s in
      bm_entries (st_entries s') = drop (bm_len (st_entries s) - keep) (bm_entries (st_entries s)) \<and>
      n + bm_len (st_entries s') = bm_len (st_entries s) \<and> bm_len (st_entries s') \<le> keep \<and>
      st_max_deleted s' = fold max (map fst (take n (bm_entries (st_entries s)))) (st_max_deleted s) \<and>
      st_last_id s' = st_last_id s \<and> st_groups s' = st_groups s) \<and>
   (let (s', n) = trim_before mn s in
      st_entries s' = bm_filter (\<lambda>i _. mn \<le> i) (st_entries s) \<and>
      n + bm_len (st_entries s') = bm_len (st_entries s) \<and>
      st_max_deleted s' = fold max (map fst (take n (bm_entries (st_entries s)))) (st_max_deleted s) \<and>
      st_last_id s' = st_last_id s \<and> st_groups s' = st_groups s)"
proof -
  let ?xs = "bm_entries (st_entries s)"
  let ?n = "length (bm_before mn (st_entries s))"
  have len: "?n \<le> length ?xs" unfolding bm_before_def by (rule length_filter_le)
  have "bm_entries (st_entries (drop_oldest ?n s)) = bm_entries (bm_filter (\<lambda>i _. mn \<le> i) (st_entries s))"
    using drop_oldest_entries [of ?n s] drop_before [OF sorted_entries, of mn "st_entries s"]
    by (simp add: bm_before_def bm_filter.rep_eq)
  then have b: "st_entries (drop_oldest ?n s) = bm_filter (\<lambda>i _. mn \<le> i) (st_entries s)"
    by (simp only: bm_entries_inject)
  have c: "bm_len (st_entries (drop_oldest n s)) = bm_len (st_entries s) - n" for n
    using drop_oldest_entries [of n s] by (simp add: bm_len_def)
  show ?thesis
    using drop_oldest_entries [of "bm_len (st_entries s) - keep" s] drop_oldest_entries [of ?n s] b c [of "bm_len (st_entries s) - keep"] c [of ?n] len
    by (auto simp: trim_to_def trim_before_def Let_def bm_len_def [of "st_entries s"])
qed

end
