(* ===== verification/Store.thy ===== *)
theory Store
  imports Db
begin

text \<open>
  The forum's state (\<open>src/src/store.rs\<close>): agents with their inboxes, messages, broadcasts,
  rooms, sessions, the keyspace, and the indexes kept in step with them. Every change is an
  \<open>effect\<close>, applied by \<open>apply_effect\<close>, in live operation and when the journal is replayed.
  \<open>usize\<close> counters are natural numbers; a \<open>HashMap\<close> is an ordered map.
\<close>

subsection \<open>Data\<close>

record limits =
  msg_ttl_ms :: u64
  lease_ms :: u64
  presence_ttl_ms :: u64
  max_inbox :: nat
  max_agents :: nat
  max_broadcasts :: nat
  history_limit :: nat
  max_deliveries :: u32
  max_rooms :: nat
  room_history :: nat
  max_keys :: nat
  max_elements :: nat
  max_memory :: nat

definition limits_default :: limits where
  "limits_default = \<lparr>msg_ttl_ms = 86400000, lease_ms = 30000, presence_ttl_ms = 30000, max_inbox = 1000,
     max_agents = 1000, max_broadcasts = 500, history_limit = 200, max_deliveries = 10, max_rooms = 200,
     room_history = 1000, max_keys = 1000000, max_elements = 1000000, max_memory = 0\<rparr>"

datatype msg_state = Queued | Leased | Acked | Dead | Expired

fun is_pending :: "msg_state \<Rightarrow> bool" where
  "is_pending Queued = True"
| "is_pending Leased = True"
| "is_pending Acked = False"
| "is_pending Dead = False"
| "is_pending Expired = False"

record lease =
  ls_consumer :: str
  ls_token :: str
  ls_at :: u64
  ls_until :: u64

record message =
  m_id :: id
  m_from :: str
  m_to :: str
  m_body :: str
  m_created :: u64
  m_expires :: u64
  m_thread :: id
  m_reply_to :: "id option"
  m_key :: "str option"
  m_state :: msg_state
  m_deliveries :: u32
  m_lease :: "lease option"
  m_settled :: "u64 option"

record broadcast =
  b_id :: id
  b_from :: str
  b_body :: str
  b_created :: u64
  b_expires :: u64
  b_key :: "str option"

record counts =
  ct_queued :: nat
  ct_leased :: nat
  ct_dead :: nat
  ct_settled :: nat

definition counts_zero :: counts where
  "counts_zero = \<lparr>ct_queued = 0, ct_leased = 0, ct_dead = 0, ct_settled = 0\<rparr>"

definition counts_pending :: "counts \<Rightarrow> nat" where
  "counts_pending c = ct_queued c + ct_leased c"

record agent =
  ag_name :: str
  ag_created :: u64
  ag_last_seen :: u64
  ag_cursor :: "id option"
  ag_inbox :: "id btree_set"
  ag_queued :: "id btree_set"
  ag_settled :: "id btree_set"
  ag_counts :: counts
  ag_senders :: "(str, nat) btree_map"

definition agent_new :: "str \<Rightarrow> u64 \<Rightarrow> agent" where
  "agent_new name at = \<lparr>ag_name = name, ag_created = at, ag_last_seen = at, ag_cursor = None,
     ag_inbox = bm_empty, ag_queued = bm_empty, ag_settled = bm_empty, ag_counts = counts_zero,
     ag_senders = bm_empty\<rparr>"

datatype role = Owner | Plain_Member

record member =
  mb_role :: role
  mb_joined :: u64
  mb_cursor :: "id option"

datatype kind = Note | Question | Answer | Event

datatype status = St_Open | St_Resolved | St_Withdrawn | St_Expired

record ask =
  ask_to :: "str list"
  ask_options :: "str list"
  ask_expires :: u64
  ask_status :: status
  ask_closed :: "u64 option"

record post =
  p_id :: id
  p_from :: str
  p_kind :: kind
  p_body :: str
  p_created :: u64
  p_reply_to :: "id option"
  p_about :: "str option"
  p_choice :: "str option"
  p_ask :: "ask option"
  p_key :: "str option"

definition is_open_question :: "post \<Rightarrow> bool" where
  "is_open_question p = (case p_ask p of Some a \<Rightarrow> ask_status a = St_Open | None \<Rightarrow> False)"

record board_entry =
  be_value :: str
  be_by :: str
  be_at :: u64
  be_version :: u64

record room =
  rm_name :: str
  rm_topic :: str
  rm_created :: u64
  rm_created_by :: str
  rm_private :: bool
  rm_closed :: "u64 option"
  rm_members :: "(str, member) btree_map"
  rm_board :: "(str, board_entry) btree_map"
  rm_posts :: "(id, post) btree_map"
  rm_open :: "id btree_set"

record session =
  se_agent :: str
  se_client :: str
  se_started :: u64
  se_expires :: u64
  se_pid :: "u32 option"
  se_host :: "str option"

datatype effect =
    E_Agent str u64
  | E_Message message
  | E_Lease id str str u64 u64
  | E_Settle id msg_state u64
  | E_Drop "id list"
  | E_Broadcast broadcast
  | E_DropBroadcasts "id list"
  | E_Cursor str id
  | E_Rename str str
  | E_Forget str
  | E_Room room
  | E_Member str str "member option"
  | E_RoomCursor str str id
  | E_Post str post
  | E_Question str id status u64
  | E_DropPosts str "id list"
  | E_Topic str str
  | E_Close str "u64 option"
  | E_Board str str "board_entry option"
  | E_DropRoom str
  | E_Db u64 "str list list"

record due =
  due_leases :: "(u64 \<times> id) btree_set"
  due_expiry :: "(u64 \<times> id) btree_set"
  due_settled :: "(u64 \<times> id) btree_set"

definition due_empty :: due where
  "due_empty = \<lparr>due_leases = bm_empty, due_expiry = bm_empty, due_settled = bm_empty\<rparr>"

record store =
  last_id :: id
  messages :: "(id, message) captured"
  agents :: "(str, agent) btree_map"
  broadcasts :: "(id, broadcast) btree_map"
  sessions :: "(str, session) btree_map"
  rooms :: "(str, room) captured"
  store_db :: db
  msg_keys :: "(str \<times> str \<times> str, id) btree_map"
  bc_keys :: "(str \<times> str, id) btree_map"
  post_keys :: "(str \<times> str \<times> str, id) btree_map"
  store_due :: due

definition store_default :: store where
  "store_default = \<lparr>last_id = id_default, messages = captured_new, agents = bm_empty, broadcasts = bm_empty,
     sessions = bm_empty, rooms = captured_new, store_db = db_default, msg_keys = bm_empty,
     bc_keys = bm_empty, post_keys = bm_empty, store_due = due_empty\<rparr>"

text \<open>
  What the store takes from elsewhere: how values are written in a snapshot (the derived
  serializers), and the interpreter of the keyspace's commands, run at a given time.
\<close>

record codec =
  ser_message :: "message \<Rightarrow> str option"
  ser_room :: "room \<Rightarrow> str option"
  ser_key :: key_text
  db_exec :: "u64 \<Rightarrow> str list \<Rightarrow> db \<Rightarrow> db"

subsection \<open>Rooms\<close>

definition open_questions :: "room \<Rightarrow> post list" where
  "open_questions r = concat (map (\<lambda>i. case bm_get (rm_posts r) i of Some p \<Rightarrow> [p] | None \<Rightarrow> []) (bs_list (rm_open r)))"

definition room_is_open :: "room \<Rightarrow> bool" where
  "room_is_open r \<longleftrightarrow> rm_closed r = None"

definition is_owner :: "room \<Rightarrow> str \<Rightarrow> bool" where
  "is_owner r agent = (case bm_get (rm_members r) agent of Some m \<Rightarrow> mb_role m = Owner | None \<Rightarrow> False)"

definition answers :: "room \<Rightarrow> id \<Rightarrow> post list" where
  "answers r question =
     filter (\<lambda>p. p_kind p = Answer \<and> p_reply_to p = Some question) (map snd (bm_from question (rm_posts r)))"

definition waiting_on :: "room \<Rightarrow> post \<Rightarrow> str list" where
  "waiting_on r question =
     (case p_ask question of
        None \<Rightarrow> []
      | Some a \<Rightarrow>
          (let answered = map p_from (answers r (p_id question))
           in filter (\<lambda>name. name \<notin> set answered) (ask_to a)))"

definition room_unread :: "room \<Rightarrow> str \<Rightarrow> nat" where
  "room_unread r agent =
     (let cursor = Option.bind (bm_get (rm_members r) agent) mb_cursor
      in length (filter (\<lambda>(_, p). p_from p \<noteq> agent) (run_after cursor (rm_posts r))))"

definition waiting_for :: "room \<Rightarrow> str \<Rightarrow> nat" where
  "waiting_for r agent =
     (let answered = concat (map (\<lambda>p. case p_reply_to p of Some q \<Rightarrow> [q] | None \<Rightarrow> [])
            (filter (\<lambda>p. p_kind p = Answer \<and> p_from p = agent) (bm_values (rm_posts r))))
      in length (filter (\<lambda>p.
           (case p_ask p of Some a \<Rightarrow> ask_status a = St_Open \<and> agent \<in> set (ask_to a) | None \<Rightarrow> False) \<and>
           p_id p \<notin> set answered) (bm_values (rm_posts r))))"

definition room_keeps :: "room \<Rightarrow> post \<Rightarrow> bool" where
  "room_keeps r p \<longleftrightarrow>
     is_open_question p \<or>
     (p_kind p = Answer \<and>
      (case Option.bind (p_reply_to p) (bm_get (rm_posts r)) of Some q \<Rightarrow> is_open_question q | None \<Rightarrow> False))"

subsection \<open>The indexes of messages\<close>

definition flip_set :: "bool \<Rightarrow> 'a::linorder \<Rightarrow> 'a btree_set \<Rightarrow> 'a btree_set" where
  "flip_set add x s = (if add then bs_insert x s else bs_remove x s)"

definition track_due :: "message \<Rightarrow> bool \<Rightarrow> due \<Rightarrow> due" where
  "track_due m add d =
     (case m_state m of
        Leased \<Rightarrow>
          (let d = (case m_lease m of
                      Some l \<Rightarrow> d\<lparr>due_leases := flip_set add (ls_until l, m_id m) (due_leases d)\<rparr>
                    | None \<Rightarrow> d)
           in d\<lparr>due_expiry := flip_set add (m_expires m, m_id m) (due_expiry d)\<rparr>)
      | Queued \<Rightarrow> d\<lparr>due_expiry := flip_set add (m_expires m, m_id m) (due_expiry d)\<rparr>
      | _ \<Rightarrow>
          d\<lparr>due_settled := flip_set add
              (case m_settled m of Some at \<Rightarrow> at | None \<Rightarrow> m_created m, m_id m) (due_settled d)\<rparr>)"

definition bump :: "bool \<Rightarrow> nat \<Rightarrow> nat" where
  "bump add n = (if add then n + 1 else n - 1)"

definition track_counts :: "msg_state \<Rightarrow> bool \<Rightarrow> counts \<Rightarrow> counts" where
  "track_counts s add c =
     (case s of
        Queued \<Rightarrow> c\<lparr>ct_queued := bump add (ct_queued c)\<rparr>
      | Leased \<Rightarrow> c\<lparr>ct_leased := bump add (ct_leased c)\<rparr>
      | Dead \<Rightarrow> c\<lparr>ct_dead := bump add (ct_dead c)\<rparr>
      | _ \<Rightarrow> c\<lparr>ct_settled := bump add (ct_settled c)\<rparr>)"

definition track_senders :: "str \<Rightarrow> bool \<Rightarrow> (str, nat) btree_map \<Rightarrow> (str, nat) btree_map" where
  "track_senders sender add senders =
     (let sent = (case bm_get senders sender of Some n \<Rightarrow> n | None \<Rightarrow> 0)
      in if add then bm_insert sender (sent + 1) senders
         else if sent - 1 = 0 then bm_remove sender senders
         else bm_insert sender (sent - 1) senders)"

definition track_agent :: "message \<Rightarrow> bool \<Rightarrow> agent \<Rightarrow> agent" where
  "track_agent m add a =
     (let a = a\<lparr>ag_counts := track_counts (m_state m) add (ag_counts a)\<rparr>;
          a = (if is_pending (m_state m)
               then a\<lparr>ag_senders := track_senders (m_from m) add (ag_senders a)\<rparr> else a)
      in case m_state m of
           Queued \<Rightarrow> a\<lparr>ag_queued := flip_set add (m_id m) (ag_queued a)\<rparr>
         | Leased \<Rightarrow> a
         | _ \<Rightarrow> a\<lparr>ag_settled := flip_set add (m_id m) (ag_settled a)\<rparr>)"

definition track :: "message \<Rightarrow> bool \<Rightarrow> store \<Rightarrow> store" where
  "track m add st =
     st\<lparr>store_due := track_due m add (store_due st),
        agents := bm_update (m_to m) (track_agent m add) (agents st)\<rparr>"

subsection \<open>Applying an effect\<close>

text \<open>\<open>entry(name).or_insert_with(Agent::new)\<close>.\<close>

definition ensure_agent :: "str \<Rightarrow> u64 \<Rightarrow> store \<Rightarrow> store" where
  "ensure_agent name at st =
     (if bm_contains (agents st) name then st
      else st\<lparr>agents := bm_insert name (agent_new name at) (agents st)\<rparr>)"

definition apply_message :: "codec \<Rightarrow> message \<Rightarrow> store \<Rightarrow> store" where
  "apply_message cd m st =
     (let st = st\<lparr>last_id := max (last_id st) (m_id m)\<rparr>;
          st = (case bm_get (cmap (messages st)) (m_id m) of
                  Some old \<Rightarrow> track old False st
                | None \<Rightarrow> st);
          st = ensure_agent (m_to m) (m_created m) st;
          st = st\<lparr>agents := bm_update (m_to m) (\<lambda>a. a\<lparr>ag_inbox := bs_insert (m_id m) (ag_inbox a)\<rparr>) (agents st)\<rparr>;
          st = (case m_key m of
                  Some key \<Rightarrow> st\<lparr>msg_keys := bm_insert (m_to m, m_from m, key) (m_id m) (msg_keys st)\<rparr>
                | None \<Rightarrow> st);
          st = track m True st
      in st\<lparr>messages := fst (captured_insert (ser_message cd) (m_id m) m (messages st))\<rparr>)"

text \<open>\<open>get_mut\<close>, then a change with the message untracked before and tracked after.\<close>

definition change_message :: "codec \<Rightarrow> id \<Rightarrow> (message \<Rightarrow> message) \<Rightarrow> store \<Rightarrow> store" where
  "change_message cd i f st =
     (let held = bm_get (cmap (messages st)) i;
          st = st\<lparr>messages := captured_update (ser_message cd) i f (messages st)\<rparr>
      in case held of Some m \<Rightarrow> track (f m) True (track m False st) | None \<Rightarrow> st)"

definition lease_message :: "str \<Rightarrow> str \<Rightarrow> u64 \<Rightarrow> u64 \<Rightarrow> message \<Rightarrow> message" where
  "lease_message consumer token at until m =
     m\<lparr>m_state := Leased, m_deliveries := m_deliveries m + 1, m_settled := None,
       m_lease := Some \<lparr>ls_consumer = consumer, ls_token = token, ls_at = at, ls_until = until\<rparr>\<rparr>"

definition settle_message :: "msg_state \<Rightarrow> u64 \<Rightarrow> message \<Rightarrow> message" where
  "settle_message s at m = m\<lparr>m_state := s, m_settled := (if is_pending s then None else Some at)\<rparr>"

definition remove_message :: "codec \<Rightarrow> id \<Rightarrow> store \<Rightarrow> store" where
  "remove_message cd i st =
     (case captured_remove (ser_message cd) i (messages st) of
        (ms, None) \<Rightarrow> st\<lparr>messages := ms\<rparr>
      | (ms, Some m) \<Rightarrow>
          (let st = track m False (st\<lparr>messages := ms\<rparr>);
               st = st\<lparr>agents := bm_update (m_to m) (\<lambda>a. a\<lparr>ag_inbox := bs_remove i (ag_inbox a)\<rparr>) (agents st)\<rparr>
           in case m_key m of
                Some key \<Rightarrow> st\<lparr>msg_keys := bm_remove (m_to m, m_from m, key) (msg_keys st)\<rparr>
              | None \<Rightarrow> st))"

definition drop_broadcast :: "id \<Rightarrow> store \<Rightarrow> store" where
  "drop_broadcast i st =
     (case bm_get (broadcasts st) i of
        None \<Rightarrow> st
      | Some b \<Rightarrow>
          (let st = st\<lparr>broadcasts := bm_remove i (broadcasts st)\<rparr>
           in case b_key b of
                Some key \<Rightarrow> st\<lparr>bc_keys := bm_remove (b_from b, key) (bc_keys st)\<rparr>
              | None \<Rightarrow> st))"

definition update_room :: "codec \<Rightarrow> str \<Rightarrow> (room \<Rightarrow> room) \<Rightarrow> store \<Rightarrow> store" where
  "update_room cd name f st = st\<lparr>rooms := captured_update (ser_room cd) name f (rooms st)\<rparr>"

definition forget_agent :: "codec \<Rightarrow> str \<Rightarrow> store \<Rightarrow> store" where
  "forget_agent cd name st =
     (let st = (case bm_get (agents st) name of
                  None \<Rightarrow> st
                | Some a \<Rightarrow> fold (remove_message cd) (bs_list (ag_inbox a)) (st\<lparr>agents := bm_remove name (agents st)\<rparr>));
          st = st\<lparr>sessions := bm_filter (\<lambda>_ s. se_agent s \<noteq> name) (sessions st)\<rparr>
      in st\<lparr>rooms := captured_map_values (ser_room cd)
             (\<lambda>r. r\<lparr>rm_members := bm_remove name (rm_members r)\<rparr>) (rooms st)\<rparr>)"

definition open_index :: "(id, post) btree_map \<Rightarrow> id btree_set" where
  "open_index posts = bs_of_list (map p_id (filter is_open_question (bm_values posts)))"

definition add_post_keys :: "str \<Rightarrow> (id, post) btree_map \<Rightarrow> (str \<times> str \<times> str, id) btree_map \<Rightarrow>
    (str \<times> str \<times> str, id) btree_map" where
  "add_post_keys room posts keys =
     fold (\<lambda>p ks. case p_key p of Some key \<Rightarrow> bm_insert (room, p_from p, key) (p_id p) ks | None \<Rightarrow> ks)
       (bm_values posts) keys"

definition apply_room :: "codec \<Rightarrow> room \<Rightarrow> store \<Rightarrow> store" where
  "apply_room cd r st =
     (let st = (case bm_last (rm_posts r) of
                  Some (i, _) \<Rightarrow> st\<lparr>last_id := max (last_id st) i\<rparr>
                | None \<Rightarrow> st);
          st = st\<lparr>post_keys := add_post_keys (rm_name r) (rm_posts r) (post_keys st)\<rparr>
      in st\<lparr>rooms := fst (captured_insert (ser_room cd) (rm_name r)
              (r\<lparr>rm_open := open_index (rm_posts r)\<rparr>) (rooms st))\<rparr>)"

definition put_post :: "post \<Rightarrow> room \<Rightarrow> room" where
  "put_post p r =
     (let r = (if is_open_question p then r\<lparr>rm_open := bs_insert (p_id p) (rm_open r)\<rparr> else r)
      in r\<lparr>rm_posts := bm_insert (p_id p) p (rm_posts r)\<rparr>)"

definition apply_post :: "codec \<Rightarrow> str \<Rightarrow> post \<Rightarrow> store \<Rightarrow> store" where
  "apply_post cd room p st =
     (let held = bm_contains (cmap (rooms st)) room;
          st = update_room cd room (put_post p) st
      in if held then
           (let st = st\<lparr>last_id := max (last_id st) (p_id p)\<rparr>
            in case p_key p of
                 Some key \<Rightarrow> st\<lparr>post_keys := bm_insert (room, p_from p, key) (p_id p) (post_keys st)\<rparr>
               | None \<Rightarrow> st)
         else st)"

definition set_status :: "id \<Rightarrow> status \<Rightarrow> u64 \<Rightarrow> room \<Rightarrow> room" where
  "set_status i s at r =
     (case bm_get (rm_posts r) i of
        None \<Rightarrow> r
      | Some p \<Rightarrow>
          (case p_ask p of
             None \<Rightarrow> r
           | Some a \<Rightarrow>
               (let a = a\<lparr>ask_status := s, ask_closed := (if s \<noteq> St_Open then Some at else None)\<rparr>;
                    r = r\<lparr>rm_posts := bm_insert i (p\<lparr>p_ask := Some a\<rparr>) (rm_posts r)\<rparr>
                in r\<lparr>rm_open := (if s = St_Open then bs_insert i (rm_open r) else bs_remove i (rm_open r))\<rparr>)))"

text \<open>One post of \<open>DropPosts\<close>: out of the room, with the name its key was indexed under.\<close>

definition drop_post :: "str \<Rightarrow> id \<Rightarrow> room \<times> (str \<times> str \<times> str, id) btree_map \<Rightarrow>
    room \<times> (str \<times> str \<times> str, id) btree_map" where
  "drop_post name i = (\<lambda>(r, keys).
     (let r = r\<lparr>rm_open := bs_remove i (rm_open r)\<rparr>
      in case bm_get (rm_posts r) i of
           None \<Rightarrow> (r, keys)
         | Some p \<Rightarrow>
             (r\<lparr>rm_posts := bm_remove i (rm_posts r)\<rparr>,
              case p_key p of Some key \<Rightarrow> bm_remove (name, p_from p, key) keys | None \<Rightarrow> keys)))"

definition apply_drop_posts :: "codec \<Rightarrow> str \<Rightarrow> id list \<Rightarrow> store \<Rightarrow> store" where
  "apply_drop_posts cd name ids st =
     (let keys = (case bm_get (cmap (rooms st)) name of
                    Some r \<Rightarrow> snd (fold (drop_post name) ids (r, post_keys st))
                  | None \<Rightarrow> post_keys st);
          st = update_room cd name (\<lambda>r. fst (fold (drop_post name) ids (r, post_keys st))) st
      in st\<lparr>post_keys := keys\<rparr>)"

subsection \<open>Renaming an agent\<close>

text \<open>\<open>retrack\<close> and \<open>reindex\<close>: the indexes rebuilt from what they index.\<close>

definition clear_tracking :: "agent \<Rightarrow> agent" where
  "clear_tracking a = a\<lparr>ag_queued := bm_empty, ag_settled := bm_empty, ag_counts := counts_zero, ag_senders := bm_empty\<rparr>"

definition retrack :: "store \<Rightarrow> store" where
  "retrack st =
     fold (\<lambda>m. track m True) (bm_values (cmap (messages st)))
       (st\<lparr>store_due := due_empty, agents := bm_map (\<lambda>_. clear_tracking) (agents st)\<rparr>)"

definition message_index :: "(id, message) btree_map \<Rightarrow> (str \<times> str \<times> str, id) btree_map" where
  "message_index ms =
     bm_of_list (concat (map (\<lambda>m. case m_key m of Some key \<Rightarrow> [((m_to m, m_from m, key), m_id m)] | None \<Rightarrow> [])
       (bm_values ms)))"

definition broadcast_index :: "(id, broadcast) btree_map \<Rightarrow> (str \<times> str, id) btree_map" where
  "broadcast_index bs =
     bm_of_list (concat (map (\<lambda>b. case b_key b of Some key \<Rightarrow> [((b_from b, key), b_id b)] | None \<Rightarrow> [])
       (bm_values bs)))"

definition post_index :: "(str, room) btree_map \<Rightarrow> (str \<times> str \<times> str, id) btree_map" where
  "post_index rs =
     bm_of_list (concat (map (\<lambda>r. concat (map (\<lambda>p. case p_key p of
         Some key \<Rightarrow> [((rm_name r, p_from p, key), p_id p)] | None \<Rightarrow> []) (bm_values (rm_posts r))))
       (bm_values rs)))"

definition reindex :: "store \<Rightarrow> store" where
  "reindex st =
     st\<lparr>msg_keys := message_index (cmap (messages st)), bc_keys := broadcast_index (broadcasts st),
        post_keys := post_index (cmap (rooms st))\<rparr>"

definition rename_str :: "str \<Rightarrow> str \<Rightarrow> str \<Rightarrow> str" where
  "rename_str frm to n = (if n = frm then to else n)"

definition rename_message :: "str \<Rightarrow> str \<Rightarrow> message \<Rightarrow> message" where
  "rename_message frm to m = m\<lparr>m_to := rename_str frm to (m_to m), m_from := rename_str frm to (m_from m)\<rparr>"

definition rename_post :: "str \<Rightarrow> str \<Rightarrow> post \<Rightarrow> post" where
  "rename_post frm to p =
     p\<lparr>p_from := rename_str frm to (p_from p),
       p_ask := map_option (\<lambda>a. a\<lparr>ask_to := map (rename_str frm to) (ask_to a)\<rparr>) (p_ask p)\<rparr>"

text \<open>\<open>Option<Id>::max\<close>: no cursor is the least.\<close>

definition max_cursor :: "id option \<Rightarrow> id option \<Rightarrow> id option" where
  "max_cursor a b = (case (a, b) of (Some x, Some y) \<Rightarrow> Some (max x y) | (None, _) \<Rightarrow> b | _ \<Rightarrow> a)"

definition rename_members :: "str \<Rightarrow> str \<Rightarrow> (str, member) btree_map \<Rightarrow> (str, member) btree_map" where
  "rename_members frm to ms =
     (case bm_get ms frm of
        None \<Rightarrow> ms
      | Some m \<Rightarrow>
          (let ms = bm_remove frm ms;
               m = (case bm_get ms to of
                      Some existing \<Rightarrow>
                        m\<lparr>mb_role := (if mb_role existing = Owner then Owner else mb_role m),
                          mb_cursor := max_cursor (mb_cursor m) (mb_cursor existing)\<rparr>
                    | None \<Rightarrow> m)
           in bm_insert to m (bm_remove to ms)))"

definition rename_room :: "str \<Rightarrow> str \<Rightarrow> room \<Rightarrow> room" where
  "rename_room frm to r =
     r\<lparr>rm_created_by := rename_str frm to (rm_created_by r),
       rm_members := rename_members frm to (rm_members r),
       rm_posts := bm_map (\<lambda>_. rename_post frm to) (rm_posts r),
       rm_board := bm_map (\<lambda>_ e. e\<lparr>be_by := rename_str frm to (be_by e)\<rparr>) (rm_board r)\<rparr>"

definition rename_agent :: "codec \<Rightarrow> str \<Rightarrow> str \<Rightarrow> store \<Rightarrow> store" where
  "rename_agent cd frm to st =
     (case bm_get (agents st) frm of
        None \<Rightarrow> st
      | Some a \<Rightarrow>
          (let ags = bm_remove frm (agents st);
               a = (case bm_get ags to of
                      Some existing \<Rightarrow> a\<lparr>ag_inbox := bs_union (ag_inbox a) (ag_inbox existing)\<rparr>
                    | None \<Rightarrow> a);
               a = a\<lparr>ag_name := to\<rparr>;
               st = st\<lparr>agents := bm_insert to a (bm_remove to ags),
                  messages := captured_map_values (ser_message cd) (rename_message frm to) (messages st),
                  broadcasts := bm_map (\<lambda>_ b. b\<lparr>b_from := rename_str frm to (b_from b)\<rparr>) (broadcasts st),
                  sessions := bm_map (\<lambda>_ s. s\<lparr>se_agent := rename_str frm to (se_agent s)\<rparr>) (sessions st),
                  rooms := captured_map_values (ser_room cd) (rename_room frm to) (rooms st)\<rparr>
           in retrack (reindex st)))"

subsection \<open>Every effect\<close>

fun apply_effect :: "codec \<Rightarrow> effect \<Rightarrow> store \<Rightarrow> store" where
  "apply_effect cd (E_Agent name at) st = ensure_agent name at st"
| "apply_effect cd (E_Message m) st = apply_message cd m st"
| "apply_effect cd (E_Lease i consumer token at until) st =
     change_message cd i (lease_message consumer token at until) st"
| "apply_effect cd (E_Settle i s at) st = change_message cd i (settle_message s at) st"
| "apply_effect cd (E_Drop ids) st = fold (remove_message cd) ids st"
| "apply_effect cd (E_Broadcast b) st =
     (let st = st\<lparr>last_id := max (last_id st) (b_id b)\<rparr>;
          st = (case b_key b of
                  Some key \<Rightarrow> st\<lparr>bc_keys := bm_insert (b_from b, key) (b_id b) (bc_keys st)\<rparr>
                | None \<Rightarrow> st)
      in st\<lparr>broadcasts := bm_insert (b_id b) b (broadcasts st)\<rparr>)"
| "apply_effect cd (E_DropBroadcasts ids) st = fold drop_broadcast ids st"
| "apply_effect cd (E_Cursor name i) st =
     st\<lparr>agents := bm_update name (\<lambda>a. a\<lparr>ag_cursor := Some i\<rparr>) (agents st)\<rparr>"
| "apply_effect cd (E_Rename frm to) st = rename_agent cd frm to st"
| "apply_effect cd (E_Forget name) st = forget_agent cd name st"
| "apply_effect cd (E_Room r) st = apply_room cd r st"
| "apply_effect cd (E_Member room name mb) st =
     update_room cd room (\<lambda>r. r\<lparr>rm_members :=
       (case mb of Some m \<Rightarrow> bm_insert name m (rm_members r) | None \<Rightarrow> bm_remove name (rm_members r))\<rparr>) st"
| "apply_effect cd (E_RoomCursor room name i) st =
     update_room cd room (\<lambda>r. r\<lparr>rm_members := bm_update name (\<lambda>m. m\<lparr>mb_cursor := Some i\<rparr>) (rm_members r)\<rparr>) st"
| "apply_effect cd (E_Post room p) st = apply_post cd room p st"
| "apply_effect cd (E_Question room i s at) st = update_room cd room (set_status i s at) st"
| "apply_effect cd (E_DropPosts room ids) st = apply_drop_posts cd room ids st"
| "apply_effect cd (E_Topic room topic) st = update_room cd room (\<lambda>r. r\<lparr>rm_topic := topic\<rparr>) st"
| "apply_effect cd (E_Close room at) st = update_room cd room (\<lambda>r. r\<lparr>rm_closed := at\<rparr>) st"
| "apply_effect cd (E_Board room key e) st =
     update_room cd room (\<lambda>r. r\<lparr>rm_board :=
       (case e of Some x \<Rightarrow> bm_insert key x (rm_board r) | None \<Rightarrow> bm_remove key (rm_board r))\<rparr>) st"
| "apply_effect cd (E_DropRoom room) st =
     (let st = st\<lparr>rooms := fst (captured_remove (ser_room cd) room (rooms st))\<rparr>
      in st\<lparr>post_keys := bm_filter (\<lambda>(name, _, _) _. name \<noteq> room) (post_keys st)\<rparr>)"
| "apply_effect cd (E_Db at commands) st =
     st\<lparr>store_db := fold (\<lambda>argv d. db_exec cd at argv d) commands (store_db st)\<rparr>"

definition apply_effects :: "codec \<Rightarrow> effect list \<Rightarrow> store \<Rightarrow> store" where
  "apply_effects cd es st = fold (apply_effect cd) es st"

subsection \<open>Reading\<close>

definition next_id :: "store \<Rightarrow> u64 \<Rightarrow> id" where
  "next_id st now = (case id_next_after (last_id st) now of Some i \<Rightarrow> i | None \<Rightarrow> id_max)"

definition message_by_key :: "str \<Rightarrow> str \<Rightarrow> str \<Rightarrow> store \<Rightarrow> message option" where
  "message_by_key to frm key st =
     Option.bind (bm_get (msg_keys st) (to, frm, key)) (bm_get (cmap (messages st)))"

definition broadcast_by_key :: "str \<Rightarrow> str \<Rightarrow> store \<Rightarrow> broadcast option" where
  "broadcast_by_key frm key st = Option.bind (bm_get (bc_keys st) (frm, key)) (bm_get (broadcasts st))"

definition post_by_key :: "str \<Rightarrow> str \<Rightarrow> str \<Rightarrow> store \<Rightarrow> post option" where
  "post_by_key room frm key st =
     Option.bind (bm_get (post_keys st) (room, frm, key))
       (\<lambda>i. Option.bind (bm_get (cmap (rooms st)) room) (\<lambda>r. bm_get (rm_posts r) i))"

definition room_members :: "store \<Rightarrow> str btree_set" where
  "room_members st =
     bs_of_list (concat (map (\<lambda>r. bm_keys (rm_members r)) (filter room_is_open (bm_values (cmap (rooms st))))))"

definition inbox_messages :: "str \<Rightarrow> store \<Rightarrow> message list" where
  "inbox_messages name st =
     (case bm_get (agents st) name of
        None \<Rightarrow> []
      | Some a \<Rightarrow> concat (map (\<lambda>i. case bm_get (cmap (messages st)) i of Some m \<Rightarrow> [m] | None \<Rightarrow> [])
          (bs_list (ag_inbox a))))"

definition agent_counts :: "str \<Rightarrow> store \<Rightarrow> counts" where
  "agent_counts name st =
     (case bm_get (agents st) name of
        None \<Rightarrow> counts_zero
      | Some a \<Rightarrow> (ag_counts a)\<lparr>ct_settled := ct_settled (ag_counts a) + ct_dead (ag_counts a)\<rparr>)"

definition queued_ids :: "str \<Rightarrow> store \<Rightarrow> id list" where
  "queued_ids name st = (case bm_get (agents st) name of None \<Rightarrow> [] | Some a \<Rightarrow> bs_list (ag_queued a))"

definition settled_ids :: "str \<Rightarrow> store \<Rightarrow> id list" where
  "settled_ids name st = (case bm_get (agents st) name of None \<Rightarrow> [] | Some a \<Rightarrow> bs_list (ag_settled a))"

definition pending_from :: "str \<Rightarrow> str \<Rightarrow> store \<Rightarrow> nat" where
  "pending_from name sender st =
     (case Option.bind (bm_get (agents st) name) (\<lambda>a. bm_get (ag_senders a) sender) of
        Some n \<Rightarrow> n | None \<Rightarrow> 0)"

definition leases_due :: "u64 \<Rightarrow> store \<Rightarrow> id list" where
  "leases_due now st = map snd (takeWhile (\<lambda>(at, _). at \<le> now) (bs_list (due_leases (store_due st))))"

definition expired_due :: "u64 \<Rightarrow> store \<Rightarrow> id list" where
  "expired_due now st = map snd (takeWhile (\<lambda>(at, _). at \<le> now) (bs_list (due_expiry (store_due st))))"

definition settled_before :: "u64 \<Rightarrow> store \<Rightarrow> id list" where
  "settled_before at st = map snd (takeWhile (\<lambda>(wh, _). wh \<le> at) (bs_list (due_settled (store_due st))))"

definition live_sessions :: "str \<Rightarrow> u64 \<Rightarrow> store \<Rightarrow> nat" where
  "live_sessions name now st =
     length (filter (\<lambda>s. se_agent s = name \<and> se_expires s > now) (bm_values (sessions st)))"

definition unseen_broadcasts :: "str \<Rightarrow> store \<Rightarrow> nat" where
  "unseen_broadcasts name st =
     (let cursor = Option.bind (bm_get (agents st) name) ag_cursor
      in length (filter (\<lambda>(_, b). b_from b \<noteq> name) (run_after cursor (broadcasts st))))"

subsection \<open>Snapshots\<close>

definition store_begin_capture :: "str \<Rightarrow> store \<Rightarrow> store" where
  "store_begin_capture head st =
     st\<lparr>rooms := captured_begin (head @ '',\"rooms\":['') (rooms st),
        messages := captured_begin ''],\"messages\":['' (messages st),
        store_db := db_begin_capture ''],\"keys\":{'' (store_db st)\<rparr>"

definition store_capture_step :: "codec \<Rightarrow> nat option \<Rightarrow> store \<Rightarrow> store \<times> bool" where
  "store_capture_step cd budget st =
     (let (rs, over) = captured_step (ser_room cd) budget (rooms st); st = st\<lparr>rooms := rs\<rparr> in
      if \<not> over then (st, False)
      else
        (let (ms, over) = captured_step (ser_message cd) budget (messages st); st = st\<lparr>messages := ms\<rparr> in
         if \<not> over then (st, False)
         else
           (let (d, over) = db_capture_step (ser_key cd) budget (store_db st)
            in (st\<lparr>store_db := d\<rparr>, over))))"

definition store_drain_capture :: "codec \<Rightarrow> store \<Rightarrow> store \<times> (str + str list)" where
  "store_drain_capture cd st =
     (case captured_drain (ser_room cd) (rooms st) of
        (rs, Inl e) \<Rightarrow> (st\<lparr>rooms := rs\<rparr>, Inl e)
      | (rs, Inr (parts, False)) \<Rightarrow> (st\<lparr>rooms := rs\<rparr>, Inr parts)
      | (rs, Inr (parts, True)) \<Rightarrow>
          (let st = st\<lparr>rooms := rs\<rparr> in
           case captured_drain (ser_message cd) (messages st) of
             (ms, Inl e) \<Rightarrow> (st\<lparr>messages := ms\<rparr>, Inl e)
           | (ms, Inr (ms_parts, False)) \<Rightarrow> (st\<lparr>messages := ms\<rparr>, Inr (parts @ ms_parts))
           | (ms, Inr (ms_parts, True)) \<Rightarrow>
               (case db_drain_capture (store_db st) of
                  (d, last_parts) \<Rightarrow>
                    (st\<lparr>messages := ms, store_db := d\<rparr>, Inr (parts @ ms_parts @ last_parts)))))"

definition store_end_capture :: "codec \<Rightarrow> store \<Rightarrow> store \<times> (str + str list)" where
  "store_end_capture cd st =
     (case captured_end (ser_room cd) (rooms st) of
        (rs, Inl e) \<Rightarrow> (st\<lparr>rooms := rs\<rparr>, Inl e)
      | (rs, Inr parts) \<Rightarrow>
          (let st = st\<lparr>rooms := rs\<rparr> in
           case captured_end (ser_message cd) (messages st) of
             (ms, Inl e) \<Rightarrow> (st\<lparr>messages := ms\<rparr>, Inl e)
           | (ms, Inr ms_parts) \<Rightarrow>
               (let st = st\<lparr>messages := ms\<rparr> in
                case db_end_capture (ser_key cd) (store_db st) of
                  (d, Inl e) \<Rightarrow> (st\<lparr>store_db := d\<rparr>, Inl e)
                | (d, Inr rest) \<Rightarrow> (st\<lparr>store_db := d\<rparr>, Inr (parts @ ms_parts @ rest)))))"

definition store_abandon_capture :: "store \<Rightarrow> store" where
  "store_abandon_capture st =
     st\<lparr>rooms := captured_abandon (rooms st), messages := captured_abandon (messages st),
        store_db := db_abandon_capture (store_db st)\<rparr>"

text \<open>A snapshot read back: the file's fields, and the store they give. An agent is stored
  without its inbox and its indexes.\<close>

definition agent_as_read :: "agent \<Rightarrow> agent" where
  "agent_as_read a = (clear_tracking a)\<lparr>ag_inbox := bm_empty\<rparr>"


record snapshot =
  sn_last_id :: id
  sn_agents :: "agent list"
  sn_messages :: "message list"
  sn_broadcasts :: "broadcast list"
  sn_rooms :: "room list"
  sn_keys :: "(str, kentry) btree_map"

definition from_snapshot :: "codec \<Rightarrow> snapshot \<Rightarrow> store" where
  "from_snapshot cd sn =
     (let st = store_default\<lparr>last_id := sn_last_id sn\<rparr>;
          st = fold (\<lambda>a st. st\<lparr>agents := bm_insert (ag_name a) (agent_as_read a) (agents st)\<rparr>) (sn_agents sn) st;
          st = apply_effects cd (map E_Message (sn_messages sn)) st;
          st = apply_effects cd (map E_Broadcast (sn_broadcasts sn)) st;
          st = apply_effects cd (map E_Room (sn_rooms sn)) st
      in st\<lparr>store_db := db_load (sn_keys sn)\<rparr>)"

end
