(* ===== verification/Store_Inv.thy ===== *)
theory Store_Inv
  imports Store
begin

text \<open>
  What \<open>Store::apply\<close> keeps true: every index of the store says exactly what the messages,
  rooms and posts say, whatever the effects.
\<close>

subsection \<open>Frames\<close>

lemma cmap_preserve [simp, frame_simps]: "cmap (captured_preserve ser k s) = cmap s"
  by (simp add: captured_preserve_def split: option.split)

lemma cmap_ops [simp, frame_simps]:
  "cmap (captured_update ser k f s) = bm_update k f (cmap s)"
  "cmap (fst (captured_insert ser k v s)) = bm_insert k v (cmap s)"
  "cmap (fst (captured_remove ser k s)) = bm_remove k (cmap s)"
  "snd (captured_remove ser k s) = bm_get (cmap s) k"
  "cmap (captured_map_values ser g s) = bm_map (\<lambda>_. g) (cmap s)"
  by (simp_all add: captured_update_def captured_insert_def captured_remove_def captured_map_values_def Let_def)

abbreviation msgs :: "store \<Rightarrow> (id, message) btree_map" where
  "msgs st \<equiv> cmap (messages st)"

abbreviation room_map :: "store \<Rightarrow> (str, room) btree_map" where
  "room_map st \<equiv> cmap (rooms st)"

lemma track_frame [simp, frame_simps]:
  "messages (track m b st) = messages st" "rooms (track m b st) = rooms st"
  "last_id (track m b st) = last_id st" "broadcasts (track m b st) = broadcasts st"
  "msg_keys (track m b st) = msg_keys st" "bc_keys (track m b st) = bc_keys st"
  "post_keys (track m b st) = post_keys st" "store_db (track m b st) = store_db st"
  "sessions (track m b st) = sessions st"
  by (simp_all add: track_def)

lemma ensure_frame [simp, frame_simps]:
  "messages (ensure_agent n at st) = messages st" "rooms (ensure_agent n at st) = rooms st"
  "last_id (ensure_agent n at st) = last_id st" "broadcasts (ensure_agent n at st) = broadcasts st"
  "msg_keys (ensure_agent n at st) = msg_keys st" "bc_keys (ensure_agent n at st) = bc_keys st"
  "post_keys (ensure_agent n at st) = post_keys st" "store_due (ensure_agent n at st) = store_due st"
  "sessions (ensure_agent n at st) = sessions st" "store_db (ensure_agent n at st) = store_db st"
  by (simp_all add: ensure_agent_def)

subsection \<open>What the indexes of messages say\<close>

definition msgs_of :: "(id, message) btree_map \<Rightarrow> str \<Rightarrow> (message \<Rightarrow> bool) \<Rightarrow> id set" where
  "msgs_of M n P = {i. \<exists>m. bm_get M i = Some m \<and> m_to m = n \<and> P m}"

definition counted :: "nat \<Rightarrow> nat option" where
  "counted k = (if k = 0 then None else Some k)"

definition agent_tracks :: "(id, message) btree_map \<Rightarrow> str \<Rightarrow> agent \<Rightarrow> bool" where
  "agent_tracks M n a \<longleftrightarrow>
     bs_elems (ag_queued a) = msgs_of M n (\<lambda>m. m_state m = Queued) \<and>
     bs_elems (ag_settled a) = msgs_of M n (\<lambda>m. \<not> is_pending (m_state m)) \<and>
     ct_queued (ag_counts a) = card (msgs_of M n (\<lambda>m. m_state m = Queued)) \<and>
     ct_leased (ag_counts a) = card (msgs_of M n (\<lambda>m. m_state m = Leased)) \<and>
     ct_dead (ag_counts a) = card (msgs_of M n (\<lambda>m. m_state m = Dead)) \<and>
     ct_settled (ag_counts a) = card (msgs_of M n (\<lambda>m. m_state m = Acked \<or> m_state m = Expired)) \<and>
     (\<forall>s. bm_get (ag_senders a) s = counted (card (msgs_of M n (\<lambda>m. is_pending (m_state m) \<and> m_from m = s))))"

definition lease_end :: "message \<Rightarrow> u64 option" where
  "lease_end m = (if m_state m = Leased then map_option ls_until (m_lease m) else None)"

definition settled_at :: "message \<Rightarrow> u64" where
  "settled_at m = (case m_settled m of Some at \<Rightarrow> at | None \<Rightarrow> m_created m)"

definition due_tracks :: "(id, message) btree_map \<Rightarrow> due \<Rightarrow> bool" where
  "due_tracks M d \<longleftrightarrow>
     (\<forall>at i. (at, i) \<in> bs_elems (due_leases d) \<longleftrightarrow> (\<exists>m. bm_get M i = Some m \<and> lease_end m = Some at)) \<and>
     (\<forall>at i. (at, i) \<in> bs_elems (due_expiry d) \<longleftrightarrow> (\<exists>m. bm_get M i = Some m \<and> is_pending (m_state m) \<and> at = m_expires m)) \<and>
     (\<forall>at i. (at, i) \<in> bs_elems (due_settled d) \<longleftrightarrow> (\<exists>m. bm_get M i = Some m \<and> \<not> is_pending (m_state m) \<and> at = settled_at m))"

definition keyed :: "(id, message) btree_map \<Rightarrow> bool" where
  "keyed M \<longleftrightarrow> (\<forall>i m. bm_get M i = Some m \<longrightarrow> m_id m = i)"

definition tracked_by :: "(id, message) btree_map \<Rightarrow> store \<Rightarrow> bool" where
  "tracked_by M st \<longleftrightarrow> keyed M \<and> due_tracks M (store_due st) \<and>
     (\<forall>n a. bm_get (agents st) n = Some a \<longrightarrow> agent_tracks M n a)"

lemma finite_msgs_of [simp]: "finite (msgs_of M n P)"
  by (rule finite_subset [OF _ finite_dom_bm_get [of M]]) (auto simp: msgs_of_def)

lemma msgs_of_insert:
  "bm_get M (m_id m) = None \<Longrightarrow>
   msgs_of (bm_insert (m_id m) m M) n P = (if m_to m = n \<and> P m then insert (m_id m) (msgs_of M n P) else msgs_of M n P)"
  by (auto simp: msgs_of_def split: if_splits)

lemma msgs_of_remove: "msgs_of (bm_remove i M) n P = msgs_of M n P - {i}"
  by (auto simp: msgs_of_def split: if_splits)

lemma in_msgs_of: "bm_get M i = Some m \<Longrightarrow> i \<in> msgs_of M n P \<longleftrightarrow> m_to m = n \<and> P m"
  by (auto simp: msgs_of_def)

lemma notin_msgs_of: "bm_get M i = None \<Longrightarrow> i \<notin> msgs_of M n P"
  by (auto simp: msgs_of_def)

lemma senders_add:
  "\<forall>s. bm_get ss s = counted (c s) \<Longrightarrow>
   bm_get (track_senders f True ss) s = counted (if s = f then Suc (c s) else c s)"
  by (auto simp: track_senders_def counted_def Let_def)

lemma senders_remove:
  "\<forall>s. bm_get ss s = counted (c s) \<Longrightarrow> 0 < c f \<Longrightarrow>
   bm_get (track_senders f False ss) s = counted (if s = f then c s - 1 else c s)"
  by (auto simp: track_senders_def counted_def Let_def)

lemma agent_tracks_add:
  assumes "agent_tracks M n a" "bm_get M (m_id m) = None"
  shows "agent_tracks (bm_insert (m_id m) m M) n (if n = m_to m then track_agent m True a else a)"
proof (cases "n = m_to m")
  case False
  with assms show ?thesis by (simp add: agent_tracks_def msgs_of_insert)
next
  case True
  note sizes = card_insert_disjoint [OF finite_msgs_of notin_msgs_of [OF assms(2)]]
  show ?thesis
    using assms True
    by (cases "m_state m")
      (auto simp: agent_tracks_def msgs_of_insert track_agent_def track_counts_def track_senders_def
        flip_set_def bump_def sizes counted_def Let_def)
qed

lemma agent_tracks_remove:
  assumes "agent_tracks M n a" "bm_get M i = Some m" "m_id m = i"
  shows "agent_tracks (bm_remove i M) n (if n = m_to m then track_agent m False a else a)"
proof (cases "n = m_to m")
  case False
  then have "i \<notin> msgs_of M n P" for P using in_msgs_of [OF assms(2)] by simp
  with assms(1) False show ?thesis by (simp add: agent_tracks_def msgs_of_remove)
next
  case True
  note mem = in_msgs_of [OF assms(2)]
  let ?from = "\<lambda>s. card (msgs_of M n (\<lambda>m. is_pending (m_state m) \<and> m_from m = s))"
  have less: "P m \<Longrightarrow> card (msgs_of M n P - {i}) = card (msgs_of M n P) - 1" for P
    using mem [of n P] True by (simp add: card_Diff_singleton)
  have same: "\<not> P m \<Longrightarrow> msgs_of M n P - {i} = msgs_of M n P" for P
    using mem [of n P] by blast
  have senders: "is_pending (m_state m) \<Longrightarrow> bm_get (track_senders (m_from m) False (ag_senders a)) s =
      counted (if s = m_from m then ?from s - 1 else ?from s)" for s
  proof (rule senders_remove)
    show "\<forall>s. bm_get (ag_senders a) s = counted (?from s)" using assms(1) by (simp add: agent_tracks_def)
    show "is_pending (m_state m) \<Longrightarrow> 0 < ?from (m_from m)"
      using mem [of n "\<lambda>x. is_pending (m_state x) \<and> m_from x = m_from m"] True by (auto simp: card_gt_0_iff)
  qed
  show ?thesis
    using assms(1,3) True [symmetric] senders
    by (cases "m_state m")
      (simp_all add: agent_tracks_def msgs_of_remove track_agent_def track_counts_def flip_set_def bump_def less same Let_def)
qed

lemma due_tracks_add:
  assumes "due_tracks M d" "bm_get M (m_id m) = None"
  shows "due_tracks (bm_insert (m_id m) m M) (track_due m True d)"
  using assms
  by (cases "m_state m"; cases "m_lease m"; cases "m_settled m")
    (auto simp: due_tracks_def track_due_def flip_set_def lease_end_def settled_at_def Let_def split: if_splits)

lemma due_tracks_remove:
  assumes "due_tracks M d" "bm_get M i = Some m" "m_id m = i"
  shows "due_tracks (bm_remove i M) (track_due m False d)"
  using assms
  by (cases "m_state m"; cases "m_lease m"; cases "m_settled m")
    (auto simp: due_tracks_def track_due_def flip_set_def lease_end_def settled_at_def Let_def split: if_splits)

lemma tracked_add:
  assumes "tracked_by M st" "bm_get M (m_id m) = None"
  shows "tracked_by (bm_insert (m_id m) m M) (track m True st)"
  unfolding tracked_by_def
proof (intro conjI allI impI)
  show "keyed (bm_insert (m_id m) m M)" using assms by (simp add: tracked_by_def keyed_def)
  show "due_tracks (bm_insert (m_id m) m M) (store_due (track m True st))"
    using assms by (simp add: tracked_by_def track_def due_tracks_add)
  fix n a assume "bm_get (agents (track m True st)) n = Some a"
  then obtain b where b: "bm_get (agents st) n = Some b" "a = (if n = m_to m then track_agent m True b else b)"
    by (auto simp: track_def split: if_splits)
  show "agent_tracks (bm_insert (m_id m) m M) n a"
    unfolding b(2) using assms b(1) by (intro agent_tracks_add) (auto simp: tracked_by_def)
qed

lemma tracked_remove:
  assumes "tracked_by M st" "bm_get M i = Some m"
  shows "tracked_by (bm_remove i M) (track m False st)"
  unfolding tracked_by_def
proof (intro conjI allI impI)
  have i: "m_id m = i" using assms by (simp add: tracked_by_def keyed_def)
  show "keyed (bm_remove i M)" using assms by (simp add: tracked_by_def keyed_def)
  show "due_tracks (bm_remove i M) (store_due (track m False st))"
    using assms i by (simp add: tracked_by_def track_def due_tracks_remove)
  fix n a assume "bm_get (agents (track m False st)) n = Some a"
  then obtain b where b: "bm_get (agents st) n = Some b" "a = (if n = m_to m then track_agent m False b else b)"
    by (auto simp: track_def split: if_splits)
  show "agent_tracks (bm_remove i M) n a"
    unfolding b(2) using assms b(1) i by (intro agent_tracks_remove) (auto simp: tracked_by_def)
qed

lemma tracked_cong:
  "tracked_by M st \<Longrightarrow> store_due st' = store_due st \<Longrightarrow> agents st' = agents st \<Longrightarrow> tracked_by M st'"
  by (simp add: tracked_by_def)

lemma agent_tracks_fields:
  "agent_tracks M n (a\<lparr>ag_inbox := x\<rparr>) = agent_tracks M n a"
  "agent_tracks M n (a\<lparr>ag_cursor := c\<rparr>) = agent_tracks M n a"
  "agent_tracks M n (a\<lparr>ag_name := nm\<rparr>) = agent_tracks M n a"
  by (simp_all add: agent_tracks_def)

lemma bm_update_insert: "bm_get M i = Some m \<Longrightarrow> bm_update i f M = bm_insert i (f m) (bm_remove i M)"
  by (rule bm_eqI) auto

lemma tracked_change:
  assumes "tracked_by M st" "bm_get M i = Some m" "m_id (f m) = m_id m"
  shows "tracked_by (bm_update i f M) (track (f m) True (track m False st))"
proof -
  have i: "m_id m = i" using assms(1,2) by (simp add: tracked_by_def keyed_def)
  have "tracked_by (bm_insert i (f m) (bm_remove i M)) (track (f m) True (track m False st))"
    using tracked_add [OF tracked_remove [OF assms(1,2)], of "f m"] assms(3) i by simp
  then show ?thesis using bm_update_insert [OF assms(2)] by simp
qed

subsection \<open>Inboxes, recipients and idempotency keys\<close>

definition inbox_ok :: "(id, message) btree_map \<Rightarrow> store \<Rightarrow> bool" where
  "inbox_ok M st \<longleftrightarrow>
     (\<forall>n a. bm_get (agents st) n = Some a \<longrightarrow> bs_elems (ag_inbox a) = msgs_of M n (\<lambda>_. True))"

definition recipients_ok :: "(id, message) btree_map \<Rightarrow> store \<Rightarrow> bool" where
  "recipients_ok M st \<longleftrightarrow> (\<forall>i m. bm_get M i = Some m \<longrightarrow> bm_get (agents st) (m_to m) \<noteq> None)"

definition msg_keys_ok :: "(id, message) btree_map \<Rightarrow> store \<Rightarrow> bool" where
  "msg_keys_ok M st \<longleftrightarrow>
     (\<forall>t f k i. bm_get (msg_keys st) (t, f, k) = Some i \<longrightarrow>
        (\<exists>m. bm_get M i = Some m \<and> m_to m = t \<and> m_from m = f \<and> m_key m = Some k))"

lemma msg_keys_okD:
  "msg_keys_ok M st \<Longrightarrow> bm_get (msg_keys st) (t, f, k) = Some i \<Longrightarrow>
   \<exists>m. bm_get M i = Some m \<and> m_to m = t \<and> m_from m = f \<and> m_key m = Some k"
  unfolding msg_keys_ok_def by blast

definition messages_ok :: "store \<Rightarrow> bool" where
  "messages_ok st \<longleftrightarrow> tracked_by (msgs st) st \<and> inbox_ok (msgs st) st \<and>
     recipients_ok (msgs st) st \<and> msg_keys_ok (msgs st) st"

lemma get_agents_track [simp]:
  "bm_get (agents (track m b st)) n =
    map_option (\<lambda>a. if n = m_to m then track_agent m b a else a) (bm_get (agents st) n)"
  by (cases "bm_get (agents st) n") (auto simp: track_def)

lemma inbox_track_agent [simp]: "ag_inbox (track_agent m b a) = ag_inbox a"
  by (simp add: track_agent_def Let_def split: msg_state.split)

lemma get_agents_ensure:
  "bm_get (agents (ensure_agent n at st)) k =
    (if k = n \<and> bm_get (agents st) n = None then Some (agent_new n at) else bm_get (agents st) k)"
  by (auto simp: ensure_agent_def)

lemma messages_ok_frame:
  "messages_ok st \<Longrightarrow> messages st' = messages st \<Longrightarrow> agents st' = agents st \<Longrightarrow>
   store_due st' = store_due st \<Longrightarrow> msg_keys st' = msg_keys st \<Longrightarrow> messages_ok st'"
  by (simp add: messages_ok_def tracked_by_def inbox_ok_def recipients_ok_def msg_keys_ok_def)

lemma agent_new_tracks:
  "(\<And>P. msgs_of M n P = {}) \<Longrightarrow> agent_tracks M n (agent_new n at)"
  by (simp add: agent_tracks_def agent_new_def counts_zero_def counted_def)

lemma no_agent_no_messages:
  "recipients_ok M st \<Longrightarrow> bm_get (agents st) n = None \<Longrightarrow> msgs_of M n P = {}"
  unfolding recipients_ok_def msgs_of_def by force

lemma tracked_ensure:
  assumes "tracked_by M st" "recipients_ok M st"
  shows "tracked_by M (ensure_agent n at st)"
  using assms no_agent_no_messages [OF assms(2), of n]
  by (auto simp: tracked_by_def get_agents_ensure agent_new_tracks split: if_splits)

lemma inbox_ensure:
  assumes "inbox_ok M st" "recipients_ok M st"
  shows "inbox_ok M (ensure_agent n at st)"
  using assms(1) no_agent_no_messages [OF assms(2), of n]
  by (auto simp: inbox_ok_def get_agents_ensure agent_new_def split: if_splits)

lemma recipients_ensure: "recipients_ok M st \<Longrightarrow> recipients_ok M (ensure_agent n at st)"
  by (auto simp: recipients_ok_def get_agents_ensure)

lemma ensure_ok: "messages_ok st \<Longrightarrow> messages_ok (ensure_agent n at st)"
  unfolding messages_ok_def by (simp add: tracked_ensure inbox_ensure recipients_ensure) (simp add: msg_keys_ok_def)

lemma tracked_inbox_update:
  "tracked_by M (st\<lparr>agents := bm_update n (\<lambda>a. a\<lparr>ag_inbox := g a\<rparr>) (agents st)\<rparr>) = tracked_by M st"
  by (auto simp: tracked_by_def agent_tracks_fields)

text \<open>A new message.\<close>

lemma message_ok:
  assumes ok: "messages_ok st" and new: "bm_get (msgs st) (m_id m) = None"
  shows "messages_ok (apply_message cd m st)"
proof -
  let ?M = "msgs st"
  let ?M' = "bm_insert (m_id m) m ?M"
  let ?st = "apply_message cd m st"
  define e where "e = ensure_agent (m_to m) (m_created m) (st\<lparr>last_id := max (last_id st) (m_id m)\<rparr>)"
  have oks: "tracked_by ?M st" "inbox_ok ?M st" "recipients_ok ?M st" "msg_keys_ok ?M st"
    using ok by (auto simp: messages_ok_def)
  have base: "recipients_ok ?M (st\<lparr>last_id := x\<rparr>)" "tracked_by ?M (st\<lparr>last_id := x\<rparr>)" "inbox_ok ?M (st\<lparr>last_id := x\<rparr>)" for x
    using oks by (simp_all add: recipients_ok_def tracked_by_def inbox_ok_def)
  have e: "tracked_by ?M e" "inbox_ok ?M e" "recipients_ok ?M e"
    unfolding e_def using base by (simp_all add: tracked_ensure inbox_ensure recipients_ensure)
  have to: "bm_get (agents e) (m_to m) \<noteq> None"
    by (simp add: e_def get_agents_ensure)
  define f where "f = (let e1 = e\<lparr>agents := bm_update (m_to m) (\<lambda>a. a\<lparr>ag_inbox := bs_insert (m_id m) (ag_inbox a)\<rparr>) (agents e)\<rparr>
      in case m_key m of Some key \<Rightarrow> e1\<lparr>msg_keys := bm_insert (m_to m, m_from m, key) (m_id m) (msg_keys e1)\<rparr> | None \<Rightarrow> e1)"
  have st: "?st = (track m True f)\<lparr>messages := fst (captured_insert (ser_message cd) (m_id m) m (messages st))\<rparr>"
    using new by (simp add: apply_message_def Let_def e_def f_def split: option.split)
  have fa: "agents f = bm_update (m_to m) (\<lambda>a. a\<lparr>ag_inbox := bs_insert (m_id m) (ag_inbox a)\<rparr>) (agents e)"
    "store_due f = store_due e"
    "msg_keys f = (case m_key m of Some key \<Rightarrow> bm_insert (m_to m, m_from m, key) (m_id m) (msg_keys st) | None \<Rightarrow> msg_keys st)"
    by (simp_all add: f_def Let_def e_def split: option.split)
  have "tracked_by ?M f"
  proof (rule tracked_cong)
    show "tracked_by ?M (e\<lparr>agents := bm_update (m_to m) (\<lambda>a. a\<lparr>ag_inbox := bs_insert (m_id m) (ag_inbox a)\<rparr>) (agents e)\<rparr>)"
      by (simp only: tracked_inbox_update e(1))
  qed (simp_all add: fa)
  then have "tracked_by ?M' (track m True f)" using new by (rule tracked_add)
  then have t: "tracked_by ?M' ?st" unfolding st by (rule tracked_cong) simp_all
  have i: "inbox_ok ?M' ?st"
    unfolding st using e(2) new by (auto simp: inbox_ok_def fa msgs_of_insert split: if_splits)
  have r: "recipients_ok ?M' ?st"
    unfolding st using e(3) to by (auto simp: recipients_ok_def fa split: if_splits)
  have k: "msg_keys_ok ?M' ?st"
    unfolding st using oks(4) new by (fastforce simp: msg_keys_ok_def fa split: option.splits if_splits)
  have "msgs ?st = ?M'" unfolding st by simp
  with t i r k show ?thesis by (simp only: messages_ok_def)
qed

text \<open>A change to a message that keeps who it is between.\<close>

lemma change_ok:
  assumes ok: "messages_ok st"
    and f: "\<And>m. m_id (f m) = m_id m" "\<And>m. m_to (f m) = m_to m" "\<And>m. m_from (f m) = m_from m" "\<And>m. m_key (f m) = m_key m"
  shows "messages_ok (change_message cd i f st)"
proof (cases "bm_get (msgs st) i")
  case None
  then have "msgs (change_message cd i f st) = msgs st" 
    by (intro bm_eqI) (auto simp: change_message_def Let_def)
  then show ?thesis
    using ok None by (auto simp: change_message_def messages_ok_def tracked_by_def inbox_ok_def recipients_ok_def msg_keys_ok_def)
next
  case (Some m)
  let ?st = "change_message cd i f st"
  let ?M = "msgs st"
  have oks: "tracked_by ?M st" "inbox_ok ?M st" "recipients_ok ?M st" "msg_keys_ok ?M st"
    using ok by (auto simp: messages_ok_def)
  define s where "s = st\<lparr>messages := captured_update (ser_message cd) i f (messages st)\<rparr>"
  have st: "?st = track (f m) True (track m False s)"
    using Some by (simp add: change_message_def Let_def s_def)
  have M': "msgs ?st = bm_update i f ?M" by (simp add: st s_def)
  have "tracked_by ?M s" by (rule tracked_cong [OF oks(1)]) (simp_all add: s_def)
  from tracked_change [OF this Some, of f] f(1) have t: "tracked_by (bm_update i f ?M) ?st" by (simp add: st)
  have same: "msgs_of (bm_update i f ?M) n (\<lambda>_. True) = msgs_of ?M n (\<lambda>_. True)" for n
    using f(2) by (auto simp: msgs_of_def split: if_splits)
  have "inbox_ok (bm_update i f ?M) ?st"
    unfolding inbox_ok_def same
  proof (intro allI impI)
    fix n a assume "bm_get (agents ?st) n = Some a"
    then obtain b where "bm_get (agents st) n = Some b" "ag_inbox a = ag_inbox b"
      by (cases "bm_get (agents st) n") (auto simp: st s_def)
    with oks(2) show "bs_elems (ag_inbox a) = msgs_of ?M n (\<lambda>_. True)" by (simp add: inbox_ok_def)
  qed
  moreover have "recipients_ok (bm_update i f ?M) ?st"
    using oks(3) f(2) by (auto simp: recipients_ok_def st s_def split: if_splits)
  moreover have "msg_keys_ok (bm_update i f ?M) ?st"
    unfolding msg_keys_ok_def
  proof (intro allI impI)
    fix t g k j assume "bm_get (msg_keys ?st) (t, g, k) = Some j"
    then have "bm_get (msg_keys st) (t, g, k) = Some j" by (simp add: st s_def)
    from msg_keys_okD [OF oks(4) this] obtain x
      where x: "bm_get ?M j = Some x" "m_to x = t \<and> m_from x = g \<and> m_key x = Some k" by blast
    have "bm_get (bm_update i f ?M) j = Some (if j = i then f x else x)" using x(1) by auto
    moreover have "m_to (if j = i then f x else x) = t \<and> m_from (if j = i then f x else x) = g \<and>
        m_key (if j = i then f x else x) = Some k" using x(2) f by simp
    ultimately show "\<exists>y. bm_get (bm_update i f ?M) j = Some y \<and> m_to y = t \<and> m_from y = g \<and> m_key y = Some k"
      by blast
  qed
  ultimately show ?thesis using t unfolding messages_ok_def M' by simp
qed

text \<open>
  A removed message. The recipient may be gone already, as when an agent is forgotten, so
  this is stated without \<open>recipients_ok\<close>.
\<close>

definition remaining_ok :: "store \<Rightarrow> bool" where
  "remaining_ok st \<longleftrightarrow> tracked_by (msgs st) st \<and> inbox_ok (msgs st) st \<and> msg_keys_ok (msgs st) st"

lemma remove_ok:
  assumes ok: "remaining_ok st"
  shows "remaining_ok (remove_message cd i st) \<and> msgs (remove_message cd i st) = bm_remove i (msgs st) \<and>
    (\<forall>n. bm_get (agents (remove_message cd i st)) n = None \<longleftrightarrow> bm_get (agents st) n = None)"
proof (cases "bm_get (msgs st) i")
  case None
  obtain ms x where ms: "captured_remove (ser_message cd) i (messages st) = (ms, x)" by fastforce
  then have x: "x = None" "cmap ms = bm_remove i (msgs st)"
    using None cmap_ops(3,4) [of "ser_message cd" i "messages st"] by auto
  have "bm_remove i (msgs st) = msgs st" using None by (intro bm_eqI) auto
  with ok x ms show ?thesis
    by (auto simp: remove_message_def remaining_ok_def tracked_by_def inbox_ok_def msg_keys_ok_def)
next
  case (Some m)
  let ?M = "msgs st"
  let ?st = "remove_message cd i st"
  have oks: "tracked_by ?M st" "inbox_ok ?M st" "msg_keys_ok ?M st"
    using ok by (auto simp: remaining_ok_def)
  have mi: "m_id m = i" using oks(1) Some by (simp add: tracked_by_def keyed_def)
  obtain ms x where ms: "captured_remove (ser_message cd) i (messages st) = (ms, x)" by fastforce
  then have x: "x = Some m" "cmap ms = bm_remove i ?M"
    using Some cmap_ops(3,4) [of "ser_message cd" i "messages st"] by auto
  have fields: "messages ?st = ms" "store_due ?st = store_due (track m False st)"
    "agents ?st = bm_update (m_to m) (\<lambda>a. a\<lparr>ag_inbox := bs_remove i (ag_inbox a)\<rparr>) (agents (track m False st))"
    "msg_keys ?st = (case m_key m of Some key \<Rightarrow> bm_remove (m_to m, m_from m, key) (msg_keys st) | None \<Rightarrow> msg_keys st)"
    using ms x by (simp_all add: remove_message_def Let_def track_def split: option.split)
  have M': "msgs ?st = bm_remove i ?M" by (simp add: fields x)
  have "tracked_by (bm_remove i ?M) (track m False st)" by (rule tracked_remove [OF oks(1) Some])
  then have t: "tracked_by (bm_remove i ?M) ?st"
    using tracked_cong [OF _ fields(2), of "bm_remove i ?M"]
    by (auto simp: tracked_by_def fields agent_tracks_fields)
  have n: "inbox_ok (bm_remove i ?M) ?st"
    using oks(2) Some by (auto simp: inbox_ok_def fields msgs_of_remove in_msgs_of split: if_splits)
  have k: "msg_keys_ok (bm_remove i ?M) ?st"
    unfolding msg_keys_ok_def
  proof (intro allI impI)
    fix t f k j assume j: "bm_get (msg_keys ?st) (t, f, k) = Some j"
    then have "bm_get (msg_keys st) (t, f, k) = Some j"
      by (auto simp: fields split: option.splits if_splits)
    with oks(3) obtain m' where m': "bm_get ?M j = Some m'" "m_to m' = t" "m_from m' = f" "m_key m' = Some k"
      unfolding msg_keys_ok_def by blast
    have "j \<noteq> i" using m' j Some by (auto simp: fields)
    with m' show "\<exists>m. bm_get (bm_remove i ?M) j = Some m \<and> m_to m = t \<and> m_from m = f \<and> m_key m = Some k"
      by auto
  qed
  show ?thesis unfolding remaining_ok_def M' using t n k by (auto simp: fields)
qed

lemma messages_remaining: "messages_ok st \<longleftrightarrow> remaining_ok st \<and> recipients_ok (msgs st) st"
  by (auto simp: messages_ok_def remaining_ok_def)

lemma removes_ok:
  "remaining_ok st \<Longrightarrow>
   (let st' = fold (remove_message cd) is st
    in remaining_ok st' \<and> (\<forall>j. bm_get (msgs st') j = (if j \<in> set is then None else bm_get (msgs st) j)) \<and>
      (\<forall>n. bm_get (agents st') n = None \<longleftrightarrow> bm_get (agents st) n = None))"
proof (induction "is" arbitrary: st)
  case (Cons i "is")
  from Cons.IH [of "remove_message cd i st"] remove_ok [OF Cons.prems, of cd i]
  show ?case by (auto simp: Let_def)
qed simp

lemma drop_ok: "messages_ok st \<Longrightarrow> messages_ok (fold (remove_message cd) is st)"
  using removes_ok [of st cd "is"]
  by (auto simp: messages_remaining recipients_ok_def Let_def split: if_splits)

lemma remove_rooms [simp, frame_simps]:
  "rooms (remove_message cd i st) = rooms st" "sessions (remove_message cd i st) = sessions st"
  "broadcasts (remove_message cd i st) = broadcasts st" "bc_keys (remove_message cd i st) = bc_keys st"
  "post_keys (remove_message cd i st) = post_keys st" "last_id (remove_message cd i st) = last_id st"
  "store_db (remove_message cd i st) = store_db st"
  by (simp_all add: remove_message_def Let_def split: prod.split option.split)

lemma forget_ok:
  assumes "messages_ok st"
  shows "messages_ok (forget_agent cd name st)"
proof -
  define s where "s = (case bm_get (agents st) name of None \<Rightarrow> st
      | Some a \<Rightarrow> fold (remove_message cd) (bs_list (ag_inbox a)) (st\<lparr>agents := bm_remove name (agents st)\<rparr>))"
  have "messages_ok s"
  proof (cases "bm_get (agents st) name")
    case None
    then show ?thesis using assms by (simp add: s_def)
  next
    case (Some a)
    let ?g = "st\<lparr>agents := bm_remove name (agents st)\<rparr>"
    have inbox: "bs_elems (ag_inbox a) = msgs_of (msgs st) name (\<lambda>_. True)"
      using assms Some by (auto simp: messages_ok_def inbox_ok_def)
    have "remaining_ok ?g"
      using assms by (auto simp: messages_ok_def remaining_ok_def tracked_by_def inbox_ok_def msg_keys_ok_def split: if_splits)
    from removes_ok [OF this, of cd "bs_list (ag_inbox a)"] have
      r: "remaining_ok s" "\<And>j. bm_get (msgs s) j = (if j \<in> bs_elems (ag_inbox a) then None else bm_get (msgs st) j)"
        "\<And>n. bm_get (agents s) n = None \<longleftrightarrow> n = name \<or> bm_get (agents st) n = None"
      using Some by (simp_all add: s_def Let_def)
    have "recipients_ok (msgs s) s"
      unfolding recipients_ok_def
    proof (intro allI impI)
      fix i m assume "bm_get (msgs s) i = Some m"
      then have m: "bm_get (msgs st) i = Some m" "i \<notin> bs_elems (ag_inbox a)"
        unfolding r(2) by (simp_all split: if_splits)
      then have "m_to m \<noteq> name" using inbox in_msgs_of [OF m(1)] by blast
      moreover have "bm_get (agents st) (m_to m) \<noteq> None"
        using assms m(1) by (auto simp: messages_ok_def recipients_ok_def)
      ultimately show "bm_get (agents s) (m_to m) \<noteq> None" unfolding r(3) by simp
    qed
    with r(1) show ?thesis by (simp add: messages_remaining)
  qed
  then show ?thesis
    by (rule messages_ok_frame) (simp_all add: forget_agent_def Let_def s_def)
qed

subsection \<open>Renaming\<close>

lemma tracked_fold:
  "tracked_by N s \<Longrightarrow> distinct (map m_id ms) \<Longrightarrow> \<forall>m \<in> set ms. bm_get N (m_id m) = None \<Longrightarrow>
   tracked_by (fold (\<lambda>m. bm_insert (m_id m) m) ms N) (fold (\<lambda>m. track m True) ms s)"
proof (induction ms arbitrary: N s)
  case (Cons m ms)
  from Cons.prems(2,3) have m: "bm_get N (m_id m) = None" "distinct (map m_id ms)"
    "\<forall>x \<in> set ms. bm_get (bm_insert (m_id m) m N) (m_id x) = None" by (simp, simp, simp, metis image_eqI)
  from Cons.IH [OF tracked_add [OF Cons.prems(1) m(1)] m(2,3)] show ?case by simp
qed simp

lemma fold_insert_get:
  "distinct (map m_id ms) \<Longrightarrow>
   bm_get (fold (\<lambda>m. bm_insert (m_id m) m) ms N) i =
     (case find (\<lambda>m. m_id m = i) ms of Some m \<Rightarrow> Some m | None \<Rightarrow> bm_get N i)"
proof (induction ms arbitrary: N)
  case (Cons m ms)
  from Cons.prems have "find (\<lambda>x. m_id x = m_id m) ms = None"
    unfolding find_None_iff by (simp, metis image_eqI)
  with Cons show ?case by (auto split: option.split)
qed simp

lemma keyed_ids: "keyed M \<Longrightarrow> map m_id (bm_values M) = bm_keys M"
  by (auto simp: bm_values_def bm_keys_def keyed_def in_entries)

lemma keyed_rebuild: "keyed M \<Longrightarrow> fold (\<lambda>m. bm_insert (m_id m) m) (bm_values M) bm_empty = M"
proof (rule bm_eqI)
  fix i assume k: "keyed M"
  show "bm_get (fold (\<lambda>m. bm_insert (m_id m) m) (bm_values M) bm_empty) i = bm_get M i"
  proof (cases "find (\<lambda>m. m_id m = i) (bm_values M)")
    case None
    then have "bm_get M i = None" using k by (cases "bm_get M i") (auto simp: find_None_iff keyed_def)
    with None k show ?thesis by (simp add: fold_insert_get keyed_ids)
  next
    case (Some m)
    then have "m \<in> set (bm_values M)" "m_id m = i" unfolding find_Some_iff by (metis nth_mem)+
    then have "bm_get M i = Some m" using k by (auto simp: keyed_def)
    with Some k show ?thesis by (simp add: fold_insert_get keyed_ids)
  qed
qed

lemma clear_tracking_tracks: "agent_tracks bm_empty n (clear_tracking a)"
  by (simp add: agent_tracks_def clear_tracking_def counts_zero_def counted_def msgs_of_def)

lemma retrack_tracked:
  assumes "keyed (msgs st)"
  shows "tracked_by (msgs st) (retrack st)"
proof -
  let ?s = "st\<lparr>store_due := due_empty, agents := bm_map (\<lambda>_. clear_tracking) (agents st)\<rparr>"
  have "tracked_by bm_empty ?s"
    by (auto simp: tracked_by_def keyed_def due_tracks_def due_empty_def clear_tracking_tracks)
  from tracked_fold [OF this, of "bm_values (msgs st)"] assms show ?thesis
    by (simp add: keyed_ids keyed_rebuild retrack_def)
qed

lemma fold_track_frame:
  "bm_get (agents (fold (\<lambda>m. track m True) ms s)) n = None \<longleftrightarrow> bm_get (agents s) n = None"
  "map_option ag_inbox (bm_get (agents (fold (\<lambda>m. track m True) ms s)) n) = map_option ag_inbox (bm_get (agents s) n)"
  "messages (fold (\<lambda>m. track m True) ms s) = messages s"
  "rooms (fold (\<lambda>m. track m True) ms s) = rooms s"
  "last_id (fold (\<lambda>m. track m True) ms s) = last_id s"
  "broadcasts (fold (\<lambda>m. track m True) ms s) = broadcasts s"
  "msg_keys (fold (\<lambda>m. track m True) ms s) = msg_keys s"
  "bc_keys (fold (\<lambda>m. track m True) ms s) = bc_keys s"
  "post_keys (fold (\<lambda>m. track m True) ms s) = post_keys s"
  "sessions (fold (\<lambda>m. track m True) ms s) = sessions s"
  "store_db (fold (\<lambda>m. track m True) ms s) = store_db s"
  by (induction ms arbitrary: s) (simp_all add: option.map_comp comp_def if_distrib [of ag_inbox] cong: if_cong)

lemma retrack_frame [simp]:
  "bm_get (agents (retrack st)) n = None \<longleftrightarrow> bm_get (agents st) n = None"
  "map_option ag_inbox (bm_get (agents (retrack st)) n) = map_option ag_inbox (bm_get (agents st) n)"
  "messages (retrack st) = messages st" "rooms (retrack st) = rooms st" "last_id (retrack st) = last_id st"
  "broadcasts (retrack st) = broadcasts st" "msg_keys (retrack st) = msg_keys st"
  "bc_keys (retrack st) = bc_keys st" "post_keys (retrack st) = post_keys st"
  "sessions (retrack st) = sessions st" "store_db (retrack st) = store_db st"
  by (simp_all add: retrack_def fold_track_frame option.map_comp comp_def clear_tracking_def)

lemma reindex_frame [simp]:
  "messages (reindex st) = messages st" "rooms (reindex st) = rooms st" "last_id (reindex st) = last_id st"
  "broadcasts (reindex st) = broadcasts st" "agents (reindex st) = agents st"
  "sessions (reindex st) = sessions st" "store_db (reindex st) = store_db st"
  "msg_keys (reindex st) = message_index (msgs st)" "bc_keys (reindex st) = broadcast_index (broadcasts st)"
  "post_keys (reindex st) = post_index (room_map st)"
  by (simp_all add: reindex_def)

lemma message_index_sound:
  assumes "keyed M" "bm_get (message_index M) (t, f, k) = Some i"
  shows "\<exists>m. bm_get M i = Some m \<and> m_to m = t \<and> m_from m = f \<and> m_key m = Some k"
proof -
  have "((t, f, k), i) \<in> set (concat (map (\<lambda>m. case m_key m of Some key \<Rightarrow> [((m_to m, m_from m, key), m_id m)] | None \<Rightarrow> [])
       (bm_values M)))"
    using map_of_SomeD [OF assms(2) [unfolded message_index_def bm_get_of_list]] by simp
  with assms(1) show ?thesis by (auto simp: keyed_def split: option.splits)
qed

definition inboxes_ok :: "(id, message) btree_map \<Rightarrow> (str, agent) btree_map \<Rightarrow> bool" where
  "inboxes_ok M ags \<longleftrightarrow> (\<forall>n b. map_option ag_inbox (bm_get ags n) = Some b \<longrightarrow> bs_elems b = msgs_of M n (\<lambda>_. True))"

lemma inbox_ok_eq: "inbox_ok M st \<longleftrightarrow> inboxes_ok M (agents st)"
  by (auto simp: inbox_ok_def inboxes_ok_def)

lemma msgs_of_map: "msgs_of (bm_map (\<lambda>_. g) M) n P = {i. \<exists>m. bm_get M i = Some m \<and> m_to (g m) = n \<and> P (g m)}"
  by (auto simp: msgs_of_def)

lemma rename_message_fields [simp]:
  "m_to (rename_message frm to m) = rename_str frm to (m_to m)"
  "m_from (rename_message frm to m) = rename_str frm to (m_from m)"
  "m_id (rename_message frm to m) = m_id m" "m_key (rename_message frm to m) = m_key m"
  by (simp_all add: rename_message_def)

lemma msgs_of_rename:
  "msgs_of (bm_map (\<lambda>_. rename_message frm to) M) n (\<lambda>_. True) =
     (if n = to then msgs_of M frm (\<lambda>_. True) \<union> msgs_of M to (\<lambda>_. True)
      else if n = frm then {} else msgs_of M n (\<lambda>_. True))"
  by (auto simp: msgs_of_map) (auto simp: msgs_of_def rename_str_def split: if_splits)

lemma rename_frame:
  "bm_get (agents st) frm = Some a \<Longrightarrow>
   rooms (rename_agent cd frm to st) = captured_map_values (ser_room cd) (rename_room frm to) (rooms st) \<and>
   last_id (rename_agent cd frm to st) = last_id st \<and>
   broadcasts (rename_agent cd frm to st) = bm_map (\<lambda>_ b. b\<lparr>b_from := rename_str frm to (b_from b)\<rparr>) (broadcasts st) \<and>
   bc_keys (rename_agent cd frm to st) = broadcast_index (broadcasts (rename_agent cd frm to st)) \<and>
   post_keys (rename_agent cd frm to st) = post_index (room_map (rename_agent cd frm to st)) \<and>
   msgs (rename_agent cd frm to st) = bm_map (\<lambda>_. rename_message frm to) (msgs st)"
  by (simp add: rename_agent_def Let_def)

lemma rename_ok:
  assumes ok: "messages_ok st"
  shows "messages_ok (rename_agent cd frm to st)"
proof (cases "bm_get (agents st) frm")
  case None
  with ok show ?thesis by (simp add: rename_agent_def)
next
  case (Some a)
  let ?M = "msgs st" and ?M' = "bm_map (\<lambda>_. rename_message frm to) (msgs st)"
  have oks: "tracked_by ?M st" "inbox_ok ?M st" "recipients_ok ?M st"
    using ok by (auto simp: messages_ok_def)
  define ags where "ags = bm_remove frm (agents st)"
  define b where "b = (case bm_get ags to of
      Some existing \<Rightarrow> a\<lparr>ag_inbox := bs_union (ag_inbox a) (ag_inbox existing)\<rparr> | None \<Rightarrow> a)\<lparr>ag_name := to\<rparr>"
  define s where "s = st\<lparr>agents := bm_insert to b (bm_remove to ags),
      messages := captured_map_values (ser_message cd) (rename_message frm to) (messages st),
      broadcasts := bm_map (\<lambda>_ b. b\<lparr>b_from := rename_str frm to (b_from b)\<rparr>) (broadcasts st),
      sessions := bm_map (\<lambda>_ s. s\<lparr>se_agent := rename_str frm to (se_agent s)\<rparr>) (sessions st),
      rooms := captured_map_values (ser_room cd) (rename_room frm to) (rooms st)\<rparr>"
  have st: "rename_agent cd frm to st = retrack (reindex s)"
    using Some by (simp add: rename_agent_def s_def Let_def b_def ags_def)
  have M': "msgs (rename_agent cd frm to st) = ?M'" by (simp add: st s_def)
  have keyed: "keyed ?M'" using oks(1) by (auto simp: tracked_by_def keyed_def rename_message_def)
  have t: "tracked_by ?M' (rename_agent cd frm to st)"
    using retrack_tracked [of "reindex s"] keyed by (simp add: st s_def)
  have ib: "bs_elems (ag_inbox x) = msgs_of ?M n (\<lambda>_. True)" if "bm_get (agents st) n = Some x" for n x
    using that oks(2) by (simp add: inbox_ok_def)
  have inb: "bs_elems (ag_inbox b) = msgs_of ?M frm (\<lambda>_. True) \<union> msgs_of ?M to (\<lambda>_. True)"
  proof (cases "frm = to")
    case True
    then show ?thesis using ib [OF Some] by (simp add: b_def ags_def)
  next
    case False
    then show ?thesis
      using ib [OF Some] ib [of to] no_agent_no_messages [OF oks(3), of to]
      by (cases "bm_get (agents st) to") (simp_all add: b_def ags_def)
  qed
  have "inboxes_ok ?M' (agents s)"
    using ib inb by (auto simp: inboxes_ok_def s_def ags_def msgs_of_rename)
  then have i: "inbox_ok ?M' (rename_agent cd frm to st)"
    by (simp add: inbox_ok_eq st inboxes_ok_def)
  have r: "recipients_ok ?M' (rename_agent cd frm to st)"
    using oks(3) by (auto simp: recipients_ok_def st s_def ags_def rename_message_def rename_str_def)
  have k: "msg_keys_ok ?M' (rename_agent cd frm to st)"
    unfolding msg_keys_ok_def using message_index_sound [OF keyed]
    by (simp add: st s_def)
  from t i r k show ?thesis unfolding messages_ok_def M' by simp
qed

subsection \<open>Rooms, broadcasts and their keys\<close>

definition room_ok :: "str \<Rightarrow> room \<Rightarrow> bool" where
  "room_ok n r \<longleftrightarrow> rm_name r = n \<and> (\<forall>i p. bm_get (rm_posts r) i = Some p \<longrightarrow> p_id p = i) \<and>
     bs_elems (rm_open r) = {i. \<exists>p. bm_get (rm_posts r) i = Some p \<and> is_open_question p}"

definition rooms_ok :: "(str, room) btree_map \<Rightarrow> bool" where
  "rooms_ok R \<longleftrightarrow> (\<forall>n r. bm_get R n = Some r \<longrightarrow> room_ok n r)"

definition post_keys_ok :: "(str, room) btree_map \<Rightarrow> (str \<times> str \<times> str, id) btree_map \<Rightarrow> bool" where
  "post_keys_ok R ks \<longleftrightarrow> (\<forall>n f k i. bm_get ks (n, f, k) = Some i \<longrightarrow>
     (\<exists>r p. bm_get R n = Some r \<and> bm_get (rm_posts r) i = Some p \<and> p_from p = f \<and> p_key p = Some k))"

definition broadcasts_ok :: "(id, broadcast) btree_map \<Rightarrow> (str \<times> str, id) btree_map \<Rightarrow> bool" where
  "broadcasts_ok B ks \<longleftrightarrow> (\<forall>i b. bm_get B i = Some b \<longrightarrow> b_id b = i) \<and>
     (\<forall>f k i. bm_get ks (f, k) = Some i \<longrightarrow> (\<exists>b. bm_get B i = Some b \<and> b_from b = f \<and> b_key b = Some k))"

definition rooms_inv :: "store \<Rightarrow> bool" where
  "rooms_inv st \<longleftrightarrow> rooms_ok (room_map st) \<and> post_keys_ok (room_map st) (post_keys st) \<and>
     broadcasts_ok (broadcasts st) (bc_keys st)"

lemma post_keys_okD:
  "post_keys_ok R ks \<Longrightarrow> bm_get ks (n, f, k) = Some i \<Longrightarrow>
   \<exists>r p. bm_get R n = Some r \<and> bm_get (rm_posts r) i = Some p \<and> p_from p = f \<and> p_key p = Some k"
  unfolding post_keys_ok_def by blast

lemma rooms_okD: "rooms_ok R \<Longrightarrow> bm_get R n = Some r \<Longrightarrow> room_ok n r"
  unfolding rooms_ok_def by blast

lemma room_okD: "room_ok n r \<Longrightarrow> bm_get (rm_posts r) i = Some p \<Longrightarrow> p_id p = i"
  unfolding room_ok_def by blast

lemma rooms_inv_frame:
  "rooms_inv st \<Longrightarrow> room_map st' = room_map st \<Longrightarrow> post_keys st' = post_keys st \<Longrightarrow>
   broadcasts st' = broadcasts st \<Longrightarrow> bc_keys st' = bc_keys st \<Longrightarrow> rooms_inv st'"
  by (simp add: rooms_inv_def)

text \<open>One room changed, the keys changed with it.\<close>

lemma room_change:
  assumes "rooms_ok R" "post_keys_ok R ks"
    and room: "\<And>r. bm_get R n = Some r \<Longrightarrow> room_ok n (f r)"
    and mine: "\<And>g k i. bm_get ks' (n, g, k) = Some i \<Longrightarrow>
      \<exists>r p. bm_get R n = Some r \<and> bm_get (rm_posts (f r)) i = Some p \<and> p_from p = g \<and> p_key p = Some k"
    and others: "\<And>n' g k. n' \<noteq> n \<Longrightarrow> bm_get ks' (n', g, k) = bm_get ks (n', g, k)"
  shows "rooms_ok (bm_update n f R) \<and> post_keys_ok (bm_update n f R) ks'"
proof
  show "rooms_ok (bm_update n f R)"
    using assms(1) room by (auto simp: rooms_ok_def split: if_splits)
  show "post_keys_ok (bm_update n f R) ks'"
    unfolding post_keys_ok_def
  proof (intro allI impI)
    fix n' g k i assume a: "bm_get ks' (n', g, k) = Some i"
    show "\<exists>r p. bm_get (bm_update n f R) n' = Some r \<and> bm_get (rm_posts r) i = Some p \<and> p_from p = g \<and> p_key p = Some k"
    proof (cases "n' = n")
      case True
      with a mine [of g k i] show ?thesis by auto
    next
      case False
      with a others [OF this, of g k] have "bm_get ks (n', g, k) = Some i" by simp
      from post_keys_okD [OF assms(2) this] False show ?thesis by auto
    qed
  qed
qed

lemma room_change_same:
  assumes "rooms_ok R" "post_keys_ok R ks"
    and "\<And>r. rm_posts (f r) = rm_posts r" "\<And>r. rm_open (f r) = rm_open r" "\<And>r. rm_name (f r) = rm_name r"
  shows "rooms_ok (bm_update n f R) \<and> post_keys_ok (bm_update n f R) ks"
proof (rule room_change [OF assms(1,2)])
  fix r assume "bm_get R n = Some r"
  then show "room_ok n (f r)" using assms(1,3,4,5) by (simp add: rooms_ok_def room_ok_def)
next
  fix g k i assume "bm_get ks (n, g, k) = Some i"
  from post_keys_okD [OF assms(2) this]
  show "\<exists>r p. bm_get R n = Some r \<and> bm_get (rm_posts (f r)) i = Some p \<and> p_from p = g \<and> p_key p = Some k"
    by (simp add: assms(3))
qed simp

lemma update_room_inv:
  assumes "rooms_inv st"
    and "\<And>r. rm_posts (f r) = rm_posts r" "\<And>r. rm_open (f r) = rm_open r" "\<And>r. rm_name (f r) = rm_name r"
  shows "rooms_inv (update_room cd n f st)"
  using assms(1) room_change_same [of "room_map st" "post_keys st" f n, OF _ _ assms(2-4)]
  by (auto simp: rooms_inv_def update_room_def)

text \<open>A new post.\<close>

lemma put_post_ok:
  assumes "room_ok n r" "bm_get (rm_posts r) (p_id p) = None"
  shows "room_ok n (put_post p r)"
  using assms by (auto simp: room_ok_def put_post_def Let_def split: if_splits)

lemma post_inv:
  assumes inv: "rooms_inv st"
    and new: "\<And>r. bm_get (room_map st) n = Some r \<Longrightarrow> bm_get (rm_posts r) (p_id p) = None"
  shows "rooms_inv (apply_post cd n p st)"
proof (cases "bm_get (room_map st) n")
  case None
  have "bm_update n (put_post p) (room_map st) = room_map st" using None by (intro bm_eqI) auto
  then show ?thesis using inv None by (simp add: apply_post_def update_room_def rooms_inv_def)
next
  case (Some r)
  let ?R = "room_map st"
  define ks where "ks = (case p_key p of Some key \<Rightarrow> bm_insert (n, p_from p, key) (p_id p) (post_keys st) | None \<Rightarrow> post_keys st)"
  have ok: "rooms_ok ?R" "post_keys_ok ?R (post_keys st)" using inv by (simp_all add: rooms_inv_def)
  have "rooms_ok (bm_update n (put_post p) ?R) \<and> post_keys_ok (bm_update n (put_post p) ?R) ks"
  proof (rule room_change [OF ok])
    fix r' assume "bm_get ?R n = Some r'"
    with ok(1) new show "room_ok n (put_post p r')" by (simp add: put_post_ok rooms_okD)
  next
    fix g k i assume a: "bm_get ks (n, g, k) = Some i"
    have "\<exists>q. bm_get (rm_posts (put_post p r)) i = Some q \<and> p_from q = g \<and> p_key q = Some k"
    proof (cases "p_key p = Some k \<and> p_from p = g")
      case True
      with a show ?thesis by (simp add: ks_def put_post_def Let_def)
    next
      case False
      with a have "bm_get (post_keys st) (n, g, k) = Some i" by (auto simp: ks_def split: option.splits if_splits)
      from post_keys_okD [OF ok(2) this] Some new [OF Some]
      show ?thesis by (auto simp: put_post_def Let_def)
    qed
    with Some show "\<exists>r p'. bm_get ?R n = Some r \<and> bm_get (rm_posts (put_post p r)) i = Some p' \<and> p_from p' = g \<and> p_key p' = Some k"
      by simp
  next
    fix n' g k assume "n' \<noteq> n"
    then show "bm_get ks (n', g, k) = bm_get (post_keys st) (n', g, k)" by (simp add: ks_def split: option.split)
  qed
  then show ?thesis
    using inv Some by (auto simp: apply_post_def update_room_def rooms_inv_def ks_def split: option.splits)
qed

text \<open>A question's status.\<close>

lemma set_status_ok: "room_ok n r \<Longrightarrow> room_ok n (set_status i s at r)"
  by (auto simp: room_ok_def set_status_def Let_def is_open_question_def split: option.splits if_splits)

lemma set_status_posts:
  "bm_get (rm_posts r) j = Some p \<Longrightarrow>
   \<exists>q. bm_get (rm_posts (set_status i s at r)) j = Some q \<and> p_from q = p_from p \<and> p_key q = p_key p"
  by (auto simp: set_status_def Let_def split: option.split)

lemma status_inv:
  assumes inv: "rooms_inv st"
  shows "rooms_inv (update_room cd n (set_status i s at) st)"
proof -
  let ?R = "room_map st"
  have ok: "rooms_ok ?R" "post_keys_ok ?R (post_keys st)" using inv by (simp_all add: rooms_inv_def)
  have "rooms_ok (bm_update n (set_status i s at) ?R) \<and> post_keys_ok (bm_update n (set_status i s at) ?R) (post_keys st)"
  proof (rule room_change [OF ok])
    fix r' assume "bm_get ?R n = Some r'"
    with ok(1) show "room_ok n (set_status i s at r')" by (simp add: set_status_ok rooms_okD)
  next
    fix g k j assume "bm_get (post_keys st) (n, g, k) = Some j"
    from post_keys_okD [OF ok(2) this] obtain r p
      where "bm_get ?R n = Some r" "bm_get (rm_posts r) j = Some p" "p_from p = g \<and> p_key p = Some k" by blast
    then show "\<exists>r p. bm_get ?R n = Some r \<and> bm_get (rm_posts (set_status i s at r)) j = Some p \<and> p_from p = g \<and> p_key p = Some k"
      using set_status_posts [of r j p i s at] by auto
  qed simp
  then show ?thesis using inv by (simp add: rooms_inv_def update_room_def)
qed

text \<open>Posts dropped.\<close>

lemma drop_post_fields [simp]:
  "rm_name (fst (drop_post n i (r, ks))) = rm_name r"
  "bm_get (rm_posts (fst (drop_post n i (r, ks)))) j = (if j = i then None else bm_get (rm_posts r) j)"
  "bs_elems (rm_open (fst (drop_post n i (r, ks)))) = bs_elems (rm_open r) - {i}"
  by (auto simp: drop_post_def Let_def split: option.split)

definition keys_of_room :: "str \<Rightarrow> room \<Rightarrow> (str \<times> str \<times> str, id) btree_map \<Rightarrow> bool" where
  "keys_of_room n r ks \<longleftrightarrow> (\<forall>g k i. bm_get ks (n, g, k) = Some i \<longrightarrow>
     (\<exists>p. bm_get (rm_posts r) i = Some p \<and> p_from p = g \<and> p_key p = Some k))"

lemma drop_post_step:
  assumes "room_ok n r" "keys_of_room n r ks"
  shows "room_ok n (fst (drop_post n i (r, ks))) \<and>
    keys_of_room n (fst (drop_post n i (r, ks))) (snd (drop_post n i (r, ks))) \<and>
    (\<forall>n' g k. n' \<noteq> n \<longrightarrow> bm_get (snd (drop_post n i (r, ks))) (n', g, k) = bm_get ks (n', g, k))"
proof (intro conjI allI impI)
  show "room_ok n (fst (drop_post n i (r, ks)))" using assms(1) by (auto simp: room_ok_def split: if_splits)
  fix n' g k assume "n' \<noteq> n"
  then show "bm_get (snd (drop_post n i (r, ks))) (n', g, k) = bm_get ks (n', g, k)"
    by (auto simp: drop_post_def Let_def split: option.split)
next
  show "keys_of_room n (fst (drop_post n i (r, ks))) (snd (drop_post n i (r, ks)))"
    unfolding keys_of_room_def
  proof (intro allI impI)
    fix g k j assume a: "bm_get (snd (drop_post n i (r, ks))) (n, g, k) = Some j"
    then have "bm_get ks (n, g, k) = Some j"
      by (auto simp: drop_post_def Let_def split: option.splits if_splits)
    with assms(2) obtain p where p: "bm_get (rm_posts r) j = Some p" "p_from p = g" "p_key p = Some k"
      unfolding keys_of_room_def by blast
    then have "j \<noteq> i" using a by (auto simp: drop_post_def Let_def)
    with p show "\<exists>p. bm_get (rm_posts (fst (drop_post n i (r, ks)))) j = Some p \<and> p_from p = g \<and> p_key p = Some k"
      by simp
  qed
qed

lemma drop_posts_fold:
  "room_ok n r \<Longrightarrow> keys_of_room n r ks \<Longrightarrow>
   (let (r', ks') = fold (drop_post n) ids (r, ks)
    in room_ok n r' \<and> keys_of_room n r' ks' \<and> (\<forall>n' g k. n' \<noteq> n \<longrightarrow> bm_get ks' (n', g, k) = bm_get ks (n', g, k)) \<and>
      (\<forall>j. bm_get (rm_posts r') j = (if j \<in> set ids then None else bm_get (rm_posts r) j)))"
proof (induction ids arbitrary: r ks)
  case (Cons i ids)
  obtain r1 ks1 where d: "drop_post n i (r, ks) = (r1, ks1)" by fastforce
  from drop_post_step [OF Cons.prems, of i] d drop_post_fields(2) [of n i r ks]
  have s: "room_ok n r1" "keys_of_room n r1 ks1" "\<forall>n' g k. n' \<noteq> n \<longrightarrow> bm_get ks1 (n', g, k) = bm_get ks (n', g, k)"
    "\<And>j. bm_get (rm_posts r1) j = (if j = i then None else bm_get (rm_posts r) j)" by auto
  from Cons.IH [OF s(1,2)] s(3,4) show ?case by (auto simp: d)
qed simp

lemma drop_posts_inv:
  assumes inv: "rooms_inv st"
  shows "rooms_inv (apply_drop_posts cd n ids st)"
proof (cases "bm_get (room_map st) n")
  case None
  have "bm_update n (\<lambda>r. fst (fold (drop_post n) ids (r, post_keys st))) (room_map st) = room_map st"
    using None by (intro bm_eqI) auto
  then show ?thesis using inv None by (simp add: apply_drop_posts_def update_room_def rooms_inv_def)
next
  case (Some r)
  let ?R = "room_map st" and ?f = "\<lambda>r. fst (fold (drop_post n) ids (r, post_keys st))"
  have ok: "rooms_ok ?R" "post_keys_ok ?R (post_keys st)" using inv by (simp_all add: rooms_inv_def)
  obtain r' ks' where d: "fold (drop_post n) ids (r, post_keys st) = (r', ks')" by fastforce
  have "keys_of_room n r (post_keys st)"
    unfolding keys_of_room_def using post_keys_okD [OF ok(2), of n] Some by fastforce
  from drop_posts_fold [OF rooms_okD [OF ok(1) Some] this, of ids] d
  have s: "room_ok n r'" "keys_of_room n r' ks'" "\<And>n' g k. n' \<noteq> n \<Longrightarrow> bm_get ks' (n', g, k) = bm_get (post_keys st) (n', g, k)"
    by auto
  have "rooms_ok (bm_update n ?f ?R) \<and> post_keys_ok (bm_update n ?f ?R) ks'"
    by (rule room_change [OF ok]) (use s Some d in \<open>auto simp: keys_of_room_def\<close>)
  then show ?thesis using inv Some d by (simp add: rooms_inv_def apply_drop_posts_def update_room_def)
qed

text \<open>A room created, read back from a snapshot, or dropped.\<close>

definition keyed_posts :: "room \<Rightarrow> bool" where
  "keyed_posts r \<longleftrightarrow> (\<forall>(i, p) \<in> set (bm_entries (rm_posts r)). p_id p = i)"

lemma keyed_posts_get: "keyed_posts r \<longleftrightarrow> (\<forall>i p. bm_get (rm_posts r) i = Some p \<longrightarrow> p_id p = i)"
  unfolding keyed_posts_def in_entries [symmetric] by blast

lemma fold_post_keys:
  "bm_get (fold (\<lambda>p ks. case p_key p of Some key \<Rightarrow> bm_insert (n, p_from p, key) (p_id p) ks | None \<Rightarrow> ks) ps ks)
     (n', g, k) = Some i \<Longrightarrow>
   bm_get ks (n', g, k) = Some i \<or> (n' = n \<and> (\<exists>p \<in> set ps. p_id p = i \<and> p_from p = g \<and> p_key p = Some k))"
proof (induction ps arbitrary: ks)
  case (Cons p ps)
  then show ?case by (fastforce split: option.splits if_splits)
qed simp

lemma room_inv:
  assumes inv: "rooms_inv st" and new: "bm_get (room_map st) (rm_name r) = None" and keyed: "keyed_posts r"
  shows "rooms_inv (apply_room cd r st)"
proof -
  let ?n = "rm_name r" and ?R = "room_map st" and ?r = "r\<lparr>rm_open := open_index (rm_posts r)\<rparr>"
  let ?ks = "add_post_keys ?n (rm_posts r) (post_keys st)"
  have ok: "rooms_ok ?R" "post_keys_ok ?R (post_keys st)" using inv by (simp_all add: rooms_inv_def)
  have "room_ok ?n ?r"
    using keyed by (force simp: room_ok_def open_index_def keyed_posts_get)
  then have r: "rooms_ok (bm_insert ?n ?r ?R)" using ok(1) by (auto simp: rooms_ok_def split: if_splits)
  have k: "post_keys_ok (bm_insert ?n ?r ?R) ?ks"
    unfolding post_keys_ok_def
  proof (intro allI impI)
    fix n g k i assume "bm_get ?ks (n, g, k) = Some i"
    from fold_post_keys [OF this [unfolded add_post_keys_def]]
    show "\<exists>x p. bm_get (bm_insert ?n ?r ?R) n = Some x \<and> bm_get (rm_posts x) i = Some p \<and> p_from p = g \<and> p_key p = Some k"
    proof
      assume "bm_get (post_keys st) (n, g, k) = Some i"
      from post_keys_okD [OF ok(2) this] new show ?thesis by (metis bm_get_insert option.distinct(1))
    next
      assume "n = ?n \<and> (\<exists>p \<in> set (bm_values (rm_posts r)). p_id p = i \<and> p_from p = g \<and> p_key p = Some k)"
      with keyed show ?thesis by (auto simp: keyed_posts_get)
    qed
  qed
  show ?thesis
    using r k inv by (simp add: rooms_inv_def apply_room_def Let_def split: option.split)
qed

lemma drop_room_inv:
  assumes inv: "rooms_inv st"
  shows "rooms_inv (st\<lparr>rooms := fst (captured_remove (ser_room cd) n (rooms st)),
     post_keys := bm_filter (\<lambda>(name, _, _) _. name \<noteq> n) (post_keys st)\<rparr>)"
proof -
  have "post_keys_ok (bm_remove n (room_map st)) (bm_filter (\<lambda>(name, _, _) _. name \<noteq> n) (post_keys st))"
    unfolding post_keys_ok_def
  proof (intro allI impI)
    fix n' g k i assume "bm_get (bm_filter (\<lambda>(name, _, _) _. name \<noteq> n) (post_keys st)) (n', g, k) = Some i"
    then have a: "bm_get (post_keys st) (n', g, k) = Some i" "n' \<noteq> n" by (auto split: option.splits if_splits)
    from post_keys_okD [OF _ a(1)] inv a(2)
    show "\<exists>r p. bm_get (bm_remove n (room_map st)) n' = Some r \<and> bm_get (rm_posts r) i = Some p \<and> p_from p = g \<and> p_key p = Some k"
      by (auto simp: rooms_inv_def)
  qed
  with inv show ?thesis by (auto simp: rooms_inv_def rooms_ok_def split: if_splits)
qed

text \<open>Every room changed at once.\<close>

lemma rooms_map_ok:
  "rooms_ok R \<Longrightarrow> (\<And>n r. room_ok n r \<Longrightarrow> room_ok n (f r)) \<Longrightarrow> rooms_ok (bm_map (\<lambda>_. f) R)"
  by (auto simp: rooms_ok_def)

lemma forget_frame [simp]:
  "last_id (forget_agent cd n st) = last_id st" "broadcasts (forget_agent cd n st) = broadcasts st"
  "bc_keys (forget_agent cd n st) = bc_keys st" "post_keys (forget_agent cd n st) = post_keys st"
  "room_map (forget_agent cd n st) = bm_map (\<lambda>_ r. r\<lparr>rm_members := bm_remove n (rm_members r)\<rparr>) (room_map st)"
proof -
  have f: "last_id (fold (remove_message cd) is s) = last_id s \<and> broadcasts (fold (remove_message cd) is s) = broadcasts s \<and>
      bc_keys (fold (remove_message cd) is s) = bc_keys s \<and> post_keys (fold (remove_message cd) is s) = post_keys s \<and>
      rooms (fold (remove_message cd) is s) = rooms s" for "is" s
    by (induction "is" arbitrary: s) simp_all
  show "last_id (forget_agent cd n st) = last_id st" "broadcasts (forget_agent cd n st) = broadcasts st"
    "bc_keys (forget_agent cd n st) = bc_keys st" "post_keys (forget_agent cd n st) = post_keys st"
    "room_map (forget_agent cd n st) = bm_map (\<lambda>_ r. r\<lparr>rm_members := bm_remove n (rm_members r)\<rparr>) (room_map st)"
    by (simp_all add: forget_agent_def Let_def f split: option.split)
qed

lemma forget_rooms_inv:
  assumes inv: "rooms_inv st"
  shows "rooms_inv (forget_agent cd n st)"
proof -
  have "rooms_ok (bm_map (\<lambda>_ r. r\<lparr>rm_members := bm_remove n (rm_members r)\<rparr>) (room_map st))"
    by (rule rooms_map_ok) (use inv in \<open>simp_all add: rooms_inv_def room_ok_def\<close>)
  with inv show ?thesis by (fastforce simp: rooms_inv_def post_keys_ok_def)
qed

lemma is_open_rename: "is_open_question (rename_post frm to p) = is_open_question p"
  by (simp add: is_open_question_def rename_post_def split: option.split)

lemma rename_room_ok: "room_ok n r \<Longrightarrow> room_ok n (rename_room frm to r)"
  by (auto simp: room_ok_def rename_room_def is_open_rename) (simp add: rename_post_def)

lemma post_index_sound:
  assumes "rooms_ok R"
  shows "post_keys_ok R (post_index R)"
  unfolding post_keys_ok_def
proof (intro allI impI)
  fix n f k i assume "bm_get (post_index R) (n, f, k) = Some i"
  then have "((n, f, k), i) \<in> set (concat (map (\<lambda>r. concat (map (\<lambda>p. case p_key p of
         Some key \<Rightarrow> [((rm_name r, p_from p, key), p_id p)] | None \<Rightarrow> []) (bm_values (rm_posts r))))
       (bm_values R)))"
    using map_of_SomeD unfolding post_index_def bm_get_of_list by fastforce
  then obtain r j p x where "bm_get R x = Some r" "bm_get (rm_posts r) j = Some p"
    "n = rm_name r" "p_id p = i" "p_from p = f" "p_key p = Some k"
    by (auto split: option.splits)
  moreover from this have "room_ok x r" using assms by (simp add: rooms_okD)
  ultimately show "\<exists>r p. bm_get R n = Some r \<and> bm_get (rm_posts r) i = Some p \<and> p_from p = f \<and> p_key p = Some k"
    by (auto simp: room_ok_def)
qed

lemma broadcast_index_sound:
  assumes "\<And>i b. bm_get B i = Some b \<Longrightarrow> b_id b = i"
  shows "broadcasts_ok B (broadcast_index B)"
  unfolding broadcasts_ok_def
proof (intro conjI allI impI)
  fix f k i assume "bm_get (broadcast_index B) (f, k) = Some i"
  then have "((f, k), i) \<in> set (concat (map (\<lambda>b. case b_key b of Some key \<Rightarrow> [((b_from b, key), b_id b)] | None \<Rightarrow> [])
       (bm_values B)))"
    using map_of_SomeD unfolding broadcast_index_def bm_get_of_list by fastforce
  with assms show "\<exists>b. bm_get B i = Some b \<and> b_from b = f \<and> b_key b = Some k" by (auto split: option.splits)
qed (rule assms)

lemma rename_rooms_inv:
  assumes inv: "rooms_inv st"
  shows "rooms_inv (rename_agent cd frm to st)"
proof (cases "bm_get (agents st) frm")
  case None
  with inv show ?thesis by (simp add: rename_agent_def)
next
  case (Some a)
  let ?st = "rename_agent cd frm to st"
  note fr = rename_frame [OF Some, of cd to]
  have R: "room_map ?st = bm_map (\<lambda>_. rename_room frm to) (room_map st)" using fr by simp
  have "rooms_ok (room_map ?st)"
    unfolding R by (rule rooms_map_ok) (use inv in \<open>simp_all add: rooms_inv_def rename_room_ok\<close>)
  moreover from this have "post_keys_ok (room_map ?st) (post_keys ?st)" using fr by (simp add: post_index_sound)
  moreover have "broadcasts_ok (broadcasts ?st) (bc_keys ?st)"
  proof -
    have "broadcasts_ok (broadcasts ?st) (broadcast_index (broadcasts ?st))"
      by (rule broadcast_index_sound) (use fr inv in \<open>auto simp: rooms_inv_def broadcasts_ok_def\<close>)
    then show ?thesis using fr by simp
  qed
  ultimately show ?thesis by (simp add: rooms_inv_def)
qed

text \<open>Broadcasts.\<close>

lemma broadcast_ok_insert:
  assumes "broadcasts_ok B ks" "bm_get B (b_id b) = None"
  shows "broadcasts_ok (bm_insert (b_id b) b B)
    (case b_key b of Some key \<Rightarrow> bm_insert (b_from b, key) (b_id b) ks | None \<Rightarrow> ks)"
  using assms unfolding broadcasts_ok_def
  by (cases "b_key b"; simp) (metis option.distinct(1))+

lemma drop_broadcast_frame [simp]:
  "last_id (drop_broadcast i st) = last_id st" "messages (drop_broadcast i st) = messages st"
  "rooms (drop_broadcast i st) = rooms st" "agents (drop_broadcast i st) = agents st"
  "store_due (drop_broadcast i st) = store_due st" "msg_keys (drop_broadcast i st) = msg_keys st"
  "post_keys (drop_broadcast i st) = post_keys st"
  by (simp_all add: drop_broadcast_def Let_def split: option.split)

lemma drop_broadcast_gets: "broadcasts (drop_broadcast i st) = bm_remove i (broadcasts st)"
  by (rule bm_eqI) (auto simp: drop_broadcast_def Let_def split: option.split)

lemma drop_broadcast_inv:
  assumes "rooms_inv st"
  shows "rooms_inv (drop_broadcast i st)"
proof (cases "bm_get (broadcasts st) i")
  case None
  with assms show ?thesis by (simp add: drop_broadcast_def)
next
  case (Some b)
  have ok: "broadcasts_ok (broadcasts st) (bc_keys st)" using assms by (simp add: rooms_inv_def)
  define ks where "ks = (case b_key b of Some key \<Rightarrow> bm_remove (b_from b, key) (bc_keys st) | None \<Rightarrow> bc_keys st)"
  have "broadcasts_ok (bm_remove i (broadcasts st)) ks"
    unfolding broadcasts_ok_def
  proof (intro conjI allI impI)
    fix j c assume "bm_get (bm_remove i (broadcasts st)) j = Some c"
    then show "b_id c = j" using ok by (auto simp: broadcasts_ok_def split: if_splits)
  next
    fix f k j assume a: "bm_get ks (f, k) = Some j"
    then have "bm_get (bc_keys st) (f, k) = Some j" by (auto simp: ks_def split: option.splits if_splits)
    with ok obtain c where c: "bm_get (broadcasts st) j = Some c" "b_from c = f" "b_key c = Some k"
      unfolding broadcasts_ok_def by blast
    have "j \<noteq> i" using a c Some by (auto simp: ks_def)
    with c show "\<exists>b. bm_get (bm_remove i (broadcasts st)) j = Some b \<and> b_from b = f \<and> b_key b = Some k" by simp
  qed
  then show ?thesis
    using assms Some by (auto simp: rooms_inv_def drop_broadcast_def Let_def ks_def split: option.splits)
qed

subsection \<open>Ids\<close>

text \<open>Every entry the store holds has an id no later than \<open>last_id\<close>, so \<open>next_id\<close> is fresh.\<close>

definition held_ids :: "store \<Rightarrow> id set" where
  "held_ids st = {i. \<exists>m. bm_get (msgs st) i = Some m} \<union> {i. \<exists>b. bm_get (broadcasts st) i = Some b} \<union>
     {i. \<exists>n r p. bm_get (room_map st) n = Some r \<and> bm_get (rm_posts r) i = Some p}"

definition ids_ok :: "store \<Rightarrow> bool" where
  "ids_ok st \<longleftrightarrow> (\<forall>i \<in> held_ids st. i \<le> last_id st)"

lemma ids_ok_mono:
  "ids_ok st \<Longrightarrow> last_id st \<le> last_id st' \<Longrightarrow> held_ids st' \<subseteq> held_ids st \<union> {..last_id st'} \<Longrightarrow> ids_ok st'"
  unfolding ids_ok_def using order_trans by blast

lemma last_post:
  assumes "bm_get (rm_posts r) i = Some p" "bm_last (rm_posts r) = Some (j, q)"
  shows "i \<le> j"
proof -
  have "(i, p) \<in> set (bm_entries (rm_posts r))" using assms(1) by (simp add: in_entries)
  moreover have "(j, q) = List.last (bm_entries (rm_posts r))"
    using assms(2) by (auto simp: bm_last_def al_last_eq split: if_splits)
  ultimately show ?thesis using ssorted_last [OF ssorted_entries] by (metis fst_conv)
qed

lemma remove_message_msgs [simp]: "msgs (remove_message cd i st) = bm_remove i (msgs st)"
proof -
  obtain ms x where ms: "captured_remove (ser_message cd) i (messages st) = (ms, x)" by fastforce
  then have "cmap ms = bm_remove i (msgs st)" using cmap_ops(3) [of "ser_message cd" i "messages st"] by simp
  with ms show ?thesis by (simp add: remove_message_def Let_def split: option.split)
qed

lemma removes_frame:
  "last_id (fold (remove_message cd) is st) = last_id st \<and> broadcasts (fold (remove_message cd) is st) = broadcasts st \<and>
   rooms (fold (remove_message cd) is st) = rooms st \<and> bc_keys (fold (remove_message cd) is st) = bc_keys st \<and>
   post_keys (fold (remove_message cd) is st) = post_keys st \<and>
   (\<forall>j. bm_get (msgs (fold (remove_message cd) is st)) j = (if j \<in> set is then None else bm_get (msgs st) j))"
  by (induction "is" arbitrary: st) auto

lemma forget_msgs: "bm_get (msgs (forget_agent cd n st)) i = Some m \<Longrightarrow> bm_get (msgs st) i = Some m"
  using removes_frame by (auto simp: forget_agent_def Let_def split: option.splits if_splits)

lemma apply_message_frame [simp]:
  "rooms (apply_message cd m st) = rooms st" "broadcasts (apply_message cd m st) = broadcasts st"
  "bc_keys (apply_message cd m st) = bc_keys st" "post_keys (apply_message cd m st) = post_keys st"
  "last_id (apply_message cd m st) = max (last_id st) (m_id m)"
  "msgs (apply_message cd m st) = bm_insert (m_id m) m (msgs st)"
  by (simp_all add: apply_message_def Let_def split: option.split)

lemma change_message_frame [simp]:
  "rooms (change_message cd i f st) = rooms st" "broadcasts (change_message cd i f st) = broadcasts st"
  "bc_keys (change_message cd i f st) = bc_keys st" "post_keys (change_message cd i f st) = post_keys st"
  "last_id (change_message cd i f st) = last_id st"
  "msgs (change_message cd i f st) = bm_update i f (msgs st)"
  by (simp_all add: change_message_def Let_def split: option.split)

lemma update_room_frame [simp]:
  "messages (update_room cd n f st) = messages st" "agents (update_room cd n f st) = agents st"
  "store_due (update_room cd n f st) = store_due st" "msg_keys (update_room cd n f st) = msg_keys st"
  "last_id (update_room cd n f st) = last_id st" "broadcasts (update_room cd n f st) = broadcasts st"
  "room_map (update_room cd n f st) = bm_update n f (room_map st)"
  by (simp_all add: update_room_def)

lemma apply_post_frame [simp]:
  "messages (apply_post cd n p st) = messages st" "agents (apply_post cd n p st) = agents st"
  "store_due (apply_post cd n p st) = store_due st" "msg_keys (apply_post cd n p st) = msg_keys st"
  "broadcasts (apply_post cd n p st) = broadcasts st"
  "room_map (apply_post cd n p st) = bm_update n (put_post p) (room_map st)"
  "last_id (apply_post cd n p st) = (if bm_contains (room_map st) n then max (last_id st) (p_id p) else last_id st)"
  by (simp_all add: apply_post_def Let_def split: option.split)

lemma apply_room_frame [simp]:
  "messages (apply_room cd r st) = messages st" "agents (apply_room cd r st) = agents st"
  "store_due (apply_room cd r st) = store_due st" "msg_keys (apply_room cd r st) = msg_keys st"
  "broadcasts (apply_room cd r st) = broadcasts st"
  "room_map (apply_room cd r st) = bm_insert (rm_name r) (r\<lparr>rm_open := open_index (rm_posts r)\<rparr>) (room_map st)"
  "last_id (apply_room cd r st) = (case bm_last (rm_posts r) of Some (i, _) \<Rightarrow> max (last_id st) i | None \<Rightarrow> last_id st)"
  by (simp_all add: apply_room_def Let_def split: option.split)

lemma apply_drop_posts_frame [simp]:
  "messages (apply_drop_posts cd n ids st) = messages st" "agents (apply_drop_posts cd n ids st) = agents st"
  "store_due (apply_drop_posts cd n ids st) = store_due st" "msg_keys (apply_drop_posts cd n ids st) = msg_keys st"
  "broadcasts (apply_drop_posts cd n ids st) = broadcasts st" "last_id (apply_drop_posts cd n ids st) = last_id st"
  by (simp_all add: apply_drop_posts_def Let_def split: option.split)

lemma drop_fold_posts:
  "bm_get (rm_posts (fst (fold (drop_post n) ids (r, ks)))) j = Some p \<Longrightarrow> bm_get (rm_posts r) j = Some p"
proof (induction ids arbitrary: r ks)
  case (Cons i ids)
  obtain r1 ks1 where d: "drop_post n i (r, ks) = (r1, ks1)" by fastforce
  from Cons have "bm_get (rm_posts r1) j = Some p" by (simp add: d)
  then show ?case using drop_post_fields(2) [of n i r ks j] d by (simp split: if_splits)
qed simp

lemma drop_broadcasts_frame:
  "last_id (fold drop_broadcast is st) = last_id st \<and> messages (fold drop_broadcast is st) = messages st \<and>
   rooms (fold drop_broadcast is st) = rooms st \<and> agents (fold drop_broadcast is st) = agents st \<and>
   store_due (fold drop_broadcast is st) = store_due st \<and> msg_keys (fold drop_broadcast is st) = msg_keys st \<and>
   (\<forall>j. bm_get (broadcasts (fold drop_broadcast is st)) j = (if j \<in> set is then None else bm_get (broadcasts st) j))"
  by (induction "is" arbitrary: st) (auto simp: drop_broadcast_gets)

subsection \<open>Names\<close>

text \<open>Every agent is filed under its own name.\<close>

definition named :: "(str, agent) btree_map \<Rightarrow> bool" where
  "named ags \<longleftrightarrow> (\<forall>n x. map_option ag_name (bm_get ags n) = Some x \<longrightarrow> x = n)"

lemma namedD: "named ags \<Longrightarrow> bm_get ags n = Some a \<Longrightarrow> ag_name a = n"
  by (auto simp: named_def)

lemma named_update: "named ags \<Longrightarrow> (\<And>a. ag_name (f a) = ag_name a) \<Longrightarrow> named (bm_update n f ags)"
  by (auto simp: named_def)

lemma named_insert: "named ags \<Longrightarrow> ag_name a = n \<Longrightarrow> named (bm_insert n a ags)"
  by (auto simp: named_def)

lemma named_remove: "named ags \<Longrightarrow> named (bm_remove n ags)"
  by (auto simp: named_def)

lemma named_map: "named ags \<Longrightarrow> (\<And>a. ag_name (f a) = ag_name a) \<Longrightarrow> named (bm_map (\<lambda>_. f) ags)"
  by (auto simp: named_def)

lemmas named_intros = named_update named_insert named_remove named_map

lemma name_track [simp]: "ag_name (track_agent m b a) = ag_name a"
  by (simp add: track_agent_def Let_def split: msg_state.split)

lemma named_track: "named (agents st) \<Longrightarrow> named (agents (track m b st))"
  by (simp add: track_def named_update)

lemma named_ensure: "named (agents st) \<Longrightarrow> named (agents (ensure_agent n at st))"
  by (simp add: ensure_agent_def named_insert agent_new_def)

lemma named_message: "named (agents st) \<Longrightarrow> named (agents (apply_message cd m st))"
  by (auto simp: apply_message_def Let_def intro!: named_intros named_track named_ensure split: option.split)

lemma named_change: "named (agents st) \<Longrightarrow> named (agents (change_message cd i f st))"
  by (auto simp: change_message_def Let_def intro!: named_track split: option.split)

lemma named_drop: "named (agents st) \<Longrightarrow> named (agents (remove_message cd i st))"
  by (auto simp: remove_message_def Let_def intro!: named_intros named_track split: prod.split option.split)

lemma named_drops: "named (agents st) \<Longrightarrow> named (agents (fold (remove_message cd) is st))"
  by (induction "is" arbitrary: st) (simp_all add: named_drop)

lemma named_forget: "named (agents st) \<Longrightarrow> named (agents (forget_agent cd n st))"
  by (auto simp: forget_agent_def Let_def intro!: named_drops named_remove split: option.split)

lemma named_tracks: "named (agents st) \<Longrightarrow> named (agents (fold (\<lambda>m. track m True) ms st))"
  by (induction ms arbitrary: st) (simp_all add: named_track)

lemma named_rename: "named (agents st) \<Longrightarrow> named (agents (rename_agent cd frm to st))"
  by (auto simp: rename_agent_def retrack_def Let_def clear_tracking_def intro!: named_tracks named_intros split: option.split)

lemma effect_named: "named (agents st) \<Longrightarrow> named (agents (apply_effect cd e st))"
proof (induction cd e st rule: apply_effect.induct)
  case (7 cd ids st)
  then show ?case using drop_broadcasts_frame [of ids st] by simp
qed (auto simp: Let_def named_ensure named_message named_change named_drops named_rename named_forget
    intro!: named_intros split: option.split)

subsection \<open>The whole store\<close>

definition store_ok :: "store \<Rightarrow> bool" where
  "store_ok st \<longleftrightarrow> messages_ok st \<and> rooms_inv st \<and> ids_ok st \<and> named (agents st)"

text \<open>What the broker promises of the effects it applies: entries are new when they come.\<close>

fun effect_ok :: "store \<Rightarrow> effect \<Rightarrow> bool" where
  "effect_ok st (E_Message m) = (bm_get (msgs st) (m_id m) = None)"
| "effect_ok st (E_Broadcast b) = (bm_get (broadcasts st) (b_id b) = None)"
| "effect_ok st (E_Room r) = (bm_get (room_map st) (rm_name r) = None \<and> keyed_posts r)"
| "effect_ok st (E_Post n p) =
     (case bm_get (room_map st) n of Some r \<Rightarrow> bm_get (rm_posts r) (p_id p) = None | None \<Rightarrow> True)"
| "effect_ok st _ = True"

lemma store_default_ok: "store_ok store_default"
  by (auto simp: store_ok_def store_default_def messages_ok_def tracked_by_def keyed_def due_tracks_def due_empty_def
      inbox_ok_def recipients_ok_def msg_keys_ok_def captured_new_def rooms_inv_def rooms_ok_def post_keys_ok_def
      broadcasts_ok_def ids_ok_def held_ids_def named_def)

lemma effect_messages_ok: "messages_ok st \<Longrightarrow> effect_ok st e \<Longrightarrow> messages_ok (apply_effect cd e st)"
proof (induction cd e st rule: apply_effect.induct)
  case (3 cd i consumer token at until st)
  then show ?case by (simp add: change_ok lease_message_def)
next
  case (4 cd i s at st)
  then show ?case by (simp add: change_ok settle_message_def)
next
  case (6 cd b st)
  then show ?case by (auto intro!: messages_ok_frame [of st] simp: Let_def split: option.split)
next
  case (7 cd ids st)
  then show ?case using drop_broadcasts_frame [of ids st] by (auto intro: messages_ok_frame [of st])
next
  case (8 cd name i st)
  show ?case
    using 8 by (auto simp: messages_ok_def tracked_by_def inbox_ok_def recipients_ok_def msg_keys_ok_def agent_tracks_fields)
qed (auto simp: ensure_ok message_ok drop_ok rename_ok forget_ok Let_def intro: messages_ok_frame)

lemma effect_rooms_inv: "rooms_inv st \<Longrightarrow> effect_ok st e \<Longrightarrow> rooms_inv (apply_effect cd e st)"
proof (induction cd e st rule: apply_effect.induct)
  case (5 cd ids st)
  then show ?case using removes_frame [of cd ids st] by (auto intro: rooms_inv_frame [of st])
next
  case (6 cd b st)
  then show ?case using broadcast_ok_insert [of "broadcasts st" "bc_keys st" b]
    by (auto simp: rooms_inv_def Let_def split: option.splits)
next
  case (7 cd ids st)
  have "rooms_inv (fold drop_broadcast ids s)" if "rooms_inv s" for s
    using that by (induction ids arbitrary: s) (simp_all add: drop_broadcast_inv)
  with 7 show ?case by simp
next
  case (14 cd room p st)
  then show ?case by (auto intro: post_inv)
next
  case (20 cd room st)
  then show ?case using drop_room_inv [where st = st and cd = cd and n = room] by (simp add: Let_def)
qed (auto simp: forget_rooms_inv rename_rooms_inv room_inv status_inv drop_posts_inv intro!: update_room_inv
      intro: rooms_inv_frame)

lemma held_ids_unchanged:
  assumes "ids_ok st" "last_id st \<le> last_id st'"
    and "\<And>i m. bm_get (msgs st') i = Some m \<Longrightarrow> (\<exists>m. bm_get (msgs st) i = Some m) \<or> i \<le> last_id st'"
    and "\<And>i b. bm_get (broadcasts st') i = Some b \<Longrightarrow> (\<exists>b. bm_get (broadcasts st) i = Some b) \<or> i \<le> last_id st'"
    and "\<And>n r i p. bm_get (room_map st') n = Some r \<Longrightarrow> bm_get (rm_posts r) i = Some p \<Longrightarrow>
      (\<exists>r p. bm_get (room_map st) n = Some r \<and> bm_get (rm_posts r) i = Some p) \<or> i \<le> last_id st'"
  shows "ids_ok st'"
  by (rule ids_ok_mono [OF assms(1,2)]) (use assms(3-5) in \<open>fastforce simp: held_ids_def\<close>)

lemma set_status_posts_dom:
  "bm_get (rm_posts (set_status i s at r)) j = Some p \<Longrightarrow> \<exists>q. bm_get (rm_posts r) j = Some q"
  by (auto simp: set_status_def Let_def split: option.splits if_splits)

lemma put_post_dom:
  "bm_get (rm_posts (put_post p r)) j = Some q \<Longrightarrow> j = p_id p \<or> (\<exists>q. bm_get (rm_posts r) j = Some q)"
  by (auto simp: put_post_def Let_def split: if_splits)

lemma rename_ids_ok:
  assumes "ids_ok st"
  shows "ids_ok (rename_agent cd frm to st)"
proof (cases "bm_get (agents st) frm")
  case None
  with assms show ?thesis by (simp add: rename_agent_def)
next
  case (Some a)
  note fr = rename_frame [OF Some, of cd to]
  show ?thesis
    by (rule held_ids_unchanged [OF assms]) (use fr in \<open>auto simp: rename_room_def\<close>)
qed

lemma ids_ok_frame:
  "ids_ok st \<Longrightarrow> msgs st' = msgs st \<Longrightarrow> broadcasts st' = broadcasts st \<Longrightarrow> room_map st' = room_map st \<Longrightarrow>
   last_id st' = last_id st \<Longrightarrow> ids_ok st'"
  by (simp add: ids_ok_def held_ids_def)

lemma update_room_ids:
  assumes "ids_ok st" "\<And>r. rm_posts (f r) = rm_posts r"
  shows "ids_ok (update_room cd n f st)"
  by (rule held_ids_unchanged [OF assms(1)]) (auto simp: assms(2) split: if_splits)

lemma effect_ids_ok: "ids_ok st \<Longrightarrow> effect_ok st e \<Longrightarrow> ids_ok (apply_effect cd e st)"
proof (induction cd e st rule: apply_effect.induct)
  case (2 cd m st)
  show ?case by (rule held_ids_unchanged [OF 2(1)]) (auto simp: le_max_iff_disj split: if_splits)
next
  case (3 cd i c t at u st)
  show ?case by (rule held_ids_unchanged [OF 3(1)]) (auto split: if_splits)
next
  case (4 cd i s at st)
  show ?case by (rule held_ids_unchanged [OF 4(1)]) (auto split: if_splits)
next
  case (5 cd ids st)
  show ?case by (rule held_ids_unchanged [OF 5(1)]) (use removes_frame [of cd ids st] in \<open>auto split: if_splits\<close>)
next
  case (6 cd b st)
  show ?case by (rule held_ids_unchanged [OF 6(1)]) (auto simp: Let_def split: option.splits if_splits)
next
  case (7 cd ids st)
  show ?case by (rule held_ids_unchanged [OF 7(1)]) (use drop_broadcasts_frame [of ids st] in \<open>auto split: if_splits\<close>)
next
  case (9 cd frm to st)
  then show ?case by (simp add: rename_ids_ok)
next
  case (10 cd name st)
  show ?case by (rule held_ids_unchanged [OF 10(1)]) (auto dest: forget_msgs)
next
  case (11 cd r st)
  have old: "(\<exists>x. bm_last (rm_posts r) = Some x) \<and> i \<le> fst (the (bm_last (rm_posts r)))"
    if "bm_get (rm_posts r) i = Some p" for i p
    using last_post [OF that] that
    by (cases "bm_last (rm_posts r)") (auto simp: bm_last_None bm_get_def)
  show ?case
    by (rule held_ids_unchanged [OF 11(1)])
      (auto simp: le_max_iff_disj dest!: old split: option.splits if_splits)
next
  case (14 cd room p st)
  show ?case
    by (rule held_ids_unchanged [OF 14(1)]) (auto dest!: put_post_dom split: if_splits)
next
  case (15 cd room i s at st)
  show ?case
    by (rule held_ids_unchanged [OF 15(1)]) (auto dest: set_status_posts_dom split: if_splits)
next
  case (16 cd room ids st)
  have R: "bm_get (room_map (apply_drop_posts cd room ids st)) n = Some r \<Longrightarrow> bm_get (rm_posts r) i = Some p \<Longrightarrow>
      \<exists>r p. bm_get (room_map st) n = Some r \<and> bm_get (rm_posts r) i = Some p" for n r i p
    by (auto simp: apply_drop_posts_def Let_def dest: drop_fold_posts split: if_splits)
  show ?case by (rule held_ids_unchanged [OF 16(1)]) (use R in \<open>auto simp del: bm_get_update\<close>)
next
  case (20 cd room st)
  show ?case by (rule held_ids_unchanged [OF 20(1)]) (auto simp: Let_def split: if_splits)
qed (simp_all add: update_room_ids, simp_all add: ids_ok_frame)

lemma effect_store_ok: "store_ok st \<Longrightarrow> effect_ok st e \<Longrightarrow> store_ok (apply_effect cd e st)"
  by (simp add: store_ok_def effect_messages_ok effect_rooms_inv effect_ids_ok effect_named)

end
