(* ===== verification/Store_Queries.thy ===== *)
theory Store_Queries
  imports Store_Inv
begin

text \<open>
  The stores the program can reach, and what the store's indexed queries answer in them.
\<close>

subsection \<open>Reachable stores\<close>

text \<open>
  What happens to the store: an effect is applied, an agent is seen, the sessions and the
  keyspace change in place, or a snapshot begins, goes on, is handed over or ends.
\<close>

inductive store_step :: "codec \<Rightarrow> store \<Rightarrow> store \<Rightarrow> bool" for cd where
  step_effect: "effect_ok st e \<Longrightarrow> store_step cd st (apply_effect cd e st)"
| step_seen: "store_step cd st (st\<lparr>agents := bm_update n (\<lambda>a. a\<lparr>ag_last_seen := t\<rparr>) (agents st)\<rparr>)"
| step_sessions: "store_step cd st (st\<lparr>sessions := ss\<rparr>)"
| step_keys: "store_step cd st (st\<lparr>store_db := d\<rparr>)"
| step_begin: "store_step cd st (store_begin_capture head st)"
| step_capture: "store_step cd st (fst (store_capture_step cd budget st))"
| step_drain: "store_step cd st (fst (store_drain_capture cd st))"
| step_end: "store_step cd st (fst (store_end_capture cd st))"
| step_abandon: "store_step cd st (store_abandon_capture st)"

lemma captured_frame [simp]:
  "cmap (captured_begin out s) = cmap s" "cmap (captured_abandon s) = cmap s"
  "cmap (fst (captured_end ser s)) = cmap s" "cmap (fst (captured_drain ser s)) = cmap s"
proof -
  show e: "cmap (fst (captured_end ser s)) = cmap s"
    by (simp add: captured_end_def Let_def split: option.split)
  show "cmap (fst (captured_drain ser s)) = cmap s"
    using e by (auto simp: captured_drain_def split: option.split prod.split sum.split)
qed (simp_all add: captured_begin_def captured_abandon_def Let_def)

definition same_data :: "store \<Rightarrow> store \<Rightarrow> bool" where
  "same_data st st' \<longleftrightarrow> msgs st' = msgs st \<and> room_map st' = room_map st \<and> last_id st' = last_id st \<and>
     agents st' = agents st \<and> store_due st' = store_due st \<and> broadcasts st' = broadcasts st \<and>
     msg_keys st' = msg_keys st \<and> bc_keys st' = bc_keys st \<and> post_keys st' = post_keys st"

lemma same_data_ok: "same_data st st' \<Longrightarrow> store_ok st \<Longrightarrow> store_ok st'"
  by (simp add: same_data_def store_ok_def messages_ok_def tracked_by_def inbox_ok_def recipients_ok_def
      msg_keys_ok_def rooms_inv_def ids_ok_def held_ids_def)

lemma capture_same_data:
  "same_data st (store_begin_capture head st)" "same_data st (store_abandon_capture st)"
  by (simp_all add: same_data_def store_begin_capture_def store_abandon_capture_def)

lemma step_same_data: "same_data st (fst (store_capture_step cd budget st))"
proof -
  have s: "captured_step ser b x = (y, over) \<Longrightarrow> cmap y = cmap x" for ser b x y over
    using captured_step_map [of ser b x] by simp
  show ?thesis by (auto simp: same_data_def store_capture_step_def Let_def split: prod.splits if_splits dest!: s)
qed

lemma captured_parts:
  "captured_drain ser s = (s', x) \<Longrightarrow> cmap s' = cmap s" "captured_end ser s = (s', y) \<Longrightarrow> cmap s' = cmap s"
  using captured_frame(3,4) [of ser s] by simp_all

lemma drain_same_data: "same_data st (fst (store_drain_capture cd st))"
  by (auto simp: same_data_def store_drain_capture_def Let_def split: prod.splits sum.splits bool.splits
      dest!: captured_parts)

lemma end_same_data: "same_data st (fst (store_end_capture cd st))"
  by (auto simp: same_data_def store_end_capture_def Let_def split: prod.splits sum.splits dest!: captured_parts)

lemma seen_ok:
  assumes "store_ok st"
  shows "store_ok (st\<lparr>agents := bm_update n (\<lambda>a. a\<lparr>ag_last_seen := t\<rparr>) (agents st)\<rparr>)"
proof -
  have "agent_tracks M k (a\<lparr>ag_last_seen := t\<rparr>) = agent_tracks M k a" for M k a
    by (simp add: agent_tracks_def)
  with assms show ?thesis
    by (auto simp: store_ok_def messages_ok_def tracked_by_def inbox_ok_def recipients_ok_def msg_keys_ok_def
        rooms_inv_def ids_ok_def held_ids_def named_def)
qed

lemma store_step_ok: "store_step cd st st' \<Longrightarrow> store_ok st \<Longrightarrow> store_ok st'"
proof (induction rule: store_step.induct)
  case (step_effect st e)
  then show ?case by (simp add: effect_store_ok)
next
  case (step_seen st n t)
  then show ?case by (rule seen_ok)
qed (auto intro: same_data_ok [rotated] capture_same_data step_same_data drain_same_data end_same_data
      simp: same_data_def)

abbreviation store_reaches :: "codec \<Rightarrow> store \<Rightarrow> bool" where
  "store_reaches cd \<equiv> reaches store_default (store_step cd)"

interpretation store_inv: invariant_of store_default "store_step cd" store_ok for cd
  by unfold_locales (auto intro: store_default_ok store_step_ok)

subsection \<open>What the indexes answer\<close>

text \<open>
  The reference of every indexed query: a scan of all the messages held, in order.
\<close>

definition scan :: "store \<Rightarrow> (message \<Rightarrow> bool) \<Rightarrow> message list" where
  "scan st P = filter P (bm_values (msgs st))"

lemma ssorted_eqI: "ssorted (xs :: 'a::linorder list) \<Longrightarrow> ssorted ys \<Longrightarrow> set xs = set ys \<Longrightarrow> xs = ys"
  using sorted_distinct_set_unique [of xs ys] strict_sorted_iff by blast

lemma scan_ids:
  assumes "keyed (msgs st)"
  shows "map m_id (scan st P) = map fst (filter (\<lambda>(_, m). P m) (bm_entries (msgs st)))"
proof -
  have "m_id (snd x) = fst x" if "x \<in> set (bm_entries (msgs st))" for x
    using that assms in_entries [of "fst x" "snd x" "msgs st"] unfolding keyed_def by simp
  then show ?thesis
    by (auto simp: scan_def bm_values_def filter_map comp_def case_prod_unfold intro!: map_cong [OF refl])
qed

lemma scan_sorted: "keyed (msgs st) \<Longrightarrow> ssorted (map m_id (scan st P))"
  by (simp add: scan_ids ssorted_filter)

lemma scan_set: "keyed (msgs st) \<Longrightarrow> set (map m_id (scan st P)) = {i. \<exists>m. bm_get (msgs st) i = Some m \<and> P m}"
  by (auto simp: scan_ids in_entries image_iff)

lemma scan_card: "keyed (msgs st) \<Longrightarrow> card {i. \<exists>m. bm_get (msgs st) i = Some m \<and> P m} = length (scan st P)"
  using scan_set [of st P] distinct_card [OF ssorted_distinct [OF scan_sorted [of st P]]] by simp

lemma ok_keyed: "store_ok st \<Longrightarrow> keyed (msgs st)"
  by (simp add: store_ok_def messages_ok_def tracked_by_def)

lemma ok_agent:
  assumes "store_ok st" "bm_get (agents st) n = Some a"
  shows "agent_tracks (msgs st) n a" "bs_elems (ag_inbox a) = msgs_of (msgs st) n (\<lambda>_. True)"
  using assms by (auto simp: store_ok_def messages_ok_def tracked_by_def inbox_ok_def)

lemma ok_no_agent:
  assumes "store_ok st" "bm_get (agents st) n = None"
  shows "scan st (\<lambda>m. m_to m = n \<and> P m) = []"
  using assms by (force simp: store_ok_def messages_ok_def recipients_ok_def scan_def filter_empty_conv)

lemma queued_ids_scan:
  assumes "store_ok st"
  shows "queued_ids n st = map m_id (scan st (\<lambda>m. m_to m = n \<and> m_state m = Queued))"
proof (cases "bm_get (agents st) n")
  case None
  with ok_no_agent [OF assms] show ?thesis by (simp add: queued_ids_def)
next
  case (Some a)
  show ?thesis
  proof (rule ssorted_eqI)
    show "set (queued_ids n st) = set (map m_id (scan st (\<lambda>m. m_to m = n \<and> m_state m = Queued)))"
      unfolding scan_set [OF ok_keyed [OF assms]]
      using ok_agent [OF assms Some] Some by (simp add: queued_ids_def agent_tracks_def msgs_of_def)
  qed (simp_all add: queued_ids_def Some scan_sorted ok_keyed assms)
qed

lemma settled_ids_scan:
  assumes "store_ok st"
  shows "settled_ids n st = map m_id (scan st (\<lambda>m. m_to m = n \<and> \<not> is_pending (m_state m)))"
proof (cases "bm_get (agents st) n")
  case None
  with ok_no_agent [OF assms] show ?thesis by (simp add: settled_ids_def)
next
  case (Some a)
  show ?thesis
  proof (rule ssorted_eqI)
    show "set (settled_ids n st) = set (map m_id (scan st (\<lambda>m. m_to m = n \<and> \<not> is_pending (m_state m))))"
      unfolding scan_set [OF ok_keyed [OF assms]]
      using ok_agent [OF assms Some] Some by (simp add: settled_ids_def agent_tracks_def msgs_of_def)
  qed (simp_all add: settled_ids_def Some scan_sorted ok_keyed assms)
qed

lemma inbox_messages_scan:
  assumes "store_ok st"
  shows "inbox_messages n st = scan st (\<lambda>m. m_to m = n)"
proof (cases "bm_get (agents st) n")
  case None
  with ok_no_agent [OF assms, of n "\<lambda>_. True"] show ?thesis by (simp add: inbox_messages_def)
next
  case (Some a)
  let ?s = "scan st (\<lambda>m. m_to m = n)"
  have "bs_list (ag_inbox a) = map m_id ?s"
    by (rule ssorted_eqI)
      (simp_all add: scan_sorted scan_set [unfolded set_map] ok_keyed assms ok_agent(2) [OF assms Some] msgs_of_def)
  moreover have "bm_get (msgs st) (m_id m) = Some m" if "m \<in> set ?s" for m
    using that ok_keyed [OF assms] by (auto simp: scan_def keyed_def)
  ultimately show ?thesis
    using Some by (simp add: inbox_messages_def comp_def cong: map_cong)
qed

lemma counts_scan:
  assumes "store_ok st"
  shows "agent_counts n st =
    \<lparr>ct_queued = length (scan st (\<lambda>m. m_to m = n \<and> m_state m = Queued)),
     ct_leased = length (scan st (\<lambda>m. m_to m = n \<and> m_state m = Leased)),
     ct_dead = length (scan st (\<lambda>m. m_to m = n \<and> m_state m = Dead)),
     ct_settled = length (scan st (\<lambda>m. m_to m = n \<and> \<not> is_pending (m_state m)))\<rparr>"
proof (cases "bm_get (agents st) n")
  case None
  with ok_no_agent [OF assms] show ?thesis by (simp add: agent_counts_def counts_zero_def)
next
  case (Some a)
  note len = scan_card [OF ok_keyed [OF assms], symmetric]
  let ?D = "msgs_of (msgs st) n (\<lambda>m. m_state m = Dead)" and ?S = "msgs_of (msgs st) n (\<lambda>m. m_state m = Acked \<or> m_state m = Expired)"
  have split: "{i. \<exists>m. bm_get (msgs st) i = Some m \<and> m_to m = n \<and> \<not> is_pending (m_state m)} = ?S \<union> ?D"
  proof -
    have "\<not> is_pending s \<longleftrightarrow> s = Acked \<or> s = Expired \<or> s = Dead" for s by (cases s) auto
    then show ?thesis by (auto simp: msgs_of_def)
  qed
  have "?S \<inter> ?D = {}" by (auto simp: msgs_of_def)
  then have "card (?S \<union> ?D) = card ?S + card ?D" by (simp add: card_Un_disjoint)
  then show ?thesis
    using ok_agent(1) [OF assms Some] Some
    by (cases "ag_counts a") (simp add: agent_counts_def len split agent_tracks_def, simp add: msgs_of_def)
qed

lemma pending_from_scan:
  assumes "store_ok st"
  shows "pending_from n s st = length (scan st (\<lambda>m. m_to m = n \<and> is_pending (m_state m) \<and> m_from m = s))"
proof (cases "bm_get (agents st) n")
  case None
  with ok_no_agent [OF assms] show ?thesis by (simp add: pending_from_def)
next
  case (Some a)
  have "bm_get (ag_senders a) s = counted (length (scan st (\<lambda>m. m_to m = n \<and> is_pending (m_state m) \<and> m_from m = s)))"
    unfolding scan_card [OF ok_keyed [OF assms], symmetric]
    using ok_agent(1) [OF assms Some] by (simp add: agent_tracks_def msgs_of_def)
  then show ?thesis using Some by (simp add: pending_from_def counted_def)
qed

text \<open>The due lists: what is due by a time, earliest first.\<close>

lemma takeWhile_sorted_pairs:
  "ssorted (xs :: (u64 \<times> id) list) \<Longrightarrow> takeWhile (\<lambda>(at, _). at \<le> now) xs = filter (\<lambda>(at, _). at \<le> now) xs"
proof (induction xs)
  case (Cons x xs)
  show ?case
  proof (cases "fst x \<le> now")
    case True
    with Cons show ?thesis by (auto simp: case_prod_beta)
  next
    case False
    have "\<not> fst y \<le> now" if "y \<in> set xs" for y
    proof -
      have "x < y" using Cons.prems that by simp
      then have "fst x \<le> fst y" by (auto simp: less_prod_def')
      with False show ?thesis by simp
    qed
    then have "filter (\<lambda>y. fst y \<le> now) xs = []" by (simp add: filter_empty_conv)
    with False show ?thesis by (simp add: case_prod_beta)
  qed
qed simp

definition due_list :: "store \<Rightarrow> (message \<Rightarrow> u64 option) \<Rightarrow> u64 \<Rightarrow> (u64 \<times> id) list" where
  "due_list st wh now =
     sort (map (\<lambda>m. (the (wh m), m_id m)) (scan st (\<lambda>m. case wh m of Some at \<Rightarrow> at \<le> now | None \<Rightarrow> False)))"

lemma due_list_set:
  assumes "keyed (msgs st)"
  shows "(at, i) \<in> set (due_list st wh now) \<longleftrightarrow> at \<le> now \<and> (\<exists>m. bm_get (msgs st) i = Some m \<and> wh m = Some at)"
  using assms unfolding keyed_def
  by (force simp: due_list_def scan_def split: option.splits)

lemma due_list_distinct:
  assumes "keyed (msgs st)"
  shows "distinct (due_list st wh now)"
proof -
  have "distinct (map snd (map (\<lambda>m. (the (wh m), m_id m)) (scan st P)))" for P
    using ssorted_distinct [OF scan_sorted [OF assms, of P]] by (simp add: comp_def)
  then show ?thesis unfolding due_list_def distinct_sort by (blast dest: distinct_map [THEN iffD1])
qed

lemma due_scan:
  assumes "store_ok st"
    and "\<And>at i. (at, i) \<in> bs_elems (sel (store_due st)) \<longleftrightarrow> (\<exists>m. bm_get (msgs st) i = Some m \<and> wh m = Some at)"
  shows "takeWhile (\<lambda>(at, _). at \<le> now) (bs_list (sel (store_due st))) = due_list st wh now"
proof (rule ssorted_eqI)
  show "ssorted (takeWhile (\<lambda>(at, _). at \<le> now) (bs_list (sel (store_due st))))"
    unfolding takeWhile_sorted_pairs [OF ssorted_keys] by (simp add: sorted_wrt_filter)
  show "ssorted (due_list st wh now)"
    using due_list_distinct [OF ok_keyed [OF assms(1)]] by (simp add: strict_sorted_iff due_list_def)
  show "set (takeWhile (\<lambda>(at, _). at \<le> now) (bs_list (sel (store_due st)))) = set (due_list st wh now)"
    unfolding takeWhile_sorted_pairs [OF ssorted_keys]
    using assms(2) due_list_set [OF ok_keyed [OF assms(1)]] by auto
qed

lemma due_lists_scan:
  assumes "store_ok st"
  shows "leases_due now st = map snd (due_list st lease_end now)"
    and "expired_due now st = map snd (due_list st (\<lambda>m. if is_pending (m_state m) then Some (m_expires m) else None) now)"
    and "settled_before now st = map snd (due_list st (\<lambda>m. if is_pending (m_state m) then None else Some (settled_at m)) now)"
proof -
  have d: "due_tracks (msgs st) (store_due st)" using assms by (simp add: store_ok_def messages_ok_def tracked_by_def)
  show "leases_due now st = map snd (due_list st lease_end now)"
    unfolding leases_due_def using d by (intro arg_cong [of _ _ "map snd"] due_scan [OF assms]) (auto simp: due_tracks_def)
  show "expired_due now st = map snd (due_list st (\<lambda>m. if is_pending (m_state m) then Some (m_expires m) else None) now)"
    unfolding expired_due_def using d by (intro arg_cong [of _ _ "map snd"] due_scan [OF assms]) (auto simp: due_tracks_def)
  show "settled_before now st = map snd (due_list st (\<lambda>m. if is_pending (m_state m) then None else Some (settled_at m)) now)"
    unfolding settled_before_def using d by (intro arg_cong [of _ _ "map snd"] due_scan [OF assms]) (auto simp: due_tracks_def)
qed

lemma concat_map_self: "(\<And>x. x \<in> set xs \<Longrightarrow> f x = [x]) \<Longrightarrow> concat (map f xs) = xs"
  by (induction xs) auto

lemma open_questions_scan:
  assumes "room_ok n r"
  shows "open_questions r = filter is_open_question (bm_values (rm_posts r))"
proof -
  let ?ps = "filter is_open_question (bm_values (rm_posts r))"
  have ids: "map p_id ?ps = map fst (filter (\<lambda>(_, p). is_open_question p) (bm_entries (rm_posts r)))"
  proof -
    have "p_id (snd x) = fst x" if "x \<in> set (bm_entries (rm_posts r))" for x
      using that room_okD [OF assms, of "fst x" "snd x"] by (simp add: in_entries [symmetric])
    then show ?thesis
      by (auto simp: bm_values_def filter_map comp_def case_prod_unfold intro!: map_cong [OF refl])
  qed
  have "bs_list (rm_open r) = map p_id ?ps"
    unfolding ids using assms
    by (intro ssorted_eqI) (auto simp: ssorted_filter room_ok_def in_entries image_iff)
  moreover have "bm_get (rm_posts r) (p_id p) = Some p" if "p \<in> set ?ps" for p
    using that room_okD [OF assms] by auto
  ultimately show ?thesis by (auto simp: open_questions_def comp_def intro!: concat_map_self)
qed

lemma ok_room: "store_ok st \<Longrightarrow> bm_get (room_map st) n = Some r \<Longrightarrow> room_ok n r"
  unfolding store_ok_def rooms_inv_def by (blast intro: rooms_okD)

lemma next_id_gt:
  assumes "last_id st \<noteq> id_max"
  shows "last_id st < next_id st now"
proof (cases "id_next_after (last_id st) now")
  case None
  then have False using assms by (simp add: id_next_after_def id_after_None split: if_splits)
  then show ?thesis ..
next
  case (Some i)
  then show ?thesis by (simp add: next_id_def clock_ids.next_gt)
qed

lemma held_le: "store_ok st \<Longrightarrow> i \<in> held_ids st \<Longrightarrow> i \<le> last_id st"
  by (simp add: store_ok_def ids_ok_def)

lemma next_id_new:
  assumes "store_ok st" "last_id st \<noteq> id_max"
  shows "next_id st now \<notin> held_ids st"
  using held_le [OF assms(1)] next_id_gt [OF assms(2), of now] by (meson leD)

subsection \<open>The store's properties\<close>

text \<open>
  C1: In every reachable store the indexed queries of an inbox agree with a scan of all the
  messages: the queued ids, the settled ids, the inbox and the counts are exactly those of
  the messages addressed to it, oldest first, whatever was sent, leased, settled, dropped,
  renamed, forgotten or captured before.
\<close>

theorem inbox_indexes_exact:
  assumes "store_reaches cd st"
  shows "queued_ids name st = map m_id (scan st (\<lambda>m. m_to m = name \<and> m_state m = Queued)) \<and>
    settled_ids name st = map m_id (scan st (\<lambda>m. m_to m = name \<and> \<not> is_pending (m_state m))) \<and>
    inbox_messages name st = scan st (\<lambda>m. m_to m = name) \<and>
    counts_pending (agent_counts name st) = length (scan st (\<lambda>m. m_to m = name \<and> is_pending (m_state m))) \<and>
    pending_from name sender st = length (scan st (\<lambda>m. m_to m = name \<and> is_pending (m_state m) \<and> m_from m = sender))"
proof -
  have ok: "store_ok st" by (rule store_inv.inv_reaches [OF assms])
  have "length (filter (\<lambda>m. Q m \<and> m_state m = Queued) ms) + length (filter (\<lambda>m. Q m \<and> m_state m = Leased) ms) =
      length (filter (\<lambda>m. Q m \<and> is_pending (m_state m)) ms)" for Q ms
  proof (induction ms)
    case (Cons m ms)
    then show ?case by (cases "m_state m") auto
  qed simp
  then have "counts_pending (agent_counts name st) = length (scan st (\<lambda>m. m_to m = name \<and> is_pending (m_state m)))"
    by (simp add: counts_scan [OF ok] counts_pending_def scan_def)
  with ok show ?thesis by (simp add: queued_ids_scan settled_ids_scan inbox_messages_scan pending_from_scan)
qed

definition sample_message :: "id \<Rightarrow> str \<Rightarrow> str \<Rightarrow> message" where
  "sample_message i frm to = \<lparr>m_id = i, m_from = frm, m_to = to, m_body = ''hi'', m_created = 5, m_expires = 90,
     m_thread = i, m_reply_to = None, m_key = Some ''k'', m_state = Queued, m_deliveries = 0, m_lease = None,
     m_settled = None\<rparr>"

definition sample_codec :: codec where
  "sample_codec = \<lparr>ser_message = (\<lambda>m. Some (m_body m)), ser_room = (\<lambda>r. Some (rm_name r)),
     ser_key = (\<lambda>_ _. None), db_exec = (\<lambda>_ _ d. d)\<rparr>"

definition sample_store :: store where
  "sample_store = apply_effects sample_codec
     [E_Message (sample_message (Id 5 0) ''a'' ''b''), E_Message (sample_message (Id 5 1) ''c'' ''b''),
      E_Lease (Id 5 0) ''w'' ''t'' 6 36, E_Settle (Id 5 1) Acked 7, E_Rename ''b'' ''d''] store_default"

lemma sample_store_reaches: "store_reaches sample_codec sample_store"
proof -
  let ?m1 = "sample_message (Id 5 0) ''a'' ''b''" and ?m2 = "sample_message (Id 5 1) ''c'' ''b''"
  let ?c = sample_codec
  let ?s1 = "apply_effect ?c (E_Message ?m1) store_default"
  let ?s2 = "apply_effect ?c (E_Message ?m2) ?s1"
  have "store_reaches ?c ?s1" by (intro reaches_step [OF reaches_start] step_effect) (simp add: store_default_def captured_new_def)
  then have "store_reaches ?c ?s2"
    by (rule reaches_step) (intro step_effect, simp add: store_default_def captured_new_def sample_message_def)
  then have "store_reaches ?c (apply_effect ?c (E_Lease (Id 5 0) ''w'' ''t'' 6 36) ?s2)"
    by (rule reaches_step) (intro step_effect, simp)
  then have "store_reaches ?c (apply_effect ?c (E_Settle (Id 5 1) Acked 7) (apply_effect ?c (E_Lease (Id 5 0) ''w'' ''t'' 6 36) ?s2))"
    by (rule reaches_step) (intro step_effect, simp)
  then show ?thesis
    unfolding sample_store_def apply_effects_def fold.simps comp_apply id_apply
    by (rule reaches_step) (intro step_effect, simp)
qed

lemma sample_inbox: "map m_id (inbox_messages ''d'' sample_store) = [Id 5 0, Id 5 1]"
  by code_simp

theorem inbox_indexes_exact_witness:
  "inbox_messages ''d'' sample_store = scan sample_store (\<lambda>m. m_to m = ''d'') \<and>
   queued_ids ''d'' sample_store = map m_id (scan sample_store (\<lambda>m. m_to m = ''d'' \<and> m_state m = Queued))"
  using inbox_indexes_exact [OF sample_store_reaches, of "''d''" "''a''"] by blast

text \<open>
  C29: What is due is found without a scan: in every reachable store the leases that ran out,
  the pending messages that expired and the settled messages old enough to drop are exactly
  those a scan finds, each in the order of its time and then its id.
\<close>

theorem due_lists_exact:
  assumes "store_reaches cd st"
  shows "leases_due now st = map snd (due_list st lease_end now) \<and>
    expired_due now st =
      map snd (due_list st (\<lambda>m. if is_pending (m_state m) then Some (m_expires m) else None) now) \<and>
    settled_before now st =
      map snd (due_list st (\<lambda>m. if is_pending (m_state m) then None else Some (settled_at m)) now)"
  using due_lists_scan [OF store_inv.inv_reaches [OF assms], of now] by blast

lemma sample_due: "leases_due 36 sample_store = [Id 5 0]" "leases_due 35 sample_store = []"
  by code_simp+

theorem due_lists_exact_witness: "map snd (due_list sample_store lease_end 36) = [Id 5 0]"
  using due_lists_exact [OF sample_store_reaches, of 36] sample_due(1) by simp

text \<open>
  C30: In every reachable store the id the next entry gets is later than every message,
  broadcast and post the store holds, whatever the clock reads, so no entry ever overwrites
  another (until the very last id has been used).
\<close>

theorem next_id_fresh:
  assumes "store_reaches cd st" "last_id st \<noteq> id_max"
  shows "next_id st now \<notin> held_ids st \<and> (\<forall>i \<in> held_ids st. i < next_id st now)"
proof -
  have ok: "store_ok st" by (rule store_inv.inv_reaches [OF assms(1)])
  show ?thesis
    using next_id_new [OF ok assms(2)] held_le [OF ok] next_id_gt [OF assms(2), of now] le_less_trans by blast
qed

lemma sample_last: "last_id sample_store = Id 5 1"
  by code_simp

theorem next_id_fresh_witness: "next_id sample_store 4 \<notin> held_ids sample_store"
  using next_id_fresh [OF sample_store_reaches, of 4] sample_last by (simp add: id_max_def)

text \<open>
  C31: In every reachable store an idempotency key never names the wrong entry: a message,
  broadcast or post found by its key is held, and has that key, sender and place.
\<close>

theorem keys_name_their_entries:
  assumes "store_reaches cd st"
  shows "(message_by_key to frm key st = Some m \<longrightarrow>
      bm_get (msgs st) (m_id m) = Some m \<and> m_to m = to \<and> m_from m = frm \<and> m_key m = Some key) \<and>
    (broadcast_by_key frm key st = Some b \<longrightarrow>
      bm_get (broadcasts st) (b_id b) = Some b \<and> b_from b = frm \<and> b_key b = Some key) \<and>
    (post_by_key room frm key st = Some p \<longrightarrow>
      (\<exists>r. bm_get (room_map st) room = Some r \<and> bm_get (rm_posts r) (p_id p) = Some p) \<and>
      p_from p = frm \<and> p_key p = Some key)"
proof (intro conjI impI)
  have ok: "store_ok st" by (rule store_inv.inv_reaches [OF assms])
  {
    assume "message_by_key to frm key st = Some m"
    then obtain i where i: "bm_get (msg_keys st) (to, frm, key) = Some i" "bm_get (msgs st) i = Some m"
      by (auto simp: message_by_key_def split: Option.bind_splits)
    have "msg_keys_ok (msgs st) st" using ok by (simp add: store_ok_def messages_ok_def)
    from msg_keys_okD [OF this i(1)] i(2) ok_keyed [OF ok]
    show "bm_get (msgs st) (m_id m) = Some m" "m_to m = to" "m_from m = frm" "m_key m = Some key"
      by (auto simp: keyed_def)
  next
    assume "broadcast_by_key frm key st = Some b"
    then obtain i where "bm_get (bc_keys st) (frm, key) = Some i" "bm_get (broadcasts st) i = Some b"
      by (auto simp: broadcast_by_key_def split: Option.bind_splits)
    moreover have "broadcasts_ok (broadcasts st) (bc_keys st)" using ok by (simp add: store_ok_def rooms_inv_def)
    ultimately show "bm_get (broadcasts st) (b_id b) = Some b" "b_from b = frm" "b_key b = Some key"
      by (fastforce simp: broadcasts_ok_def)+
  next
    assume "post_by_key room frm key st = Some p"
    then obtain i r where i: "bm_get (post_keys st) (room, frm, key) = Some i" "bm_get (room_map st) room = Some r"
        "bm_get (rm_posts r) i = Some p"
      by (auto simp: post_by_key_def split: Option.bind_splits)
    have k: "post_keys_ok (room_map st) (post_keys st)" "room_ok room r"
      using ok ok_room [OF ok i(2)] by (simp_all add: store_ok_def rooms_inv_def)
    from post_keys_okD [OF k(1) i(1)] room_okD [OF k(2) i(3)] i(2,3)
    show "\<exists>r. bm_get (room_map st) room = Some r \<and> bm_get (rm_posts r) (p_id p) = Some p"
      "p_from p = frm" "p_key p = Some key" by auto
  }
qed

theorem keys_name_their_entries_witness:
  "\<exists>m. message_by_key ''d'' ''a'' ''k'' sample_store = Some m \<and> m_to m = ''d'' \<and> m_key m = Some ''k''"
proof -
  have "message_by_key ''d'' ''a'' ''k'' sample_store \<noteq> None" by code_simp
  then obtain m where m: "message_by_key ''d'' ''a'' ''k'' sample_store = Some m" by blast
  with keys_name_their_entries [OF sample_store_reaches] show ?thesis by blast
qed

text \<open>
  C32: In every reachable store a room's index of open questions lists exactly the open
  questions among its posts, oldest first, and every post is filed under its own id.
\<close>

theorem open_questions_exact:
  assumes "store_reaches cd st" "bm_get (room_map st) room = Some r"
  shows "open_questions r = filter is_open_question (bm_values (rm_posts r)) \<and>
    (\<forall>i p. bm_get (rm_posts r) i = Some p \<longrightarrow> p_id p = i) \<and> rm_name r = room"
proof -
  have "room_ok room r" by (rule ok_room [OF store_inv.inv_reaches [OF assms(1)] assms(2)])
  then show ?thesis using open_questions_scan by (auto simp: room_ok_def)
qed

definition sample_room :: room where
  "sample_room = \<lparr>rm_name = ''lobby'', rm_topic = [], rm_created = 1, rm_created_by = ''a'', rm_private = False,
     rm_closed = None, rm_members = bm_empty, rm_board = bm_empty,
     rm_posts = bm_insert (Id 3 0) \<lparr>p_id = Id 3 0, p_from = ''a'', p_kind = Question, p_body = ''q'', p_created = 3,
       p_reply_to = None, p_about = None, p_choice = None,
       p_ask = Some \<lparr>ask_to = [''b''], ask_options = [], ask_expires = 9, ask_status = St_Open, ask_closed = None\<rparr>,
       p_key = None\<rparr> bm_empty,
     rm_open = bm_empty\<rparr>"

definition sample_rooms :: store where
  "sample_rooms = apply_effect sample_codec (E_Room sample_room) store_default"

lemma sample_rooms_reaches: "store_reaches sample_codec sample_rooms"
  unfolding sample_rooms_def
  by (intro reaches_step [OF reaches_start] step_effect)
    (auto simp: store_default_def captured_new_def sample_room_def keyed_posts_get split: if_splits)

theorem open_questions_exact_witness:
  "\<exists>r. bm_get (room_map sample_rooms) ''lobby'' = Some r \<and> map p_id (open_questions r) = [Id 3 0] \<and>
     open_questions r = filter is_open_question (bm_values (rm_posts r))"
proof -
  have "map_option (map p_id \<circ> open_questions) (bm_get (room_map sample_rooms) ''lobby'') = Some [Id 3 0]"
    by code_simp
  then show ?thesis using open_questions_exact [OF sample_rooms_reaches] by fastforce
qed

end
