(* ===== verification/Util.thy ===== *)
theory Util
  imports Decimal
begin

text \<open>
  Helpers every layer calls (\<open>src/src/util.rs\<close>): hexadecimal text, calendar dates, the
  checks on names and keys, the comparison of secrets and the hash of an agent's
  directory; and the sizes of \<open>src/src/memory.rs\<close>.
\<close>

subsection \<open>Hexadecimal text\<close>

definition hex_digit :: "u8 \<Rightarrow> char" where
  "hex_digit n = ''0123456789abcdef'' ! unat n"

definition to_hex :: "u8 list \<Rightarrow> str" where
  "to_hex bytes = concat (map (\<lambda>b. [hex_digit (drop_bit 4 b), hex_digit (b AND 15)]) bytes)"

text \<open>\<open>char::to_digit(16)\<close>, and \<open>u8::from_str_radix(_, 16)\<close> on two characters, which
  reads a leading plus sign as a sign.\<close>

definition to_digit16 :: "char \<Rightarrow> nat option" where
  "to_digit16 c =
     (let n = byte_of c in
      if 48 \<le> n \<and> n \<le> 57 then Some (n - 48)
      else if 97 \<le> n \<and> n \<le> 102 then Some (n - 87)
      else if 65 \<le> n \<and> n \<le> 70 then Some (n - 55)
      else None)"

definition u8_from_hex :: "char \<Rightarrow> char \<Rightarrow> u8 option" where
  "u8_from_hex a b =
     (if a = CHR ''+'' then map_option of_nat (to_digit16 b)
      else case (to_digit16 a, to_digit16 b) of
             (Some x, Some y) \<Rightarrow> Some (of_nat (16 * x + y))
           | _ \<Rightarrow> None)"

fun hex_pairs :: "str \<Rightarrow> u8 list option" where
  "hex_pairs [] = Some []"
| "hex_pairs [_] = None"
| "hex_pairs (a # b # s) =
     (case u8_from_hex a b of
        None \<Rightarrow> None
      | Some x \<Rightarrow> map_option ((#) x) (hex_pairs s))"

definition from_hex :: "str \<Rightarrow> u8 list option" where
  "from_hex text = (if even (length text) then hex_pairs text else None)"

lemma u8_from_hex_nibbles:
  assumes "x < 16" and "y < 16"
  shows "u8_from_hex (''0123456789abcdef'' ! x) (''0123456789abcdef'' ! y) = Some (of_nat (16 * x + y))"
proof -
  have d: "to_digit16 (''0123456789abcdef'' ! n) = Some n \<and> ''0123456789abcdef'' ! n \<noteq> CHR ''+''"
    if "n < 16" for n
  proof -
    have "list_all (\<lambda>n. to_digit16 (''0123456789abcdef'' ! n) = Some n
        \<and> ''0123456789abcdef'' ! n \<noteq> CHR ''+'') [0..<16]"
      by code_simp
    with that show ?thesis by (simp add: list_all_iff)
  qed
  from d [OF assms(1)] d [OF assms(2)] show ?thesis
    by (simp add: u8_from_hex_def)
qed

lemma unat_nibbles:
  fixes b :: u8
  shows "unat (drop_bit 4 b) < 16" and "unat (b AND 15) < 16"
    and "16 * unat (drop_bit 4 b) + unat (b AND 15) = unat b"
proof -
  have m: "b AND 15 = take_bit 4 b"
    by (simp add: take_bit_eq_mask mask_eq_exp_minus_1)
  have h: "unat (drop_bit 4 b) = unat b div 16" and l: "unat (b AND 15) = unat b mod 16"
    unfolding m drop_bit_eq_div take_bit_eq_mod by (simp_all add: unat_div unat_mod)
  have "unat b < 256" using unsigned_less [of b] by simp
  then show "unat (drop_bit 4 b) < 16" unfolding h by simp
  show "unat (b AND 15) < 16" "16 * unat (drop_bit 4 b) + unat (b AND 15) = unat b"
    unfolding h l by simp_all
qed

lemma hex_pairs_to_hex: "hex_pairs (to_hex bs) = Some bs"
proof (induction bs)
  case (Cons b bs)
  have "u8_from_hex (hex_digit (drop_bit 4 b)) (hex_digit (b AND 15)) = Some b"
    using u8_from_hex_nibbles [OF unat_nibbles(1) [of b] unat_nibbles(2) [of b]] unat_nibbles(3) [of b]
    by (simp add: hex_digit_def)
  with Cons show ?case by (simp add: to_hex_def)
qed (simp add: to_hex_def)

lemma length_to_hex: "length (to_hex bs) = 2 * length bs"
  by (induction bs) (simp_all add: to_hex_def)

subsection \<open>Calendar dates\<close>

text \<open>
  \<open>civil_from_days\<close> on the integers: the program's \<open>i64\<close> holds every value that
  occurs, a day count being at most \<open>2^64 / 86400000\<close>.
\<close>

definition civil_from_days :: "int \<Rightarrow> int \<times> int \<times> int" where
  "civil_from_days days =
     (let z = days + 719468;
          era = z div 146097;
          doe = z mod 146097;
          yoe = (doe - doe div 1460 + doe div 36524 - doe div 146096) div 365;
          doy = doe - (365 * yoe + yoe div 4 - yoe div 100);
          mp = (5 * doy + 2) div 153;
          day = doy - (153 * mp + 2) div 5 + 1;
          month = (if mp < 10 then mp + 3 else mp - 9)
      in (yoe + era * 400 + (if month \<le> 2 then 1 else 0), month, day))"

definition pad0 :: "nat \<Rightarrow> nat \<Rightarrow> str" where
  "pad0 w n = (let s = show_nat n in replicate (w - length s) (CHR ''0'') @ s)"

definition iso8601 :: "u64 \<Rightarrow> str" where
  "iso8601 ms =
     (let secs = int (unat ms div 1000);
          (year, month, day) = civil_from_days (secs div 86400);
          rem = nat (secs mod 86400)
      in pad0 4 (nat year) @ ''-'' @ pad0 2 (nat month) @ ''-'' @ pad0 2 (nat day) @ ''T''
         @ pad0 2 (rem div 3600) @ '':'' @ pad0 2 (rem mod 3600 div 60) @ '':'' @ pad0 2 (rem mod 60)
         @ ''.'' @ pad0 3 (unat ms mod 1000) @ ''Z'')"

text \<open>The Gregorian calendar, as a reference: how long a month is and which day follows.\<close>

definition leap_year :: "int \<Rightarrow> bool" where
  "leap_year y \<longleftrightarrow> y mod 4 = 0 \<and> (y mod 100 \<noteq> 0 \<or> y mod 400 = 0)"

definition month_length :: "int \<Rightarrow> int \<Rightarrow> int" where
  "month_length y m =
     (if m = 2 then (if leap_year y then 29 else 28)
      else if m \<in> {4, 6, 9, 11} then 30 else 31)"

definition next_day :: "int \<times> int \<times> int \<Rightarrow> int \<times> int \<times> int" where
  "next_day = (\<lambda>(y, m, d).
     if d < month_length y m then (y, m, d + 1)
     else if m = 12 then (y + 1, 1, 1) else (y, m + 1, 1))"

text \<open>A year of the era starts on the first of March: where it starts, and its length.\<close>

definition year_start :: "int \<Rightarrow> int" where
  "year_start y = 365 * y + y div 4 - y div 100 + y div 400"

definition yoe_of :: "int \<Rightarrow> int" where
  "yoe_of doe = (doe - doe div 1460 + doe div 36524 - doe div 146096) div 365"

definition month_day :: "int \<Rightarrow> int \<times> int" where
  "month_day doy =
     (let mp = (5 * doy + 2) div 153
      in (if mp < 10 then mp + 3 else mp - 9, doy - (153 * mp + 2) div 5 + 1))"

lemma civil_from_days_alt:
  "civil_from_days (d - 719468) =
     (let era = d div 146097; doe = d mod 146097; yoe = yoe_of doe;
          (m, dd) = month_day (doe - (365 * yoe + yoe div 4 - yoe div 100))
      in (yoe + era * 400 + (if m \<le> 2 then 1 else 0), m, dd))"
  unfolding civil_from_days_def yoe_of_def month_day_def Let_def diff_add_cancel prod.case ..

lemma div_le_diff:
  fixes a b c :: int
  assumes "a \<le> b" "0 < c"
  shows "a - a div c \<le> b - b div c"
proof -
  have "(a + int n) div c \<le> a div c + int n" for n
  proof (induction n)
    case (Suc n)
    have "(a + int (Suc n)) div c \<le> (a + int n + c) div c"
      using assms(2) by (intro zdiv_mono1) auto
    also have "\<dots> = (a + int n) div c + 1"
      using assms(2) div_add_self2 [of c "a + int n"] by simp
    finally show ?case using Suc by simp
  qed simp
  from this [of "nat (b - a)"] show ?thesis using assms(1) by simp
qed

lemma yoe_mono:
  assumes "0 \<le> a" "a \<le> b" "b \<le> 146096"
  shows "yoe_of a \<le> yoe_of b"
proof -
  have d: "a - a div 1460 \<le> b - b div 1460"
    using assms by (intro div_le_diff) simp_all
  have e: "a div 36524 - a div 146096 \<le> b div 36524 - b div 146096"
  proof (cases "b = 146096 \<and> a \<noteq> 146096")
    case True
    with assms have "a \<le> 146095" "a div 146096 = 0" by simp_all
    with True zdiv_mono1 [of a 146095 36524] show ?thesis by simp
  next
    case False
    with assms have "a = b \<or> a div 146096 = 0 \<and> b div 146096 = 0"
      by (auto intro: div_pos_pos_trivial)
    moreover have "a div 36524 \<le> b div 36524" using assms(2) by (rule zdiv_mono1) simp
    ultimately show ?thesis by (elim disjE conjE) simp_all
  qed
  have "a - a div 1460 + a div 36524 - a div 146096
      \<le> b - b div 1460 + b div 36524 - b div 146096"
    unfolding add_diff_eq [symmetric] using d e by (rule add_mono)
  then show ?thesis
    unfolding yoe_of_def by (rule zdiv_mono1) simp
qed

lemma yoe_boundaries:
  assumes "0 \<le> y" "y < 400"
  shows "yoe_of (year_start y) = y" and "yoe_of (year_start (y + 1) - 1) = y"
proof -
  have "list_all (\<lambda>n. yoe_of (year_start n) = n \<and> yoe_of (year_start (n + 1) - 1) = n)
      (map int [0..<400])"
    by code_simp
  moreover have "y \<in> set (map int [0..<400])"
    using assms by (auto simp: image_iff intro: bexI [of _ "nat y"])
  ultimately show "yoe_of (year_start y) = y" "yoe_of (year_start (y + 1) - 1) = y"
    unfolding list_all_iff by blast+
qed

lemma year_start_0: "year_start 0 = 0" and year_start_400: "year_start 400 = 146097"
  by (simp_all add: year_start_def)

lemma div_succ:
  fixes y c :: int
  assumes "1 < c"
  shows "(y + 1) div c = y div c + (if (y + 1) mod c = 0 then 1 else 0)"
proof -
  have r: "0 \<le> y mod c" "y mod c < c" using assms by simp_all
  have d: "(y + 1) div c = y div c + (y mod c + 1) div c"
    using assms div_add1_eq [of y 1 c] by simp
  have m: "(y + 1) mod c = (y mod c + 1) mod c" by (simp add: mod_add_left_eq)
  show ?thesis
  proof (cases "y mod c + 1 = c")
    case True
    with assms show ?thesis by (simp add: d m)
  next
    case False
    with r show ?thesis by (simp add: d m)
  qed
qed

lemma year_start_step:
  "year_start (y + 1) = year_start y + (if leap_year (y + 1) then 366 else 365)"
proof -
  have arith: "365 * (y + 1) + (a + (if p then 1 else 0)) - (b + (if q then 1 else 0))
      + (c + (if r then 1 else 0)) =
      365 * y + a - b + c + (if p \<and> (\<not> q \<or> r) then 366 else (365 :: int))"
    if "r \<longrightarrow> q" "q \<longrightarrow> p" for a b c p q r
    using that by (cases p; cases q; cases r) simp_all
  have trans: "c dvd e \<Longrightarrow> (y + 1) mod e = 0 \<longrightarrow> (y + 1) mod c = 0" for c e
    unfolding mod_eq_0_iff_dvd by (blast intro: dvd_trans)
  have "(y + 1) mod 400 = 0 \<longrightarrow> (y + 1) mod 100 = 0" "(y + 1) mod 100 = 0 \<longrightarrow> (y + 1) mod 4 = 0"
    by (rule trans, simp)+
  from arith [OF this] show ?thesis
    unfolding year_start_def leap_year_def using div_succ [of 4 y] div_succ [of 100 y] div_succ [of 400 y]
    by (simp only: one_less_numeral_iff semiring_norm simp_thms)
qed

lemma year_start_mono: "y \<le> z \<Longrightarrow> year_start y \<le> year_start z"
  unfolding year_start_def
  using div_le_diff [of y z 100] zdiv_mono1 [of y z 4] zdiv_mono1 [of y z 400] by simp

lemma year_exists:
  assumes "0 \<le> doe" "doe < year_start (int n)"
  shows "\<exists>y. 0 \<le> y \<and> y < int n \<and> year_start y \<le> doe \<and> doe < year_start (y + 1)"
  using assms
proof (induction n)
  case 0
  then show ?case by (simp add: year_start_0)
next
  case (Suc n)
  show ?case
  proof (cases "doe < year_start (int n)")
    case True
    with Suc show ?thesis by force
  next
    case False
    with Suc.prems show ?thesis by (intro exI [of _ "int n"]) (simp add: add.commute)
  qed
qed

lemma yoe_unique:
  assumes "0 \<le> y" "y < 400" "year_start y \<le> doe" "doe < year_start (y + 1)"
  shows "yoe_of doe = y"
proof -
  have "0 \<le> year_start y" using year_start_mono [of 0 y] assms by (simp add: year_start_0)
  moreover have "year_start (y + 1) \<le> 146097"
    using year_start_mono [of "y + 1" 400] assms by (simp add: year_start_400)
  ultimately have "yoe_of (year_start y) \<le> yoe_of doe" "yoe_of doe \<le> yoe_of (year_start (y + 1) - 1)"
    using assms by (auto intro!: yoe_mono)
  then show ?thesis using yoe_boundaries [OF assms(1,2)] by simp
qed

lemma month_day_step:
  assumes "0 \<le> doy" "doy < 365"
  shows "(let (m, d) = month_day doy; (m', d') = month_day (doy + 1) in
      (if d < month_length 0 m then m' = m \<and> d' = d + 1
       else d' = 1 \<and> m' = (if m = 12 then 1 else m + 1)) \<and> (m \<le> 2 \<longrightarrow> m' \<le> 2) \<and> (m = 12 \<or> (m' \<le> 2 \<longrightarrow> m \<le> 2)))"
proof -
  have "list_all (\<lambda>doy. let (m, d) = month_day doy; (m', d') = month_day (doy + 1) in
      (if d < month_length 0 m then m' = m \<and> d' = d + 1
       else d' = 1 \<and> m' = (if m = 12 then 1 else m + 1)) \<and> (m \<le> 2 \<longrightarrow> m' \<le> 2) \<and> (m = 12 \<or> (m' \<le> 2 \<longrightarrow> m \<le> 2)))
      (map int [0..<365])"
    by code_simp
  moreover have "doy \<in> set (map int [0..<365])"
    using assms by (auto simp: image_iff intro: bexI [of _ "nat doy"])
  ultimately show ?thesis unfolding list_all_iff by blast
qed

lemma civil_split:
  assumes "0 \<le> y" "y < 400" "year_start y \<le> doe" "doe < year_start (y + 1)"
  shows "civil_from_days (e * 146097 + doe - 719468) =
    (let (m, d) = month_day (doe - year_start y) in (y + e * 400 + (if m \<le> 2 then 1 else 0), m, d))"
proof -
  have "0 \<le> year_start y" using year_start_mono [of 0 y] assms by (simp add: year_start_0)
  moreover have "year_start (y + 1) \<le> 146097"
    using year_start_mono [of "y + 1" 400] assms by (simp add: year_start_400)
  ultimately have r: "0 \<le> doe" "doe < 146097" using assms by linarith+
  then have dm: "(e * 146097 + doe) div 146097 = e" "(e * 146097 + doe) mod 146097 = doe"
    by simp_all
  have y: "yoe_of doe = y" using assms by (rule yoe_unique)
  have "y div 400 = 0" using assms by (simp add: div_pos_pos_trivial)
  then have s: "365 * y + y div 4 - y div 100 = year_start y"
    by (simp add: year_start_def)
  show ?thesis
    unfolding civil_from_days_alt dm Let_def y s ..
qed

lemma leap_year_era: "leap_year (y + e * 400) = leap_year y"
proof -
  have "(y + e * 400) mod 4 = y mod 4" "(y + e * 400) mod 100 = y mod 100" "(y + e * 400) mod 400 = y mod 400"
    using mod_mult_self1 [of y "e * 100" 4] mod_mult_self1 [of y "e * 4" 100] mod_mult_self1 [of y e 400]
    by (simp_all only: mult.assoc semiring_norm mult_num_simps numeral_times_numeral)
  then show ?thesis by (simp only: leap_year_def)
qed

lemma month_day_feb:
  assumes "0 \<le> doy" "doy < 364" "month_day doy = (m, d)"
  shows "m = 2 \<longrightarrow> d < 28"
proof -
  have "list_all (\<lambda>doy. fst (month_day doy) = 2 \<longrightarrow> snd (month_day doy) < 28) (map int [0..<364])"
    by code_simp
  moreover have "doy \<in> set (map int [0..<364])"
    using assms by (auto simp: image_iff intro: bexI [of _ "nat doy"])
  ultimately have "fst (month_day doy) = 2 \<longrightarrow> snd (month_day doy) < 28"
    unfolding list_all_iff by blast
  with assms(3) show ?thesis by simp
qed

lemma month_day_ends:
  "month_day 0 = (3, 1)" "month_day 364 = (2, 28)" "month_day 365 = (2, 29)"
  by code_simp+

lemma civil_next_in_year:
  assumes y: "0 \<le> y" "y < 400" and doe: "year_start y \<le> doe" "doe + 1 < year_start (y + 1)"
  shows "civil_from_days (e * 146097 + (doe + 1) - 719468) =
    next_day (civil_from_days (e * 146097 + doe - 719468))"
proof -
  define doy where "doy = doe - year_start y"
  obtain m d where md: "month_day doy = (m, d)" by fastforce
  obtain m' d' where md': "month_day (doy + 1) = (m', d')" by fastforce
  have len: "doy + 1 < (if leap_year (y + 1) then 366 else 365)"
    using doe year_start_step [of y] by (simp add: doy_def)
  have doy: "0 \<le> doy" "doy < 365" using len doe by (auto simp: doy_def split: if_splits)
  have step: "if d < month_length 0 m then m' = m \<and> d' = d + 1 else d' = 1 \<and> m' = (if m = 12 then 1 else m + 1)"
      "m \<le> 2 \<longrightarrow> m' \<le> 2" "m = 12 \<or> (m' \<le> 2 \<longrightarrow> m \<le> 2)"
    using month_day_step [OF doy] by (simp_all add: md md')
  define Y where "Y = y + e * 400 + (if m \<le> 2 then 1 else 0)"
  have feb: "d < month_length Y m \<longleftrightarrow> d < month_length 0 m"
  proof (cases "m = 2 \<and> \<not> leap_year (y + 1)")
    case True
    then have "d < 28" using month_day_feb [OF doy(1) _ md] len by simp
    then show ?thesis using True by (simp add: month_length_def)
  next
    case False
    then have "m = 2 \<longrightarrow> leap_year Y"
      using leap_year_era [of "y + 1" e] by (auto simp: Y_def algebra_simps)
    then show ?thesis by (simp add: month_length_def leap_year_def)
  qed
  have a: "civil_from_days (e * 146097 + doe - 719468) = (Y, m, d)"
    using civil_split [of y doe e] y doe md by (simp add: doy_def [symmetric] Y_def)
  have eq: "doe + 1 - year_start y = doy + 1" by (simp add: doy_def)
  have b: "civil_from_days (e * 146097 + (doe + 1) - 719468) = (y + e * 400 + (if m' \<le> 2 then 1 else 0), m', d')"
    using civil_split [of y "doe + 1" e, unfolded eq md'] y doe by simp
  show ?thesis
  proof (cases "d < month_length Y m")
    case True
    with step feb have "m' = m \<and> d' = d + 1" by simp
    then show ?thesis unfolding a b next_day_def using True by (simp add: Y_def)
  next
    case False
    with step feb have n: "d' = 1" "m' = (if m = 12 then 1 else m + 1)" by simp_all
    show ?thesis
      unfolding a b next_day_def using False n step(2,3) by (cases "m = 12") (auto simp: Y_def)
  qed
qed

lemma civil_next_year:
  assumes y: "0 \<le> y" "y < 400" and doe: "year_start y \<le> doe" "doe + 1 = year_start (y + 1)"
  shows "civil_from_days (e * 146097 + (doe + 1) - 719468) =
    next_day (civil_from_days (e * 146097 + doe - 719468))"
proof -
  have "doe - year_start y = (if leap_year (y + 1) then 365 else 364)"
    using doe year_start_step [of y] by (cases "leap_year (y + 1)") simp_all
  then have md: "month_day (doe - year_start y) = (2, if leap_year (y + 1) then 29 else 28)"
    by (simp add: month_day_ends)
  have a: "civil_from_days (e * 146097 + doe - 719468) =
      (y + 1 + e * 400, 2, if leap_year (y + 1) then 29 else 28)"
    using civil_split [of y doe e] y doe md by simp
  have b: "civil_from_days (e * 146097 + (doe + 1) - 719468) = (y + 1 + e * 400, 3, 1)"
  proof (cases "y + 1 < 400")
    case True
    then show ?thesis
      using civil_split [of "y + 1" "doe + 1" e] y doe year_start_step [of "y + 1"]
      by (simp add: month_day_ends)
  next
    case False
    then have "y + 1 = 400" using y by simp
    moreover from this have "doe + 1 = 146097" using doe year_start_400 by simp
    ultimately show ?thesis
      using civil_split [of 0 0 "e + 1"] year_start_step [of 0]
      by (simp add: month_day_ends year_start_0 algebra_simps)
  qed
  show ?thesis
    unfolding a b next_day_def by (simp add: month_length_def leap_year_era)
qed

lemma civil_succ: "civil_from_days (days + 1) = next_day (civil_from_days days)"
proof -
  define e doe where "e = (days + 719468) div 146097" and "doe = (days + 719468) mod 146097"
  have d: "days = e * 146097 + doe - 719468" "0 \<le> doe" "doe < 146097"
    using div_mult_mod_eq [of "days + 719468" 146097] by (simp_all add: e_def doe_def)
  obtain y where y: "0 \<le> y" "y < 400" "year_start y \<le> doe" "doe < year_start (y + 1)"
    using year_exists [of doe 400] d(2,3) by (auto simp: year_start_400)
  have s: "days + 1 = e * 146097 + (doe + 1) - 719468" using d(1) by simp
  show ?thesis
  proof (cases "doe + 1 < year_start (y + 1)")
    case True
    from civil_next_in_year [OF y(1-3) True, of e] show ?thesis unfolding s unfolding d(1) .
  next
    case False
    with y(4) have "doe + 1 = year_start (y + 1)" by simp
    from civil_next_year [OF y(1-3) this, of e] show ?thesis unfolding s unfolding d(1) .
  qed
qed

lemma civil_epoch: "civil_from_days 0 = (1970, 1, 1)"
  by code_simp

text \<open>
  C40: day zero is the first of January 1970, and the date of the next day number is
  the next day of the Gregorian calendar, for every day before and after it.
\<close>

theorem civil_from_days_is_the_calendar:
  "civil_from_days 0 = (1970, 1, 1) \<and>
   (\<forall>days. civil_from_days (days + 1) = next_day (civil_from_days days))"
  using civil_epoch civil_succ by simp

subsection \<open>Names, keys, secrets\<close>

definition valid_name :: "str \<Rightarrow> bool" where
  "valid_name name \<longleftrightarrow>
     name \<noteq> [] \<and> length name \<le> 64 \<and> is_ascii_alphanumeric (hd name) \<and>
     list_all (\<lambda>b. is_ascii_alphanumeric b \<or> b \<in> {CHR ''-'', CHR ''_'', CHR ''.''}) name"

definition valid_key :: "str \<Rightarrow> bool" where
  "valid_key key \<longleftrightarrow> key \<noteq> [] \<and> length key \<le> 128 \<and> list_all is_ascii_graphic key"

definition constant_time_eq :: "u8 list \<Rightarrow> u8 list \<Rightarrow> bool" where
  "constant_time_eq a b \<longleftrightarrow>
     length a = length b \<and> fold (\<lambda>(x, y) acc. acc OR (x XOR y)) (zip a b) 0 = 0"

lemma fold_or_xor:
  "length a = length b \<Longrightarrow>
   fold (\<lambda>(x, y) acc. acc OR (x XOR y)) (zip a b) acc = (0 :: u8) \<longleftrightarrow> acc = 0 \<and> a = b"
  by (induction a b arbitrary: acc rule: list_induct2) (auto simp: or_eq_0 xor_eq_0)

lemma constant_time_eq_iff: "constant_time_eq a b \<longleftrightarrow> a = b"
  by (auto simp: constant_time_eq_def fold_or_xor)

definition fnv1a :: "u8 list \<Rightarrow> u64" where
  "fnv1a data = fold (\<lambda>byte hash. (hash XOR ucast byte) * 0x100000001b3) data 0xcbf29ce484222325"

text \<open>\<open>random_below\<close>, over the hash it draws from the standard library.\<close>

definition random_below :: "u64 \<Rightarrow> nat \<Rightarrow> nat" where
  "random_below hash bound = (if bound = 0 then 0 else unat (hash mod of_nat bound))"

lemma random_below_lt:
  assumes "0 < bound" and "bound < 2 ^ 64"
  shows "random_below hash bound < bound"
  using assms by (simp add: random_below_def unat_mod unat_of_nat)

text \<open>
  Every byte string written in hexadecimal reads back as itself, so the secrets, receipts
  and digests the program prints and parses survive.
\<close>

theorem hex_roundtrip: "from_hex (to_hex bs) = Some bs"
  by (simp add: from_hex_def length_to_hex hex_pairs_to_hex)

text \<open>
  The comparison that always looks at every byte, used for secrets, accepts exactly the
  equal byte strings.
\<close>

theorem constant_time_eq_correct: "constant_time_eq a b = (a = b)"
  by (rule constant_time_eq_iff)

end
