(* ===== verification/Views.thy ===== *)
theory Views
  imports Store_Queries Util
begin

text \<open>
  The JSON views of messages, broadcasts and posts (\<open>src/src/store.rs\<close>) that go out in
  events and replies, and the names the derived serializers give to states, roles, kinds
  and statuses. A \<open>serde_json\<close> object is an ordered map: its fields are kept sorted.
\<close>

subsection \<open>JSON values\<close>

datatype json =
    J_Null
  | J_Bool bool
  | J_Int int
  | J_Str str
  | J_Arr "json list"
  | J_Obj "(str \<times> json) list"

definition put_field :: "str \<Rightarrow> json \<Rightarrow> (str \<times> json) list \<Rightarrow> (str \<times> json) list" where
  "put_field k v fs = al_insert k v fs"

definition fields_of :: "(str \<times> json) list \<Rightarrow> (str \<times> json) list" where
  "fields_of kvs = fold (\<lambda>(k, v). put_field k v) kvs []"

definition j_obj :: "(str \<times> json) list \<Rightarrow> json" where
  "j_obj kvs = J_Obj (fields_of kvs)"

definition insert_opt :: "str \<Rightarrow> json option \<Rightarrow> (str \<times> json) list \<Rightarrow> (str \<times> json) list" where
  "insert_opt key value fs = (case value of Some v \<Rightarrow> put_field key v fs | None \<Rightarrow> fs)"

definition j_opt_str :: "str option \<Rightarrow> json" where
  "j_opt_str v = (case v of Some s \<Rightarrow> J_Str s | None \<Rightarrow> J_Null)"

definition j_time :: "u64 \<Rightarrow> json" where
  "j_time at = J_Str (iso8601 at)"

definition j_id :: "id \<Rightarrow> json" where
  "j_id i = J_Str (id_to_string i)"

subsection \<open>Lower case names\<close>

fun state_name :: "msg_state \<Rightarrow> str" where
  "state_name Queued = ''queued''"
| "state_name Leased = ''leased''"
| "state_name Acked = ''acked''"
| "state_name Dead = ''dead''"
| "state_name Expired = ''expired''"

fun role_name :: "role \<Rightarrow> str" where
  "role_name Owner = ''owner''"
| "role_name Plain_Member = ''member''"

fun kind_name :: "kind \<Rightarrow> str" where
  "kind_name Note = ''note''"
| "kind_name Question = ''question''"
| "kind_name Answer = ''answer''"
| "kind_name Event = ''event''"

fun status_name :: "status \<Rightarrow> str" where
  "status_name St_Open = ''open''"
| "status_name St_Resolved = ''resolved''"
| "status_name St_Withdrawn = ''withdrawn''"
| "status_name St_Expired = ''expired''"

subsection \<open>Entries\<close>

definition message_json :: "message \<Rightarrow> json" where
  "message_json m =
     (let f = fields_of
            [(''id'', j_id (m_id m)), (''from'', J_Str (m_from m)), (''to'', J_Str (m_to m)),
             (''body'', J_Str (m_body m)), (''timestamp'', j_time (m_created m)), (''thread'', j_id (m_thread m))];
          f = insert_opt ''replyTo'' (map_option j_id (m_reply_to m)) f;
          f = put_field ''state'' (J_Str (state_name (m_state m))) f;
          f = put_field ''deliveries'' (J_Int (uint (m_deliveries m))) f;
          f = (case m_lease m of
                 Some l \<Rightarrow>
                   (let f = put_field ''consumer'' (J_Str (ls_consumer l)) f
                    in if m_state m = Leased then put_field ''leaseExpiresAt'' (j_time (ls_until l)) f else f)
               | None \<Rightarrow> f);
          f = insert_opt ''settledAt'' (map_option j_time (m_settled m)) f;
          f = (if is_pending (m_state m) then put_field ''expiresAt'' (j_time (m_expires m)) f else f)
      in J_Obj f)"

definition answer_json :: "post \<Rightarrow> json" where
  "answer_json a = j_obj [(''id'', j_id (p_id a)), (''from'', J_Str (p_from a)), (''body'', J_Str (p_body a)),
     (''choice'', j_opt_str (p_choice a))]"

definition question_json :: "room \<Rightarrow> post \<Rightarrow> ask \<Rightarrow> json" where
  "question_json r p a =
     (let q = fields_of
            [(''status'', J_Str (status_name (ask_status a))), (''to'', J_Arr (map J_Str (ask_to a))),
             (''options'', J_Arr (map J_Str (ask_options a))), (''answers'', J_Arr (map answer_json (answers r (p_id p)))),
             (''expiresAt'', j_time (ask_expires a))];
          q = (if ask_status a = St_Open then put_field ''waitingOn'' (J_Arr (map J_Str (waiting_on r p))) q else q);
          q = (case ask_closed a of Some at \<Rightarrow> put_field ''closedAt'' (j_time at) q | None \<Rightarrow> q)
      in J_Obj q)"

definition post_json :: "room \<Rightarrow> post \<Rightarrow> json" where
  "post_json r p =
     (let f = fields_of
            [(''id'', j_id (p_id p)), (''room'', J_Str (rm_name r)), (''from'', J_Str (p_from p)),
             (''kind'', J_Str (kind_name (p_kind p))), (''body'', J_Str (p_body p)), (''timestamp'', j_time (p_created p))];
          f = insert_opt ''replyTo'' (map_option j_id (p_reply_to p)) f;
          f = insert_opt ''about'' (map_option J_Str (p_about p)) f;
          f = insert_opt ''choice'' (map_option J_Str (p_choice p)) f;
          f = (case p_ask p of Some a \<Rightarrow> put_field ''question'' (question_json r p a) f | None \<Rightarrow> f)
      in J_Obj f)"

definition broadcast_json :: "broadcast \<Rightarrow> json" where
  "broadcast_json b = j_obj [(''id'', j_id (b_id b)), (''from'', J_Str (b_from b)), (''body'', J_Str (b_body b)),
     (''timestamp'', j_time (b_created b)), (''expiresAt'', j_time (b_expires b))]"

text \<open>How many live sessions each agent has (\<open>online_counts\<close>).\<close>

definition online_counts :: "u64 \<Rightarrow> store \<Rightarrow> (str, nat) btree_map" where
  "online_counts now st =
     fold (\<lambda>s m. bm_insert (se_agent s) (case bm_get m (se_agent s) of Some n \<Rightarrow> n + 1 | None \<Rightarrow> 1) m)
       (filter (\<lambda>s. se_expires s > now) (bm_values (sessions st))) bm_empty"

lemma online_counts_fold:
  "bm_get (fold (\<lambda>s m. bm_insert (se_agent s) (case bm_get m (se_agent s) of Some n \<Rightarrow> n + 1 | None \<Rightarrow> 1) m) ss m) n =
     (let k = length (filter (\<lambda>s. se_agent s = n) ss)
      in if k = 0 then bm_get m n else Some ((case bm_get m n of Some x \<Rightarrow> x | None \<Rightarrow> 0) + k))"
  by (induction ss arbitrary: m) (auto simp: Let_def split: option.splits)

lemma online_counts_get:
  "bm_get (online_counts now st) n = (if live_sessions n now st = 0 then None else Some (live_sessions n now st))"
  by (simp add: online_counts_def online_counts_fold live_sessions_def Let_def conj_commute [of "se_agent _ = n"])


end
