(* ===== verification/Utf8.thy ===== *)
theory Utf8
  imports Prelude
begin

text \<open>
  Rust strings are valid UTF-8. The program works on their bytes in some places and on
  their characters in others; this theory relates the two, so that a prefix found byte by
  byte is a prefix character by character.
\<close>

type_synonym scalar = nat

definition is_scalar :: "scalar \<Rightarrow> bool" where
  "is_scalar c \<longleftrightarrow> c < 0xD800 \<or> (0xDFFF < c \<and> c < 0x110000)"

definition utf8_cont :: "char \<Rightarrow> nat" where
  "utf8_cont c = byte_of c mod 64"

text \<open>\<open>str::chars\<close>, and the encoding it inverts.\<close>

fun chars :: "str \<Rightarrow> scalar list" where
  "chars [] = []"
| "chars (a # s) =
     (let n = byte_of a in
      if n < 128 then n # chars s
      else if n < 224 then
        (case s of b # s1 \<Rightarrow> ((n mod 32) * 64 + utf8_cont b) # chars s1 | _ \<Rightarrow> [])
      else if n < 240 then
        (case s of b # c # s2 \<Rightarrow> ((n mod 16) * 4096 + utf8_cont b * 64 + utf8_cont c) # chars s2 | _ \<Rightarrow> [])
      else
        (case s of
           b # c # d # s3 \<Rightarrow>
             ((n mod 8) * 262144 + utf8_cont b * 4096 + utf8_cont c * 64 + utf8_cont d) # chars s3
         | _ \<Rightarrow> []))"

definition utf8_char :: "scalar \<Rightarrow> str" where
  "utf8_char c =
     (if c < 0x80 then [char_of c]
      else if c < 0x800 then [char_of (192 + c div 64), char_of (128 + c mod 64)]
      else if c < 0x10000 then
        [char_of (224 + c div 4096), char_of (128 + c div 64 mod 64), char_of (128 + c mod 64)]
      else
        [char_of (240 + c div 262144), char_of (128 + c div 4096 mod 64),
         char_of (128 + c div 64 mod 64), char_of (128 + c mod 64)])"

definition utf8 :: "scalar list \<Rightarrow> str" where
  "utf8 cs = concat (map utf8_char cs)"

text \<open>What every Rust string satisfies.\<close>

definition valid_str :: "str \<Rightarrow> bool" where
  "valid_str s \<longleftrightarrow> utf8 (chars s) = s \<and> list_all is_scalar (chars s)"

lemma byte_of_char: "n < 256 \<Longrightarrow> byte_of (char_of n) = n"
  by (simp add: byte_of_def)

lemma split64: "(x::nat) div 64 * 64 + x mod 64 = x" "x div 4096 * 4096 + x div 64 mod 64 * 64 + x mod 64 = x"
  "x div 262144 * 262144 + x div 4096 mod 64 * 4096 + x div 64 mod 64 * 64 + x mod 64 = x"
proof -
  have a: "x div 4096 = x div 64 div 64" "x div 262144 = x div 64 div 64 div 64"
    by (simp_all add: div_mult2_eq [symmetric])
  define y z where "y = x div 64" and "z = x div 64 div 64"
  have z_def': "y div 64 = z" by (simp add: y_def z_def)
  have x: "y * 64 + x mod 64 = x" and y: "z * 64 + y mod 64 = y" and z: "z div 64 * 64 + z mod 64 = z"
    by (simp_all only: y_def z_def div_mult_mod_eq)
  show "x div 64 * 64 + x mod 64 = x" by simp
  show "x div 4096 * 4096 + x div 64 mod 64 * 64 + x mod 64 = x"
    unfolding a unfolding y_def [symmetric] z_def' using x y by linarith
  show "x div 262144 * 262144 + x div 4096 mod 64 * 4096 + x div 64 mod 64 * 64 + x mod 64 = x"
    unfolding a unfolding y_def [symmetric] z_def' using x y z by linarith
qed

lemma mod_base: "r < m \<Longrightarrow> (k * m + r) mod m = (r::nat)"
  by simp

lemma cont_mod: "utf8_cont (char_of (128 + n mod 64)) = n mod 64"
proof -
  have "n mod 64 < 64" by simp
  then have "byte_of (char_of (128 + n mod 64)) = 128 + n mod 64" by (intro byte_of_char) linarith
  moreover have "(128 + n mod 64) mod 64 = n mod 64" using mod_base [of "n mod 64" 64 2] by simp
  ultimately show ?thesis by (simp only: utf8_cont_def)
qed

lemma chars_utf8_char:
  assumes "is_scalar c"
  shows "chars (utf8_char c @ s) = c # chars s"
proof -
  have c: "c < 0x110000" using assms by (auto simp: is_scalar_def)
  consider "c < 128" | "128 \<le> c" "c < 0x800" | "0x800 \<le> c" "c < 0x10000" | "0x10000 \<le> c" by linarith
  then show ?thesis
  proof cases
    case 1
    then show ?thesis by (simp add: utf8_char_def byte_of_char)
  next
    case 2
    define q where "q = c div 64"
    have q: "2 \<le> q" "q < 32" using 2 by (auto simp: q_def)
    then have b: "byte_of (char_of (192 + q)) = 192 + q" "(192 + q) mod 32 = q"
      using mod_base [of q 32 6] by (simp_all add: byte_of_char)
    have "utf8_char c = [char_of (192 + q), char_of (128 + c mod 64)]"
      using 2 by (simp add: utf8_char_def q_def)
    then show ?thesis
      using q b cont_mod [of c] split64(1) [of c] by (simp add: Let_def q_def [symmetric])
  next
    case 3
    define q where "q = c div 4096"
    have q: "q < 16" using 3 by (auto simp: q_def)
    then have b: "byte_of (char_of (224 + q)) = 224 + q" "(224 + q) mod 16 = q"
      using mod_base [of q 16 14] by (simp_all add: byte_of_char)
    have "utf8_char c = [char_of (224 + q), char_of (128 + c div 64 mod 64), char_of (128 + c mod 64)]"
      using 3 by (simp add: utf8_char_def q_def)
    then show ?thesis
      using q b cont_mod [of c] cont_mod [of "c div 64"] split64(2) [of c]
      by (simp add: Let_def q_def [symmetric])
  next
    case 4
    define q where "q = c div 262144"
    have q: "q < 8" using c by (auto simp: q_def)
    then have b: "byte_of (char_of (240 + q)) = 240 + q" "(240 + q) mod 8 = q"
      using mod_base [of q 8 30] by (simp_all add: byte_of_char)
    have "utf8_char c = [char_of (240 + q), char_of (128 + c div 4096 mod 64),
        char_of (128 + c div 64 mod 64), char_of (128 + c mod 64)]"
      using 4 by (simp add: utf8_char_def q_def)
    then show ?thesis
      using q b cont_mod [of c] cont_mod [of "c div 64"] cont_mod [of "c div 4096"] split64(3) [of c]
      by (simp add: Let_def q_def [symmetric])
  qed
qed

lemma chars_utf8_append: "list_all is_scalar cs \<Longrightarrow> chars (utf8 cs @ s) = cs @ chars s"
  by (induction cs) (simp_all add: utf8_def chars_utf8_char)

lemma chars_utf8: "list_all is_scalar cs \<Longrightarrow> chars (utf8 cs) = cs"
  using chars_utf8_append [of cs "[]"] by simp

lemma valid_utf8 [simp]: "list_all is_scalar cs \<Longrightarrow> valid_str (utf8 cs)"
  by (simp add: valid_str_def chars_utf8)

lemma utf8_append: "utf8 (as @ bs) = utf8 as @ utf8 bs"
  by (simp add: utf8_def)

lemma chars_append: "valid_str s \<Longrightarrow> chars (s @ t) = chars s @ chars t"
  using chars_utf8_append [of "chars s" t] by (simp add: valid_str_def)

lemma chars_inject: "valid_str s \<Longrightarrow> valid_str t \<Longrightarrow> chars s = chars t \<longleftrightarrow> s = t"
  by (metis valid_str_def)

lemma starts_with_chars:
  assumes "valid_str s" "valid_str p"
  shows "starts_with (chars s) (chars p) \<longleftrightarrow> starts_with s p"
proof
  assume "starts_with (chars s) (chars p)"
  then obtain r where "chars s = chars p @ r" by (auto simp: starts_with_iff)
  then have "s = p @ utf8 r" using assms utf8_append [of "chars p" r] by (simp add: valid_str_def)
  then show "starts_with s p" by (auto simp: starts_with_iff)
next
  assume "starts_with s p"
  then show "starts_with (chars s) (chars p)"
    using assms(2) by (auto simp: starts_with_iff chars_append)
qed

text \<open>Cutting a string before the first of some ASCII characters leaves both views whole.\<close>

lemma utf8_char_bytes:
  assumes "is_scalar c"
  shows "c < 128 \<and> utf8_char c = [char_of c] \<or> 128 \<le> c \<and> list_all (\<lambda>b. 128 \<le> byte_of b) (utf8_char c)"
proof (cases "c < 128")
  case False
  have b: "128 \<le> byte_of (char_of (k + n))" if "128 \<le> k" "k + n < 256" for k n :: nat
    using that by (simp add: byte_of_char)
  have m: "128 \<le> byte_of (char_of (128 + n mod 64))" for n :: nat
    using mod_less_divisor [of 64 n] by (intro b) auto
  have c: "c < 0x110000" using assms by (auto simp: is_scalar_def)
  have "c < 0x800 \<Longrightarrow> 192 + c div 64 < 256" "c < 0x10000 \<Longrightarrow> 224 + c div 4096 < 256" "240 + c div 262144 < 256"
    using c by auto
  with False show ?thesis by (simp add: utf8_char_def m b)
qed (simp add: utf8_char_def)

lemma takeWhile_utf8:
  assumes "list_all is_scalar cs" and "\<And>b. 128 \<le> byte_of b \<Longrightarrow> P b" and "\<And>b. byte_of b < 128 \<Longrightarrow> Q (byte_of b) = P b"
    and "\<And>c. 128 \<le> c \<Longrightarrow> Q c"
  shows "takeWhile P (utf8 cs) = utf8 (takeWhile Q cs)"
  using assms(1)
proof (induction cs)
  case (Cons c cs)
  have tw: "takeWhile P (xs @ ys) = xs @ takeWhile P ys" if "list_all P xs" for xs ys
    using that by (induction xs) auto
  from Cons.prems utf8_char_bytes [of c] consider
      "c < 128" "utf8_char c = [char_of c]" | "128 \<le> c" "list_all (\<lambda>b. 128 \<le> byte_of b) (utf8_char c)"
    by auto
  then show ?case
  proof cases
    case 1
    then have "Q c = P (char_of c)" using assms(3) [of "char_of c"] by (simp add: byte_of_char)
    with 1 Cons show ?thesis by (simp add: utf8_def)
  next
    case 2
    then have "list_all P (utf8_char c)" using assms(2) by (auto simp: list_all_iff)
    with 2 Cons tw assms(4) show ?thesis by (simp add: utf8_def)
  qed
qed (simp add: utf8_def)

lemma ascii_utf8: "list_all (\<lambda>b. byte_of b < 128) s \<Longrightarrow> chars s = map byte_of s \<and> valid_str s"
proof (induction s)
  case (Cons b s)
  then show ?case by (auto simp: valid_str_def utf8_def utf8_char_def is_scalar_def byte_of_def)
qed (simp add: valid_str_def utf8_def)

lemma ascii_valid: "list_all (\<lambda>b. byte_of b < 128) s \<Longrightarrow> valid_str s"
  using ascii_utf8 by blast

text \<open>\<open>char::is_whitespace\<close> (the Unicode property) and \<open>str::trim\<close>.\<close>

definition is_whitespace :: "scalar \<Rightarrow> bool" where
  "is_whitespace c \<longleftrightarrow>
     (9 \<le> c \<and> c \<le> 13) \<or> c = 32 \<or> c = 0x85 \<or> c = 0xA0 \<or> c = 0x1680 \<or> (0x2000 \<le> c \<and> c \<le> 0x200A) \<or>
     c = 0x2028 \<or> c = 0x2029 \<or> c = 0x202F \<or> c = 0x205F \<or> c = 0x3000"

definition trim_str :: "str \<Rightarrow> str" where
  "trim_str s = utf8 (rev (dropWhile is_whitespace (rev (dropWhile is_whitespace (chars s)))))"

end
