(* ===== verification/Memory.thy ===== *)
theory Memory
  imports Util Utf8 Sorted_Map
begin

text \<open>
  The memory accounting of \<open>src/src/memory.rs\<close>: threads add up what they allocate and pass
  the total on in batches, so the shared count lags behind the truth by a bounded amount;
  and the sizes an operator writes.
\<close>

subsection \<open>The counters\<close>

text \<open>
  \<open>PENDING\<close> is one number per running thread; a thread being torn down has none and adds
  to the shared count directly. \<open>allocated\<close> is a ghost field: what was really allocated.
\<close>

record counters =
  in_use_total :: int
  pending :: "(nat, int) btree_map"
  allocated :: int

definition mem_batch :: int where
  "mem_batch = 32 * 1024"

definition count :: "nat \<Rightarrow> int \<Rightarrow> counters \<Rightarrow> counters" where
  "count thread bytes c =
     (let (passed, pend) =
        (case bm_get (pending c) thread of
           Some p \<Rightarrow>
             (let total = p + bytes
              in if \<bar>total\<bar> < mem_batch then (0, bm_insert thread total (pending c))
                 else (total, bm_insert thread 0 (pending c)))
         | None \<Rightarrow> (bytes, pending c))
      in c\<lparr>in_use_total := in_use_total c + passed, pending := pend,
           allocated := allocated c + bytes\<rparr>)"

definition flush :: "nat \<Rightarrow> counters \<Rightarrow> counters" where
  "flush thread c =
     (case bm_get (pending c) thread of
        Some p \<Rightarrow> c\<lparr>in_use_total := in_use_total c + p, pending := bm_insert thread 0 (pending c)\<rparr>
      | None \<Rightarrow> c)"

definition in_use :: "counters \<Rightarrow> nat" where
  "in_use c = nat (max 0 (in_use_total c))"

text \<open>What may happen: a thread starts, allocates or frees, flushes, or ends after a flush.\<close>

inductive mem_step :: "counters \<Rightarrow> counters \<Rightarrow> bool" where
  thread_start: "bm_get (pending c) t = None \<Longrightarrow> mem_step c (c\<lparr>pending := bm_insert t 0 (pending c)\<rparr>)"
| thread_count: "mem_step c (count t bytes c)"
| thread_flush: "mem_step c (flush t c)"
| thread_end: "mem_step c ((flush t c)\<lparr>pending := bm_remove t (pending c)\<rparr>)"

definition mem_start :: counters where
  "mem_start = \<lparr>in_use_total = 0, pending = bm_empty, allocated = 0\<rparr>"

definition pending_sum :: "counters \<Rightarrow> int" where
  "pending_sum c = sum_list (bm_values (pending c))"

definition counters_ok :: "counters \<Rightarrow> bool" where
  "counters_ok c \<longleftrightarrow>
     in_use_total c + pending_sum c = allocated c \<and>
     (\<forall>p \<in> set (bm_values (pending c)). \<bar>p\<bar> < mem_batch)"

lemma sum_al_insert:
  assumes "ssorted (map fst xs)"
  shows "sum_list (map snd (al_insert k v xs)) =
    sum_list (map snd xs) + v - (case map_of xs k of Some p \<Rightarrow> p | None \<Rightarrow> (0::int))"
  using assms
proof (induction k v xs rule: al_insert.induct)
  case (2 k v a b xs)
  have "map_of xs k = None" if "k < a"
    using 2(2) that by (force simp: map_of_eq_None_iff)
  moreover have "map_of xs a = None"
    using 2(2) by (force simp: map_of_eq_None_iff)
  ultimately show ?case using 2 by auto
qed simp

lemma sum_bm_insert:
  "sum_list (bm_values (bm_insert k v m)) =
    sum_list (bm_values m) + v - (case bm_get m k of Some p \<Rightarrow> p | None \<Rightarrow> (0::int))"
  by (simp add: bm_values_def bm_get_def bm_insert.rep_eq sum_al_insert)

lemma sum_filter_key:
  "distinct (map fst xs) \<Longrightarrow>
   sum_list (map snd (filter (\<lambda>(a, b). a \<noteq> k) xs)) =
    sum_list (map snd xs) - (case map_of xs k of Some p \<Rightarrow> p | None \<Rightarrow> (0::int))"
proof (induction xs)
  case (Cons x xs)
  obtain a b where x: "x = (a, b)" by fastforce
  have "map_of xs a = None" using Cons.prems x by (simp add: map_of_eq_None_iff)
  with Cons x show ?case by auto
qed simp

lemma sum_bm_remove:
  "sum_list (bm_values (bm_remove k m)) =
    sum_list (bm_values m) - (case bm_get m k of Some p \<Rightarrow> p | None \<Rightarrow> (0::int))"
  by (simp add: bm_values_def bm_get_def bm_remove_def bm_filter.rep_eq sum_filter_key)

lemma count_ok: "counters_ok c \<Longrightarrow> counters_ok (count t bytes c)"
  by (auto simp: counters_ok_def count_def pending_sum_def sum_bm_insert Let_def mem_batch_def
      split: option.splits if_splits)

lemma flush_ok: "counters_ok c \<Longrightarrow> counters_ok (flush t c)"
  by (auto simp: counters_ok_def flush_def pending_sum_def sum_bm_insert mem_batch_def
      split: option.splits if_splits)

lemma end_ok: "counters_ok c \<Longrightarrow> counters_ok ((flush t c)\<lparr>pending := bm_remove t (pending c)\<rparr>)"
  by (auto simp: counters_ok_def flush_def pending_sum_def sum_bm_remove
      split: option.splits if_splits)

lemma mem_step_ok: "mem_step c d \<Longrightarrow> counters_ok c \<Longrightarrow> counters_ok d"
proof (induction rule: mem_step.induct)
  case (thread_start c t)
  then show ?case
    by (auto simp: counters_ok_def pending_sum_def sum_bm_insert mem_batch_def split: if_splits)
qed (simp_all add: count_ok flush_ok end_ok)

lemma mem_reachable_ok: "mem_step\<^sup>*\<^sup>* mem_start c \<Longrightarrow> counters_ok c"
proof (induction rule: rtranclp_induct)
  case base
  then show ?case by (simp add: counters_ok_def mem_start_def pending_sum_def bm_values_def bm_empty.rep_eq)
next
  case (step c d)
  then show ?case by (blast intro: mem_step_ok)
qed

lemma sum_list_abs_bound:
  "(\<forall>p \<in> set ps. \<bar>p\<bar> \<le> (b::int)) \<Longrightarrow> \<bar>sum_list ps\<bar> \<le> b * int (length ps)"
  by (induction ps) (force simp: algebra_simps)+

lemma pending_bound: "counters_ok c \<Longrightarrow> \<bar>pending_sum c\<bar> \<le> mem_batch * int (bm_len (pending c))"
  unfolding pending_sum_def
  using sum_list_abs_bound [of "bm_values (pending c)" mem_batch]
  by (force simp: counters_ok_def bm_values_def bm_len_def)



subsection \<open>Sizes\<close>

definition size_scale :: "str \<Rightarrow> nat option" where
  "size_scale unit =
     (if unit \<in> {'''', ''b''} then Some 1
      else if unit \<in> {''k'', ''kb'', ''kib''} then Some (2 ^ 10)
      else if unit \<in> {''m'', ''mb'', ''mib''} then Some (2 ^ 20)
      else if unit \<in> {''g'', ''gb'', ''gib''} then Some (2 ^ 30)
      else None)"

text \<open>\<open>usize\<close> is 64 bits wide; \<open>checked_mul\<close> refuses a product that does not fit.\<close>

definition parse_size :: "str \<Rightarrow> nat option" where
  "parse_size text =
     (let text = to_ascii_lowercase (trim_str text);
          number = takeWhile is_ascii_digit text;
          unit = dropWhile is_ascii_digit text
      in case size_scale (trim_str unit) of
           None \<Rightarrow> None
         | Some scale \<Rightarrow>
             (case parse_u64 number of
                None \<Rightarrow> None
              | Some n \<Rightarrow> if unat n * scale < 2 ^ 64 then Some (unat n * scale) else None))"

definition default_limit :: "nat option \<Rightarrow> nat" where
  "default_limit container =
     (case container of
        Some limit \<Rightarrow> if limit div 4 * 3 < 2 ^ 30 then limit div 4 * 3 else 2 ^ 30
      | None \<Rightarrow> 2 ^ 30)"

end
