(* ===== verification/Glob.thy ===== *)
theory Glob
  imports Utf8
begin

text \<open>
  Glob patterns (\<open>src/src/glob.rs\<close>): the parser of a pattern into atoms, the shortcuts
  \<open>classify\<close> picks, and the automaton that keeps one bit per state in 64-bit words. The
  specification is the language of an atom sequence; the routine that runs is shown to
  decide it.

  A \<open>char\<close> is its scalar value. A text is decoded by \<open>chars\<close>; comparing two valid UTF-8
  strings for equality, prefix, suffix or containment is comparing their characters, which
  is how the literal kinds are stated.
\<close>

abbreviation (input) c_star :: scalar where "c_star \<equiv> 42"
abbreviation (input) c_query :: scalar where "c_query \<equiv> 63"
abbreviation (input) c_open :: scalar where "c_open \<equiv> 91"
abbreviation (input) c_escape :: scalar where "c_escape \<equiv> 92"
abbreviation (input) c_close :: scalar where "c_close \<equiv> 93"
abbreviation (input) c_caret :: scalar where "c_caret \<equiv> 94"
abbreviation (input) c_minus :: scalar where "c_minus \<equiv> 45"

subsection \<open>Atoms and the parser\<close>

datatype atom = Star | One | Char scalar | Set bool "(scalar \<times> scalar) list"

fun atom_accepts :: "atom \<Rightarrow> scalar \<Rightarrow> bool" where
  "atom_accepts Star c = True"
| "atom_accepts One c = True"
| "atom_accepts (Char x) c = (x = c)"
| "atom_accepts (Set neg rs) c = (list_ex (\<lambda>(lo, hi). lo \<le> c \<and> c \<le> hi) rs \<noteq> neg)"

text \<open>
  The body of a class, after the opening bracket and the optional caret: the ranges and
  what follows the closing bracket. \<open>escape_lo\<close> reads one character, taking a backslash
  that is not the pattern's last character as an escape.
\<close>

definition escape_lo :: "scalar list \<Rightarrow> scalar list" where
  "escape_lo p = (case p of c # d # r \<Rightarrow> if c = c_escape then d # r else p | _ \<Rightarrow> p)"

definition ordered :: "scalar \<Rightarrow> scalar \<Rightarrow> scalar \<times> scalar" where
  "ordered lo hi = (if lo \<le> hi then (lo, hi) else (hi, lo))"

definition class_item :: "scalar list \<Rightarrow> ((scalar \<times> scalar) \<times> scalar list) option" where
  "class_item p =
     (case escape_lo p of
        lo # d # hi # t \<Rightarrow>
          if d = c_minus \<and> hi \<noteq> c_close then Some (ordered lo hi, t)
          else Some ((lo, lo), d # hi # t)
      | lo # s \<Rightarrow> Some ((lo, lo), s)
      | [] \<Rightarrow> None)"

lemma escape_lo_length: "length (escape_lo p) \<le> length p"
  by (auto simp: escape_lo_def split: list.splits)

lemma class_item_length: "class_item p = Some (rg, t) \<Longrightarrow> length t < length p"
  using escape_lo_length [of p] by (auto simp: class_item_def split: list.splits if_splits)

function class_ranges :: "bool \<Rightarrow> scalar list \<Rightarrow> ((scalar \<times> scalar) list \<times> scalar list) option" where
  "class_ranges first [] = None"
| "class_ranges first (c # r) =
     (if c = c_close \<and> \<not> first then Some ([], r)
      else
        (case class_item (c # r) of
           None \<Rightarrow> None
         | Some (rg, s) \<Rightarrow> map_option (\<lambda>(rs, t). (rg # rs, t)) (class_ranges False s)))"
  by pat_completeness auto

termination
  by (relation "measure (\<lambda>(f, p). length p)") (auto dest: class_item_length)

definition glob_class :: "scalar list \<Rightarrow> (atom \<times> scalar list) option" where
  "glob_class p =
     (let neg = (case p of c # _ \<Rightarrow> c = c_caret | [] \<Rightarrow> False)
      in map_option (\<lambda>(rs, t). (Set neg rs, t)) (class_ranges True (if neg then tl p else p)))"

lemma class_ranges_length: "class_ranges f p = Some (rs, t) \<Longrightarrow> length t < length p"
proof (induction f p arbitrary: rs t rule: class_ranges.induct)
  case (2 first c r)
  show ?case
  proof (cases "c = c_close \<and> \<not> first")
    case True
    with 2(2) show ?thesis by simp
  next
    case False
    with 2(2) obtain rg s where s: "class_item (c # r) = Some (rg, s)"
      by (simp split: option.splits) auto
    with 2(2) False obtain us where "class_ranges False s = Some (us, t)"
      by auto
    from 2(1) [OF False s refl this] class_item_length [OF s] show ?thesis by simp
  qed
qed simp

lemma glob_class_length: "glob_class p = Some (a, t) \<Longrightarrow> length t < length p"
  by (auto simp: glob_class_def Let_def simp del: class_ranges.simps dest!: class_ranges_length
      split: list.splits if_splits)

text \<open>The loop over the pattern; \<open>prev\<close> is the last atom pushed.\<close>

function atoms_from :: "atom option \<Rightarrow> scalar list \<Rightarrow> atom list option" where
  "atoms_from prev [] = Some []"
| "atoms_from prev (c # r) =
     (if c = c_star then
        (if prev = Some Star then atoms_from prev r
         else map_option ((#) Star) (atoms_from (Some Star) r))
      else if c = c_query then map_option ((#) One) (atoms_from (Some One) r)
      else if c = c_open then
        (case glob_class r of
           None \<Rightarrow> None
         | Some (a, t) \<Rightarrow> map_option ((#) a) (atoms_from (Some a) t))
      else if c = c_escape \<and> r \<noteq> [] then
        map_option ((#) (Char (hd r))) (atoms_from (Some (Char (hd r))) (tl r))
      else map_option ((#) (Char c)) (atoms_from (Some (Char c)) r))"
  by pat_completeness auto

termination
  by (relation "measure (\<lambda>(f, p). length p)") (auto dest: glob_class_length)

definition glob_atoms :: "str \<Rightarrow> atom list option" where
  "glob_atoms pattern = atoms_from None (chars pattern)"

subsection \<open>The language of a pattern\<close>

fun atom_lang :: "atom \<Rightarrow> scalar list set" where
  "atom_lang Star = UNIV"
| "atom_lang a = {[c] | c. atom_accepts a c}"

fun glob_lang :: "atom list \<Rightarrow> scalar list set" where
  "glob_lang [] = {[]}"
| "glob_lang (a # as) = {u @ v | u v. u \<in> atom_lang a \<and> v \<in> glob_lang as}"

text \<open>The same language as a backtracking matcher, which computes.\<close>

fun glob_match :: "atom list \<Rightarrow> scalar list \<Rightarrow> bool" where
  "glob_match [] t = (t = [])"
| "glob_match (Star # as) t =
     (glob_match as t \<or> (case t of [] \<Rightarrow> False | _ # t' \<Rightarrow> glob_match (Star # as) t'))"
| "glob_match (a # as) t = (case t of [] \<Rightarrow> False | c # t' \<Rightarrow> atom_accepts a c \<and> glob_match as t')"

lemma glob_lang_append: "glob_lang (as @ bs) = {u @ v | u v. u \<in> glob_lang as \<and> v \<in> glob_lang bs}"
proof (induction as)
  case (Cons a as)
  then show ?case by auto (metis append.assoc)+
qed simp

lemma atom_lang_single: "a \<noteq> Star \<Longrightarrow> atom_lang a = {[c] | c. atom_accepts a c}"
  by (cases a) simp_all

lemma lang_star: "t \<in> glob_lang (Star # as) \<longleftrightarrow> t \<in> glob_lang as \<or> (\<exists>c t'. t = c # t' \<and> t' \<in> glob_lang (Star # as))"
proof
  assume "t \<in> glob_lang (Star # as)"
  then obtain u v where "t = u @ v" "v \<in> glob_lang as" by auto
  then show "t \<in> glob_lang as \<or> (\<exists>c t'. t = c # t' \<and> t' \<in> glob_lang (Star # as))"
    by (cases u) auto
next
  assume "t \<in> glob_lang as \<or> (\<exists>c t'. t = c # t' \<and> t' \<in> glob_lang (Star # as))"
  then show "t \<in> glob_lang (Star # as)"
    by simp (metis append_Cons append_Nil)
qed

lemma lang_single:
  assumes "a \<noteq> Star"
  shows "t \<in> glob_lang (a # as) \<longleftrightarrow> (\<exists>c t'. t = c # t' \<and> atom_accepts a c \<and> t' \<in> glob_lang as)"
proof
  assume "\<exists>c t'. t = c # t' \<and> atom_accepts a c \<and> t' \<in> glob_lang as"
  then obtain c t' where t: "t = [c] @ t'" and "atom_accepts a c" "t' \<in> glob_lang as" by auto
  then have "[c] \<in> atom_lang a" using assms by (simp add: atom_lang_single)
  with t \<open>t' \<in> glob_lang as\<close> show "t \<in> glob_lang (a # as)"
    unfolding glob_lang.simps by blast
qed (use assms in \<open>auto simp: atom_lang_single\<close>)

lemma glob_match_iff: "glob_match as t \<longleftrightarrow> t \<in> glob_lang as"
proof (induction as t rule: glob_match.induct)
  case (2 as t)
  then show ?case unfolding lang_star [of t] by (cases t) auto
qed (auto simp: lang_single simp del: glob_lang.simps(2) split: list.splits)

text \<open>Reading a text from its end: the last atom against the last character.\<close>

lemma lang_snoc_nil: "a \<noteq> Star \<Longrightarrow> [] \<notin> glob_lang (as @ [a])"
  by (simp add: glob_lang_append atom_lang_single)

lemma lang_snoc:
  "a \<noteq> Star \<Longrightarrow> t @ [c] \<in> glob_lang (as @ [a]) \<longleftrightarrow> atom_accepts a c \<and> t \<in> glob_lang as"
  by (auto simp: glob_lang_append atom_lang_single)

lemma lang_star_snoc_nil: "[] \<in> glob_lang (as @ [Star]) \<longleftrightarrow> [] \<in> glob_lang as"
  by (simp add: glob_lang_append)

lemma lang_star_snoc:
  "t @ [c] \<in> glob_lang (as @ [Star]) \<longleftrightarrow> t @ [c] \<in> glob_lang as \<or> t \<in> glob_lang (as @ [Star])"
proof
  assume "t @ [c] \<in> glob_lang (as @ [Star])"
  then obtain u v where *: "t @ [c] = u @ v" "u \<in> glob_lang as" by (auto simp: glob_lang_append)
  then show "t @ [c] \<in> glob_lang as \<or> t \<in> glob_lang (as @ [Star])"
    by (cases v rule: rev_cases) (auto simp: glob_lang_append)
next
  assume "t @ [c] \<in> glob_lang as \<or> t \<in> glob_lang (as @ [Star])"
  then show "t @ [c] \<in> glob_lang (as @ [Star])"
    by (auto simp: glob_lang_append) (metis append.assoc)
qed

subsection \<open>Bit sets in words\<close>

definition wbit :: "u64 list \<Rightarrow> nat \<Rightarrow> bool" where
  "wbit ws i \<longleftrightarrow> i div 64 < length ws \<and> bit (ws ! (i div 64)) (i mod 64)"

definition set_wbit :: "nat \<Rightarrow> nat \<Rightarrow> u64 list \<Rightarrow> u64 list" where
  "set_wbit j b ws = ws[j := ws ! j OR push_bit b 1]"

lemma length_set_wbit [simp]: "length (set_wbit j b ws) = length ws"
  by (simp add: set_wbit_def)

lemma bit_push1: "bit (push_bit b 1 :: u64) n \<longleftrightarrow> n = b \<and> b < 64"
  unfolding bit_push_bit_iff by (auto simp: possible_bit_def bit_1_iff)

lemma wbit_set_wbit:
  assumes "b < 64"
  shows "wbit (set_wbit j b ws) i \<longleftrightarrow> wbit ws i \<or> (i = 64 * j + b \<and> j < length ws)"
proof -
  have "i = 64 * j + b \<longleftrightarrow> j = i div 64 \<and> b = i mod 64"
    using assms by auto
  then show ?thesis
    using assms by (cases "j = i div 64") (auto simp: wbit_def set_wbit_def nth_list_update bit_or_iff bit_push1 simp del: push_bit_of_1)
qed

lemma wbit_replicate [simp]: "\<not> wbit (replicate n 0) i"
  by (simp add: wbit_def)

lemma wbit_map2:
  assumes "length xs = length ys"
  shows "wbit (map2 (AND) xs ys) i \<longleftrightarrow> wbit xs i \<and> wbit ys i"
    and "wbit (map2 (OR) xs ys) i \<longleftrightarrow> wbit xs i \<or> wbit ys i"
  using assms by (auto simp: wbit_def bit_simps)

lemma wbit_slice: "wbit (take w (drop j ws)) i \<longleftrightarrow> i < 64 * w \<and> wbit ws (64 * j + i)"
  by (auto simp: wbit_def less_mult_imp_div_less div_less_iff_less_mult mult.commute)

lemma wbit_Cons: "wbit (x # xs) i \<longleftrightarrow> (if i < 64 then bit x i else wbit xs (i - 64))"
  by (auto simp: wbit_def nth_Cons' div_if mod_if)

lemma wbit_Nil [simp]: "\<not> wbit [] i"
  by (simp add: wbit_def)

text \<open>One position to the left across the words, with a carry between them.\<close>

fun shift_words :: "u64 \<Rightarrow> u64 list \<Rightarrow> u64 list" where
  "shift_words carry [] = []"
| "shift_words carry (x # xs) = (push_bit 1 x OR carry) # shift_words (drop_bit 63 x) xs"

lemma length_shift_words [simp]: "length (shift_words carry xs) = length xs"
  by (induction carry xs rule: shift_words.induct) simp_all

lemma bit_carry: "bit (drop_bit 63 x :: u64) n \<longleftrightarrow> n = 0 \<and> bit x 63"
proof -
  have "\<not> bit x (63 + n)" if "n \<noteq> 0"
    using that by (auto dest: bit_imp_le_length)
  then show ?thesis unfolding bit_drop_bit_eq comp_def by (cases n) auto
qed

lemma bit_shift_carry:
  "(\<And>n. bit carry n \<Longrightarrow> n = 0) \<Longrightarrow> i < 64 \<Longrightarrow>
   bit (push_bit 1 x OR carry :: u64) i \<longleftrightarrow> (if i = 0 then bit carry 0 else bit x (i - 1))"
  unfolding bit_or_iff bit_push_bit_iff by (cases i) (auto simp: possible_bit_def)

lemma wbit_shift_words:
  assumes "\<And>n. bit carry n \<Longrightarrow> n = 0" and "i < 64 * length xs"
  shows "wbit (shift_words carry xs) i \<longleftrightarrow> (if i = 0 then bit carry 0 else wbit xs (i - 1))"
  using assms
proof (induction carry xs arbitrary: i rule: shift_words.induct)
  case (2 carry x xs)
  show ?case
  proof (cases "i < 64")
    case True
    then show ?thesis using bit_shift_carry [OF 2(2) True] by (auto simp: wbit_Cons)
  next
    case False
    then have "i - 64 < 64 * length xs" using 2(3) by simp
    from 2(1) [OF _ this] False show ?thesis
      by (auto simp: wbit_Cons bit_carry)
  qed
qed simp


subsection \<open>The automaton\<close>

record automaton =
  auto_atoms :: "atom list"
  auto_words :: nat
  auto_stars :: "u64 list"
  auto_ascii :: "u64 list"

text \<open>\<open>Automaton::new\<close>: the two tables, filled atom by atom.\<close>

definition table_step :: "nat \<Rightarrow> nat \<times> atom \<Rightarrow> u64 list \<times> u64 list \<Rightarrow> u64 list \<times> u64 list" where
  "table_step w = (\<lambda>(i, a) (stars, ascii).
     if a = Star then (set_wbit (i div 64) (i mod 64) stars, ascii)
     else (stars,
       fold (\<lambda>c t. if atom_accepts a c then set_wbit (c * w + i div 64) (i mod 64) t else t) [0..<128] ascii))"

definition automaton_new :: "atom list \<Rightarrow> automaton" where
  "automaton_new as =
     (let w = length as div 64 + 1;
          (stars, ascii) = fold (table_step w) (enumerate 0 as) (replicate w 0, replicate (128 * w) 0)
      in \<lparr>auto_atoms = as, auto_words = w, auto_stars = stars, auto_ascii = ascii\<rparr>)"

definition close_states :: "automaton \<Rightarrow> u64 list \<Rightarrow> u64 list" where
  "close_states A state =
     map2 (OR) state (shift_words 0 (map2 (AND) state (auto_stars A)))"

text \<open>The words an input character is accepted by: a slice of the table, or a mask built for it.\<close>

definition accept_words :: "automaton \<Rightarrow> scalar \<Rightarrow> u64 list" where
  "accept_words A c =
     (let w = auto_words A
      in if c < 128 then take w (drop (c * w) (auto_ascii A))
         else fold (\<lambda>(i, a) mask. if a \<noteq> Star \<and> atom_accepts a c then set_wbit (i div 64) (i mod 64) mask else mask)
           (enumerate 0 (auto_atoms A)) (replicate w 0))"

text \<open>One pass over the words: the next states and whether any of them is live.\<close>

fun advance :: "u64 \<Rightarrow> u64 list \<Rightarrow> u64 list \<Rightarrow> u64 list \<Rightarrow> u64 list \<times> u64" where
  "advance carry (s # state) (a # accepts) (t # stars) =
     (let advanced = s AND a;
          next = (push_bit 1 advanced OR carry) OR (s AND t);
          (rest, live) = advance (drop_bit 63 advanced) state accepts stars
      in (next # rest, next OR live))"
| "advance carry _ _ _ = ([], 0)"

fun automaton_run :: "automaton \<Rightarrow> u64 list \<Rightarrow> scalar list \<Rightarrow> bool" where
  "automaton_run A state [] =
     (let end = length (auto_atoms A) in bit (state ! (end div 64)) (end mod 64))"
| "automaton_run A state (c # text) =
     (let (next, live) = advance 0 state (accept_words A c) (auto_stars A)
      in if live = 0 then False else automaton_run A (close_states A next) text)"

definition automaton_matches :: "automaton \<Rightarrow> scalar list \<Rightarrow> bool" where
  "automaton_matches A text =
     automaton_run A (close_states A (1 # replicate (auto_words A - 1) 0)) text"

text \<open>What the tables hold.\<close>

lemma length_fold_set [simp]:
  "length (fold (\<lambda>c t. if P c then set_wbit (f c) b t else t) cs t) = length t"
  by (induction cs arbitrary: t) auto

lemma length_table_step [simp]:
  "length (fst (table_step w p t)) = length (fst t)" "length (snd (table_step w p t)) = length (snd t)"
  by (cases p; cases t; simp add: table_step_def)+

lemma wbit_fold_set:
  assumes "b < 64"
  shows "wbit (fold (\<lambda>c t. if P c then set_wbit (f c) b t else t) cs t) i \<longleftrightarrow>
    wbit t i \<or> (\<exists>c \<in> set cs. P c \<and> i = 64 * f c + b \<and> f c < length t)"
  using assms by (induction cs arbitrary: t) (auto simp: wbit_set_wbit)

lemma wbit_mask:
  "wbit (fold (\<lambda>(i, a) mask. if P a then set_wbit (i div 64) (i mod 64) mask else mask) xs t) i \<longleftrightarrow>
    wbit t i \<or> (\<exists>a. (i, a) \<in> set xs \<and> P a \<and> i div 64 < length t)"
  by (induction xs arbitrary: t) (auto simp: wbit_set_wbit split: if_splits)

lemma length_fold_table [simp]:
  "length (fst (fold (table_step w) xs t)) = length (fst t)"
  "length (snd (fold (table_step w) xs t)) = length (snd t)"
  by (induction xs arbitrary: t) simp_all

lemma wbit_stars_fold:
  "wbit (fst (fold (table_step w) xs t)) i \<longleftrightarrow>
    wbit (fst t) i \<or> ((i, Star) \<in> set xs \<and> i div 64 < length (fst t))"
proof (induction xs arbitrary: t)
  case (Cons x xs)
  have "wbit (fst (table_step w x t)) i \<longleftrightarrow> wbit (fst t) i \<or> (x = (i, Star) \<and> i div 64 < length (fst t))"
    by (cases x; cases t) (auto simp: table_step_def wbit_set_wbit)
  with Cons show ?case by auto
qed simp

lemma wbit_ascii_step:
  assumes "c < 128" "i < 64 * w" "\<forall>j a. x = (j, a) \<longrightarrow> j < 64 * w" "length (snd t) = 128 * w"
  shows "wbit (snd (table_step w x t)) (64 * (c * w) + i) \<longleftrightarrow>
    wbit (snd t) (64 * (c * w) + i) \<or> (\<exists>a. x = (i, a) \<and> a \<noteq> Star \<and> atom_accepts a c)"
proof -
  obtain j a where x: "x = (j, a)" by fastforce
  obtain st as where t: "t = (st, as)" by fastforce
  have j: "j < 64 * w" and len: "length as = 128 * w" using assms x t by simp_all
  have uniq: "64 * (c * w) + i = j + 64 * (d * w) \<longleftrightarrow> c = d \<and> i = j" for d
  proof
    assume eq: "64 * (c * w) + i = j + 64 * (d * w)"
    have "(64 * w * c + i) div (64 * w) = c" "(64 * w * d + j) div (64 * w) = d"
      using assms(2) j by simp_all
    moreover have "64 * w * c + i = 64 * w * d + j" using eq by (simp add: algebra_simps)
    ultimately show "c = d \<and> i = j" by simp
  qed simp
  have "d * w + j div 64 < 128 * w" if "d < 128" for d
  proof -
    have "j div 64 < w" using j by (simp add: less_mult_imp_div_less mult.commute)
    moreover have "d * w + w \<le> 128 * w" using mult_le_mono1 [of "Suc d" 128 w] that by simp
    ultimately show ?thesis by linarith
  qed
  then show ?thesis
    using assms(1) by (auto simp: x t table_step_def wbit_fold_set len uniq)
qed

lemma wbit_ascii_fold:
  assumes "c < 128" "i < 64 * w" "\<forall>(j, a) \<in> set xs. j < 64 * w" "length (snd t) = 128 * w"
  shows "wbit (snd (fold (table_step w) xs t)) (64 * (c * w) + i) \<longleftrightarrow>
    wbit (snd t) (64 * (c * w) + i) \<or> (\<exists>a. (i, a) \<in> set xs \<and> a \<noteq> Star \<and> atom_accepts a c)"
  using assms(3,4)
proof (induction xs arbitrary: t)
  case (Cons x xs)
  then have "wbit (snd (table_step w x t)) (64 * (c * w) + i) \<longleftrightarrow>
    wbit (snd t) (64 * (c * w) + i) \<or> (\<exists>a. x = (i, a) \<and> a \<noteq> Star \<and> atom_accepts a c)"
    using assms(1,2) by (intro wbit_ascii_step) auto
  with Cons show ?case by auto
qed simp

lemma in_enumerate: "(i, a) \<in> set (enumerate 0 as) \<longleftrightarrow> i < length as \<and> as ! i = a"
  by (auto simp: in_set_enumerate_eq)

lemma automaton_new_sel [simp]:
  "auto_atoms (automaton_new as) = as" "auto_words (automaton_new as) = length as div 64 + 1"
  "length (auto_stars (automaton_new as)) = length as div 64 + 1"
  by (simp_all add: automaton_new_def Let_def case_prod_beta)

lemma word_index: "i \<le> (n::nat) \<Longrightarrow> i < 64 * (n div 64 + 1)"
  by (rule le_less_trans, assumption) (simp add: dividend_less_times_div)

lemma word_index_div: "i \<le> (n::nat) \<Longrightarrow> i div 64 < n div 64 + 1"
  by (simp add: div_le_mono less_Suc_eq_le)

lemma wbit_stars: "wbit (auto_stars (automaton_new as)) i \<longleftrightarrow> i < length as \<and> as ! i = Star"
  by (auto simp: automaton_new_def Let_def case_prod_beta wbit_stars_fold in_enumerate word_index_div
      simp del: replicate.simps)

lemma wbit_accept_words:
  assumes "i \<le> length as"
  shows "wbit (accept_words (automaton_new as) c) i \<longleftrightarrow>
    i < length as \<and> as ! i \<noteq> Star \<and> atom_accepts (as ! i) c"
proof -
  let ?w = "length as div 64 + 1"
  have i: "i < 64 * ?w" using assms by (rule word_index)
  show ?thesis
  proof (cases "c < 128")
    case True
    have "wbit (auto_ascii (automaton_new as)) (64 * (c * ?w) + i) \<longleftrightarrow>
        i < length as \<and> as ! i \<noteq> Star \<and> atom_accepts (as ! i) c"
      unfolding automaton_new_def Let_def case_prod_beta automaton.simps
      using True i
      by (subst wbit_ascii_fold) (auto simp: in_enumerate word_index simp del: replicate.simps)
    with True i show ?thesis by (simp add: accept_words_def wbit_slice del: replicate.simps)
  next
    case False
    then show ?thesis
      using assms by (auto simp: accept_words_def wbit_mask [where P = "\<lambda>a. a \<noteq> Star \<and> atom_accepts a c"]
          in_enumerate word_index_div simp del: replicate.simps)
  qed
qed

lemma wbit_shift_words0:
  "i < 64 * length xs \<Longrightarrow> wbit (shift_words 0 xs) i \<longleftrightarrow> 0 < i \<and> wbit xs (i - 1)"
  using wbit_shift_words [of 0 i xs] by simp

lemma advance_words:
  assumes "length accepts = length state" "length stars = length state"
  shows "fst (advance carry state accepts stars) =
      map2 (OR) (shift_words carry (map2 (AND) state accepts)) (map2 (AND) state stars)"
    and "snd (advance carry state accepts stars) = 0 \<longleftrightarrow>
      (\<forall>x \<in> set (fst (advance carry state accepts stars)). x = 0)"
proof -
  have "length state = length accepts" "length accepts = length stars" using assms by simp_all
  then have "fst (advance carry state accepts stars) =
      map2 (OR) (shift_words carry (map2 (AND) state accepts)) (map2 (AND) state stars) \<and>
    (snd (advance carry state accepts stars) = 0 \<longleftrightarrow>
      (\<forall>x \<in> set (fst (advance carry state accepts stars)). x = 0))"
  proof (induction state accepts stars arbitrary: carry rule: list_induct3)
    case (Cons s state a accepts t stars)
    obtain rest live where r: "advance (drop_bit 63 (s AND a)) state accepts stars = (rest, live)"
      by fastforce
    from Cons.IH [of "drop_bit 63 (s AND a)"] show ?case
      by (simp add: r Let_def or_eq_0 del: push_bit_and drop_bit_and)
  qed simp
  then show "fst (advance carry state accepts stars) =
      map2 (OR) (shift_words carry (map2 (AND) state accepts)) (map2 (AND) state stars)"
    and "snd (advance carry state accepts stars) = 0 \<longleftrightarrow>
      (\<forall>x \<in> set (fst (advance carry state accepts stars)). x = 0)"
    by simp_all
qed

lemma wbit_zeros: "\<forall>x \<in> set ws. x = 0 \<Longrightarrow> \<not> wbit ws i"
  unfolding wbit_def using nth_mem [of "i div 64" ws] by (metis bit_0_eq bot_apply bot_bool_def)

lemma wbit_advance:
  assumes "length accepts = length state" "length stars = length state" "i < 64 * length state"
  shows "wbit (fst (advance 0 state accepts stars)) i \<longleftrightarrow>
    (i > 0 \<and> wbit state (i - 1) \<and> wbit accepts (i - 1)) \<or> (wbit state i \<and> wbit stars i)"
  using assms by (simp add: advance_words wbit_map2 wbit_shift_words0)

lemma wbit_close:
  assumes "length (auto_stars A) = length state" "i < 64 * length state"
  shows "wbit (close_states A state) i \<longleftrightarrow>
    wbit state i \<or> (i > 0 \<and> wbit state (i - 1) \<and> wbit (auto_stars A) (i - 1))"
  using assms by (simp add: close_states_def wbit_map2 wbit_shift_words0)

lemma length_accept_words [simp]:
  "length (accept_words (automaton_new as) c) = length as div 64 + 1"
proof -
  have f: "length (fold (\<lambda>(i, a) mask. if P a then set_wbit (i div 64) (i mod 64) mask else mask) xs t) = length t"
    for P :: "atom \<Rightarrow> bool" and xs t
    by (induction xs arbitrary: t) auto
  have "length (auto_ascii (automaton_new as)) = 128 * (length as div 64 + 1)"
    by (simp add: automaton_new_def Let_def case_prod_beta)
  moreover have n: "w \<le> 128 * w - c * w" if "c < 128" for w
    using mult_le_mono1 [of 1 "128 - c" w] that by (simp add: diff_mult_distrib)
  ultimately show ?thesis
    using f [of "\<lambda>a. a \<noteq> Star \<and> atom_accepts a c"] n [of "length as div 64 + 1"]
    by (cases "c < 128") (simp_all add: accept_words_def Let_def)
qed

lemma length_close [simp]:
  "length (auto_stars A) = length state \<Longrightarrow> length (close_states A state) = length state"
  by (simp add: close_states_def)

lemma length_advance [simp]:
  "length accepts = length state \<Longrightarrow> length stars = length state \<Longrightarrow>
   length (fst (advance c state accepts stars)) = length state"
  by (simp add: advance_words)

subsection \<open>The states of the automaton\<close>

text \<open>
  State \<open>i\<close> is live after \<open>t\<close> when the first \<open>i\<close> atoms match \<open>t\<close>, the star that may
  follow them having eaten the rest. Runs of stars are merged, so no star follows another.
\<close>

fun no_double_star :: "atom list \<Rightarrow> bool" where
  "no_double_star [] = True"
| "no_double_star (a # as) =
     (\<not> (a = Star \<and> (case as of b # _ \<Rightarrow> b = Star | [] \<Rightarrow> False)) \<and> no_double_star as)"

definition live_after :: "atom list \<Rightarrow> scalar list \<Rightarrow> nat \<Rightarrow> bool" where
  "live_after as t i \<longleftrightarrow>
     t \<in> glob_lang (take i as @ (if i < length as \<and> as ! i = Star then [Star] else []))"

lemma no_double_star_nth:
  "no_double_star as \<Longrightarrow> Suc i < length as \<Longrightarrow> as ! i = Star \<Longrightarrow> as ! Suc i \<noteq> Star"
proof (induction as arbitrary: i)
  case (Cons a as)
  then show ?case by (cases i; cases as) auto
qed simp

lemma take_Suc_star:
  "i < length as \<Longrightarrow> take (Suc i) as = take i as @ [as ! i]"
  by (rule take_Suc_conv_app_nth)

lemma live_start:
  assumes nd: "no_double_star as" and i: "i \<le> length as"
  shows "live_after as [] i \<longleftrightarrow> i = 0 \<or> (i = 1 \<and> as ! 0 = Star)"
proof -
  have nil: "[] \<in> glob_lang (take j as) \<longleftrightarrow> j = 0 \<or> (j = 1 \<and> as ! 0 = Star)" if j: "j \<le> length as" for j
  proof (cases j)
    case (Suc k)
    then have t: "take j as = take k as @ [as ! k]" using j by (simp add: take_Suc_star)
    show ?thesis
    proof (cases "as ! k = Star")
      case True
      show ?thesis
      proof (cases k)
        case 0
        with True Suc show ?thesis unfolding t by (simp add: glob_lang_append)
      next
        case (Suc l)
        then have "as ! l \<noteq> Star" using no_double_star_nth [OF nd, of l] True j \<open>j = Suc k\<close> by auto
        moreover have "take k as = take l as @ [as ! l]" using j \<open>j = Suc k\<close> Suc by (simp add: take_Suc_star)
        ultimately have "[] \<notin> glob_lang (take k as)" by (simp add: lang_snoc_nil)
        then have "[] \<notin> glob_lang (take j as)" unfolding t using True by (simp add: lang_star_snoc_nil)
        then show ?thesis using Suc \<open>j = Suc k\<close> by simp
      qed
    next
      case False
      then have "[] \<notin> glob_lang (take j as)" unfolding t by (rule lang_snoc_nil)
      with False Suc show ?thesis by auto
    qed
  qed simp
  show ?thesis
    unfolding live_after_def using nil [OF i] i by (auto simp: glob_lang_append)
qed

lemma live_step:
  fixes t c
  assumes nd: "no_double_star as" and i: "i \<le> length as"
  defines "adv \<equiv> \<lambda>j. (j > 0 \<and> live_after as t (j - 1) \<and> as ! (j - 1) \<noteq> Star \<and> atom_accepts (as ! (j - 1)) c) \<or>
      (live_after as t j \<and> j < length as \<and> as ! j = Star)"
  shows "live_after as (t @ [c]) i \<longleftrightarrow> adv i \<or> (i > 0 \<and> adv (i - 1) \<and> as ! (i - 1) = Star)"
proof -
  have plain: "t @ [c] \<in> glob_lang (take j as) \<longleftrightarrow>
      j > 0 \<and> live_after as t (j - 1) \<and> atom_accepts (as ! (j - 1)) c"
    if j: "j \<le> length as" and ns: "j > 0 \<longrightarrow> as ! (j - 1) \<noteq> Star" for j
  proof (cases j)
    case (Suc k)
    with j ns have "take j as = take k as @ [as ! k]" "k < length as" "as ! k \<noteq> Star"
      by (simp_all add: take_Suc_star)
    then show ?thesis using Suc by (auto simp: lang_snoc live_after_def)
  qed simp
  have starred: "live_after as (t @ [c]) j \<longleftrightarrow> adv j" if j: "j < length as" and s: "as ! j = Star" for j
  proof -
    have ns: "j > 0 \<longrightarrow> as ! (j - 1) \<noteq> Star"
      using no_double_star_nth [OF nd, of "j - 1"] j s by (cases j) auto
    have "live_after as (t @ [c]) j \<longleftrightarrow> t @ [c] \<in> glob_lang (take j as) \<or> live_after as t j"
      using j s by (simp add: live_after_def lang_star_snoc)
    also have "\<dots> \<longleftrightarrow> adv j"
      using plain [OF _ ns] j s ns by (auto simp: adv_def)
    finally show ?thesis .
  qed
  show ?thesis
  proof (cases "i < length as \<and> as ! i = Star")
    case True
    then have "i > 0 \<longrightarrow> as ! (i - 1) \<noteq> Star"
      using no_double_star_nth [OF nd, of "i - 1"] by (cases i) auto
    then show ?thesis using True starred by blast
  next
    case False
    then have l: "live_after as (t @ [c]) i \<longleftrightarrow> t @ [c] \<in> glob_lang (take i as)"
      by (auto simp: live_after_def)
    show ?thesis
    proof (cases "i > 0 \<and> as ! (i - 1) = Star")
      case True
      then obtain k where k: "i = Suc k" "as ! k = Star" by (cases i) auto
      then have "live_after as (t @ [c]) i \<longleftrightarrow> live_after as (t @ [c]) k"
        using l i by (simp add: live_after_def take_Suc_star)
      also have "\<dots> \<longleftrightarrow> adv k" using starred k i by simp
      finally show ?thesis using k False by (auto simp: adv_def)
    next
      case ns: False
      then show ?thesis
        using l plain [OF i] False by (auto simp: adv_def)
    qed
  qed
qed

definition tracks :: "atom list \<Rightarrow> scalar list \<Rightarrow> u64 list \<Rightarrow> bool" where
  "tracks as t state \<longleftrightarrow> length state = length as div 64 + 1 \<and>
     (\<forall>i \<le> length as. wbit state i \<longleftrightarrow> live_after as t i)"

lemma wbit_accepting: 
  "length state = length as div 64 + 1 \<Longrightarrow>
   bit (state ! (length as div 64)) (length as mod 64) \<longleftrightarrow> wbit state (length as)"
  by (simp add: wbit_def)

lemma tracks_step:
  assumes nd: "no_double_star as" and tr: "tracks as t state"
  shows "tracks as (t @ [c]) (close_states (automaton_new as)
    (fst (advance 0 state (accept_words (automaton_new as) c) (auto_stars (automaton_new as)))))"
    (is "tracks as _ (close_states ?A ?next)")
proof -
  have len: "length state = length as div 64 + 1" using tr by (simp add: tracks_def)
  have nxt: "wbit ?next j \<longleftrightarrow>
      (j > 0 \<and> live_after as t (j - 1) \<and> as ! (j - 1) \<noteq> Star \<and> atom_accepts (as ! (j - 1)) c) \<or>
      (live_after as t j \<and> j < length as \<and> as ! j = Star)" if j: "j \<le> length as" for j
    using tr j word_index [OF j] len
    by (subst wbit_advance) (auto simp: tracks_def wbit_accept_words wbit_stars)
  have "wbit (close_states ?A ?next) i \<longleftrightarrow> live_after as (t @ [c]) i" if i: "i \<le> length as" for i
    unfolding live_step [OF nd i]
    using i word_index [OF i] len
    by (subst wbit_close) (auto simp: nxt wbit_stars)
  then show ?thesis using len by (simp add: tracks_def)
qed

lemma run_dead:
  assumes "no_double_star as" "tracks as t state" "\<forall>i \<le> length as. \<not> live_after as t i"
  shows "t @ s \<notin> glob_lang as"
  using assms(2,3)
proof (induction s arbitrary: t state)
  case Nil
  then show ?case by (auto simp: live_after_def)
next
  case (Cons c s)
  have "\<forall>i \<le> length as. \<not> live_after as (t @ [c]) i"
    using Cons.prems(2) by (auto simp: live_step [OF assms(1)])
  from Cons.IH [OF tracks_step [OF assms(1) Cons.prems(1)] this] show ?case by simp
qed

lemma automaton_run_correct:
  assumes nd: "no_double_star as" and "tracks as t state"
  shows "automaton_run (automaton_new as) state s \<longleftrightarrow> t @ s \<in> glob_lang as"
  using assms(2)
proof (induction s arbitrary: t state)
  case Nil
  then show ?case by (simp add: tracks_def wbit_accepting live_after_def)
next
  case (Cons c s)
  let ?A = "automaton_new as"
  obtain next' live where nl: "advance 0 state (accept_words ?A c) (auto_stars ?A) = (next', live)"
    by fastforce
  have len: "length state = length as div 64 + 1" using Cons.prems by (simp add: tracks_def)
  have tr: "tracks as (t @ [c]) (close_states ?A next')"
    using tracks_step [OF nd Cons.prems, of c] nl by simp
  show ?case
  proof (cases "live = 0")
    case True
    then have z: "\<forall>x \<in> set next'. x = 0"
      using advance_words(2) [of "accept_words ?A c" state "auto_stars ?A" 0] len nl by simp
    have "length next' = length as div 64 + 1"
      using length_advance [of "accept_words ?A c" state "auto_stars ?A" 0] len nl by simp
    then have "\<not> wbit (close_states ?A next') i" if "i \<le> length as" for i
      using wbit_zeros [OF z] word_index [OF that] by (subst wbit_close) auto
    then have "\<forall>i \<le> length as. \<not> live_after as (t @ [c]) i"
      using tr by (auto simp: tracks_def)
    from run_dead [OF nd tr this, of s] True nl show ?thesis by simp
  next
    case False
    then show ?thesis using Cons.IH [OF tr] nl by simp
  qed
qed

lemma automaton_correct:
  assumes "no_double_star as"
  shows "automaton_matches (automaton_new as) t \<longleftrightarrow> t \<in> glob_lang as"
proof -
  let ?s = "1 # replicate (length as div 64) 0 :: u64 list"
  have "wbit ?s i \<longleftrightarrow> i = 0" for i
    by (auto simp: wbit_Cons bit_1_iff)
  then have "tracks as [] (close_states (automaton_new as) ?s)"
    using assms word_index [of _ "length as"]
    by (auto simp: tracks_def live_start wbit_stars wbit_close)
  from automaton_run_correct [OF assms this] show ?thesis
    by (simp add: automaton_matches_def)
qed

lemma map_prod_case: "map_option (\<lambda>(rs, t). (f rs, t)) x = Some y \<longleftrightarrow> (\<exists>rs t. x = Some (rs, t) \<and> y = (f rs, t))"
  by (cases x) auto

lemma glob_class_Set: "glob_class p = Some (a, t) \<Longrightarrow> a \<noteq> Star"
  by (auto simp: glob_class_def Let_def map_prod_case simp del: class_ranges.simps split: if_splits)

lemma atoms_from_no_double:
  "atoms_from prev p = Some as \<Longrightarrow>
   no_double_star as \<and> (prev = Some Star \<longrightarrow> (case as of a # _ \<Rightarrow> a \<noteq> Star | [] \<Rightarrow> True))"
proof (induction prev p arbitrary: as rule: atoms_from.induct)
  case (2 prev c r)
  have push: "no_double_star as \<and> (prev = Some Star \<longrightarrow> (case as of a # _ \<Rightarrow> a \<noteq> Star | [] \<Rightarrow> True))"
    if "as = a # bs" "a = Star \<longrightarrow> prev \<noteq> Some Star"
      "no_double_star bs \<and> (Some a = Some Star \<longrightarrow> (case bs of a # _ \<Rightarrow> a \<noteq> Star | [] \<Rightarrow> True))" for a bs
    using that by (cases bs) auto
  consider "c = c_star" "prev = Some Star" | "c = c_star" "prev \<noteq> Some Star" | "c = c_query"
    | "c = c_open" | "c = c_escape" "r \<noteq> []"
    | "c \<noteq> c_star" "c \<noteq> c_query" "c \<noteq> c_open" "\<not> (c = c_escape \<and> r \<noteq> [])"
    by blast
  then show ?case
  proof cases
    case 1
    with 2 show ?thesis by simp
  next
    case c: 2
    with 2(7) obtain bs where "as = Star # bs" "atoms_from (Some Star) r = Some bs" by auto
    with push [of Star bs] 2(2) c show ?thesis by blast
  next
    case c: 3
    with 2(7) obtain bs where "as = One # bs" "atoms_from (Some One) r = Some bs" by auto
    with push [of One bs] 2(3) c show ?thesis by simp
  next
    case c: 4
    with 2(7) obtain a t where g: "glob_class r = Some (a, t)" by (auto split: option.splits)
    with 2(7) c obtain bs where "as = a # bs" "atoms_from (Some a) t = Some bs" by auto
    with push [of a bs] 2(4) [OF _ _ _ g refl] glob_class_Set [OF g] c show ?thesis by simp
  next
    case c: 5
    with 2(7) obtain bs where "as = Char (hd r) # bs" "atoms_from (Some (Char (hd r))) (tl r) = Some bs" by auto
    with push [of "Char (hd r)" bs] 2(5) c show ?thesis by simp
  next
    case c: 6
    with 2(7) obtain bs where "as = Char c # bs" "atoms_from (Some (Char c)) r = Some bs" by auto
    with push [of "Char c" bs] 2(6) c show ?thesis by auto
  qed
qed simp

lemma glob_atoms_no_double: "glob_atoms p = Some as \<Longrightarrow> no_double_star as"
  using atoms_from_no_double by (auto simp: glob_atoms_def)

subsection \<open>The shortcuts\<close>

datatype pattern_kind =
    Any
  | Exact "scalar list"
  | Prefix "scalar list"
  | Suffix "scalar list"
  | Contains "scalar list"
  | Never
  | Automaton automaton

fun literal :: "atom list \<Rightarrow> scalar list option" where
  "literal [] = Some []"
| "literal (a # as) = (case a of Char c \<Rightarrow> map_option ((#) c) (literal as) | _ \<Rightarrow> None)"

definition classify :: "atom list \<Rightarrow> pattern_kind" where
  "classify as =
     (let n = length as in
      if n = 1 \<and> as ! 0 = Star then Any
      else case literal as of
        Some s \<Rightarrow> Exact s
      | None \<Rightarrow>
          (let head = (n \<ge> 1 \<and> hd as = Star);
               tail = (n \<ge> 1 \<and> List.last as = Star);
               inner = (let k = (if head then 1 else 0) in take (n - (if tail then 1 else 0) - k) (drop k as));
               auto = Automaton (automaton_new as)
           in if n \<ge> 2 then
                (case literal inner of
                   Some s \<Rightarrow>
                     (if \<not> head \<and> tail then Prefix s
                      else if head \<and> \<not> tail then Suffix s
                      else if head \<and> tail then Contains s
                      else auto)
                 | None \<Rightarrow> auto)
              else auto))"

record glob =
  glob_source :: str
  glob_kind :: pattern_kind

definition glob_new :: "str \<Rightarrow> glob" where
  "glob_new pattern =
     \<lparr>glob_source = pattern,
      glob_kind = (case glob_atoms pattern of None \<Rightarrow> Never | Some as \<Rightarrow> classify as)\<rparr>"

definition max_pattern :: nat where
  "max_pattern = 256"

definition glob_client :: "str \<Rightarrow> str + glob" where
  "glob_client pattern =
     (if length pattern > max_pattern then Inl ''ERR patterns are at most 256 bytes long''
      else Inr (glob_new pattern))"

fun kind_matches :: "pattern_kind \<Rightarrow> scalar list \<Rightarrow> bool" where
  "kind_matches Any t = True"
| "kind_matches (Exact s) t = (t = s)"
| "kind_matches (Prefix s) t = starts_with t s"
| "kind_matches (Suffix s) t = ends_with t s"
| "kind_matches (Contains s) t = contains_sub t s"
| "kind_matches Never t = False"
| "kind_matches (Automaton a) t = automaton_matches a t"

definition glob_matches :: "glob \<Rightarrow> str \<Rightarrow> bool" where
  "glob_matches g text = kind_matches (glob_kind g) (chars text)"

lemma literal_iff: "literal as = Some s \<longleftrightarrow> as = map Char s"
proof (induction as arbitrary: s)
  case Nil
  then show ?case by auto
next
  case (Cons a as)
  then show ?case by (cases a; cases s) auto
qed

lemma lang_literal: "glob_lang (map Char s) = {s}"
  by (induction s) auto

lemma only_star: "length as = 1 \<and> as ! 0 = Star \<longleftrightarrow> as = [Star]"
  by (cases as) auto

definition inner_atoms :: "atom list \<Rightarrow> atom list" where
  "inner_atoms as =
     (let k = (if hd as = Star then 1 else 0)
      in take (length as - (if List.last as = Star then 1 else 0) - k) (drop k as))"

lemma classify_cases:
  "classify [Star] = Any"
  "as \<noteq> [Star] \<Longrightarrow> literal as = Some s \<Longrightarrow> classify as = Exact s"
  "as \<noteq> [Star] \<Longrightarrow> literal as = None \<Longrightarrow> classify as =
     (if length as < 2 then Automaton (automaton_new as)
      else case literal (inner_atoms as) of
        None \<Rightarrow> Automaton (automaton_new as)
      | Some s \<Rightarrow>
          (if hd as = Star
           then (if List.last as = Star then Contains s else Suffix s)
           else (if List.last as = Star then Prefix s else Automaton (automaton_new as))))"
    apply (simp add: classify_def)
   apply (simp add: classify_def Let_def only_star [simplified])
  apply (cases "length as < 2")
   apply (simp add: classify_def Let_def only_star [simplified])
  apply (cases "literal (inner_atoms as)")
   apply (simp_all add: classify_def Let_def only_star [simplified] inner_atoms_def)
  done

lemma inner_atoms_split:
  assumes "length as \<ge> 2"
  shows "as = (if hd as = Star then [Star] else []) @ inner_atoms as @ (if List.last as = Star then [Star] else [])"
proof -
  obtain a b bs where as: "as = a # bs @ [b]"
    using assms by (cases as; cases "tl as" rule: rev_cases) auto
  show ?thesis unfolding as by (simp add: inner_atoms_def)
qed

lemma classify_correct:
  assumes nd: "no_double_star as"
  shows "kind_matches (classify as) t \<longleftrightarrow> t \<in> glob_lang as"
proof (cases "as = [Star]")
  case True
  then show ?thesis by (simp add: classify_cases(1))
next
  case ne: False
  show ?thesis
  proof (cases "literal as")
    case (Some s)
    with ne show ?thesis by (simp add: classify_cases(2)) (simp add: literal_iff lang_literal)
  next
    case lit: None
    show ?thesis
    proof (cases "length as < 2 \<or> literal (inner_atoms as) = None \<or> (hd as \<noteq> Star \<and> List.last as \<noteq> Star)")
      case True
      then have "classify as = Automaton (automaton_new as)"
        using ne lit by (auto simp: classify_cases(3) split: option.splits)
      then show ?thesis by (simp add: automaton_correct [OF nd])
    next
      case False
      then obtain s where s: "literal (inner_atoms as) = Some s" by auto
      have eq: "as = (if hd as = Star then [Star] else []) @ map Char s @ (if List.last as = Star then [Star] else [])"
        using inner_atoms_split [of as] s False by (simp add: literal_iff)
      have lang: "glob_lang as = glob_lang ((if hd as = Star then [Star] else []) @ map Char s @ (if List.last as = Star then [Star] else []))"
        using eq by (rule arg_cong)
      show ?thesis
        unfolding lang classify_cases(3) [OF ne lit] using s False
        by (auto simp: glob_lang_append lang_literal starts_with_iff ends_with_iff contains_sub_iff)
    qed
  qed
qed

text \<open>
  C26: a compiled pattern matches exactly the texts in the language of its atoms, whichever
  shortcut or automaton was picked, and a pattern with an unclosed class matches nothing.
\<close>

theorem glob_matches_language:
  "glob_matches (glob_new pattern) text =
    (case glob_atoms pattern of None \<Rightarrow> False | Some as \<Rightarrow> chars text \<in> glob_lang as)"
  by (simp add: glob_matches_def glob_new_def classify_correct [OF glob_atoms_no_double] split: option.split)

lemma glob_matches_eq:
  "glob_matches (glob_new pattern) text =
    (case glob_atoms pattern of None \<Rightarrow> False | Some as \<Rightarrow> glob_match as (chars text))"
  by (simp add: glob_matches_def glob_new_def classify_correct [OF glob_atoms_no_double] glob_match_iff
      split: option.split)

subsection \<open>Writing a pattern for given atoms\<close>

definition range_text :: "scalar \<times> scalar \<Rightarrow> scalar list" where
  "range_text = (\<lambda>(lo, hi). if lo = hi then [c_escape, lo] else [c_escape, lo, c_minus, hi])"

fun atom_text :: "atom \<Rightarrow> scalar list" where
  "atom_text Star = [c_star]"
| "atom_text One = [c_query]"
| "atom_text (Char c) = [c_escape, c]"
| "atom_text (Set neg rs) =
     c_open # (if neg then [c_caret] else []) @ concat (map range_text rs) @ [c_close]"

fun atom_wf :: "atom \<Rightarrow> bool" where
  "atom_wf (Set neg rs) \<longleftrightarrow> rs \<noteq> [] \<and> list_all (\<lambda>(lo, hi). lo \<le> hi \<and> (lo < hi \<longrightarrow> hi \<noteq> c_close)) rs"
| "atom_wf _ \<longleftrightarrow> True"

lemma range_text_hd: "\<exists>u. range_text r = c_escape # u"
  by (cases r) (simp add: range_text_def)

lemma class_item_text:
  assumes "lo \<le> hi" "lo < hi \<longrightarrow> hi \<noteq> c_close" "rest \<noteq> []" "hd rest \<noteq> c_minus"
  shows "class_item (range_text (lo, hi) @ rest) = Some ((lo, hi), rest)"
  using assms by (cases rest) (auto simp: class_item_def range_text_def escape_lo_def ordered_def split: list.splits)

lemma class_ranges_text:
  assumes "list_all (\<lambda>(lo, hi). lo \<le> hi \<and> (lo < hi \<longrightarrow> hi \<noteq> c_close)) rs" "f = False \<or> rs \<noteq> []"
  shows "class_ranges f (concat (map range_text rs) @ c_close # rest) = Some (rs, rest)"
  using assms
proof (induction rs arbitrary: f)
  case (Cons r rs)
  obtain lo hi where r: "r = (lo, hi)" by fastforce
  let ?t = "concat (map range_text rs) @ c_close # rest"
  have "?t \<noteq> [] \<and> hd ?t \<noteq> c_minus"
    using range_text_hd [of "hd rs"] by (cases rs) auto
  then have item: "class_item (range_text r @ ?t) = Some ((lo, hi), ?t)"
    unfolding r using Cons.prems r by (intro class_item_text) auto
  obtain u where u: "range_text r = c_escape # u" using range_text_hd by blast
  have "class_item (c_escape # u @ ?t) = Some (r, ?t)" using item u r by simp
  moreover have "class_ranges False ?t = Some (rs, rest)" using Cons by simp
  ultimately have "class_ranges f (c_escape # u @ ?t) = Some (r # rs, rest)" by simp
  then show ?case using u by simp
qed simp

lemma glob_class_text:
  assumes "atom_wf (Set neg rs)"
  shows "glob_class ((if neg then [c_caret] else []) @ concat (map range_text rs) @ c_close # rest) =
    Some (Set neg rs, rest)"
proof -
  have "class_ranges True (concat (map range_text rs) @ c_close # rest) = Some (rs, rest)"
    using assms by (intro class_ranges_text) auto
  moreover obtain u where "concat (map range_text rs) @ c_close # rest = c_escape # u"
    using assms range_text_hd [of "hd rs"] that by (cases rs) auto
  ultimately show ?thesis by (auto simp: glob_class_def simp del: class_ranges.simps)
qed

lemma atoms_from_text:
  assumes "list_all atom_wf as" "no_double_star as" "prev = Some Star \<longrightarrow> (case as of a # _ \<Rightarrow> a \<noteq> Star | [] \<Rightarrow> True)"
  shows "atoms_from prev (concat (map atom_text as)) = Some as"
  using assms
proof (induction as arbitrary: prev)
  case (Cons a as)
  have IH: "atoms_from (Some a) (concat (map atom_text as)) = Some as"
    using Cons.prems by (intro Cons.IH) (auto split: list.splits)
  show ?case
  proof (cases a)
    case (Set neg rs)
    with Cons.prems have "atom_wf (Set neg rs)" by simp
    from glob_class_text [OF this, of "concat (map atom_text as)"] IH Set show ?thesis by simp
  qed (use IH Cons.prems in auto)
qed simp

text \<open>
  C37: the parser reads back every atom sequence that has no two stars in a row: each one
  has a pattern, and no construct is misread next to another.
\<close>

theorem glob_atoms_roundtrip:
  assumes "list_all atom_wf as" and "no_double_star as" and "chars pattern = concat (map atom_text as)"
  shows "glob_atoms pattern = Some as"
  using assms by (simp add: glob_atoms_def atoms_from_text)

lemma glob_atoms_roundtrip_witness:
  "glob_atoms [CHR ''*'', CHR ''['', CHR ''^'', CHR 0x5C, CHR ''a'', CHR ''-'', CHR ''f'', CHR '']''] =
    Some [Star, Set True [(97, 102)]]"
  by (rule glob_atoms_roundtrip) code_simp+

end
