(* ===== verification/Key_Specs.thy ===== *)
theory Key_Specs
  imports Prelude
begin

text \<open>
  Where each command names its keys and whether it may change them: the table
  \<open>key_spec\<close> of \<open>src/src/commands.rs\<close> and the walks over it, \<open>key_args\<close>,
  \<open>writes\<close> and \<open>grows\<close>.
\<close>

datatype keys_spec =
    Keys_None
  | Keys_First bool
  | Keys_All bool
  | Keys_Pairs
  | Keys_Two
  | Keys_AllButLast
  | Keys_Streams nat bool
  | Keys_Second bool

definition key_spec :: "str \<Rightarrow> keys_spec option" where
  "key_spec name =
    (if name \<in> {''COMMAND'', ''DBSIZE'', ''ECHO'', ''FLUSHALL'', ''FLUSHDB'', ''INFO'', ''KEYS'', ''PING'',
        ''PUBLISH'', ''PUBSUB'', ''SCAN'', ''TIME''} then Some Keys_None
     else if name \<in> {''EXISTS'', ''MGET'', ''SDIFF'', ''SINTER'', ''SUNION''} then Some (Keys_All False)
     else if name \<in> {''DEL'', ''UNLINK''} then Some (Keys_All True)
     else if name \<in> {''MSET'', ''MSETNX''} then Some Keys_Pairs
     else if name \<in> {''BLMOVE'', ''LMOVE'', ''RENAME'', ''RENAMENX'', ''RPOPLPUSH'', ''SMOVE''} then Some Keys_Two
     else if name \<in> {''BLPOP'', ''BRPOP'', ''BZPOPMAX'', ''BZPOPMIN''} then Some Keys_AllButLast
     else if name = ''XREAD'' then Some (Keys_Streams 1 False)
     else if name = ''XREADGROUP'' then Some (Keys_Streams 4 True)
     else if name = ''XGROUP'' then Some (Keys_Second True)
     else if name = ''XINFO'' then Some (Keys_Second False)
     else if name \<in> {''EXPIRETIME'', ''GET'', ''HEXISTS'', ''HGET'', ''HGETALL'', ''HKEYS'', ''HLEN'', ''HMGET'',
        ''HVALS'', ''LINDEX'', ''LLEN'', ''LRANGE'', ''PEXPIRETIME'', ''PTTL'', ''SCARD'',
        ''SISMEMBER'', ''SMEMBERS'', ''SMISMEMBER'', ''SRANDMEMBER'', ''STRLEN'', ''TTL'', ''TYPE'',
        ''XLEN'', ''XPENDING'', ''XRANGE'', ''XREVRANGE'', ''ZCARD'', ''ZCOUNT'', ''ZMSCORE'',
        ''ZRANGE'', ''ZRANGEBYSCORE'', ''ZRANK'', ''ZREVRANGE'', ''ZREVRANGEBYSCORE'', ''ZREVRANK'',
        ''ZSCORE''} then Some (Keys_First False)
     else if name \<in> {''APPEND'', ''DECR'', ''DECRBY'', ''DELIFEQ'', ''EXPIRE'', ''EXPIREAT'', ''GETDEL'', ''GETEX'',
        ''GETSET'', ''HDEL'', ''HINCRBY'', ''HINCRBYFLOAT'', ''HMSET'', ''HSET'', ''HSETNX'', ''INCR'',
        ''INCRBY'', ''INCRBYFLOAT'', ''LINSERT'', ''LPOP'', ''LPUSH'', ''LPUSHX'', ''LREM'', ''LSET'',
        ''LTRIM'', ''PERSIST'', ''PEXPIRE'', ''PEXPIREAT'', ''PSETEX'', ''RPOP'', ''RPUSH'',
        ''RPUSHX'', ''SADD'', ''SET'', ''SETEX'', ''SETNX'', ''SPOP'', ''SREM'', ''XACK'', ''XADD'',
        ''XAUTOCLAIM'', ''XCLAIM'', ''XDEL'', ''XTRIM'', ''ZADD'', ''ZINCRBY'', ''ZPOPMAX'',
        ''ZPOPMIN'', ''ZREM'', ''ZREMRANGEBYRANK'', ''ZREMRANGEBYSCORE''} then Some (Keys_First True)
     else None)"

text \<open>\<open>Name::of\<close>: the first word in upper case; one longer than 24 bytes reads as empty.\<close>

definition command_name :: "str list \<Rightarrow> str" where
  "command_name argv =
     (let word = (case argv of [] \<Rightarrow> [] | w # _ \<Rightarrow> w)
      in if length word \<le> 24 then to_ascii_uppercase word else [])"

text \<open>The walk to \<open>STREAMS\<close>: the half-open range of arguments that are stream keys.\<close>

function stream_walk :: "str list \<Rightarrow> nat \<Rightarrow> nat \<times> nat" where
  "stream_walk argv i =
     (if i < length argv then
        (let word = to_ascii_uppercase (argv ! i) in
         if word \<in> {''COUNT'', ''BLOCK''} then stream_walk argv (i + 2)
         else if word = ''NOACK'' then stream_walk argv (i + 1)
         else if word = ''STREAMS'' then (i + 1, i + 1 + (length argv - (i + 1)) div 2)
         else (0, 0))
      else (0, 0))"
  by pat_completeness auto

termination
  by (relation "measure (\<lambda>(argv, i). length argv - i)") auto

declare stream_walk.simps [simp del]

definition in_args :: "nat \<Rightarrow> nat \<Rightarrow> nat \<Rightarrow> bool \<Rightarrow> (nat \<times> bool) list" where
  "in_args len a b write = map (\<lambda>i. (i, write)) (filter (\<lambda>i. i < len) [a..<b])"

definition key_args :: "str list \<Rightarrow> (nat \<times> bool) list option" where
  "key_args argv =
     (let len = length argv in
      case key_spec (command_name argv) of
        None \<Rightarrow> None
      | Some spec \<Rightarrow> Some
          (case spec of
             Keys_None \<Rightarrow> []
           | Keys_First write \<Rightarrow> in_args len 1 2 write
           | Keys_All write \<Rightarrow> in_args len 1 len write
           | Keys_Pairs \<Rightarrow> map (\<lambda>i. (i, True)) (filter (\<lambda>i. odd i) [1..<len])
           | Keys_Two \<Rightarrow> in_args len 1 3 True
           | Keys_AllButLast \<Rightarrow> in_args len 1 (max (len - 1) 1) True
           | Keys_Streams from write \<Rightarrow> (let (a, b) = stream_walk argv from in in_args len a b write)
           | Keys_Second write \<Rightarrow> in_args len 2 3 write))"

definition writes :: "str list \<Rightarrow> bool" where
  "writes argv =
     (let name = command_name argv; len = length argv in
      if name \<in> {''FLUSHALL'', ''FLUSHDB''} then True
      else case key_spec name of
        None \<Rightarrow> False
      | Some spec \<Rightarrow>
          (case spec of
             Keys_None \<Rightarrow> False
           | Keys_First write \<Rightarrow> write \<and> len > 1
           | Keys_All write \<Rightarrow> write \<and> len > 1
           | Keys_Pairs \<Rightarrow> len > 1
           | Keys_Two \<Rightarrow> len > 1
           | Keys_AllButLast \<Rightarrow> len > 2
           | Keys_Streams from write \<Rightarrow>
               (let (a, b) = stream_walk argv from in write \<and> a < len \<and> a < b)
           | Keys_Second write \<Rightarrow> write \<and> len > 2))"

definition grows :: "str list \<Rightarrow> bool" where
  "grows argv =
     (let name = command_name argv in
      if name \<in> {''APPEND'', ''DECR'', ''DECRBY'', ''GETSET'', ''HINCRBY'', ''HINCRBYFLOAT'', ''HMSET'', ''HSET'',
          ''HSETNX'', ''INCR'', ''INCRBY'', ''INCRBYFLOAT'', ''LINSERT'', ''LPUSH'', ''LPUSHX'',
          ''LSET'', ''MSET'', ''MSETNX'', ''PSETEX'', ''RPUSH'', ''RPUSHX'', ''SADD'', ''SET'', ''SETEX'',
          ''SETNX'', ''XADD'', ''XREADGROUP'', ''ZADD'', ''ZINCRBY''} then True
      else if name = ''XGROUP'' then
        length argv > 1 \<and>
        list_ex (eq_ignore_ascii_case (argv ! 1)) [''CREATE'', ''CREATECONSUMER'', ''SETID'']
      else False)"

lemma in_args_iff [simp]: "(i, w) \<in> set (in_args len a b write) \<longleftrightarrow> w = write \<and> a \<le> i \<and> i < b \<and> i < len"
  by (auto simp: in_args_def)

lemma in_args_write:
  "list_ex snd (in_args len a b write) \<longleftrightarrow> write \<and> a < b \<and> a < len"
  by (auto simp: list_ex_iff in_args_def)

lemma key_args_in_range:
  "key_args argv = Some ks \<Longrightarrow> (i, w) \<in> set ks \<Longrightarrow> i < length argv"
  by (auto simp: key_args_def Let_def split: option.splits keys_spec.splits prod.splits)

lemma odd_args_write:
  "list_ex snd (map (\<lambda>i. (i, True)) (filter odd [Suc 0..<len])) \<longleftrightarrow> Suc 0 < len"
  by (auto simp: list_ex_iff intro: bexI [of _ "(1, True)"])

lemma case_in_args_write:
  "list_ex snd (case p of (a, b) \<Rightarrow> in_args len a b write) \<longleftrightarrow> (case p of (a, b) \<Rightarrow> write \<and> a < b \<and> a < len)"
  by (cases p) (simp add: in_args_write)

text \<open>
  \<open>writes\<close>, which every change runs and which collects no keys, agrees with the
  walk \<open>key_args\<close> does: it holds exactly for a flush and for a command with an argument
  it may change.
\<close>

theorem writes_iff_key_args:
  "writes argv \<longleftrightarrow>
    command_name argv \<in> {''FLUSHALL'', ''FLUSHDB''} \<or>
    (\<exists>ks. key_args argv = Some ks \<and> list_ex snd ks)"
  by (cases "key_spec (command_name argv)")
    (auto simp: writes_def key_args_def Let_def in_args_write case_in_args_write odd_args_write
      split: keys_spec.splits)

end
