(* ===== verification/Scope.thy ===== *)
theory Scope
  imports Glob Util Key_Specs
begin

text \<open>
  What a client may reach (\<open>src/src/scope.rs\<close>): scopes compiled from glob patterns, the
  runs of keys a listing visits, and the check a command passes before it runs.
\<close>

subsection \<open>Where a pattern's matches start\<close>

text \<open>\<open>literal_prefix\<close> of \<open>src/src/db.rs\<close>.\<close>

definition literal_prefix :: "str \<Rightarrow> str" where
  "literal_prefix pattern = takeWhile (\<lambda>b. b \<notin> {CHR ''*'', CHR ''?'', CHR ''['', CHR 0x5C}) pattern"

definition plain_scalar :: "scalar \<Rightarrow> bool" where
  "plain_scalar c \<longleftrightarrow> c \<notin> {c_star, c_query, c_open, c_escape}"

lemma literal_prefix_utf8:
  assumes "list_all is_scalar cs"
  shows "literal_prefix (utf8 cs) = utf8 (takeWhile plain_scalar cs)"
proof -
  have b: "b = c \<longleftrightarrow> byte_of b = byte_of c" for b c
    unfolding byte_of_def by (metis char_of_char)
  have eq: "b \<notin> {CHR ''*'', CHR ''?'', CHR ''['', CHR 0x5C} \<longleftrightarrow> plain_scalar (byte_of b)" for b
    unfolding b [of b] plain_scalar_def insert_iff empty_iff by (simp add: byte_of_def)
  show ?thesis
    unfolding literal_prefix_def eq
    by (rule takeWhile_utf8 [OF assms]) (auto simp: plain_scalar_def)
qed

lemma literal_prefix_valid:
  assumes "valid_str p"
  shows "valid_str (literal_prefix p)" "chars (literal_prefix p) = takeWhile plain_scalar (chars p)"
proof -
  have s: "list_all is_scalar (chars p)" and p: "p = utf8 (chars p)" using assms by (auto simp: valid_str_def)
  have "list_all is_scalar (takeWhile plain_scalar (chars p))"
    using s by (auto simp: list_all_iff dest: set_takeWhileD)
  moreover have "literal_prefix p = utf8 (takeWhile plain_scalar (chars p))"
    using literal_prefix_utf8 [OF s] p by simp
  ultimately show "valid_str (literal_prefix p)" "chars (literal_prefix p) = takeWhile plain_scalar (chars p)"
    by (simp_all add: chars_utf8)
qed

lemma atoms_from_plain:
  "\<forall>c \<in> set ps. plain_scalar c \<Longrightarrow> atoms_from prev (ps @ r) = Some as \<Longrightarrow>
   \<exists>prev bs. as = map Char ps @ bs \<and> atoms_from prev r = Some bs"
proof (induction ps arbitrary: prev as)
  case (Cons c ps)
  have "c \<noteq> c_star" "c \<noteq> c_query" "c \<noteq> c_open" "c \<noteq> c_escape"
    using Cons.prems(1) by (simp_all add: plain_scalar_def)
  then have "map_option ((#) (Char c)) (atoms_from (Some (Char c)) (ps @ r)) = Some as"
    using Cons.prems(2) by simp
  then obtain cs where "as = Char c # cs" "atoms_from (Some (Char c)) (ps @ r) = Some cs"
    by (auto simp del: atoms_from.simps)
  with Cons.IH [of "Some (Char c)" cs] Cons.prems(1) show ?case by auto
qed auto

lemma glob_matches_literal_prefix:
  assumes "valid_str pattern" "valid_str key" "glob_matches (glob_new pattern) key"
  shows "starts_with key (literal_prefix pattern)"
proof -
  obtain as where as: "glob_atoms pattern = Some as" "chars key \<in> glob_lang as"
    using assms(3) by (auto simp: glob_matches_def glob_new_def classify_correct [OF glob_atoms_no_double] split: option.splits)
  let ?p = "takeWhile plain_scalar (chars pattern)"
  have "chars pattern = ?p @ dropWhile plain_scalar (chars pattern)" by simp
  with as(1) have "atoms_from None (?p @ dropWhile plain_scalar (chars pattern)) = Some as"
    by (simp add: glob_atoms_def)
  from atoms_from_plain [OF _ this] obtain bs where "as = map Char ?p @ bs"
    by (auto dest: set_takeWhileD)
  with as(2) obtain u where "chars key = ?p @ u" by (auto simp: glob_lang_append lang_literal)
  then have "starts_with (chars key) (chars (literal_prefix pattern))"
    using literal_prefix_valid(2) [OF assms(1)] by (auto simp: starts_with_iff)
  then show ?thesis
    using starts_with_chars assms(2) literal_prefix_valid(1) [OF assms(1)] by blast
qed

subsection \<open>Scopes\<close>

record scope =
  sc_keys :: "str list"
  sc_read :: "str list"
  sc_channels :: "str list"
  sc_all_keys :: bool
  sc_all_channels :: bool
  sc_key_globs :: "glob list"
  sc_read_globs :: "glob list"
  sc_channel_globs :: "glob list"
  sc_prefixes :: "str list option"

text \<open>The loop of \<open>Scope::new\<close> over the sorted starts, with the last one kept.\<close>

fun keep_starts :: "str option \<Rightarrow> str list \<Rightarrow> str list" where
  "keep_starts kept [] = []"
| "keep_starts kept (start # starts) =
     (if (case kept of Some k \<Rightarrow> starts_with start k | None \<Rightarrow> False) then keep_starts kept starts
      else start # keep_starts (Some start) starts)"

definition scope_new :: "str list \<Rightarrow> str list \<Rightarrow> str list \<Rightarrow> scope" where
  "scope_new keys read channels =
     (let all_keys = list_ex (\<lambda>p. p = ''*'') keys;
          prefixes = keep_starts None (sort (map literal_prefix (keys @ read)))
      in \<lparr>sc_keys = keys, sc_read = read, sc_channels = channels,
          sc_all_keys = all_keys, sc_all_channels = list_ex (\<lambda>p. p = ''*'') channels,
          sc_key_globs = map glob_new keys, sc_read_globs = map glob_new read,
          sc_channel_globs = map glob_new channels,
          sc_prefixes = (if \<not> all_keys \<and> list_all (\<lambda>p. p \<noteq> []) prefixes then Some prefixes else None)\<rparr>)"

fun search_runs :: "str \<Rightarrow> str list \<Rightarrow> str list \<Rightarrow> str list" where
  "search_runs prefix [] runs = runs"
| "search_runs prefix (start # own) runs =
     (if starts_with prefix start then [prefix]
      else search_runs prefix own (if starts_with start prefix then runs @ [start] else runs))"

definition search_prefixes :: "scope \<Rightarrow> str \<Rightarrow> str list" where
  "search_prefixes s prefix =
     (case sc_prefixes s of None \<Rightarrow> [prefix] | Some own \<Rightarrow> search_runs prefix own [])"

definition scope_all :: scope where
  "scope_all = scope_new [''*''] [] [''*'']"

definition scope_agent :: "str \<Rightarrow> scope" where
  "scope_agent name = (let own = [name @ '':*'', ''shared:*''] in scope_new own [] own)"

definition scope_is_all :: "scope \<Rightarrow> bool" where
  "scope_is_all s \<longleftrightarrow> sc_all_keys s \<and> sc_all_channels s"

definition can_write :: "scope \<Rightarrow> str \<Rightarrow> bool" where
  "can_write s key \<longleftrightarrow> sc_all_keys s \<or> list_ex (\<lambda>g. glob_matches g key) (sc_key_globs s)"

definition can_read :: "scope \<Rightarrow> str \<Rightarrow> bool" where
  "can_read s key \<longleftrightarrow> can_write s key \<or> list_ex (\<lambda>g. glob_matches g key) (sc_read_globs s)"

definition can_use_channel :: "scope \<Rightarrow> str \<Rightarrow> bool" where
  "can_use_channel s channel \<longleftrightarrow>
     sc_all_channels s \<or> list_ex (\<lambda>g. glob_matches g channel) (sc_channel_globs s)"

definition can_subscribe :: "scope \<Rightarrow> str \<Rightarrow> bool" where
  "can_subscribe s channel =
     (case strip_prefix ''__keyspace__:'' channel of
        Some key \<Rightarrow> can_read s key
      | None \<Rightarrow> starts_with channel ''__keyevent__:'' \<or> can_use_channel s channel)"

definition can_receive :: "scope \<Rightarrow> str \<Rightarrow> str \<Rightarrow> bool" where
  "can_receive s channel message =
     (case strip_prefix ''__keyspace__:'' channel of
        Some key \<Rightarrow> can_read s key
      | None \<Rightarrow> if starts_with channel ''__keyevent__:'' then can_read s message
                else can_use_channel s channel)"

subsection \<open>The check before a command runs\<close>

text \<open>
  One constructor per refusal, with what its message is rendered from. For a key: whether
  it was to be changed, the patterns of keys named, and those of read-only keys if named.
\<close>

datatype scope_error =
    Notification_Channel
  | Denied_Channel str "str list"
  | Denied_Key str bool "str list" "str list option"
  | Unknown_Command str

definition denied_key :: "scope \<Rightarrow> str \<Rightarrow> bool \<Rightarrow> scope_error" where
  "denied_key s key write =
     Denied_Key key write (sc_keys s) (if write \<or> sc_read s = [] then None else Some (sc_read s))"

definition denied_channel :: "scope \<Rightarrow> str \<Rightarrow> scope_error" where
  "denied_channel s channel = Denied_Channel channel (sc_channels s)"

definition notification_prefixes :: "str list" where
  "notification_prefixes = [''__keyspace__'', ''__keyevent__'']"

record access =
  acc_admin :: bool
  acc_scope :: scope

definition access_admin :: access where
  "access_admin = \<lparr>acc_admin = True, acc_scope = scope_all\<rparr>"

fun permit_keys :: "scope \<Rightarrow> str list \<Rightarrow> (nat \<times> bool) list \<Rightarrow> scope_error + unit" where
  "permit_keys s argv [] = Inr ()"
| "permit_keys s argv ((index, write) # keys) =
     (let key = argv ! index;
          allowed = (if write then can_write s key else can_read s key)
      in if \<not> allowed then Inl (denied_key s key write) else permit_keys s argv keys)"

definition permit_channels :: "scope \<Rightarrow> str list \<Rightarrow> scope_error + unit" where
  "permit_channels s argv =
     (let name = command_name argv in
      if name = ''PUBLISH'' \<and> length argv > 1 \<and> list_ex (starts_with (argv ! 1)) notification_prefixes
      then Inl Notification_Channel
      else if name = ''PUBLISH'' \<and> length argv > 1 \<and> \<not> can_use_channel s (argv ! 1)
      then Inl (denied_channel s (argv ! 1))
      else if name = ''PUBSUB'' \<and> length argv > 1 \<and> eq_ignore_ascii_case (argv ! 1) ''NUMSUB''
      then (case find (\<lambda>c. \<not> can_use_channel s c) (drop 2 argv) of
              Some channel \<Rightarrow> Inl (denied_channel s channel)
            | None \<Rightarrow> Inr ())
      else Inr ())"

definition permit :: "access \<Rightarrow> str list \<Rightarrow> scope_error + unit" where
  "permit a argv =
     (let s = acc_scope a in
      case permit_channels s argv of
        Inl e \<Rightarrow> Inl e
      | Inr _ \<Rightarrow>
          if sc_all_keys s then Inr ()
          else (case key_args argv of
                  None \<Rightarrow> Inl (Unknown_Command (to_ascii_lowercase (case argv of [] \<Rightarrow> [] | w # _ \<Rightarrow> w)))
                | Some keys \<Rightarrow> permit_keys s argv keys))"

lemma can_write_read: "can_write s key \<Longrightarrow> can_read s key"
  by (simp add: can_read_def)

lemma permit_keys_ok:
  "permit_keys s argv ks = Inr () \<longleftrightarrow>
    list_all (\<lambda>(i, w). if w then can_write s (argv ! i) else can_read s (argv ! i)) ks"
proof (induction ks)
  case (Cons k ks)
  obtain i w where "k = (i, w)" by fastforce
  with Cons show ?case by (cases w) (simp_all add: Let_def)
qed simp

lemma permit_keys_all: "sc_all_keys s \<Longrightarrow> permit_keys s argv ks = Inr ()"
  by (auto simp: permit_keys_ok list_all_iff can_read_def can_write_def)

lemma permit_keys_range:
  "key_args argv = Some ks \<Longrightarrow> permit_keys s argv ks = Inr () \<longleftrightarrow>
    list_all (\<lambda>(i, w). i < length argv \<and> (if w then can_write s (argv ! i) else can_read s (argv ! i))) ks"
  unfolding permit_keys_ok by (rule list.pred_cong) (auto dest: key_args_in_range)


text \<open>
  A message is published exactly when the scope reaches the channel and the channel
  is none of those the server announces key changes on.
\<close>

theorem permit_publish:
  assumes "command_name (w # channel # rest) = ''PUBLISH''"
  shows "permit a (w # channel # rest) = Inr () \<longleftrightarrow>
    can_use_channel (acc_scope a) channel \<and>
    \<not> starts_with channel ''__keyspace__'' \<and> \<not> starts_with channel ''__keyevent__''"
proof -
  have "key_args (w # channel # rest) = Some []"
    by (simp add: key_args_def assms key_spec_def)
  then have "permit a (w # channel # rest) = Inr () \<longleftrightarrow> permit_channels (acc_scope a) (w # channel # rest) = Inr ()"
    by (auto simp: permit_def Let_def split: sum.splits)
  also have "\<dots> \<longleftrightarrow> can_use_channel (acc_scope a) channel \<and>
    \<not> starts_with channel ''__keyspace__'' \<and> \<not> starts_with channel ''__keyevent__''"
    unfolding permit_channels_def Let_def assms by (auto simp: notification_prefixes_def)
  finally show ?thesis .
qed

lemma permit_publish_witness:
  "permit access_admin [''publish'', ''__keyspace__:plan'', ''set''] \<noteq> Inr ()"
  using permit_publish [of "''publish''" "''__keyspace__:plan''" "[''set'']" access_admin] by code_simp

subsection \<open>The runs a listing visits\<close>

lemma keep_starts_subset: "set (keep_starts kept ss) \<subseteq> set ss"
  by (induction kept ss rule: keep_starts.induct) auto

lemma keep_starts_covers:
  "s \<in> set ss \<Longrightarrow> \<exists>k \<in> set (keep_starts kept ss) \<union> set_option kept. starts_with s k"
  by (induction kept ss rule: keep_starts.induct) (auto split: option.splits)

lemma keep_starts_sorted:
  assumes "sorted ss" and "\<forall>k \<in> set_option kept. \<forall>s \<in> set ss. k \<le> s"
  shows "sorted_wrt (\<lambda>a b. a < b \<and> \<not> starts_with b a) (keep_starts kept ss) \<and>
    (\<forall>k \<in> set_option kept. \<forall>s \<in> set (keep_starts kept ss). \<not> starts_with s k)"
  using assms
proof (induction kept ss rule: keep_starts.induct)
  case (2 kept start starts)
  show ?case
  proof (cases "case kept of Some k \<Rightarrow> starts_with start k | None \<Rightarrow> False")
    case True
    with 2 show ?thesis by (auto split: option.splits)
  next
    case False
    have IH: "sorted_wrt (\<lambda>a b. a < b \<and> \<not> starts_with b a) (keep_starts (Some start) starts)"
      "\<forall>s \<in> set (keep_starts (Some start) starts). \<not> starts_with s start"
      using 2(2) [OF False] 2(3) by auto
    have le: "start \<le> s" if "s \<in> set (keep_starts (Some start) starts)" for s
      using that keep_starts_subset [of "Some start" starts] 2(3) by auto
    have lt: "start < s" if "s \<in> set (keep_starts (Some start) starts)" for s
      using le [OF that] IH(2) that by (metis order_le_neq_trans starts_with_refl)
    moreover have "\<not> starts_with s k" if "k \<in> set_option kept" "s \<in> set (keep_starts (Some start) starts)" for k s
    proof
      assume "starts_with s k"
      then have "starts_with start k"
        using that 2(4) le by (auto intro: starts_with_between)
      with False that show False by auto
    qed
    ultimately show ?thesis using IH False by (auto split: option.splits)
  qed
qed simp

lemma search_runs_set:
  "search_runs prefix own runs =
    (if list_ex (starts_with prefix) own then [prefix] else runs @ filter (\<lambda>s. starts_with s prefix) own)"
  by (induction prefix own runs rule: search_runs.induct) auto

lemma can_write_new:
  "can_write (scope_new keys read channels) key \<longleftrightarrow>
    list_ex (\<lambda>p. p = ''*'') keys \<or>
    list_ex (\<lambda>p. case glob_atoms p of None \<Rightarrow> False | Some as \<Rightarrow> glob_match as (chars key)) keys"
  by (simp add: can_write_def scope_new_def Let_def list_ex_iff glob_matches_eq)

lemma scope_prefixes_cover:
  assumes "list_all valid_str (keys @ read)" "valid_str key"
    and "can_read (scope_new keys read channels) key"
    and "sc_prefixes (scope_new keys read channels) = Some own"
  shows "\<exists>p \<in> set own. starts_with key p"
proof -
  have own: "own = keep_starts None (sort (map literal_prefix (keys @ read)))"
    and na: "\<not> list_ex (\<lambda>p. p = ''*'') keys"
    using assms(4) by (auto simp: scope_new_def Let_def split: if_splits)
  obtain pat where pat: "pat \<in> set (keys @ read)" "glob_matches (glob_new pat) key"
    using assms(3) na by (auto simp: can_read_def can_write_def scope_new_def Let_def list_ex_iff)
  then have "valid_str pat" using assms(1) by (simp add: list_all_iff)
  then have "starts_with key (literal_prefix pat)"
    using glob_matches_literal_prefix assms(2) pat(2) by blast
  moreover have "literal_prefix pat \<in> set (sort (map literal_prefix (keys @ read)))"
    using pat(1) by auto
  from keep_starts_covers [OF this, of None] obtain p where "p \<in> set own" "starts_with (literal_prefix pat) p"
    by (auto simp: own)
  ultimately show ?thesis using starts_with_trans by blast
qed

lemma search_prefixes_cover:
  assumes "list_all valid_str (keys @ read)" "valid_str key"
    and "can_read (scope_new keys read channels) key" "starts_with key prefix"
  shows "list_ex (starts_with key) (search_prefixes (scope_new keys read channels) prefix)"
proof (cases "sc_prefixes (scope_new keys read channels)")
  case None
  then show ?thesis using assms(4) by (simp add: search_prefixes_def)
next
  case (Some own)
  obtain p where p: "p \<in> set own" "starts_with key p"
    using scope_prefixes_cover [OF assms(1-3) Some] by blast
  with starts_with_linear [OF p(2) assms(4)] assms(4) show ?thesis
    by (auto simp: search_prefixes_def Some search_runs_set list_ex_iff)
qed

text \<open>
  C36: a listing that visits only the runs of \<open>search_prefixes\<close> misses nothing: every key
  the scope can read and that starts with the prefix asked for starts with one of them.
\<close>

theorem search_prefixes_complete:
  assumes "list_all valid_str (keys @ read)" "valid_str key"
    and "can_read (scope_new keys read channels) key" "starts_with key prefix"
  shows "list_ex (starts_with key) (search_prefixes (scope_new keys read channels) prefix)"
  using assms by (rule search_prefixes_cover)

lemma search_prefixes_complete_witness:
  "list_ex (starts_with ''planner:todo'')
    (search_prefixes (scope_new [''planner:*'', ''shared:*''] [] []) ''planner:t'')"
proof (rule search_prefixes_complete)
  show "can_read (scope_new [''planner:*'', ''shared:*''] [] []) ''planner:todo''"
    unfolding can_read_def can_write_new by code_simp
qed (simp_all add: ascii_valid byte_of_def starts_with_def)

lemma search_prefixes_sorted:
  "sorted_wrt (\<lambda>a b. a < b \<and> \<not> starts_with b a) (search_prefixes (scope_new keys read channels) prefix) \<and>
   list_all (\<lambda>run. starts_with run prefix) (search_prefixes (scope_new keys read channels) prefix)"
proof (cases "sc_prefixes (scope_new keys read channels)")
  case None
  then show ?thesis by (simp add: search_prefixes_def)
next
  case (Some own)
  then have "own = keep_starts None (sort (map literal_prefix (keys @ read)))"
    by (auto simp: scope_new_def Let_def split: if_splits)
  then have "sorted_wrt (\<lambda>a b. a < b \<and> \<not> starts_with b a) own"
    using keep_starts_sorted [of "sort (map literal_prefix (keys @ read))" None] by simp
  then have "sorted_wrt (\<lambda>a b. a < b \<and> \<not> starts_with b a) (filter (\<lambda>s. starts_with s prefix) own)"
    by (rule sorted_wrt_filter)
  then show ?thesis
    by (simp add: search_prefixes_def Some search_runs_set list_all_iff)
qed

text \<open>
  the runs of \<open>search_prefixes\<close> are sorted, all start with the prefix asked for, and
  none starts with another, so a listing in their order visits no key twice.
\<close>

theorem search_prefixes_runs:
  "sorted_wrt (\<lambda>a b. a < b \<and> \<not> starts_with b a) (search_prefixes (scope_new keys read channels) prefix) \<and>
   list_all (\<lambda>run. starts_with run prefix) (search_prefixes (scope_new keys read channels) prefix)"
  by (rule search_prefixes_sorted)

subsection \<open>The default scope of an agent\<close>

lemma glob_prefix_pattern:
  assumes "valid_str p" "\<forall>c \<in> set (chars p). plain_scalar c" "valid_str key"
  shows "glob_matches (glob_new (p @ ''*'')) key \<longleftrightarrow> starts_with key p"
proof -
  have "glob_atoms (p @ ''*'') = Some (map Char (chars p) @ [Star])"
  proof -
    have "atoms_from prev (ps @ [c_star]) = Some (map Char ps @ [Star])"
      if "\<forall>c \<in> set ps. plain_scalar c" "prev \<noteq> Some Star" for prev ps
      using that by (induction ps arbitrary: prev) (auto simp: plain_scalar_def)
    moreover have "chars ''*'' = [c_star]" by code_simp
    ultimately show ?thesis
      using assms by (simp add: glob_atoms_def chars_append)
  qed
  then have "glob_matches (glob_new (p @ ''*'')) key \<longleftrightarrow> chars key \<in> glob_lang (map Char (chars p) @ [Star])"
    by (simp add: glob_matches_def glob_new_def classify_correct [OF glob_atoms_no_double])
  also have "\<dots> \<longleftrightarrow> starts_with (chars key) (chars p)"
    by (auto simp: glob_lang_append lang_literal starts_with_iff)
  finally show ?thesis using starts_with_chars assms by simp
qed

lemma valid_name_byte: "valid_name n \<Longrightarrow> b \<in> set n \<Longrightarrow> byte_of b < 123 \<and> plain_scalar (byte_of b) \<and> b \<noteq> CHR '':''"
  by (auto simp: valid_name_def list_all_iff is_ascii_alphanumeric_def Let_def plain_scalar_def byte_of_def)

lemma name_colon_prefix:
  assumes "valid_name n"
  shows "valid_str (n @ '':'')" "\<forall>c \<in> set (chars (n @ '':'')). plain_scalar c"
proof -
  have "list_all (\<lambda>b. byte_of b < 128) (n @ '':'')"
    using valid_name_byte [OF assms] by (fastforce simp: list_all_iff byte_of_def)
  then have c: "chars (n @ '':'') = map byte_of (n @ '':'')" and v: "valid_str (n @ '':'')"
    using ascii_utf8 by blast+
  show "valid_str (n @ '':'')" by (rule v)
  show "\<forall>c \<in> set (chars (n @ '':'')). plain_scalar c"
    unfolding c using valid_name_byte [OF assms] by (auto simp: plain_scalar_def byte_of_def)
qed

lemma scope_agent_reach:
  assumes "valid_name n" "valid_str key"
  shows "can_read (scope_agent n) key \<longleftrightarrow> starts_with key (n @ '':'') \<or> starts_with key ''shared:''"
    and "can_write (scope_agent n) key \<longleftrightarrow> starts_with key (n @ '':'') \<or> starts_with key ''shared:''"
proof -
  have sh: "valid_name ''shared''" by code_simp
  have a: "glob_matches (glob_new (n @ '':*'')) key \<longleftrightarrow> starts_with key (n @ '':'')"
    using glob_prefix_pattern [OF name_colon_prefix [OF assms(1)] assms(2)] by simp
  have b: "glob_matches (glob_new ''shared:*'') key \<longleftrightarrow> starts_with key ''shared:''"
    using glob_prefix_pattern [OF name_colon_prefix [OF sh] assms(2)] by simp
  have c: "\<not> list_ex (\<lambda>p. p = ''*'') [n @ '':*'', ''shared:*'']"
    by (cases n) auto
  show w: "can_write (scope_agent n) key \<longleftrightarrow> starts_with key (n @ '':'') \<or> starts_with key ''shared:''"
    using a b c by (simp add: can_write_def scope_agent_def scope_new_def Let_def)
  show "can_read (scope_agent n) key \<longleftrightarrow> starts_with key (n @ '':'') \<or> starts_with key ''shared:''"
    unfolding can_read_def w by (simp add: scope_agent_def scope_new_def Let_def)
qed

lemma namespace_unique:
  assumes "valid_name m" "valid_name n" "starts_with (m @ '':'' @ k) (n @ '':'')"
  shows "m = n"
proof -
  obtain u where u: "m @ '':'' @ k = n @ '':'' @ u" using assms(3) by (auto simp: starts_with_iff)
  have "CHR '':'' \<notin> set m" "CHR '':'' \<notin> set n"
    using valid_name_byte assms(1,2) by blast+
  then have "split_once CHR '':'' (m @ '':'' @ k) = Some (m, k)" "split_once CHR '':'' (n @ '':'' @ u) = Some (n, u)"
    using split_once_first [of "CHR '':''"] by auto
  with u show ?thesis by simp
qed

text \<open>
  C35: by default an agent's token neither reads nor changes a key in another agent's
  namespace, whatever the two names are, unless that namespace is the shared one.
\<close>

theorem agents_are_isolated:
  assumes "valid_name a" "valid_name b" "a \<noteq> b" "b \<noteq> ''shared''" "valid_str (b @ '':'' @ k)"
  shows "\<not> can_read (scope_agent a) (b @ '':'' @ k) \<and> \<not> can_write (scope_agent a) (b @ '':'' @ k)"
proof -
  have sh: "valid_name ''shared''" by code_simp
  have "\<not> starts_with (b @ '':'' @ k) (a @ '':'')"
    using namespace_unique [OF assms(2,1)] assms(3) by blast
  moreover have "\<not> starts_with (b @ '':'' @ k) ''shared:''"
    using namespace_unique [OF assms(2) sh] assms(4) by auto
  ultimately show ?thesis
    unfolding scope_agent_reach [OF assms(1) assms(5)] by blast
qed

lemma agents_are_isolated_witness:
  "\<not> can_read (scope_agent ''ann'') (''ann.b'' @ '':'' @ ''todo'') \<and>
   \<not> can_write (scope_agent ''ann'') (''ann.b'' @ '':'' @ ''todo'')"
proof (rule agents_are_isolated)
  show "valid_name ''ann''" "valid_name ''ann.b''" by code_simp+
qed (simp_all add: ascii_valid byte_of_def)

end
