(* ===== verification/Channels.thy ===== *)
theory Channels
  imports Scope Sorted_Map
begin

text \<open>
  Publish and subscribe (\<open>src/src/broker.rs\<close>): who listens to which channels and patterns,
  what is delivered to whom, when a subscriber too slow is dropped, and the requests that
  wait for a topic to change.

  A subscription's channel end is a queue that the subscriber takes from. \<open>Arc\<close> pointers to
  scopes, compared by address, are numbers.
\<close>

subsection \<open>Replies\<close>

datatype reply =
    R_Simple str
  | R_Int int
  | R_Bulk str
  | R_Nil
  | R_Array "reply list"
  | R_Map "(str \<times> reply) list"
  | R_Error str

subsection \<open>Subscriptions\<close>

definition max_channel :: nat where "max_channel = 256"
definition max_patterns_per_scope :: nat where "max_patterns_per_scope = 64"
definition subscriber_buffer :: nat where "subscriber_buffer = 256"
definition subscriber_bytes :: nat where "subscriber_bytes = 4 * 2 ^ 20"

record delivery =
  dl_channel :: str
  dl_pattern :: "str option"
  dl_message :: str

definition delivery_size :: "delivery \<Rightarrow> nat" where
  "delivery_size d =
     length (dl_channel d) + length (dl_message d) + (case dl_pattern d of Some p \<Rightarrow> length p | None \<Rightarrow> 0)"

record subscription =
  su_channels :: "str list"
  su_patterns :: "glob list"
  su_scope :: scope
  su_pointer :: nat
  su_queue :: "delivery list"
  su_waiting :: nat
  su_keys :: bool
  su_alive :: bool

text \<open>\<open>Deliveries::recv_timeout\<close>: the next message, and its bytes counted down.\<close>

definition take_delivery :: "subscription \<Rightarrow> (delivery \<times> subscription) option" where
  "take_delivery s =
     (case su_queue s of
        [] \<Rightarrow> None
      | d # ds \<Rightarrow> Some (d, s\<lparr>su_queue := ds, su_waiting := su_waiting s - delivery_size d\<rparr>))"

definition hears_keys :: "str list \<Rightarrow> glob list \<Rightarrow> bool" where
  "hears_keys channels patterns \<longleftrightarrow>
     list_ex (\<lambda>c. starts_with c ''__key'') channels \<or>
     list_ex (\<lambda>p. let start = literal_prefix (glob_source p)
                  in starts_with ''__key'' start \<or> starts_with start ''__key'') patterns"

definition live_channels :: "subscription list \<Rightarrow> subscription list" where
  "live_channels subs = filter su_alive subs"

text \<open>\<open>subscribe_channels\<close>: the error, or the subscriptions with the new one last.\<close>

definition subscribe_channels :: "str list \<Rightarrow> str list \<Rightarrow> scope \<Rightarrow> nat \<Rightarrow> subscription list \<Rightarrow>
    str + subscription list" where
  "subscribe_channels channels patterns scp pointer subs =
     (let held = sum_list (map (\<lambda>s. length (su_patterns s)) (filter (\<lambda>s. su_pointer s = pointer) (live_channels subs)))
      in if \<not> scope_is_all scp \<and> patterns \<noteq> [] \<and> held + length patterns > max_patterns_per_scope then
           Inl (''this token already listens with '' @ show_nat held @ '' patterns; it can hold at most '' @
             show_nat max_patterns_per_scope)
         else
           (let globs = map glob_new patterns
            in Inr (live_channels subs @
              [\<lparr>su_channels = channels, su_patterns = globs, su_scope = scp, su_pointer = pointer, su_queue = [],
                su_waiting = 0, su_keys = hears_keys channels globs, su_alive = True\<rparr>])))"

subsection \<open>Publishing\<close>

text \<open>What one subscription is sent: for the channel itself, and for every pattern that matches.\<close>

definition deliveries_for :: "str \<Rightarrow> str \<Rightarrow> subscription \<Rightarrow> delivery list" where
  "deliveries_for channel message s =
     map (\<lambda>p. \<lparr>dl_channel = channel, dl_pattern = p, dl_message = message\<rparr>)
       ((if channel \<in> set (su_channels s) then [None] else []) @
        map (\<lambda>p. Some (glob_source p)) (filter (\<lambda>p. glob_matches p channel) (su_patterns s)))"

text \<open>Sends one after the other, until the subscriber turns out too slow and is dropped.\<close>

fun deliver :: "delivery list \<Rightarrow> subscription \<Rightarrow> nat \<Rightarrow> subscription option \<times> nat" where
  "deliver [] s receivers = (Some s, receivers)"
| "deliver (d # ds) s receivers =
     (if su_waiting s > 0 \<and> su_waiting s + delivery_size d > subscriber_bytes then (None, receivers)
      else if \<not> su_alive s \<or> length (su_queue s) \<ge> subscriber_buffer then (None, receivers)
      else deliver ds (s\<lparr>su_queue := su_queue s @ [d], su_waiting := su_waiting s + delivery_size d\<rparr>) (receivers + 1))"

definition publish_one :: "str \<Rightarrow> str \<Rightarrow> subscription \<Rightarrow> nat \<Rightarrow> subscription option \<times> nat" where
  "publish_one channel message s receivers =
     (if \<not> su_alive s then (None, receivers)
      else if (starts_with channel ''__key'' \<and> \<not> su_keys s) \<or> \<not> can_receive (su_scope s) channel message
      then (Some s, receivers)
      else deliver (deliveries_for channel message s) s receivers)"

fun publish :: "str \<Rightarrow> str \<Rightarrow> subscription list \<Rightarrow> nat \<Rightarrow> subscription list \<times> nat" where
  "publish channel message [] receivers = ([], receivers)"
| "publish channel message (s # subs) receivers =
     (let (kept, receivers) = publish_one channel message s receivers;
          (rest, receivers) = publish channel message subs receivers
      in (case kept of Some s \<Rightarrow> s # rest | None \<Rightarrow> rest, receivers))"

text \<open>\<open>notify\<close>: key changes, when someone listens for them.\<close>

fun notify_each :: "(str \<times> str) list \<Rightarrow> subscription list \<Rightarrow> subscription list" where
  "notify_each [] subs = subs"
| "notify_each ((key, change) # changes) subs =
     notify_each changes
       (fst (publish (''__keyevent__:'' @ change) key
         (fst (publish (''__keyspace__:'' @ key) change subs 0)) 0))"

definition notify :: "(str \<times> str) list \<Rightarrow> subscription list \<Rightarrow> subscription list" where
  "notify changes subs = (if list_ex su_keys (live_channels subs) then notify_each changes subs else subs)"

subsection \<open>PUBSUB\<close>

definition pubsub :: "str list \<Rightarrow> scope \<Rightarrow> subscription list \<Rightarrow> reply" where
  "pubsub argv scp subs =
     (let sub = (if length argv > 1 then to_ascii_uppercase (argv ! 1) else [])
      in if sub = ''CHANNELS'' then
           (case glob_client (if length argv > 2 then argv ! 2 else ''*'') of
              Inl e \<Rightarrow> R_Error e
            | Inr pattern \<Rightarrow>
                R_Array (map R_Bulk (bs_list (bs_of_list
                  (filter (\<lambda>c. glob_matches pattern c \<and> can_use_channel scp c)
                    (concat (map su_channels (live_channels subs))))))))
         else if sub = ''NUMSUB'' then
           R_Array (concat (map (\<lambda>channel.
             [R_Bulk channel, R_Int (int (length (filter (\<lambda>s. channel \<in> set (su_channels s)) (live_channels subs))))])
             (drop 2 argv)))
         else if sub = ''NUMPAT'' then
           R_Int (int (sum_list (map (\<lambda>s. length (su_patterns s))
             (filter (\<lambda>s. scope_is_all scp \<or> su_scope s = scp) (live_channels subs)))))
         else R_Error ''ERR PUBSUB takes CHANNELS [pattern], NUMSUB [channel ...], or NUMPAT'')"

subsection \<open>Requests that wait\<close>

datatype topic = T_Inbox str | T_Room str | T_Key str

text \<open>The requests waiting, and which of them waits for what. Whether a request was signalled
  stands for its condition variable.\<close>

record waiters =
  wt_next :: u64
  wt_signals :: "(u64, bool) btree_map"
  wt_topics :: "(topic \<times> u64 list) list"

definition waiting_for_topic :: "topic \<Rightarrow> waiters \<Rightarrow> u64 list" where
  "waiting_for_topic t w = (case map_of (wt_topics w) t of Some ids \<Rightarrow> ids | None \<Rightarrow> [])"

definition waiters_empty :: waiters where
  "waiters_empty = \<lparr>wt_next = 0, wt_signals = bm_empty, wt_topics = []\<rparr>"

fun add_topic :: "topic \<Rightarrow> u64 \<Rightarrow> (topic \<times> u64 list) list \<Rightarrow> (topic \<times> u64 list) list" where
  "add_topic t i [] = [(t, [i])]"
| "add_topic t i ((u, ids) # ts) = (if u = t then (u, List.insert i ids) # ts else (u, ids) # add_topic t i ts)"

fun remove_topic :: "topic \<Rightarrow> u64 \<Rightarrow> (topic \<times> u64 list) list \<Rightarrow> (topic \<times> u64 list) list" where
  "remove_topic t i [] = []"
| "remove_topic t i ((u, ids) # ts) =
     (if u = t then (let ids = removeAll i ids in if ids = [] then ts else (u, ids) # ts)
      else (u, ids) # remove_topic t i ts)"

definition waiters_add :: "topic list \<Rightarrow> waiters \<Rightarrow> u64 \<times> waiters" where
  "waiters_add topics w =
     (let i = wt_next w
      in (i, w\<lparr>wt_next := i + 1, wt_signals := bm_insert i False (wt_signals w),
               wt_topics := fold (\<lambda>t. add_topic t i) topics (wt_topics w)\<rparr>))"

definition waiters_remove :: "u64 \<Rightarrow> topic list \<Rightarrow> waiters \<Rightarrow> waiters" where
  "waiters_remove i topics w =
     w\<lparr>wt_signals := bm_remove i (wt_signals w), wt_topics := fold (\<lambda>t. remove_topic t i) topics (wt_topics w)\<rparr>"

definition waiters_wake :: "topic list \<Rightarrow> waiters \<Rightarrow> waiters" where
  "waiters_wake topics w =
     fold (\<lambda>t. fold (\<lambda>i w. w\<lparr>wt_signals := bm_update i (\<lambda>_. True) (wt_signals w)\<rparr>) (waiting_for_topic t w)) topics w"

end
