(* ===== verification/Broker_Base.thy ===== *)
theory Broker_Base
  imports Views Memory Channels
begin

text \<open>
  The core of the broker (\<open>src/src/broker.rs\<close>): its errors, its state, how a change is
  journaled and then applied, the events it sends out, and who may replay them.

  Operations return a result and the new state; Rust's \<open>?\<close> leaves what was changed before
  an error in place, and so does \<open>bind_op\<close>. What an operation takes from elsewhere is the
  environment: the codec of the store, the journal, the memory in use, and the tokens drawn
  at random. The journal itself is a parameter here: whether it takes a change is up to it.
\<close>

subsection \<open>Errors\<close>

datatype error =
    BadRequest str
  | Forbidden str
  | NotFound str
  | Conflict str
  | Full str
  | OutOfMemory str
  | Storage str
  | Unsaved str reply

text \<open>
  How an operation fails: with one of the errors above, or by a panic, as when a map is
  indexed with a key it does not hold. What was changed before either stays changed.
\<close>

datatype failure = Refused error | Panicked

fun error_text :: "error \<Rightarrow> str" where
  "error_text (BadRequest m) = m"
| "error_text (Forbidden m) = m"
| "error_text (NotFound m) = m"
| "error_text (Conflict m) = m"
| "error_text (Full m) = m"
| "error_text (OutOfMemory m) = m"
| "error_text (Storage m) = m"
| "error_text (Unsaved m _) = m"

text \<open>A name in double quotes, as the debug format writes one. What reaches the broker passed
  \<open>valid_name\<close> or \<open>valid_key\<close> and is graphic ASCII, of which only quotes and backslashes are
  escaped.\<close>

definition escaped :: "char \<Rightarrow> str" where
  "escaped ch = (if byte_of ch = 34 \<or> byte_of ch = 92 then [CHR 92, ch] else [ch])"

definition quoted :: "str \<Rightarrow> str" where
  "quoted s = [CHR 34] @ concat (map escaped s) @ [CHR 34]"

definition halted_text :: str where
  "halted_text = ''READONLY a request failed partway through a change, which may be left half made; no more changes are taken until the server restarts''"

definition event_history :: nat where "event_history = 1000"
definition sweep_batch :: nat where "sweep_batch = 1000"
definition max_sessions_per_agent :: nat where "max_sessions_per_agent = 32"
definition max_members :: nat where "max_members = 256"
definition max_board_keys :: nat where "max_board_keys = 256"
definition max_addressees :: nat where "max_addressees = 32"
definition max_options :: nat where "max_options = 16"
definition max_open_questions :: nat where "max_open_questions = 128"

text \<open>The part of a shared limit one agent may take.\<close>

definition share :: "nat \<Rightarrow> nat" where
  "share limit = max (limit div 4) 1"

subsection \<open>State\<close>

record event =
  ev_id :: u64
  ev_scope :: "str list option"
  ev_json :: json

text \<open>A subscriber: the events sent to it and not yet taken, and whether it still listens.\<close>

record subscriber =
  sub_queue :: "event list"
  sub_agent :: "str option"
  sub_alive :: bool

record events =
  ev_next :: u64
  ev_ring :: "event list"
  ev_subscribers :: "subscriber list"
  ev_handovers :: "(str, u64) btree_map"

definition events_new :: "u64 \<Rightarrow> events" where
  "events_new now = \<lparr>ev_next = now * 1000, ev_ring = [], ev_subscribers = [], ev_handovers = bm_empty\<rparr>"

definition event_visible :: "event \<Rightarrow> str option \<Rightarrow> bool" where
  "event_visible e agent =
     (case agent of None \<Rightarrow> True
      | Some a \<Rightarrow> (case ev_scope e of None \<Rightarrow> True | Some names \<Rightarrow> a \<in> set names))"

record 'j core =
  c_store :: store
  c_limits :: limits
  c_journal :: "'j option"
  c_events :: events
  c_channels :: "subscription list"
  c_wake :: "topic list"
  c_waiters :: waiters
  c_tokens :: "str btree_set"
  c_deferred :: bool
  c_halted :: bool
  c_drawn :: nat

definition core_new :: "store \<Rightarrow> limits \<Rightarrow> 'j option \<Rightarrow> u64 \<Rightarrow> 'j core" where
  "core_new st lim journal now =
     \<lparr>c_store = st, c_limits = lim, c_journal = journal, c_events = events_new now, c_channels = [],
      c_wake = [], c_waiters = waiters_empty,
      c_tokens = bm_empty, c_deferred = False, c_halted = False, c_drawn = 0\<rparr>"

definition set_token_agents :: "str list \<Rightarrow> 'j core \<Rightarrow> 'j core" where
  "set_token_agents names c = c\<lparr>c_tokens := bs_of_list names\<rparr>"

text \<open>The environment of an operation. The journal gives back its new state and, when it
  could not take the change, why.\<close>

record 'j env =
  en_codec :: codec
  en_append :: "effect \<Rightarrow> 'j \<Rightarrow> 'j \<times> str option"
  en_defer :: "effect \<Rightarrow> 'j \<Rightarrow> 'j \<times> str option"
  en_defers :: "'j \<Rightarrow> bool"
  en_batching :: bool
  en_in_use :: nat
  en_mib :: "nat \<Rightarrow> str"
  en_random :: "nat \<Rightarrow> str"

subsection \<open>Operations\<close>

type_synonym ('j, 'a) op = "'j core \<Rightarrow> 'j core \<times> (failure + 'a)"

definition ret :: "'a \<Rightarrow> ('j, 'a) op" where
  "ret x c = (c, Inr x)"

definition refuse :: "error \<Rightarrow> ('j, 'a) op" where
  "refuse e c = (c, Inl (Refused e))"

definition panic :: "('j, 'a) op" where
  "panic c = (c, Inl Panicked)"

definition bind_op :: "('j, 'a) op \<Rightarrow> ('a \<Rightarrow> ('j, 'b) op) \<Rightarrow> ('j, 'b) op" where
  "bind_op m f c = (case m c of (c', Inl e) \<Rightarrow> (c', Inl e) | (c', Inr x) \<Rightarrow> f x c')"

definition then_op :: "('j, 'a) op \<Rightarrow> ('j, 'b) op \<Rightarrow> ('j, 'b) op" where
  "then_op m n = bind_op m (\<lambda>_. n)"

text \<open>What the state says now, an operation that looks at the state first, and a change that
  cannot fail.\<close>

definition gets :: "('j core \<Rightarrow> 'a) \<Rightarrow> ('j, 'a) op" where
  "gets f c = (c, Inr (f c))"

definition look :: "('j core \<Rightarrow> ('j, 'a) op) \<Rightarrow> ('j, 'a) op" where
  "look g c = g c c"

definition modify :: "('j core \<Rightarrow> 'j core) \<Rightarrow> ('j, unit) op" where
  "modify f c = (f c, Inr ())"

text \<open>A question put to the store that may refuse, and an index that panics on a key that is
  not there.\<close>

definition reading :: "(store \<Rightarrow> error + 'a) \<Rightarrow> ('j, 'a) op" where
  "reading f = look (\<lambda>c. case f (c_store c) of Inl e \<Rightarrow> refuse e | Inr x \<Rightarrow> ret x)"

definition indexed :: "(store \<Rightarrow> 'a option) \<Rightarrow> ('j, 'a) op" where
  "indexed f = look (\<lambda>c. case f (c_store c) of None \<Rightarrow> panic | Some x \<Rightarrow> ret x)"

primrec each_op :: "('a \<Rightarrow> ('j, unit) op) \<Rightarrow> 'a list \<Rightarrow> ('j, unit) op" where
  "each_op f [] = ret ()"
| "each_op f (x # xs) = then_op (f x) (each_op f xs)"

primrec collect_op :: "('a \<Rightarrow> ('j, 'b) op) \<Rightarrow> 'a list \<Rightarrow> ('j, 'b list) op" where
  "collect_op f [] = ret []"
| "collect_op f (x # xs) = bind_op (f x) (\<lambda>y. bind_op (collect_op f xs) (\<lambda>ys. ret (y # ys)))"

subsection \<open>Changes\<close>

text \<open>\<open>commit\<close>: journaled first, applied only if the journal took it.\<close>

definition apply_commit :: "'j env \<Rightarrow> effect \<Rightarrow> 'j core \<Rightarrow> 'j core" where
  "apply_commit en e c = c\<lparr>c_store := apply_effect (en_codec en) e (c_store c)\<rparr>"

definition commit :: "'j env \<Rightarrow> effect \<Rightarrow> ('j, unit) op" where
  "commit en e c =
     (if c_halted c then (c, Inl (Refused (Storage halted_text)))
      else case c_journal c of
        None \<Rightarrow> (apply_commit en e c, Inr ())
      | Some j \<Rightarrow>
          (let defer = en_batching en \<and> en_defers en j;
               c = (if defer then c\<lparr>c_deferred := True\<rparr> else c)
           in case (if defer then en_defer en e j else en_append en e j) of
                (j, Some why) \<Rightarrow> (c\<lparr>c_journal := Some j\<rparr>, Inl (Refused (Storage (''journal write failed: '' @ why))))
              | (j, None) \<Rightarrow> (apply_commit en e (c\<lparr>c_journal := Some j\<rparr>), Inr ())))"

definition wake :: "topic \<Rightarrow> 'j core \<Rightarrow> 'j core" where
  "wake t c = c\<lparr>c_wake := c_wake c @ [t]\<rparr>"

subsection \<open>Events\<close>

text \<open>\<open>try_send\<close>: a subscriber that left or fell too far behind is dropped.\<close>

definition offer :: "event \<Rightarrow> subscriber \<Rightarrow> subscriber option" where
  "offer e s =
     (if \<not> event_visible e (sub_agent s) then Some s
      else if \<not> sub_alive s \<or> length (sub_queue s) \<ge> subscriber_buffer then None
      else Some (s\<lparr>sub_queue := sub_queue s @ [e]\<rparr>))"

definition push_ring :: "event \<Rightarrow> event list \<Rightarrow> event list" where
  "push_ring e ring = (if length ring = event_history then tl ring else ring) @ [e]"

definition publish_event :: "str \<Rightarrow> str list option \<Rightarrow> (str \<times> json) list \<Rightarrow> u64 \<Rightarrow> events \<Rightarrow> events" where
  "publish_event ev_kind audience data now evs =
     (let i = ev_next evs;
          object = fields_of [(''id'', J_Int (uint i)), (''type'', J_Str ev_kind), (''at'', j_time now)];
          e = \<lparr>ev_id = i, ev_scope = audience, ev_json = J_Obj (fold (\<lambda>(k, v). put_field k v) data object)\<rparr>
      in evs\<lparr>ev_next := i + 1, ev_ring := push_ring e (ev_ring evs),
             ev_subscribers := List.map_filter (offer e) (ev_subscribers evs)\<rparr>)"

definition emit :: "str \<Rightarrow> str list \<Rightarrow> (str \<times> json) list \<Rightarrow> u64 \<Rightarrow> 'j core \<Rightarrow> 'j core" where
  "emit ev_kind names data now c = c\<lparr>c_events := publish_event ev_kind (Some names) data now (c_events c)\<rparr>"

definition emit_all :: "str \<Rightarrow> (str \<times> json) list \<Rightarrow> u64 \<Rightarrow> 'j core \<Rightarrow> 'j core" where
  "emit_all ev_kind data now c = c\<lparr>c_events := publish_event ev_kind None data now (c_events c)\<rparr>"

definition ring_oldest :: "events \<Rightarrow> u64 option" where
  "ring_oldest evs = (case ev_ring evs of [] \<Rightarrow> None | e # _ \<Rightarrow> Some (ev_id e))"

definition must_resync :: "u64 option \<Rightarrow> events \<Rightarrow> bool" where
  "must_resync after evs =
     (case (after, ring_oldest evs) of
        (Some a, Some oldest) \<Rightarrow> sat_add a 1 < oldest \<or> a \<ge> ev_next evs
      | (Some a, None) \<Rightarrow> sat_add a 1 < ev_next evs \<or> a \<ge> ev_next evs
      | (None, _) \<Rightarrow> False)"

definition replayed :: "u64 option \<Rightarrow> str option \<Rightarrow> events \<Rightarrow> event list" where
  "replayed after agent evs =
     (let since = (case Option.bind agent (bm_get (ev_handovers evs)) of Some s \<Rightarrow> s | None \<Rightarrow> 0)
      in case after of
           Some a \<Rightarrow>
             (if must_resync after evs then []
              else filter (\<lambda>e. ev_id e > a \<and> ev_id e \<ge> since \<and> event_visible e agent) (ev_ring evs))
         | None \<Rightarrow> [])"

text \<open>\<open>subscribe\<close>: what is replayed, whether the client has to start over, and the new
  subscriber, after those that left.\<close>

definition subscribe :: "u64 option \<Rightarrow> str option \<Rightarrow> events \<Rightarrow> event list \<times> bool \<times> events" where
  "subscribe after agent evs =
     (replayed after agent evs, must_resync after evs,
      evs\<lparr>ev_subscribers := filter sub_alive (ev_subscribers evs) @
        [\<lparr>sub_queue = [], sub_agent = agent, sub_alive = True\<rparr>]\<rparr>)"

definition hand_over :: "str \<Rightarrow> events \<Rightarrow> events" where
  "hand_over name evs =
     (let oldest = (case ring_oldest evs of Some o' \<Rightarrow> o' | None \<Rightarrow> ev_next evs)
      in evs\<lparr>ev_handovers := bm_insert name (ev_next evs) (bm_filter (\<lambda>_ since. since > oldest) (ev_handovers evs)),
             ev_subscribers := filter (\<lambda>s. sub_agent s \<noteq> Some name) (ev_subscribers evs)\<rparr>)"

definition hand_over_core :: "str \<Rightarrow> 'j core \<Rightarrow> 'j core" where
  "hand_over_core name c = c\<lparr>c_events := hand_over name (c_events c)\<rparr>"

subsection \<open>Limits\<close>

text \<open>\<open>over_memory\<close> and \<open>room_to_grow\<close>.\<close>

definition over_memory :: "'j env \<Rightarrow> 'j core \<Rightarrow> str option" where
  "over_memory en c =
     (let limit = max_memory (c_limits c); used = en_in_use en
      in if limit > 0 \<and> used > limit
         then Some (''OOM the server is using '' @ en_mib en used @ '' of its '' @ en_mib en limit @
           '' limit (POSTINO_MAX_MEMORY); delete data or raise the limit'')
         else None)"

definition room_to_grow :: "'j env \<Rightarrow> ('j, unit) op" where
  "room_to_grow en = look (\<lambda>c. case over_memory en c of Some m \<Rightarrow> refuse (OutOfMemory m) | None \<Rightarrow> ret ())"

end
