(* ===== verification/Broker_Agents.thy ===== *)
theory Broker_Agents
  imports Broker_Base
begin

text \<open>
  Agents and their presence (\<open>src/src/broker.rs\<close>): the bounded namespace of agents, which of
  them may be forgotten, sessions, leaving and renaming.
\<close>

subsection \<open>The namespace of agents\<close>

definition is_online :: "str \<Rightarrow> u64 \<Rightarrow> 'j core \<Rightarrow> bool" where
  "is_online agent now c \<longleftrightarrow> live_sessions agent now (c_store c) > 0"

text \<open>Agents nothing holds on to, the longest unseen first. The sort is stable, over agents in
  the order of their names.\<close>

definition removable :: "u64 \<Rightarrow> 'j core \<Rightarrow> str list" where
  "removable now c =
     (let st = c_store c; online = online_counts now st; members = room_members st
      in map ag_name (sort_key ag_last_seen
           (filter (\<lambda>a. \<not> bm_contains online (ag_name a) \<and> ag_name a \<notin> bs_elems members \<and>
              counts_pending (agent_counts (ag_name a) st) = 0) (bm_values (agents st)))))"

definition forget_one :: "'j env \<Rightarrow> str \<Rightarrow> u64 \<Rightarrow> ('j, unit) op" where
  "forget_one en name now =
     then_op (commit en (E_Forget name))
       (modify (\<lambda>c. hand_over_core name (emit ''removed'' [name] [(''agent'', J_Str name)] now c)))"

fun missing_names :: "store \<Rightarrow> str list \<Rightarrow> str list \<Rightarrow> str list" where
  "missing_names st [] found = found"
| "missing_names st (name # names) found =
     missing_names st names
       (if \<not> bm_contains (agents st) name \<and> name \<notin> set found then found @ [name] else found)"

definition add_agent :: "'j env \<Rightarrow> u64 \<Rightarrow> str \<Rightarrow> ('j, unit) op" where
  "add_agent en now name =
     then_op (commit en (E_Agent name now)) (modify (emit ''agent'' [name] [(''agent'', J_Str name)] now))"

definition ensure_agents :: "'j env \<Rightarrow> str list \<Rightarrow> u64 \<Rightarrow> ('j, unit) op" where
  "ensure_agents en names now = look (\<lambda>c.
     let missing = missing_names (c_store c) names [];
          overflow = bm_len (agents (c_store c)) + length missing - max_agents (c_limits c);
          spare = filter (\<lambda>name. name \<notin> set names) (removable now c)
      in if missing = [] then ret ()
         else if overflow > 0 \<and> length spare < overflow
         then refuse (Full (''agent namespace is full (maximum '' @ show_nat (max_agents (c_limits c)) @ '')''))
         else then_op (each_op (\<lambda>name. forget_one en name now) (if overflow > 0 then take overflow spare else []))
                (each_op (add_agent en now) missing))"

definition cleanup :: "'j env \<Rightarrow> u64 \<Rightarrow> ('j, str list) op" where
  "cleanup en now =
     bind_op (gets (removable now)) (\<lambda>removed.
       then_op (each_op (\<lambda>name. forget_one en name now) removed) (ret removed))"

definition forget :: "'j env \<Rightarrow> str \<Rightarrow> u64 \<Rightarrow> ('j, unit) op" where
  "forget en name now = look (\<lambda>c.
     if \<not> bm_contains (agents (c_store c)) name then refuse (NotFound (''unknown agent '' @ quoted name))
     else forget_one en name now)"

subsection \<open>Presence\<close>

record presence_request =
  pr_agent :: str
  pr_session :: str
  pr_client :: str
  pr_pid :: "u32 option"
  pr_host :: "str option"
  pr_ttl :: u64

text \<open>An agent at its limit of sessions loses those that end first.\<close>

definition own_sessions :: "str \<Rightarrow> store \<Rightarrow> (u64 \<times> str) list" where
  "own_sessions agent st =
     map (\<lambda>(i, s). (se_expires s, i)) (filter (\<lambda>(_, s). se_agent s = agent) (bm_entries (sessions st)))"

definition drop_sessions :: "str \<Rightarrow> store \<Rightarrow> store" where
  "drop_sessions agent st =
     (let own = own_sessions agent st
      in if length own \<ge> max_sessions_per_agent
         then st\<lparr>sessions := fold (\<lambda>(_, i). bm_remove i)
                (take (length own - max_sessions_per_agent + 1) (sort own)) (sessions st)\<rparr>
         else st)"

definition see_agent :: "str \<Rightarrow> u64 \<Rightarrow> store \<Rightarrow> store" where
  "see_agent agent now st = st\<lparr>agents := bm_update agent (\<lambda>a. a\<lparr>ag_last_seen := now\<rparr>) (agents st)\<rparr>"

definition keep_session :: "presence_request \<Rightarrow> u64 \<Rightarrow> store \<Rightarrow> store" where
  "keep_session req now st =
     (let st = (if bm_contains (sessions st) (pr_session req) then st else drop_sessions (pr_agent req) st);
          started = (case bm_get (sessions st) (pr_session req) of
                       Some s \<Rightarrow> if se_agent s = pr_agent req then se_started s else now
                     | None \<Rightarrow> now);
          st = st\<lparr>sessions := bm_insert (pr_session req)
                 \<lparr>se_agent = pr_agent req, se_client = pr_client req, se_started = started,
                  se_expires = now + pr_ttl req, se_pid = pr_pid req, se_host = pr_host req\<rparr> (sessions st)\<rparr>
      in see_agent (pr_agent req) now st)"

definition with_store :: "(store \<Rightarrow> store) \<Rightarrow> 'j core \<Rightarrow> 'j core" where
  "with_store f c = c\<lparr>c_store := f (c_store c)\<rparr>"

definition presence_event :: "str \<Rightarrow> bool \<Rightarrow> u64 \<Rightarrow> 'j core \<Rightarrow> 'j core" where
  "presence_event agent online now =
     emit ''presence'' [agent] [(''agent'', J_Str agent), (''online'', J_Bool online)] now"

definition presence :: "'j env \<Rightarrow> presence_request \<Rightarrow> u64 \<Rightarrow> ('j, u64) op" where
  "presence en req now =
     bind_op (gets (\<lambda>c. case bm_get (sessions (c_store c)) (pr_session req) of
         Some s \<Rightarrow> se_agent s \<noteq> pr_agent req | None \<Rightarrow> False)) (\<lambda>taken.
       if taken then refuse (Conflict ''session id belongs to another agent'')
       else then_op (ensure_agents en [pr_agent req] now)
         (bind_op (gets (is_online (pr_agent req) now)) (\<lambda>was_online.
           then_op (modify (with_store (keep_session req now)))
             (then_op (if was_online then ret () else modify (presence_event (pr_agent req) True now))
               (ret (now + pr_ttl req))))))"

definition leave :: "str \<Rightarrow> str \<Rightarrow> u64 \<Rightarrow> 'j core \<Rightarrow> 'j core" where
  "leave agent session now c =
     (case bm_get (sessions (c_store c)) session of
        None \<Rightarrow> c
      | Some s \<Rightarrow>
          if se_agent s \<noteq> agent then c
          else
            (let c = with_store (\<lambda>st. see_agent agent now (st\<lparr>sessions := bm_remove session (sessions st)\<rparr>)) c
             in if is_online agent now c then c else presence_event agent False now c))"

subsection \<open>Renaming\<close>

definition rename :: "'j env \<Rightarrow> str \<Rightarrow> str \<Rightarrow> u64 \<Rightarrow> ('j, unit) op" where
  "rename en frm to now = look (\<lambda>c.
     let st = c_store c; live = live_sessions frm now st in
     if frm = to then ret ()
     else if \<not> bm_contains (agents st) frm then refuse (NotFound (''unknown agent '' @ quoted frm))
     else if live > 1 then
       refuse (Conflict (''cannot rename '' @ quoted frm @ '' while '' @ show_nat live @ '' instances are online''))
     else if bm_contains (agents st) to \<and> (is_online to now c \<or> counts_pending (agent_counts to st) > 0) then
       refuse (Conflict (''agent name '' @ quoted to @ '' is already in use''))
     else
       then_op (if bm_contains (agents st) to then commit en (E_Forget to) else ret ())
         (then_op (commit en (E_Rename frm to))
           (modify (\<lambda>c. hand_over_core to (hand_over_core frm
             (emit ''rename'' [frm, to] [(''from'', J_Str frm), (''to'', J_Str to)] now (wake (T_Inbox to) c)))))))"

subsection \<open>Who is known\<close>

definition operator_name :: str where
  "operator_name = ''operator''"

definition known_agent :: "str \<Rightarrow> 'j core \<Rightarrow> bool" where
  "known_agent name c \<longleftrightarrow> bm_contains (agents (c_store c)) name"

definition require_known :: "str \<Rightarrow> ('j, unit) op" where
  "require_known name = look (\<lambda>c.
     if name = operator_name \<or> bm_contains (agents (c_store c)) name \<or> name \<in> bs_elems (c_tokens c) then ret ()
     else
       (let known = take 25 (bm_keys (agents (c_store c)))
        in refuse (NotFound
             (if known = [] then ''unknown agent '' @ quoted name @ ''; no agents are registered yet''
              else ''unknown agent '' @ quoted name @ ''; known agents: '' @ join '', '' known))))"

definition name_in_use :: "str \<Rightarrow> 'j core \<Rightarrow> bool" where
  "name_in_use name c \<longleftrightarrow>
     (let st = c_store c in
      bm_contains (agents st) name \<or>
      list_ex (\<lambda>m. m_from m = name \<or> m_to m = name) (bm_values (cmap (messages st))) \<or>
      list_ex (\<lambda>b. b_from b = name) (bm_values (broadcasts st)) \<or>
      list_ex (\<lambda>r. rm_created_by r = name \<or> bm_contains (rm_members r) name \<or>
        list_ex (\<lambda>p. p_from p = name \<or> (case p_ask p of Some a \<Rightarrow> name \<in> set (ask_to a) | None \<Rightarrow> False))
          (bm_values (rm_posts r))) (bm_values (cmap (rooms st))))"

text \<open>An agent as others see it. Indexing \<open>agents[name]\<close> panics on a name that is not there: \<open>None\<close>.\<close>

definition agent_json :: "'j core \<Rightarrow> str \<Rightarrow> nat \<Rightarrow> json option" where
  "agent_json c name online =
     (let n = agent_counts name (c_store c) in
      map_option (\<lambda>a.
        j_obj [(''name'', J_Str name), (''online'', J_Bool (online > 0)), (''sessions'', J_Int (int online)),
          (''queued'', J_Int (int (ct_queued n))), (''leased'', J_Int (int (ct_leased n))), (''dead'', J_Int (int (ct_dead n))),
          (''pending'', J_Int (int (counts_pending n))), (''messageCount'', J_Int (int (counts_pending n))),
          (''unseenBroadcasts'', J_Int (int (unseen_broadcasts name (c_store c)))), (''lastSeen'', j_time (ag_last_seen a))])
        (bm_get (agents (c_store c)) name))"

definition agents_json :: "'j core \<Rightarrow> u64 \<Rightarrow> str option \<Rightarrow> json option list" where
  "agents_json c now viewer =
     (let online = online_counts now (c_store c) in
      map (\<lambda>a.
        let count = (case bm_get online (ag_name a) of Some n \<Rightarrow> n | None \<Rightarrow> 0) in
        if viewer = None \<or> viewer = Some (ag_name a) then agent_json c (ag_name a) count
        else Some (j_obj [(''name'', J_Str (ag_name a)), (''online'', J_Bool (count > 0)), (''sessions'', J_Int (int count)),
          (''lastSeen'', j_time (ag_last_seen a))]))
        (bm_values (agents (c_store c))))"

end
