(* ===== verification/Broker_Rules.thy ===== *)
theory Broker_Rules
  imports Broker_Agents
begin

text \<open>
  Rules for reasoning about the broker's operations. \<open>keeps\<close>: an invariant survives an
  operation, also one that fails halfway. \<open>wp\<close>: the operation does not panic, and gives
  what is asked of it unless it refuses.
\<close>

named_theorems keeps_rules \<open>invariants through the operations\<close>

definition keeps :: "('j core \<Rightarrow> bool) \<Rightarrow> ('j, 'a) op \<Rightarrow> bool" where
  "keeps P m \<longleftrightarrow> (\<forall>c. P c \<longrightarrow> P (fst (m c)))"

definition wp :: "('j, 'a) op \<Rightarrow> ('a \<Rightarrow> 'j core \<Rightarrow> bool) \<Rightarrow> 'j core \<Rightarrow> bool" where
  "wp m Q c = (case m c of (c', Inr x) \<Rightarrow> Q x c' | (_, Inl (Refused _)) \<Rightarrow> True | (_, Inl Panicked) \<Rightarrow> False)"

lemma keepsI: "(\<And>c. P c \<Longrightarrow> P (fst (m c))) \<Longrightarrow> keeps P m"
  by (simp add: keeps_def)

lemma keepsD: "keeps P m \<Longrightarrow> P c \<Longrightarrow> P (fst (m c))"
  by (simp add: keeps_def)

lemma wpD: "wp m Q c \<Longrightarrow> m c = (c', Inr x) \<Longrightarrow> Q x c'"
  by (simp add: wp_def)

lemma wp_calm: "wp m Q c \<Longrightarrow> snd (m c) \<noteq> Inl Panicked"
  by (auto simp: wp_def split: prod.splits)

lemma wp_mono: "wp m Q c \<Longrightarrow> (\<And>x c'. Q x c' \<Longrightarrow> R x c') \<Longrightarrow> wp m R c"
  by (auto simp: wp_def split: prod.splits sum.splits failure.splits)

lemma bind_op_cases:
  obtains (fails) c' e where "m c = (c', Inl e)" "bind_op m f c = (c', Inl e)"
  | (goes) c' x where "m c = (c', Inr x)" "bind_op m f c = f x c'"
  by (cases "m c"; cases "snd (m c)") (auto simp: bind_op_def)

lemma bind_op_Inr: "bind_op m f c = (c', Inr y) \<longleftrightarrow> (\<exists>c1 x. m c = (c1, Inr x) \<and> f x c1 = (c', Inr y))"
  by (cases "m c"; cases "snd (m c)") (auto simp: bind_op_def)

lemma then_op_Inr: "then_op m n c = (c', Inr y) \<longleftrightarrow> (\<exists>c1 x. m c = (c1, Inr x) \<and> n c1 = (c', Inr y))"
  by (simp add: then_op_def bind_op_Inr)

lemma op_simps [simp]:
  "ret x c = (c, Inr x)" "refuse e c = (c, Inl (Refused e))" "gets g c = (c, Inr (g c))" "modify f c = (f c, Inr ())"
  "panic c = (c, Inl Panicked)"
  by (simp_all add: ret_def refuse_def gets_def modify_def panic_def)

lemma indexed_Inr: "indexed f c = (c', Inr x) \<longleftrightarrow> c' = c \<and> f (c_store c) = Some x"
  by (auto simp: indexed_def look_def split: option.splits)

lemma reading_Inr: "reading f c = (c', Inr x) \<longleftrightarrow> c' = c \<and> f (c_store c) = Inr x"
  by (auto simp: reading_def look_def split: sum.splits)

lemma wp_simps [simp]:
  "wp (ret x) Q c = Q x c" "wp (refuse e) Q c" "wp panic Q c = False" "wp (gets g) Q c = Q (g c) c"
  "wp (look h) Q c = wp (h c) Q c"
  "wp (bind_op m k) Q c = wp m (\<lambda>x. wp (k x) Q) c" "wp (then_op m n) Q c = wp m (\<lambda>_. wp n Q) c"
  by (auto simp: wp_def look_def bind_op_def then_op_def split: prod.splits sum.splits failure.splits)

lemma wp_modify [simp]: "wp (modify f) Q c = Q () (f c)"
  by (simp add: wp_def)

lemma wp_indexed [simp]: "wp (indexed f) Q c \<longleftrightarrow> (\<exists>x. f (c_store c) = Some x \<and> Q x c)"
  by (cases "f (c_store c)") (auto simp: indexed_def)

lemma wp_reading [simp]: "wp (reading f) Q c \<longleftrightarrow> (\<forall>x. f (c_store c) = Inr x \<longrightarrow> Q x c)"
  by (cases "f (c_store c)") (auto simp: reading_def)

lemma wp_each:
  assumes "P c" "\<And>x c. x \<in> set xs \<Longrightarrow> P c \<Longrightarrow> wp (f x) (\<lambda>_. P) c" "\<And>c. P c \<Longrightarrow> Q () c"
  shows "wp (each_op f xs) Q c"
  using assms
proof (induction xs arbitrary: c)
  case (Cons x xs)
  have "wp (f x) (\<lambda>_. P) c" using Cons.prems by simp
  then show ?case unfolding each_op.simps wp_simps by (rule wp_mono) (use Cons in auto)
qed simp

lemma wp_keeps: "keeps P m \<Longrightarrow> wp m Q c \<Longrightarrow> P c \<Longrightarrow> wp m (\<lambda>x c. Q x c \<and> P c) c"
  by (auto simp: wp_def keeps_def split: prod.splits sum.splits failure.splits)

lemma keeps_basic [keeps_rules]:
  "keeps P (ret x)" "keeps P (refuse e)" "keeps P (gets g)" "keeps P panic" "keeps P (reading h)" "keeps P (indexed k)"
  by (simp_all add: keeps_def reading_def indexed_def look_def split: sum.split option.split)

lemma keeps_modify [keeps_rules]: "(\<And>c. P c \<Longrightarrow> P (f c)) \<Longrightarrow> keeps P (modify f)"
  by (simp add: keeps_def)

lemma keeps_bind [keeps_rules]: "keeps P m \<Longrightarrow> (\<And>x. keeps P (f x)) \<Longrightarrow> keeps P (bind_op m f)"
proof (rule keepsI)
  fix c assume a: "keeps P m" "\<And>x. keeps P (f x)" "P c"
  show "P (fst (bind_op m f c))"
    using keepsD [OF a(1,3)] keepsD [OF a(2)] by (cases rule: bind_op_cases [of m c f]) auto
qed

lemma keeps_then [keeps_rules]: "keeps P m \<Longrightarrow> keeps P n \<Longrightarrow> keeps P (then_op m n)"
  by (simp add: then_op_def keeps_bind)

lemma keeps_each [keeps_rules]: "(\<And>x. keeps P (f x)) \<Longrightarrow> keeps P (each_op f xs)"
  by (induction xs) (simp_all add: keeps_rules)

lemma keeps_collect [keeps_rules]: "(\<And>x. keeps P (f x)) \<Longrightarrow> keeps P (collect_op f xs)"
  by (induction xs) (simp_all add: keeps_rules)

lemma keeps_if [keeps_rules]: "(b \<Longrightarrow> keeps P m) \<Longrightarrow> (\<not> b \<Longrightarrow> keeps P n) \<Longrightarrow> keeps P (if b then m else n)"
  by simp

lemma keeps_case_option [keeps_rules]:
  "(o' = None \<Longrightarrow> keeps P m) \<Longrightarrow> (\<And>x. o' = Some x \<Longrightarrow> keeps P (f x)) \<Longrightarrow> keeps P (case o' of None \<Rightarrow> m | Some x \<Rightarrow> f x)"
  by (cases o') auto

lemma keeps_case_prod [keeps_rules]: "(\<And>a b. p = (a, b) \<Longrightarrow> keeps P (f a b)) \<Longrightarrow> keeps P (case p of (a, b) \<Rightarrow> f a b)"
  by (cases p) auto

lemma keeps_look [keeps_rules]: "(\<And>c. P c \<Longrightarrow> keeps P (g c)) \<Longrightarrow> keeps P (look g)"
  by (simp add: keeps_def look_def)

lemma keeps_let [keeps_rules]: "keeps P (f v) \<Longrightarrow> keeps P (let x = v in f x)"
  by simp

subsection \<open>What a commit does\<close>

lemma commit_cases:
  obtains (refused) c' why where "commit en e c = (c', Inl (Refused (Storage why)))"
      "c_store c' = c_store c" "c_limits c' = c_limits c" "c_events c' = c_events c" "c_wake c' = c_wake c"
      "c_tokens c' = c_tokens c" "c_drawn c' = c_drawn c"
  | (taken) c' where "commit en e c = (c', Inr ())" "c_store c' = apply_effect (en_codec en) e (c_store c)"
      "c_limits c' = c_limits c" "c_events c' = c_events c" "c_wake c' = c_wake c" "c_tokens c' = c_tokens c"
      "c_drawn c' = c_drawn c"
proof (cases "c_halted c")
  case True
  then show ?thesis by (intro refused [of c]) (auto simp: commit_def)
next
  case False
  show ?thesis
  proof (cases "c_journal c")
    case None
    with False show ?thesis
      by (intro taken [of "apply_commit en e c"]) (auto simp: commit_def apply_commit_def)
  next
    case (Some j)
    define d where "d = (en_batching en \<and> en_defers en j)"
    define c1 where "c1 = (if d then c\<lparr>c_deferred := True\<rparr> else c)"
    obtain j' why where j: "(if d then en_defer en e j else en_append en e j) = (j', why)" by fastforce
    have c: "commit en e c = (case why of
        Some why \<Rightarrow> (c1\<lparr>c_journal := Some j'\<rparr>, Inl (Refused (Storage (''journal write failed: '' @ why))))
      | None \<Rightarrow> (apply_commit en e (c1\<lparr>c_journal := Some j'\<rparr>), Inr ()))"
      using False Some by (simp add: commit_def Let_def d_def [symmetric] j c1_def [symmetric] split: option.split)
    show ?thesis
    proof (cases why)
      case None
      with c show ?thesis
        by (intro taken [of "apply_commit en e (c1\<lparr>c_journal := Some j'\<rparr>)"]) (auto simp: apply_commit_def c1_def)
    next
      case (Some w)
      with c show ?thesis by (intro refused [of "c1\<lparr>c_journal := Some j'\<rparr>"]) (auto simp: c1_def)
    qed
  qed
qed

lemma commit_Inr:
  assumes "commit en e c = (c', Inr x)"
  shows "c_store c' = apply_effect (en_codec en) e (c_store c)" "c_limits c' = c_limits c" "c_events c' = c_events c"
    "c_wake c' = c_wake c" "c_tokens c' = c_tokens c" "c_drawn c' = c_drawn c"
  using assms by (cases rule: commit_cases [of en e c]; simp)+

lemma wp_commit:
  assumes "\<And>c'. c_store c' = apply_effect (en_codec en) e (c_store c) \<Longrightarrow> c_limits c' = c_limits c \<Longrightarrow>
      c_tokens c' = c_tokens c \<Longrightarrow> c_drawn c' = c_drawn c \<Longrightarrow> Q () c'"
  shows "wp (commit en e) Q c"
  using assms by (cases rule: commit_cases [of en e c]) (simp_all add: wp_def)

lemma commit_store: "c_store (fst (commit en e c)) = c_store c \<or> c_store (fst (commit en e c)) = apply_effect (en_codec en) e (c_store c)"
  by (cases rule: commit_cases [of en e c]) auto

text \<open>Without a journal, and not halted, a commit always succeeds.\<close>

lemma commit_memory:
  "\<not> c_halted c \<Longrightarrow> c_journal c = None \<Longrightarrow> commit en e c = (apply_commit en e c, Inr ())"
  by (simp add: commit_def)

lemma core_frame [simp, frame_simps]:
  "c_store (emit k ns d now c) = c_store c" "c_limits (emit k ns d now c) = c_limits c"
  "c_store (emit_all k d now c) = c_store c" "c_limits (emit_all k d now c) = c_limits c"
  "c_store (wake t c) = c_store c" "c_limits (wake t c) = c_limits c"
  "c_store (hand_over_core n c) = c_store c" "c_limits (hand_over_core n c) = c_limits c"
  "c_tokens (emit k ns d now c) = c_tokens c" "c_tokens (wake t c) = c_tokens c"
  "c_store (with_store g c) = g (c_store c)" "c_limits (with_store g c) = c_limits c"
  "c_store (presence_event a b now c) = c_store c" "c_limits (presence_event a b now c) = c_limits c"
  by (simp_all add: emit_def emit_all_def wake_def hand_over_core_def with_store_def presence_event_def)

subsection \<open>The store under the broker\<close>

text \<open>
  The store is consistent, until the very last id has been used: from then on \<open>next_id\<close>
  gives the same id again.
\<close>

definition core_ok :: "'j core \<Rightarrow> bool" where
  "core_ok c \<longleftrightarrow> (last_id (c_store c) \<noteq> id_max \<longrightarrow> store_ok (c_store c))"

lemma core_ok_frame [simp]:
  "core_ok (emit k ns d now c) = core_ok c" "core_ok (emit_all k d now c) = core_ok c"
  "core_ok (wake t c) = core_ok c" "core_ok (hand_over_core n c) = core_ok c"
  "core_ok (presence_event a b now c) = core_ok c" "core_ok (c\<lparr>c_drawn := d2\<rparr>) = core_ok c"
  by (simp_all add: core_ok_def)

lemma last_id_mono: "last_id st \<le> last_id (apply_effect cd e st)"
proof (induction cd e st rule: apply_effect.induct)
  case (5 cd ids st)
  then show ?case using removes_frame [of cd ids st] by simp
next
  case (7 cd ids st)
  then show ?case using drop_broadcasts_frame [of ids st] by simp
next
  case (9 cd frm to st)
  then show ?case using rename_frame [of st frm _ cd to] by (cases "bm_get (agents st) frm") (auto simp: rename_agent_def)
qed (auto simp: Let_def split: option.split)

lemma keeps_commit_new:
  fixes en :: "'j env"
  assumes ok: "core_ok c" and new: "last_id (c_store c) \<noteq> id_max \<Longrightarrow> store_ok (c_store c) \<Longrightarrow> effect_ok (c_store c) e"
  shows "core_ok (fst (commit en e c))"
proof (cases rule: commit_cases [of en e c])
  case (refused c' why)
  with ok show ?thesis by (simp add: core_ok_def)
next
  case (taken c')
  show ?thesis
    unfolding core_ok_def
  proof
    assume "last_id (c_store (fst (commit en e c))) \<noteq> id_max"
    then have "last_id (c_store c) \<noteq> id_max"
      using last_id_mono [of "c_store c" "en_codec en" e] taken(1,2) by (metis antisym fst_conv id_max_greatest)
    with ok new show "store_ok (c_store (fst (commit en e c)))"
      by (simp add: core_ok_def taken(1,2) effect_store_ok)
  qed
qed

lemma keeps_commit:
  fixes en :: "'j env"
  assumes "\<And>c :: 'j core. core_ok c \<Longrightarrow> last_id (c_store c) \<noteq> id_max \<Longrightarrow> store_ok (c_store c) \<Longrightarrow> effect_ok (c_store c) e"
  shows "keeps core_ok (commit en e)"
  by (intro keepsI keeps_commit_new assms)

lemma keeps_commit_plain [keeps_rules]:
  "(\<And>st. effect_ok st e) \<Longrightarrow> keeps core_ok (commit en e)"
  by (rule keeps_commit) simp

lemma fresh_id:
  assumes "core_ok c" "last_id (c_store c) \<noteq> id_max"
  shows "next_id (c_store c) now \<notin> held_ids (c_store c)"
  using assms by (simp add: core_ok_def next_id_new)

subsection \<open>Agents\<close>

lemma keeps_forget_one [keeps_rules]: "keeps core_ok (forget_one en name now)"
  unfolding forget_one_def by (intro keeps_rules) simp_all

lemma keeps_add_agent [keeps_rules]: "keeps core_ok (add_agent en now name)"
  unfolding add_agent_def by (intro keeps_rules) simp_all

lemma keeps_ensure_agents [keeps_rules]: "keeps core_ok (ensure_agents en names now)"
  unfolding ensure_agents_def by (intro keeps_rules)

lemma keeps_room_to_grow [keeps_rules]: "keeps P (room_to_grow en)"
  unfolding room_to_grow_def by (intro keeps_rules)

lemma keeps_require_known [keeps_rules]: "keeps P (require_known name)"
  unfolding require_known_def by (intro keeps_rules)

lemma core_ok_same:
  "core_ok c \<Longrightarrow> (store_ok (c_store c) \<Longrightarrow> store_ok (c_store c')) \<Longrightarrow> last_id (c_store c') = last_id (c_store c) \<Longrightarrow> core_ok c'"
  by (auto simp: core_ok_def)

lemma sessions_ok: "store_ok st \<Longrightarrow> store_ok (st\<lparr>sessions := ss\<rparr>)"
  by (rule same_data_ok [of st]) (simp_all add: same_data_def)

lemma see_agent_ok: "store_ok st \<Longrightarrow> store_ok (see_agent n now st)"
  by (simp add: see_agent_def seen_ok)

lemma keep_session_ok: "store_ok st \<Longrightarrow> store_ok (keep_session req now st)"
  by (auto simp: keep_session_def drop_sessions_def Let_def intro!: see_agent_ok sessions_ok split: option.split)

lemma keep_session_last: "last_id (keep_session req now st) = last_id st"
  by (simp add: keep_session_def drop_sessions_def see_agent_def Let_def split: option.split)

lemma keeps_presence [keeps_rules]: "keeps core_ok (presence en req now)"
  unfolding presence_def
  by (intro keeps_rules) (auto intro: core_ok_same simp: keep_session_ok keep_session_last)

lemma leave_ok:
  assumes "core_ok c"
  shows "core_ok (leave agent session now c)"
proof -
  let ?d = "with_store (\<lambda>st. see_agent agent now (st\<lparr>sessions := bm_remove session (sessions st)\<rparr>)) c"
  have "core_ok ?d"
    using assms by (rule core_ok_same) (simp_all add: see_agent_ok sessions_ok, simp add: see_agent_def)
  with assms show ?thesis by (simp add: leave_def Let_def split: option.split)
qed

lemma keeps_rename [keeps_rules]: "keeps core_ok (rename en frm to now)"
  unfolding rename_def by (intro keeps_rules) simp_all

lemma keeps_cleanup [keeps_rules]: "keeps core_ok (cleanup en now)"
  unfolding cleanup_def by (intro keeps_rules)

lemma keeps_forget [keeps_rules]: "keeps core_ok (forget en name now)"
  unfolding forget_def by (intro keeps_rules)

end
