(* ===== verification/Broker_Messages.thy ===== *)
theory Broker_Messages
  imports Broker_Agents
begin

text \<open>
  Direct messages (\<open>src/src/broker.rs\<close>): sending with idempotency keys, threads and quotas,
  leasing with receipts, acknowledging, the sweeps that take leases back and expire
  messages, purging and history.
\<close>

subsection \<open>Sending\<close>

record send_request =
  sr_from :: str
  sr_to :: "str option"
  sr_body :: str
  sr_reply_to :: "id option"
  sr_key :: "str option"
  sr_strict :: bool
  sr_admin :: bool

text \<open>The message replied to, if the sender may see it.\<close>

definition send_parent :: "send_request \<Rightarrow> store \<Rightarrow> message option" where
  "send_parent req st =
     (case Option.bind (sr_reply_to req) (bm_get (cmap (messages st))) of
        Some p \<Rightarrow> if m_to p = sr_from req \<or> m_from p = sr_from req then Some p else None
      | None \<Rightarrow> None)"

definition send_to :: "send_request \<Rightarrow> message option \<Rightarrow> error + str" where
  "send_to req parent =
     (case (sr_to req, parent) of
        (Some to, _) \<Rightarrow> Inr to
      | (None, Some p) \<Rightarrow> Inr (m_from p)
      | (None, None) \<Rightarrow>
          Inl (case sr_reply_to req of
                 Some i \<Rightarrow> NotFound (''message '' @ id_to_string i @
                   '' not found; pass '' @ quoted ''to'' @ '' to reply to a message that has been trimmed'')
               | None \<Rightarrow> BadRequest (quoted ''to'' @ '' is required'')))"

definition new_message :: "send_request \<Rightarrow> str \<Rightarrow> message option \<Rightarrow> id \<Rightarrow> u64 \<Rightarrow> u64 \<Rightarrow> message" where
  "new_message req to parent i now ttl =
     \<lparr>m_id = i, m_from = sr_from req, m_to = to, m_body = sr_body req, m_created = now, m_expires = now + ttl,
      m_thread = (case parent of Some p \<Rightarrow> m_thread p | None \<Rightarrow> i), m_reply_to = sr_reply_to req,
      m_key = sr_key req, m_state = Queued, m_deliveries = 0, m_lease = None, m_settled = None\<rparr>"

definition trim_history :: "'j env \<Rightarrow> str \<Rightarrow> ('j, unit) op" where
  "trim_history en agent = look (\<lambda>c.
     let excess = ct_settled (agent_counts agent (c_store c)) - history_limit (c_limits c)
     in if excess > 0 then commit en (E_Drop (take excess (settled_ids agent (c_store c)))) else ret ())"

definition put_message :: "'j env \<Rightarrow> send_request \<Rightarrow> str \<Rightarrow> message option \<Rightarrow> u64 \<Rightarrow> ('j, message \<times> bool) op" where
  "put_message en req to parent now = look (\<lambda>c.
     let m = new_message req to parent (next_id (c_store c) now) now (msg_ttl_ms (c_limits c))
      in then_op (commit en (E_Message m))
           (then_op (trim_history en to)
             (then_op (modify (\<lambda>c. wake (T_Inbox (m_to m))
                 (emit ''message'' [m_to m, m_from m] [(''message'', message_json m)] now c)))
               (ret (m, True)))))"

definition inbox_full :: "send_request \<Rightarrow> str \<Rightarrow> 'j core \<Rightarrow> error option" where
  "inbox_full req to c =
     (let most = max_inbox (c_limits c); quota = share most in
      if counts_pending (agent_counts to (c_store c)) \<ge> most then
        Some (Full (''inbox '' @ quoted to @ '' is full ('' @ show_nat most @ '' pending messages)''))
      else if \<not> sr_admin req \<and> to \<noteq> sr_from req \<and> pending_from to (sr_from req) (c_store c) \<ge> quota then
        Some (Full (sr_from req @ '' already has '' @ show_nat quota @ '' messages waiting in '' @ quoted to @
          [CHR 39] @ ''s inbox, a quarter of it; wait until '' @ to @ '' reads some''))
      else None)"

definition send :: "'j env \<Rightarrow> send_request \<Rightarrow> u64 \<Rightarrow> ('j, message \<times> bool) op" where
  "send en req now =
     then_op (room_to_grow en) (look (\<lambda>c.
       let parent = send_parent req (c_store c) in
       case send_to req parent of
         Inl e \<Rightarrow> refuse e
       | Inr to \<Rightarrow>
           (case Option.bind (sr_key req) (\<lambda>key. message_by_key to (sr_from req) key (c_store c)) of
              Some existing \<Rightarrow> ret (existing, False)
            | None \<Rightarrow>
                then_op (if sr_strict req then require_known to else ret ())
                  (case inbox_full req to c of
                     Some e \<Rightarrow> refuse e
                   | None \<Rightarrow> then_op (ensure_agents en [sr_from req, to] now) (put_message en req to parent now)))))"

subsection \<open>Taking leases back, and expiry\<close>

definition found :: "store \<Rightarrow> id list \<Rightarrow> message list" where
  "found st ids = List.map_filter (bm_get (cmap (messages st))) ids"

definition reclaim_one :: "'j env \<Rightarrow> u64 \<Rightarrow> message \<Rightarrow> ('j, unit) op" where
  "reclaim_one en now m = look (\<lambda>c.
     let dead = m_deliveries m \<ge> max_deliveries (c_limits c); inbox = m_to m in
      then_op (commit en (E_Settle (m_id m) (if dead then Dead else Queued) now))
        (then_op (modify (emit (if dead then ''dead'' else ''requeue'') [inbox]
            [(''inbox'', J_Str inbox), (''ids'', J_Arr [j_id (m_id m)]), (''deliveries'', J_Int (uint (m_deliveries m)))] now))
          (if dead then trim_history en inbox else modify (wake (T_Inbox inbox)))))"

definition reclaim :: "'j env \<Rightarrow> u64 \<Rightarrow> ('j, bool) op" where
  "reclaim en now = look (\<lambda>c.
     then_op (each_op (reclaim_one en now) (found (c_store c) (take sweep_batch (leases_due now (c_store c)))))
       (gets (\<lambda>c. leases_due now (c_store c) \<noteq> [])))"

definition expire_one :: "'j env \<Rightarrow> u64 \<Rightarrow> message \<Rightarrow> ('j, unit) op" where
  "expire_one en now m =
     then_op (commit en (E_Settle (m_id m) Expired now))
       (then_op (modify (emit ''expired'' [m_to m] [(''inbox'', J_Str (m_to m)), (''ids'', J_Arr [j_id (m_id m)])] now))
         (trim_history en (m_to m)))"

definition expire :: "'j env \<Rightarrow> u64 \<Rightarrow> ('j, bool) op" where
  "expire en now = look (\<lambda>c.
     then_op (each_op (expire_one en now) (found (c_store c) (take sweep_batch (expired_due now (c_store c)))))
       (gets (\<lambda>c. expired_due now (c_store c) \<noteq> [])))"

subsection \<open>Leasing\<close>

record leased =
  ld_message :: message
  ld_receipt :: str

definition live_message :: "u64 \<Rightarrow> store \<Rightarrow> id \<Rightarrow> bool" where
  "live_message now st i = (case bm_get (cmap (messages st)) i of Some m \<Rightarrow> m_expires m > now | None \<Rightarrow> False)"

definition lease_choice :: "str \<Rightarrow> nat \<Rightarrow> id list option \<Rightarrow> u64 \<Rightarrow> store \<Rightarrow> id list" where
  "lease_choice inbox limit only now st =
     (case only of
        None \<Rightarrow> take limit (filter (live_message now st) (queued_ids inbox st))
      | Some wanted \<Rightarrow>
          take limit (remdups_adj (sort (filter (\<lambda>i.
            (case bm_get (cmap (messages st)) i of Some m \<Rightarrow> m_to m = inbox \<and> m_state m = Queued | None \<Rightarrow> False) \<and>
            live_message now st i) wanted))))"

definition draw_token :: "'j env \<Rightarrow> 'j core \<Rightarrow> str" where
  "draw_token en c = en_random en (c_drawn c)"

definition lease_one :: "'j env \<Rightarrow> str \<Rightarrow> u64 \<Rightarrow> u64 \<Rightarrow> id \<Rightarrow> ('j, leased) op" where
  "lease_one en consumer now until i = look (\<lambda>c.
     let token = draw_token en c
     in then_op (modify (\<lambda>c. c\<lparr>c_drawn := c_drawn c + 1\<rparr>))
          (then_op (commit en (E_Lease i consumer token now until))
            (bind_op (indexed (\<lambda>st. bm_get (cmap (messages st)) i)) (\<lambda>m.
              ret \<lparr>ld_message = m, ld_receipt = id_to_string i @ ''.'' @ token\<rparr>))))"

definition lease_where :: "'j env \<Rightarrow> str \<Rightarrow> str \<Rightarrow> nat \<Rightarrow> id list option \<Rightarrow> u64 \<Rightarrow> ('j, leased list) op" where
  "lease_where en inbox consumer limit only now =
     then_op (reclaim en now) (then_op (expire en now) (look (\<lambda>c.
       let ids = lease_choice inbox limit only now (c_store c);
           until = now + lease_ms (c_limits c)
       in bind_op (collect_op (lease_one en consumer now until) ids) (\<lambda>taken.
            then_op (if taken = [] then ret ()
                     else modify (emit ''lease'' [inbox] [(''inbox'', J_Str inbox), (''ids'', J_Arr (map (\<lambda>l. j_id (m_id (ld_message l))) taken)),
                       (''consumer'', J_Str consumer), (''until'', j_time until)] now))
              (ret taken)))))"

definition lease_op :: "'j env \<Rightarrow> str \<Rightarrow> str \<Rightarrow> nat \<Rightarrow> u64 \<Rightarrow> ('j, leased list) op" where
  "lease_op en inbox consumer limit now = lease_where en inbox consumer limit None now"

definition lease_ids :: "'j env \<Rightarrow> str \<Rightarrow> str \<Rightarrow> id list \<Rightarrow> u64 \<Rightarrow> ('j, leased list) op" where
  "lease_ids en inbox consumer ids now = lease_where en inbox consumer (length ids) (Some ids) now"

subsection \<open>Acknowledging\<close>

definition bytes_of :: "str \<Rightarrow> u8 list" where
  "bytes_of s = map (\<lambda>ch. of_nat (byte_of ch)) s"

text \<open>What becomes of one receipt: rejected, acknowledged before, or settled now.\<close>

datatype ack_verdict = Ack_Reject | Ack_Again | Ack_Settle id

definition ack_judge :: "str \<Rightarrow> str option \<Rightarrow> store \<Rightarrow> str \<Rightarrow> ack_verdict" where
  "ack_judge inbox consumer st receipt =
     (let (raw, token) = (case split_once (CHR ''.'') receipt of
                            Some (i, token) \<Rightarrow> (i, Some token) | None \<Rightarrow> (receipt, None)) in
      case (case id_from_str raw of Inr i \<Rightarrow> bm_get (cmap (messages st)) i | Inl _ \<Rightarrow> None) of
        None \<Rightarrow> Ack_Reject
      | Some m \<Rightarrow>
          if m_to m \<noteq> inbox then Ack_Reject
          else if m_state m = Acked then Ack_Again
          else if is_pending (m_state m) \<and>
            (case m_lease m of
               None \<Rightarrow> False
             | Some l \<Rightarrow>
                 (case token of
                    Some t \<Rightarrow> constant_time_eq (bytes_of (ls_token l)) (bytes_of t)
                  | None \<Rightarrow> consumer = Some (ls_consumer l)))
          then Ack_Settle (m_id m)
          else Ack_Reject)"

record ack_outcome =
  ao_acknowledged :: "str list"
  ao_rejected :: "str list"

fun ack_loop :: "'j env \<Rightarrow> str \<Rightarrow> str option \<Rightarrow> u64 \<Rightarrow> str list \<Rightarrow> ack_outcome \<Rightarrow> id list \<Rightarrow>
    ('j, ack_outcome \<times> id list) op" where
  "ack_loop en inbox consumer now [] out acked c = (c, Inr (out, acked))"
| "ack_loop en inbox consumer now (receipt # receipts) out acked c =
     (case ack_judge inbox consumer (c_store c) receipt of
        Ack_Reject \<Rightarrow>
          ack_loop en inbox consumer now receipts (out\<lparr>ao_rejected := ao_rejected out @ [receipt]\<rparr>) acked c
      | Ack_Again \<Rightarrow>
          ack_loop en inbox consumer now receipts (out\<lparr>ao_acknowledged := ao_acknowledged out @ [receipt]\<rparr>) acked c
      | Ack_Settle i \<Rightarrow>
          (case commit en (E_Settle i Acked now) c of
             (c, Inl e) \<Rightarrow> (c, Inl e)
           | (c, Inr _) \<Rightarrow>
               ack_loop en inbox consumer now receipts
                 (out\<lparr>ao_acknowledged := ao_acknowledged out @ [receipt]\<rparr>) (acked @ [i]) c))"

definition ack :: "'j env \<Rightarrow> str \<Rightarrow> str list \<Rightarrow> str option \<Rightarrow> u64 \<Rightarrow> ('j, ack_outcome) op" where
  "ack en inbox receipts consumer now =
     bind_op (ack_loop en inbox consumer now receipts \<lparr>ao_acknowledged = [], ao_rejected = []\<rparr> []) (\<lambda>(out, acked).
       then_op (if acked = [] then ret ()
                else then_op (trim_history en inbox)
                  (modify (emit ''ack'' [inbox] [(''inbox'', J_Str inbox), (''ids'', J_Arr (map j_id acked))] now)))
         (ret out))"

subsection \<open>Reading and purging\<close>

definition pending_messages :: "str \<Rightarrow> 'j core \<Rightarrow> message list" where
  "pending_messages inbox c = filter (\<lambda>m. is_pending (m_state m)) (inbox_messages inbox (c_store c))"

definition purge :: "'j env \<Rightarrow> str \<Rightarrow> u64 \<Rightarrow> ('j, nat) op" where
  "purge en inbox now =
     bind_op (gets (\<lambda>c. map m_id (inbox_messages inbox (c_store c)))) (\<lambda>ids.
       then_op (if ids \<noteq> [] then commit en (E_Drop ids) else ret ())
         (then_op (modify (emit ''purge'' [inbox] [(''inbox'', J_Str inbox)] now)) (ret (length ids))))"

record history_query =
  hq_agent :: "str option"
  hq_peer :: "str option"
  hq_thread :: "id option"
  hq_before :: "id option"
  hq_limit :: nat

definition history_matches :: "history_query \<Rightarrow> message \<Rightarrow> bool" where
  "history_matches q m \<longleftrightarrow>
     (case (hq_agent q, hq_peer q) of
        (Some a, Some p) \<Rightarrow> (m_from m = a \<and> m_to m = p) \<or> (m_from m = p \<and> m_to m = a)
      | (Some a, None) \<Rightarrow> m_from m = a \<or> m_to m = a
      | (None, Some p) \<Rightarrow> m_from m = p \<or> m_to m = p
      | (None, None) \<Rightarrow> True) \<and>
     (case hq_thread q of None \<Rightarrow> True | Some t \<Rightarrow> m_thread m = t)"

definition history :: "history_query \<Rightarrow> 'j core \<Rightarrow> message list \<times> id option" where
  "history q c =
     (let range = (case hq_before q of
                     Some before \<Rightarrow> map snd (bm_before before (cmap (messages (c_store c))))
                   | None \<Rightarrow> bm_values (cmap (messages (c_store c))));
          items = take (hq_limit q + 1) (filter (history_matches q) (rev range))
      in if length items > hq_limit q
         then (let items = take (hq_limit q) items
               in (rev items, if items = [] then None else Some (m_id (List.last items))))
         else (rev items, None))"

definition message_of :: "id \<Rightarrow> 'j core \<Rightarrow> message option" where
  "message_of i c = bm_get (cmap (messages (c_store c))) i"

end
