(* ===== verification/Message_Inv.thy ===== *)
theory Message_Inv
  imports Broker_Rules Broker_Messages
begin

text \<open>
  The message operations keep the store consistent, failures included, and what each gives.
\<close>

subsection \<open>The store stays consistent\<close>

lemma keeps_trim_history [keeps_rules]: "keeps core_ok (trim_history en agent)"
  unfolding trim_history_def by (intro keeps_rules) simp_all

lemma fresh_message:
  "core_ok c \<Longrightarrow> last_id (c_store c) \<noteq> id_max \<Longrightarrow> bm_get (msgs (c_store c)) (next_id (c_store c) now) = None"
  using fresh_id [of c now] by (auto simp: held_ids_def)

lemma then_op_keeps:
  "core_ok (fst (m c)) \<Longrightarrow> keeps core_ok n \<Longrightarrow> core_ok (fst (then_op m n c))"
  unfolding then_op_def by (cases rule: bind_op_cases [of m c "\<lambda>_. n"]) (auto dest: keepsD)

lemma keeps_put_message [keeps_rules]: "keeps core_ok (put_message en req to parent now)"
proof (rule keepsI)
  fix c :: "'a core" assume ok: "core_ok c"
  show "core_ok (fst (put_message en req to parent now c))"
    unfolding put_message_def look_def Let_def
    by (intro then_op_keeps keeps_commit_new [OF ok] keeps_rules)
      (simp_all add: fresh_message [OF ok] new_message_def)
qed

lemma keeps_case_sum [keeps_rules]:
  "(\<And>e. s = Inl e \<Longrightarrow> keeps P (f e)) \<Longrightarrow> (\<And>x. s = Inr x \<Longrightarrow> keeps P (g x)) \<Longrightarrow>
   keeps P (case s of Inl e \<Rightarrow> f e | Inr x \<Rightarrow> g x)"
  by (cases s) auto

lemma keeps_send [keeps_rules]: "keeps core_ok (send en req now)"
  unfolding send_def by (intro keeps_rules)

lemma keeps_reclaim [keeps_rules]: "keeps core_ok (reclaim en now)"
  unfolding reclaim_def reclaim_one_def by (intro keeps_rules) simp_all

lemma keeps_expire [keeps_rules]: "keeps core_ok (expire en now)"
  unfolding expire_def expire_one_def by (intro keeps_rules) simp_all

lemma keeps_lease_where [keeps_rules]: "keeps core_ok (lease_where en inbox consumer limit only now)"
  unfolding lease_where_def lease_one_def by (intro keeps_rules) simp_all

lemma keeps_ack_loop: "core_ok c \<Longrightarrow> core_ok (fst (ack_loop en inbox consumer now receipts out acked c))"
proof (induction en inbox consumer now receipts out acked c rule: ack_loop.induct)
  case (2 en inbox consumer now receipt receipts out acked c)
  note keep = keepsD [OF keeps_commit_plain, of "E_Settle i Acked now" c en for i]
  from 2 keep show ?case
    by (auto split: ack_verdict.split prod.split sum.split) (metis effect_ok.simps(6) fst_conv)+
qed simp

lemma keeps_ack [keeps_rules]: "keeps core_ok (ack en inbox receipts consumer now)"
  unfolding ack_def
  by (intro keeps_rules keepsI [of _ "ack_loop en inbox consumer now receipts _ _"] keeps_ack_loop) simp_all

lemma keeps_purge [keeps_rules]: "keeps core_ok (purge en inbox now)"
  unfolding purge_def by (intro keeps_rules) simp_all

subsection \<open>The limits stay as they are\<close>

lemma keeps_limits_commit [keeps_rules]: "keeps (\<lambda>c. c_limits c = L) (commit en e)"
proof (rule keepsI)
  fix c :: "'a core" assume "c_limits c = L"
  then show "c_limits (fst (commit en e c)) = L" by (cases rule: commit_cases [of en e c]) simp_all
qed

lemma keeps_limits_messages [keeps_rules]:
  "keeps (\<lambda>c. c_limits c = L) (trim_history en a)" "keeps (\<lambda>c. c_limits c = L) (reclaim en now)"
  "keeps (\<lambda>c. c_limits c = L) (expire en now)"
proof -
  show t: "keeps (\<lambda>c. c_limits c = L) (trim_history en a)" for a
    unfolding trim_history_def by (intro keeps_rules)
  show "keeps (\<lambda>c. c_limits c = L) (reclaim en now)" "keeps (\<lambda>c. c_limits c = L) (expire en now)"
    unfolding reclaim_def reclaim_one_def expire_def expire_one_def Let_def
    by (intro keeps_rules t, simp_all)+
qed

lemma keeps_Inr: "keeps P m \<Longrightarrow> m c = (c', Inr x) \<Longrightarrow> P c \<Longrightarrow> P c'"
  using keepsD [of P m c] by simp

end
