(* ===== verification/Message_Props.thy ===== *)
theory Message_Props
  imports Message_Inv
begin

text \<open>
  What the message operations give when they succeed: the history of an inbox is trimmed to
  its limit, the sweeps leave alone what another consumer holds, and a lease hands out queued
  messages, each once, under a token of its own.
\<close>

subsection \<open>What the steps give\<close>

abbreviation cmsgs :: "'j core \<Rightarrow> (id, message) btree_map" where
  "cmsgs c \<equiv> msgs (c_store c)"

text \<open>The state is consistent and ids are left.\<close>

definition core_live :: "'j core \<Rightarrow> bool" where
  "core_live c \<longleftrightarrow> store_ok (c_store c) \<and> last_id (c_store c) \<noteq> id_max"

lemma core_live_ok: "core_live c \<longleftrightarrow> core_ok c \<and> last_id (c_store c) \<noteq> id_max"
  by (auto simp: core_live_def core_ok_def)

lemma core_live_frame [simp]:
  "core_live (emit k ns d now c) = core_live c" "core_live (wake t c) = core_live c"
  "core_live (c\<lparr>c_drawn := d2\<rparr>) = core_live c"
  by (simp_all add: core_live_def)

lemma commit_live:
  assumes "commit en e c = (c', Inr x)" "core_live c" "effect_ok (c_store c) e"
    and "last_id (apply_effect (en_codec en) e (c_store c)) = last_id (c_store c)"
  shows "core_live c'"
  using assms commit_Inr(1) [OF assms(1)] by (simp add: core_live_def effect_store_ok)

lemma settle_msgs:
  "msgs (apply_effect cd (E_Settle i s at) st) = bm_update i (settle_message s at) (msgs st)"
  "last_id (apply_effect cd (E_Settle i s at) st) = last_id st"
  by simp_all

lemma drop_msgs:
  "bm_get (msgs (apply_effect cd (E_Drop is) st)) j = (if j \<in> set is then None else bm_get (msgs st) j)"
  "last_id (apply_effect cd (E_Drop is) st) = last_id st"
  using removes_frame [of cd "is" st] by simp_all

lemma take_settled:
  assumes "store_ok st" "i \<in> set (take n (settled_ids a st))" "bm_get (msgs st) i = Some m"
  shows "\<not> is_pending (m_state m)" "m_to m = a"
proof -
  have "i \<in> set (map m_id (scan st (\<lambda>m. m_to m = a \<and> \<not> is_pending (m_state m))))"
    using assms(2) in_set_takeD settled_ids_scan [OF assms(1)] by metis
  then have "\<exists>m. bm_get (msgs st) i = Some m \<and> m_to m = a \<and> \<not> is_pending (m_state m)"
    unfolding scan_set [OF ok_keyed [OF assms(1)]] by blast
  with assms(3) show "\<not> is_pending (m_state m)" "m_to m = a" by auto
qed

lemma settled_count:
  assumes "store_ok st"
  shows "ct_settled (agent_counts a st) = length (settled_ids a st)"
  by (simp add: counts_scan [OF assms] settled_ids_scan [OF assms])

text \<open>Trimming a history takes the oldest settled messages of one inbox and nothing else.\<close>

lemma trim_history_gives:
  assumes "trim_history en a c = (c', Inr x)" "core_live c"
  shows "core_live c' \<and> c_limits c' = c_limits c \<and> last_id (c_store c') = last_id (c_store c) \<and>
    (\<forall>i. bm_get (cmsgs c') i = (if i \<in> set (take (length (settled_ids a (c_store c)) - history_limit (c_limits c))
        (settled_ids a (c_store c))) then None else bm_get (cmsgs c) i)) \<and>
    (\<forall>i m. bm_get (cmsgs c) i = Some m \<and> is_pending (m_state m) \<longrightarrow> bm_get (cmsgs c') i = Some m)"
proof -
  let ?ids = "settled_ids a (c_store c)"
  let ?n = "length ?ids - history_limit (c_limits c)"
  have ok: "store_ok (c_store c)" using assms(2) by (simp add: core_live_def)
  show ?thesis
  proof (cases "?n = 0")
    case True
    with assms ok show ?thesis by (simp add: trim_history_def look_def Let_def settled_count)
  next
    case False
    then have c: "commit en (E_Drop (take ?n ?ids)) c = (c', Inr x)"
      using assms(1) ok by (simp add: trim_history_def look_def Let_def settled_count)
    have g: "bm_get (cmsgs c') i = (if i \<in> set (take ?n ?ids) then None else bm_get (cmsgs c) i)" for i
      unfolding commit_Inr(1) [OF c] drop_msgs ..
    have "bm_get (cmsgs c') i = Some m" if "bm_get (cmsgs c) i = Some m" "is_pending (m_state m)" for i m
      using g take_settled(1) [OF ok, of i ?n a m] that by auto
    moreover have "core_live c'" by (rule commit_live [OF c assms(2)]) (simp_all only: effect_ok.simps drop_msgs)
    moreover have "last_id (c_store c') = last_id (c_store c)" unfolding commit_Inr(1) [OF c] drop_msgs ..
    ultimately show ?thesis using g commit_Inr(2) [OF c] by blast
  qed
qed

text \<open>The number of settled messages kept.\<close>

lemma settled_after_drop:
  assumes ok: "store_ok st" and ok': "store_ok st'"
    and g: "\<And>i. bm_get (msgs st') i = (if i \<in> set (take n (settled_ids a st)) then None else bm_get (msgs st) i)"
  shows "settled_ids a st' = drop n (settled_ids a st)"
proof (rule ssorted_eqI)
  let ?P = "\<lambda>m. m_to m = a \<and> \<not> is_pending (m_state m)"
  note k = ok_keyed [OF ok] and k' = ok_keyed [OF ok']
  have srt: "ssorted (settled_ids a st)" unfolding settled_ids_scan [OF ok] by (rule scan_sorted [OF k])
  show "ssorted (settled_ids a st')" unfolding settled_ids_scan [OF ok'] by (rule scan_sorted [OF k'])
  show "ssorted (drop n (settled_ids a st))" using srt by (rule sorted_wrt_drop)
  have d: "set (drop n xs) = set xs - set (take n xs)" if "distinct xs" for xs :: "id list"
    using that set_append [of "take n xs" "drop n xs"] distinct_append [of "take n xs" "drop n xs"] by auto
  have "set (settled_ids a st') = set (settled_ids a st) - set (take n (settled_ids a st))"
    unfolding settled_ids_scan [OF ok'] scan_set [OF k']
    using g by (auto simp: settled_ids_scan [OF ok] scan_set [OF k, unfolded set_map] split: if_splits)
  then show "set (settled_ids a st') = set (drop n (settled_ids a st))"
    using d [OF ssorted_distinct [OF srt]] by simp
qed

lemma trim_history_bound:
  assumes "trim_history en a c = (c', Inr x)" "core_live c"
  shows "length (settled_ids a (c_store c')) \<le> history_limit (c_limits c)"
proof -
  let ?n = "length (settled_ids a (c_store c)) - history_limit (c_limits c)"
  note t = trim_history_gives [OF assms]
  have "settled_ids a (c_store c') = drop ?n (settled_ids a (c_store c))"
    by (rule settled_after_drop) (use t assms(2) in \<open>auto simp: core_live_def\<close>)
  then show ?thesis by simp
qed

subsection \<open>Messages left alone\<close>

text \<open>A message another consumer still holds, or that is not waiting at all.\<close>

definition held_from :: "u64 \<Rightarrow> id \<Rightarrow> 'j core \<Rightarrow> bool" where
  "held_from now i c \<longleftrightarrow> core_live c \<and>
     (case bm_get (cmsgs c) i of
        None \<Rightarrow> True
      | Some m \<Rightarrow> m_state m \<noteq> Queued \<and>
          (m_state m = Leased \<longrightarrow> (case m_lease m of Some l \<Rightarrow> ls_until l > now | None \<Rightarrow> True)))"

lemma held_from_frame [simp]:
  "held_from now i (emit k ns d t c) = held_from now i c" "held_from now i (wake tp c) = held_from now i c"
  by (simp_all add: held_from_def)

lemma held_not_due:
  assumes "held_from now i c" "m \<in> set (found (c_store c) (take n (leases_due now (c_store c))))"
  shows "m_id m \<noteq> i"
proof
  assume i: "m_id m = i"
  have ok: "store_ok (c_store c)" using assms(1) by (simp add: held_from_def core_live_def)
  from assms(2) obtain j where j: "j \<in> set (take n (leases_due now (c_store c)))" "bm_get (cmsgs c) j = Some m"
    unfolding found_def by (auto simp: List.map_filter_def)
  then have "j \<in> set (leases_due now (c_store c))" by (meson in_set_takeD)
  then obtain at where "(at, j) \<in> set (due_list (c_store c) lease_end now)"
    unfolding due_lists_scan(1) [OF ok] by auto
  then have "at \<le> now" "lease_end m = Some at"
    using due_list_set [OF ok_keyed [OF ok]] j(2) by auto
  moreover have "j = i" using ok_keyed [OF ok] j(2) i by (simp add: keyed_def)
  ultimately show False using assms(1) j(2)
    by (auto simp: held_from_def lease_end_def split: if_splits option.splits)
qed

lemma each_op_Inr:
  assumes "each_op f xs c = (c', Inr u)" "P c"
    and "\<And>x c1 c2 u. x \<in> set xs \<Longrightarrow> P c1 \<Longrightarrow> f x c1 = (c2, Inr u) \<Longrightarrow> P c2"
  shows "P c'"
  using assms
proof (induction xs arbitrary: c)
  case (Cons x xs)
  from Cons.prems(1) obtain c1 v where s: "f x c = (c1, Inr v)" "each_op f xs c1 = (c', Inr u)"
    by (auto simp: then_op_Inr)
  have "P c1" using Cons.prems(2,3) s(1) by auto
  then show ?case using Cons.IH [OF s(2)] Cons.prems(3) by auto
qed simp

lemma settle_other:
  assumes "commit en (E_Settle j s at) c = (c', Inr x)" "held_from now i c" "j \<noteq> i \<or> \<not> is_pending s"
  shows "held_from now i c'"
proof -
  have "core_live c'"
    by (rule commit_live [OF assms(1)]) (use assms(2) in \<open>simp_all add: held_from_def\<close>)
  moreover have "cmsgs c' = bm_update j (settle_message s at) (cmsgs c)"
    unfolding commit_Inr(1) [OF assms(1)] settle_msgs ..
  ultimately show ?thesis
    using assms(2,3) by (cases "bm_get (cmsgs c) i"; cases s) (auto simp: held_from_def settle_message_def)
qed

lemma trim_held:
  assumes "trim_history en a c = (c', Inr x)" "held_from now i c"
  shows "held_from now i c'"
proof -
  have "core_live c" using assms(2) by (simp add: held_from_def)
  from trim_history_gives [OF assms(1) this] assms(2) show ?thesis
    by (auto simp: held_from_def split: option.splits if_splits)
qed

lemma reclaim_held:
  assumes "reclaim en now c = (c', Inr b)" "held_from now i c"
  shows "held_from now i c'"
proof -
  let ?ms = "found (c_store c) (take sweep_batch (leases_due now (c_store c)))"
  obtain u where e: "each_op (reclaim_one en now) ?ms c = (c', Inr u)"
    using assms(1) by (auto simp: reclaim_def look_def then_op_Inr)
  show ?thesis
  proof (rule each_op_Inr [OF e])
    fix m c1 c2 and u :: unit assume m: "m \<in> set ?ms" "held_from now i c1" "reclaim_one en now m c1 = (c2, Inr u)"
    have "m_id m \<noteq> i" by (rule held_not_due [OF assms(2) m(1)])
    obtain s c3 v k d where c: "commit en (E_Settle (m_id m) s now) c1 = (c3, Inr v)"
      and rest: "trim_history en (m_to m) (emit k [m_to m] d now c3) = (c2, Inr u) \<or>
        c2 = wake (T_Inbox (m_to m)) (emit k [m_to m] d now c3)"
      using m(3) by (auto simp: reclaim_one_def look_def Let_def then_op_Inr split: if_splits)
    have "held_from now i c3" by (rule settle_other [OF c m(2)]) (simp add: \<open>m_id m \<noteq> i\<close>)
    then show "held_from now i c2" using rest trim_held [of en "m_to m" _ c2 u] by auto
  qed (rule assms(2))
qed

lemma expire_held:
  assumes "expire en now c = (c', Inr b)" "held_from now i c"
  shows "held_from now i c'"
proof -
  let ?ms = "found (c_store c) (take sweep_batch (expired_due now (c_store c)))"
  obtain u where e: "each_op (expire_one en now) ?ms c = (c', Inr u)"
    using assms(1) by (auto simp: expire_def look_def then_op_Inr)
  show ?thesis
  proof (rule each_op_Inr [OF e])
    fix m c1 c2 and u :: unit assume m: "m \<in> set ?ms" "held_from now i c1" "expire_one en now m c1 = (c2, Inr u)"
    then obtain c3 v where s: "commit en (E_Settle (m_id m) Expired now) c1 = (c3, Inr v)"
      "trim_history en (m_to m) (emit ''expired'' [m_to m] [(''inbox'', J_Str (m_to m)), (''ids'', J_Arr [j_id (m_id m)])] now c3) = (c2, Inr u)"
      by (auto simp: expire_one_def then_op_Inr)
    have "held_from now i c3" by (rule settle_other [OF s(1) m(2)]) simp
    then show "held_from now i c2" using trim_held [OF s(2)] by simp
  qed (rule assms(2))
qed

lemma settle_live: "commit en (E_Settle j s at) c = (c', Inr x) \<Longrightarrow> core_live c \<Longrightarrow> core_live c'"
  by (erule commit_live) simp_all

lemma trim_live: "trim_history en a c = (c', Inr x) \<Longrightarrow> core_live c \<Longrightarrow> core_live c'"
  using trim_history_gives by blast

lemma reclaim_live:
  assumes "reclaim en now c = (c', Inr b)" "core_live c"
  shows "core_live c'"
proof -
  let ?ms = "found (c_store c) (take sweep_batch (leases_due now (c_store c)))"
  obtain u where e: "each_op (reclaim_one en now) ?ms c = (c', Inr u)"
    using assms(1) by (auto simp: reclaim_def look_def then_op_Inr)
  show ?thesis
  proof (rule each_op_Inr [OF e])
    fix m c1 c2 and u :: unit assume m: "core_live c1" "reclaim_one en now m c1 = (c2, Inr u)"
    obtain s c3 v k d where c: "commit en (E_Settle (m_id m) s now) c1 = (c3, Inr v)"
      and rest: "trim_history en (m_to m) (emit k [m_to m] d now c3) = (c2, Inr u) \<or>
        c2 = wake (T_Inbox (m_to m)) (emit k [m_to m] d now c3)"
      using m(2) by (auto simp: reclaim_one_def look_def Let_def then_op_Inr split: if_splits)
    have "core_live c3" by (rule settle_live [OF c m(1)])
    then show "core_live c2" using rest trim_live [of en "m_to m" _ c2 u] by auto
  qed (rule assms(2))
qed

lemma expire_live:
  assumes "expire en now c = (c', Inr b)" "core_live c"
  shows "core_live c'"
proof -
  let ?ms = "found (c_store c) (take sweep_batch (expired_due now (c_store c)))"
  obtain u where e: "each_op (expire_one en now) ?ms c = (c', Inr u)"
    using assms(1) by (auto simp: expire_def look_def then_op_Inr)
  show ?thesis
  proof (rule each_op_Inr [OF e])
    fix m c1 c2 and u :: unit assume m: "core_live c1" "expire_one en now m c1 = (c2, Inr u)"
    then obtain c3 v k d where s: "commit en (E_Settle (m_id m) Expired now) c1 = (c3, Inr v)"
      "trim_history en (m_to m) (emit k [m_to m] d now c3) = (c2, Inr u)"
      by (auto simp: expire_one_def then_op_Inr)
    have "core_live c3" by (rule settle_live [OF s(1) m(1)])
    then show "core_live c2" using trim_live [OF s(2)] by simp
  qed (rule assms(2))
qed

text \<open>What a lease hands out.\<close>

definition handed_out :: "str \<Rightarrow> str \<Rightarrow> u64 \<Rightarrow> u64 \<Rightarrow> leased \<Rightarrow> bool" where
  "handed_out inbox consumer now until l \<longleftrightarrow>
     (let m = ld_message l in
      m_to m = inbox \<and> m_state m = Leased \<and> m_expires m > now \<and>
      (\<exists>token. m_lease m = Some \<lparr>ls_consumer = consumer, ls_token = token, ls_at = now, ls_until = until\<rparr> \<and>
         ld_receipt l = id_to_string (m_id m) @ ''.'' @ token))"

lemma lease_one_gives:
  assumes "lease_one en consumer now until i c = (c', Inr t)" "core_live c"
    and "bm_get (cmsgs c) i = Some m" "m_to m = inbox" "m_expires m > now"
  shows "core_live c' \<and> (\<forall>j. j \<noteq> i \<longrightarrow> bm_get (cmsgs c') j = bm_get (cmsgs c) j) \<and>
    m_id (ld_message t) = i \<and> bm_get (cmsgs c') i = Some (ld_message t) \<and> handed_out inbox consumer now until t"
proof -
  obtain v where c: "commit en (E_Lease i consumer (draw_token en c) now until) (c\<lparr>c_drawn := c_drawn c + 1\<rparr>) = (c', Inr v)"
    and t: "bm_get (cmsgs c') i = Some (ld_message t)" "ld_receipt t = id_to_string i @ ''.'' @ draw_token en c"
    using assms(1) by (auto simp: lease_one_def look_def Let_def then_op_Inr bind_op_Inr indexed_Inr)
  have "cmsgs c' = bm_update i (lease_message consumer (draw_token en c) now until) (cmsgs c)"
    using commit_Inr(1) [OF c] by simp
  moreover from this have m: "ld_message t = lease_message consumer (draw_token en c) now until m"
    using assms(3) t(1) by simp
  moreover have "core_live c'" by (rule commit_live [OF c]) (use assms(2) in simp_all)
  moreover have "m_id m = i" using assms(2,3) ok_keyed by (auto simp: core_live_def keyed_def)
  ultimately show ?thesis
    using assms(4,5) t by (simp add: lease_message_def handed_out_def Let_def)
qed

lemma collect_lease:
  "collect_op (lease_one en consumer now until) ids c = (c', Inr taken) \<Longrightarrow> core_live c \<Longrightarrow> distinct ids \<Longrightarrow>
   \<forall>i \<in> set ids. \<exists>m. bm_get (cmsgs c) i = Some m \<and> m_to m = inbox \<and> m_expires m > now \<Longrightarrow>
   core_live c' \<and> (\<forall>j. j \<notin> set ids \<longrightarrow> bm_get (cmsgs c') j = bm_get (cmsgs c) j) \<and>
   list_all2 (\<lambda>i l. m_id (ld_message l) = i \<and> bm_get (cmsgs c') i = Some (ld_message l) \<and>
     handed_out inbox consumer now until l) ids taken"
proof (induction ids arbitrary: c taken)
  case (Cons i ids)
  from Cons.prems(1) obtain c1 t ts where s: "lease_one en consumer now until i c = (c1, Inr t)"
      "collect_op (lease_one en consumer now until) ids c1 = (c', Inr ts)" "taken = t # ts"
    by (auto simp: bind_op_Inr)
  from Cons.prems(4) obtain m where m: "bm_get (cmsgs c) i = Some m" "m_to m = inbox" "m_expires m > now" by auto
  note one = lease_one_gives [OF s(1) Cons.prems(2) m]
  have "\<forall>j \<in> set ids. \<exists>m. bm_get (cmsgs c1) j = Some m \<and> m_to m = inbox \<and> m_expires m > now"
    using Cons.prems(3,4) one by (metis distinct.simps(2) list.set_intros(2))
  with Cons.IH [OF s(2)] one Cons.prems(3) have ih: "core_live c'"
      "\<forall>j. j \<notin> set ids \<longrightarrow> bm_get (cmsgs c') j = bm_get (cmsgs c1) j"
      "list_all2 (\<lambda>i l. m_id (ld_message l) = i \<and> bm_get (cmsgs c') i = Some (ld_message l) \<and>
        handed_out inbox consumer now until l) ids ts" by auto
  have "i \<notin> set ids" using Cons.prems(3) by simp
  with ih one show ?case unfolding s(3) by auto
qed simp

lemma lease_choice_gives:
  assumes "store_ok st" "i \<in> set (lease_choice inbox limit only now st)"
  shows "\<exists>m. bm_get (msgs st) i = Some m \<and> m_to m = inbox \<and> m_state m = Queued \<and> m_expires m > now"
proof (cases only)
  case None
  then have "i \<in> set (queued_ids inbox st)" "live_message now st i"
    using assms(2) by (auto simp: lease_choice_def dest!: in_set_takeD)
  moreover from this(1) have "i \<in> {i. \<exists>m. bm_get (msgs st) i = Some m \<and> m_to m = inbox \<and> m_state m = Queued}"
    using scan_set [OF ok_keyed [OF assms(1)]] queued_ids_scan [OF assms(1)] by metis
  ultimately show ?thesis by (auto simp: live_message_def)
next
  case (Some wanted)
  then show ?thesis using assms(2)
    by (auto simp: lease_choice_def live_message_def dest!: in_set_takeD split: option.splits)
qed

lemma distinct_sorted_adj: "sorted (xs :: 'a::linorder list) \<Longrightarrow> distinct (remdups_adj xs)"
proof (induction xs rule: remdups_adj.induct)
  case (3 x y xs)
  then show ?case by (cases "x = y") (auto dest: order_antisym)
qed simp_all

lemma lease_choice_distinct:
  assumes "store_ok st"
  shows "distinct (lease_choice inbox limit only now st)" "length (lease_choice inbox limit only now st) \<le> limit"
proof -
  have "distinct (queued_ids inbox st)"
    unfolding queued_ids_scan [OF assms] by (rule ssorted_distinct [OF scan_sorted [OF ok_keyed [OF assms]]])
  moreover have "distinct (remdups_adj (sort xs))" for xs :: "id list"
    by (simp add: distinct_sorted_adj)
  ultimately show "distinct (lease_choice inbox limit only now st)"
    by (simp add: lease_choice_def split: option.split)
  show "length (lease_choice inbox limit only now st) \<le> limit" by (simp add: lease_choice_def split: option.split)
qed

lemma lease_where_steps:
  assumes "lease_where en inbox consumer limit only now c = (c', Inr taken)"
  obtains c1 c2 c3 a b where "reclaim en now c = (c1, Inr a)" "expire en now c1 = (c2, Inr b)"
    "collect_op (lease_one en consumer now (now + lease_ms (c_limits c2))) (lease_choice inbox limit only now (c_store c2)) c2 = (c3, Inr taken)"
    "c_store c' = c_store c3"
  using assms
  by (auto simp: lease_where_def look_def Let_def then_op_Inr bind_op_Inr split: if_splits)

subsection \<open>What a lease gives\<close>

lemma lease_gives:
  assumes "lease_where en inbox consumer limit only now c = (c', Inr taken)" "core_live c"
  shows "length taken \<le> limit \<and> distinct (map (m_id \<circ> ld_message) taken) \<and>
    list_all (\<lambda>l. handed_out inbox consumer now (now + lease_ms (c_limits c)) l \<and>
      bm_get (cmsgs c') (m_id (ld_message l)) = Some (ld_message l)) taken"
proof -
  obtain c1 c2 c3 a b where s: "reclaim en now c = (c1, Inr a)" "expire en now c1 = (c2, Inr b)"
    "collect_op (lease_one en consumer now (now + lease_ms (c_limits c2))) (lease_choice inbox limit only now (c_store c2)) c2 = (c3, Inr taken)"
    "c_store c' = c_store c3"
    by (rule lease_where_steps [OF assms(1)])
  let ?ids = "lease_choice inbox limit only now (c_store c2)" and ?until = "now + lease_ms (c_limits c2)"
  have live: "core_live c2" by (rule expire_live [OF s(2) reclaim_live [OF s(1) assms(2)]])
  then have ok: "store_ok (c_store c2)" by (simp add: core_live_def)
  note d = lease_choice_distinct [OF ok, of inbox limit only now]
  have "\<forall>i \<in> set ?ids. \<exists>m. bm_get (cmsgs c2) i = Some m \<and> m_to m = inbox \<and> m_expires m > now"
    using lease_choice_gives [OF ok] by blast
  from collect_lease [OF s(3) live d(1) this]
  have l: "list_all2 (\<lambda>i l. m_id (ld_message l) = i \<and> bm_get (cmsgs c3) i = Some (ld_message l) \<and>
      handed_out inbox consumer now ?until l) ?ids taken" by blast
  have ids: "map (m_id \<circ> ld_message) taken = ?ids"
    and all: "list_all (\<lambda>l. handed_out inbox consumer now ?until l \<and>
      bm_get (cmsgs c3) (m_id (ld_message l)) = Some (ld_message l)) taken"
    using l by (induction rule: list_all2_induct) auto
  have "length taken \<le> limit" using d(2) ids by (metis length_map)
  moreover have "distinct (map (m_id \<circ> ld_message) taken)" using d(1) ids by simp
  moreover have "c_limits c2 = c_limits c"
    by (rule keeps_Inr [OF keeps_limits_messages(3) s(2) keeps_Inr [OF keeps_limits_messages(2) s(1)]]) simp
  ultimately show ?thesis using all by (simp add: s(4))
qed

lemma lease_leaves_held:
  assumes "lease_where en inbox consumer limit only now c = (c', Inr taken)" "held_from now i c"
  shows "i \<notin> (m_id \<circ> ld_message) ` set taken"
proof -
  obtain c1 c2 c3 a b where s: "reclaim en now c = (c1, Inr a)" "expire en now c1 = (c2, Inr b)"
    "collect_op (lease_one en consumer now (now + lease_ms (c_limits c2))) (lease_choice inbox limit only now (c_store c2)) c2 = (c3, Inr taken)"
    by (rule lease_where_steps [OF assms(1)])
  let ?ids = "lease_choice inbox limit only now (c_store c2)"
  have h: "held_from now i c2" using assms(2) by (intro expire_held [OF s(2)] reclaim_held [OF s(1)])
  then have live: "core_live c2" and ok: "store_ok (c_store c2)" by (simp_all add: held_from_def core_live_def)
  have "i \<notin> set ?ids" using lease_choice_gives [OF ok] h by (fastforce simp: held_from_def)
  moreover have "\<forall>i \<in> set ?ids. \<exists>m. bm_get (cmsgs c2) i = Some m \<and> m_to m = inbox \<and> m_expires m > now"
    using lease_choice_gives [OF ok] by blast
  from collect_lease [OF s(3) live lease_choice_distinct(1) [OF ok] this]
  have "list_all2 (\<lambda>i l. m_id (ld_message l) = i) ?ids taken" by (auto elim!: list_all2_mono)
  then have "map (m_id \<circ> ld_message) taken = ?ids" by (induction rule: list_all2_induct) auto
  ultimately show ?thesis using list.set_map by metis
qed

end
