(* ===== verification/Broker_Rooms.thy ===== *)
theory Broker_Rooms
  imports Broker_Agents
begin

text \<open>
  Rooms (\<open>src/src/broker.rs\<close>): who sees and manages them, their members, timeline, questions
  and board, and the sweep that expires questions and drops rooms closed long ago.
\<close>

subsection \<open>Requests\<close>

record actor =
  ac_name :: str
  ac_admin :: bool
  ac_strict :: bool

record create_request =
  cr_name :: str
  cr_topic :: str
  cr_private :: bool
  cr_members :: "str list"
  cr_join :: bool

record ask_request =
  ar_to :: "str list"
  ar_options :: "str list"
  ar_ttl :: "u64 option"

record post_request =
  po_room :: str
  po_body :: str
  po_reply_to :: "id option"
  po_about :: "str option"
  po_key :: "str option"
  po_ask :: "ask_request option"

record answer_request =
  an_room :: str
  an_question :: id
  an_body :: str
  an_choice :: "str option"
  an_key :: "str option"

record post_query =
  pq_before :: "id option"
  pq_about :: "str option"
  pq_kind :: "kind option"
  pq_limit :: nat

subsection \<open>Who may see and manage a room\<close>

definition room_of :: "str \<Rightarrow> store \<Rightarrow> error + room" where
  "room_of name st =
     (case bm_get (cmap (rooms st)) name of
        Some r \<Rightarrow> Inr r
      | None \<Rightarrow> Inl (NotFound (''unknown room '' @ quoted name)))"

definition open_room :: "str \<Rightarrow> store \<Rightarrow> error + room" where
  "open_room name st =
     (case room_of name st of
        Inl e \<Rightarrow> Inl e
      | Inr r \<Rightarrow> if room_is_open r then Inr r else Inl (Conflict (''room '' @ quoted name @ '' is closed'')))"

definition manages :: "room \<Rightarrow> actor \<Rightarrow> bool" where
  "manages r actor \<longleftrightarrow> ac_admin actor \<or> is_owner r (ac_name actor)"

definition require_owner :: "room \<Rightarrow> actor \<Rightarrow> ('j, unit) op" where
  "require_owner r actor =
     (if manages r actor then ret ()
      else refuse (Forbidden (''only owners of room '' @ quoted (rm_name r) @ '' can do that'')))"

definition visible_room :: "str \<Rightarrow> actor \<Rightarrow> store \<Rightarrow> error + room" where
  "visible_room name actor st =
     (case room_of name st of
        Inl e \<Rightarrow> Inl e
      | Inr r \<Rightarrow>
          if ac_admin actor \<or> \<not> rm_private r \<or> bm_contains (rm_members r) (ac_name actor) then Inr r
          else Inl (Forbidden (''room '' @ quoted name @ '' is private to its members; an owner has to add you'')))"

definition can_view :: "str \<Rightarrow> actor \<Rightarrow> store \<Rightarrow> error + unit" where
  "can_view room actor st = (case visible_room room actor st of Inl e \<Rightarrow> Inl e | Inr _ \<Rightarrow> Inr ())"

definition room_scope :: "str \<Rightarrow> store \<Rightarrow> str list" where
  "room_scope room st = (case bm_get (cmap (rooms st)) room of Some r \<Rightarrow> bm_keys (rm_members r) | None \<Rightarrow> [])"

text \<open>Indexing the rooms: \<open>rooms[room]\<close>.\<close>

definition the_room :: "str \<Rightarrow> ('j, room) op" where
  "the_room room = indexed (\<lambda>st. bm_get (cmap (rooms st)) room)"

subsection \<open>The timeline\<close>

definition trim_choice_room :: "nat \<Rightarrow> room \<Rightarrow> id list" where
  "trim_choice_room most r =
     map p_id (take (bm_len (rm_posts r) - most) (filter (\<lambda>p. \<not> room_keeps r p) (bm_values (rm_posts r))))"

definition trim_room :: "'j env \<Rightarrow> str \<Rightarrow> ('j, unit) op" where
  "trim_room en room = look (\<lambda>c.
     case bm_get (cmap (rooms (c_store c))) room of
       None \<Rightarrow> ret ()
     | Some r \<Rightarrow>
         (let ids = trim_choice_room (room_history (c_limits c)) r
          in if ids \<noteq> [] then commit en (E_DropPosts room ids) else ret ()))"

definition emit_room :: "str \<Rightarrow> str \<Rightarrow> (str \<times> json) list \<Rightarrow> u64 \<Rightarrow> 'j core \<Rightarrow> 'j core" where
  "emit_room ev room data now c = emit ev (room_scope room (c_store c)) data now c"

definition append_post :: "'j env \<Rightarrow> str \<Rightarrow> post \<Rightarrow> u64 \<Rightarrow> ('j, unit) op" where
  "append_post en room p now =
     then_op (commit en (E_Post room p))
       (then_op (trim_room en room)
         (bind_op (the_room room) (\<lambda>r.
           modify (\<lambda>c. wake (T_Room room)
             (emit_room ''post'' room [(''room'', J_Str room), (''post'', post_json r p)] now c)))))"

definition log_post :: "id \<Rightarrow> str \<Rightarrow> str \<Rightarrow> u64 \<Rightarrow> post" where
  "log_post i frm body now =
     \<lparr>p_id = i, p_from = frm, p_kind = Event, p_body = body, p_created = now, p_reply_to = None, p_about = None,
      p_choice = None, p_ask = None, p_key = None\<rparr>"

definition log_room :: "'j env \<Rightarrow> str \<Rightarrow> str \<Rightarrow> str \<Rightarrow> u64 \<Rightarrow> ('j, unit) op" where
  "log_room en room frm body now = look (\<lambda>c.
     append_post en room (log_post (next_id (c_store c) now) frm body now) now)"

definition set_question :: "'j env \<Rightarrow> str \<Rightarrow> id \<Rightarrow> status \<Rightarrow> u64 \<Rightarrow> ('j, unit) op" where
  "set_question en room i s now =
     then_op (commit en (E_Question room i s now))
       (modify (\<lambda>c. wake (T_Room room) (emit_room ''question'' room
         [(''room'', J_Str room), (''id'', j_id i), (''status'', J_Str (status_name s))] now c)))"

definition drop_room :: "'j env \<Rightarrow> str \<Rightarrow> u64 \<Rightarrow> ('j, unit) op" where
  "drop_room en room now =
     bind_op (gets (\<lambda>c. room_scope room (c_store c))) (\<lambda>audience.
       then_op (commit en (E_DropRoom room))
         (modify (\<lambda>c. wake (T_Room room)
           (emit ''room'' audience [(''room'', J_Str room), (''change'', J_Str ''deleted'')] now c))))"

subsection \<open>Joining and leaving\<close>

text \<open>The member an agent becomes: \<open>None\<close> when nothing changes.\<close>

definition join_member :: "'j env \<Rightarrow> str \<Rightarrow> str \<Rightarrow> role option \<Rightarrow> member option \<Rightarrow> bool \<Rightarrow> actor \<Rightarrow> u64 \<Rightarrow>
    ('j, member option) op" where
  "join_member en room agent role existing mng actor now =
     (case existing of
        Some mb \<Rightarrow>
          (case role of
             Some ro \<Rightarrow>
               if ro = mb_role mb then ret None
               else if \<not> mng then refuse (Forbidden (''only owners of room '' @ quoted room @ '' can change roles''))
               else ret (Some (mb\<lparr>mb_role := ro\<rparr>))
           | None \<Rightarrow> ret None)
      | None \<Rightarrow>
          then_op (if agent \<noteq> ac_name actor \<and> ac_strict actor then require_known agent else ret ())
            (then_op (ensure_agents en [agent] now)
              (ret (Some \<lparr>mb_role = (case role of Some ro \<Rightarrow> ro | None \<Rightarrow> Plain_Member), mb_joined = now, mb_cursor = None\<rparr>))))"

definition join_text :: "bool \<Rightarrow> str \<Rightarrow> actor \<Rightarrow> role \<Rightarrow> str" where
  "join_text joined agent actor role =
     (if joined then (if agent = ac_name actor then ''joined'' else ''added '' @ agent)
      else case role of Owner \<Rightarrow> ''made '' @ agent @ '' an owner'' | Plain_Member \<Rightarrow> ''made '' @ agent @ '' a member'')"

definition put_member :: "'j env \<Rightarrow> str \<Rightarrow> str \<Rightarrow> member \<Rightarrow> actor \<Rightarrow> u64 \<Rightarrow> ('j, bool) op" where
  "put_member en room agent mb actor now =
     bind_op (the_room room) (\<lambda>r.
       let joined = \<not> bm_contains (rm_members r) agent
       in then_op (commit en (E_Member room agent (Some mb)))
            (then_op (modify (emit_room ''member'' room [(''room'', J_Str room), (''agent'', J_Str agent),
                (''joined'', J_Bool True), (''role'', J_Str (role_name (mb_role mb)))] now))
              (then_op (log_room en room (ac_name actor) (join_text joined agent actor (mb_role mb)) now) (ret True))))"

definition join_room :: "'j env \<Rightarrow> str \<Rightarrow> str \<Rightarrow> role option \<Rightarrow> actor \<Rightarrow> u64 \<Rightarrow> ('j, bool) op" where
  "join_room en room agent role actor now =
     bind_op (reading (visible_room room actor)) (\<lambda>_.
     bind_op (reading (open_room room)) (\<lambda>r.
       let mng = manages r actor; existing = bm_get (rm_members r) agent
       in if agent \<noteq> ac_name actor \<and> \<not> mng then
            refuse (Forbidden (''only owners of room '' @ quoted room @ '' can add other agents''))
          else if role = Some Owner \<and> \<not> mng then
            refuse (Forbidden (''only owners of room '' @ quoted room @ '' can appoint owners''))
          else if existing = None \<and> rm_private r \<and> \<not> mng then
            refuse (Forbidden (''room '' @ quoted room @ '' is private; an owner has to add you''))
          else if existing = None \<and> bm_len (rm_members r) \<ge> max_members then
            refuse (Full (''room '' @ quoted room @ '' is full ('' @ show_nat max_members @ '' members)''))
          else bind_op (join_member en room agent role existing mng actor now) (\<lambda>found.
            case found of None \<Rightarrow> ret False | Some mb \<Rightarrow> put_member en room agent mb actor now)))"

definition leave_room :: "'j env \<Rightarrow> str \<Rightarrow> str \<Rightarrow> actor \<Rightarrow> u64 \<Rightarrow> ('j, unit) op" where
  "leave_room en room agent actor now =
     bind_op (reading (visible_room room actor)) (\<lambda>r.
     then_op (if agent \<noteq> ac_name actor then require_owner r actor else ret ())
       (if \<not> bm_contains (rm_members r) agent then
          refuse (NotFound (quoted agent @ '' is not a member of room '' @ quoted room))
        else
          bind_op (gets (\<lambda>c. room_scope room (c_store c))) (\<lambda>audience.
            then_op (commit en (E_Member room agent None))
              (then_op (modify (emit ''member'' audience
                  [(''room'', J_Str room), (''agent'', J_Str agent), (''joined'', J_Bool False)] now))
                (if room_is_open r
                 then log_room en room (ac_name actor) (if agent = ac_name actor then ''left'' else ''removed '' @ agent) now
                 else ret ())))))"

end
