(* ===== verification/Broker_Questions.thy ===== *)
theory Broker_Questions
  imports Broker_Rooms
begin

text \<open>
  Rooms, continued (\<open>src/src/broker.rs\<close>): creating, changing and deleting them, posts,
  questions and answers, the board, what a member reads, and the room sweep.
\<close>

subsection \<open>Creating a room\<close>

definition add_once :: "str \<Rightarrow> str list \<Rightarrow> str list" where
  "add_once name names = (if name \<in> set names then names else names @ [name])"

definition first_members :: "create_request \<Rightarrow> actor \<Rightarrow> str list" where
  "first_members req actor = fold add_once (cr_members req) [ac_name actor]"

definition admit_room :: "str list \<Rightarrow> actor \<Rightarrow> ('j, unit) op" where
  "admit_room names actor =
     (if \<not> ac_strict actor then ret ()
      else then_op (each_op require_known (tl names)) (look (\<lambda>c.
        let created = length (filter (\<lambda>r. room_is_open r \<and> rm_created_by r = ac_name actor) (bm_values (cmap (rooms (c_store c)))))
        in if created \<ge> share (max_rooms (c_limits c)) then
             refuse (Full (ac_name actor @ '' already created '' @ show_nat created @ '' open rooms, a quarter of the '' @
               show_nat (max_rooms (c_limits c)) @ '' the server holds; close one first''))
           else ret ())))"

text \<open>The room closed longest ago: the least time, then the least name.\<close>

definition closed_rooms :: "store \<Rightarrow> (u64 \<times> str) list" where
  "closed_rooms st =
     List.map_filter (\<lambda>r. map_option (\<lambda>at. (at, rm_name r)) (rm_closed r)) (bm_values (cmap (rooms st)))"

definition room_to_evict :: "('j, str option) op" where
  "room_to_evict = look (\<lambda>c.
     if bm_len (cmap (rooms (c_store c))) \<ge> max_rooms (c_limits c) then
       (case sort (closed_rooms (c_store c)) of
          (_, name) # _ \<Rightarrow> ret (Some name)
        | [] \<Rightarrow> refuse (Full (''room limit reached (maximum '' @ show_nat (max_rooms (c_limits c)) @
            ''); close or delete a room first'')))
     else ret None)"

definition new_room :: "create_request \<Rightarrow> actor \<Rightarrow> str list \<Rightarrow> u64 \<Rightarrow> room" where
  "new_room req actor names now =
     \<lparr>rm_name = cr_name req, rm_topic = cr_topic req, rm_created = now, rm_created_by = ac_name actor,
      rm_private = cr_private req, rm_closed = None,
      rm_members = bm_of_list (map (\<lambda>name. (name, \<lparr>mb_role = (if name = ac_name actor then Owner else Plain_Member),
        mb_joined = now, mb_cursor = None\<rparr>)) names),
      rm_board = bm_empty, rm_posts = bm_empty, rm_open = bm_empty\<rparr>"

definition make_room :: "'j env \<Rightarrow> create_request \<Rightarrow> actor \<Rightarrow> str list \<Rightarrow> u64 \<Rightarrow> ('j, bool) op" where
  "make_room en req actor names now =
     then_op (admit_room names actor) (bind_op room_to_evict (\<lambda>evict.
       then_op (ensure_agents en names now)
         (then_op (case evict of Some name \<Rightarrow> drop_room en name now | None \<Rightarrow> ret ())
           (then_op (commit en (E_Room (new_room req actor names now)))
             (then_op (modify (emit_room ''room'' (cr_name req)
                 [(''room'', J_Str (cr_name req)), (''change'', J_Str ''created'')] now))
               (then_op (log_room en (cr_name req) (ac_name actor)
                   (if cr_topic req = [] then ''created the room'' else ''created the room: '' @ cr_topic req) now)
                 (ret True)))))))"

definition create_room :: "'j env \<Rightarrow> create_request \<Rightarrow> actor \<Rightarrow> u64 \<Rightarrow> ('j, bool) op" where
  "create_room en req actor now =
     then_op (room_to_grow en) (look (\<lambda>c.
       if bm_contains (cmap (rooms (c_store c))) (cr_name req) then
         (if \<not> cr_join req then
            refuse (Conflict (''room '' @ quoted (cr_name req) @ '' already exists; join it instead''))
          else then_op (join_room en (cr_name req) (ac_name actor) None actor now) (ret False))
       else
         (let names = first_members req actor in
          if length names > max_members then
            refuse (BadRequest (''a room holds at most '' @ show_nat max_members @ '' members''))
          else make_room en req actor names now)))"

subsection \<open>Changing a room\<close>

definition reopen_room :: "'j env \<Rightarrow> str \<Rightarrow> actor \<Rightarrow> u64 \<Rightarrow> ('j, unit) op" where
  "reopen_room en room actor now =
     then_op (commit en (E_Close room None)) (log_room en room (ac_name actor) ''reopened the room'' now)"

definition set_topic :: "'j env \<Rightarrow> str \<Rightarrow> str \<Rightarrow> actor \<Rightarrow> u64 \<Rightarrow> ('j, unit) op" where
  "set_topic en room topic actor now =
     bind_op (the_room room) (\<lambda>r.
       if topic = rm_topic r then ret ()
       else then_op (reading (open_room room))
         (then_op (commit en (E_Topic room topic))
           (log_room en room (ac_name actor)
             (if topic = [] then ''cleared the topic'' else ''set the topic: '' @ topic) now)))"

definition close_room :: "'j env \<Rightarrow> str \<Rightarrow> actor \<Rightarrow> u64 \<Rightarrow> ('j, unit) op" where
  "close_room en room actor now =
     bind_op (the_room room) (\<lambda>r.
       if \<not> room_is_open r then ret ()
       else then_op (log_room en room (ac_name actor) ''closed the room'' now)
         (bind_op (the_room room) (\<lambda>r.
           then_op (each_op (\<lambda>i. set_question en room i St_Withdrawn now) (bs_list (rm_open r)))
             (commit en (E_Close room (Some now))))))"

definition update_room_op :: "'j env \<Rightarrow> str \<Rightarrow> str option \<Rightarrow> bool option \<Rightarrow> actor \<Rightarrow> u64 \<Rightarrow> ('j, unit) op" where
  "update_room_op en room topic closed actor now =
     bind_op (reading (visible_room room actor)) (\<lambda>r.
     then_op (require_owner r actor)
       (then_op (if closed = Some False \<and> \<not> room_is_open r then reopen_room en room actor now else ret ())
         (then_op (case topic of Some t \<Rightarrow> set_topic en room t actor now | None \<Rightarrow> ret ())
           (then_op (if closed = Some True then close_room en room actor now else ret ())
             (modify (emit_room ''room'' room [(''room'', J_Str room), (''change'', J_Str ''updated'')] now))))))"

definition delete_room :: "'j env \<Rightarrow> str \<Rightarrow> actor \<Rightarrow> u64 \<Rightarrow> ('j, unit) op" where
  "delete_room en room actor now =
     bind_op (reading (visible_room room actor)) (\<lambda>r. then_op (require_owner r actor) (drop_room en room now))"

subsection \<open>Posting\<close>

fun addressees :: "str \<Rightarrow> str list \<Rightarrow> str list \<Rightarrow> error + str list" where
  "addressees asker [] to = Inr to"
| "addressees asker (name # names) to =
     (if name = asker then Inl (BadRequest ''a question cannot be addressed to its asker'')
      else addressees asker names (add_once name to))"

fun option_list :: "str list \<Rightarrow> str list \<Rightarrow> error + str list" where
  "option_list [] found = Inr found"
| "option_list (option # options) found =
     (let option = trim_str option in
      if option = [] \<or> length (chars option) > 200 then Inl (BadRequest ''options must be 1 to 200 characters'')
      else option_list options (if list_ex (\<lambda>x. eq_ignore_ascii_case x option) found then found else found @ [option]))"

definition new_ask :: "ask_request \<Rightarrow> str \<Rightarrow> u64 \<Rightarrow> u64 \<Rightarrow> error + ask" where
  "new_ask req asker ttl now =
     (case addressees asker (ar_to req) [] of
        Inl e \<Rightarrow> Inl e
      | Inr to \<Rightarrow>
          (case option_list (ar_options req) [] of
             Inl e \<Rightarrow> Inl e
           | Inr options \<Rightarrow>
               if length to > max_addressees \<or> length options > max_options then
                 Inl (BadRequest (''a question names at most '' @ show_nat max_addressees @ '' members and '' @
                   show_nat max_options @ '' options''))
               else Inr \<lparr>ask_to = to, ask_options = options,
                      ask_expires = now + min (case ar_ttl req of Some t \<Rightarrow> t | None \<Rightarrow> ttl) ttl,
                      ask_status = St_Open, ask_closed = None\<rparr>))"

definition admit_question :: "room \<Rightarrow> ask \<Rightarrow> actor \<Rightarrow> ('j, unit) op" where
  "admit_question r a actor =
     (let outsider = List.find (\<lambda>n. \<not> bm_contains (rm_members r) n) (ask_to a);
          opened = length (open_questions r);
          own = length (filter (\<lambda>p. p_from p = ac_name actor) (open_questions r)) in
      case (if rm_private r \<and> \<not> manages r actor then outsider else None) of
        Some name \<Rightarrow> refuse (Forbidden (name @ '' is not a member of private room '' @ quoted (rm_name r) @
          ''; only owners can add agents''))
      | None \<Rightarrow>
          then_op (if ac_strict actor then each_op require_known (ask_to a) else ret ())
            (if opened \<ge> max_open_questions then
               refuse (Full (''room '' @ quoted (rm_name r) @ '' has '' @ show_nat max_open_questions @
                 '' open questions; answer or withdraw some first''))
             else if ac_strict actor \<and> own \<ge> share max_open_questions then
               refuse (Full (ac_name actor @ '' has '' @ show_nat own @ '' open questions in room '' @ quoted (rm_name r) @
                 '', a quarter of what it holds; withdraw one first''))
             else ret ()))"

text \<open>The post replied to, which has to be in the room.\<close>

definition post_parent :: "post_request \<Rightarrow> room \<Rightarrow> error + post option" where
  "post_parent req r =
     (case po_reply_to req of
        None \<Rightarrow> Inr None
      | Some i \<Rightarrow>
          (case bm_get (rm_posts r) i of
             Some p \<Rightarrow> Inr (Some p)
           | None \<Rightarrow> Inl (NotFound (''post '' @ id_to_string i @ '' is not in room '' @ quoted (po_room req)))))"

definition about_of :: "str option \<Rightarrow> post option \<Rightarrow> str option" where
  "about_of about parent = (case about of Some a \<Rightarrow> Some a | None \<Rightarrow> Option.bind parent p_about)"

definition ask_of :: "post_request \<Rightarrow> actor \<Rightarrow> u64 \<Rightarrow> u64 \<Rightarrow> error + ask option" where
  "ask_of req actor ttl now =
     (case po_ask req of
        None \<Rightarrow> Inr None
      | Some a \<Rightarrow> (case new_ask a (ac_name actor) ttl now of Inl e \<Rightarrow> Inl e | Inr k \<Rightarrow> Inr (Some k)))"

definition joining :: "room \<Rightarrow> actor \<Rightarrow> ask option \<Rightarrow> str list" where
  "joining r actor a =
     filter (\<lambda>name. \<not> bm_contains (rm_members r) name)
       (ac_name actor # (case a of Some a \<Rightarrow> ask_to a | None \<Rightarrow> []))"

definition inviter :: "actor \<Rightarrow> actor" where
  "inviter actor = \<lparr>ac_name = ac_name actor, ac_admin = True, ac_strict = False\<rparr>"

definition new_post :: "post_request \<Rightarrow> actor \<Rightarrow> str option \<Rightarrow> ask option \<Rightarrow> id \<Rightarrow> u64 \<Rightarrow> post" where
  "new_post req actor about a i now =
     \<lparr>p_id = i, p_from = ac_name actor, p_kind = (if a = None then Note else Question), p_body = po_body req,
      p_created = now, p_reply_to = po_reply_to req, p_about = about, p_choice = None, p_ask = a, p_key = po_key req\<rparr>"

definition put_post_op :: "'j env \<Rightarrow> str \<Rightarrow> (id \<Rightarrow> post) \<Rightarrow> u64 \<Rightarrow> ('j, post) op" where
  "put_post_op en room p now = look (\<lambda>c.
     let p = p (next_id (c_store c) now) in then_op (append_post en room p now) (ret p))"

definition post_new :: "'j env \<Rightarrow> post_request \<Rightarrow> actor \<Rightarrow> room \<Rightarrow> str option \<Rightarrow> ask option \<Rightarrow> u64 \<Rightarrow> ('j, post \<times> bool) op" where
  "post_new en req actor r about a now =
     then_op (case a of Some a \<Rightarrow> admit_question r a actor | None \<Rightarrow> ret ())
       (let names = joining r actor a in
        if bm_len (rm_members r) + length names > max_members then
          refuse (Full (''room '' @ quoted (po_room req) @ '' is full ('' @ show_nat max_members @ '' members)''))
        else
          then_op (ensure_agents en names now)
            (then_op (each_op (\<lambda>name. then_op
                (join_room en (po_room req) name None (if name = ac_name actor then actor else inviter actor) now) (ret ())) names)
              (bind_op (put_post_op en (po_room req) (\<lambda>i. new_post req actor about a i now) now) (\<lambda>p. ret (p, True)))))"

definition post_op :: "'j env \<Rightarrow> post_request \<Rightarrow> actor \<Rightarrow> u64 \<Rightarrow> ('j, post \<times> bool) op" where
  "post_op en req actor now =
     then_op (reading (visible_room (po_room req) actor)) (then_op (room_to_grow en)
     (bind_op (reading (open_room (po_room req))) (\<lambda>r. look (\<lambda>c.
       case Option.bind (po_key req) (\<lambda>key. post_by_key (po_room req) (ac_name actor) key (c_store c)) of
         Some existing \<Rightarrow> ret (existing, False)
       | None \<Rightarrow>
           bind_op (reading (\<lambda>_. post_parent req r)) (\<lambda>parent.
           bind_op (reading (\<lambda>_. ask_of req actor (msg_ttl_ms (c_limits c)) now)) (\<lambda>a.
             post_new en req actor r (about_of (po_about req) parent) a now))))))"

subsection \<open>Answering\<close>

definition question_of :: "str \<Rightarrow> id \<Rightarrow> room \<Rightarrow> error + post" where
  "question_of room i r =
     (case bm_get (rm_posts r) i of
        Some p \<Rightarrow>
          if p_kind p = Question then Inr p
          else Inl (NotFound (''question '' @ id_to_string i @ '' is not in room '' @ quoted room))
      | None \<Rightarrow> Inl (NotFound (''question '' @ id_to_string i @ '' is not in room '' @ quoted room)))"

definition may_answer :: "actor \<Rightarrow> room \<Rightarrow> post \<Rightarrow> id \<Rightarrow> error + ask" where
  "may_answer actor r asked i =
     (case p_ask asked of
        None \<Rightarrow> Inl (NotFound (''question '' @ id_to_string i @ '' has no ask''))
      | Some a \<Rightarrow>
          if ask_status a \<noteq> St_Open then
            Inl (Conflict (''question '' @ id_to_string i @ '' is already '' @ status_name (ask_status a)))
          else if p_from asked = ac_name actor then
            Inl (Conflict ''you cannot answer your own question; withdraw it instead'')
          else if ask_to a \<noteq> [] \<and> ac_name actor \<notin> set (ask_to a) then
            Inl (Forbidden (''question '' @ id_to_string i @ '' is addressed to '' @ join '', '' (ask_to a)))
          else if list_ex (\<lambda>p. p_from p = ac_name actor) (answers r i) then
            Inl (Conflict (''you already answered question '' @ id_to_string i))
          else Inr a)"

definition pick_choice :: "str list \<Rightarrow> str option \<Rightarrow> error + str option" where
  "pick_choice options choice =
     (if options = [] then Inr choice
      else case choice of
        Some ch \<Rightarrow>
          (case List.find (\<lambda>x. eq_ignore_ascii_case x (trim_str ch)) options of
             Some x \<Rightarrow> Inr (Some x)
           | None \<Rightarrow> Inl (BadRequest (''choice must be one of: '' @ join '', '' options)))
      | None \<Rightarrow> Inl (BadRequest (''pick a choice: '' @ join '', '' options)))"

definition answer_body :: "str \<Rightarrow> str option \<Rightarrow> error + str" where
  "answer_body body choice =
     (let body = (if body = [] then (case choice of Some ch \<Rightarrow> ch | None \<Rightarrow> []) else body)
      in if body = [] then Inl (BadRequest (quoted ''body'' @ '' is required'')) else Inr body)"

definition new_answer :: "answer_request \<Rightarrow> actor \<Rightarrow> str \<Rightarrow> str option \<Rightarrow> str option \<Rightarrow> id \<Rightarrow> u64 \<Rightarrow> post" where
  "new_answer req actor body about choice i now =
     \<lparr>p_id = i, p_from = ac_name actor, p_kind = Answer, p_body = body, p_created = now,
      p_reply_to = Some (an_question req), p_about = about, p_choice = choice, p_ask = None, p_key = an_key req\<rparr>"

text \<open>Whether the question is resolved, in the room as it is after the answer.\<close>

definition resolve :: "'j env \<Rightarrow> answer_request \<Rightarrow> u64 \<Rightarrow> ('j, bool) op" where
  "resolve en req now =
     bind_op (the_room (an_room req)) (\<lambda>r.
     bind_op (indexed (\<lambda>_. bm_get (rm_posts r) (an_question req))) (\<lambda>asked.
       let resolved = (case p_ask asked of Some a \<Rightarrow> ask_to a = [] | None \<Rightarrow> False) \<or> waiting_on r asked = []
       in then_op (if resolved then set_question en (an_room req) (an_question req) St_Resolved now else ret ())
            (ret resolved)))"

definition answer_op :: "'j env \<Rightarrow> answer_request \<Rightarrow> actor \<Rightarrow> u64 \<Rightarrow> ('j, post \<times> bool) op" where
  "answer_op en req actor now =
     then_op (room_to_grow en) (then_op (reading (visible_room (an_room req) actor))
     (bind_op (reading (open_room (an_room req))) (\<lambda>r. look (\<lambda>c.
       case Option.bind (an_key req) (\<lambda>key. post_by_key (an_room req) (ac_name actor) key (c_store c)) of
         Some existing \<Rightarrow> ret (existing, False)
       | None \<Rightarrow>
           bind_op (reading (\<lambda>_. question_of (an_room req) (an_question req) r)) (\<lambda>asked.
           bind_op (reading (\<lambda>_. may_answer actor r asked (an_question req))) (\<lambda>a.
           bind_op (reading (\<lambda>_. pick_choice (ask_options a) (an_choice req))) (\<lambda>choice.
           bind_op (reading (\<lambda>_. answer_body (an_body req) choice)) (\<lambda>body.
             then_op (if bm_contains (rm_members r) (ac_name actor) then ret ()
                      else then_op (join_room en (an_room req) (ac_name actor) None actor now) (ret ()))
               (bind_op (put_post_op en (an_room req) (\<lambda>i. new_answer req actor body (p_about asked) choice i now) now) (\<lambda>p.
                 bind_op (resolve en req now) (\<lambda>resolved. ret (p, resolved))))))))))))"

definition withdraw :: "'j env \<Rightarrow> str \<Rightarrow> id \<Rightarrow> actor \<Rightarrow> u64 \<Rightarrow> ('j, unit) op" where
  "withdraw en room i actor now =
     bind_op (reading (visible_room room actor)) (\<lambda>r.
     bind_op (reading (\<lambda>_. question_of room i r)) (\<lambda>asked.
       then_op (if p_from asked \<noteq> ac_name actor then require_owner r actor else ret ())
         (if \<not> is_open_question asked then
            refuse (Conflict (''question '' @ id_to_string i @ '' is no longer open''))
          else set_question en room i St_Withdrawn now)))"

definition question_json_of :: "str \<Rightarrow> id \<Rightarrow> store \<Rightarrow> error + json" where
  "question_json_of room i st =
     (case room_of room st of
        Inl e \<Rightarrow> Inl e
      | Inr r \<Rightarrow> (case question_of room i r of Inl e \<Rightarrow> Inl e | Inr p \<Rightarrow> Inr (post_json r p)))"

end
