(* ===== verification/Broker_Boards.thy ===== *)
theory Broker_Boards
  imports Broker_Questions
begin

text \<open>
  Rooms, concluded (\<open>src/src/broker.rs\<close>): what members read, the board, the JSON views of
  rooms, and the sweep that expires questions and drops rooms closed long ago.
\<close>

subsection \<open>Reading\<close>

text \<open>The loop of \<open>read_room\<close>: the posts handed out, the last one passed, what remains.\<close>

fun read_loop :: "str \<Rightarrow> nat \<Rightarrow> (id \<times> post) list \<Rightarrow> post list \<Rightarrow> id option \<Rightarrow> nat \<Rightarrow> post list \<times> id option \<times> nat" where
  "read_loop agent limit [] items last_read remaining = (items, last_read, remaining)"
| "read_loop agent limit ((i, p) # ps) items last_read remaining =
     (if length items = limit then
        read_loop agent limit ps items last_read (remaining + (if p_from p \<noteq> agent then 1 else 0))
      else read_loop agent limit ps (if p_from p \<noteq> agent then items @ [p] else items) (Some i) remaining)"

definition member_of :: "str \<Rightarrow> str \<Rightarrow> room \<Rightarrow> error + member" where
  "member_of room agent r =
     (case bm_get (rm_members r) agent of
        Some mb \<Rightarrow> Inr mb
      | None \<Rightarrow> Inl (Forbidden (quoted agent @ '' is not a member of room '' @ quoted room @ ''; join it first'')))"

definition read_room :: "'j env \<Rightarrow> str \<Rightarrow> str \<Rightarrow> nat \<Rightarrow> ('j, json list \<times> nat) op" where
  "read_room en room agent limit =
     bind_op (reading (room_of room)) (\<lambda>r.
     bind_op (reading (\<lambda>_. member_of room agent r)) (\<lambda>mb.
       let (items, last_read, remaining) = read_loop agent limit (run_after (mb_cursor mb) (rm_posts r)) [] None 0
       in then_op (case last_read of Some i \<Rightarrow> commit en (E_RoomCursor room agent i) | None \<Rightarrow> ret ())
            (ret (map (post_json r) items, remaining))))"

definition page_matches :: "post_query \<Rightarrow> post \<Rightarrow> bool" where
  "page_matches q p \<longleftrightarrow>
     (case pq_about q of None \<Rightarrow> True | Some a \<Rightarrow> p_about p = Some a) \<and>
     (case pq_kind q of None \<Rightarrow> True | Some k \<Rightarrow> p_kind p = k)"

definition room_posts :: "str \<Rightarrow> post_query \<Rightarrow> store \<Rightarrow> error + (json list \<times> id option)" where
  "room_posts room q st =
     (case room_of room st of
        Inl e \<Rightarrow> Inl e
      | Inr r \<Rightarrow>
          (let range = (case pq_before q of Some b \<Rightarrow> map snd (bm_before b (rm_posts r)) | None \<Rightarrow> bm_values (rm_posts r));
               items = take (pq_limit q + 1) (filter (page_matches q) (rev range))
           in if length items > pq_limit q
              then (let items = take (pq_limit q) items
                    in Inr (map (post_json r) (rev items), if items = [] then None else Some (p_id (List.last items))))
              else Inr (map (post_json r) (rev items), None)))"

subsection \<open>The board\<close>

text \<open>What a board write does: leaves the entry as it is, or puts or removes one with a line for
  the timeline.\<close>

datatype board_change = Board_Same "board_entry option" | Board_Put "board_entry option" str

definition board_judge :: "str \<Rightarrow> str \<Rightarrow> str option \<Rightarrow> u64 option \<Rightarrow> str \<Rightarrow> u64 \<Rightarrow> room \<Rightarrow> error + board_change" where
  "board_judge room key value expect by now r =
     (let current = bm_get (rm_board r) key;
          version = (case current of Some e \<Rightarrow> be_version e | None \<Rightarrow> 0) in
      if expect \<noteq> None \<and> expect \<noteq> Some version then
        Inl (Conflict (''board key '' @ quoted key @ '' is at version '' @ show_nat (unat version) @ '', not '' @
          show_nat (unat (case expect of Some x \<Rightarrow> x | None \<Rightarrow> 0))))
      else case value of
        None \<Rightarrow>
          if current = None then Inl (NotFound (''board key '' @ quoted key @ '' is not set in room '' @ quoted room))
          else Inr (Board_Put None (''removed '' @ key @ '' from the board''))
      | Some v \<Rightarrow>
          if map_option be_value current = Some v then Inr (Board_Same current)
          else if current = None \<and> bm_len (rm_board r) \<ge> max_board_keys then
            Inl (Full (''the board of room '' @ quoted room @ '' holds at most '' @ show_nat max_board_keys @ '' keys''))
          else Inr (Board_Put (Some \<lparr>be_value = v, be_by = by, be_at = now, be_version = version + 1\<rparr>)
                 (''set '' @ key @ '' on the board (version '' @ show_nat (unat (version + 1)) @ '')'')))"

definition put_board :: "'j env \<Rightarrow> str \<Rightarrow> str \<Rightarrow> board_entry option \<Rightarrow> str \<Rightarrow> actor \<Rightarrow> u64 \<Rightarrow> ('j, board_entry option) op" where
  "put_board en room key entry body actor now =
     then_op (commit en (E_Board room key entry))
       (then_op (modify (emit_room ''board'' room [(''room'', J_Str room), (''key'', J_Str key),
           (''version'', case entry of Some e \<Rightarrow> J_Int (uint (be_version e)) | None \<Rightarrow> J_Null)] now))
         (then_op (log_room en room (ac_name actor) body now) (ret entry)))"

definition board_set :: "'j env \<Rightarrow> str \<Rightarrow> str \<Rightarrow> str option \<Rightarrow> u64 option \<Rightarrow> actor \<Rightarrow> u64 \<Rightarrow> ('j, board_entry option) op" where
  "board_set en room key value expect actor now =
     then_op (reading (visible_room room actor))
       (then_op (if value \<noteq> None then room_to_grow en else ret ())
         (bind_op (reading (open_room room)) (\<lambda>r.
           if \<not> ac_admin actor \<and> \<not> bm_contains (rm_members r) (ac_name actor) then
             refuse (Forbidden (''join room '' @ quoted room @ '' before writing its board''))
           else bind_op (reading (\<lambda>_. board_judge room key value expect (ac_name actor) now r)) (\<lambda>change.
             case change of
               Board_Same current \<Rightarrow> ret current
             | Board_Put entry body \<Rightarrow> put_board en room key entry body actor now))))"

definition entry_json :: "str \<times> board_entry \<Rightarrow> json" where
  "entry_json = (\<lambda>(key, e).
     j_obj [(''key'', J_Str key), (''value'', J_Str (be_value e)), (''by'', J_Str (be_by e)),
       (''version'', J_Int (uint (be_version e))), (''updatedAt'', j_time (be_at e))])"

definition board_json :: "str \<Rightarrow> store \<Rightarrow> error + json list" where
  "board_json room st =
     (case room_of room st of Inl e \<Rightarrow> Inl e | Inr r \<Rightarrow> Inr (map entry_json (bm_entries (rm_board r))))"

subsection \<open>Rooms as others see them\<close>

definition room_summary :: "room \<Rightarrow> str \<Rightarrow> (str, nat) btree_map \<Rightarrow> (str \<times> json) list" where
  "room_summary r viewer online =
     (let mb = bm_get (rm_members r) viewer;
          recent = (case bm_last (rm_posts r) of Some (_, p) \<Rightarrow> p_created p | None \<Rightarrow> rm_created r)
      in fields_of [(''name'', J_Str (rm_name r)), (''topic'', J_Str (rm_topic r)), (''private'', J_Bool (rm_private r)),
        (''open'', J_Bool (room_is_open r)), (''memberCount'', J_Int (int (bm_len (rm_members r)))),
        (''onlineCount'', J_Int (int (length (filter (bm_contains online) (bm_keys (rm_members r)))))),
        (''postCount'', J_Int (int (bm_len (rm_posts r)))), (''openQuestions'', J_Int (int (bm_len (rm_open r)))),
        (''member'', J_Bool (mb \<noteq> None)),
        (''role'', case mb of Some m \<Rightarrow> J_Str (role_name (mb_role m)) | None \<Rightarrow> J_Null),
        (''unread'', J_Int (int (if mb \<noteq> None then room_unread r viewer else 0))),
        (''waiting'', J_Int (int (waiting_for r viewer))), (''lastActivity'', j_time recent)])"

definition rooms_json :: "actor \<Rightarrow> u64 \<Rightarrow> store \<Rightarrow> json list" where
  "rooms_json actor now st =
     map (\<lambda>r. J_Obj (room_summary r (ac_name actor) (online_counts now st)))
       (filter (\<lambda>r. ac_admin actor \<or> \<not> rm_private r \<or> bm_contains (rm_members r) (ac_name actor))
         (bm_values (cmap (rooms st))))"

definition member_json :: "room \<Rightarrow> (str, nat) btree_map \<Rightarrow> str \<times> member \<Rightarrow> json" where
  "member_json r online = (\<lambda>(name, m).
     j_obj [(''name'', J_Str name), (''role'', J_Str (role_name (mb_role m))),
       (''online'', J_Bool (bm_contains online name)), (''unread'', J_Int (int (room_unread r name))),
       (''joinedAt'', j_time (mb_joined m))])"

definition room_json :: "str \<Rightarrow> str \<Rightarrow> u64 \<Rightarrow> store \<Rightarrow> error + json" where
  "room_json room viewer now st =
     (case room_of room st of
        Inl e \<Rightarrow> Inl e
      | Inr r \<Rightarrow>
          (let online = online_counts now st in
           Inr (J_Obj (fold (\<lambda>(k, v). put_field k v)
             [(''createdAt'', j_time (rm_created r)), (''createdBy'', J_Str (rm_created_by r)),
              (''closedAt'', case rm_closed r of Some at \<Rightarrow> j_time at | None \<Rightarrow> J_Null),
              (''members'', J_Arr (map (member_json r online) (bm_entries (rm_members r)))),
              (''board'', J_Arr (map entry_json (bm_entries (rm_board r)))),
              (''questions'', J_Arr (map (post_json r) (open_questions r)))]
             (room_summary r viewer online)))))"

definition room_activity :: "str \<Rightarrow> store \<Rightarrow> json list" where
  "room_activity agent st =
     map (\<lambda>r. j_obj [(''room'', J_Str (rm_name r)), (''unread'', J_Int (int (room_unread r agent))),
         (''waiting'', J_Int (int (waiting_for r agent)))])
       (filter (\<lambda>r. bm_contains (rm_members r) agent \<and> room_unread r agent + waiting_for r agent > 0)
         (bm_values (cmap (rooms st))))"

subsection \<open>The sweep\<close>

definition expired_questions :: "u64 \<Rightarrow> store \<Rightarrow> (str \<times> id) list" where
  "expired_questions now st =
     concat (map (\<lambda>r. map (\<lambda>p. (rm_name r, p_id p))
         (filter (\<lambda>p. case p_ask p of Some a \<Rightarrow> ask_expires a \<le> now | None \<Rightarrow> False) (open_questions r)))
       (bm_values (cmap (rooms st))))"

definition stale_rooms :: "u64 \<Rightarrow> u64 \<Rightarrow> store \<Rightarrow> str list" where
  "stale_rooms ttl now st =
     map rm_name (filter (\<lambda>r. case rm_closed r of Some at \<Rightarrow> at + ttl \<le> now | None \<Rightarrow> False)
       (bm_values (cmap (rooms st))))"

definition sweep_rooms :: "'j env \<Rightarrow> u64 \<Rightarrow> ('j, unit) op" where
  "sweep_rooms en now =
     bind_op (gets (\<lambda>c. expired_questions now (c_store c))) (\<lambda>expired.
     then_op (each_op (\<lambda>(room, i). set_question en room i St_Expired now) expired)
       (bind_op (gets (\<lambda>c. stale_rooms (msg_ttl_ms (c_limits c)) now (c_store c))) (\<lambda>stale.
         each_op (\<lambda>room. drop_room en room now) stale)))"

end
