(* ===== verification/Broker_Broadcasts.thy ===== *)
theory Broker_Broadcasts
  imports Broker_Agents
begin

text \<open>
  Broadcasts (\<open>src/src/broker.rs\<close>): sending, the fair trim at their limit, and each agent's
  cursor over them.
\<close>

subsection \<open>Trimming\<close>

text \<open>How many each sender holds; the first pass takes the oldest of senders over their
  quota, the second the oldest of what is left.\<close>

definition held_by :: "broadcast list \<Rightarrow> (str, nat) btree_map" where
  "held_by bs =
     fold (\<lambda>b held. bm_insert (b_from b) (case bm_get held (b_from b) of Some n \<Rightarrow> n + 1 | None \<Rightarrow> 1) held) bs bm_empty"

fun flood_ids :: "nat \<Rightarrow> nat \<Rightarrow> broadcast list \<Rightarrow> (str, nat) btree_map \<Rightarrow> id list \<Rightarrow> id list" where
  "flood_ids excess quota [] held ids = ids"
| "flood_ids excess quota (b # bs) held ids =
     (if length ids = excess then ids
      else
        (let sent = (case bm_get held (b_from b) of Some n \<Rightarrow> n | None \<Rightarrow> 0)
         in if sent > quota then flood_ids excess quota bs (bm_insert (b_from b) (sent - 1) held) (ids @ [b_id b])
            else flood_ids excess quota bs held ids))"

fun oldest_ids :: "nat \<Rightarrow> id list \<Rightarrow> id list \<Rightarrow> id list" where
  "oldest_ids excess [] ids = ids"
| "oldest_ids excess (i # rest) ids =
     (if length ids = excess then ids
      else oldest_ids excess rest (if i \<in> set ids then ids else ids @ [i]))"

definition trim_choice :: "nat \<Rightarrow> nat \<Rightarrow> (id, broadcast) btree_map \<Rightarrow> id list" where
  "trim_choice excess quota bs =
     oldest_ids excess (bm_keys bs) (flood_ids excess quota (bm_values bs) (held_by (bm_values bs)) [])"

definition trim_broadcasts :: "'j env \<Rightarrow> ('j, unit) op" where
  "trim_broadcasts en = look (\<lambda>c.
     let excess = bm_len (broadcasts (c_store c)) - max_broadcasts (c_limits c)
     in if excess = 0 then ret ()
        else commit en (E_DropBroadcasts
          (trim_choice excess (share (max_broadcasts (c_limits c))) (broadcasts (c_store c)))))"

subsection \<open>Sending\<close>

definition new_broadcast :: "str \<Rightarrow> str \<Rightarrow> str option \<Rightarrow> id \<Rightarrow> u64 \<Rightarrow> u64 \<Rightarrow> broadcast" where
  "new_broadcast frm body key i now ttl =
     \<lparr>b_id = i, b_from = frm, b_body = body, b_created = now, b_expires = now + ttl, b_key = key\<rparr>"

definition put_broadcast :: "'j env \<Rightarrow> str \<Rightarrow> str \<Rightarrow> str option \<Rightarrow> u64 \<Rightarrow> ('j, broadcast \<times> bool) op" where
  "put_broadcast en frm body key now = look (\<lambda>c.
     let b = new_broadcast frm body key (next_id (c_store c) now) now (msg_ttl_ms (c_limits c))
     in then_op (commit en (E_Broadcast b))
          (then_op (trim_broadcasts en)
            (then_op (modify (emit_all ''broadcast'' [(''broadcast'', broadcast_json b)] now))
              (ret (b, True)))))"

definition broadcast_op :: "'j env \<Rightarrow> str \<Rightarrow> str \<Rightarrow> str option \<Rightarrow> u64 \<Rightarrow> ('j, broadcast \<times> bool) op" where
  "broadcast_op en frm body key now = look (\<lambda>c.
     case Option.bind key (\<lambda>k. broadcast_by_key frm k (c_store c)) of
       Some existing \<Rightarrow> ret (existing, False)
     | None \<Rightarrow>
         then_op (room_to_grow en)
           (then_op (ensure_agents en [frm] now) (put_broadcast en frm body key now)))"

subsection \<open>Reading and clearing\<close>

definition broadcasts_page :: "id option \<Rightarrow> nat \<Rightarrow> 'j core \<Rightarrow> broadcast list \<times> nat" where
  "broadcasts_page after limit c =
     (let items = (case after of
                     Some a \<Rightarrow> map snd (bm_after a (broadcasts (c_store c)))
                   | None \<Rightarrow> bm_values (broadcasts (c_store c)))
      in (drop (length items - limit) items, bm_len (broadcasts (c_store c))))"

definition read_broadcasts :: "'j env \<Rightarrow> str \<Rightarrow> bool \<Rightarrow> bool \<Rightarrow> ('j, broadcast list \<times> nat) op" where
  "read_broadcasts en agent all moving = look (\<lambda>c.
     let st = c_store c;
         cursor = Option.bind (bm_get (agents st) agent) ag_cursor;
         items = filter (\<lambda>b. all \<or> ((case cursor of None \<Rightarrow> True | Some i \<Rightarrow> b_id b > i) \<and> b_from b \<noteq> agent))
           (bm_values (broadcasts st));
         newest = map_option fst (bm_last (broadcasts st))
     in then_op
          (case newest of
             Some i \<Rightarrow>
               if moving \<and> bm_contains (agents st) agent \<and> cursor \<noteq> Some i then commit en (E_Cursor agent i) else ret ()
           | None \<Rightarrow> ret ())
          (gets (\<lambda>c. (items, bm_len (broadcasts (c_store c))))))"

definition clear_broadcasts :: "'j env \<Rightarrow> u64 \<Rightarrow> ('j, unit) op" where
  "clear_broadcasts en now = look (\<lambda>c.
     let ids = bm_keys (broadcasts (c_store c))
     in then_op (if ids \<noteq> [] then commit en (E_DropBroadcasts ids) else ret ())
          (modify (emit_all ''broadcasts_cleared'' [] now)))"

end
