(* ===== verification/Broker_Sweep.thy ===== *)
theory Broker_Sweep
  imports Broker_Messages Broker_Boards Broker_Broadcasts
begin

text \<open>
  The sweep (\<open>src/src/broker.rs\<close>): presence that ran out, leases and messages that fell due,
  settled messages and broadcasts kept long enough, expired keys, and the rooms; and the
  totals of \<open>stats\<close>.
\<close>

subsection \<open>What falls due\<close>

text \<open>The keyspace counts what changed; the store holds it.\<close>

definition expire_db :: "'j env \<Rightarrow> u64 \<Rightarrow> ('j, bool) op" where
  "expire_db en now = look (\<lambda>c.
     let (d, expired) = expire_keys (ser_key (en_codec en)) now (store_db (c_store c));
         changes = map (\<lambda>key. (key, ''expired'')) expired
     in then_op (modify (\<lambda>c. c\<lparr>c_store := (c_store c)\<lparr>store_db := d\<rparr>,
                   c_channels := notify changes (c_channels c), c_wake := c_wake c @ map T_Key expired\<rparr>))
          (gets (\<lambda>c. expiry_due now (store_db (c_store c)))))"

definition sweep_due :: "'j env \<Rightarrow> u64 \<Rightarrow> ('j, bool) op" where
  "sweep_due en now =
     bind_op (reclaim en now) (\<lambda>leases. bind_op (expire en now) (\<lambda>expired. look (\<lambda>c.
       let kept_until = sat_sub now (msg_ttl_ms (c_limits c));
           stale = take sweep_batch (settled_before kept_until (c_store c))
       in then_op (if stale \<noteq> [] then commit en (E_Drop stale) else ret ())
            (bind_op (gets (\<lambda>c. settled_before kept_until (c_store c) \<noteq> [])) (\<lambda>settled.
              bind_op (expire_db en now) (\<lambda>keys. ret (leases \<or> expired \<or> settled \<or> keys)))))))"

definition end_session :: "u64 \<Rightarrow> str \<times> session \<Rightarrow> 'j core \<Rightarrow> 'j core" where
  "end_session now = (\<lambda>(i, s) c.
     (let c = with_store (\<lambda>st. st\<lparr>sessions := bm_remove i (sessions st)\<rparr>) c
      in if is_online (se_agent s) now c then c else presence_event (se_agent s) False now c))"

definition sweep_sessions :: "u64 \<Rightarrow> 'j core \<Rightarrow> 'j core" where
  "sweep_sessions now c =
     fold (end_session now) (filter (\<lambda>(_, s). se_expires s \<le> now) (bm_entries (sessions (c_store c)))) c"

definition sweep_broadcasts :: "'j env \<Rightarrow> u64 \<Rightarrow> ('j, unit) op" where
  "sweep_broadcasts en now = look (\<lambda>c.
     let old = map b_id (filter (\<lambda>b. b_expires b \<le> now) (bm_values (broadcasts (c_store c))))
     in if old \<noteq> [] then commit en (E_DropBroadcasts old) else ret ())"

definition sweep :: "'j env \<Rightarrow> u64 \<Rightarrow> ('j, bool) op" where
  "sweep en now =
     then_op (modify (sweep_sessions now))
       (bind_op (sweep_due en now) (\<lambda>more.
         then_op (sweep_broadcasts en now) (then_op (sweep_rooms en now) (ret more))))"

subsection \<open>Totals\<close>

definition add_counts :: "counts \<Rightarrow> counts \<Rightarrow> counts" where
  "add_counts a b = \<lparr>ct_queued = ct_queued a + ct_queued b, ct_leased = ct_leased a + ct_leased b,
     ct_dead = ct_dead a + ct_dead b, ct_settled = ct_settled a + ct_settled b\<rparr>"

definition totals :: "store \<Rightarrow> counts" where
  "totals st = fold (\<lambda>name t. add_counts t (agent_counts name st)) (bm_keys (agents st)) counts_zero"

definition stats :: "u64 \<Rightarrow> 'j core \<Rightarrow> json" where
  "stats now c =
     (let st = c_store c; t = totals st in
      j_obj [(''agentCount'', J_Int (int (bm_len (agents st)))), (''onlineCount'', J_Int (int (bm_len (online_counts now st)))),
        (''messageCount'', J_Int (int (counts_pending t))), (''queuedCount'', J_Int (int (ct_queued t))),
        (''leasedCount'', J_Int (int (ct_leased t))), (''deadCount'', J_Int (int (ct_dead t))),
        (''settledCount'', J_Int (int (ct_settled t))), (''broadcastCount'', J_Int (int (bm_len (broadcasts st)))),
        (''roomCount'', J_Int (int (bm_len (cmap (rooms st))))),
        (''keyCount'', J_Int (int (bm_len (db_keys (store_db st)))))])"

definition live_session_count :: "u64 \<Rightarrow> store \<Rightarrow> nat" where
  "live_session_count now st = length (filter (\<lambda>s. se_expires s > now) (bm_values (sessions st)))"

end
