(* ===== verification/Room_Inv.thy ===== *)
theory Room_Inv
  imports Message_Inv Broker_Sweep
begin

text \<open>
  The operations on broadcasts and rooms, and the sweep, keep the store consistent, failures
  included.
\<close>

subsection \<open>Broadcasts\<close>

lemma keeps_trim_broadcasts [keeps_rules]: "keeps core_ok (trim_broadcasts en)"
  unfolding trim_broadcasts_def by (intro keeps_rules) simp_all

lemma fresh_broadcast:
  "core_ok c \<Longrightarrow> last_id (c_store c) \<noteq> id_max \<Longrightarrow> bm_get (broadcasts (c_store c)) (next_id (c_store c) now) = None"
  using fresh_id [of c now] by (auto simp: held_ids_def)

lemma keeps_put_broadcast [keeps_rules]: "keeps core_ok (put_broadcast en frm body key now)"
proof (rule keepsI)
  fix c :: "'a core" assume ok: "core_ok c"
  show "core_ok (fst (put_broadcast en frm body key now c))"
    unfolding put_broadcast_def look_def Let_def
    by (intro then_op_keeps keeps_commit_new [OF ok] keeps_rules) (simp_all add: fresh_broadcast [OF ok] new_broadcast_def)
qed

lemma keeps_broadcast [keeps_rules]: "keeps core_ok (broadcast_op en frm body key now)"
  unfolding broadcast_op_def by (intro keeps_rules)

lemma keeps_read_broadcasts [keeps_rules]: "keeps core_ok (read_broadcasts en agent all moving)"
  unfolding read_broadcasts_def by (intro keeps_rules) simp_all

lemma keeps_clear_broadcasts [keeps_rules]: "keeps core_ok (clear_broadcasts en now)"
  unfolding clear_broadcasts_def by (intro keeps_rules) simp_all

subsection \<open>Rooms\<close>

lemma emit_room_frame [simp]:
  "c_store (emit_room k r d now c) = c_store c" "c_limits (emit_room k r d now c) = c_limits c"
  "core_ok (emit_room k r d now c) = core_ok c"
  by (simp_all add: emit_room_def)

lemma keeps_the_room [keeps_rules]: "keeps P (the_room room)"
  unfolding the_room_def by (intro keeps_rules)

lemma keeps_require_owner [keeps_rules]: "keeps P (require_owner r actor)"
  unfolding require_owner_def by (intro keeps_rules)

lemma keeps_trim_room [keeps_rules]: "keeps core_ok (trim_room en room)"
  unfolding trim_room_def by (intro keeps_rules) simp_all

lemma fresh_post:
  assumes "core_ok c" "last_id (c_store c) \<noteq> id_max" "bm_get (room_map (c_store c)) n = Some r"
  shows "bm_get (rm_posts r) (next_id (c_store c) now) = None"
proof (rule ccontr)
  assume "bm_get (rm_posts r) (next_id (c_store c) now) \<noteq> None"
  then have "next_id (c_store c) now \<in> held_ids (c_store c)" using assms(3) by (auto simp: held_ids_def)
  then show False using fresh_id [OF assms(1,2)] by blast
qed

lemma append_keeps:
  assumes ok: "core_ok c" and i: "p_id p = next_id (c_store c) now"
  shows "core_ok (fst (append_post en room p now c))"
  unfolding append_post_def
  by (intro then_op_keeps keeps_commit_new [OF ok] keeps_rules)
    (auto simp: i fresh_post [OF ok] split: option.split)

lemma keeps_log_room [keeps_rules]: "keeps core_ok (log_room en room frm body now)"
  unfolding log_room_def look_def by (intro keepsI) (simp add: append_keeps log_post_def)

lemma keeps_set_question [keeps_rules]: "keeps core_ok (set_question en room i s now)"
  unfolding set_question_def by (intro keeps_rules) simp_all

lemma keeps_drop_room [keeps_rules]: "keeps core_ok (drop_room en room now)"
  unfolding drop_room_def by (intro keeps_rules) simp_all

lemma keeps_join_member [keeps_rules]: "keeps core_ok (join_member en room agent role existing mng actor now)"
  unfolding join_member_def by (intro keeps_rules)

lemma keeps_put_member [keeps_rules]: "keeps core_ok (put_member en room agent mb actor now)"
  unfolding put_member_def by (intro keeps_rules) simp_all

lemma keeps_join_room [keeps_rules]: "keeps core_ok (join_room en room agent role actor now)"
  unfolding join_room_def by (intro keeps_rules)

lemma keeps_leave_room [keeps_rules]: "keeps core_ok (leave_room en room agent actor now)"
  unfolding leave_room_def by (intro keeps_rules) simp_all

subsection \<open>A new room\<close>

definition room_gone :: "str \<Rightarrow> 'j core \<Rightarrow> bool" where
  "room_gone n c \<longleftrightarrow> core_ok c \<and> bm_get (room_map (c_store c)) n = None"

lemma effect_rooms_dom:
  assumes "bm_get (room_map st) n = None" "\<And>r. e = E_Room r \<Longrightarrow> rm_name r \<noteq> n"
  shows "bm_get (room_map (apply_effect cd e st)) n = None"
  using assms
proof (induction cd e st rule: apply_effect.induct)
  case (5 cd ids st)
  then show ?case using removes_frame [of cd ids st] by simp
next
  case (7 cd ids st)
  then show ?case using drop_broadcasts_frame [of ids st] by simp
next
  case (9 cd frm to st)
  then show ?case by (cases "bm_get (agents st) frm") (auto simp: rename_agent_def Let_def)
qed (auto simp: Let_def apply_drop_posts_def split: option.split)

lemma keeps_gone_commit [keeps_rules]:
  fixes en :: "'j env"
  assumes "\<And>st. effect_ok st e" "\<And>r. e = E_Room r \<Longrightarrow> rm_name r \<noteq> n"
  shows "keeps (room_gone n) (commit en e)"
proof (rule keepsI)
  fix c :: "'j core" assume g: "room_gone n c"
  have "core_ok (fst (commit en e c))"
    by (rule keepsD [OF keeps_commit_plain [OF assms(1)]]) (use g in \<open>simp add: room_gone_def\<close>)
  moreover have "bm_get (room_map (c_store (fst (commit en e c)))) n = None"
    using g commit_store [of en e c] effect_rooms_dom [OF _ assms(2)] by (auto simp: room_gone_def)
  ultimately show "room_gone n (fst (commit en e c))" by (simp add: room_gone_def)
qed

lemma room_gone_frame [simp]:
  "room_gone n (emit k ns d now c) = room_gone n c" "room_gone n (wake t c) = room_gone n c"
  "room_gone n (hand_over_core m c) = room_gone n c"
  by (simp_all add: room_gone_def)

lemma keeps_gone_ensure [keeps_rules]: "keeps (room_gone n) (ensure_agents en names now)"
  unfolding ensure_agents_def forget_one_def add_agent_def by (intro keeps_rules) simp_all

lemma keeps_gone_drop [keeps_rules]: "keeps (room_gone n) (drop_room en room now)"
  unfolding drop_room_def by (intro keeps_rules) simp_all

lemma keeps_admit_room [keeps_rules]: "keeps P (admit_room names actor)"
  unfolding admit_room_def by (intro keeps_rules)

lemma keeps_room_to_evict [keeps_rules]: "keeps P room_to_evict"
  unfolding room_to_evict_def
  by (rule keeps_look) (auto intro!: keeps_rules split: list.split)

lemma keeps_weaken:
  assumes "keeps P m" "\<And>c. Q c \<Longrightarrow> P c" "\<And>c. P c \<Longrightarrow> R c"
  shows "Q c \<Longrightarrow> R (fst (m c))"
  using assms by (simp add: keeps_def)

text \<open>Weaker after than before: the rest only needs a consistent store.\<close>

definition leads :: "('j core \<Rightarrow> bool) \<Rightarrow> ('j core \<Rightarrow> bool) \<Rightarrow> ('j, 'a) op \<Rightarrow> bool" where
  "leads P R m \<longleftrightarrow> (\<forall>c. P c \<longrightarrow> R (fst (m c)))"

lemma leads_then:
  assumes "keeps P m" "leads P R n" "\<And>c. P c \<Longrightarrow> R c"
  shows "leads P R (then_op m n)"
  using assms unfolding leads_def keeps_def then_op_def
  by (metis bind_op_cases fst_conv)

lemma leads_bind:
  assumes "keeps P m" "\<And>x. leads P R (f x)" "\<And>c. P c \<Longrightarrow> R c"
  shows "leads P R (bind_op m f)"
  using assms unfolding leads_def keeps_def
  by (metis bind_op_cases fst_conv)

lemma leads_last:
  assumes "leads P R m" "keeps R n"
  shows "leads P R (then_op m n)"
  using assms unfolding leads_def keeps_def then_op_def
  by (metis bind_op_cases fst_conv)

lemma new_room_ok: "effect_ok st (E_Room (new_room req actor names now)) \<longleftrightarrow> bm_get (room_map st) (cr_name req) = None"
  by (simp add: new_room_def keyed_posts_get)

lemma leads_new_room: "leads (room_gone (cr_name req)) core_ok (commit en (E_Room (new_room req actor names now)))"
  unfolding leads_def room_gone_def by (auto intro!: keeps_commit_new simp: new_room_ok simp del: effect_ok.simps)

lemma leads_make_room: "leads (room_gone (cr_name req)) core_ok (make_room en req actor names now)"
  unfolding make_room_def
  by (intro leads_last [OF leads_new_room] leads_then leads_bind keeps_rules) (simp_all add: room_gone_def)

lemma keeps_create_room [keeps_rules]: "keeps core_ok (create_room en req actor now)"
  unfolding create_room_def
proof (intro keeps_then keeps_room_to_grow)
  have j: "keeps core_ok (then_op (join_room en (cr_name req) (ac_name actor) None actor now) (ret False))"
    by (intro keeps_rules)
  show "keeps core_ok (look (\<lambda>c. if bm_contains (room_map (c_store c)) (cr_name req)
      then if \<not> cr_join req then refuse (Conflict (''room '' @ quoted (cr_name req) @ '' already exists; join it instead''))
           else then_op (join_room en (cr_name req) (ac_name actor) None actor now) (ret False)
      else let names = first_members req actor
           in if max_members < length names
              then refuse (BadRequest (''a room holds at most '' @ show_nat max_members @ '' members''))
              else make_room en req actor names now))"
    using keepsD [OF j] leads_make_room [of req en actor "first_members req actor" now]
    by (intro keepsI) (auto simp: look_def Let_def leads_def room_gone_def)
qed

subsection \<open>Changing rooms\<close>

lemma keeps_update_room [keeps_rules]: "keeps core_ok (update_room_op en room topic closed actor now)"
  unfolding update_room_op_def reopen_room_def set_topic_def close_room_def by (intro keeps_rules) simp_all

lemma keeps_delete_room [keeps_rules]: "keeps core_ok (delete_room en room actor now)"
  unfolding delete_room_def by (intro keeps_rules)

lemma keeps_put_post:
  assumes "\<And>i. p_id (p i) = i"
  shows "keeps core_ok (put_post_op en room p now)"
proof (rule keepsI)
  fix c :: "'a core" assume ok: "core_ok c"
  show "core_ok (fst (put_post_op en room p now c))"
    unfolding put_post_op_def look_def Let_def
    by (intro then_op_keeps append_keeps ok keeps_rules) (rule assms)
qed

lemma keeps_admit_question [keeps_rules]: "keeps P (admit_question r a actor)"
  unfolding admit_question_def Let_def by (intro keeps_rules)

lemma keeps_post_new [keeps_rules]: "keeps core_ok (post_new en req actor r about a now)"
proof -
  have "keeps core_ok (put_post_op en room (\<lambda>i. new_post req actor about a i now) now)" for room
    by (rule keeps_put_post) (simp add: new_post_def)
  then show ?thesis unfolding post_new_def Let_def by (intro keeps_rules)
qed

lemma keeps_post [keeps_rules]: "keeps core_ok (post_op en req actor now)"
  unfolding post_op_def by (intro keeps_rules)

lemma keeps_resolve [keeps_rules]: "keeps core_ok (resolve en req now)"
  unfolding resolve_def by (intro keeps_rules)

lemma keeps_answer [keeps_rules]: "keeps core_ok (answer_op en req actor now)"
proof -
  have "keeps core_ok (put_post_op en room (\<lambda>i. new_answer req actor body about ch i now) now)" for room body about ch
    by (rule keeps_put_post) (simp add: new_answer_def)
  then show ?thesis unfolding answer_op_def by (intro keeps_rules)
qed

lemma keeps_withdraw [keeps_rules]: "keeps core_ok (withdraw en room i actor now)"
  unfolding withdraw_def by (intro keeps_rules)

lemma keeps_read_room [keeps_rules]: "keeps core_ok (read_room en room agent limit)"
  unfolding read_room_def by (intro keeps_rules) simp_all

lemma keeps_board_set [keeps_rules]: "keeps core_ok (board_set en room key value expect actor now)"
  unfolding board_set_def put_board_def
  by (intro keeps_rules) (auto intro!: keeps_rules split: board_change.split)

subsection \<open>The sweep\<close>

lemma keeps_sweep_rooms [keeps_rules]: "keeps core_ok (sweep_rooms en now)"
  unfolding sweep_rooms_def by (intro keeps_rules)

lemma db_ok: "store_ok st \<Longrightarrow> store_ok (st\<lparr>store_db := d\<rparr>)"
  by (rule same_data_ok [of st]) (simp_all add: same_data_def)

lemma keeps_expire_db [keeps_rules]: "keeps core_ok (expire_db en now)"
proof -
  have db: "core_ok c \<Longrightarrow> core_ok (c\<lparr>c_store := (c_store c)\<lparr>store_db := d\<rparr>, c_channels := s, c_wake := w\<rparr>)" for c :: "'a core" and d s w
    by (erule core_ok_same) (simp_all add: db_ok)
  show ?thesis unfolding expire_db_def Let_def by (intro keeps_rules db)
qed

lemma keeps_sweep_due [keeps_rules]: "keeps core_ok (sweep_due en now)"
  unfolding sweep_due_def by (intro keeps_rules) simp_all

lemma end_session_ok: "core_ok c \<Longrightarrow> core_ok (end_session now s c)"
proof -
  assume ok: "core_ok c"
  have "core_ok (with_store (\<lambda>st. st\<lparr>sessions := bm_remove i (sessions st)\<rparr>) c)" for i
    using ok by (rule core_ok_same) (simp_all add: sessions_ok)
  then show ?thesis by (simp add: end_session_def Let_def split: prod.split)
qed

lemma sweep_sessions_ok: "core_ok c \<Longrightarrow> core_ok (sweep_sessions now c)"
proof -
  have "core_ok c \<Longrightarrow> core_ok (fold (end_session now) ss c)" for ss c
    by (induction ss arbitrary: c) (simp_all add: end_session_ok)
  then show "core_ok c \<Longrightarrow> core_ok (sweep_sessions now c)" by (simp add: sweep_sessions_def)
qed

lemma keeps_sweep [keeps_rules]: "keeps core_ok (sweep en now)"
  unfolding sweep_def sweep_broadcasts_def by (intro keeps_rules) (simp_all add: sweep_sessions_ok)

end
