(* ===== verification/Broker_Run.thy ===== *)
theory Broker_Run
  imports Message_Props Room_Inv
begin

text \<open>
  The broker as it runs: every operation a client or the clock starts, one at a time under
  the broker's lock, whatever its result; what goes on besides, which leaves the data alone
  or changes only the keyspace; and restarts, from a store that a snapshot and effects give.
\<close>

inductive broker_op :: "codec \<Rightarrow> 'j core \<Rightarrow> 'j core \<Rightarrow> bool" for cd where
  run_presence: "en_codec en = cd \<Longrightarrow> broker_op cd c (fst (presence en preq now c))"
| run_leave: "broker_op cd c (leave agent session now c)"
| run_rename: "en_codec en = cd \<Longrightarrow> broker_op cd c (fst (rename en frm to now c))"
| run_cleanup: "en_codec en = cd \<Longrightarrow> broker_op cd c (fst (cleanup en now c))"
| run_forget: "en_codec en = cd \<Longrightarrow> broker_op cd c (fst (forget en name now c))"
| run_send: "en_codec en = cd \<Longrightarrow> broker_op cd c (fst (send en sreq now c))"
| run_lease: "en_codec en = cd \<Longrightarrow> broker_op cd c (fst (lease_where en inbox consumer limit only now c))"
| run_ack: "en_codec en = cd \<Longrightarrow> broker_op cd c (fst (ack en inbox receipts who now c))"
| run_purge: "en_codec en = cd \<Longrightarrow> broker_op cd c (fst (purge en inbox now c))"
| run_broadcast: "en_codec en = cd \<Longrightarrow> broker_op cd c (fst (broadcast_op en frm body key now c))"
| run_read_broadcasts: "en_codec en = cd \<Longrightarrow> broker_op cd c (fst (read_broadcasts en agent all moving c))"
| run_clear_broadcasts: "en_codec en = cd \<Longrightarrow> broker_op cd c (fst (clear_broadcasts en now c))"
| run_create_room: "en_codec en = cd \<Longrightarrow> broker_op cd c (fst (create_room en creq actor now c))"
| run_join_room: "en_codec en = cd \<Longrightarrow> broker_op cd c (fst (join_room en room agent role actor now c))"
| run_leave_room: "en_codec en = cd \<Longrightarrow> broker_op cd c (fst (leave_room en room agent actor now c))"
| run_update_room: "en_codec en = cd \<Longrightarrow> broker_op cd c (fst (update_room_op en room heading closed actor now c))"
| run_delete_room: "en_codec en = cd \<Longrightarrow> broker_op cd c (fst (delete_room en room actor now c))"
| run_post: "en_codec en = cd \<Longrightarrow> broker_op cd c (fst (post_op en poreq actor now c))"
| run_answer: "en_codec en = cd \<Longrightarrow> broker_op cd c (fst (answer_op en areq actor now c))"
| run_withdraw: "en_codec en = cd \<Longrightarrow> broker_op cd c (fst (withdraw en room i actor now c))"
| run_read_room: "en_codec en = cd \<Longrightarrow> broker_op cd c (fst (read_room en room agent limit c))"
| run_board_set: "en_codec en = cd \<Longrightarrow> broker_op cd c (fst (board_set en room k v expect actor now c))"
| run_sweep: "en_codec en = cd \<Longrightarrow> broker_op cd c (fst (sweep en now c))"
| run_besides: "same_data (c_store c) (c_store c') \<and> c_limits c' = c_limits c \<Longrightarrow> broker_op cd c c'"

inductive broker_step :: "codec \<Rightarrow> 'j core \<Rightarrow> 'j core \<Rightarrow> bool" for cd where
  step_op: "broker_op cd c c' \<Longrightarrow> broker_step cd c c'"
| step_restart: "store_reaches cd st \<Longrightarrow> broker_step cd c (core_new st lim journal now)"

inductive_cases broker_opE: "broker_op cd c c'"

abbreviation broker_reaches :: "codec \<Rightarrow> limits \<Rightarrow> 'j option \<Rightarrow> u64 \<Rightarrow> 'j core \<Rightarrow> bool" where
  "broker_reaches cd lim journal now \<equiv> reaches (core_new store_default lim journal now) (broker_step cd)"

lemma core_new_ok: "store_ok st \<Longrightarrow> core_ok (core_new st lim journal now)"
  by (simp add: core_ok_def core_new_def)

lemma broker_op_ok: "broker_op cd c c' \<Longrightarrow> core_ok c \<Longrightarrow> core_ok c'"
proof (erule broker_op.cases, goal_cases)
  case (24 c c')
  then show ?case by (auto simp: core_ok_def same_data_ok) (simp add: same_data_def)
qed (simp_all add: leave_ok, auto intro!: keepsD keeps_rules)

lemma broker_step_ok: "core_ok c \<Longrightarrow> broker_step cd c c' \<Longrightarrow> core_ok c'"
  by (erule broker_step.cases) (simp_all add: broker_op_ok core_new_ok store_inv.inv_reaches)

interpretation broker_inv: invariant_of "core_new store_default lim journal now" "broker_step cd" core_ok
  for lim journal now cd
  by unfold_locales (simp_all add: core_new_ok store_default_ok broker_step_ok)

lemma broker_ok: "broker_reaches cd lim journal now c \<Longrightarrow> last_id (c_store c) \<noteq> id_max \<Longrightarrow> store_ok (c_store c)"
  using broker_inv.inv_reaches core_ok_def by blast

lemma broker_live: "broker_reaches cd lim journal now c \<Longrightarrow> last_id (c_store c) \<noteq> id_max \<Longrightarrow> core_live c"
  by (simp add: core_live_def broker_ok)

end
