(* ===== verification/Broker_Total.thy ===== *)
theory Broker_Total
  imports Broker_Run
begin

text \<open>
  When an operation of the broker returns, and with which errors: rules that follow its code, and the
  case of a broker without a journal, whose changes always succeed. Also a small running broker the
  other theories take their concrete inputs from.
\<close>

subsection \<open>How an operation may fail\<close>

text \<open>\<open>fails_as P E m\<close>: \<open>m\<close> keeps \<open>P\<close>, and when it fails, it does as \<open>E\<close> allows.\<close>

definition fails_as :: "('j core \<Rightarrow> bool) \<Rightarrow> (failure \<Rightarrow> bool) \<Rightarrow> ('j, 'a) op \<Rightarrow> bool" where
  "fails_as P E m \<longleftrightarrow> (\<forall>c. P c \<longrightarrow> P (fst (m c)) \<and> (case snd (m c) of Inl f \<Rightarrow> E f | Inr _ \<Rightarrow> True))"

abbreviation calm :: "('j core \<Rightarrow> bool) \<Rightarrow> ('j, 'a) op \<Rightarrow> bool" where
  "calm P \<equiv> fails_as P (\<lambda>f. f \<noteq> Panicked)"

abbreviation sure :: "('j core \<Rightarrow> bool) \<Rightarrow> ('j, 'a) op \<Rightarrow> bool" where
  "sure P \<equiv> fails_as P (\<lambda>_. False)"

named_theorems fails_rules \<open>how operations fail\<close>

lemma fails_basic [fails_rules]: "fails_as P E (ret x)" "fails_as P E (gets g)"
  by (simp_all add: fails_as_def)

lemma calm_basic [fails_rules]: "calm P (refuse e)" "calm P (reading f)"
  by (simp_all add: fails_as_def reading_def look_def split: sum.split)

lemma fails_modify [fails_rules]: "(\<And>c. P c \<Longrightarrow> P (f c)) \<Longrightarrow> fails_as P E (modify f)"
  by (simp add: fails_as_def)

lemma fails_bind [fails_rules]: "fails_as P E m \<Longrightarrow> (\<And>x. fails_as P E (f x)) \<Longrightarrow> fails_as P E (bind_op m f)"
  unfolding fails_as_def
proof (intro allI impI)
  let ?ok = "\<lambda>r. case r of Inl f \<Rightarrow> E f | Inr _ \<Rightarrow> True"
  fix c assume a: "\<forall>c. P c \<longrightarrow> P (fst (m c)) \<and> (case snd (m c) of Inl f \<Rightarrow> E f | Inr _ \<Rightarrow> True)"
    "\<And>x. \<forall>c. P c \<longrightarrow> P (fst (f x c)) \<and> (case snd (f x c) of Inl f \<Rightarrow> E f | Inr _ \<Rightarrow> True)" "P c"
  then have "P (fst (m c)) \<and> (case snd (m c) of Inl f \<Rightarrow> E f | Inr _ \<Rightarrow> True)" by blast
  then show "P (fst (bind_op m f c)) \<and> (case snd (bind_op m f c) of Inl f \<Rightarrow> E f | Inr _ \<Rightarrow> True)"
    using a(2) by (cases rule: bind_op_cases [of m c f]) auto
qed

lemma fails_then [fails_rules]: "fails_as P E m \<Longrightarrow> fails_as P E n \<Longrightarrow> fails_as P E (then_op m n)"
  by (simp add: then_op_def fails_bind)

lemma fails_each [fails_rules]: "(\<And>x. fails_as P E (f x)) \<Longrightarrow> fails_as P E (each_op f xs)"
  by (induction xs) (simp_all add: fails_rules)

lemma fails_if [fails_rules]: "(b \<Longrightarrow> fails_as P E m) \<Longrightarrow> (\<not> b \<Longrightarrow> fails_as P E n) \<Longrightarrow> fails_as P E (if b then m else n)"
  by simp

lemma fails_case_option [fails_rules]:
  "(o' = None \<Longrightarrow> fails_as P E m) \<Longrightarrow> (\<And>x. o' = Some x \<Longrightarrow> fails_as P E (f x)) \<Longrightarrow>
   fails_as P E (case o' of None \<Rightarrow> m | Some x \<Rightarrow> f x)"
  by (cases o') auto

lemma fails_case_sum [fails_rules]:
  "(\<And>x. s = Inl x \<Longrightarrow> fails_as P E (f x)) \<Longrightarrow> (\<And>x. s = Inr x \<Longrightarrow> fails_as P E (g x)) \<Longrightarrow>
   fails_as P E (case s of Inl x \<Rightarrow> f x | Inr x \<Rightarrow> g x)"
  by (cases s) auto

lemma fails_case_prod [fails_rules]: "(\<And>a b. p = (a, b) \<Longrightarrow> fails_as P E (f a b)) \<Longrightarrow> fails_as P E (case p of (a, b) \<Rightarrow> f a b)"
  by (cases p) auto

lemma fails_look [fails_rules]: "(\<And>c. P c \<Longrightarrow> fails_as P E (g c)) \<Longrightarrow> fails_as P E (look g)"
  by (simp add: fails_as_def look_def)

lemma fails_let [fails_rules]: "fails_as P E (f v) \<Longrightarrow> fails_as P E (let x = v in f x)"
  by simp

lemma calm_wp: "calm P m \<Longrightarrow> P c \<Longrightarrow> wp m (\<lambda>_. P) c"
  by (auto simp: fails_as_def wp_def split: prod.splits sum.splits failure.splits)

lemma sure_Inr: "sure P m \<Longrightarrow> P c \<Longrightarrow> \<exists>c' x. m c = (c', Inr x) \<and> P c'"
  by (cases "m c"; cases "snd (m c)") (auto simp: fails_as_def)

lemma wp_both: "wp m (\<lambda>_ _. True) c \<Longrightarrow> (\<And>x c'. m c = (c', Inr x) \<Longrightarrow> Q x c') \<Longrightarrow> wp m Q c"
  by (auto simp: wp_def split: prod.splits sum.splits failure.splits)

lemma calm_commit:
  assumes "\<And>c c'. P c \<Longrightarrow> c_store c' = c_store c \<or> c_store c' = apply_effect (en_codec en) e (c_store c) \<Longrightarrow>
      c_limits c' = c_limits c \<Longrightarrow> P c'"
  shows "calm P (commit en e)"
  unfolding fails_as_def
proof (intro allI impI)
  fix c assume "P c"
  then show "P (fst (commit en e c)) \<and> (case snd (commit en e c) of Inl f \<Rightarrow> f \<noteq> Panicked | Inr _ \<Rightarrow> True)"
    using assms by (cases rule: commit_cases [of en e c]) auto
qed

definition anything :: "'j core \<Rightarrow> bool" where
  "anything c \<longleftrightarrow> True"

text \<open>A broker without a journal that has not halted takes every change.\<close>

definition in_memory :: "'j core \<Rightarrow> bool" where
  "in_memory c \<longleftrightarrow> c_journal c = None \<and> \<not> c_halted c"

lemma in_memory_frame [simp]:
  "in_memory (emit k ns d now c) = in_memory c" "in_memory (wake t c) = in_memory c"
  "in_memory (emit_all k d now c) = in_memory c" "in_memory (hand_over_core m c) = in_memory c"
  "in_memory (c\<lparr>c_drawn := n\<rparr>) = in_memory c" "in_memory (emit_room k r d now c) = in_memory c"
  by (simp_all add: in_memory_def emit_def emit_all_def wake_def hand_over_core_def emit_room_def)

lemma sure_commit [fails_rules]: "sure in_memory (commit en e)"
  by (simp add: fails_as_def in_memory_def commit_memory apply_commit_def)

lemma calm_commit_any [fails_rules]: "calm anything (commit en e)"
  by (rule calm_commit) (simp add: anything_def)

lemma calm_any_modify [fails_rules]: "calm anything (modify f)"
  by (simp add: fails_as_def anything_def)

lemma fails_messages:
  assumes "\<And>en e. fails_as P E (commit en e)"
    and "\<And>k ns d now c. P c \<Longrightarrow> P (emit k ns d now c)" "\<And>t c. P c \<Longrightarrow> P (wake t c)"
  shows "fails_as P E (trim_history en a)" "fails_as P E (reclaim en now)" "fails_as P E (expire en now)"
proof -
  show t: "fails_as P E (trim_history en a)" for a
    unfolding trim_history_def by (intro fails_rules assms)
  show "fails_as P E (reclaim en now)"
    unfolding reclaim_def reclaim_one_def Let_def by (intro fails_rules assms t)
  show "fails_as P E (expire en now)"
    unfolding expire_def expire_one_def by (intro fails_rules assms t)
qed


subsection \<open>A running broker\<close>

definition sample_env :: "unit env" where
  "sample_env = \<lparr>en_codec = sample_codec, en_append = (\<lambda>_ j. (j, None)), en_defer = (\<lambda>_ j. (j, None)),
     en_defers = (\<lambda>_. False), en_batching = False, en_in_use = 0, en_mib = (\<lambda>_. []), en_random = (\<lambda>_. ''t'')\<rparr>"

definition sample_core :: "unit core" where
  "sample_core = core_new sample_store limits_default None 5"

lemma sample_core_reaches: "broker_reaches sample_codec limits_default None 5 sample_core"
  unfolding sample_core_def
  by (rule reaches_step [OF reaches_start], rule step_restart, rule sample_store_reaches)

lemma sample_core_last: "last_id (c_store sample_core) \<noteq> id_max"
  by (simp add: sample_core_def core_new_def sample_last id_max_def)


end
