(* ===== verification/Message_Lease.thy ===== *)
theory Message_Lease
  imports Broker_Total Message_Props
begin

text \<open>
  What a lease promises: it hands out only messages that are available to the consumer, each once,
  and records each under a lease of its own.
\<close>

subsection \<open>Leases\<close>

definition holds_all :: "id set \<Rightarrow> 'j core \<Rightarrow> bool" where
  "holds_all I c \<longleftrightarrow> (\<forall>i \<in> I. bm_get (cmsgs c) i \<noteq> None)"

lemma calm_lease_one:
  assumes "i \<in> I" "holds_all I c"
  shows "wp (lease_one en consumer now until i) (\<lambda>_. holds_all I) c"
  using assms unfolding lease_one_def Let_def
  by (auto simp: holds_all_def intro!: wp_commit)

lemma calm_collect_lease: "holds_all I c \<Longrightarrow> set ids \<subseteq> I \<Longrightarrow> wp (collect_op (lease_one en consumer now until) ids) (\<lambda>_ _. True) c"
proof (induction ids arbitrary: c)
  case (Cons i ids)
  have "wp (lease_one en consumer now until i) (\<lambda>_. holds_all I) c"
    using Cons.prems by (intro calm_lease_one) auto
  then show ?case
    unfolding collect_op.simps wp_simps
    by (rule wp_mono) (use Cons in auto)
qed simp

lemma lease_choice_held: "i \<in> set (lease_choice inbox limit only now st) \<Longrightarrow> bm_get (msgs st) i \<noteq> None"
  by (auto simp: lease_choice_def live_message_def dest!: in_set_takeD split: option.splits)

lemma lease_calm: "wp (lease_where en inbox consumer limit only now) (\<lambda>_ _. True) c"
proof -
  have c: "wp (collect_op (lease_one en consumer now u) (lease_choice inbox limit only now (c_store d)))
      (\<lambda>_ _. True) d" for u and d :: "'a core"
    by (rule calm_collect_lease [of "set (lease_choice inbox limit only now (c_store d))"])
      (auto simp: holds_all_def dest: lease_choice_held)
  have m: "calm anything (reclaim en now)" "calm anything (expire en now)"
    by (rule fails_messages, auto simp: anything_def intro: calm_commit_any)+
  have r: "wp (reclaim en now) (\<lambda>_ _. True) d" "wp (expire en now) (\<lambda>_ _. True) d" for d :: "'a core"
    by (rule wp_mono [OF calm_wp [OF m(1)]], simp_all add: anything_def,
        rule wp_mono [OF calm_wp [OF m(2)]], simp_all add: anything_def)
  show ?thesis
    unfolding lease_where_def wp_simps Let_def
    by (intro wp_mono [OF r(1)] wp_mono [OF r(2)]) (auto intro!: wp_mono [OF c])
qed

text \<open>In memory a lease never fails.\<close>

lemma lease_one_sure:
  assumes "in_memory c" "holds_all I c" "i \<in> I"
  shows "\<exists>c' l. lease_one en consumer now until i c = (c', Inr l) \<and> in_memory c' \<and> holds_all I c'"
proof -
  let ?c = "c\<lparr>c_drawn := c_drawn c + 1\<rparr>"
  obtain c1 u where s: "commit en (E_Lease i consumer (draw_token en c) now until) ?c = (c1, Inr u)" "in_memory c1"
    using sure_Inr [OF sure_commit, of ?c] assms(1) by auto
  have h: "holds_all I c1" using assms(2) commit_Inr(1) [OF s(1)] by (simp add: holds_all_def)
  then obtain m where "bm_get (cmsgs c1) i = Some m" using assms(3) by (auto simp: holds_all_def)
  with s h show ?thesis
    by (simp add: lease_one_def look_def Let_def then_op_def bind_op_def indexed_def)
qed

lemma collect_lease_sure:
  "in_memory c \<Longrightarrow> holds_all I c \<Longrightarrow> set ids \<subseteq> I \<Longrightarrow>
   \<exists>c' ls. collect_op (lease_one en consumer now until) ids c = (c', Inr ls)"
proof (induction ids arbitrary: c)
  case (Cons i ids)
  obtain c1 l where s: "lease_one en consumer now until i c = (c1, Inr l)" "in_memory c1" "holds_all I c1"
    using lease_one_sure [OF Cons.prems(1,2)] Cons.prems(3) by fastforce
  then obtain c2 ls where "collect_op (lease_one en consumer now until) ids c1 = (c2, Inr ls)"
    using Cons by fastforce
  with s show ?case by (simp add: bind_op_def)
qed simp

lemma lease_sure:
  assumes "in_memory c"
  shows "\<exists>c' ls. lease_where en inbox consumer limit only now c = (c', Inr ls)"
proof -
  have m: "sure in_memory (reclaim en now)" "sure in_memory (expire en now)"
    by (rule fails_messages, auto intro: sure_commit)+
  obtain c1 a where a: "reclaim en now c = (c1, Inr a)" "in_memory c1" using sure_Inr [OF m(1) assms] by blast
  obtain c2 b where b: "expire en now c1 = (c2, Inr b)" "in_memory c2" using sure_Inr [OF m(2) a(2)] by blast
  let ?ids = "lease_choice inbox limit only now (c_store c2)"
  have "holds_all (set ?ids) c2" by (auto simp: holds_all_def dest: lease_choice_held)
  from collect_lease_sure [OF b(2) this] obtain c3 ls
    where "collect_op (lease_one en consumer now (now + lease_ms (c_limits c2))) ?ids c2 = (c3, Inr ls)" by blast
  with a b show ?thesis
    by (simp add: lease_where_def look_def Let_def then_op_def bind_op_def)
qed

lemma available_iff:
  assumes "core_live c"
  shows "\<not> held_from now i c \<longleftrightarrow>
    (\<exists>m. bm_get (cmsgs c) i = Some m \<and> (m_state m = Queued \<or> (\<exists>at. lease_end m = Some at \<and> at \<le> now)))"
  using assms by (auto simp: held_from_def lease_end_def not_le split: option.split)

text \<open>
  C7: A lease hands out at most the number asked for, of the inbox's messages that were
  queued or whose lease had run out, each once and none expired. Each is leased to the
  consumer until the lease time is over, under the token its receipt ends in. A message
  another consumer holds under a lease not over yet is never handed out, and a lease does
  not panic.
\<close>

theorem lease_hands_out_available:
  assumes "broker_reaches cd lim journal now0 c" "last_id (c_store c) \<noteq> id_max"
  shows "wp (lease_where en inbox consumer limit only now) (\<lambda>taken c'.
      length taken \<le> limit \<and> distinct (map (m_id \<circ> ld_message) taken) \<and>
      list_all (\<lambda>l. handed_out inbox consumer now (now + lease_ms (c_limits c)) l \<and>
        bm_get (cmsgs c') (m_id (ld_message l)) = Some (ld_message l) \<and>
        (\<exists>m. bm_get (cmsgs c) (m_id (ld_message l)) = Some m \<and>
          (m_state m = Queued \<or> (\<exists>at. lease_end m = Some at \<and> at \<le> now)))) taken) c \<and>
    (in_memory c \<longrightarrow> (\<exists>c' taken. lease_where en inbox consumer limit only now c = (c', Inr taken)))"
proof (intro conjI impI lease_sure wp_both [OF lease_calm])
  fix taken c' assume l: "lease_where en inbox consumer limit only now c = (c', Inr taken)"
  have live: "core_live c" by (rule broker_live [OF assms])
  have "\<exists>m. bm_get (cmsgs c) (m_id (ld_message t)) = Some m \<and>
      (m_state m = Queued \<or> (\<exists>at. lease_end m = Some at \<and> at \<le> now))" if "t \<in> set taken" for t
    using lease_leaves_held [OF l] available_iff [OF live] that by (metis comp_apply image_eqI)
  with lease_gives [OF l live] show "length taken \<le> limit" "distinct (map (m_id \<circ> ld_message) taken)"
    "list_all (\<lambda>l. handed_out inbox consumer now (now + lease_ms (c_limits c)) l \<and>
      bm_get (cmsgs c') (m_id (ld_message l)) = Some (ld_message l) \<and>
      (\<exists>m. bm_get (cmsgs c) (m_id (ld_message l)) = Some m \<and>
        (m_state m = Queued \<or> (\<exists>at. lease_end m = Some at \<and> at \<le> now)))) taken"
    by (simp_all add: list_all_iff)
qed

lemma sample_in_memory: "in_memory sample_core"
  by (simp add: in_memory_def sample_core_def core_new_def)

theorem lease_hands_out_available_witness:
  "\<exists>c' taken. lease_where sample_env ''d'' ''w'' 3 None 36 sample_core = (c', Inr taken) \<and> length taken \<le> 3 \<and>
     list_all (handed_out ''d'' ''w'' 36 30036) taken"
proof -
  note t = lease_hands_out_available [OF sample_core_reaches sample_core_last, of sample_env "''d''" "''w''" 3 None 36]
  obtain c' taken where r: "lease_where sample_env ''d'' ''w'' 3 None 36 sample_core = (c', Inr taken)"
    using t sample_in_memory by blast
  have "36 + lease_ms (c_limits sample_core) = 30036"
    by (simp add: sample_core_def core_new_def limits_default_def)
  then have "length taken \<le> 3 \<and> list_all (handed_out ''d'' ''w'' 36 30036) taken"
    using wpD [OF conjunct1 [OF t] r] by (auto simp: list_all_iff)
  with r show ?thesis by blast
qed

end
