(* ===== verification/Message_Send.thy ===== *)
theory Message_Send
  imports Message_Lease
begin

text \<open>
  What sending promises: the message is held, waits in the inbox it was sent to, and is found by its
  idempotency key, and a repeated send finds it again.
\<close>

subsection \<open>Making room for agents\<close>

text \<open>What \<open>ensure_agents\<close> may do to messages: forget those of agents it evicts, nothing else.\<close>

definition only_fewer :: "'j core \<Rightarrow> 'j core \<Rightarrow> bool" where
  "only_fewer c0 c \<longleftrightarrow> core_ok c \<and> last_id (c_store c) = last_id (c_store c0) \<and> c_limits c = c_limits c0 \<and>
     (\<forall>i m. bm_get (cmsgs c) i = Some m \<longrightarrow> bm_get (cmsgs c0) i = Some m)"

lemma only_fewer_frame [simp]:
  "only_fewer c0 (emit k ns d now c) = only_fewer c0 c" "only_fewer c0 (wake t c) = only_fewer c0 c"
  "only_fewer c0 (hand_over_core n c) = only_fewer c0 c"
  by (simp_all add: only_fewer_def)

lemma forget_last [simp]: "last_id (forget_agent cd n st) = last_id st"
  using removes_frame by (auto simp: forget_agent_def Let_def split: option.split)

lemma fewer_commit:
  assumes "e = E_Agent n at \<or> e = E_Forget n"
  shows "keeps (only_fewer c0) (commit en e)"
proof (rule keepsI)
  fix c :: "'a core" assume f: "only_fewer c0 c"
  have ok: "core_ok (fst (commit en e c))"
    by (rule keepsD [OF keeps_commit_plain]) (use assms f in \<open>auto simp: only_fewer_def\<close>)
  have l: "c_limits (fst (commit en e c)) = c_limits c"
    by (rule keepsD [OF keeps_limits_commit]) simp
  from commit_store [of en e c] show "only_fewer c0 (fst (commit en e c))"
    using f assms ok l forget_msgs [of "en_codec en" n "c_store c"]
    by (auto simp: only_fewer_def)
qed

lemmas fewer_commits = fewer_commit [OF disjI1 [OF refl]] fewer_commit [OF disjI2 [OF refl]]

lemma ensure_fewer: "keeps (only_fewer c0) (ensure_agents en names now)"
  unfolding ensure_agents_def forget_one_def add_agent_def
  by (intro keeps_rules fewer_commits) simp_all

lemma ensure_gives:
  assumes "ensure_agents en names now c = (c', Inr u)" "core_ok c"
  shows "only_fewer c c'"
  by (rule keeps_Inr [OF ensure_fewer assms(1)]) (simp add: only_fewer_def assms(2))

subsection \<open>How many wait\<close>

lemma pending_card:
  assumes "store_ok st"
  shows "counts_pending (agent_counts a st) = card {i. \<exists>m. bm_get (msgs st) i = Some m \<and> m_to m = a \<and> is_pending (m_state m)}"
proof -
  note sc = scan_card [OF ok_keyed [OF assms]]
  let ?Q = "{i. \<exists>m. bm_get (msgs st) i = Some m \<and> m_to m = a \<and> m_state m = Queued}"
  let ?L = "{i. \<exists>m. bm_get (msgs st) i = Some m \<and> m_to m = a \<and> m_state m = Leased}"
  have fin: "finite {i. \<exists>m. bm_get (msgs st) i = Some m \<and> P m}" for P
    by (rule finite_subset [of _ "set (bm_keys (msgs st))"]) auto
  have "{i. \<exists>m. bm_get (msgs st) i = Some m \<and> m_to m = a \<and> is_pending (m_state m)} = ?Q \<union> ?L"
    by (auto elim!: is_pending.elims)
  moreover have "?Q \<inter> ?L = {}" by auto
  ultimately show ?thesis
    using card_Un_disjoint [OF fin fin] sc by (simp add: counts_scan [OF assms] counts_pending_def conj_assoc)
qed

lemma pending_grows:
  assumes "store_ok st" "store_ok st'"
    and "\<And>i m. bm_get (msgs st') i = Some m \<Longrightarrow> i = j \<or> bm_get (msgs st) i = Some m"
  shows "counts_pending (agent_counts a st') \<le> counts_pending (agent_counts a st) + 1"
proof -
  let ?S = "\<lambda>st. {i. \<exists>m. bm_get (msgs st) i = Some m \<and> m_to m = a \<and> is_pending (m_state m)}"
  have fin: "finite (?S st)" by (rule finite_subset [of _ "set (bm_keys (msgs st))"]) auto
  have "?S st' \<subseteq> insert j (?S st)" using assms(3) by blast
  then have "card (?S st') \<le> card (insert j (?S st))" using fin by (intro card_mono) simp_all
  also have "\<dots> \<le> card (?S st) + 1" using fin by (simp add: card_insert_if)
  finally show ?thesis by (simp add: pending_card assms)
qed

subsection \<open>Keys\<close>

lemma remove_keeps_key:
  assumes "\<And>m. bm_get (msgs st) i = Some m \<Longrightarrow> m_key m = Some k \<Longrightarrow> m_to m = to \<Longrightarrow> m_from m \<noteq> frm"
  shows "bm_get (msg_keys (remove_message cd i st)) (to, frm, k) = bm_get (msg_keys st) (to, frm, k)"
proof -
  obtain ms x where ms: "captured_remove (ser_message cd) i (messages st) = (ms, x)" by fastforce
  then have "x = bm_get (msgs st) i"
    using cmap_ops(3,4) [of "ser_message cd" i "messages st"] by auto
  with ms assms show ?thesis
    by (auto simp: remove_message_def Let_def split: option.split)
qed

lemma drop_keeps_key:
  assumes "\<And>i m. i \<in> set ids \<Longrightarrow> bm_get (msgs st) i = Some m \<Longrightarrow> m_key m = Some k \<Longrightarrow> m_to m = to \<Longrightarrow> m_from m \<noteq> frm"
  shows "bm_get (msg_keys (fold (remove_message cd) ids st)) (to, frm, k) = bm_get (msg_keys st) (to, frm, k)"
  using assms
proof (induction ids arbitrary: st)
  case (Cons i ids)
  have "bm_get (msg_keys (fold (remove_message cd) ids (remove_message cd i st))) (to, frm, k) =
      bm_get (msg_keys (remove_message cd i st)) (to, frm, k)"
    by (rule Cons.IH) (use Cons.prems in \<open>auto split: if_splits\<close>)
  also have "\<dots> = bm_get (msg_keys st) (to, frm, k)"
    by (rule remove_keeps_key) (use Cons.prems in auto)
  finally show ?case by simp
qed simp

lemma calm_ensure: "calm anything (ensure_agents en names now)"
  unfolding ensure_agents_def forget_one_def add_agent_def by (intro fails_rules)

lemma wp_any: "calm anything m \<Longrightarrow> wp m (\<lambda>_ _. True) c"
  using calm_wp [of anything m c] wp_mono [of m "\<lambda>_. anything" c "\<lambda>_ _. True"] by (simp add: anything_def)

lemma calm_send: "calm anything (send en req now)"
proof -
  have t: "calm anything (trim_history en a)" for a
    by (rule fails_messages) (auto simp: anything_def intro: calm_commit_any)
  show ?thesis
    unfolding send_def room_to_grow_def require_known_def put_message_def Let_def
    by (intro fails_rules calm_ensure t)
qed

definition no_other_key :: "message \<Rightarrow> 'j core \<Rightarrow> bool" where
  "no_other_key m c \<longleftrightarrow>
     \<not> (\<exists>i x. bm_get (cmsgs c) i = Some x \<and> m_to x = m_to m \<and> m_from x = m_from m \<and> m_key x = m_key m)"

text \<open>What a put message leaves.\<close>

lemma apply_message_key:
  "m_key m = Some k \<Longrightarrow> bm_get (msg_keys (apply_message cd m st)) (m_to m, m_from m, k) = Some (m_id m)"
  by (simp add: apply_message_def Let_def)

lemma new_message_fields [simp]:
  "m_id (new_message req to parent i now ttl) = i" "m_to (new_message req to parent i now ttl) = to"
  "m_from (new_message req to parent i now ttl) = sr_from req" "m_key (new_message req to parent i now ttl) = sr_key req"
  "m_state (new_message req to parent i now ttl) = Queued"
  by (simp_all add: new_message_def)

lemma next_id_stuck: "last_id st = id_max \<Longrightarrow> next_id st now = id_max"
  by (simp add: next_id_def id_next_after_def id_after_def id_max_def checked_succ_def split: option.split)

lemma trim_keeps_key:
  assumes "trim_history en a c = (c', Inr u)" "core_live c"
    and "\<And>i m. bm_get (cmsgs c) i = Some m \<Longrightarrow> \<not> is_pending (m_state m) \<Longrightarrow> m_key m = Some k \<Longrightarrow> m_to m = to \<Longrightarrow> m_from m \<noteq> frm"
  shows "bm_get (msg_keys (c_store c')) (to, frm, k) = bm_get (msg_keys (c_store c)) (to, frm, k)"
proof (cases "ct_settled (agent_counts a (c_store c)) - history_limit (c_limits c) > 0")
  case True
  let ?ids = "take (ct_settled (agent_counts a (c_store c)) - history_limit (c_limits c)) (settled_ids a (c_store c))"
  have c: "commit en (E_Drop ?ids) c = (c', Inr u)"
    using assms(1) True by (simp add: trim_history_def look_def Let_def)
  have ok: "store_ok (c_store c)" using assms(2) by (simp add: core_live_def)
  show ?thesis
    unfolding commit_Inr(1) [OF c] apply_effect.simps
    by (rule drop_keeps_key) (use take_settled(1) [OF ok] assms(3) in blast)
next
  case False
  with assms(1) show ?thesis by (simp add: trim_history_def look_def Let_def)
qed

lemma put_message_gives:
  assumes p: "put_message en req to parent now c = (c', Inr (m, fresh))"
    and ok: "core_ok c" and id: "next_id (c_store c) now \<noteq> id_max"
  shows "fresh \<and> m = new_message req to parent (next_id (c_store c) now) now (msg_ttl_ms (c_limits c)) \<and>
    store_ok (c_store c') \<and> bm_get (cmsgs c) (m_id m) = None \<and> bm_get (cmsgs c') (m_id m) = Some m \<and>
    (\<forall>i x. bm_get (cmsgs c') i = Some x \<longrightarrow> i = m_id m \<or> bm_get (cmsgs c) i = Some x) \<and>
    length (settled_ids to (c_store c')) \<le> history_limit (c_limits c) \<and>
    (no_other_key m c \<longrightarrow> (\<forall>k. m_key m = Some k \<longrightarrow> message_by_key to (m_from m) k (c_store c') = Some m))"
proof -
  let ?i = "next_id (c_store c) now"
  let ?m = "new_message req to parent ?i now (msg_ttl_ms (c_limits c))"
  have last: "last_id (c_store c) \<noteq> id_max" using id next_id_stuck by blast
  obtain c1 c2 u v where s: "commit en (E_Message ?m) c = (c1, Inr u)" "trim_history en to c1 = (c2, Inr v)"
    and m: "m = ?m" "fresh" and c': "c_store c' = c_store c2"
    using p by (auto simp: put_message_def look_def Let_def then_op_Inr)
  have mf: "m_id ?m = ?i" "m_to ?m = to" "m_state ?m = Queued" by (simp_all add: new_message_def)
  have c1: "c_store c1 = apply_message (en_codec en) ?m (c_store c)" "c_limits c1 = c_limits c"
    using commit_Inr [OF s(1)] by simp_all
  have none: "bm_get (cmsgs c) ?i = None" by (rule fresh_message [OF ok last])
  have "core_ok (fst (commit en (E_Message ?m) c))" by (rule keeps_commit_new [OF ok]) (simp add: mf none)
  moreover have "last_id (c_store c1) = ?i" using next_id_gt [OF last, of now] by (simp add: c1 mf max_absorb2)
  ultimately have live: "core_live c1" using s(1) id by (simp add: core_live_ok)
  note t = trim_history_gives [OF s(2) live]
  have m1: "cmsgs c1 = bm_insert ?i ?m (cmsgs c)" by (simp add: c1 mf)
  have "is_pending (m_state ?m)" by (simp add: mf)
  moreover have "bm_get (cmsgs c1) ?i = Some ?m" by (simp add: m1)
  ultimately have held: "bm_get (cmsgs c2) ?i = Some ?m" using t by blast
  have "bm_get (cmsgs c1) i = Some x" if "bm_get (cmsgs c2) i = Some x" for i x
    using t that by (metis option.distinct(1))
  then have sub: "i = ?i \<or> bm_get (cmsgs c) i = Some x" if "bm_get (cmsgs c2) i = Some x" for i x
    using that by (fastforce simp: m1 split: if_splits)
  have key: "message_by_key to (m_from ?m) k (c_store c2) = Some ?m" if "no_other_key ?m c" "m_key ?m = Some k" for k
  proof -
    have "bm_get (msg_keys (c_store c2)) (to, m_from ?m, k) = bm_get (msg_keys (c_store c1)) (to, m_from ?m, k)"
    proof (rule trim_keeps_key [OF s(2) live])
      fix i x assume x: "bm_get (cmsgs c1) i = Some x" "\<not> is_pending (m_state x)" "m_key x = Some k" "m_to x = to"
      have "i \<noteq> ?i" using x(1,2) mf(3) by (auto simp: m1)
      with x that show "m_from x \<noteq> m_from ?m" by (auto simp: m1 no_other_key_def mf(2))
    qed
    also have "\<dots> = Some ?i" using apply_message_key [OF that(2), of "en_codec en" "c_store c"] by (simp add: c1 mf)
    finally show ?thesis using held by (simp add: message_by_key_def)
  qed
  have "store_ok (c_store c2)" using t by (simp add: core_live_def)
  moreover have "length (settled_ids to (c_store c2)) \<le> history_limit (c_limits c)"
    using trim_history_bound [OF s(2) live] t c1(2) by simp
  ultimately show ?thesis using none held sub key by (simp add: m mf c')
qed

lemma room_to_grow_Inr: "room_to_grow en c = (c', Inr u) \<longleftrightarrow> c' = c \<and> over_memory en c = None"
  by (auto simp: room_to_grow_def look_def split: option.splits)

lemma require_known_Inr: "require_known n c = (c', Inr u) \<Longrightarrow> c' = c"
  by (auto simp: require_known_def look_def Let_def split: if_splits)

lemma by_key_holds:
  assumes "store_ok st" "message_by_key to frm k st = Some m"
  shows "bm_get (msgs st) (m_id m) = Some m" "m_to m = to" "m_from m = frm" "m_key m = Some k"
proof -
  obtain i where i: "bm_get (msg_keys st) (to, frm, k) = Some i" "bm_get (msgs st) i = Some m"
    using assms(2) by (auto simp: message_by_key_def split: Option.bind_splits)
  have "msg_keys_ok (msgs st) st" using assms(1) by (simp add: store_ok_def messages_ok_def)
  from msg_keys_okD [OF this i(1)] i(2) ok_keyed [OF assms(1)]
  show "bm_get (msgs st) (m_id m) = Some m" "m_to m = to" "m_from m = frm" "m_key m = Some k"
    by (auto simp: keyed_def)
qed

lemma send_steps:
  assumes "send en req now c = (c', Inr (m, fresh))"
  obtains (found) k to where "sr_key req = Some k" "send_to req (send_parent req (c_store c)) = Inr to"
      "message_by_key to (sr_from req) k (c_store c) = Some m" "c' = c" "\<not> fresh"
  | (put) to c1 u where "send_to req (send_parent req (c_store c)) = Inr to" "inbox_full req to c = None"
      "ensure_agents en [sr_from req, to] now c = (c1, Inr u)"
      "put_message en req to (send_parent req (c_store c)) now c1 = (c', Inr (m, fresh))"
proof -
  from assms obtain to where to: "send_to req (send_parent req (c_store c)) = Inr to"
    and rest: "(case Option.bind (sr_key req) (\<lambda>key. message_by_key to (sr_from req) key (c_store c)) of
        Some existing \<Rightarrow> ret (existing, False)
      | None \<Rightarrow> then_op (if sr_strict req then require_known to else ret ())
          (case inbox_full req to c of Some e \<Rightarrow> refuse e
           | None \<Rightarrow> then_op (ensure_agents en [sr_from req, to] now)
               (put_message en req to (send_parent req (c_store c)) now))) c = (c', Inr (m, fresh))"
    by (auto simp: send_def then_op_Inr room_to_grow_Inr look_def Let_def split: sum.splits)
  show thesis
  proof (cases "Option.bind (sr_key req) (\<lambda>key. message_by_key to (sr_from req) key (c_store c))")
    case (Some x)
    then obtain k where "sr_key req = Some k" "message_by_key to (sr_from req) k (c_store c) = Some x"
      by (auto split: Option.bind_splits)
    then show thesis using rest to Some by (intro found [of k to]) auto
  next
    case None
    then obtain c1 u where "inbox_full req to c = None" "ensure_agents en [sr_from req, to] now c = (c1, Inr u)"
      "put_message en req to (send_parent req (c_store c)) now c1 = (c', Inr (m, fresh))"
      using rest by (auto simp: then_op_Inr dest: require_known_Inr split: if_splits option.splits)
    then show thesis using to by (intro put)
  qed
qed

lemma send_fields:
  assumes "send en req now c = (c', Inr (m, True))"
  shows "m_from m = sr_from req" "m_key m = sr_key req" "sr_to req = Some to \<Longrightarrow> m_to m = to"
  using assms by (cases rule: send_steps; auto simp: put_message_def look_def Let_def then_op_Inr send_to_def)+

lemma inbox_full_bound: "inbox_full req to c = None \<Longrightarrow> counts_pending (agent_counts to (c_store c)) < max_inbox (c_limits c)"
  by (auto simp: inbox_full_def Let_def split: if_splits)

text \<open>
  C8: A send that succeeds either finds the message its idempotency key already names and
  changes nothing, or puts one new message: under an id no message had, queued for its
  recipient, with what the request said. No message is altered by it; the inbox holds at
  most its limit of pending messages afterwards and the history at most its limit of settled
  ones. It never panics.
\<close>

theorem send_delivers:
  assumes "broker_reaches cd lim journal now0 c" "next_id (c_store c) now \<noteq> id_max"
  shows "wp (send en req now) (\<lambda>(m, fresh) c'.
    m_from m = sr_from req \<and> send_to req (send_parent req (c_store c)) = Inr (m_to m) \<and>
    (if fresh then
       m = new_message req (m_to m) (send_parent req (c_store c)) (next_id (c_store c) now) now (msg_ttl_ms (c_limits c)) \<and>
       bm_get (cmsgs c) (m_id m) = None \<and> bm_get (cmsgs c') (m_id m) = Some m \<and>
       (\<forall>i x. bm_get (cmsgs c') i = Some x \<longrightarrow> i = m_id m \<or> bm_get (cmsgs c) i = Some x) \<and>
       counts_pending (agent_counts (m_to m) (c_store c')) \<le> max_inbox (c_limits c) \<and>
       length (settled_ids (m_to m) (c_store c')) \<le> history_limit (c_limits c)
     else c' = c \<and> bm_get (cmsgs c) (m_id m) = Some m \<and> m_key m = sr_key req \<and> sr_key req \<noteq> None)) c"
proof (rule wp_both [OF wp_any [OF calm_send]], goal_cases)
  case (1 mf c')
  obtain m fresh where mf: "mf = (m, fresh)" by fastforce
  have last: "last_id (c_store c) \<noteq> id_max" using assms(2) next_id_stuck by blast
  have live: "core_live c" by (rule broker_live [OF assms(1) last])
  then have ok: "store_ok (c_store c)" by (simp add: core_live_def)
  show ?case
    using 1 [unfolded mf]
  proof (cases rule: send_steps)
    case (found k to)
    with by_key_holds [OF ok found(3)] show ?thesis by (simp add: mf)
  next
    case (put to c1 u)
    have f: "only_fewer c c1" by (rule ensure_gives [OF put(3)]) (use live in \<open>simp add: core_live_ok\<close>)
    then have c1: "core_ok c1" "next_id (c_store c1) now = next_id (c_store c) now" "c_limits c1 = c_limits c"
      "\<And>i x. bm_get (cmsgs c1) i = Some x \<Longrightarrow> bm_get (cmsgs c) i = Some x"
      by (simp_all add: only_fewer_def next_id_def)
    note q = put_message_gives [OF put(4) c1(1), unfolded c1(2,3), OF assms(2)]
    then have p:
      "fresh" "m = new_message req to (send_parent req (c_store c)) (next_id (c_store c) now) now (msg_ttl_ms (c_limits c))"
      "store_ok (c_store c')" "bm_get (cmsgs c') (m_id m) = Some m"
      "\<And>i x. bm_get (cmsgs c') i = Some x \<Longrightarrow> i = m_id m \<or> bm_get (cmsgs c1) i = Some x"
      "length (settled_ids to (c_store c')) \<le> history_limit (c_limits c)"
      by blast+
    have mf': "m_id m = next_id (c_store c) now" "m_to m = to" "m_from m = sr_from req"
      by (simp_all add: p(2) new_message_def)
    have "counts_pending (agent_counts to (c_store c')) \<le> counts_pending (agent_counts to (c_store c)) + 1"
      by (rule pending_grows [OF ok p(3), of "m_id m"]) (use p(5) c1(4) in blast)
    then have "counts_pending (agent_counts to (c_store c')) \<le> max_inbox (c_limits c)"
      using inbox_full_bound [OF put(2)] by simp
    moreover have "bm_get (cmsgs c) (m_id m) = None"
      using fresh_message [of c now] live by (simp add: mf' core_live_ok)
    ultimately show ?thesis
      using p put(1) c1(4) by (auto simp: mf mf')
  qed
qed


definition sample_send :: send_request where
  "sample_send = \<lparr>sr_from = ''d'', sr_to = Some ''d'', sr_body = ''note'', sr_reply_to = None, sr_key = Some ''k2'',
     sr_strict = False, sr_admin = False\<rparr>"

lemma sample_core_fields [simp]:
  "c_store sample_core = sample_store" "c_limits sample_core = limits_default" "c_journal sample_core = None"
  "c_halted sample_core = False"
  by (simp_all add: sample_core_def core_new_def)

lemma sample_next: "next_id sample_store 40 = Id 40 0"
  by (simp add: next_id_def id_next_after_def sample_last)

lemma sample_inbox_facts:
  "bm_contains (agents sample_store) ''d''" "counts_pending (agent_counts ''d'' sample_store) = 1"
  "pending_from ''d'' ''d'' sample_store = 0" "message_by_key ''d'' ''d'' ''k2'' sample_store = None"
  by code_simp+

lemma ensure_known: "list_all (bm_contains (agents (c_store c))) names \<Longrightarrow> ensure_agents en names now c = (c, Inr ())"
proof -
  have "list_all (bm_contains (agents st)) names \<Longrightarrow> missing_names st names found = found" for st names found
    by (induction names arbitrary: found) auto
  then show "list_all (bm_contains (agents (c_store c))) names \<Longrightarrow> ensure_agents en names now c = (c, Inr ())"
    by (simp add: ensure_agents_def look_def Let_def)
qed

lemma sample_send_sent:
  "\<exists>c' m. send sample_env sample_send 40 sample_core = (c', Inr (m, True))"
proof -
  let ?m = "new_message sample_send ''d'' None (Id 40 0) 40 86400000"
  have c: "commit sample_env (E_Message ?m) sample_core = (apply_commit sample_env (E_Message ?m) sample_core, Inr ())"
    by (rule commit_memory) simp_all
  have t: "sure in_memory (trim_history sample_env ''d'')"
    by (rule fails_messages(1)) (auto intro: sure_commit)
  have "in_memory (apply_commit sample_env (E_Message ?m) sample_core)"
    by (simp add: in_memory_def apply_commit_def)
  from sure_Inr [OF t this] obtain c2 u where
    "trim_history sample_env ''d'' (apply_commit sample_env (E_Message ?m) sample_core) = (c2, Inr u)" by blast
  with c show ?thesis
    using sample_inbox_facts
    by (simp add: send_def then_op_def bind_op_def room_to_grow_def look_def Let_def over_memory_def sample_env_def
        limits_default_def send_parent_def send_to_def sample_send_def inbox_full_def share_def ensure_known
        put_message_def sample_next)
qed

theorem send_delivers_witness:
  "\<exists>c' m. send sample_env sample_send 40 sample_core = (c', Inr (m, True)) \<and> m_id m = Id 40 0 \<and>
     bm_get (cmsgs c') (Id 40 0) = Some m \<and> m_state m = Queued"
proof -
  obtain c' m where s: "send sample_env sample_send 40 sample_core = (c', Inr (m, True))"
    using sample_send_sent by blast
  have n: "next_id (c_store sample_core) 40 = Id 40 0" by (simp add: sample_next)
  have id: "next_id (c_store sample_core) 40 \<noteq> id_max" unfolding n by (simp add: id_max_def)
  have w: "m = new_message sample_send (m_to m) (send_parent sample_send (c_store sample_core))
        (next_id (c_store sample_core) 40) 40 (msg_ttl_ms (c_limits sample_core))"
    "bm_get (cmsgs c') (m_id m) = Some m"
    using wpD [OF send_delivers [OF sample_core_reaches id] s] unfolding prod.case if_True by blast+
  have "m_id m = Id 40 0" by (subst w(1)) (simp only: new_message_fields n)
  moreover have "m_state m = Queued" by (subst w(1)) (simp only: new_message_fields)
  ultimately show ?thesis using s w(2) by auto
qed

lemma sample_no_other_key: "m_key m = Some ''k2'' \<Longrightarrow> m_to m = ''d'' \<Longrightarrow> m_from m = ''d'' \<Longrightarrow> no_other_key m sample_core"
proof -
  have "list_all (\<lambda>x. m_key x \<noteq> Some ''k2'') (bm_values (msgs sample_store))" by code_simp
  then have "m_key x \<noteq> Some ''k2''" if "bm_get (msgs sample_store) i = Some x" for i x
    using that by (auto simp: list_all_iff )
  then show "m_key m = Some ''k2'' \<Longrightarrow> m_to m = ''d'' \<Longrightarrow> m_from m = ''d'' \<Longrightarrow> no_other_key m sample_core"
    by (auto simp: no_other_key_def)
qed


subsection \<open>A key two messages have\<close>

definition keyed_message :: "id \<Rightarrow> str \<Rightarrow> message" where
  "keyed_message i frm = \<lparr>m_id = i, m_from = frm, m_to = ''b'', m_body = ''x'', m_created = 1, m_expires = 99, m_thread = i,
     m_reply_to = None, m_key = Some ''k'', m_state = Queued, m_deliveries = 0, m_lease = None, m_settled = None\<rparr>"

definition merged_store :: store where
  "merged_store = apply_effects sample_codec
     [E_Agent ''a'' 1, E_Agent ''b'' 1, E_Agent ''c'' 1, E_Message (keyed_message (Id 1 0) ''a''),
      E_Message (keyed_message (Id 2 0) ''c''), E_Forget ''a'', E_Rename ''c'' ''a''] store_default"

text \<open>
  Dropping a message takes its idempotency key out of the index whichever message the key
  names: after \<open>c\<close> was renamed to \<open>a\<close>, two messages from \<open>a\<close> to \<open>b\<close> have the key \<open>k\<close>, the index
  names the later one, and dropping the earlier makes it forget the later one, still held.
\<close>

theorem drop_forgets_the_other_key:
  "map_option m_id (message_by_key ''b'' ''a'' ''k'' merged_store) = Some (Id 2 0) \<and>
   message_by_key ''b'' ''a'' ''k'' (apply_effect sample_codec (E_Drop [Id 1 0]) merged_store) = None \<and>
   map_option m_key (bm_get (msgs (apply_effect sample_codec (E_Drop [Id 1 0]) merged_store)) (Id 2 0)) = Some (Some ''k'')"
  by code_simp

end
