(* ===== verification/Message_Ack.thy ===== *)
theory Message_Ack
  imports Message_Send "HOL-Library.Multiset"
begin

text \<open>
  What acknowledging promises: exactly the messages whose leases the receipts open are settled, and
  the receipts that open none are an error of their own.
\<close>

subsection \<open>Acknowledging\<close>

lemma bytes_of_inj: "bytes_of a = bytes_of b \<longleftrightarrow> a = b"
proof -
  have "inj (\<lambda>ch. of_nat (byte_of ch) :: u8)"
  proof (rule injI)
    fix x y :: char assume "(of_nat (byte_of x) :: u8) = of_nat (byte_of y)"
    then have "unat (of_nat (byte_of x) :: u8) = unat (of_nat (byte_of y) :: u8)" by simp
    moreover have "byte_of ch < 256" for ch by (simp add: byte_of_def)
    ultimately have "byte_of x = byte_of y" by (simp add: unat_of_nat)
    then show "x = y" by (simp add: byte_of_def)
  qed
  then show ?thesis by (simp add: bytes_of_def inj_map_eq_map)
qed

text \<open>What opens a lease: its message's id with its token, or the id alone from its consumer.\<close>

definition opens :: "str \<Rightarrow> str option \<Rightarrow> id \<Rightarrow> lease \<Rightarrow> bool" where
  "opens receipt consumer i l \<longleftrightarrow>
     (case split_once (CHR ''.'') receipt of
        Some (raw, token) \<Rightarrow> id_from_str raw = Inr i \<and> token = ls_token l
      | None \<Rightarrow> id_from_str receipt = Inr i \<and> consumer = Some (ls_consumer l))"

lemma judge_settle:
  assumes "keyed (msgs st)" "ack_judge inbox consumer st receipt = Ack_Settle i"
  shows "\<exists>m l. bm_get (msgs st) i = Some m \<and> m_to m = inbox \<and> is_pending (m_state m) \<and> m_lease m = Some l \<and>
    opens receipt consumer i l"
  using assms
  by (auto simp: ack_judge_def opens_def keyed_def constant_time_eq_iff bytes_of_inj split: option.splits sum.splits if_splits prod.splits)

text \<open>Where an acknowledged receipt leads: a message of the inbox, acknowledged before or now.\<close>

definition acked_by :: "str \<Rightarrow> str \<Rightarrow> (id, message) btree_map \<Rightarrow> bool" where
  "acked_by inbox receipt ms \<longleftrightarrow>
     (\<exists>i m. bm_get ms i = Some m \<and> m_to m = inbox \<and> m_state m = Acked \<and>
        id_from_str (case split_once (CHR ''.'') receipt of Some (raw, _) \<Rightarrow> raw | None \<Rightarrow> receipt) = Inr i)"

lemma judge_again: "ack_judge inbox consumer st receipt = Ack_Again \<Longrightarrow> acked_by inbox receipt (msgs st)"
  by (auto simp: ack_judge_def acked_by_def split: option.splits sum.splits if_splits prod.splits)

text \<open>The loop: messages it settled are acknowledged, every other message is as it was.\<close>

definition settles :: "'j core \<Rightarrow> 'j core \<Rightarrow> id list \<Rightarrow> bool" where
  "settles c0 c acked \<longleftrightarrow> core_live c \<and> c_limits c = c_limits c0 \<and>
     (\<forall>i m. bm_get (cmsgs c0) i = Some m \<longrightarrow>
        (if i \<in> set acked then \<exists>m'. bm_get (cmsgs c) i = Some m' \<and> m_state m' = Acked \<and> m_to m' = m_to m
         else bm_get (cmsgs c) i = Some m)) \<and>
     (\<forall>i. bm_get (cmsgs c0) i = None \<longrightarrow> bm_get (cmsgs c) i = None)"

lemma settles_same: "settles c0 c acked \<Longrightarrow> bm_get (cmsgs c0) i = Some m \<Longrightarrow> i \<notin> set acked \<Longrightarrow> bm_get (cmsgs c) i = Some m"
  unfolding settles_def by meson

lemma settles_acked: "settles c0 c acked \<Longrightarrow> bm_get (cmsgs c0) i = Some m \<Longrightarrow> i \<in> set acked \<Longrightarrow>
    \<exists>m'. bm_get (cmsgs c) i = Some m' \<and> m_state m' = Acked \<and> m_to m' = m_to m"
  unfolding settles_def by meson

lemma settles_none: "settles c0 c acked \<Longrightarrow> bm_get (cmsgs c) i = Some m \<Longrightarrow> \<exists>m0. bm_get (cmsgs c0) i = Some m0"
  unfolding settles_def by (metis not_Some_eq)

definition opened :: "str \<Rightarrow> str option \<Rightarrow> 'j core \<Rightarrow> str list \<Rightarrow> id \<Rightarrow> bool" where
  "opened inbox consumer c0 receipts i \<longleftrightarrow>
     (\<exists>m l r. bm_get (cmsgs c0) i = Some m \<and> m_to m = inbox \<and> is_pending (m_state m) \<and> m_lease m = Some l \<and>
        r \<in> set receipts \<and> opens r consumer i l)"

lemma opened_mono: "opened inbox consumer c0 rs i \<Longrightarrow> set rs \<subseteq> set rs' \<Longrightarrow> opened inbox consumer c0 rs' i"
  unfolding opened_def by blast

lemma ack_loop_gives:
  assumes "ack_loop en inbox consumer now receipts out acked c = (c', Inr (out', acked'))"
    and "settles c0 c acked" "list_all (opened inbox consumer c0 (ao_acknowledged out)) acked"
    and "list_all (\<lambda>r. acked_by inbox r (cmsgs c)) (ao_acknowledged out)"
  shows "settles c0 c' acked' \<and> list_all (opened inbox consumer c0 (ao_acknowledged out')) acked' \<and>
    list_all (\<lambda>r. acked_by inbox r (cmsgs c')) (ao_acknowledged out') \<and>
    mset (ao_acknowledged out') + mset (ao_rejected out') =
      mset (ao_acknowledged out) + mset (ao_rejected out) + mset receipts"
  using assms
proof (induction en inbox consumer now receipts out acked c rule: ack_loop.induct)
  case (2 en inbox consumer now r rs out acked c)
  have mono: "list_all (opened inbox consumer c0 (ao_acknowledged out @ [r])) acked"
    using 2(6) by (auto simp: list_all_iff intro: opened_mono [where rs = "ao_acknowledged out"])
  show ?case
  proof (cases "ack_judge inbox consumer (c_store c) r")
    case Ack_Reject
    from 2(1) [OF this _ 2(5) _ _] 2(4,6,7) Ack_Reject show ?thesis by simp
  next
    case Ack_Again
    from 2(2) [OF this _ 2(5) _ _] 2(4,6,7) Ack_Again mono judge_again [OF Ack_Again] show ?thesis by simp
  next
    case (Ack_Settle i)
    then obtain c1 u where s: "commit en (E_Settle i Acked now) c = (c1, Inr u)"
      "ack_loop en inbox consumer now rs (out\<lparr>ao_acknowledged := ao_acknowledged out @ [r]\<rparr>) (acked @ [i]) c1 =
        (c', Inr (out', acked'))"
      using 2(4) by (auto split: prod.splits sum.splits)
    have ok: "store_ok (c_store c)" using 2(5) by (simp add: settles_def core_live_def)
    obtain m l where m: "bm_get (cmsgs c) i = Some m" "m_to m = inbox" "is_pending (m_state m)" "m_lease m = Some l"
      "opens r consumer i l"
      using judge_settle [OF ok_keyed [OF ok] Ack_Settle] by blast
    have c1: "cmsgs c1 = bm_update i (settle_message Acked now) (cmsgs c)" "c_limits c1 = c_limits c"
      using commit_Inr [OF s(1)] by simp_all
    obtain m0 where m0: "bm_get (cmsgs c0) i = Some m0" using settles_none [OF 2(5) m(1)] by blast
    have i: "i \<notin> set acked" using settles_acked [OF 2(5) m0] m(1,3) by auto
    have new: "i \<notin> set acked" "bm_get (cmsgs c0) i = Some m" using settles_same [OF 2(5) m0 i] m(1) m0 i by auto
    have "core_live c1" by (rule settle_live [OF s(1)]) (use 2(5) in \<open>simp add: settles_def\<close>)
    with 2(5) m(1,2) new(2) have st: "settles c0 c1 (acked @ [i])"
      unfolding settles_def by (auto simp: c1 settle_message_def)
    have op: "list_all (opened inbox consumer c0 (ao_acknowledged out @ [r])) (acked @ [i])"
      using mono m new(2) by (auto simp: opened_def)
    have "acked_by inbox x (cmsgs c1)" if x: "acked_by inbox x (cmsgs c)" for x
    proof -
      from x obtain j y where y: "bm_get (cmsgs c) j = Some y" "m_to y = inbox" "m_state y = Acked"
        "id_from_str (case split_once (CHR ''.'') x of Some (raw, _) \<Rightarrow> raw | None \<Rightarrow> x) = Inr j"
        unfolding acked_by_def by blast
      then have "j \<noteq> i" using m(1,3) by auto
      with y have "bm_get (cmsgs c1) j = Some y" by (simp add: c1)
      with y show ?thesis unfolding acked_by_def by blast
    qed
    moreover have "acked_by inbox r (cmsgs c1)"
      using m(1,2,5) by (auto simp: acked_by_def opens_def c1 settle_message_def split: option.splits prod.splits)
    ultimately have ak: "list_all (\<lambda>r. acked_by inbox r (cmsgs c1)) (ao_acknowledged out @ [r])"
      using 2(7) by (simp add: list_all_iff)
    from 2(3) [OF Ack_Settle s(1) [symmetric] refl s(2) st] op ak show ?thesis by simp
  qed
qed simp

lemma ack_fails:
  assumes com: "\<And>e. fails_as P E (commit en e)"
    and frame: "\<And>k ns d now c. P c \<Longrightarrow> P (emit k ns d now c)" "\<And>t c. P c \<Longrightarrow> P (wake t c)"
  shows "fails_as P E (ack en inbox receipts consumer now)"
proof -
  let ?ok = "\<lambda>r. P (fst r) \<and> (case snd r of Inl f \<Rightarrow> E f | Inr _ \<Rightarrow> True)"
  have c: "?ok (commit en e c)" if "P c" for e c using com that by (auto simp: fails_as_def)
  have "P c \<Longrightarrow> ?ok (ack_loop en inbox consumer now rs out acked c)" for rs out acked c
  proof (induction rs arbitrary: out acked c)
    case (Cons r rs)
    show ?case
    proof (cases "ack_judge inbox consumer (c_store c) r")
      case (Ack_Settle i)
      show ?thesis
        using c [OF Cons.prems, of "E_Settle i Acked now"] Cons.IH Ack_Settle
        by (cases "commit en (E_Settle i Acked now) c"; cases "snd (commit en (E_Settle i Acked now) c)") auto
    qed (use Cons in simp_all)
  qed simp
  then have "fails_as P E (ack_loop en inbox consumer now receipts out acked)" for out acked
    by (simp add: fails_as_def)
  moreover have "fails_as P E (trim_history en a)" for a
    unfolding trim_history_def by (intro fails_rules com)
  ultimately show ?thesis unfolding ack_def by (intro fails_rules frame)
qed

lemma ack_steps:
  assumes "ack en inbox receipts consumer now c = (c', Inr out)" "core_live c"
  obtains c1 acked where "settles c c1 acked" "list_all (opened inbox consumer c (ao_acknowledged out)) acked"
    "list_all (\<lambda>r. acked_by inbox r (cmsgs c1)) (ao_acknowledged out)"
    "mset (ao_acknowledged out) + mset (ao_rejected out) = mset receipts"
    "acked = [] \<and> c_store c' = c_store c1 \<or> (\<exists>c2 u. trim_history en inbox c1 = (c2, Inr u) \<and> c_store c' = c_store c2)"
proof -
  from assms(1) obtain c1 acked where
    l: "ack_loop en inbox consumer now receipts \<lparr>ao_acknowledged = [], ao_rejected = []\<rparr> [] c = (c1, Inr (out, acked))"
    and rest: "acked = [] \<and> c_store c' = c_store c1 \<or> (\<exists>c2 u. trim_history en inbox c1 = (c2, Inr u) \<and> c_store c' = c_store c2)"
    by (auto simp: ack_def bind_op_Inr then_op_Inr split: if_splits)
  have "settles c c []" using assms(2) by (simp add: settles_def)
  from ack_loop_gives [OF l this] rest show thesis by (intro that) auto
qed

text \<open>The id a receipt names.\<close>

definition receipt_id :: "str \<Rightarrow> str + id" where
  "receipt_id receipt = id_from_str (case split_once (CHR ''.'') receipt of Some (raw, _) \<Rightarrow> raw | None \<Rightarrow> receipt)"



end
