(* ===== verification/Store_Limits.thy ===== *)
theory Store_Limits
  imports Room_Inv
begin

text \<open>
  How many entries an effect leaves in the store: the sizes of the maps, of a room's members, board
  and open questions, and the names of the agents.
\<close>

subsection \<open>Sizes\<close>

lemma bm_len_le:
  assumes "\<And>k. bm_get m' k \<noteq> None \<Longrightarrow> bm_get m k \<noteq> None"
  shows "bm_len m' \<le> bm_len m"
  unfolding bm_len_card by (rule card_mono) (use assms in auto)

lemma bm_len_insert: "bm_len (bm_insert k v m) = (if bm_contains m k then bm_len m else Suc (bm_len m))"
proof -
  have "{a. \<exists>x. bm_get (bm_insert k v m) a = Some x} = insert k {a. \<exists>x. bm_get m a = Some x}" by auto
  then show ?thesis by (auto simp: bm_len_card insert_absorb)
qed

lemma bm_len_map [simp]: "bm_len (bm_map f m) = bm_len m"
  by (simp add: bm_len_card)

lemma bm_len_update [simp]: "bm_len (bm_update k f m) = bm_len m"
  by (simp add: bm_update_def)

lemma bm_len_remove: "bm_len (bm_remove k m) = (if bm_contains m k then bm_len m - 1 else bm_len m)"
proof -
  have "{a. \<exists>x. bm_get (bm_remove k m) a = Some x} = {a. \<exists>x. bm_get m a = Some x} - {k}" by auto
  then show ?thesis by (auto simp: bm_len_card card_Diff_singleton_if)
qed

lemma bm_len_remove_le: "bm_len (bm_remove k m) \<le> bm_len m"
  by (simp add: bm_len_remove)

lemma bm_len_pos: "bm_get m k = Some v \<Longrightarrow> 0 < bm_len m"
  using bm_len_card [of m] by (metis (mono_tags, lifting) card_gt_0_iff emptyE finite_dom_bm_get mem_Collect_eq)

lemma bm_len_of_list: "bm_len (bm_of_list xs) \<le> length xs"
proof -
  have "{k. \<exists>v. bm_get (bm_of_list xs) k = Some v} \<subseteq> fst ` set xs"
    by (auto dest!: map_of_SomeD) (metis fst_conv image_eqI)
  then have "bm_len (bm_of_list xs) \<le> card (fst ` set xs)" unfolding bm_len_card by (intro card_mono) auto
  also have "\<dots> \<le> length xs" by (metis card_image_le card_length finite_set order_trans)
  finally show ?thesis .
qed

subsection \<open>Rooms\<close>

definition open_held :: "room \<Rightarrow> bool" where
  "open_held r \<longleftrightarrow> (\<forall>i. bm_contains (rm_open r) i \<longrightarrow> bm_contains (rm_posts r) i)"

definition room_fits :: "str \<Rightarrow> room \<Rightarrow> bool" where
  "room_fits n r \<longleftrightarrow> rm_name r = n \<and> open_held r \<and> bm_len (rm_members r) \<le> max_members \<and>
     bm_len (rm_board r) \<le> max_board_keys \<and> bm_len (rm_open r) \<le> max_open_questions"

lemma room_fits_less:
  "room_fits n r \<Longrightarrow> rm_name r' = rm_name r \<Longrightarrow> open_held r' \<Longrightarrow> bm_len (rm_members r') \<le> bm_len (rm_members r) \<Longrightarrow>
   bm_len (rm_board r') \<le> bm_len (rm_board r) \<Longrightarrow> bm_len (rm_open r') \<le> bm_len (rm_open r) \<Longrightarrow> room_fits n r'"
  by (simp add: room_fits_def)

lemma drop_posts_fits:
  "open_held r \<Longrightarrow> (let r' = fst (fold (drop_post n) ids (r, ks)) in
   rm_name r' = rm_name r \<and> open_held r' \<and> bm_len (rm_members r') = bm_len (rm_members r) \<and>
   bm_len (rm_board r') = bm_len (rm_board r) \<and> bm_len (rm_open r') \<le> bm_len (rm_open r))"
proof (induction ids arbitrary: r ks)
  case (Cons i ids)
  let ?r = "fst (drop_post n i (r, ks))"
  have "rm_name ?r = rm_name r" "rm_members ?r = rm_members r" "rm_board ?r = rm_board r"
    "bm_len (rm_open ?r) \<le> bm_len (rm_open r)" "open_held ?r"
    using Cons.prems by (auto simp: drop_post_def Let_def bm_len_remove open_held_def split: option.split)
  with Cons.IH [of ?r "snd (drop_post n i (r, ks))"] show ?case by (auto simp: Let_def)
qed simp

lemma rename_members_len: "bm_len (rename_members frm to ms) \<le> bm_len ms"
proof (cases "bm_get ms frm")
  case (Some m)
  let ?ms = "bm_remove frm ms"
  have "bm_len (bm_insert to x (bm_remove to ?ms)) \<le> Suc (bm_len ?ms)" for x
    by (auto simp: bm_len_insert bm_len_remove)
  moreover have "Suc (bm_len ?ms) = bm_len ms" using Some bm_len_pos [OF Some] by (simp add: bm_len_remove)
  ultimately show ?thesis using Some by (simp add: rename_members_def Let_def)
qed (simp add: rename_members_def)

text \<open>What an effect has to leave room for.\<close>

fun room_grows :: "(str, room) btree_map \<Rightarrow> effect \<Rightarrow> bool" where
  "room_grows rs (E_Room r) = room_fits (rm_name r) (r\<lparr>rm_open := open_index (rm_posts r)\<rparr>)"
| "room_grows rs (E_Member n a (Some mb)) =
     (case bm_get rs n of Some r \<Rightarrow> bm_contains (rm_members r) a \<or> bm_len (rm_members r) < max_members | None \<Rightarrow> True)"
| "room_grows rs (E_Board n k (Some e)) =
     (case bm_get rs n of Some r \<Rightarrow> bm_contains (rm_board r) k \<or> bm_len (rm_board r) < max_board_keys | None \<Rightarrow> True)"
| "room_grows rs (E_Post n p) =
     (case bm_get rs n of Some r \<Rightarrow> \<not> is_open_question p \<or> bm_len (rm_open r) < max_open_questions | None \<Rightarrow> True)"
| "room_grows rs (E_Question n i s at) = (s \<noteq> St_Open)"
| "room_grows rs _ = True"

definition rooms_fit :: "(str, room) btree_map \<Rightarrow> bool" where
  "rooms_fit rs \<longleftrightarrow> (\<forall>n r. bm_get rs n = Some r \<longrightarrow> room_fits n r)"

lemma rooms_fit_update:
  assumes "rooms_fit rs" "\<And>r. bm_get rs n = Some r \<Longrightarrow> room_fits n r \<Longrightarrow> room_fits n (f r)"
  shows "rooms_fit (bm_update n f rs)"
  using assms by (auto simp: rooms_fit_def)

lemma rename_fits: "room_fits n r \<Longrightarrow> room_fits n (rename_room frm to r)"
  using rename_members_len [of frm to "rm_members r"] by (auto simp: rename_room_def open_held_def room_fits_def)

lemma put_post_fits:
  "room_fits n r \<Longrightarrow> \<not> is_open_question p \<or> bm_len (rm_open r) < max_open_questions \<Longrightarrow> room_fits n (put_post p r)"
  by (auto simp: room_fits_def put_post_def Let_def bm_len_insert open_held_def)

lemma set_status_fits: "room_fits n r \<Longrightarrow> s \<noteq> St_Open \<Longrightarrow> room_fits n (set_status i s at r)"
  using bm_len_remove_le [of i "rm_open r"] by (auto simp: set_status_def Let_def open_held_def room_fits_def split: option.split)

lemma drop_posts_room_fits: "room_fits n r \<Longrightarrow> room_fits n (fst (fold (drop_post m) ids (r, ks)))"
  using drop_posts_fits [of r m ids ks] by (simp add: room_fits_def Let_def)

lemma effect_rooms_fit:
  assumes "rooms_fit (room_map st)" "room_grows (room_map st) e"
  shows "rooms_fit (room_map (apply_effect cd e st))"
  using assms
proof (induction cd e st rule: apply_effect.induct)
  case (5 cd ids st)
  then show ?case using removes_frame [of cd ids st] by simp
next
  case (7 cd ids st)
  then show ?case using drop_broadcasts_frame [of ids st] by simp
next
  case (9 cd frm to st)
  then show ?case
    using rename_frame [of st frm _ cd to]
    by (cases "bm_get (agents st) frm") (auto simp: rooms_fit_def rename_fits rename_agent_def)
next
  case (10 cd name st)
  have "room_fits n r \<Longrightarrow> room_fits n (r\<lparr>rm_members := bm_remove name (rm_members r)\<rparr>)" for n r
    using bm_len_remove_le [of name "rm_members r"] by (simp add: room_fits_def open_held_def)
  with 10 show ?case by (auto simp: rooms_fit_def)
next
  case (11 cd r st)
  then show ?case by (simp add: rooms_fit_def)
next
  case (12 cd room name mb st)
  then show ?case
    by (cases mb) (auto intro!: rooms_fit_update simp: room_fits_def open_held_def bm_len_insert bm_len_remove)
next
  case (14 cd room p st)
  then show ?case by (auto intro!: rooms_fit_update put_post_fits)
next
  case (15 cd room i s at st)
  then show ?case by (auto intro!: rooms_fit_update set_status_fits)
next
  case (16 cd name ids st)
  have R: "room_map (apply_drop_posts cd name ids st) =
      bm_update name (\<lambda>r. fst (fold (drop_post name) ids (r, post_keys st))) (room_map st)"
    by (simp add: apply_drop_posts_def Let_def)
  show ?case
    unfolding apply_effect.simps R using 16(1) by (intro rooms_fit_update drop_posts_room_fits)
next
  case (19 cd room key e st)
  then show ?case
    by (cases e) (auto intro!: rooms_fit_update simp: room_fits_def open_held_def bm_len_insert bm_len_remove)
next
  case (20 cd room st)
  then show ?case by (auto simp: rooms_fit_def Let_def split: if_splits)
qed (auto intro!: rooms_fit_update simp: room_fits_def open_held_def Let_def split: option.split)

subsection \<open>Agents\<close>

definition agent_names :: "store \<Rightarrow> str set" where
  "agent_names st = {n. \<exists>a. bm_get (agents st) n = Some a}"

lemma agents_card: "bm_len (agents st) = card (agent_names st)"
  by (simp add: agent_names_def bm_len_card)

lemma agent_names_eqI: "(\<And>n. bm_get (agents st') n = None \<longleftrightarrow> bm_get (agents st) n = None) \<Longrightarrow> agent_names st' = agent_names st"
  unfolding agent_names_def by (metis not_None_eq)

lemma names_same: "agents st' = agents st \<Longrightarrow> agent_names st' = agent_names st"
  by (simp add: agent_names_def)

lemma names_update: "agents st' = bm_update n f (agents st) \<Longrightarrow> agent_names st' = agent_names st"
  by (rule agent_names_eqI) simp

lemma names_track [simp]: "agent_names (track m b st) = agent_names st"
  by (rule agent_names_eqI) simp

lemma names_ensure [simp]: "agent_names (ensure_agent n at st) = insert n (agent_names st)"
  by (auto simp: agent_names_def get_agents_ensure)

lemma names_field [simp]:
  "agent_names (st\<lparr>messages := ms\<rparr>) = agent_names st" "agent_names (st\<lparr>msg_keys := ks\<rparr>) = agent_names st"
  "agent_names (st\<lparr>last_id := i\<rparr>) = agent_names st" "agent_names (st\<lparr>sessions := ss\<rparr>) = agent_names st"
  "agent_names (st\<lparr>rooms := rs\<rparr>) = agent_names st"
  "agent_names (st\<lparr>agents := bm_update n f (agents st)\<rparr>) = agent_names st"
  by (rule names_same names_update, simp)+

lemma names_message [simp]: "agent_names (apply_message cd m st) = insert (m_to m) (agent_names st)"
  by (simp add: apply_message_def Let_def split: option.split)

lemma names_change [simp]: "agent_names (change_message cd i f st) = agent_names st"
  by (simp add: change_message_def Let_def split: option.split)

lemma names_remove [simp]: "agent_names (remove_message cd i st) = agent_names st"
  by (simp add: remove_message_def Let_def split: option.split prod.split)

lemma names_removes [simp]: "agent_names (fold (remove_message cd) ids st) = agent_names st"
  by (induction ids arbitrary: st) simp_all

lemma names_forget [simp]: "agent_names (forget_agent cd n st) = agent_names st - {n}"
proof -
  have "agent_names (st\<lparr>agents := bm_remove n (agents st)\<rparr>) = agent_names st - {n}"
    by (auto simp: agent_names_def)
  moreover have "bm_get (agents st) n = None \<Longrightarrow> n \<notin> agent_names st" by (simp add: agent_names_def)
  ultimately show ?thesis by (simp add: forget_agent_def Let_def split: option.split)
qed

lemma names_retrack [simp]: "agent_names (retrack st) = agent_names st"
  by (rule agent_names_eqI) simp

lemma names_others [simp]:
  "agent_names (reindex st) = agent_names st" "agent_names (update_room cd n f st) = agent_names st"
  "agent_names (apply_post cd n p st) = agent_names st" "agent_names (apply_room cd r st) = agent_names st"
  "agent_names (apply_drop_posts cd n ids st) = agent_names st" "agent_names (fold drop_broadcast ids st) = agent_names st"
  "agent_names (st\<lparr>broadcasts := bs\<rparr>) = agent_names st" "agent_names (st\<lparr>bc_keys := bk\<rparr>) = agent_names st"
  "agent_names (st\<lparr>post_keys := pk\<rparr>) = agent_names st" "agent_names (st\<lparr>store_db := d\<rparr>) = agent_names st"
  using drop_broadcasts_frame [of ids st] by (intro names_same; simp)+

lemma names_with: "agent_names (st\<lparr>agents := ags, messages := ms, broadcasts := bs, sessions := ss, rooms := rs\<rparr>) =
    {k. bm_get ags k \<noteq> None}"
  by (simp add: agent_names_def)

lemma names_moved: "{k. bm_get (bm_insert to x (bm_remove to (bm_remove frm ags))) k \<noteq> None} =
    insert to ({k. bm_get ags k \<noteq> None} - {frm})"
  by auto

lemma names_rename: "frm \<in> agent_names st \<Longrightarrow> agent_names (rename_agent cd frm to st) = insert to (agent_names st - {frm})"
proof -
  assume "frm \<in> agent_names st"
  then obtain a where a: "bm_get (agents st) frm = Some a" by (auto simp: agent_names_def)
  have n: "agent_names st = {k. bm_get (agents st) k \<noteq> None}" by (simp add: agent_names_def)
  show ?thesis
    unfolding n rename_agent_def Let_def a option.case names_retrack names_others names_with names_moved ..
qed

end
