(* ===== verification/Broker_Limits.thy ===== *)
theory Broker_Limits
  imports Store_Limits Broker_Total
begin

text \<open>
  The limits of a server through the operations on agents, messages and broadcasts: what each has
  checked before it adds an entry leaves room for it.
\<close>

subsection \<open>The limits of a server\<close>

text \<open>
  A store within its limits. \<open>Q\<close> and \<open>M\<close> are rooms with place for one more open question
  and one more member, and \<open>k\<close> and \<open>j\<close> count free places for agents and rooms: what an
  operation has checked before it makes the change.
\<close>

definition place :: "str set \<Rightarrow> (room \<Rightarrow> nat) \<Rightarrow> nat \<Rightarrow> (str, room) btree_map \<Rightarrow> bool" where
  "place Q g most rs \<longleftrightarrow> (\<forall>n \<in> Q. \<forall>r. bm_get rs n = Some r \<longrightarrow> g r < most)"

abbreviation question_place :: "str set \<Rightarrow> (str, room) btree_map \<Rightarrow> bool" where
  "question_place Q \<equiv> place Q (\<lambda>r. bm_len (rm_open r)) max_open_questions"

abbreviation member_place :: "str set \<Rightarrow> (str, room) btree_map \<Rightarrow> bool" where
  "member_place M \<equiv> place M (\<lambda>r. bm_len (rm_members r)) max_members"

lemma place_update:
  "place Q g most rs \<Longrightarrow> (\<And>r. n \<in> Q \<Longrightarrow> bm_get rs n = Some r \<Longrightarrow> g (f r) \<le> g r) \<Longrightarrow> place Q g most (bm_update n f rs)"
  unfolding place_def by (auto intro: le_less_trans)

lemma place_map: "place Q g most rs \<Longrightarrow> (\<And>r. g (f r) \<le> g r) \<Longrightarrow> place Q g most (bm_map (\<lambda>_. f) rs)"
  unfolding place_def by (auto intro: le_less_trans)

lemma place_none [simp]: "place {} g most rs"
  by (simp add: place_def)

lemma place_less: "place Q g most rs \<Longrightarrow> Q' \<subseteq> Q \<Longrightarrow> place Q' g most rs"
  by (auto simp: place_def)

definition fits :: "limits \<Rightarrow> str set \<Rightarrow> str set \<Rightarrow> nat \<Rightarrow> nat \<Rightarrow> 'j core \<Rightarrow> bool" where
  "fits L Q M k j c \<longleftrightarrow> c_limits c = L \<and> named (agents (c_store c)) \<and> rooms_fit (room_map (c_store c)) \<and>
     card (agent_names (c_store c)) + k \<le> max_agents L \<and> bm_len (room_map (c_store c)) + j \<le> max_rooms L \<and>
     question_place Q (room_map (c_store c)) \<and> member_place M (room_map (c_store c))"

abbreviation in_bounds :: "limits \<Rightarrow> 'j core \<Rightarrow> bool" where
  "in_bounds L \<equiv> fits L {} {} 0 0"

lemma fits_frame [simp]:
  "fits L Q M k j (emit e ns d now c) = fits L Q M k j c" "fits L Q M k j (emit_all e d now c) = fits L Q M k j c"
  "fits L Q M k j (wake t c) = fits L Q M k j c" "fits L Q M k j (hand_over_core n c) = fits L Q M k j c"
  "fits L Q M k j (presence_event a b now c) = fits L Q M k j c" "fits L Q M k j (c\<lparr>c_drawn := d2\<rparr>) = fits L Q M k j c"
  "fits L Q M k j (emit_room e r d now c) = fits L Q M k j c"
  by (simp_all add: fits_def)

lemma fits_less: "fits L Q M k j c \<Longrightarrow> Q' \<subseteq> Q \<Longrightarrow> M' \<subseteq> M \<Longrightarrow> k' \<le> k \<Longrightarrow> j' \<le> j \<Longrightarrow> fits L Q' M' k' j' c"
  unfolding fits_def by (auto elim: place_less)

text \<open>What an effect may add, and where.\<close>

fun new_agents :: "effect \<Rightarrow> str set" where
  "new_agents (E_Agent n at) = {n}"
| "new_agents (E_Message m) = {m_to m}"
| "new_agents _ = {}"

fun new_rooms :: "effect \<Rightarrow> str set" where
  "new_rooms (E_Room r) = {rm_name r}"
| "new_rooms _ = {}"

fun fills :: "str set \<Rightarrow> str set \<Rightarrow> effect \<Rightarrow> bool" where
  "fills Q M (E_Room r) \<longleftrightarrow> Q = {} \<and> M = {}"
| "fills Q M (E_Rename frm to) \<longleftrightarrow> Q = {} \<and> M = {}"
| "fills Q M (E_Member n a mb) \<longleftrightarrow> n \<notin> M"
| "fills Q M (E_Post n p) \<longleftrightarrow> \<not> is_open_question p \<or> n \<notin> Q"
| "fills Q M _ \<longleftrightarrow> True"

lemma finite_names [simp]: "finite (agent_names st)"
  by (simp add: agent_names_def)

lemma effect_names: "card (agent_names (apply_effect cd e st)) \<le> card (agent_names st \<union> new_agents e)"
proof (induction cd e st rule: apply_effect.induct)
  case (9 cd frm to st)
  show ?case
  proof (cases "frm \<in> agent_names st")
    case True
    have "card (insert to (agent_names st - {frm})) \<le> Suc (card (agent_names st - {frm}))"
      by (metis card_insert_if finite_Diff finite_names le_SucI nle_le)
    also have "\<dots> = card (agent_names st)" by (rule card_Suc_Diff1 [OF finite_names True])
    finally show ?thesis using True by (simp add: names_rename)
  next
    case False
    then show ?thesis by (simp add: rename_agent_def agent_names_def)
  qed
next
  case (10 cd name st)
  show ?case by (auto intro: card_mono)
qed (simp_all add: Let_def split: option.split)

lemma bm_len_dom: "bm_len m = card (dom (bm_get m))"
  by (simp add: bm_len_card dom_def)

lemma effect_rooms_dom_le: "dom (bm_get (room_map (apply_effect cd e st))) \<subseteq> dom (bm_get (room_map st)) \<union> new_rooms e"
proof (induction cd e st rule: apply_effect.induct)
  case (5 cd ids st)
  then show ?case using removes_frame [of cd ids st] by auto
next
  case (7 cd ids st)
  then show ?case using drop_broadcasts_frame [of ids st] by auto
next
  case (9 cd frm to st)
  then show ?case
    using rename_frame [of st frm _ cd to] by (cases "bm_get (agents st) frm") (auto simp: rename_agent_def dom_def)
qed (auto simp: Let_def dom_def apply_drop_posts_def split: option.splits if_splits)

lemma finite_dom_get [simp]: "finite (dom (bm_get m))"
  by (simp add: dom_def)

text \<open>Rooms with a free place keep it through effects that do not fill it.\<close>

lemma effect_keeps_place:
  assumes "question_place Q (room_map st)" "member_place M (room_map st)" "fills Q M e" "rooms_fit (room_map st)"
    and "room_grows (room_map st) e"
  shows "question_place Q (room_map (apply_effect cd e st)) \<and> member_place M (room_map (apply_effect cd e st))"
  using assms
proof (induction cd e st rule: apply_effect.induct)
  case (5 cd ids st)
  then show ?case using removes_frame [of cd ids st] by simp
next
  case (7 cd ids st)
  then show ?case using drop_broadcasts_frame [of ids st] by simp
next
  case (10 cd name st)
  then show ?case by (simp add: place_map bm_len_remove_le)
next
  case (12 cd room name mb st)
  then show ?case by (auto intro!: place_update)
next
  case (14 cd room p st)
  then show ?case by (auto intro!: place_update simp: put_post_def)
next
  case (15 cd room i s at st)
  then have "bm_len (rm_open (set_status i s at r)) \<le> bm_len (rm_open r)" "rm_members (set_status i s at r) = rm_members r" for r
    by (auto simp: set_status_def Let_def bm_len_remove_le split: option.split)
  with 15 show ?case by (simp add: place_update)
next
  case (16 cd name ids st)
  have R: "room_map (apply_drop_posts cd name ids st) =
      bm_update name (\<lambda>r. fst (fold (drop_post name) ids (r, post_keys st))) (room_map st)"
    by (simp add: apply_drop_posts_def Let_def)
  from 16(4) have "open_held r" if "bm_get (room_map st) name = Some r" for r
    using that by (auto simp: rooms_fit_def room_fits_def)
  with 16(1,2) drop_posts_fits [of _ name ids "post_keys st"] show ?case
    unfolding apply_effect.simps R by (auto intro!: place_update simp: Let_def)
next
  case (20 cd room st)
  then show ?case by (auto simp: Let_def place_def split: if_splits)
qed (auto intro!: place_update simp: Let_def split: option.split)

lemma keeps_fits_commit:
  fixes en :: "'j env"
  assumes c: "fits L Q M k j c" and fill: "fills Q M e" and grow: "room_grows (room_map (c_store c)) e"
    and a: "card (agent_names (c_store c) \<union> new_agents e) + k \<le> max_agents L"
    and r: "card (dom (bm_get (room_map (c_store c))) \<union> new_rooms e) + j \<le> max_rooms L"
  shows "fits L Q M k j (fst (commit en e c))"
proof (cases rule: commit_cases [of en e c])
  case (refused c' why)
  with c show ?thesis by (simp add: fits_def)
next
  case (taken c')
  have "bm_len (room_map (apply_effect (en_codec en) e (c_store c))) \<le> card (dom (bm_get (room_map (c_store c))) \<union> new_rooms e)"
    unfolding bm_len_dom using effect_rooms_dom_le by (rule card_mono [rotated]) (cases e; simp)
  with taken c r a effect_names [of "en_codec en" e "c_store c"] effect_named [of "c_store c" "en_codec en" e]
    effect_rooms_fit [OF _ grow] effect_keeps_place [OF _ _ fill _ grow, of "en_codec en"]
  show ?thesis by (simp add: fits_def)
qed

text \<open>Effects that add neither an agent nor a room.\<close>

lemma commit_fits:
  "fits L Q M k j c \<Longrightarrow> fills Q M e \<Longrightarrow> room_grows (room_map (c_store c)) e \<Longrightarrow> new_agents e = {} \<Longrightarrow> new_rooms e = {} \<Longrightarrow>
   fits L Q M k j (fst (commit en e c))"
  by (rule keeps_fits_commit) (simp_all add: fits_def bm_len_dom)

lemma keeps_fits_plain [keeps_rules]:
  assumes "fills Q M e" "\<And>rs. room_grows rs e" "new_agents e = {}" "new_rooms e = {}"
  shows "keeps (fits L Q M k j) (commit en e)"
  by (intro keepsI commit_fits assms)

subsection \<open>Making room for agents\<close>

lemma missing_set: "set (missing_names st ns acc) = set acc \<union> (set ns - agent_names st)"
  by (induction st ns acc rule: missing_names.induct) (auto simp: agent_names_def)

lemma missing_distinct: "distinct acc \<Longrightarrow> distinct (missing_names st ns acc)"
  by (induction st ns acc rule: missing_names.induct) auto

lemma names_are_keys: "named ags \<Longrightarrow> map ag_name (bm_values ags) = bm_keys ags"
  unfolding bm_values_def bm_keys_def by (auto simp: in_entries dest: namedD)

lemma removable_held:
  assumes "named (agents (c_store c))"
  shows "distinct (removable now c)" "set (removable now c) \<subseteq> agent_names (c_store c)"
proof -
  let ?ags = "agents (c_store c)"
  have d: "distinct (map ag_name (bm_values ?ags))" by (simp add: names_are_keys [OF assms])
  then have "distinct (bm_values ?ags)" "inj_on ag_name (set (bm_values ?ags))" by (auto simp: distinct_map)
  then show "distinct (removable now c)"
    by (simp add: removable_def Let_def distinct_map) (auto elim!: inj_on_subset)
  show "set (removable now c) \<subseteq> agent_names (c_store c)"
    using namedD [OF assms] by (auto simp: removable_def Let_def agent_names_def)
qed

lemma fits_forget_step: "fits L Q M 0 j c \<Longrightarrow> fits L Q M 0 j (fst (forget_one en n now c))"
proof -
  have "keeps (fits L Q M 0 j) (forget_one en n now)" unfolding forget_one_def by (intro keeps_rules) simp_all
  then show "fits L Q M 0 j c \<Longrightarrow> fits L Q M 0 j (fst (forget_one en n now c))" by (rule keepsD)
qed

lemma forget_one_Inr: "forget_one en n now c = (c', Inr u) \<Longrightarrow> agent_names (c_store c') = agent_names (c_store c) - {n}"
  by (auto simp: forget_one_def then_op_Inr dest!: commit_Inr(1))

lemma forget_each:
  assumes "fits L Q M 0 j c"
  shows "fits L Q M 0 j (fst (each_op (\<lambda>n. forget_one en n now) xs c)) \<and>
    (\<forall>u. snd (each_op (\<lambda>n. forget_one en n now) xs c) = Inr u \<longrightarrow>
      agent_names (c_store (fst (each_op (\<lambda>n. forget_one en n now) xs c))) = agent_names (c_store c) - set xs)"
  using assms
proof (induction xs arbitrary: c)
  case (Cons n xs)
  let ?rest = "each_op (\<lambda>n. forget_one en n now) xs"
  show ?case
  proof (cases rule: bind_op_cases [of "forget_one en n now" c "\<lambda>_. ?rest"])
    case (fails c' e)
    with fits_forget_step [OF Cons.prems, of en n now] show ?thesis by (simp add: then_op_def)
  next
    case (goes c1 u)
    have "fits L Q M 0 j c1" using fits_forget_step [OF Cons.prems, of en n now] goes by simp
    from Cons.IH [OF this] goes forget_one_Inr [OF goes(1)] show ?thesis by (auto simp: then_op_def)
  qed
qed simp

lemma fits_add_step:
  assumes "fits L Q M (Suc k) j c"
  shows "fits L Q M k j (fst (add_agent en now n c))"
proof -
  have "card (insert n (agent_names (c_store c))) + k \<le> max_agents L"
    using assms card_insert_le_m1 [of "Suc (card (agent_names (c_store c)))" "agent_names (c_store c)" n]
    by (simp add: fits_def card_insert_if)
  with assms have "fits L Q M k j (fst (commit en (E_Agent n now) c))"
    by (intro keeps_fits_commit) (auto simp: fits_def bm_len_dom)
  then show ?thesis unfolding add_agent_def then_op_def
    by (cases rule: bind_op_cases [of "commit en (E_Agent n now)" c "\<lambda>_. modify (emit ''agent'' [n] [(''agent'', J_Str n)] now)"]) simp_all
qed

lemma add_agent_Inr: "add_agent en now n c = (c', Inr u) \<Longrightarrow> agent_names (c_store c') = insert n (agent_names (c_store c))"
  by (auto simp: add_agent_def then_op_Inr dest!: commit_Inr(1))

lemma add_each:
  assumes "fits L Q M (length xs) j c"
  shows "fits L Q M 0 j (fst (each_op (add_agent en now) xs c)) \<and>
    (\<forall>u. snd (each_op (add_agent en now) xs c) = Inr u \<longrightarrow>
      agent_names (c_store (fst (each_op (add_agent en now) xs c))) = agent_names (c_store c) \<union> set xs)"
  using assms
proof (induction xs arbitrary: c)
  case (Cons n xs)
  have s: "fits L Q M (length xs) j (fst (add_agent en now n c))" using Cons.prems by (intro fits_add_step) simp
  show ?case
  proof (cases rule: bind_op_cases [of "add_agent en now n" c "\<lambda>_. each_op (add_agent en now) xs"])
    case (fails c' e)
    with fits_less [OF s subset_refl subset_refl le0 order_refl] show ?thesis by (simp add: then_op_def)
  next
    case (goes c1 u)
    then have "fits L Q M (length xs) j c1" using s by simp
    from Cons.IH [OF this] goes add_agent_Inr [OF goes(1)] show ?thesis by (auto simp: then_op_def)
  qed
qed simp

lemma ensure_fits:
  assumes c: "fits L Q M 0 j c"
  shows "fits L Q M 0 j (fst (ensure_agents en names now c)) \<and>
    (\<forall>u. snd (ensure_agents en names now c) = Inr u \<longrightarrow> set names \<subseteq> agent_names (c_store (fst (ensure_agents en names now c))))"
proof -
  define missing where "missing = missing_names (c_store c) names []"
  define overflow where "overflow = bm_len (agents (c_store c)) + length missing - max_agents (c_limits c)"
  define spare where "spare = filter (\<lambda>name. name \<notin> set names) (removable now c)"
  define out where "out = (if overflow > 0 then take overflow spare else [])"
  have op: "ensure_agents en names now c =
      (if missing = [] then ret ()
       else if overflow > 0 \<and> length spare < overflow
       then refuse (Full (''agent namespace is full (maximum '' @ show_nat (max_agents (c_limits c)) @ '')''))
       else then_op (each_op (\<lambda>name. forget_one en name now) out) (each_op (add_agent en now) missing)) c"
    by (simp add: ensure_agents_def look_def Let_def missing_def overflow_def spare_def out_def)
  have m: "set missing = set names - agent_names (c_store c)" "distinct missing"
    by (simp_all add: missing_def missing_set missing_distinct)
  show ?thesis
  proof (cases "missing = [] \<or> (overflow > 0 \<and> length spare < overflow)")
    case True
    have "missing = [] \<Longrightarrow> set names \<subseteq> agent_names (c_store c)" using m(1) by auto
    with c True show ?thesis unfolding op by auto
  next
    case False
    let ?f = "each_op (\<lambda>name. forget_one en name now) out" and ?a = "each_op (add_agent en now) missing"
    have op: "ensure_agents en names now c = bind_op ?f (\<lambda>_. ?a) c" using op False by (auto simp: then_op_def)
    note f = forget_each [OF c, of en now out]
    show ?thesis
    proof (cases rule: bind_op_cases [of ?f c "\<lambda>_. ?a"])
      case (fails c' e)
      with f show ?thesis by (simp add: op)
    next
      case (goes c1 u)
      have n: "named (agents (c_store c))" using c by (simp add: fits_def)
      have out: "distinct out" "set out \<subseteq> agent_names (c_store c)" "set out \<inter> set names = {}" "length out = overflow"
        using removable_held [OF n, of now] False
        by (auto simp: out_def spare_def dest!: in_set_takeD)
      have c1: "fits L Q M 0 j c1" "agent_names (c_store c1) = agent_names (c_store c) - set out"
        using f goes(1) by auto
      have "card (agent_names (c_store c1)) = card (agent_names (c_store c)) - overflow"
        unfolding c1(2) using out by (simp add: card_Diff_subset distinct_card)
      moreover have "overflow \<le> card (agent_names (c_store c))"
        using card_mono [OF finite_names out(2)] out(1,4) by (simp add: distinct_card)
      ultimately have "fits L Q M (length missing) j c1"
        using c1(1) overflow_def c by (simp add: fits_def agents_card)
      note a = add_each [OF this, of en now]
      from a goes m out c1(2) show ?thesis by (auto simp: op)
    qed
  qed
qed

lemma keeps_fits_ensure [keeps_rules]: "keeps (fits L Q M 0 j) (ensure_agents en names now)"
  using ensure_fits by (intro keepsI) blast

subsection \<open>Agents and messages\<close>

abbreviation fits_in :: "limits \<Rightarrow> str set \<Rightarrow> str set \<Rightarrow> 'j core \<Rightarrow> bool" where
  "fits_in L Q M \<equiv> fits L Q M 0 0"

lemma keeps_fits_forget_one [keeps_rules]: "keeps (fits_in L Q M) (forget_one en name now)"
  by (rule keepsI) (rule fits_forget_step)

lemma keeps_fits_agents [keeps_rules]:
  "keeps (in_bounds L) (rename en frm to now)" "keeps (fits_in L Q M) (cleanup en now)"
  "keeps (fits_in L Q M) (forget en name now)"
  unfolding rename_def cleanup_def forget_def Let_def by (intro keeps_rules; simp)+

lemma fits_same:
  "fits L Q M k j c \<Longrightarrow> c_limits c' = c_limits c \<Longrightarrow> room_map (c_store c') = room_map (c_store c) \<Longrightarrow>
   agents (c_store c') = bm_update n f (agents (c_store c)) \<Longrightarrow> (\<And>a. ag_name (f a) = ag_name a) \<Longrightarrow> fits L Q M k j c'"
  unfolding fits_def by (simp add: names_update named_update)

lemma see_fits:
  assumes "\<And>st. agents (g st) = agents st" "\<And>st. rooms (g st) = rooms st"
  shows "fits L Q M k j c \<Longrightarrow> fits L Q M k j (with_store (\<lambda>st. see_agent n now (g st)) c)"
  by (erule fits_same [where n = n and f = "\<lambda>a. a\<lparr>ag_last_seen := now\<rparr>"]) (simp_all add: see_agent_def with_store_def assms)

lemma keep_session_fits: "fits L Q M k j c \<Longrightarrow> fits L Q M k j (with_store (keep_session req now) c)"
  by (erule fits_same [where n = "pr_agent req" and f = "\<lambda>a. a\<lparr>ag_last_seen := now\<rparr>"])
    (simp_all add: keep_session_def drop_sessions_def see_agent_def with_store_def Let_def split: option.split)

lemma keeps_fits_presence [keeps_rules]: "keeps (fits_in L Q M) (presence en req now)"
  unfolding presence_def by (intro keeps_rules) (simp_all add: keep_session_fits)

lemma leave_fits:
  assumes "fits_in L Q M c"
  shows "fits_in L Q M (leave agent session now c)"
  using see_fits [OF _ _ assms, of "\<lambda>st. st\<lparr>sessions := bm_remove session (sessions st)\<rparr>" agent now] assms
  by (simp add: leave_def Let_def split: option.split)

lemma keeps_fits_messages [keeps_rules]:
  "keeps (fits_in L Q M) (trim_history en a)" "keeps (fits_in L Q M) (reclaim en now)"
  "keeps (fits_in L Q M) (expire en now)"
proof -
  show t: "keeps (fits_in L Q M) (trim_history en a)" for a
    unfolding trim_history_def Let_def by (intro keeps_rules; simp)
  show "keeps (fits_in L Q M) (reclaim en now)" "keeps (fits_in L Q M) (expire en now)"
    unfolding reclaim_def reclaim_one_def expire_def expire_one_def Let_def by (intro keeps_rules t; simp)+
qed

lemma leads_put_message: "leads (\<lambda>c. fits_in L Q M c \<and> to \<in> agent_names (c_store c)) (fits_in L Q M) (put_message en req to parent now)"
proof (unfold leads_def, intro allI impI)
  fix c :: "'a core" assume c: "fits_in L Q M c \<and> to \<in> agent_names (c_store c)"
  define m where "m = new_message req to parent (next_id (c_store c) now) now (msg_ttl_ms (c_limits c))"
  have "leads (\<lambda>c. fits_in L Q M c \<and> to \<in> agent_names (c_store c)) (fits_in L Q M) (commit en (E_Message m))"
    unfolding leads_def
  proof (intro allI impI keeps_fits_commit)
    fix c :: "'a core" assume a: "fits_in L Q M c \<and> to \<in> agent_names (c_store c)"
    then show "card (agent_names (c_store c) \<union> new_agents (E_Message m)) + 0 \<le> max_agents L"
      "card (dom (bm_get (room_map (c_store c))) \<union> new_rooms (E_Message m)) + 0 \<le> max_rooms L" "fits_in L Q M c"
      by (simp_all add: m_def new_message_def insert_absorb fits_def bm_len_dom)
  qed simp_all
  then have "leads (\<lambda>c. fits_in L Q M c \<and> to \<in> agent_names (c_store c)) (fits_in L Q M)
     (then_op (commit en (E_Message m)) (then_op (trim_history en to)
       (then_op (modify (\<lambda>c. wake (T_Inbox (m_to m)) (emit ''message'' [m_to m, m_from m] [(''message'', message_json m)] now c)))
         (ret (m, True)))))"
    by (rule leads_last) (intro keeps_rules; simp)
  with c show "fits_in L Q M (fst (put_message en req to parent now c))"
    by (simp add: put_message_def look_def Let_def m_def leads_def)
qed

lemma keeps_via:
  assumes "\<And>c. P c \<Longrightarrow> P (fst (m c))" "\<And>c c' x. P c \<Longrightarrow> m c = (c', Inr x) \<Longrightarrow> S c'"
    and "leads S P n" "\<And>c. S c \<Longrightarrow> P c"
  shows "keeps P (then_op m n)"
proof (rule keepsI)
  fix c assume c: "P c"
  then show "P (fst (then_op m n c))"
    using assms(1) [OF c] assms(2) [OF c] assms(3)
    by (cases rule: bind_op_cases [of m c "\<lambda>_. n"]) (auto simp: then_op_def leads_def)
qed

lemma keeps_fits_send [keeps_rules]: "keeps (fits_in L Q M) (send en req now)"
proof -
  define tail where "tail to parent = then_op (ensure_agents en [sr_from req, to] now) (put_message en req to parent now)"
    for to parent
  have "keeps (fits_in L Q M) (tail to parent)" for to parent
    unfolding tail_def
  proof (rule keeps_via [OF _ _ leads_put_message])
    fix c c' x assume "fits_in L Q M c" "ensure_agents en [sr_from req, to] now c = (c', Inr x)"
    with ensure_fits [of L Q M 0 c en "[sr_from req, to]" now]
    show "fits_in L Q M c' \<and> to \<in> agent_names (c_store c')" by simp
  qed (use ensure_fits in blast, simp)
  then show ?thesis
    unfolding send_def Let_def tail_def [symmetric]
      by (auto intro!: keeps_then keeps_room_to_grow keeps_look keeps_basic keeps_if keeps_require_known split: sum.split option.split)
qed

lemma keeps_fits_lease [keeps_rules]: "keeps (fits_in L Q M) (lease_where en inbox consumer limit only now)"
  unfolding lease_where_def lease_one_def Let_def by (intro keeps_rules; simp)

lemma fits_ack_loop: "fits_in L Q M c \<Longrightarrow> fits_in L Q M (fst (ack_loop en inbox consumer now receipts out acked c))"
proof (induction en inbox consumer now receipts out acked c rule: ack_loop.induct)
  case (2 en inbox consumer now receipt receipts out acked c)
  have keep: "fits_in L Q M (fst (commit en (E_Settle i Acked now) c))" for i
    by (rule keepsD [OF keeps_fits_plain]) (simp_all add: 2)
  from 2 keep show ?case
    by (auto split: ack_verdict.split prod.split sum.split) (metis fst_conv)+
qed simp

lemma keeps_fits_ack [keeps_rules]: "keeps (fits_in L Q M) (ack en inbox receipts consumer now)"
  unfolding ack_def
  by (intro keeps_rules keepsI [of _ "ack_loop en inbox consumer now receipts _ _"] fits_ack_loop) simp_all

lemma keeps_fits_purge [keeps_rules]: "keeps (fits_in L Q M) (purge en inbox now)"
  unfolding purge_def Let_def by (intro keeps_rules) simp_all

lemma keeps_fits_broadcasts [keeps_rules]:
  "keeps (fits_in L Q M) (broadcast_op en frm body key now)" "keeps (fits_in L Q M) (read_broadcasts en agent all moving)"
  "keeps (fits_in L Q M) (clear_broadcasts en now)"
  unfolding broadcast_op_def put_broadcast_def trim_broadcasts_def read_broadcasts_def clear_broadcasts_def Let_def
  by (intro keeps_rules; simp)+

end
