(* ===== verification/Room_Limits.thy ===== *)
theory Room_Limits
  imports Broker_Limits
begin

text \<open>
  The limits of a server through the operations on rooms, and through a whole run of the broker.
\<close>

subsection \<open>Rooms\<close>

lemma log_post_plain [simp]: "\<not> is_open_question (log_post i frm body now)"
  by (simp add: is_open_question_def log_post_def)

lemma keeps_fits_trim_room [keeps_rules]: "keeps (fits_in L Q M) (trim_room en room)"
  unfolding trim_room_def Let_def by (intro keeps_rules; simp)

definition append_rest :: "'j env \<Rightarrow> str \<Rightarrow> post \<Rightarrow> u64 \<Rightarrow> ('j, unit) op" where
  "append_rest en room p now =
     then_op (trim_room en room)
       (bind_op (the_room room) (\<lambda>r.
         modify (\<lambda>c. wake (T_Room room)
           (emit_room ''post'' room [(''room'', J_Str room), (''post'', post_json r p)] now c))))"

lemma append_post_alt: "append_post en room p now = then_op (commit en (E_Post room p)) (append_rest en room p now)"
  by (simp add: append_post_def append_rest_def)

lemma keeps_fits_append_rest [keeps_rules]: "keeps (fits_in L Q M) (append_rest en room p now)"
  unfolding append_rest_def by (intro keeps_rules) simp_all

lemma keeps_fits_log [keeps_rules]: "keeps (fits_in L Q M) (log_room en room frm body now)"
proof -
  have "keeps (fits_in L Q M) (append_post en room (log_post i frm body now) now)" for i
    unfolding append_post_alt
    by (intro keeps_then keeps_fits_append_rest keepsI commit_fits) (simp_all split: option.split)
  then show ?thesis unfolding log_room_def by (intro keeps_rules)
qed

lemma leads_fits_append: "leads (fits_in L {room} M) (fits_in L {} M) (append_post en room p now)"
  unfolding append_post_alt
proof (rule leads_last [OF _ keeps_fits_append_rest], unfold leads_def, intro allI impI commit_fits)
  fix c :: "'a core" assume c: "fits_in L {room} M c"
  then show "fits_in L {} M c" by (rule fits_less) simp_all
  show "room_grows (room_map (c_store c)) (E_Post room p)"
    using c by (simp add: fits_def place_def split: option.split)
qed simp_all

lemma keeps_fits_question [keeps_rules]: "s \<noteq> St_Open \<Longrightarrow> keeps (fits_in L Q M) (set_question en room i s now)"
  unfolding set_question_def by (intro keeps_rules) simp_all

lemma keeps_fits_drop_room [keeps_rules]: "keeps (fits_in L Q M) (drop_room en room now)"
  unfolding drop_room_def by (intro keeps_rules) simp_all

subsection \<open>Members\<close>

lemma keeps_fits_join_member [keeps_rules]: "keeps (fits_in L Q M) (join_member en room agent role existing mng actor now)"
  unfolding join_member_def by (intro keeps_rules)

lemma put_member_fits:
  assumes c: "fits_in L Q M c" "room \<notin> M"
    and r: "\<And>r. bm_get (room_map (c_store c)) room = Some r \<Longrightarrow>
      bm_contains (rm_members r) agent \<or> bm_len (rm_members r) < max_members"
  shows "fits_in L Q M (fst (put_member en room agent mb actor now c))"
proof -
  have "leads (\<lambda>c1. c1 = c) (fits_in L Q M) (commit en (E_Member room agent (Some mb)))"
    unfolding leads_def using assms by (auto intro!: commit_fits split: option.split)
  then have "leads (\<lambda>c1. c1 = c) (fits_in L Q M) (put_member en room agent mb actor now)"
    unfolding put_member_def Let_def
    by (intro leads_bind [of "\<lambda>c1. c1 = c"] leads_last keeps_rules) (simp_all add: c)
  then show ?thesis by (simp add: leads_def)
qed

lemma join_room_fits:
  assumes c: "fits_in L Q {} c"
  shows "fits_in L Q {} (fst (join_room en room agent role actor now c))"
proof -
  define rest where "rest r existing = bind_op (join_member en room agent role existing (manages r actor) actor now)
      (\<lambda>fnd. case fnd of None \<Rightarrow> ret False | Some mb \<Rightarrow> put_member en room agent mb actor now)" for r existing
  have new: "fits_in L Q {} (fst (rest r None c))"
    if "bm_get (room_map (c_store c)) room = Some r" "bm_len (rm_members r) < max_members" for r
  proof -
    from that c have c: "fits_in L Q {room} c" by (simp add: fits_def place_def)
    have p: "leads (fits_in L Q {room}) (fits_in L Q {}) (put_member en room agent mb actor now)" for mb
      unfolding leads_def by (intro allI impI put_member_fits) (auto simp: fits_def place_def)
    have "leads (fits_in L Q {room}) (fits_in L Q {}) (rest r None)"
      unfolding rest_def
      by (rule leads_bind [OF keeps_fits_join_member]) (auto intro: p split: option.split elim: fits_less simp: leads_def [of _ _ "ret _"])
    with c show ?thesis by (simp add: leads_def)
  qed
  have old: "fits_in L Q {} (fst (rest r (Some mb) c))"
    if "bm_get (room_map (c_store c)) room = Some r" "bm_get (rm_members r) agent = Some mb" for r mb
    using put_member_fits [OF c, of room agent en _ actor now] that c
    by (auto simp: rest_def join_member_def bind_op_def split: option.split)
  have "fits_in L Q {} (fst (rest r (bm_get (rm_members r) agent) c))"
    if "bm_get (room_map (c_store c)) room = Some r"
      "\<not> (bm_get (rm_members r) agent = None \<and> bm_len (rm_members r) \<ge> max_members)" for r
    using new [of r] old [of r] that by (cases "bm_get (rm_members r) agent") auto
  with c show ?thesis
    unfolding join_room_def rest_def [symmetric] Let_def
    by (auto simp: bind_op_def visible_room_def open_room_def room_of_def reading_def look_def split: sum.split option.split)
qed

subsection \<open>Rooms made and changed\<close>

lemma keeps_fits_join [keeps_rules]: "keeps (fits_in L Q {}) (join_room en room agent role actor now)"
  by (rule keepsI) (rule join_room_fits)

lemma keeps_fits_leave_room [keeps_rules]: "keeps (fits_in L Q {}) (leave_room en room agent actor now)"
  unfolding leave_room_def by (intro keeps_rules) simp_all

lemma closed_rooms_held:
  assumes "rooms_fit (room_map st)" "(at, n) \<in> set (closed_rooms st)"
  shows "\<exists>r. bm_get (room_map st) n = Some r"
  using assms unfolding closed_rooms_def List.map_filter_def by (auto simp: rooms_fit_def room_fits_def)

lemma room_to_evict_Inr:
  assumes "room_to_evict c = (c', Inr evict)" "in_bounds L c"
  shows "c' = c \<and> (case evict of None \<Rightarrow> bm_len (room_map (c_store c)) < max_rooms L
     | Some n \<Rightarrow> \<exists>r. bm_get (room_map (c_store c)) n = Some r)"
proof -
  have "(at, n) \<in> set (closed_rooms (c_store c))" if "sort (closed_rooms (c_store c)) = (at, n) # rest" for at n rest
    using that by (metis list.set_intros(1) set_sort)
  with assms closed_rooms_held [of "c_store c"] show ?thesis
    by (auto simp: room_to_evict_def look_def fits_def split: if_splits list.splits prod.splits)
qed

lemma keeps_room_held:
  "keeps (\<lambda>c. in_bounds L c \<and> (\<exists>r. bm_get (room_map (c_store c)) n = Some r)) (ensure_agents en names now)"
proof (rule keepsI, elim conjE, intro conjI)
  fix c :: "'a core" assume "in_bounds L c"
  then show "in_bounds L (fst (ensure_agents en names now c))" by (rule keepsD [OF keeps_fits_ensure])
next
  fix c :: "'a core" assume r: "\<exists>r. bm_get (room_map (c_store c)) n = Some r"
  have c: "keeps (\<lambda>c. \<exists>r. bm_get (room_map (c_store c)) n = Some r) (commit en e)"
    if "e = E_Agent a now \<or> e = E_Forget a" for e a
  proof (rule keepsI)
    fix c :: "'a core" assume "\<exists>r. bm_get (room_map (c_store c)) n = Some r"
    with that commit_store [of en e c] show "\<exists>r. bm_get (room_map (c_store (fst (commit en e c)))) n = Some r"
      by (auto simp: ensure_agent_def)
  qed
  have "keeps (\<lambda>c. \<exists>r. bm_get (room_map (c_store c)) n = Some r) (ensure_agents en names now)"
    unfolding ensure_agents_def forget_one_def add_agent_def by (intro keeps_rules c) auto
  then show "\<exists>r. bm_get (room_map (c_store (fst (ensure_agents en names now c)))) n = Some r"
    using r by (rule keepsD)
qed

abbreviation spare_room :: "limits \<Rightarrow> 'j core \<Rightarrow> bool" where
  "spare_room L \<equiv> fits L {} {} 0 (Suc 0)"

lemma spare_room_iff: "spare_room L c \<longleftrightarrow> in_bounds L c \<and> bm_len (room_map (c_store c)) < max_rooms L"
  by (auto simp: fits_def)

lemma drop_room_spare:
  assumes "in_bounds L c" "bm_get (room_map (c_store c)) n = Some r" "drop_room en n now c = (c', Inr u)"
  shows "spare_room L c'"
proof -
  obtain c1 where c1: "commit en (E_DropRoom n) c = (c1, Inr ())" "c_store c' = c_store c1"
    using assms(3) by (auto simp: drop_room_def then_op_Inr bind_op_Inr)
  have "in_bounds L c'" using keepsD [OF keeps_fits_drop_room assms(1), of en n now] assms(3) by simp
  moreover have "bm_len (bm_remove n (room_map (c_store c))) < bm_len (room_map (c_store c))"
    using assms(2) bm_len_pos [OF assms(2)] by (simp add: bm_len_remove)
  moreover have "bm_len (room_map (c_store c)) \<le> max_rooms L" using assms(1) by (simp add: fits_def)
  ultimately show ?thesis
    unfolding spare_room_iff c1(2) commit_Inr(1) [OF c1(1)] by (simp add: Let_def)
qed

lemma new_room_fits: "length names \<le> max_members \<Longrightarrow> room_fits (cr_name req) ((new_room req actor names now)\<lparr>rm_open := open_index (rm_posts (new_room req actor names now))\<rparr>)"
  using bm_len_of_list [of "map (\<lambda>name. (name, \<lparr>mb_role = (if name = ac_name actor then Owner else Plain_Member),
        mb_joined = now, mb_cursor = None\<rparr>)) names"]
  by (simp add: room_fits_def new_room_def open_held_def open_index_def bm_values_def bm_empty.rep_eq bs_of_list_def bm_len_def)

lemma leads_fits_new_room:
  assumes "length names \<le> max_members"
  shows "leads (spare_room L) (in_bounds L) (commit en (E_Room (new_room req actor names now)))"
  unfolding leads_def
proof (intro allI impI)
  fix c :: "'a core" assume c: "spare_room L c"
  have "card (dom (bm_get (room_map (c_store c))) \<union> {cr_name req}) \<le> Suc (bm_len (room_map (c_store c)))"
    unfolding bm_len_dom by (simp add: card_insert_if)
  with c have "card (dom (bm_get (room_map (c_store c))) \<union> new_rooms (E_Room (new_room req actor names now))) + 0 \<le> max_rooms L"
    by (simp add: fits_def new_room_def)
  with c show "in_bounds L (fst (commit en (E_Room (new_room req actor names now)) c))"
    using new_room_fits [OF assms, of req actor now]
    by (intro keeps_fits_commit) (auto simp: fits_def new_room_def)
qed

lemma spare_less: "spare_room L c \<Longrightarrow> in_bounds L c"
  by (rule fits_less) simp_all

lemma leads_make_bounds:
  assumes "length names \<le> max_members"
  shows "keeps (in_bounds L) (make_room en req actor names now)"
proof -
  define rest where "rest = then_op (modify (emit_room ''room'' (cr_name req)
                 [(''room'', J_Str (cr_name req)), (''change'', J_Str ''created'')] now))
               (then_op (log_room en (cr_name req) (ac_name actor)
                   (if cr_topic req = [] then ''created the room'' else ''created the room: '' @ cr_topic req) now)
                 (ret True))"
  define make where "make = then_op (commit en (E_Room (new_room req actor names now))) rest"
  have rest: "keeps (in_bounds L) rest"
    unfolding rest_def by (intro keeps_rules) simp
  have make: "leads (spare_room L) (in_bounds L) make"
    unfolding make_def by (rule leads_last [OF leads_fits_new_room [OF assms] rest])
  have fresh: "leads (spare_room L) (in_bounds L) (then_op (ensure_agents en names now) (then_op (ret ()) make))"
    by (intro leads_then make keeps_rules) (blast intro: spare_less)+
  have evict: "leads (\<lambda>c. in_bounds L c \<and> (\<exists>r. bm_get (room_map (c_store c)) n = Some r)) (in_bounds L)
      (then_op (ensure_agents en names now) (then_op (drop_room en n now) make))" for n
  proof (rule leads_then [OF keeps_room_held], unfold leads_def, intro allI impI)
    fix c :: "'a core" assume c: "in_bounds L c \<and> (\<exists>r. bm_get (room_map (c_store c)) n = Some r)"
    then obtain r where r: "bm_get (room_map (c_store c)) n = Some r" by blast
    have d: "in_bounds L (fst (drop_room en n now c))" using c by (intro keepsD [OF keeps_fits_drop_room]) simp
    show "in_bounds L (fst (then_op (drop_room en n now) make c))"
    proof (cases rule: bind_op_cases [of "drop_room en n now" c "\<lambda>_. make"])
      case (fails c' e)
      with d show ?thesis by (simp add: then_op_def)
    next
      case (goes c' u)
      have "spare_room L c'" using drop_room_spare [OF _ r goes(1)] c by blast
      with make goes show ?thesis by (simp add: then_op_def leads_def)
    qed
  qed simp
  have pick: "keeps (in_bounds L) (bind_op room_to_evict (\<lambda>evict. then_op (ensure_agents en names now)
      (then_op (case evict of Some name \<Rightarrow> drop_room en name now | None \<Rightarrow> ret ()) make)))" (is "keeps _ (bind_op _ ?f)")
  proof (rule keepsI)
    fix c :: "'a core" assume c: "in_bounds L c"
    show "in_bounds L (fst (bind_op room_to_evict ?f c))"
    proof (cases rule: bind_op_cases [of room_to_evict c ?f])
      case (fails c' e)
      with keepsD [OF keeps_room_to_evict [of "in_bounds L"] c] show ?thesis by simp
    next
      case (goes c' evict)
      from room_to_evict_Inr [OF goes(1) c] goes(2) c fresh evict show ?thesis
        by (cases evict) (auto simp: leads_def spare_room_iff)
    qed
  qed
  show ?thesis
    unfolding make_room_def by (intro keeps_then keeps_admit_room) (rule pick [unfolded make_def rest_def])
qed

lemma keeps_fits_create_room [keeps_rules]: "keeps (in_bounds L) (create_room en req actor now)"
  unfolding create_room_def Let_def by (intro keeps_rules leads_make_bounds) simp_all

lemma keeps_fits_update_room [keeps_rules]: "keeps (fits_in L Q {}) (update_room_op en room topic closed actor now)"
  unfolding update_room_op_def reopen_room_def set_topic_def close_room_def by (intro keeps_rules) simp_all

lemma keeps_fits_delete_room [keeps_rules]: "keeps (fits_in L Q {}) (delete_room en room actor now)"
  unfolding delete_room_def by (intro keeps_rules)

subsection \<open>Posts, answers and boards\<close>

lemma leads_put_post:
  "leads (fits_in L {room} {}) (in_bounds L) (bind_op (put_post_op en room p now) (\<lambda>p. ret (p, True)))"
proof (unfold leads_def, intro allI impI)
  fix c :: "'a core" assume c: "fits_in L {room} {} c"
  have "leads (fits_in L {room} {}) (in_bounds L) (then_op (append_post en room x now) (ret x))" for x
    by (rule leads_last [OF leads_fits_append]) (intro keeps_rules)
  with c have "in_bounds L (fst (put_post_op en room p now c))"
    by (simp add: put_post_op_def look_def Let_def leads_def)
  then show "in_bounds L (fst (bind_op (put_post_op en room p now) (\<lambda>p. ret (p, True)) c))"
    by (cases rule: bind_op_cases [of "put_post_op en room p now" c "\<lambda>p. ret (p, True)"]) simp_all
qed

lemma put_plain_fits:
  assumes "\<And>i. \<not> is_open_question (p i)"
  shows "keeps (fits_in L Q {}) (put_post_op en room p now)"
proof -
  have "keeps (fits_in L Q {}) (append_post en room x now)" if "\<not> is_open_question x" for x
    unfolding append_post_alt
    by (intro keeps_then keeps_fits_append_rest keepsI commit_fits) (simp_all add: that split: option.split)
  then show ?thesis unfolding put_post_op_def Let_def using assms by (intro keeps_rules) auto
qed

lemma admit_question_Inr:
  assumes "admit_question r a actor c = (c', Inr u)"
  shows "c' = c \<and> length (open_questions r) < max_open_questions"
proof -
  have k: "each_op require_known xs c = (c1, Inr u) \<Longrightarrow> c1 = c" for xs c1 u
  proof -
    have "keeps (\<lambda>x. x = c) (each_op require_known xs)" by (intro keeps_rules)
    then show "each_op require_known xs c = (c1, Inr u) \<Longrightarrow> c1 = c" using keepsD [of "\<lambda>x. x = c" _ c] by fastforce
  qed
  from assms show ?thesis
    by (auto simp: admit_question_def Let_def then_op_Inr split: option.splits if_splits dest!: k)
qed

lemma open_questions_all: "open_held r \<Longrightarrow> length (open_questions r) = bm_len (rm_open r)"
proof -
  assume o: "open_held r"
  have "length (concat (map (\<lambda>i. case bm_get (rm_posts r) i of Some p \<Rightarrow> [p] | None \<Rightarrow> []) xs)) = length xs"
    if "\<forall>i \<in> set xs. bm_contains (rm_posts r) i" for xs
    using that by (induction xs) (auto simp: bm_contains_def)
  from this [of "bs_list (rm_open r)"] o show ?thesis
    by (simp add: open_questions_def open_held_def)
qed

lemma leads_weaken: "keeps P m \<Longrightarrow> (\<And>c. P c \<Longrightarrow> R c) \<Longrightarrow> leads P R m"
  by (simp add: leads_def keeps_def)

lemma keeps_fits_post [keeps_rules]: "keeps (in_bounds L) (post_op en req actor now)"
proof -
  let ?n = "po_room req"
  define rest where "rest r about a = (let names = joining r actor a in
        if bm_len (rm_members r) + length names > max_members then
          refuse (Full (''room '' @ quoted (po_room req) @ '' is full ('' @ show_nat max_members @ '' members)''))
        else
          then_op (ensure_agents en names now)
            (then_op (each_op (\<lambda>name. then_op
                (join_room en (po_room req) name None (if name = ac_name actor then actor else inviter actor) now) (ret ())) names)
              (bind_op (put_post_op en (po_room req) (\<lambda>i. new_post req actor about a i now) now) (\<lambda>p. ret (p, True)))))"
    for r about a
  have plain: "keeps (in_bounds L) (rest r about None)" for r about
    unfolding rest_def Let_def
    by (intro keeps_rules put_plain_fits) (simp add: is_open_question_def new_post_def)
  have asked: "leads (fits_in L {?n} {}) (in_bounds L) (rest r about a)" for r about a
    unfolding rest_def Let_def
    by (auto intro!: leads_then leads_put_post keeps_rules elim: fits_less simp: leads_def [of _ _ "refuse _"])
  have new: "in_bounds L (fst (post_new en req actor r about a now c))"
    if c: "in_bounds L c" "bm_get (room_map (c_store c)) ?n = Some r" for r about a and c :: "'a core"
  proof (cases a)
    case None
    then show ?thesis using keepsD [OF plain c(1)] by (simp add: post_new_def rest_def [symmetric] then_op_def bind_op_def)
  next
    case (Some k)
    let ?m = "admit_question r k actor"
    have o: "open_held r" using c by (auto simp: fits_def rooms_fit_def room_fits_def)
    have "keeps (in_bounds L) ?m" by (rule keeps_admit_question)
    note m = keepsD [OF this c(1)]
    show ?thesis
    proof (cases rule: bind_op_cases [of ?m c "\<lambda>_. rest r about a"])
      case (fails c' e)
      with m Some show ?thesis by (simp add: post_new_def rest_def [symmetric] then_op_def)
    next
      case (goes c' u)
      from admit_question_Inr [OF goes(1)] o c have "fits_in L {?n} {} c'"
        by (simp add: fits_def place_def open_questions_all)
      with asked [of r about a] goes Some show ?thesis by (simp add: post_new_def rest_def [symmetric] then_op_def leads_def)
    qed
  qed
  show ?thesis
  proof (rule keepsI)
    fix c :: "'a core" assume c: "in_bounds L c"
    show "in_bounds L (fst (post_op en req actor now c))"
      using c new [OF c] unfolding post_op_def
      by (auto simp: bind_op_def then_op_def visible_room_def open_room_def room_of_def reading_def look_def room_to_grow_def
          split: sum.split option.split)
  qed
qed

lemma keeps_fits_resolve [keeps_rules]: "keeps (fits_in L Q {}) (resolve en req now)"
  unfolding resolve_def Let_def by (intro keeps_rules) simp_all

lemma keeps_fits_answer [keeps_rules]: "keeps (fits_in L Q {}) (answer_op en req actor now)"
proof -
  have "keeps (fits_in L Q {}) (put_post_op en room (\<lambda>i. new_answer req actor body about ch i now) now)" for room body about ch
    by (rule put_plain_fits) (simp add: is_open_question_def new_answer_def)
  then show ?thesis unfolding answer_op_def by (intro keeps_rules)
qed

lemma keeps_fits_withdraw [keeps_rules]: "keeps (fits_in L Q {}) (withdraw en room i actor now)"
  unfolding withdraw_def by (intro keeps_rules) simp_all

lemma keeps_fits_read_room [keeps_rules]: "keeps (fits_in L Q {}) (read_room en room agent limit)"
  unfolding read_room_def Let_def
  by (intro keeps_rules; simp)

lemma put_board_fits:
  assumes c: "fits_in L Q {} c"
    and r: "\<And>r e. entry = Some e \<Longrightarrow> bm_get (room_map (c_store c)) room = Some r \<Longrightarrow>
      bm_contains (rm_board r) key \<or> bm_len (rm_board r) < max_board_keys"
  shows "fits_in L Q {} (fst (put_board en room key entry body actor now c))"
proof -
  have "room_grows (room_map (c_store c)) (E_Board room key entry)"
    using r by (cases entry) (auto split: option.split)
  then have "leads (\<lambda>c1. c1 = c) (fits_in L Q {}) (commit en (E_Board room key entry))"
    unfolding leads_def using c by (auto intro!: commit_fits)
  then have "leads (\<lambda>c1. c1 = c) (fits_in L Q {}) (put_board en room key entry body actor now)"
    unfolding put_board_def by (intro leads_last keeps_rules) simp_all
  then show ?thesis by (simp add: leads_def)
qed

lemma keeps_fits_board_set [keeps_rules]: "keeps (fits_in L Q {}) (board_set en room key value expect actor now)"
proof (rule keepsI)
  fix c :: "'a core" assume c: "fits_in L Q {} c"
  have b: "fits_in L Q {} (fst (put_board en room key entry body actor now c))"
    if "bm_get (room_map (c_store c)) room = Some r" "board_judge room key value expect (ac_name actor) now r = Inr (Board_Put entry body)"
    for r entry body
    using that by (intro put_board_fits [OF c]) (auto simp: board_judge_def Let_def split: if_splits option.splits)
  show "fits_in L Q {} (fst (board_set en room key value expect actor now c))"
    using c b unfolding board_set_def
    by (auto simp: bind_op_def then_op_def visible_room_def open_room_def room_of_def reading_def look_def room_to_grow_def
        split: sum.split option.split board_change.split)
qed

subsection \<open>The sweep and the whole broker\<close>

lemma keeps_fits_sweep_rooms [keeps_rules]: "keeps (fits_in L Q {}) (sweep_rooms en now)"
  unfolding sweep_rooms_def by (intro keeps_rules) simp_all

lemma fits_besides:
  "fits L Q M k j c \<Longrightarrow> c_limits c' = c_limits c \<Longrightarrow> room_map (c_store c') = room_map (c_store c) \<Longrightarrow>
   agents (c_store c') = agents (c_store c) \<Longrightarrow> fits L Q M k j c'"
  unfolding fits_def using names_same [of "c_store c'" "c_store c"] by simp

lemma keeps_fits_expire_db [keeps_rules]: "keeps (fits_in L Q M) (expire_db en now)"
proof (rule keepsI)
  fix c :: "'a core" assume c: "fits_in L Q M c"
  show "fits_in L Q M (fst (expire_db en now c))"
    by (rule fits_besides [OF c]) (simp_all add: expire_db_def look_def Let_def then_op_def bind_op_def split: prod.split)
qed

lemma keeps_fits_sweep_due [keeps_rules]: "keeps (fits_in L Q M) (sweep_due en now)"
  unfolding sweep_due_def Let_def by (intro keeps_rules) simp_all

lemma sweep_sessions_fits: "fits_in L Q M c \<Longrightarrow> fits_in L Q M (sweep_sessions now c)"
proof -
  have e: "fits_in L Q M c \<Longrightarrow> fits_in L Q M (end_session now s c)" for s and c :: "'a core"
  proof -
    assume c: "fits_in L Q M c"
    have "fits_in L Q M (with_store (\<lambda>st. st\<lparr>sessions := bm_remove i (sessions st)\<rparr>) c)" for i
      by (rule fits_besides [OF c]) (simp_all add: with_store_def)
    then show ?thesis by (simp add: end_session_def Let_def split: prod.split)
  qed
  have "fits_in L Q M c \<Longrightarrow> fits_in L Q M (fold (end_session now) ss c)" for ss and c :: "'a core"
    by (induction ss arbitrary: c) (simp_all add: e)
  then show "fits_in L Q M c \<Longrightarrow> fits_in L Q M (sweep_sessions now c)" by (simp add: sweep_sessions_def)
qed

lemma keeps_fits_sweep [keeps_rules]: "keeps (fits_in L Q {}) (sweep en now)"
  unfolding sweep_def sweep_broadcasts_def Let_def by (intro keeps_rules) (simp_all add: sweep_sessions_fits)

lemma broker_op_bounds: "broker_op cd c c' \<Longrightarrow> in_bounds L c \<Longrightarrow> in_bounds L c'"
proof (erule broker_op.cases, goal_cases)
  case (24 c c')
  then show ?case by (auto simp: same_data_def intro: fits_besides)
qed (simp_all add: leave_fits, auto intro!: keepsD keeps_rules)

lemma core_new_bounds: "in_bounds lim (core_new store_default lim journal now)"
  by (simp add: fits_def core_new_def store_default_def named_def rooms_fit_def agent_names_def bm_len_card captured_new_def)

interpretation bounds_inv: invariant_of "core_new store_default lim journal now" "broker_op cd" "in_bounds lim"
  for lim journal now cd
  by unfold_locales (simp_all add: core_new_bounds broker_op_bounds)

text \<open>
  C11: Whatever operations run on a new broker, failures included, it stays within its limits:
  at most \<open>max_agents\<close> agents and \<open>max_rooms\<close> rooms, and in every room at most 256 members,
  256 keys on the board and 128 open questions.
\<close>

theorem broker_stays_within_limits:
  assumes "reaches (core_new store_default lim journal now) (broker_op cd) c"
  shows "bm_len (agents (c_store c)) \<le> max_agents lim \<and> bm_len (room_map (c_store c)) \<le> max_rooms lim \<and>
    (\<forall>n r. bm_get (room_map (c_store c)) n = Some r \<longrightarrow>
       bm_len (rm_members r) \<le> 256 \<and> bm_len (rm_board r) \<le> 256 \<and> length (open_questions r) \<le> 128)"
proof -
  have b: "in_bounds lim c" by (rule bounds_inv.inv_reaches [OF assms])
  have "bm_len (rm_members r) \<le> 256 \<and> bm_len (rm_board r) \<le> 256 \<and> length (open_questions r) \<le> 128"
    if r: "bm_get (room_map (c_store c)) n = Some r" for n r
  proof -
    have "room_fits n r" using b r unfolding fits_def rooms_fit_def by blast
    then show ?thesis
      by (simp add: room_fits_def open_questions_all max_members_def max_board_keys_def max_open_questions_def)
  qed
  with b show ?thesis by (simp add: fits_def agents_card)
qed

definition sample_room_request :: create_request where
  "sample_room_request = \<lparr>cr_name = ''lab'', cr_topic = [], cr_private = True, cr_members = [''b''], cr_join = False\<rparr>"

definition sample_actor :: "str \<Rightarrow> actor" where
  "sample_actor n = \<lparr>ac_name = n, ac_admin = False, ac_strict = False\<rparr>"

definition made_core :: "unit core" where
  "made_core = fst (create_room sample_env sample_room_request (sample_actor ''a'') 40 (core_new store_default limits_default None 5))"

lemma made_core_reaches: "reaches (core_new store_default limits_default None 5) (broker_op sample_codec) made_core"
  unfolding made_core_def by (intro reaches_step [OF reaches_start] run_create_room) (simp add: sample_env_def)

theorem broker_stays_within_limits_witness:
  "bm_len (agents (c_store made_core)) \<le> 1000 \<and> bm_len (room_map (c_store made_core)) \<le> max_rooms limits_default"
  using broker_stays_within_limits [OF made_core_reaches] by (simp add: limits_default_def)

end
