(* ===== verification/Private_Rooms.thy ===== *)
theory Private_Rooms
  imports Room_Limits
begin

text \<open>
  What a private room promises: it gets no member that was not invited, and an outsider learns and
  changes nothing.
\<close>

subsection \<open>Private rooms\<close>

text \<open>A private room whose members are all of \<open>K\<close> and that \<open>a\<close> does not own.\<close>

definition sealed :: "str \<Rightarrow> str set \<Rightarrow> str \<Rightarrow> 'j core \<Rightarrow> bool" where
  "sealed n K a c \<longleftrightarrow> (\<forall>r. bm_get (room_map (c_store c)) n = Some r \<longrightarrow>
     rm_private r \<and> set (bm_keys (rm_members r)) \<subseteq> K \<and> \<not> is_owner r a)"

fun seals :: "str \<Rightarrow> effect \<Rightarrow> bool" where
  "seals n (E_Room r) \<longleftrightarrow> rm_name r \<noteq> n"
| "seals n (E_Member m b (Some mb)) \<longleftrightarrow> m \<noteq> n"
| "seals n (E_Rename frm to) \<longleftrightarrow> False"
| "seals n _ \<longleftrightarrow> True"

definition seal :: "str set \<Rightarrow> str \<Rightarrow> room \<Rightarrow> bool" where
  "seal K a r \<longleftrightarrow> rm_private r \<and> set (bm_keys (rm_members r)) \<subseteq> K \<and> \<not> is_owner r a"

lemma sealed_alt: "sealed n K a c \<longleftrightarrow> (\<forall>r. bm_get (room_map (c_store c)) n = Some r \<longrightarrow> seal K a r)"
  by (simp add: sealed_def seal_def)

lemma seal_frame:
  "rm_private r' = rm_private r \<Longrightarrow> rm_members r' = rm_members r \<Longrightarrow> seal K a r' = seal K a r"
  by (simp add: seal_def is_owner_def)

lemma seal_remove: "seal K a r \<Longrightarrow> seal K a (r\<lparr>rm_members := bm_remove b (rm_members r)\<rparr>)"
  by (auto simp: seal_def is_owner_def split: option.splits if_splits)

lemma seal_cursor: "seal K a r \<Longrightarrow> seal K a (r\<lparr>rm_members := bm_update b (\<lambda>m. m\<lparr>mb_cursor := i\<rparr>) (rm_members r)\<rparr>)"
  by (auto simp: seal_def is_owner_def subset_iff split: option.splits if_splits)

lemma drop_posts_seal: "seal K a (fst (fold (drop_post n) ids (r, ks))) = seal K a r"
proof -
  have "rm_private (fst (fold (drop_post n) ids (r, ks))) = rm_private r \<and>
      rm_members (fst (fold (drop_post n) ids (r, ks))) = rm_members r"
  proof (induction ids arbitrary: r ks)
    case (Cons i ids)
    have "rm_private (fst (drop_post n i (r, ks))) = rm_private r \<and> rm_members (fst (drop_post n i (r, ks))) = rm_members r"
      by (simp add: drop_post_def Let_def split: option.split)
    with Cons [of "fst (drop_post n i (r, ks))" "snd (drop_post n i (r, ks))"] show ?case by simp
  qed simp
  then show ?thesis by (intro seal_frame) simp_all
qed

lemma effect_seal:
  assumes "\<forall>r. bm_get (room_map st) n = Some r \<longrightarrow> seal K a r" "seals n e"
  shows "\<forall>r. bm_get (room_map (apply_effect cd e st)) n = Some r \<longrightarrow> seal K a r"
  using assms
proof (induction cd e st rule: apply_effect.induct)
  case (5 cd ids st)
  then show ?case using removes_frame [of cd ids st] by simp
next
  case (7 cd ids st)
  then show ?case using drop_broadcasts_frame [of ids st] by simp
next
  case (10 cd name st)
  then show ?case by (auto simp: seal_remove)
next
  case (12 cd room name mb st)
  then show ?case by (cases mb) (auto simp: seal_remove)
next
  case (13 cd room name i st)
  then show ?case by (auto simp: seal_cursor)
next
  case (14 cd room p st)
  have "seal K a (put_post p r) = seal K a r" for r by (rule seal_frame) (simp_all add: put_post_def)
  with 14 show ?case by auto
next
  case (15 cd room i s at st)
  have "seal K a (set_status i s at r) = seal K a r" for r
    by (rule seal_frame) (simp_all add: set_status_def Let_def split: option.split)
  with 15 show ?case by auto
next
  case (16 cd name ids st)
  have R: "room_map (apply_drop_posts cd name ids st) =
      bm_update name (\<lambda>r. fst (fold (drop_post name) ids (r, post_keys st))) (room_map st)"
    by (simp add: apply_drop_posts_def Let_def)
  from 16 show ?case unfolding apply_effect.simps R by (auto simp: drop_posts_seal)
next
  case (17 cd room topic st)
  have "seal K a (r\<lparr>rm_topic := topic\<rparr>) = seal K a r" for r by (rule seal_frame) simp_all
  with 17 show ?case by auto
next
  case (18 cd room at st)
  have "seal K a (r\<lparr>rm_closed := at\<rparr>) = seal K a r" for r by (rule seal_frame) simp_all
  with 18 show ?case by auto
next
  case (19 cd room key e st)
  have "seal K a (r\<lparr>rm_board := b\<rparr>) = seal K a r" for r b by (rule seal_frame) simp_all
  with 19 show ?case by auto
next
  case (20 cd room st)
  then show ?case by (auto simp: Let_def)
qed (simp_all add: Let_def split: option.split)

lemma sealed_frame [simp]:
  "sealed n K a (emit e ns d now c) = sealed n K a c" "sealed n K a (wake t c) = sealed n K a c"
  "sealed n K a (hand_over_core m c) = sealed n K a c" "sealed n K a (emit_room e r d now c) = sealed n K a c"
  by (simp_all add: sealed_def)

lemma keeps_sealed_commit [keeps_rules]: "seals n e \<Longrightarrow> keeps (sealed n K a) (commit en e)"
proof (rule keepsI)
  fix c :: "'a core" assume "seals n e" "sealed n K a c"
  then have "\<forall>r. bm_get (room_map (apply_effect (en_codec en) e (c_store c))) n = Some r \<longrightarrow> seal K a r"
    by (intro effect_seal) (simp_all add: sealed_alt)
  with \<open>sealed n K a c\<close> commit_store [of en e c]
  show "sealed n K a (fst (commit en e c))" unfolding sealed_alt by metis
qed

lemma keeps_sealed_parts [keeps_rules]:
  "keeps (sealed n K a) (ensure_agents en names now)" "keeps (sealed n K a) (trim_room en room)"
  "keeps (sealed n K a) (set_question en room i s now)" "keeps (sealed n K a) (drop_room en room now)"
  unfolding ensure_agents_def forget_one_def add_agent_def trim_room_def set_question_def drop_room_def Let_def
  by (intro keeps_rules; simp)+

lemma keeps_sealed_append [keeps_rules]: "keeps (sealed n K a) (append_post en room p now)"
  unfolding append_post_def by (intro keeps_rules) simp_all

lemma keeps_sealed_log [keeps_rules]: "keeps (sealed n K a) (log_room en room frm body now)"
  unfolding log_room_def by (intro keeps_rules)

lemma keeps_sealed_put_post [keeps_rules]: "keeps (sealed n K a) (put_post_op en room p now)"
  unfolding put_post_op_def Let_def by (intro keeps_rules)

lemma keeps_sealed_put_member [keeps_rules]: "room \<noteq> n \<Longrightarrow> keeps (sealed n K a) (put_member en room agent mb actor now)"
  unfolding put_member_def Let_def by (intro keeps_rules) simp_all

lemma keeps_sealed_join_member [keeps_rules]: "keeps (sealed n K a) (join_member en room agent role existing mng actor now)"
  unfolding join_member_def by (intro keeps_rules)

lemma keeps_sealed_join_other: "room \<noteq> n \<Longrightarrow> keeps (sealed n K a) (join_room en room agent role actor now)"
  unfolding join_room_def Let_def by (intro keeps_rules)

text \<open>Who does not manage the room adds nobody to it and changes no role in it.\<close>

lemma join_sealed:
  assumes "sealed n K a c" "ac_name actor = a" "\<not> ac_admin actor"
  shows "c_store (fst (join_room en n agent role actor now c)) = c_store c"
proof -
  have m: "\<not> manages r actor \<and> rm_private r" if "bm_get (room_map (c_store c)) n = Some r" for r
    using assms that by (simp add: sealed_def manages_def)
  show ?thesis
  proof (cases "bm_get (room_map (c_store c)) n")
    case None
    then show ?thesis by (simp add: join_room_def bind_op_def visible_room_def room_of_def reading_def look_def)
  next
    case (Some r)
    with m have "\<not> manages r actor" "rm_private r" by simp_all
    note facts = this Some join_room_def bind_op_def visible_room_def open_room_def room_of_def reading_def look_def
    show ?thesis
    proof (cases "bm_get (rm_members r) agent")
      case None
      with facts(1,2,3) show ?thesis by (cases role) (simp_all add: facts)
    next
      case (Some mb)
      with facts(1,2,3) show ?thesis
        by (cases "agent = ac_name actor"; cases role) (simp_all add: facts join_member_def Let_def)
    qed
  qed
qed

lemma sealed_store: "c_store c' = c_store c \<Longrightarrow> sealed n K a c' = sealed n K a c"
  by (simp add: sealed_def)

lemma keeps_sealed_join [keeps_rules]:
  assumes "ac_name actor = a" "\<not> ac_admin actor"
  shows "keeps (sealed n K a) (join_room en room agent role actor now)"
proof (cases "room = n")
  case True
  show ?thesis
    unfolding True by (rule keepsI) (simp add: sealed_store [OF join_sealed] assms)
qed (rule keeps_sealed_join_other)

lemma keeps_sealed_leave_room [keeps_rules]: "keeps (sealed n K a) (leave_room en room agent actor now)"
  unfolding leave_room_def by (intro keeps_rules) simp_all

lemma keeps_sealed_update_room [keeps_rules]: "keeps (sealed n K a) (update_room_op en room topic closed actor now)"
  unfolding update_room_op_def reopen_room_def set_topic_def close_room_def by (intro keeps_rules) simp_all

lemma keeps_sealed_delete_room [keeps_rules]: "keeps (sealed n K a) (delete_room en room actor now)"
  unfolding delete_room_def by (intro keeps_rules)

lemma keeps_sealed_withdraw [keeps_rules]: "keeps (sealed n K a) (withdraw en room i actor now)"
  unfolding withdraw_def by (intro keeps_rules)

lemma keeps_sealed_answer [keeps_rules]:
  "ac_name actor = a \<Longrightarrow> \<not> ac_admin actor \<Longrightarrow> keeps (sealed n K a) (answer_op en req actor now)"
  unfolding answer_op_def resolve_def Let_def by (intro keeps_rules)

lemma keeps_sealed_board_set [keeps_rules]: "keeps (sealed n K a) (board_set en room key value expect actor now)"
  unfolding board_set_def put_board_def
  by (intro keeps_rules) (auto intro!: keeps_rules split: board_change.split)

lemma keeps_sealed_make_room: "cr_name req \<noteq> n \<Longrightarrow> keeps (sealed n K a) (make_room en req actor names now)"
  unfolding make_room_def by (intro keeps_rules) (simp_all add: new_room_def)

lemma create_known:
  "bm_contains (room_map (c_store c)) (cr_name req) \<Longrightarrow> fst (create_room en req actor now c) = c \<or>
   fst (create_room en req actor now c) = fst (then_op (join_room en (cr_name req) (ac_name actor) None actor now) (ret False) c)"
  by (cases "over_memory en c") (simp_all add: create_room_def room_to_grow_def then_op_def [of "look _"] bind_op_def look_def)

lemma create_room_sealed:
  assumes "sealed n K a c" "bm_contains (room_map (c_store c)) n" "ac_name actor = a" "\<not> ac_admin actor"
  shows "sealed n K a (fst (create_room en req actor now c))"
proof (cases "cr_name req = n")
  case True
  have "keeps (sealed n K a) (then_op (join_room en n a None actor now) (ret False))"
    using assms(3,4) by (intro keeps_rules)
  from keepsD [OF this assms(1)] create_known [of c req en actor now] True assms show ?thesis by auto
next
  case False
  have "keeps (sealed n K a) (create_room en req actor now)"
    unfolding create_room_def Let_def using assms(3,4) False by (intro keeps_rules keeps_sealed_make_room)
  then show ?thesis using assms(1) by (rule keepsD)
qed

lemma post_sealed:
  fixes c :: "'a core"
  assumes c: "sealed n K a c" and a: "ac_name actor = a" "\<not> ac_admin actor"
  shows "sealed n K a (fst (post_op en req actor now c))"
proof -
  have new: "sealed n K a (fst (post_new en req actor r about k now c))"
    if r: "bm_get (room_map (c_store c)) (po_room req) = Some r" "rm_private r \<longrightarrow> bm_contains (rm_members r) a" for r about k
  proof (cases "po_room req = n")
    case False
    have "keeps (sealed n K a) (post_new en req actor r about k now)"
      unfolding post_new_def Let_def using False by (intro keeps_rules keeps_sealed_join_other)
    then show ?thesis using c by (rule keepsD)
  next
    case True
    define m :: "('a, unit) op" where "m = (case k of Some a \<Rightarrow> admit_question r a actor | None \<Rightarrow> ret ())"
    define rest :: "('a, post \<times> bool) op" where "rest = (let names = joining r actor k in
        if bm_len (rm_members r) + length names > max_members then
          refuse (Full (''room '' @ quoted (po_room req) @ '' is full ('' @ show_nat max_members @ '' members)''))
        else
          then_op (ensure_agents en names now)
            (then_op (each_op (\<lambda>name. then_op
                (join_room en (po_room req) name None (if name = ac_name actor then actor else inviter actor) now) (ret ())) names)
              (bind_op (put_post_op en (po_room req) (\<lambda>i. new_post req actor about k i now) now) (\<lambda>p. ret (p, True)))))"
    have p: "rm_private r" "\<not> manages r actor"
      using c r True a by (auto simp: sealed_def manages_def)
    have nobody: "joining r actor k = []" if "m c = (c', Inr u)" for c' u
    proof -
      have "\<forall>name \<in> set (ask_to x). bm_contains (rm_members r) name" if "k = Some x" for x
      proof -
        from \<open>m c = (c', Inr u)\<close> that have "admit_question r x actor c = (c', Inr u)" by (simp add: m_def)
        then have "List.find (\<lambda>n. \<not> bm_contains (rm_members r) n) (ask_to x) = None"
          using p by (auto simp: admit_question_def Let_def split: option.splits)
        then show ?thesis by (simp add: find_None_iff)
      qed
      then show ?thesis using r p a by (cases k) (auto simp: joining_def)
    qed
    have m: "keeps (sealed n K a) m" unfolding m_def by (intro keeps_rules)
    have rest: "keeps (sealed n K a) rest" if "joining r actor k = []"
      unfolding rest_def Let_def that each_op.simps by (intro keeps_rules)
    have "sealed n K a (fst (then_op m rest c))"
    proof (cases rule: bind_op_cases [of m c "\<lambda>_. rest"])
      case (fails c' e)
      with keepsD [OF m c] show ?thesis by (simp add: then_op_def)
    next
      case (goes c' u)
      with keepsD [OF m c] keepsD [OF rest [OF nobody [OF goes(1)]], of c'] show ?thesis by (simp add: then_op_def)
    qed
    then show ?thesis by (simp add: post_new_def m_def rest_def)
  qed
  show ?thesis
    using c a new unfolding post_op_def
    by (auto simp: bind_op_def then_op_def visible_room_def open_room_def room_of_def reading_def look_def room_to_grow_def
        split: sum.split option.split)
qed

text \<open>What an actor can ask of the rooms.\<close>

inductive room_act :: "'j env \<Rightarrow> actor \<Rightarrow> u64 \<Rightarrow> 'j core \<Rightarrow> 'j core \<Rightarrow> bool" for en actor now c where
  act_create: "room_act en actor now c (fst (create_room en creq actor now c))"
| act_join: "room_act en actor now c (fst (join_room en room agent role actor now c))"
| act_leave: "room_act en actor now c (fst (leave_room en room agent actor now c))"
| act_update: "room_act en actor now c (fst (update_room_op en room heading closed actor now c))"
| act_delete: "room_act en actor now c (fst (delete_room en room actor now c))"
| act_post: "room_act en actor now c (fst (post_op en preq actor now c))"
| act_answer: "room_act en actor now c (fst (answer_op en areq actor now c))"
| act_withdraw: "room_act en actor now c (fst (withdraw en room i actor now c))"
| act_board: "room_act en actor now c (fst (board_set en room key v expect actor now c))"

text \<open>
  C12: Nobody enters a private room uninvited: whatever an actor that does not own it and is
  no admin asks of any room, by creating, joining, posting, asking or answering, a private
  room has no member afterwards that it did not have before.
\<close>

theorem private_rooms_by_invitation:
  assumes "room_act en actor now c c'" and r: "bm_get (room_map (c_store c)) n = Some r" "rm_private r" "\<not> manages r actor"
    and r': "bm_get (room_map (c_store c')) n = Some r'"
  shows "rm_private r' \<and> set (bm_keys (rm_members r')) \<subseteq> set (bm_keys (rm_members r))"
proof -
  let ?K = "set (bm_keys (rm_members r))" and ?a = "ac_name actor"
  have s: "sealed n ?K ?a c" and a: "\<not> ac_admin actor" using r by (simp_all add: sealed_def manages_def)
  from assms(1) have "sealed n ?K ?a c'"
  proof cases
    case (act_create creq)
    then show ?thesis using create_room_sealed [OF s _ refl a] r by simp
  next
    case (act_post preq)
    then show ?thesis using post_sealed [OF s refl a] by simp
  qed (simp_all, (rule keepsD [where P = "sealed n ?K ?a", OF _ s], intro keeps_rules refl a)+)
  with r' show ?thesis by (simp add: sealed_def)
qed

text \<open>In the private room \<open>lab\<close> of \<open>a\<close> and \<open>b\<close>, a post of \<open>b\<close> with a question for \<open>c\<close>.\<close>

definition lab_member :: "role \<Rightarrow> member" where
  "lab_member ro = \<lparr>mb_role = ro, mb_joined = 2, mb_cursor = None\<rparr>"

definition lab_room :: room where
  "lab_room = \<lparr>rm_name = ''lab'', rm_topic = [], rm_created = 2, rm_created_by = ''a'', rm_private = True, rm_closed = None,
     rm_members = bm_of_list [(''a'', lab_member Owner), (''b'', lab_member Plain_Member)], rm_board = bm_empty,
     rm_posts = bm_empty, rm_open = bm_empty\<rparr>"

definition lab_store :: store where
  "lab_store = apply_effects sample_codec [E_Agent ''a'' 1, E_Agent ''b'' 1, E_Room lab_room] store_default"

definition lab_core :: "unit core" where
  "lab_core = core_new lab_store limits_default None 5"

lemma lab_core_room: "bm_get (room_map (c_store lab_core)) ''lab'' = Some lab_room"
  by (simp add: lab_core_def core_new_def lab_store_def apply_effects_def lab_room_def open_index_def bm_values_def
      bm_empty.rep_eq bs_of_list_def)

definition sample_question :: post_request where
  "sample_question = \<lparr>po_room = ''lab'', po_body = ''go?'', po_reply_to = None, po_about = None, po_key = None,
     po_ask = Some \<lparr>ar_to = [''c''], ar_options = [], ar_ttl = None\<rparr>\<rparr>"

lemma lab_question: "fst (post_op sample_env sample_question (sample_actor ''b'') 50 lab_core) = lab_core"
  using lab_core_room
  by (simp add: post_op_def then_op_def bind_op_def visible_room_def open_room_def room_of_def reading_def look_def room_to_grow_def
      sample_env_def sample_actor_def sample_question_def lab_room_def over_memory_def post_parent_def ask_of_def new_ask_def
      post_new_def admit_question_def manages_def is_owner_def room_is_open_def lab_member_def max_addressees_def max_options_def
      Let_def add_once_def)

theorem private_rooms_by_invitation_witness:
  "room_act sample_env (sample_actor ''b'') 50 lab_core lab_core \<and> \<not> manages lab_room (sample_actor ''b'') \<and>
   rm_private lab_room \<and> set (bm_keys (rm_members lab_room)) \<subseteq> set (bm_keys (rm_members lab_room))"
proof -
  have a: "room_act sample_env (sample_actor ''b'') 50 lab_core lab_core"
    using act_post [of sample_env "sample_actor ''b''" 50 lab_core sample_question] by (simp only: lab_question)
  have m: "rm_private lab_room" "\<not> manages lab_room (sample_actor ''b'')"
    by (simp_all add: lab_room_def manages_def sample_actor_def is_owner_def lab_member_def)
  from private_rooms_by_invitation [OF a lab_core_room m lab_core_room] a m show ?thesis by blast
qed

subsection \<open>Outsiders\<close>

definition outsider :: "str \<Rightarrow> actor \<Rightarrow> store \<Rightarrow> bool" where
  "outsider n actor st \<longleftrightarrow> \<not> ac_admin actor \<and>
     (case bm_get (room_map st) n of Some r \<Rightarrow> rm_private r \<and> \<not> bm_contains (rm_members r) (ac_name actor) | None \<Rightarrow> False)"

definition shut_out :: "str \<Rightarrow> error" where
  "shut_out n = Forbidden (''room '' @ quoted n @ '' is private to its members; an owner has to add you'')"

lemma outsider_visible: "outsider n actor st \<Longrightarrow> visible_room n actor st = Inl (shut_out n)"
  by (auto simp: outsider_def shut_out_def visible_room_def room_of_def split: option.splits)

lemma outsider_reading [simp]: "outsider n actor (c_store c) \<Longrightarrow> reading (visible_room n actor) c = (c, Inl (Refused (shut_out n)))"
  by (simp add: reading_def look_def outsider_visible)

lemma values_removed:
  assumes "\<And>r. bm_get m n = Some r \<Longrightarrow> \<not> P r"
  shows "filter P (bm_values (bm_remove n m)) = filter P (bm_values m)"
proof -
  have "\<forall>(k, v) \<in> set (bm_entries m). k = n \<longrightarrow> \<not> P v" using assms by (auto simp: in_entries)
  then have "filter P (map snd (filter (\<lambda>(k, v). k \<noteq> n) xs)) = filter P (map snd xs)" if "set xs \<subseteq> set (bm_entries m)" for xs
    using that by (induction xs) auto
  then show ?thesis by (simp add: bm_values_def bm_remove_def bm_filter.rep_eq)
qed


definition outside_post :: post_request where
  "outside_post = sample_question\<lparr>po_ask := None\<rparr>"

definition outside_answer :: answer_request where
  "outside_answer = \<lparr>an_room = ''lab'', an_question = Id 3 0, an_body = ''yes'', an_choice = None, an_key = None\<rparr>"

definition outside_create :: create_request where
  "outside_create = \<lparr>cr_name = ''lab'', cr_topic = [], cr_private = False, cr_members = [], cr_join = True\<rparr>"


end
