(* ===== verification/Room_Reading.thy ===== *)
theory Room_Reading
  imports Private_Rooms
begin

text \<open>
  Boards and reading: a write is a compare-and-set, and a member reads each post of others once.
\<close>

subsection \<open>The board\<close>

definition board_is :: "str \<Rightarrow> (str, board_entry) btree_map \<Rightarrow> 'j core \<Rightarrow> bool" where
  "board_is room b c \<longleftrightarrow> (\<exists>r. bm_get (room_map (c_store c)) room = Some r \<and> rm_board r = b)"

lemma board_frame [simp]:
  "board_is room b (emit e ns d now c) = board_is room b c" "board_is room b (wake t c) = board_is room b c"
  "board_is room b (emit_room e r d now c) = board_is room b c"
  by (simp_all add: board_is_def)

lemma drop_posts_board: "rm_board (fst (fold (drop_post n) ids (r, ks))) = rm_board r"
proof (induction ids arbitrary: r ks)
  case (Cons i ids)
  have "rm_board (fst (drop_post n i (r, ks))) = rm_board r" by (simp add: drop_post_def Let_def split: option.split)
  with Cons [of "fst (drop_post n i (r, ks))" "snd (drop_post n i (r, ks))"] show ?case by simp
qed simp

lemma wp_trim_board: "board_is room b c \<Longrightarrow> wp (trim_room en room) (\<lambda>_. board_is room b) c"
proof -
  have "c_store c' = apply_effect (en_codec en) (E_DropPosts room ids) (c_store c) \<Longrightarrow> board_is room b c'"
    if "board_is room b c" for c' ids
  proof -
    have R: "room_map (apply_drop_posts (en_codec en) room ids (c_store c)) =
        bm_update room (\<lambda>r. fst (fold (drop_post room) ids (r, post_keys (c_store c)))) (room_map (c_store c))"
      by (simp add: apply_drop_posts_def Let_def)
    show "c_store c' = apply_effect (en_codec en) (E_DropPosts room ids) (c_store c) \<Longrightarrow> board_is room b c'"
      using that by (auto simp: board_is_def R drop_posts_board)
  qed
  then show "board_is room b c \<Longrightarrow> wp (trim_room en room) (\<lambda>_. board_is room b) c"
    unfolding trim_room_def Let_def by (auto intro!: wp_commit split: option.split)
qed

lemma put_post_board [simp]: "rm_board (put_post p r) = rm_board r"
  by (simp add: put_post_def)

lemma wp_append_board: "board_is room b c \<Longrightarrow> wp (append_post en room p now) (\<lambda>_. board_is room b) c"
proof -
  assume b: "board_is room b c"
  have "wp (trim_room en room) (\<lambda>x. wp (bind_op (the_room room) (\<lambda>r. modify (\<lambda>c. wake (T_Room room)
        (emit_room ''post'' room [(''room'', J_Str room), (''post'', post_json r p)] now c)))) (\<lambda>_. board_is room b)) c'"
    if "c_store c' = apply_effect (en_codec en) (E_Post room p) (c_store c)" for c'
  proof (rule wp_mono [OF wp_trim_board])
    show "board_is room b c'" using b that by (auto simp: board_is_def)
    show "wp (bind_op (the_room room) (\<lambda>r. modify (\<lambda>c. wake (T_Room room)
        (emit_room ''post'' room [(''room'', J_Str room), (''post'', post_json r p)] now c)))) (\<lambda>_. board_is room b) c2"
      if "board_is room b c2" for c2
      using that by (auto simp: the_room_def) (auto simp: board_is_def)
  qed
  then show ?thesis unfolding append_post_def wp_simps by (intro wp_commit) simp
qed

definition board_version :: "str \<Rightarrow> (str, board_entry) btree_map \<Rightarrow> u64" where
  "board_version key b = (case bm_get b key of Some e \<Rightarrow> be_version e | None \<Rightarrow> 0)"

text \<open>What a write makes of a board.\<close>

definition board_after :: "str \<Rightarrow> str option \<Rightarrow> str \<Rightarrow> u64 \<Rightarrow> (str, board_entry) btree_map \<Rightarrow> (str, board_entry) btree_map" where
  "board_after key value by now b =
     (case value of
        None \<Rightarrow> bm_remove key b
      | Some v \<Rightarrow>
          if map_option be_value (bm_get b key) = Some v then b
          else bm_insert key \<lparr>be_value = v, be_by = by, be_at = now, be_version = board_version key b + 1\<rparr> b)"

lemma board_judge_gives:
  assumes "board_judge room key value expect by now r = Inr change"
  shows "(expect = None \<or> expect = Some (board_version key (rm_board r))) \<and>
    (case change of
       Board_Same cur \<Rightarrow> cur = bm_get (rm_board r) key \<and> board_after key value by now (rm_board r) = rm_board r \<and> value \<noteq> None
     | Board_Put e _ \<Rightarrow> (case e of Some x \<Rightarrow> bm_insert key x (rm_board r) | None \<Rightarrow> bm_remove key (rm_board r)) =
         board_after key value by now (rm_board r) \<and> e = bm_get (board_after key value by now (rm_board r)) key)"
  using assms by (auto simp: board_judge_def board_after_def board_version_def Let_def split: if_splits option.splits)

lemma wp_put_board:
  assumes "bm_get (room_map (c_store c)) room = Some r"
  shows "wp (put_board en room key e body actor now) (\<lambda>out c'. out = e \<and>
    board_is room (case e of Some x \<Rightarrow> bm_insert key x (rm_board r) | None \<Rightarrow> bm_remove key (rm_board r)) c') c"
proof -
  let ?b = "case e of Some x \<Rightarrow> bm_insert key x (rm_board r) | None \<Rightarrow> bm_remove key (rm_board r)"
  have l: "wp (log_room en room (ac_name actor) body now) (\<lambda>_ c'. wp (ret e) (\<lambda>out c'. out = e \<and> board_is room ?b c') c') c1"
    if "board_is room ?b c1" for c1
    unfolding log_room_def wp_simps by (rule wp_mono [OF wp_append_board [OF that]]) simp
  have b: "board_is room ?b c1" if "c_store c1 = apply_effect (en_codec en) (E_Board room key e) (c_store c)" for c1
    using that assms by (simp add: board_is_def)
  have "wp (commit en (E_Board room key e)) (\<lambda>_ c1. wp (log_room en room (ac_name actor) body now)
      (\<lambda>_ c'. wp (ret e) (\<lambda>out c'. out = e \<and> board_is room ?b c') c')
      (emit_room ''board'' room [(''room'', J_Str room), (''key'', J_Str key),
        (''version'', case e of Some e \<Rightarrow> J_Int (uint (be_version e)) | None \<Rightarrow> J_Null)] now c1)) c"
    by (intro wp_commit l) (simp only: board_frame b)
  then show ?thesis unfolding put_board_def wp_simps wp_modify .
qed

text \<open>
  C15: Writing the board of a room is a compare-and-set: it succeeds only when the version
  expected, if any, is the one the key has (0 when it is not set), and then the board is
  as before except for that key, which is removed, or has the value at the next version;
  writing the value it has changes nothing. It never panics.
\<close>

theorem board_set_compares_and_sets:
  assumes "bm_get (room_map (c_store c)) room = Some r"
  shows "wp (board_set en room key value expect actor now) (\<lambda>out c'.
    (expect = None \<or> expect = Some (board_version key (rm_board r))) \<and>
    out = bm_get (board_after key value (ac_name actor) now (rm_board r)) key \<and>
    (\<exists>r'. bm_get (room_map (c_store c')) room = Some r' \<and>
      rm_board r' = board_after key value (ac_name actor) now (rm_board r))) c"
proof -
  have put: "wp (put_board en room key e body actor now) (\<lambda>out c'.
      (expect = None \<or> expect = Some (board_version key (rm_board r))) \<and>
      out = bm_get (board_after key value (ac_name actor) now (rm_board r)) key \<and>
      (\<exists>r'. bm_get (room_map (c_store c')) room = Some r' \<and>
        rm_board r' = board_after key value (ac_name actor) now (rm_board r))) c"
    if "board_judge room key value expect (ac_name actor) now r = Inr (Board_Put e body)" for e body
    using board_judge_gives [OF that]
    by (intro wp_mono [OF wp_put_board [OF assms]]) (auto simp: board_is_def)
  have same: "(expect = None \<or> expect = Some (board_version key (rm_board r))) \<and>
      cur = bm_get (board_after key value (ac_name actor) now (rm_board r)) key \<and>
      board_after key value (ac_name actor) now (rm_board r) = rm_board r"
    if "board_judge room key value expect (ac_name actor) now r = Inr (Board_Same cur)" for cur
    using board_judge_gives [OF that] by simp
  have "room_of room (c_store c) = Inr r" using assms by (simp add: room_of_def)
  with put same assms show ?thesis
    unfolding board_set_def
    by (cases "over_memory en c")
      (auto simp: open_room_def room_to_grow_def look_def wp_def [of "refuse _"] split: board_change.split if_splits)
qed

abbreviation only_panics :: "('j, 'a) op \<Rightarrow> bool" where
  "only_panics \<equiv> fails_as in_memory (\<lambda>f. f = Panicked)"

lemma only_panics_rules:
  "only_panics (commit en e)" "only_panics (the_room n)" "only_panics (trim_room en n)"
  "only_panics (append_post en n p now)" "only_panics (log_room en n frm body now)"
  "only_panics (put_board en n key entry body actor now)"
proof -
  show c: "only_panics (commit en e)" for e
    using sure_commit [of en e] by (auto simp: fails_as_def split: sum.splits)
  show r: "only_panics (the_room n)" for n
    by (simp add: the_room_def indexed_def look_def fails_as_def split: option.split)
  show t: "only_panics (trim_room en n)" for n
    unfolding trim_room_def Let_def by (intro fails_rules c)
  show a: "only_panics (append_post en n p now)" for n p
    unfolding append_post_def by (intro fails_rules c r t) simp
  show l: "only_panics (log_room en n frm body now)" for n frm body
    unfolding log_room_def by (intro fails_rules a)
  show "only_panics (put_board en n key entry body actor now)"
    unfolding put_board_def by (intro fails_rules c l) simp
qed

lemma panics_or_gives: "only_panics m \<Longrightarrow> in_memory c \<Longrightarrow> wp m Q c \<Longrightarrow> \<exists>c' x. m c = (c', Inr x) \<and> Q x c'"
  by (auto simp: fails_as_def wp_def split: prod.splits sum.splits failure.splits)

lemma lab_core_fields [simp]: "c_limits lab_core = limits_default" "c_journal lab_core = None" "\<not> c_halted lab_core"
  by (simp_all add: lab_core_def core_new_def)

definition first_entry :: board_entry where
  "first_entry = \<lparr>be_value = ''v'', be_by = ''a'', be_at = 50, be_version = 1\<rparr>"

lemma lab_board: "board_set sample_env ''lab'' ''k'' (Some ''v'') (Some 0) (sample_actor ''a'') 50 lab_core =
    put_board sample_env ''lab'' ''k'' (Some first_entry) (''set '' @ ''k'' @ '' on the board (version '' @ show_nat 1 @ '')'') (sample_actor ''a'') 50 lab_core"
  using lab_core_room
  by (simp add: board_set_def then_op_def bind_op_def visible_room_def open_room_def room_of_def reading_def look_def room_to_grow_def
      sample_env_def sample_actor_def lab_room_def over_memory_def room_is_open_def board_judge_def Let_def max_board_keys_def
      limits_default_def bm_len_card first_entry_def)

theorem board_set_compares_and_sets_witness:
  "\<exists>c' out r'. board_set sample_env ''lab'' ''k'' (Some ''v'') (Some 0) (sample_actor ''a'') 50 lab_core = (c', Inr out) \<and>
     out = Some first_entry \<and> bm_get (room_map (c_store c')) ''lab'' = Some r' \<and> bm_get (rm_board r') ''k'' = Some first_entry"
proof -
  let ?m = "board_set sample_env ''lab'' ''k'' (Some ''v'') (Some 0) (sample_actor ''a'') 50"
  note t = board_set_compares_and_sets [OF lab_core_room, of sample_env "''k''" "Some ''v''" "Some 0" "sample_actor ''a''" 50]
  have "in_memory lab_core" by (simp add: in_memory_def)
  moreover have "wp ?m (\<lambda>_ _. True) lab_core" by (rule wp_mono [OF t]) simp
  then have "wp (put_board sample_env ''lab'' ''k'' (Some first_entry)
      (''set '' @ ''k'' @ '' on the board (version '' @ show_nat 1 @ '')'') (sample_actor ''a'') 50) (\<lambda>_ _. True) lab_core"
    by (simp only: wp_def lab_board)
  ultimately have "\<exists>c' x. ?m lab_core = (c', Inr x) \<and> True"
    unfolding lab_board by (intro panics_or_gives [OF only_panics_rules(6)])
  then obtain c' out where r: "?m lab_core = (c', Inr out)" by blast
  have "board_after ''k'' (Some ''v'') (ac_name (sample_actor ''a'')) 50 (rm_board lab_room) = bm_insert ''k'' first_entry bm_empty"
    by (simp add: board_after_def lab_room_def sample_actor_def board_version_def first_entry_def)
  with wpD [OF t r] r show ?thesis by auto
qed

subsection \<open>Reading a room\<close>

abbreviation from_others :: "str \<Rightarrow> (id \<times> post) list \<Rightarrow> post list" where
  "from_others agent ps \<equiv> filter (\<lambda>p. p_from p \<noteq> agent) (map snd ps)"

lemma read_loop_full:
  "length items = limit \<Longrightarrow>
   read_loop agent limit ps items last_read remaining = (items, last_read, remaining + length (from_others agent ps))"
  by (induction ps arbitrary: remaining) auto

lemma read_loop_splits:
  "length items \<le> limit \<Longrightarrow> \<exists>ys zs. ps = ys @ zs \<and>
   read_loop agent limit ps items last_read remaining =
     (items @ from_others agent ys, if ys = [] then last_read else Some (fst (List.last ys)),
      remaining + length (from_others agent zs)) \<and>
   length (items @ from_others agent ys) \<le> limit \<and> (zs = [] \<or> length (items @ from_others agent ys) = limit)"
proof (induction ps arbitrary: items last_read)
  case (Cons x ps)
  obtain i p where x: "x = (i, p)" by fastforce
  show ?case
  proof (cases "length items = limit")
    case True
    then show ?thesis by (intro exI [of _ "[]"] exI [of _ "x # ps"]) (simp only: read_loop_full, simp)
  next
    case False
    let ?items = "if p_from p \<noteq> agent then items @ [p] else items"
    have "length ?items \<le> limit" using False Cons.prems by simp
    from Cons.IH [OF this, of "Some i"] obtain ys zs where s: "ps = ys @ zs"
      "read_loop agent limit ps ?items (Some i) remaining =
        (?items @ from_others agent ys, if ys = [] then Some i else Some (fst (List.last ys)), remaining + length (from_others agent zs))"
      "length (?items @ from_others agent ys) \<le> limit" "zs = [] \<or> length (?items @ from_others agent ys) = limit"
      by blast
    have "read_loop agent limit (x # ps) items last_read remaining = read_loop agent limit ps ?items (Some i) remaining"
      using False by (simp add: x)
    with s show ?thesis by (intro exI [of _ "x # ys"] exI [of _ zs]) (auto simp: x)
  qed
qed simp

definition unread :: "str \<Rightarrow> id option \<Rightarrow> room \<Rightarrow> post list" where
  "unread agent cursor r = from_others agent (run_after cursor (rm_posts r))"

lemma run_after_later:
  assumes "\<And>k. cursor = Some k \<Longrightarrow> k < i"
  shows "run_after (Some i) m = filter (\<lambda>(a, _). i < a) (run_after cursor m)"
  using assms
  by (auto simp: run_after_def bm_after_def case_prod_beta intro!: filter_cong split: option.split)

lemma run_after_split:
  assumes "run_after cursor m = ys @ zs" "ys \<noteq> []"
  shows "run_after (Some (fst (List.last ys))) m = zs"
proof -
  let ?k = "fst (List.last ys)"
  have "ssorted (map fst (run_after cursor m))"
    by (cases cursor) (simp_all add: run_after_def bm_after_def ssorted_filter)
  then have s: "ssorted (map fst (ys @ zs))" by (simp add: assms(1))
  have l: "List.last ys \<in> set ys" using assms(2) by simp
  have ys: "fst y \<le> ?k" if "y \<in> set ys" for y
    using s that ssorted_last [of ys y] by (simp add: sorted_wrt_append)
  have zs: "?k < fst z" if "z \<in> set zs" for z
    using s that l by (auto simp: sorted_wrt_append)
  have "k < ?k" if "cursor = Some k" for k
  proof -
    have "List.last ys \<in> set (bm_after k m)" using l assms(1) that by (simp add: run_after_def)
    then show ?thesis by (auto simp: bm_after_def)
  qed
  then have "run_after (Some ?k) m = filter (\<lambda>(a, _). ?k < a) (ys @ zs)"
    using run_after_later [of cursor ?k m] assms(1) by simp
  also have "\<dots> = zs"
    using ys zs by (auto simp: filter_empty_conv filter_id_conv case_prod_beta not_less)
  finally show ?thesis .
qed

lemma bind_reading: "f (c_store c) = Inr x \<Longrightarrow> bind_op (reading f) k c = k x c"
  by (simp add: bind_op_def reading_def look_def)

lemma then_goes: "m c = (c', Inr u) \<Longrightarrow> then_op m n c = n c'"
  by (simp add: then_op_def bind_op_def)

text \<open>
  C14: Reading a room loses and repeats nothing: a member is given the oldest of the posts
  of others that it has not read, at most as many as it asks for, and is told how many
  remain; and what it has not read afterwards is exactly those that remain. So a member
  that keeps reading with a positive limit reads every post of others once.
\<close>

theorem read_room_reads_each_post_once:
  assumes r: "bm_get (room_map (c_store c)) room = Some r" "bm_get (rm_members r) agent = Some mb"
  shows "wp (read_room en room agent limit) (\<lambda>(items, remaining) c'.
    items = map (post_json r) (take limit (unread agent (mb_cursor mb) r)) \<and>
    remaining = length (unread agent (mb_cursor mb) r) - limit \<and>
    (\<exists>r' mb'. bm_get (room_map (c_store c')) room = Some r' \<and> rm_posts r' = rm_posts r \<and>
      bm_get (rm_members r') agent = Some mb' \<and>
      unread agent (mb_cursor mb') r' = drop limit (unread agent (mb_cursor mb) r))) c"
proof -
  let ?run = "run_after (mb_cursor mb) (rm_posts r)"
  have "length ([] :: post list) \<le> limit" by simp
  from read_loop_splits [OF this, of ?run agent None 0] obtain ys zs where s: "?run = ys @ zs \<and>
     read_loop agent limit ?run [] None 0 =
       ([] @ from_others agent ys, if ys = [] then None else Some (fst (List.last ys)), 0 + length (from_others agent zs)) \<and>
     length ([] @ from_others agent ys) \<le> limit \<and> (zs = [] \<or> length ([] @ from_others agent ys) = limit)"
    by (elim exE)
  note s = s [unfolded append_Nil add_0]
  note run = conjunct1 [OF s] and loop = conjunct1 [OF conjunct2 [OF s]] and fit = conjunct2 [OF conjunct2 [OF s]]
  have u: "unread agent (mb_cursor mb) r = from_others agent ys @ from_others agent zs"
    by (simp add: unread_def run)
  have items: "take limit (unread agent (mb_cursor mb) r) = from_others agent ys"
    "drop limit (unread agent (mb_cursor mb) r) = from_others agent zs"
    "length (unread agent (mb_cursor mb) r) - limit = length (from_others agent zs)"
    using fit by (auto simp: u)
  show ?thesis
  proof (cases "ys = []")
    case True
    then have "read_room en room agent limit c = (c, Inr (map (post_json r) (take limit (unread agent (mb_cursor mb) r)),
        length (unread agent (mb_cursor mb) r) - limit))"
      using r loop items
      by (simp add: read_room_def bind_reading then_goes room_of_def member_of_def)
    moreover have "unread agent (mb_cursor mb) r = drop limit (unread agent (mb_cursor mb) r)"
      using True fit by (auto simp: u)
    ultimately show ?thesis using r by (simp add: wp_def)
  next
    case False
    let ?k = "fst (List.last ys)"
    have "read_room en room agent limit c = then_op (commit en (E_RoomCursor room agent ?k))
        (ret (map (post_json r) (take limit (unread agent (mb_cursor mb) r)), length (unread agent (mb_cursor mb) r) - limit)) c"
      using r loop items False
      by (simp add: read_room_def bind_reading room_of_def member_of_def)
    moreover have "unread agent (Some ?k) r' = from_others agent zs" if "rm_posts r' = rm_posts r" for r'
      using run_after_split [OF run False] that by (simp add: unread_def)
    moreover have "wp (then_op (commit en (E_RoomCursor room agent ?k))
        (ret (map (post_json r) (take limit (unread agent (mb_cursor mb) r)), length (unread agent (mb_cursor mb) r) - limit)))
      (\<lambda>(items, remaining) c'. items = map (post_json r) (take limit (unread agent (mb_cursor mb) r)) \<and>
        remaining = length (unread agent (mb_cursor mb) r) - limit \<and>
        (\<exists>r' mb'. bm_get (room_map (c_store c')) room = Some r' \<and> rm_posts r' = rm_posts r \<and>
          bm_get (rm_members r') agent = Some mb' \<and>
          unread agent (mb_cursor mb') r' = drop limit (unread agent (mb_cursor mb) r))) c"
      unfolding wp_simps prod.case using r items calculation(2)
      by (intro wp_commit) simp
    ultimately show ?thesis unfolding wp_def by simp
  qed
qed

text \<open>In a room with posts of \<open>a\<close>, \<open>b\<close> and \<open>a\<close>, \<open>b\<close> reads one and is told of one more.\<close>

definition lab_note :: "id \<Rightarrow> str \<Rightarrow> post" where
  "lab_note i frm = \<lparr>p_id = i, p_from = frm, p_kind = Note, p_body = ''x'', p_created = 3, p_reply_to = None, p_about = None,
     p_choice = None, p_ask = None, p_key = None\<rparr>"

definition talk_room :: room where
  "talk_room = lab_room\<lparr>rm_posts := bm_of_list [(Id 10 0, lab_note (Id 10 0) ''a''), (Id 20 0, lab_note (Id 20 0) ''b''),
     (Id 30 0, lab_note (Id 30 0) ''a'')]\<rparr>"

definition talk_core :: "unit core" where
  "talk_core = core_new (apply_effects sample_codec [E_Room talk_room] store_default) limits_default None 5"

lemma talk_entries: "bm_entries (rm_posts talk_room) =
    [(Id 10 0, lab_note (Id 10 0) ''a''), (Id 20 0, lab_note (Id 20 0) ''b''), (Id 30 0, lab_note (Id 30 0) ''a'')]"
  by (simp add: talk_room_def bm_of_list_def bm_insert.rep_eq bm_empty.rep_eq less_id_def)

lemma talk_room_held: "bm_get (room_map (c_store talk_core)) ''lab'' = Some talk_room"
proof -
  have "open_index (rm_posts talk_room) = rm_open talk_room"
    by (simp add: open_index_def bm_values_def talk_entries lab_note_def is_open_question_def bs_of_list_def)
      (simp add: talk_room_def lab_room_def)
  moreover have "rm_name talk_room = ''lab''" by (simp add: talk_room_def lab_room_def)
  ultimately show ?thesis by (simp add: talk_core_def core_new_def apply_effects_def)
qed

lemma talk_unread: "unread ''b'' None talk_room = [lab_note (Id 10 0) ''a'', lab_note (Id 30 0) ''a'']"
  by (simp add: unread_def run_after_def talk_entries lab_note_def)

theorem read_room_reads_each_post_once_witness:
  "\<exists>c' r' mb'. read_room sample_env ''lab'' ''b'' 1 talk_core = (c', Inr ([post_json talk_room (lab_note (Id 10 0) ''a'')], 1)) \<and>
     bm_get (room_map (c_store c')) ''lab'' = Some r' \<and> bm_get (rm_members r') ''b'' = Some mb' \<and>
     unread ''b'' (mb_cursor mb') r' = [lab_note (Id 30 0) ''a'']"
proof -
  have b: "bm_get (rm_members talk_room) ''b'' = Some (lab_member Plain_Member)"
    by (simp add: talk_room_def lab_room_def)
  have c: "mb_cursor (lab_member Plain_Member) = None" by (simp add: lab_member_def)
  note t = read_room_reads_each_post_once [OF talk_room_held b, of sample_env 1]
  have m: "\<not> c_halted talk_core" "c_journal talk_core = None" by (simp_all add: talk_core_def core_new_def)
  have "\<exists>c' x. read_room sample_env ''lab'' ''b'' 1 talk_core = (c', Inr x)"
    using talk_room_held b c
    by (simp add: read_room_def bind_reading room_of_def member_of_def run_after_def talk_entries lab_note_def
        then_goes [of "commit _ _", OF commit_memory [OF m]])
  then obtain c' x where r: "read_room sample_env ''lab'' ''b'' 1 talk_core = (c', Inr x)" by blast
  from wpD [OF t r] r c show ?thesis by (auto simp: talk_unread)
qed

end
