(* ===== verification/Event_Replay.thy ===== *)
theory Event_Replay
  imports Broker_Base
begin

text \<open>
  What a client that reconnects with the last event it saw is sent: the events kept in the
  ring, held against the log of everything that was ever published.
\<close>

text \<open>The events as they change, with the log of all events and, for every name, the first
  event id after it last changed hands.\<close>

inductive events_run :: "u64 \<Rightarrow> events \<Rightarrow> event list \<Rightarrow> (str \<Rightarrow> u64) \<Rightarrow> bool" for now0 where
  events_start: "events_run now0 (events_new now0) [] (\<lambda>_. 0)"
| events_publish: "events_run now0 evs hist since \<Longrightarrow>
    evs' = publish_event k audience data now evs \<Longrightarrow>
    events_run now0 evs' (hist @ [List.last (ev_ring evs')]) since"
| events_subscribe: "events_run now0 evs hist since \<Longrightarrow>
    events_run now0 (snd (snd (subscribe after agent evs))) hist since"
| events_listen: "events_run now0 evs hist since \<Longrightarrow> events_run now0 (evs\<lparr>ev_subscribers := ss\<rparr>) hist since"
| events_hand_over: "events_run now0 evs hist since \<Longrightarrow>
    events_run now0 (hand_over name evs) hist (since(name := ev_next evs))"

definition ring_ok :: "u64 \<Rightarrow> events \<Rightarrow> event list \<Rightarrow> bool" where
  "ring_ok now0 evs hist \<longleftrightarrow>
     ev_ring evs = drop (length hist - event_history) hist \<and>
     ev_next evs = now0 * 1000 + of_nat (length hist) \<and>
     (\<forall>k < length hist. ev_id (hist ! k) = now0 * 1000 + of_nat k)"

lemma push_ring_drop:
  "push_ring e (drop (length hist - event_history) hist) = drop (length (hist @ [e]) - event_history) (hist @ [e])"
proof (cases "event_history \<le> length hist")
  case True
  then have "length (hist @ [e]) - event_history = Suc (length hist - event_history)" by simp
  moreover have "length (drop (length hist - event_history) hist) = event_history" using True by simp
  ultimately show ?thesis
    using True by (simp add: push_ring_def drop_Suc tl_drop event_history_def)
next
  case False
  then show ?thesis by (simp add: push_ring_def)
qed

lemma publish_fields:
  "ev_next (publish_event k au d now evs) = ev_next evs + 1"
  "ev_handovers (publish_event k au d now evs) = ev_handovers evs"
  "\<exists>e. ev_id e = ev_next evs \<and> ev_scope e = au \<and> ev_ring (publish_event k au d now evs) = push_ring e (ev_ring evs)"
  by (simp_all add: publish_event_def Let_def) (metis event.select_convs(1,2))

lemma last_push: "List.last (push_ring e ring) = e"
  by (simp add: push_ring_def)

lemma ring_ok_run: "events_run now0 evs hist since \<Longrightarrow> ring_ok now0 evs hist"
proof (induction rule: events_run.induct)
  case (events_publish evs hist since evs' k au d now)
  obtain e where e: "ev_id e = ev_next evs" "ev_ring evs' = push_ring e (ev_ring evs)"
    using publish_fields(3) events_publish(2) by blast
  have "ev_ring evs' = drop (length (hist @ [e]) - event_history) (hist @ [e])"
    using events_publish(3) e(2) push_ring_drop by (simp add: ring_ok_def)
  moreover have "List.last (ev_ring evs') = e" by (simp add: e(2) last_push)
  moreover have "ev_next evs' = now0 * 1000 + of_nat (length (hist @ [e]))"
    using events_publish(2,3) publish_fields(1) by (simp add: ring_ok_def add.assoc)
  moreover have "ev_id ((hist @ [e]) ! j) = now0 * 1000 + of_nat j" if "j < length (hist @ [e])" for j
    using that events_publish(3) e(1) by (cases "j = length hist") (auto simp: ring_ok_def nth_append)
  ultimately show ?case by (auto simp: ring_ok_def)
qed (simp_all add: ring_ok_def events_new_def subscribe_def hand_over_def Let_def)

definition no_wrap :: "u64 \<Rightarrow> event list \<Rightarrow> bool" where
  "no_wrap now0 hist \<longleftrightarrow> unat (now0 * 1000) + length hist < 2 ^ 64"

lemma id_at:
  assumes "ring_ok now0 evs hist" "no_wrap now0 hist"
  shows "k < length hist \<Longrightarrow> unat (ev_id (hist ! k)) = unat (now0 * 1000) + k"
    and "unat (ev_next evs) = unat (now0 * 1000) + length hist"
proof -
  have add: "unat (now0 * 1000 + of_nat k) = unat (now0 * 1000) + k" if "k \<le> length hist" for k
  proof -
    have "unat (of_nat k :: u64) = k" using that assms(2) by (simp add: no_wrap_def unat_of_nat)
    moreover have "unat (now0 * 1000) + unat (of_nat k :: u64) < 2 ^ 64"
      using that assms(2) calculation by (simp add: no_wrap_def)
    ultimately show ?thesis by (simp add: unat_add_lem [THEN iffD1])
  qed
  show "k < length hist \<Longrightarrow> unat (ev_id (hist ! k)) = unat (now0 * 1000) + k"
    using assms(1) add [of k] by (simp add: ring_ok_def)
  show "unat (ev_next evs) = unat (now0 * 1000) + length hist"
    using assms(1) add [of "length hist"] by (simp add: ring_ok_def)
qed

definition handed_ok :: "events \<Rightarrow> (str \<Rightarrow> u64) \<Rightarrow> bool" where
  "handed_ok evs since \<longleftrightarrow>
     (\<forall>n. since n \<le> ev_next evs \<and>
        (case bm_get (ev_handovers evs) n of
           Some s \<Rightarrow> s = since n
         | None \<Rightarrow> \<forall>e \<in> set (ev_ring evs). since n \<le> ev_id e))"

lemma handed_okD:
  assumes "handed_ok evs since"
  shows "since n \<le> ev_next evs" "bm_get (ev_handovers evs) n = Some s \<Longrightarrow> s = since n"
    "bm_get (ev_handovers evs) n = None \<Longrightarrow> e \<in> set (ev_ring evs) \<Longrightarrow> since n \<le> ev_id e"
  using spec [OF assms [unfolded handed_ok_def], of n] by simp_all

lemma ring_from_oldest:
  assumes "ring_ok now0 evs hist" "no_wrap now0 hist" "e \<in> set (ev_ring evs)" "ring_oldest evs = Some i"
  shows "i \<le> ev_id e"
proof -
  let ?d = "length hist - event_history"
  from assms(1) have r: "ev_ring evs = drop ?d hist" by (simp add: ring_ok_def)
  obtain j where j: "j < length (drop ?d hist)" "e = drop ?d hist ! j"
    using assms(3) unfolding r by (metis in_set_conv_nth)
  have d: "?d < length hist" using j(1) by simp
  then have "ev_ring evs = hist ! ?d # drop (Suc ?d) hist" unfolding r by (simp add: Cons_nth_drop_Suc)
  then have i: "i = ev_id (hist ! ?d)" "?d < length hist" using assms(4) d by (simp_all add: ring_oldest_def)
  show ?thesis
    using id_at(1) [OF assms(1,2), of "?d + j"] id_at(1) [OF assms(1,2) i(2)] j i
    by (simp add: word_le_nat_alt)
qed

lemma handed_ok_run: "events_run now0 evs hist since \<Longrightarrow> no_wrap now0 hist \<Longrightarrow> handed_ok evs since"
proof (induction rule: events_run.induct)
  case events_start
  show ?case by (simp add: handed_ok_def events_new_def)
next
  case (events_publish evs hist since evs' k au d now)
  have ok: "ring_ok now0 evs hist" by (rule ring_ok_run [OF events_publish(1)])
  have nw: "no_wrap now0 hist" using events_publish(4) by (simp add: no_wrap_def)
  have nx: "ev_next evs \<le> ev_next evs'"
  proof -
    have "ring_ok now0 evs' (hist @ [List.last (ev_ring evs')])"
      by (rule ring_ok_run [OF events_run.events_publish [OF events_publish(1,2)]])
    from id_at(2) [OF this events_publish(4)] id_at(2) [OF ok nw] show ?thesis by (simp add: word_le_nat_alt)
  qed
  obtain e where e: "ev_id e = ev_next evs" "ev_ring evs' = push_ring e (ev_ring evs)"
    using publish_fields(3) events_publish(2) by blast
  have "set (ev_ring evs') \<subseteq> insert e (set (ev_ring evs))"
    unfolding e(2) push_ring_def by (cases "ev_ring evs") auto
  then have mem: "x = e \<or> x \<in> set (ev_ring evs)" if "x \<in> set (ev_ring evs')" for x using that by blast
  note h = handed_okD [OF events_publish(3) [OF nw]]
  have same: "ev_handovers evs' = ev_handovers evs" unfolding events_publish(2) by (rule publish_fields(2))
  show ?case
    unfolding handed_ok_def same
  proof (intro allI conjI)
    fix n
    show "since n \<le> ev_next evs'" using h(1) nx by (rule order_trans)
    show "case bm_get (ev_handovers evs) n of Some s \<Rightarrow> s = since n | None \<Rightarrow> \<forall>e \<in> set (ev_ring evs'). since n \<le> ev_id e"
    proof (cases "bm_get (ev_handovers evs) n")
      case None
      have "since n \<le> ev_id x" if "x \<in> set (ev_ring evs')" for x
        using mem [OF that] h(1,3) [of n] None e(1) by auto
      with None show ?thesis by simp
    qed (simp add: h(2))
  qed
next
  case (events_subscribe evs hist since after agent)
  then show ?case by (simp add: handed_ok_def subscribe_def cong: option.case_cong)
next
  case (events_listen evs hist since ss)
  then show ?case by (simp add: handed_ok_def cong: option.case_cong)
next
  case (events_hand_over evs hist since name)
  have ok: "ring_ok now0 evs hist" by (rule ring_ok_run [OF events_hand_over(1)])
  note ih = events_hand_over(2) [OF events_hand_over(3)]
  define oldest where "oldest = (case ring_oldest evs of Some o' \<Rightarrow> o' | None \<Rightarrow> ev_next evs)"
  have old: "oldest \<le> ev_id e" if "e \<in> set (ev_ring evs)" for e
    using ring_from_oldest [OF ok events_hand_over(3) that] that
    by (auto simp: oldest_def ring_oldest_def split: list.splits)
  have "case bm_get (ev_handovers (hand_over name evs)) n of
      Some s \<Rightarrow> s = (since(name := ev_next evs)) n
    | None \<Rightarrow> \<forall>e \<in> set (ev_ring evs). (since(name := ev_next evs)) n \<le> ev_id e" for n
  proof (cases "n = name")
    case False
    then have g: "bm_get (ev_handovers (hand_over name evs)) n =
        (case bm_get (ev_handovers evs) n of Some s \<Rightarrow> if s > oldest then Some s else None | None \<Rightarrow> None)"
      by (simp add: hand_over_def Let_def oldest_def [symmetric])
    show ?thesis
    proof (cases "bm_get (ev_handovers evs) n")
      case None
      with g False handed_okD(3) [OF ih None] show ?thesis by simp
    next
      case (Some s)
      then have "s = since n" using handed_okD(2) [OF ih] by blast
      with g Some False old show ?thesis by (auto simp: not_less intro: order_trans)
    qed
  qed (simp add: hand_over_def Let_def)
  moreover have "ev_ring (hand_over name evs) = ev_ring evs" "ev_next (hand_over name evs) = ev_next evs"
    by (simp_all add: hand_over_def Let_def)
  moreover have "(since(name := ev_next evs)) n \<le> ev_next evs" for n
    using handed_okD(1) [OF ih] by simp
  ultimately show ?case unfolding handed_ok_def by (simp cong: option.case_cong del: fun_upd_apply)
qed

lemma sat_add_1: "unat (sat_add (a :: u64) 1) \<le> unat a + 1"
proof (cases "a = -1")
  case True
  have "unat x \<le> unat (-1 :: u64)" for x :: u64 using max_word_ge [of x] by (simp add: word_le_nat_alt)
  with True show ?thesis by (simp add: le_SucI)
next
  case False
  have "unat (a + 1) = Suc (unat a)" using unatSuc [OF succ_ne0 [OF False]] by (simp add: add.commute)
  moreover have "\<not> a + 1 < a" using succ_gt [OF False] by simp
  ultimately show ?thesis by (simp add: sat_add_def)
qed


definition sample_events :: events where
  "sample_events = publish_event ''b'' (Some [''n'']) [] 7 (publish_event ''a'' None [] 6 (events_new 5))"

lemma sample_events_run:
  "\<exists>e1 e2. events_run 5 sample_events [e1, e2] (\<lambda>_. 0) \<and> ev_id e1 = 5000 \<and> ev_id e2 = 5001 \<and> ev_scope e2 = Some [''n'']"
proof -
  let ?a = "publish_event ''a'' None [] 6 (events_new 5)"
  have "events_run 5 ?a ([] @ [List.last (ev_ring ?a)]) (\<lambda>_. 0)"
    by (rule events_publish [OF events_start refl])
  then have "events_run 5 sample_events (([] @ [List.last (ev_ring ?a)]) @ [List.last (ev_ring sample_events)]) (\<lambda>_. 0)"
    by (rule events_publish) (simp add: sample_events_def)
  moreover have "ev_id (List.last (ev_ring ?a)) = 5000" "ev_id (List.last (ev_ring sample_events)) = 5001"
    "ev_scope (List.last (ev_ring sample_events)) = Some [''n'']"
    by (simp_all add: sample_events_def publish_event_def Let_def push_ring_def events_new_def)
  ultimately show ?thesis by auto
qed


end
