(* ===== verification/Listing.thy ===== *)
theory Listing
  imports Scope Db
begin

text \<open>
  Walking the keyspace for a client (\<open>walk\<close> and \<open>Scan\<close> of \<open>src/src/commands.rs\<close>, the
  runs of \<open>Broker::walk\<close> in \<open>src/src/broker.rs\<close>): the runs of keys a scope can reach are
  visited a bounded number at a time, with the lock released in between, and together
  they are exactly the live keys the client may read.
\<close>

subsection \<open>One walk\<close>

text \<open>
  \<open>visit\<close> is given a key, its entry and what the caller gathered so far; it says whether
  to go on. \<open>walk_loop\<close> has looked at \<open>looked\<close> keys already.
\<close>

type_synonym 'a visit = "str \<Rightarrow> kentry \<Rightarrow> 'a \<Rightarrow> 'a \<times> bool"

fun walk_loop ::
  "scope \<Rightarrow> nat \<Rightarrow> u64 \<Rightarrow> 'a visit \<Rightarrow> nat \<Rightarrow> (str \<times> kentry) list \<Rightarrow> 'a \<Rightarrow> 'a \<times> str option" where
  "walk_loop s most now visit looked [] acc = (acc, None)"
| "walk_loop s most now visit looked ((key, e) # keys) acc =
     (let (acc, going) = (if \<not> entry_expired now e \<and> can_read s key then visit key e acc else (acc, True))
      in if \<not> going then (acc, None)
         else if looked + 1 = most then (acc, Some key)
         else walk_loop s most now visit (looked + 1) keys acc)"

definition walk ::
  "db \<Rightarrow> scope \<Rightarrow> str \<Rightarrow> str option \<Rightarrow> nat \<Rightarrow> u64 \<Rightarrow> 'a visit \<Rightarrow> 'a \<Rightarrow> 'a \<times> str option" where
  "walk d s prefix after most now visit acc =
     walk_loop s most now visit 0 (with_prefixes (search_prefixes s prefix) after d) acc"

definition walk_run :: nat where "walk_run = 1000"
definition walk_whole :: nat where "walk_whole = 10000"
definition scan_most :: nat where "scan_most = 1000"
definition max_reply_bytes :: nat where "max_reply_bytes = 64 * 2 ^ 20"

subsection \<open>KEYS, a run at a time\<close>

text \<open>What KEYS gathers: the keys listed, their size as a reply, and whether it grew too large.\<close>

record keys_acc =
  ka_listed :: "str list"
  ka_bytes :: nat
  ka_full :: bool

definition keys_visit :: "glob \<Rightarrow> keys_acc visit" where
  "keys_visit pattern key e acc =
     (if \<not> glob_matches pattern key then (acc, True)
      else
        (let acc = acc\<lparr>ka_bytes := ka_bytes acc + (length key + 4)\<rparr>
         in if ka_bytes acc > max_reply_bytes then (acc\<lparr>ka_full := True\<rparr>, False)
            else (acc\<lparr>ka_listed := ka_listed acc @ [key]\<rparr>, True)))"

text \<open>The loop of \<open>in_runs\<close>, one unit of fuel per run; \<open>None\<close> is a walk not over yet.\<close>

fun keys_runs :: "nat \<Rightarrow> db \<Rightarrow> scope \<Rightarrow> glob \<Rightarrow> u64 \<Rightarrow> str option \<Rightarrow> keys_acc \<Rightarrow> (str + str list) option" where
  "keys_runs 0 d s pattern now after acc = None"
| "keys_runs (Suc n) d s pattern now after acc =
     (let (acc, paused) = walk d s (literal_prefix (glob_source pattern)) after walk_run now (keys_visit pattern) acc
      in if ka_full acc then Some (Inl ''ERR the reply would exceed 64 MiB'')
         else (case paused of
                 Some key \<Rightarrow> keys_runs n d s pattern now (Some key) acc
               | None \<Rightarrow> Some (Inr (ka_listed acc))))"

definition broker_keys :: "nat \<Rightarrow> db \<Rightarrow> scope \<Rightarrow> str \<Rightarrow> u64 \<Rightarrow> (str + str list) option" where
  "broker_keys n d s pattern now =
     (case glob_client pattern of
        Inl e \<Rightarrow> Some (Inl e)
      | Inr g \<Rightarrow> keys_runs n d s g now None \<lparr>ka_listed = [], ka_bytes = 0, ka_full = False\<rparr>)"

subsection \<open>What a walk visits\<close>

fun fold_until :: "'a visit \<Rightarrow> (str \<times> kentry) list \<Rightarrow> 'a \<Rightarrow> 'a \<times> bool" where
  "fold_until visit [] acc = (acc, True)"
| "fold_until visit ((k, e) # xs) acc =
     (let (acc, going) = visit k e acc in if going then fold_until visit xs acc else (acc, False))"

definition visible :: "scope \<Rightarrow> u64 \<Rightarrow> str \<times> kentry \<Rightarrow> bool" where
  "visible s now = (\<lambda>(k, e). \<not> entry_expired now e \<and> can_read s k)"

lemma fold_until_append:
  "fold_until visit (xs @ ys) acc =
    (case fold_until visit xs acc of (acc, True) \<Rightarrow> fold_until visit ys acc | (acc, False) \<Rightarrow> (acc, False))"
  by (induction visit xs acc rule: fold_until.induct) (auto split: prod.splits bool.splits)

lemma walk_loop_fold:
  "looked < most \<Longrightarrow>
   walk_loop s most now visit looked keys acc =
    (case fold_until visit (filter (visible s now) (take (most - looked) keys)) acc of
       (acc, False) \<Rightarrow> (acc, None)
     | (acc, True) \<Rightarrow>
         (acc, if most - looked \<le> length keys then Some (fst (keys ! (most - looked - 1))) else None))"
proof (induction s most now visit looked keys acc rule: walk_loop.induct)
  case (2 s most now visit looked key e keys acc)
  obtain acc1 going where v: "(if \<not> entry_expired now e \<and> can_read s key then visit key e acc else (acc, True)) = (acc1, going)"
    by fastforce
  have split: "fold_until visit (filter (visible s now) (take (most - looked) ((key, e) # keys))) acc =
      (if going then fold_until visit (filter (visible s now) (take (most - looked - 1) keys)) acc1 else (acc1, False))"
    using v 2(2) by (auto simp: take_Cons' visible_def split: if_splits)
  show ?case
  proof (cases "going \<and> looked + 1 \<noteq> most")
    case True
    then have lt: "looked + 1 < most" using 2(2) by simp
    from 2(1) [OF v [symmetric] refl _ _ lt] True v split lt show ?thesis
      by (auto simp: nth_Cons' Suc_diff_Suc split: prod.splits bool.splits)
  next
    case False
    then show ?thesis using v split by (auto simp: Let_def)
  qed
qed simp

lemma resume_drop:
  assumes "sorted_wrt (<) (map fst xs)" "j < length xs"
  shows "filter (\<lambda>(k, _). fst (xs ! j) < k) xs = drop (Suc j) (xs :: (str \<times> 'b) list)"
  using assms
proof (induction xs arbitrary: j)
  case (Cons x xs)
  obtain k v where x: "x = (k, v)" by fastforce
  show ?case
  proof (cases j)
    case 0
    have "\<forall>(k', _) \<in> set xs. k < k'" using Cons.prems x by force
    then have "filter (\<lambda>(k', _). k < k') xs = xs" by (auto simp: filter_id_conv)
    then show ?thesis using 0 x by simp
  next
    case (Suc i)
    have "xs ! i \<in> set xs" using Cons.prems Suc by simp
    then have "\<not> fst (xs ! i) < k" using Cons.prems x by force
    then show ?thesis using Suc x Cons by simp
  qed
qed simp

lemma with_prefixes_resume:
  fixes d :: db
  assumes p: "sorted_wrt (\<lambda>a b. a < b \<and> \<not> starts_with b a) ps"
    and j: "j < length (with_prefixes ps after d)"
  shows "with_prefixes ps (Some (fst (with_prefixes ps after d ! j))) d = drop (Suc j) (with_prefixes ps after d)"
proof -
  let ?L = "with_prefixes ps after d"
  let ?P = "\<lambda>(k, _). after_ok after k \<and> list_ex (starts_with k) ps"
  define lst where "lst = fst (?L ! j)"
  have L: "?L = filter ?P (bm_entries (db_keys d))"
    by (rule with_prefixes_filter [OF p])
  have srt: "sorted_wrt (<) (map fst ?L)" unfolding L by (rule ssorted_filter) simp
  have "?L ! j \<in> set ?L" using j by simp
  then have "after_ok after lst" unfolding L lst_def by auto
  then have *: "after_ok (Some lst) k \<longleftrightarrow> after_ok after k \<and> lst < k" for k
    by (auto simp: after_ok_def split: option.splits)
  have "with_prefixes ps (Some lst) d = filter (\<lambda>(k, _). lst < k) (filter ?P (bm_entries (db_keys d)))"
    unfolding with_prefixes_filter [OF p] filter_filter by (rule filter_cong) (auto simp: *)
  also have "\<dots> = filter (\<lambda>(k, _). lst < k) ?L" by (simp only: L)
  also have "\<dots> = drop (Suc j) ?L" unfolding lst_def by (rule resume_drop [OF srt j])
  finally show ?thesis unfolding lst_def .
qed

definition keys_size :: "str list \<Rightarrow> nat" where
  "keys_size ks = sum_list (map (\<lambda>k. length k + 4) ks)"

lemma fold_keys_visit:
  "\<not> ka_full acc \<Longrightarrow> ka_bytes acc = keys_size (ka_listed acc) \<Longrightarrow> ka_bytes acc \<le> max_reply_bytes \<Longrightarrow>
   (let listed = ka_listed acc @ map fst (filter (\<lambda>(k, _). glob_matches pattern k) xs);
        (acc', going) = fold_until (keys_visit pattern) xs acc
    in if keys_size listed \<le> max_reply_bytes
       then going \<and> \<not> ka_full acc' \<and> ka_listed acc' = listed \<and> ka_bytes acc' = keys_size listed
       else \<not> going \<and> ka_full acc')"
proof (induction xs arbitrary: acc)
  case (Cons x xs)
  obtain k e where x: "x = (k, e)" by fastforce
  show ?case
  proof (cases "glob_matches pattern k")
    case m: True
    show ?thesis
    proof (cases "ka_bytes acc + (length k + 4) \<le> max_reply_bytes")
      case True
      let ?acc = "acc\<lparr>ka_bytes := ka_bytes acc + (length k + 4), ka_listed := ka_listed acc @ [k]\<rparr>"
      have "keys_visit pattern k e acc = (?acc, True)" using m True by (simp add: keys_visit_def)
      moreover have "ka_bytes ?acc = keys_size (ka_listed ?acc)" using Cons.prems by (simp add: keys_size_def)
      ultimately show ?thesis using Cons.IH [of ?acc] Cons.prems True m x by (simp add: Let_def)
    next
      case False
      then have "\<not> keys_size (ka_listed acc @ k # ys) \<le> max_reply_bytes" for ys
        using Cons.prems(2) by (simp add: keys_size_def)
      then show ?thesis using False m x by (simp add: keys_visit_def Let_def)
    qed
  next
    case False
    then show ?thesis using Cons x by (simp add: keys_visit_def)
  qed
qed (simp add: keys_size_def)

lemma keys_runs_all:
  assumes p: "sorted_wrt (\<lambda>a b. a < b \<and> \<not> starts_with b a) (search_prefixes s (literal_prefix (glob_source pattern)))"
    and "length (with_prefixes (search_prefixes s (literal_prefix (glob_source pattern))) after d) < n * walk_run"
    and "\<not> ka_full acc" "ka_bytes acc = keys_size (ka_listed acc)" "ka_bytes acc \<le> max_reply_bytes"
  shows "keys_runs n d s pattern now after acc =
    (let listed = ka_listed acc @ map fst (filter (\<lambda>(k, _). glob_matches pattern k)
           (filter (visible s now) (with_prefixes (search_prefixes s (literal_prefix (glob_source pattern))) after d)))
     in Some (if keys_size listed \<le> max_reply_bytes then Inr listed else Inl ''ERR the reply would exceed 64 MiB''))"
  using assms(2-5)
proof (induction n arbitrary: after acc)
  case 0
  then show ?case by simp
next
  case (Suc n)
  let ?ps = "search_prefixes s (literal_prefix (glob_source pattern))"
  let ?L = "with_prefixes ?ps after d"
  have w0: "0 < walk_run" by (simp add: walk_run_def)
  define vis where "vis = filter (visible s now) (take walk_run ?L)"
  define part where "part = ka_listed acc @ map fst (filter (\<lambda>(k, _). glob_matches pattern k) vis)"
  define rest where "rest = map fst (filter (\<lambda>(k, _). glob_matches pattern k) (filter (visible s now) (drop walk_run ?L)))"
  have all: "ka_listed acc @ map fst (filter (\<lambda>(k, _). glob_matches pattern k) (filter (visible s now) ?L)) = part @ rest"
    unfolding part_def rest_def vis_def
    by (metis append.assoc append_take_drop_id filter_append map_append)
  obtain acc' going where f: "fold_until (keys_visit pattern) vis acc = (acc', going)" by fastforce
  have w: "walk d s (literal_prefix (glob_source pattern)) after walk_run now (keys_visit pattern) acc =
      (if going then (acc', if walk_run \<le> length ?L then Some (fst (?L ! (walk_run - 1))) else None) else (acc', None))"
    unfolding walk_def using walk_loop_fold [OF w0, of s now "keys_visit pattern" ?L acc] f
    by (simp add: vis_def)
  note fv = fold_keys_visit [OF Suc.prems(2-4), of pattern vis, unfolded f part_def [symmetric], simplified Let_def prod.case]
  show ?case
  proof (cases "keys_size part \<le> max_reply_bytes")
    case False
    then have "\<not> keys_size (part @ rest) \<le> max_reply_bytes" by (simp add: keys_size_def)
    moreover have "ka_full acc'" "\<not> going" using fv False by auto
    ultimately show ?thesis unfolding all using w by (simp add: Let_def)
  next
    case True
    then have g: "going" "\<not> ka_full acc'" "ka_listed acc' = part" "ka_bytes acc' = keys_size part" using fv by auto
    show ?thesis
    proof (cases "walk_run \<le> length ?L")
      case le: True
      let ?last = "fst (?L ! (walk_run - 1))"
      have r: "with_prefixes ?ps (Some ?last) d = drop walk_run ?L"
        using with_prefixes_resume [OF p, of "walk_run - 1" after d] le w0 by simp
      have "length (with_prefixes ?ps (Some ?last) d) < n * walk_run"
        using Suc.prems(1) le unfolding r by simp
      from Suc.IH [OF this g(2)] g True
      have "keys_runs n d s pattern now (Some ?last) acc' =
          Some (if keys_size (part @ rest) \<le> max_reply_bytes then Inr (part @ rest) else Inl ''ERR the reply would exceed 64 MiB'')"
        unfolding r rest_def by (simp add: Let_def)
      then show ?thesis unfolding all using w g le by (simp add: Let_def)
    next
      case False
      then have "rest = []" by (simp add: rest_def)
      then show ?thesis unfolding all using w g True False by (simp add: Let_def)
    qed
  qed
qed



end
