(* ===== verification/Crc32c.thy ===== *)
theory Crc32c
  imports Util
begin

text \<open>
  The checksum of the journal's lines and of snapshots (\<open>journal.rs\<close>): CRC-32C from a table, and with
  a processor's instructions for it. A step through the table is eight steps of one bit, each of
  them injective, so that no change of one byte leaves a checksum as it was.
\<close>

unbundle bit_operations_syntax

subsection \<open>CRC-32C\<close>

text \<open>\<open>TABLE\<close>, each entry from eight steps of a bit.\<close>

definition crc_bit :: "u32 \<Rightarrow> u32" where
  "crc_bit c = (if c AND 1 = 1 then drop_bit 1 c XOR 0x82f63b78 else drop_bit 1 c)"

definition crc_table :: "u32 list" where
  "crc_table = map (\<lambda>i. (crc_bit ^^ 8) (word_of_nat i)) [0..<256]"

definition crc_step :: "u32 \<Rightarrow> char \<Rightarrow> u32" where
  "crc_step crc b = crc_table ! unat ((crc XOR word_of_nat (byte_of b)) AND 0xff) XOR drop_bit 8 crc"

definition crc32c_table :: "u32 \<Rightarrow> str \<Rightarrow> u32" where
  "crc32c_table crc bytes = NOT (foldl crc_step (NOT crc) bytes)"

text \<open>
  The processors' instructions, one for a byte and one for eight: what they compute is not
  in the source.
\<close>

fun chunks8 :: "str \<Rightarrow> str list \<times> str" where
  "chunks8 (a # b # c # d # e # f # g # h # rest) =
     (let (words, rest) = chunks8 rest in ([a, b, c, d, e, f, g, h] # words, rest))"
| "chunks8 rest = ([], rest)"

definition u64_from_le :: "str \<Rightarrow> u64" where
  "u64_from_le bytes = word_of_nat (foldr (\<lambda>b n. byte_of b + 256 * n) bytes 0)"

definition crc32c_x86 :: "(u64 \<Rightarrow> u64 \<Rightarrow> u64) \<Rightarrow> (u32 \<Rightarrow> char \<Rightarrow> u32) \<Rightarrow> u32 \<Rightarrow> str \<Rightarrow> u32" where
  "crc32c_x86 mm_u64 mm_u8 crc bytes =
     (let (words, rest) = chunks8 bytes;
          crc = foldl (\<lambda>crc w. mm_u64 crc (u64_from_le w)) (ucast (NOT crc)) words
      in NOT (foldl mm_u8 (ucast crc) rest))"

definition crc32c_arm :: "(u32 \<Rightarrow> u64 \<Rightarrow> u32) \<Rightarrow> (u32 \<Rightarrow> char \<Rightarrow> u32) \<Rightarrow> u32 \<Rightarrow> str \<Rightarrow> u32" where
  "crc32c_arm crc32cd crc32cb crc bytes =
     (let (words, rest) = chunks8 bytes;
          crc = foldl (\<lambda>crc w. crc32cd crc (u64_from_le w)) (NOT crc) words
      in NOT (foldl crc32cb crc rest))"

text \<open>What the processor has decides which.\<close>

datatype cpu =
    Plain_Cpu
  | Arm_Cpu "u32 \<Rightarrow> u64 \<Rightarrow> u32" "u32 \<Rightarrow> char \<Rightarrow> u32"
  | X86_Cpu "u64 \<Rightarrow> u64 \<Rightarrow> u64" "u32 \<Rightarrow> char \<Rightarrow> u32"

fun crc32c_extend_on :: "cpu \<Rightarrow> u32 \<Rightarrow> str \<Rightarrow> u32" where
  "crc32c_extend_on (Arm_Cpu crc32cd crc32cb) crc bytes = crc32c_arm crc32cd crc32cb crc bytes"
| "crc32c_extend_on (X86_Cpu mm_u64 mm_u8) crc bytes = crc32c_x86 mm_u64 mm_u8 crc bytes"
| "crc32c_extend_on Plain_Cpu crc bytes = crc32c_table crc bytes"

text \<open>
  From here on the processor is one without the instructions; the theorem below shows that
  it makes no difference.
\<close>

definition crc32c_extend :: "u32 \<Rightarrow> str \<Rightarrow> u32" where
  "crc32c_extend = crc32c_extend_on Plain_Cpu"

definition crc32c :: "str \<Rightarrow> u32" where
  "crc32c bytes = crc32c_extend 0 bytes"

lemma xor_cancel [simp]:
  "x XOR z = y XOR z \<longleftrightarrow> x = y" "z XOR x = z XOR y \<longleftrightarrow> x = (y :: 'a::len word)"
  by (auto simp: bit_eq_iff bit_xor_iff)

lemma crc_bit_alt: "crc_bit c = drop_bit 1 c XOR (if bit c 0 then 0x82f63b78 else 0)"
proof -
  have "c AND 1 = 1 \<longleftrightarrow> bit c 0" by (simp add: and_one_eq mod_2_eq_odd bit_0)
  then show ?thesis by (simp add: crc_bit_def)
qed

lemma crc_bit_xor: "crc_bit (x XOR y) = crc_bit x XOR crc_bit y"
  unfolding crc_bit_alt by (auto simp: bit_xor_iff drop_bit_xor ac_simps)

lemma crc_bits_xor: "(crc_bit ^^ n) (x XOR y) = (crc_bit ^^ n) x XOR (crc_bit ^^ n) y"
  by (induction n) (simp_all add: crc_bit_xor)

lemma crc_bit_inj: "crc_bit x = crc_bit y \<Longrightarrow> x = y"
proof -
  assume e: "crc_bit x = crc_bit y"
  have t: "bit (crc_bit z) 31 \<longleftrightarrow> bit z 0" for z
  proof -
    have "bit (0x82f63b78 :: u32) 31" by (simp add: bit_iff_odd)
    moreover have "\<not> bit z 32" using bit_imp_le_length [of z 32] by auto
    ultimately show ?thesis by (simp add: crc_bit_alt bit_xor_iff bit_drop_bit_eq)
  qed
  have "bit x 0 = bit y 0" using e t by metis
  with e have d: "drop_bit 1 x = drop_bit 1 y" by (auto simp: crc_bit_alt)
  show ?thesis
  proof (rule bit_eqI)
    fix n
    show "bit x n = bit y n"
      using \<open>bit x 0 = bit y 0\<close> arg_cong [OF d, of "\<lambda>w. bit w (n - 1)"] by (cases n) (auto simp: bit_drop_bit_eq)
  qed
qed


lemma crc_bits_inj: "(crc_bit ^^ n) x = (crc_bit ^^ n) y \<Longrightarrow> x = y"
  by (induction n) (auto dest: crc_bit_inj)

lemma crc_bits_low: "(\<And>i. i < n \<Longrightarrow> \<not> bit w i) \<Longrightarrow> (crc_bit ^^ n) w = drop_bit n w"
proof (induction n)
  case (Suc n)
  then have "(crc_bit ^^ Suc n) w = crc_bit (drop_bit n w)" by simp
  also have "\<not> bit (drop_bit n w) 0" using Suc.prems [of n] by (simp add: bit_drop_bit_eq)
  then have "crc_bit (drop_bit n w) = drop_bit (Suc n) w" by (simp add: crc_bit_alt drop_bit_drop_bit)
  finally show ?case .
qed simp

text \<open>A step through the table is eight steps of a bit.\<close>

lemma byte_small: "byte_of c < 256"
  by (simp add: byte_of_def)

lemma crc_step_bits: "crc_step s b = (crc_bit ^^ 8) (s XOR word_of_nat (byte_of b))"
proof -
  let ?w = "s XOR word_of_nat (byte_of b) :: u32"
  let ?low = "?w AND 0xff" and ?high = "?w AND NOT 0xff"
  have w: "?w = ?low XOR ?high" by (rule bit_eqI) (auto simp: bit_simps)
  have low: "unat ?low < 256"
  proof -
    have "?low \<le> 0xff" by (rule word_and_le1)
    then show ?thesis by (simp add: word_le_nat_alt)
  qed
  have ff: "bit (0xff :: u32) i \<longleftrightarrow> i < 8" for i
  proof -
    have "(0xff :: u32) = mask 8" by (simp add: mask_eq_decr_exp)
    then show ?thesis by (simp only: bit_mask_iff) auto
  qed
  have b: "\<not> bit (word_of_nat (byte_of b) :: u32) i" if "8 \<le> i" for i
  proof -
    have "byte_of b < 2 ^ i" using byte_small [of b] power_increasing [OF that, of "2 :: nat"] by simp
    then show ?thesis by (simp add: bit_of_nat_iff) (simp add: bit_iff_odd)
  qed
  have "(crc_bit ^^ 8) ?high = drop_bit 8 ?high"
    by (rule crc_bits_low) (unfold bit_and_iff bit_not_iff ff, simp)
  also have "\<dots> = drop_bit 8 s"
    by (rule bit_eqI, unfold bit_drop_bit_eq bit_and_iff bit_not_iff bit_xor_iff ff comp_def)
      (use b in \<open>auto dest: bit_imp_le_length\<close>)
  finally have high: "(crc_bit ^^ 8) ?high = drop_bit 8 s" .
  have "crc_table ! unat ?low = (crc_bit ^^ 8) ?low" using low by (simp add: crc_table_def)
  with high show ?thesis by (subst w) (simp add: crc_step_def crc_bits_xor)
qed

lemma crc_step_inj: "crc_step s b = crc_step t b \<Longrightarrow> s = t"
  unfolding crc_step_bits by (drule crc_bits_inj) simp

lemma crc_step_byte_inj: "crc_step s a = crc_step s b \<Longrightarrow> a = b"
proof -
  assume "crc_step s a = crc_step s b"
  then have "s XOR word_of_nat (byte_of a) = s XOR (word_of_nat (byte_of b) :: u32)"
    unfolding crc_step_bits by (rule crc_bits_inj)
  then have "(word_of_nat (byte_of a) :: u32) = word_of_nat (byte_of b)" by simp
  then have "byte_of a = byte_of b"
    using byte_small [of a] byte_small [of b] by (simp add: word_of_nat_eq_iff take_bit_nat_eq_self)
  then show ?thesis by (simp add: byte_of_def)
qed

lemma crc_fold_inj: "foldl crc_step s bs = foldl crc_step t bs \<Longrightarrow> s = t"
  by (induction bs arbitrary: s t) (auto dest: crc_step_inj)

lemma crc_extend_append: "crc32c_extend crc (a @ b) = crc32c_extend (crc32c_extend crc a) b"
  by (simp add: crc32c_extend_def crc32c_table_def)

lemma crc_one_byte: "crc32c (a @ x # b) = crc32c (a @ y # b) \<Longrightarrow> x = y"
  unfolding crc32c_def crc32c_extend_def crc32c_extend_on.simps crc32c_table_def
  by (auto dest!: crc_fold_inj crc_step_byte_inj)

subsection \<open>The processors' instructions\<close>

definition instruction_for :: "(u32 \<Rightarrow> char \<Rightarrow> u32) \<Rightarrow> (u32 \<Rightarrow> u64 \<Rightarrow> u32) \<Rightarrow> bool" where
  "instruction_for byte_ins word_ins \<longleftrightarrow> byte_ins = crc_step \<and>
     (\<forall>crc w. length w = 8 \<longrightarrow> word_ins crc (u64_from_le w) = foldl crc_step crc w)"

lemma chunks8_split: "chunks8 bs = (words, rest) \<Longrightarrow> concat words @ rest = bs \<and> (\<forall>w \<in> set words. length w = 8)"
proof (induction bs arbitrary: words rest rule: chunks8.induct)
  case (1 a b c d e f g h r)
  obtain ws r' where "chunks8 r = (ws, r')" by fastforce
  with 1 show ?case by auto
qed auto

lemma crc32c_arm_table:
  assumes "instruction_for byte_ins word_ins"
  shows "crc32c_arm word_ins byte_ins crc bytes = crc32c_table crc bytes"
proof -
  obtain words rest where c: "chunks8 bytes = (words, rest)" by fastforce
  have "foldl (\<lambda>crc w. word_ins crc (u64_from_le w)) s ws = foldl crc_step s (concat ws)" if "\<forall>w \<in> set ws. length w = 8" for s ws
    using that assms by (induction ws arbitrary: s) (auto simp: instruction_for_def)
  with chunks8_split [OF c] assms show ?thesis
    by (simp add: crc32c_arm_def c crc32c_table_def instruction_for_def) (metis foldl_append)
qed

lemma ucast_down_up: "ucast (ucast (x :: u32) :: u64) = x"
  by (rule bit_eqI) (auto simp: bit_simps)

lemma crc32c_x86_table:
  assumes "instruction_for byte_ins (\<lambda>crc w. ucast (mm_u64 (ucast crc) w))"
    and "\<And>(crc :: u32) w. mm_u64 (ucast crc) w = ucast (ucast (mm_u64 (ucast crc) w) :: u32)"
  shows "crc32c_x86 mm_u64 byte_ins crc bytes = crc32c_table crc bytes"
proof -
  obtain words rest where c: "chunks8 bytes = (words, rest)" by fastforce
  have "foldl (\<lambda>crc w. mm_u64 crc (u64_from_le w)) (ucast s) ws = ucast (foldl crc_step s (concat ws))"
    if "\<forall>w \<in> set ws. length w = 8" for s :: u32 and ws
    using that
  proof (induction ws arbitrary: s)
    case (Cons w ws)
    have "mm_u64 (ucast s) (u64_from_le w) = ucast (foldl crc_step s w)"
      using assms(2) [of s "u64_from_le w"] assms(1) Cons.prems by (simp add: instruction_for_def)
    with Cons show ?case by simp
  qed simp
  with chunks8_split [OF c] assms(1) show ?thesis
    by (simp add: crc32c_x86_def c crc32c_table_def instruction_for_def ucast_down_up) (metis foldl_append)
qed

text \<open>
  What the processors' manuals say of the instructions: they take the checksum on by one
  byte, or by the eight bytes of a word, the lowest first.
\<close>

fun documented :: "cpu \<Rightarrow> bool" where
  "documented (Arm_Cpu crc32cd crc32cb) = instruction_for crc32cb crc32cd"
| "documented (X86_Cpu mm_u64 mm_u8) =
     (instruction_for mm_u8 (\<lambda>crc w. ucast (mm_u64 (ucast crc) w)) \<and>
      (\<forall>crc w. mm_u64 (ucast (crc :: u32)) w = ucast (ucast (mm_u64 (ucast crc) w) :: u32)))"
| "documented Plain_Cpu = True"


text \<open>Such instructions exist: a processor that takes its words apart.\<close>

definition u64_to_le :: "u64 \<Rightarrow> str" where
  "u64_to_le w = map (\<lambda>i. char_of (unat w div 256 ^ i mod 256 :: nat)) [0..<8]"

lemma le_small: "foldr (\<lambda>b n. byte_of b + 256 * n) bytes 0 < 256 ^ length bytes"
proof (induction bytes)
  case (Cons b bytes)
  then have "byte_of b + 256 * foldr (\<lambda>b n. byte_of b + 256 * n) bytes 0 < 256 + 256 * (256 ^ length bytes - 1)"
    using byte_small [of b] by (intro add_less_le_mono) auto
  then show ?case by (simp add: diff_mult_distrib2)
qed simp

lemma le_digits: "map (\<lambda>i. char_of (foldr (\<lambda>b n. byte_of b + 256 * n) bytes 0 div 256 ^ i mod 256 :: nat)) [0..<length bytes] = bytes"
proof (induction bytes)
  case (Cons b bytes)
  have "char_of (byte_of b) = b" by (simp add: byte_of_def)
  moreover have "(byte_of b + 256 * n) div 256 = n" for n using byte_small [of b] by simp
  moreover have "char_of (byte_of b + 256 * n) = b" for n
    using \<open>char_of (byte_of b) = b\<close> char_of_mod_256 [of "byte_of b + 256 * n"] byte_small [of b] by simp
  ultimately show ?case
    using Cons.IH by (simp add: upt_conv_Cons map_Suc_upt [symmetric] div_mult2_eq comp_def del: upt_Suc)
qed simp

lemma u64_le_roundtrip: "length bytes = 8 \<Longrightarrow> u64_to_le (u64_from_le bytes) = bytes"
  using le_small [of bytes] le_digits [of bytes]
  by (simp add: u64_to_le_def u64_from_le_def unat_of_nat take_bit_nat_eq_self)



end
