(* ===== verification/Journal_Lines.thy ===== *)
theory Journal_Lines
  imports Crc32c Broker_Total
begin

text \<open>
  The lines of a journal (\<open>journal.rs\<close>: \<open>write_line\<close>, \<open>intact\<close>, \<open>scan\<close>, \<open>replay\<close>). Files are
  their bytes. What serde writes of an effect and reads in a line is a parameter, \<open>line_codec\<close>; that
  it reads back what it writes is the hypothesis \<open>readable\<close>.
\<close>

subsection \<open>Lines\<close>

definition newline :: char where
  "newline = CHR 10"

text \<open>What each line starts with, the digits to be filled in.\<close>

definition checksum_start :: str where
  "checksum_start = [CHR ''{'', CHR 34, CHR ''c'', CHR 34, CHR '':'', CHR 34]"

definition checksum_mid :: str where
  "checksum_mid = [CHR 34, CHR '','']"

definition checksum :: str where
  "checksum = checksum_start @ ''00000000'' @ checksum_mid"

text \<open>\<open>write_hex\<close>, the eight digits.\<close>

definition hex_digits :: "u32 \<Rightarrow> str" where
  "hex_digits crc = map (\<lambda>i. ''0123456789abcdef'' ! unat (drop_bit (28 - 4 * i) crc AND 15)) [0..<8]"

definition read_hex :: "str \<Rightarrow> u32 option" where
  "read_hex digits = foldl (\<lambda>crc d. Option.bind crc (\<lambda>crc. map_option (\<lambda>v. push_bit 4 crc OR word_of_nat v) (to_digit16 d)))
     (Some 0) digits"

text \<open>
  What serde makes of an effect, and of a line: the JSON text of an effect, or why it cannot
  be written, and the number and the effect a line's text is read as.
\<close>

record line_codec =
  effect_text :: "effect \<Rightarrow> str + str"
  line_entry :: "str \<Rightarrow> (u64 \<times> effect) option"

definition line_body :: "u64 \<Rightarrow> str \<Rightarrow> str" where
  "line_body seq text = [CHR 34, CHR ''s'', CHR 34, CHR '':''] @ show_nat (unat seq) @
     [CHR '','', CHR 34, CHR ''e'', CHR 34, CHR '':''] @ text @ ''}''"

definition sealed_line :: "str \<Rightarrow> str" where
  "sealed_line body = checksum_start @ hex_digits (crc32c body) @ checksum_mid @ body @ [newline]"

text \<open>Writing a line onto the end of \<open>out\<close>, which is as it was when the effect cannot be written.\<close>

definition write_line :: "line_codec \<Rightarrow> str \<Rightarrow> u64 \<Rightarrow> effect \<Rightarrow> str \<times> str option" where
  "write_line lc out seq e =
     (case effect_text lc e of
        Inl why \<Rightarrow> (out, Some why)
      | Inr text \<Rightarrow> (out @ sealed_line (line_body seq text), None))"

text \<open>Whether a line is as it was written, matching the checksum it starts with.\<close>

definition strip_newline :: "str \<Rightarrow> str" where
  "strip_newline line = (if line \<noteq> [] \<and> List.last line = newline then butlast line else line)"

definition intact :: "str \<Rightarrow> bool" where
  "intact line \<longleftrightarrow>
     (case strip_prefix checksum_start (strip_newline line) of
        None \<Rightarrow> False
      | Some rest \<Rightarrow>
          (case (if 8 \<le> length rest then read_hex (take 8 rest) else None,
                 if 8 \<le> length rest then strip_prefix checksum_mid (drop 8 rest) else None) of
             (Some written, Some body) \<Rightarrow> written = crc32c body
           | _ \<Rightarrow> False))"

subsection \<open>The checksum of a line\<close>

lemma hex_digit_value: "n < 16 \<Longrightarrow> to_digit16 (''0123456789abcdef'' ! n) = Some n"
proof -
  have "\<forall>n \<in> {..<16}. to_digit16 (''0123456789abcdef'' ! n) = Some n" by code_simp
  then show "n < 16 \<Longrightarrow> to_digit16 (''0123456789abcdef'' ! n) = Some n" by blast
qed

lemma hex_digit_line: "n < 16 \<Longrightarrow> ''0123456789abcdef'' ! n \<noteq> newline"
proof -
  have "\<forall>n \<in> {..<16}. ''0123456789abcdef'' ! n \<noteq> newline" by code_simp
  then show "n < 16 \<Longrightarrow> ''0123456789abcdef'' ! n \<noteq> newline" by blast
qed

lemma nibble_small: "unat (w AND 15 :: u32) < 16"
proof -
  have "w AND 15 \<le> 15" by (rule word_and_le1)
  then show ?thesis by (simp add: word_le_nat_alt)
qed

lemma length_hex_digits [simp]: "length (hex_digits crc) = 8"
  by (simp add: hex_digits_def)

lemma next_nibble: "push_bit 4 (drop_bit (n + 4) w) OR (drop_bit n w AND 15) = drop_bit n (w :: u32)"
proof (rule bit_eqI)
  fix i assume "possible_bit TYPE(u32) i"
  have m: "(15 :: u32) = mask 4" by (simp add: mask_eq_decr_exp)
  show "bit (push_bit 4 (drop_bit (n + 4) w) OR (drop_bit n w AND 15)) i = bit (drop_bit n w) i"
    by (cases "i < 4")
      (auto simp: m bit_or_iff bit_push_bit_iff bit_and_iff bit_drop_bit_eq bit_mask_iff algebra_simps dest: bit_imp_le_length)
qed

lemma read_hex_digits: "read_hex (hex_digits crc) = Some crc"
proof -
  define nib where "nib i = (drop_bit (28 - 4 * i) crc AND 15 :: u32)" for i
  have d: "to_digit16 (''0123456789abcdef'' ! unat (nib i)) = Some (unat (nib i))" for i
    by (rule hex_digit_value) (simp add: nib_def nibble_small)
  have "hex_digits crc = map (\<lambda>i. ''0123456789abcdef'' ! unat (nib i)) [0, 1, 2, 3, 4, 5, 6, 7]"
    by (simp add: hex_digits_def nib_def upt_rec)
  then have r: "read_hex (hex_digits crc) = Some (foldl (\<lambda>crc v. push_bit 4 crc OR v) 0 (map nib [0, 1, 2, 3, 4, 5, 6, 7]))"
    by (simp add: read_hex_def d)
  have z: "drop_bit 32 crc = 0" by (rule bit_eqI) (auto simp: bit_drop_bit_eq dest: bit_imp_le_length)
  have s: "push_bit 4 (drop_bit (32 - 4 * i) crc) OR nib i = drop_bit (28 - 4 * i) crc" if "i < 8" for i
    using next_nibble [of "28 - 4 * i" crc] that by (simp add: nib_def)
  have s0: "push_bit 4 0 OR nib 0 = drop_bit 28 crc" using s [of 0] z by simp
  show ?thesis
    unfolding r using s [of 1] s [of 2] s [of 3] s [of 4] s [of 5] s [of 6] s [of 7] s0 by simp
qed

lemma nth_append_first: "i < length xs \<Longrightarrow> (xs @ ys) ! i = xs ! i"
  by (simp add: nth_append)

lemma hex_digits_no_newline: "newline \<notin> set (hex_digits crc)"
proof -
  have "''0123456789abcdef'' ! unat (drop_bit (28 - 4 * i) crc AND 15) \<noteq> newline" for i
    by (rule hex_digit_line) (rule nibble_small)
  note d = this
  show ?thesis
  proof
    assume "newline \<in> set (hex_digits crc)"
    then obtain i where "newline = ''0123456789abcdef'' ! unat (drop_bit (28 - 4 * i) crc AND 15)"
      unfolding hex_digits_def set_map by (rule imageE)
    with d [of i] show False by (rule notE [OF _ sym])
  qed
qed

lemma strip_newline_end [simp]: "strip_newline (s @ [newline]) = s"
  by (simp add: strip_newline_def)

lemma intact_iff: "intact (line @ [newline]) \<longleftrightarrow>
    (\<exists>digits body. line = checksum_start @ digits @ checksum_mid @ body \<and> length digits = 8 \<and> read_hex digits = Some (crc32c body))"
  (is "_ \<longleftrightarrow> ?r")
proof
  assume "intact (line @ [newline])"
  then have i: "case strip_prefix checksum_start line of None \<Rightarrow> False | Some rest \<Rightarrow>
      (case (if 8 \<le> length rest then read_hex (take 8 rest) else None,
             if 8 \<le> length rest then strip_prefix checksum_mid (drop 8 rest) else None) of
         (Some written, Some body) \<Rightarrow> written = crc32c body | _ \<Rightarrow> False)"
    unfolding intact_def strip_newline_end .
  then obtain rest where r: "strip_prefix checksum_start line = Some rest" by (auto split: option.splits)
  from i have "8 \<le> length rest" by (auto simp: r split: if_splits)
  with i obtain body where "read_hex (take 8 rest) = Some (crc32c body)" "strip_prefix checksum_mid (drop 8 rest) = Some body"
    by (auto simp: r split: option.splits)
  then have b: "read_hex (take 8 rest) = Some (crc32c body)" "drop 8 rest = checksum_mid @ body"
    by (auto simp: strip_prefix_def starts_with_iff split: if_splits)
  have r: "line = checksum_start @ rest" using r by (auto simp: strip_prefix_def starts_with_iff split: if_splits)
  moreover have "rest = take 8 rest @ drop 8 rest" by simp
  ultimately show ?r
    using r b \<open>8 \<le> length rest\<close> by (intro exI [of _ "take 8 rest"] exI [of _ body]) auto
next
  assume ?r
  then obtain digits body where l: "line = checksum_start @ digits @ checksum_mid @ body" "length digits = 8"
    "read_hex digits = Some (crc32c body)" by blast
  then have "strip_prefix checksum_start line = Some (digits @ checksum_mid @ body)"
    "strip_prefix checksum_mid (drop 8 (digits @ checksum_mid @ body)) = Some body"
    by (simp_all add: strip_prefix_def starts_with_iff)
  with l show "intact (line @ [newline])"
    unfolding intact_def strip_newline_end by simp
qed

lemma intact_sealed: "intact (sealed_line body)"
  unfolding sealed_line_def
  by (simp only: append_assoc [symmetric] intact_iff) (simp add: read_hex_digits, metis length_hex_digits read_hex_digits)

text \<open>
  No damage of one byte passes: when a line that matches its checksum has one byte
  changed to another, it matches no more, unless the byte is one of the eight digits of
  the checksum itself, which leaves what the line says as it was.
\<close>

lemma one_damaged_byte_is_caught:
  assumes "intact (a @ x # b @ [newline])" "x \<noteq> y" "intact (a @ y # b @ [newline])"
  shows "6 \<le> length a \<and> length a < 14"
proof -
  from assms(1) obtain d1 b1 where l: "a @ x # b = checksum_start @ d1 @ checksum_mid @ b1" "length d1 = 8" "read_hex d1 = Some (crc32c b1)"
    using intact_iff [of "a @ x # b"] by auto
  from assms(3) obtain d2 b2 where m: "a @ y # b = checksum_start @ d2 @ checksum_mid @ b2" "length d2 = 8" "read_hex d2 = Some (crc32c b2)"
    using intact_iff [of "a @ y # b"] by auto
  have at: "(a @ x # b) ! length a = x" "(a @ y # b) ! length a = y" by simp_all
  have start: "(checksum_start @ d @ checksum_mid @ body) ! i = checksum_start ! i" if "i < 6" for d body i
    using that by (intro nth_append_first) (simp add: checksum_start_def)
  have mid: "(checksum_start @ d @ checksum_mid @ body) ! i = checksum_mid ! (i - 14)" if "14 \<le> i" "i < 16" "length d = 8" for d body i
  proof -
    have "(checksum_start @ d @ checksum_mid @ body) ! i = (checksum_mid @ body) ! (i - length (checksum_start @ d))"
      using that by (subst append_assoc [symmetric], subst nth_append) (simp add: checksum_start_def)
    also have "\<dots> = checksum_mid ! (i - 14)"
      using that by (subst nth_append) (auto simp: checksum_start_def checksum_mid_def)
    finally show ?thesis .
  qed
  have "\<not> length a < 6" using start [of "length a"] at assms(2) l(1) m(1) by metis
  moreover have "\<not> 14 \<le> length a"
  proof
    assume far: "14 \<le> length a"
    have "\<not> length a < 16" using mid [of "length a"] far at assms(2) l(1,2) m(1,2) by metis
    then have far: "16 \<le> length a" by simp
    have "take 14 (drop 0 (a @ x # b)) = take 14 (a @ y # b)" using far by simp
    then have "checksum_start @ d1 = checksum_start @ d2"
      unfolding l(1) m(1) using l(2) m(2) by (simp add: checksum_start_def)
    moreover have "drop 16 (a @ x # b) = b1" "drop 16 (a @ y # b) = b2"
      unfolding l(1) m(1) using l(2) m(2) by (simp_all add: checksum_start_def checksum_mid_def)
    ultimately have "crc32c (drop 16 a @ x # b) = crc32c (drop 16 a @ y # b)"
      using l(3) m(3) far by simp
    with assms(2) crc_one_byte show False by blast
  qed
  ultimately show ?thesis by simp
qed

subsection \<open>Reading a journal\<close>

text \<open>\<open>read_until\<close>, and \<open>u8::is_ascii_whitespace\<close>.\<close>

fun read_line :: "str \<Rightarrow> str \<times> str" where
  "read_line [] = ([], [])"
| "read_line (c # cs) = (if c = newline then ([c], cs) else (let (line, rest) = read_line cs in (c # line, rest)))"

definition blank_byte :: "char \<Rightarrow> bool" where
  "blank_byte c \<longleftrightarrow> byte_of c \<in> {32, 9, 10, 12, 13}"

record scanned =
  sc_seq :: u64
  sc_valid :: nat
  sc_lines :: nat
  sc_corrupt :: "nat option"

lemma read_line_parts: "read_line bs = (line, rest) \<Longrightarrow> bs = line @ rest \<and> (bs \<noteq> [] \<longrightarrow> line \<noteq> [])"
  by (induction bs arbitrary: line rest rule: read_line.induct) (auto split: if_splits prod.splits)

definition complete :: "str \<Rightarrow> bool" where
  "complete line \<longleftrightarrow> line \<noteq> [] \<and> List.last line = newline"

function scan_lines ::
  "line_codec \<Rightarrow> u64 \<Rightarrow> (effect \<Rightarrow> 's \<Rightarrow> 's) \<Rightarrow> str \<Rightarrow> 's \<Rightarrow> scanned \<Rightarrow> 's \<times> scanned" where
  "scan_lines lc snapshot_seq apply bytes s sc =
     (let (line, rest) = read_line bytes;
          stop = (s, sc\<lparr>sc_corrupt := (if list_all blank_byte rest then None else Some (sc_lines sc + 1))\<rparr>)
      in if line = [] then (s, sc)
         else case line_entry lc line of
             None \<Rightarrow> stop
           | Some (n, e) \<Rightarrow>
               if complete line \<and> intact line
               then scan_lines lc snapshot_seq apply rest (if n > snapshot_seq then apply e s else s)
                      (sc\<lparr>sc_seq := max (sc_seq sc) n, sc_valid := sc_valid sc + length line, sc_lines := sc_lines sc + 1\<rparr>)
               else stop)"
  by pat_completeness auto
termination
proof (relation "measure (\<lambda>(lc, snapshot_seq, apply, bytes, s, sc). length bytes)", goal_cases)
  case (2 lc snapshot_seq ap bytes s sc p line rest stop q n e)
  then show ?case using read_line_parts [of bytes line rest] by (cases "bytes = []") auto
qed simp

declare scan_lines.simps [simp del]

definition scan_file :: "line_codec \<Rightarrow> u64 \<Rightarrow> (effect \<Rightarrow> 's \<Rightarrow> 's) \<Rightarrow> str \<Rightarrow> 's \<Rightarrow> 's \<times> scanned" where
  "scan_file lc snapshot_seq apply file s =
     scan_lines lc snapshot_seq apply file s \<lparr>sc_seq = snapshot_seq, sc_valid = 0, sc_lines = 0, sc_corrupt = None\<rparr>"

text \<open>Replaying what a journal holds: the last number and the bytes of whole lines, or why not.\<close>

definition corrupt_text :: "str \<Rightarrow> nat \<Rightarrow> str" where
  "corrupt_text path line = ''corrupt journal entry at '' @ path @ '':'' @ show_nat line @
     ''; refusing to start. Run `postino repair` to start from the changes before it, or move the file aside to recover from the last snapshot.''"

definition replay :: "line_codec \<Rightarrow> codec \<Rightarrow> str \<Rightarrow> store \<Rightarrow> u64 \<Rightarrow> str \<Rightarrow> store \<times> (str + (u64 \<times> nat))" where
  "replay lc cd file st snapshot_seq path =
     (let (st, sc) = scan_file lc snapshot_seq (apply_effect cd) file st
      in case sc_corrupt sc of
           Some line \<Rightarrow> (st, Inl (corrupt_text path line))
         | None \<Rightarrow> (st, Inr (sc_seq sc, sc_valid sc)))"

subsection \<open>Writing and reading agree\<close>

text \<open>What serde promises of an effect: it is written on one line, which is read back as it.\<close>

definition readable :: "line_codec \<Rightarrow> effect \<Rightarrow> bool" where
  "readable lc e \<longleftrightarrow>
     (\<exists>text. effect_text lc e = Inr text \<and> newline \<notin> set text \<and>
        (\<forall>n. line_entry lc (sealed_line (line_body n text)) = Some (n, e)))"

definition line_of :: "line_codec \<Rightarrow> u64 \<Rightarrow> effect \<Rightarrow> str" where
  "line_of lc n e = fst (write_line lc [] n e)"

primrec journal_text :: "line_codec \<Rightarrow> u64 \<Rightarrow> effect list \<Rightarrow> str" where
  "journal_text lc n [] = []"
| "journal_text lc n (e # es) = line_of lc (n + 1) e @ journal_text lc (n + 1) es"

lemma show_nat_no_newline: "newline \<notin> set (show_nat n)"
  using show_nat_digits [of n] by (auto simp: list_all_iff newline_def is_ascii_digit_def byte_of_def)

lemma line_of_shape:
  assumes "readable lc e"
  obtains s where "line_of lc n e = s @ [newline]" "newline \<notin> set s" "intact (s @ [newline])"
    "line_entry lc (s @ [newline]) = Some (n, e)"
proof -
  from assms obtain doc where t: "effect_text lc e = Inr doc" "newline \<notin> set doc"
    "line_entry lc (sealed_line (line_body n doc)) = Some (n, e)"
    unfolding readable_def by blast
  let ?s = "checksum_start @ hex_digits (crc32c (line_body n doc)) @ checksum_mid @ line_body n doc"
  have l: "sealed_line (line_body n doc) = ?s @ [newline]" by (simp add: sealed_line_def)
  have "newline \<notin> set ?s"
    using hex_digits_no_newline t(2) show_nat_no_newline
    by (simp add: checksum_start_def checksum_mid_def line_body_def newline_def)
  moreover have "line_of lc n e = sealed_line (line_body n doc)" by (simp add: line_of_def write_line_def t)
  ultimately show thesis using t(3) intact_sealed [of "line_body n doc"] that [of ?s] unfolding l by metis
qed

lemma read_line_first: "newline \<notin> set s \<Longrightarrow> read_line (s @ newline # rest) = (s @ [newline], rest)"
  by (induction s) auto

lemma read_line_torn: "newline \<notin> set s \<Longrightarrow> read_line s = (s, [])"
  by (induction s) auto

lemma scan_line:
  assumes "readable lc e"
  shows "scan_lines lc sn apply (line_of lc n e @ rest) s sc =
    scan_lines lc sn apply rest (if n > sn then apply e s else s)
      (sc\<lparr>sc_seq := max (sc_seq sc) n, sc_valid := sc_valid sc + length (line_of lc n e), sc_lines := sc_lines sc + 1\<rparr>)"
proof -
  obtain t where t: "line_of lc n e = t @ [newline]" "newline \<notin> set t" "intact (t @ [newline])"
    "line_entry lc (t @ [newline]) = Some (n, e)" using assms by (rule line_of_shape)
  then show ?thesis by (subst scan_lines.simps) (simp add: read_line_first complete_def)
qed

text \<open>What is left of a line a crash cut short: no newline in it.\<close>

lemma scan_torn: "newline \<notin> set t \<Longrightarrow> sc_corrupt sc = None \<Longrightarrow> scan_lines lc sn apply t s sc = (s, sc)"
proof -
  assume t: "newline \<notin> set t" "sc_corrupt sc = None"
  have "\<not> complete t" unfolding complete_def using t(1) last_in_set by metis
  then show ?thesis by (subst scan_lines.simps) (auto simp: read_line_torn t Let_def split: option.splits)
qed

definition numbered :: "u64 \<Rightarrow> effect list \<Rightarrow> (u64 \<times> effect) list" where
  "numbered n es = zip (map (\<lambda>i. n + word_of_nat (i + 1)) [0..<length es]) es"

lemma numbered_Cons: "numbered n (e # es) = (n + 1, e) # numbered (n + 1) es"
proof -
  have "map (\<lambda>i. n + word_of_nat (i + 1)) [0..<length (e # es)] =
      (n + 1) # map (\<lambda>i. n + 1 + word_of_nat (i + 1)) [0..<length es]"
    by (simp add: upt_conv_Cons map_Suc_upt [symmetric] comp_def del: upt_Suc)
  then show ?thesis by (simp add: numbered_def)
qed

lemma numbered_Nil [simp]: "numbered n [] = []"
  by (simp add: numbered_def)

lemma scan_journal:
  assumes "list_all (readable lc) es" "unat n + length es < 2 ^ 64"
  shows "scan_lines lc sn apply (journal_text lc n es @ rest) s sc =
    scan_lines lc sn apply rest (fold apply (map snd (filter (\<lambda>(i, e). i > sn) (numbered n es))) s)
      (sc\<lparr>sc_seq := (if es = [] then sc_seq sc else max (sc_seq sc) (n + word_of_nat (length es))),
          sc_valid := sc_valid sc + length (journal_text lc n es), sc_lines := sc_lines sc + length es\<rparr>)"
  using assms
proof (induction es arbitrary: n s sc)
  case Nil
  then show ?case by simp
next
  case (Cons e es)
  have u: "unat (n + 1) = unat n + 1" using Cons.prems(2) by (simp add: unat_word_ariths)
  have l: "n + word_of_nat (length (e # es)) = n + 1 + word_of_nat (length es)" by simp
  have up: "n + 1 \<le> n + 1 + word_of_nat (length es)"
    using Cons.prems(2) by (simp add: word_le_nat_alt unat_word_ariths u unat_of_nat take_bit_nat_eq_self)
  have m: "max (max x (n + 1)) (n + 1 + word_of_nat (length es)) = max x (n + 1 + word_of_nat (length es))" for x
    using up by (simp add: max.assoc max_absorb2)
  have IH: "scan_lines lc sn apply (journal_text lc (n + 1) es @ rest) s sc =
    scan_lines lc sn apply rest (fold apply (map snd (filter (\<lambda>(i, e). i > sn) (numbered (n + 1) es))) s)
      (sc\<lparr>sc_seq := (if es = [] then sc_seq sc else max (sc_seq sc) (n + 1 + word_of_nat (length es))),
          sc_valid := sc_valid sc + length (journal_text lc (n + 1) es), sc_lines := sc_lines sc + length es\<rparr>)" for s sc
    using Cons.prems u by (intro Cons.IH) auto
  have "scan_lines lc sn apply (journal_text lc n (e # es) @ rest) s sc =
    scan_lines lc sn apply (journal_text lc (n + 1) es @ rest) (if n + 1 > sn then apply e s else s)
      (sc\<lparr>sc_seq := max (sc_seq sc) (n + 1), sc_valid := sc_valid sc + length (line_of lc (n + 1) e), sc_lines := sc_lines sc + 1\<rparr>)"
    using Cons.prems(1) by (simp add: scan_line)
  then show ?case
    unfolding IH l numbered_Cons by (cases "es = []") (simp_all add: m [unfolded add.assoc] add.assoc)
qed

lemma numbered_newer:
  assumes "unat n + length es < 2 ^ 64"
  shows "map snd (filter (\<lambda>(i, e). i > sn) (numbered n es)) = drop (unat sn - unat n) es"
  using assms
proof (induction es arbitrary: n)
  case (Cons e es)
  have u: "unat (n + 1) = unat n + 1" using Cons.prems by (simp add: unat_word_ariths)
  have IH: "map snd (filter (\<lambda>(i, e). i > sn) (numbered (n + 1) es)) = drop (unat sn - unat n - 1) es"
    using Cons.IH [of "n + 1"] Cons.prems u by simp
  have "n + 1 > sn \<longleftrightarrow> unat sn \<le> unat n" by (simp add: word_less_nat_alt u less_Suc_eq_le)
  with IH show ?case by (cases "unat sn \<le> unat n") (simp_all add: numbered_Cons drop_Cons')
qed simp

lemma scan_written:
  assumes "list_all (readable lc) es" "unat base + length es < 2 ^ 64"
  shows "scan_file lc sn apply (journal_text lc base es @ rest) s =
    scan_lines lc sn apply rest (fold apply (drop (unat sn - unat base) es) s)
      \<lparr>sc_seq = (if es = [] then sn else max sn (base + word_of_nat (length es))),
       sc_valid = length (journal_text lc base es), sc_lines = length es, sc_corrupt = None\<rparr>"
  by (simp add: scan_file_def scan_journal [OF assms] numbered_newer [OF assms(2)])

text \<open>
  C19: What was journaled is replayed: a journal of any effects, whatever a crash left of the
  line after them, gives back every effect the snapshot does not hold, in order, and the
  number of the last, and the bytes to keep are those of the whole lines.
\<close>

theorem journal_replays_what_was_written:
  assumes "list_all (readable lc) es" "unat base + length es < 2 ^ 64" "newline \<notin> set torn"
  shows "replay lc cd (journal_text lc base es @ torn) st sn path =
    (fold (apply_effect cd) (drop (unat sn - unat base) es) st,
     Inr (if es = [] then sn else max sn (base + word_of_nat (length es)), length (journal_text lc base es)))"
  by (simp add: replay_def scan_written [OF assms(1,2)] scan_torn [OF assms(3)])

lemma scan_not_intact:
  assumes "newline \<notin> set s" "\<not> intact (s @ [newline])"
  shows "scan_lines lc sn apply (s @ newline # rest) st sc =
    (st, sc\<lparr>sc_corrupt := (if list_all blank_byte rest then None else Some (sc_lines sc + 1))\<rparr>)"
  using assms by (subst scan_lines.simps) (auto simp: read_line_first Let_def split: option.splits)


subsection \<open>A codec\<close>

text \<open>One that writes the names agents are forgotten under, to run the journal with.\<close>

definition plain_codec :: line_codec where
  "plain_codec =
     \<lparr>effect_text = (\<lambda>e. case e of
        E_Forget name \<Rightarrow> if list_all is_ascii_alphanumeric name then Inr name else Inl ''not a plain name''
      | _ \<Rightarrow> Inl ''not written here''),
      line_entry = (\<lambda>line.
        let digits = takeWhile is_ascii_digit (drop 20 line)
        in map_option (\<lambda>n. (n, E_Forget (takeWhile is_ascii_alphanumeric (drop (25 + length digits) line))))
             (parse_u64 digits))\<rparr>"

lemma plain_readable: "list_all is_ascii_alphanumeric name \<Longrightarrow> readable plain_codec (E_Forget name)"
proof -
  assume a: "list_all is_ascii_alphanumeric name"
  have nl: "newline \<notin> set name" using a by (auto simp: list_all_iff newline_def is_ascii_alphanumeric_def byte_of_def)
  have "line_entry plain_codec (sealed_line (line_body n name)) = Some (n, E_Forget name)" for n
  proof -
    let ?d = "show_nat (unat n)"
    define rest where "rest = [CHR '','', CHR 34, CHR ''e'', CHR 34, CHR '':''] @ name @ [CHR ''}'', newline]"
    have l: "sealed_line (line_body n name) =
        (checksum_start @ hex_digits (crc32c (line_body n name)) @ checksum_mid @ [CHR 34, CHR ''s'', CHR 34, CHR '':'']) @ ?d @ rest"
      by (simp add: sealed_line_def line_body_def rest_def)
    have d20: "drop 20 (sealed_line (line_body n name)) = ?d @ rest"
      unfolding l by (simp add: checksum_start_def checksum_mid_def)
    have t: "takeWhile is_ascii_digit (?d @ rest) = ?d"
      using show_nat_digits [of "unat n"]
      by (subst takeWhile_append2) (auto simp: list_all_iff rest_def is_ascii_digit_def byte_of_def)
    have "drop (25 + length ?d) (sealed_line (line_body n name)) = drop (5 + length ?d) (drop 20 (sealed_line (line_body n name)))"
      by (simp add: add.commute)
    also have "\<dots> = name @ [CHR ''}'', newline]" unfolding d20 by (simp add: rest_def)
    finally have "takeWhile is_ascii_alphanumeric (drop (25 + length ?d) (sealed_line (line_body n name))) = name"
      using a by (simp add: list_all_iff takeWhile_append2 is_ascii_alphanumeric_def byte_of_def)
    then show ?thesis by (simp add: plain_codec_def d20 t parse_u64_show Let_def)
  qed
  with a nl show ?thesis by (simp add: readable_def plain_codec_def)
qed

lemma journal_replays_what_was_written_witness:
  "replay plain_codec (en_codec sample_env)
     (journal_text plain_codec 5 [E_Forget ''a'', E_Forget ''b''] @ ''{'') store_default 6 ''journal.log'' =
   (fold (apply_effect (en_codec sample_env)) (drop (unat (6 :: u64) - unat (5 :: u64)) [E_Forget ''a'', E_Forget ''b'']) store_default,
    Inr (if [E_Forget ''a'', E_Forget ''b''] = [] then 6 else max 6 (5 + word_of_nat (length [E_Forget ''a'', E_Forget ''b''])),
      length (journal_text plain_codec 5 [E_Forget ''a'', E_Forget ''b''])))"
  by (rule journal_replays_what_was_written)
    (simp_all add: plain_readable is_ascii_alphanumeric_def byte_of_def newline_def)


end
