(* ===== verification/Journal.thy ===== *)
theory Journal
  imports Journal_Lines "HOL-Library.Sublist"
begin

text \<open>
  The journal in use (\<open>journal.rs\<close>: \<open>Tail\<close>, \<open>TailGuard\<close>, \<open>Writer\<close>, \<open>Journal\<close>, \<open>Sync\<close>): changes
  appended, deferred and taken to be written by other threads, on a disk that takes a write, part
  of it or none. What the disk does is a list in the tail, consumed write by write.
\<close>

subsection \<open>Syncs running in the background\<close>

datatype fsync = Always | EverySec | Never

definition fsync_from_str :: "str \<Rightarrow> str + fsync" where
  "fsync_from_str s =
     (if s = ''always'' then Inr Always
      else if s = ''everysec'' then Inr EverySec
      else if s = ''never'' \<or> s = ''no'' then Inr Never
      else Inl (''invalid fsync policy '' @ quoted s @ '' (always, everysec, never)''))"

definition postpone_limit :: nat where
  "postpone_limit = 2000"

record syncs =
  sy_running :: nat
  sy_since :: nat

definition sync_begins :: "nat \<Rightarrow> syncs \<Rightarrow> syncs" where
  "sync_begins now sy =
     (if sy_running sy = 0 then sy\<lparr>sy_running := 1, sy_since := now\<rparr> else sy\<lparr>sy_running := sy_running sy + 1\<rparr>)"

definition sync_ends :: "syncs \<Rightarrow> syncs" where
  "sync_ends sy = sy\<lparr>sy_running := sy_running sy - 1\<rparr>"

definition holding_up :: "nat \<Rightarrow> syncs \<Rightarrow> bool" where
  "holding_up now sy \<longleftrightarrow> sy_running sy > 0 \<and> now - sy_since sy < postpone_limit"

subsection \<open>The tail\<close>

text \<open>
  What the disk makes of a write: it takes it, or it takes some of the bytes only, or it
  takes them but does not sync them, for a reason, and then cuts the file back or cannot.
  \<open>tl_disk\<close> is what it will make of the writes to come; past its end it takes them.
\<close>

datatype disk = Takes | Stops nat str bool | Unsynced str bool

record tail =
  tl_file :: str
  tl_fsync :: fsync
  tl_bytes :: nat
  tl_dirty :: bool
  tl_dir_unsynced :: bool
  tl_refused :: str
  tl_torn :: bool
  tl_failure :: "str option"
  tl_disk :: "disk list"

definition set_len :: "nat \<Rightarrow> str \<Rightarrow> str" where
  "set_len n file = take n file @ replicate (n - length file) (CHR 0x00)"

text \<open>\<open>attempt\<close>, and whether the file can be cut back after it failed.\<close>

definition attempt :: "str \<Rightarrow> tail \<Rightarrow> tail \<times> (str \<times> bool) option" where
  "attempt lines t =
     (let d = (case tl_disk t of [] \<Rightarrow> Takes | d # _ \<Rightarrow> d);
          t = t\<lparr>tl_disk := tl (tl_disk t)\<rparr>
      in case d of
           Stops n why back \<Rightarrow> (t\<lparr>tl_file := tl_file t @ take n lines\<rparr>, Some (why, back))
         | Takes \<Rightarrow>
             (t\<lparr>tl_file := tl_file t @ lines,
                tl_dir_unsynced := (if tl_fsync t = Always then False else tl_dir_unsynced t)\<rparr>, None)
         | Unsynced why back \<Rightarrow>
             (t\<lparr>tl_file := tl_file t @ lines,
                tl_dir_unsynced := (if tl_fsync t = Always then False else tl_dir_unsynced t)\<rparr>,
              if tl_fsync t = Always then Some (why, back) else None))"

definition torn_text :: str where
  "torn_text = ''an earlier write was cut short; restart the server to recover''"

definition tail_append :: "str \<Rightarrow> tail \<Rightarrow> tail \<times> str option" where
  "tail_append lines t =
     (if tl_torn t then (t, Some torn_text)
      else case attempt lines t of
        (t, Some (why, back)) \<Rightarrow>
          (let t = (if back then t\<lparr>tl_file := set_len (tl_bytes t) (tl_file t)\<rparr> else t\<lparr>tl_torn := True\<rparr>)
           in (t\<lparr>tl_failure := Some why\<rparr>, Some why))
      | (t, None) \<Rightarrow>
          (t\<lparr>tl_failure := None, tl_bytes := tl_bytes t + length lines,
             tl_dirty := (tl_dirty t \<or> tl_fsync t \<noteq> Always)\<rparr>, None))"

subsection \<open>The tail, locked\<close>

record writer =
  wr_tail :: tail
  wr_failing :: bool
  wr_refused :: bool
  wr_busy :: nat

definition wr_lock :: "writer \<Rightarrow> writer" where
  "wr_lock w = w\<lparr>wr_busy := wr_busy w + 1\<rparr>"

definition wr_unlock :: "writer \<Rightarrow> writer" where
  "wr_unlock w = w\<lparr>wr_busy := wr_busy w - 1\<rparr>"

definition note_writes :: "writer \<Rightarrow> writer" where
  "note_writes w =
     w\<lparr>wr_failing := (tl_torn (wr_tail w) \<or> tl_refused (wr_tail w) \<noteq> []),
       wr_refused := (tl_refused (wr_tail w) \<noteq> [])\<rparr>"

definition guard_write :: "str \<Rightarrow> writer \<Rightarrow> writer \<times> str option" where
  "guard_write lines w =
     (let t = wr_tail w;
          (t, lines) = (if tl_refused t = [] then (t, lines) else (t\<lparr>tl_refused := []\<rparr>, tl_refused t @ lines));
          (t, written) = (if lines = [] then (t, None) else tail_append lines t);
          t = (if written \<noteq> None then t\<lparr>tl_refused := lines\<rparr> else t)
      in (note_writes (w\<lparr>wr_tail := t\<rparr>), written))"

definition write_new :: "str \<Rightarrow> writer \<Rightarrow> writer \<times> str option" where
  "write_new line w =
     (let (w, written) = guard_write [] w
      in if written \<noteq> None then (note_writes w, written)
         else let (t, written) = tail_append line (wr_tail w)
              in (note_writes (w\<lparr>wr_tail := t\<rparr>), written))"

subsection \<open>The journal\<close>

record journal =
  jr_seq :: u64
  jr_journaled :: nat
  jr_snapshot_bytes :: nat
  jr_fsync :: fsync
  jr_retired :: "str list"
  jr_pending :: str
  jr_unsynced :: "str option"
  jr_resnapshot :: bool
  jr_writing :: bool
  jr_syncs :: syncs
  jr_writer :: writer

definition jr_failing_flag :: "journal \<Rightarrow> bool" where
  "jr_failing_flag j = wr_failing (jr_writer j)"

definition refusing :: "journal \<Rightarrow> bool" where
  "refusing j \<longleftrightarrow> wr_failing (jr_writer j) \<or> jr_unsynced j \<noteq> None"

definition failing :: "journal \<Rightarrow> str option" where
  "failing j =
     (if \<not> wr_failing (jr_writer j) then jr_unsynced j
      else case tl_failure (wr_tail (jr_writer j)) of
        Some why \<Rightarrow> Some why
      | None \<Rightarrow>
          (case jr_unsynced j of
             Some why \<Rightarrow> Some why
           | None \<Rightarrow> if tl_torn (wr_tail (jr_writer j)) then Some ''the disk refused a write'' else None))"

definition defers :: "journal \<Rightarrow> bool" where
  "defers j \<longleftrightarrow> jr_fsync j \<noteq> Always \<and> \<not> refusing j"

definition postponing :: "nat \<Rightarrow> journal \<Rightarrow> bool" where
  "postponing now j \<longleftrightarrow> jr_fsync j \<noteq> Always \<and> holding_up now (jr_syncs j)"

definition waiting :: "journal \<Rightarrow> bool" where
  "waiting j \<longleftrightarrow> jr_pending j \<noteq> [] \<or> wr_refused (jr_writer j)"

definition take_out_pending :: "journal \<Rightarrow> journal \<times> str" where
  "take_out_pending j =
     (j\<lparr>jr_pending := [], jr_journaled := jr_journaled j + length (jr_pending j)\<rparr>, jr_pending j)"

text \<open>A write through the tail, locked for it.\<close>

definition locked :: "(writer \<Rightarrow> writer \<times> str option) \<Rightarrow> journal \<Rightarrow> journal \<times> str option" where
  "locked f j =
     (let (w, written) = f (wr_lock (jr_writer j)) in (j\<lparr>jr_writer := wr_unlock w\<rparr>, written))"

definition journal_append :: "line_codec \<Rightarrow> effect \<Rightarrow> journal \<Rightarrow> journal \<times> str option" where
  "journal_append lc e j =
     (case jr_unsynced j of
        Some why \<Rightarrow> (j, Some why)
      | None \<Rightarrow>
          (case write_line lc [] (jr_seq j + 1) e of
             (_, Some why) \<Rightarrow> (j, Some why)
           | (line, None) \<Rightarrow>
               (let (j, lines) = take_out_pending j;
                    (j, written) =
                      locked (\<lambda>w. let (w, written) = guard_write lines w
                                   in if written \<noteq> None then (w, written) else write_new line w) j
                in if written \<noteq> None then (j, written)
                   else (j\<lparr>jr_journaled := jr_journaled j + length line, jr_seq := jr_seq j + 1\<rparr>, None))))"

definition push :: "line_codec \<Rightarrow> effect \<Rightarrow> journal \<Rightarrow> journal \<times> str option" where
  "push lc e j =
     (case write_line lc (jr_pending j) (jr_seq j + 1) e of
        (lines, Some why) \<Rightarrow> (j\<lparr>jr_pending := lines\<rparr>, Some why)
      | (lines, None) \<Rightarrow> (j\<lparr>jr_pending := lines, jr_seq := jr_seq j + 1\<rparr>, None))"

definition defer_applied :: "line_codec \<Rightarrow> effect \<Rightarrow> journal \<Rightarrow> journal \<times> str option" where
  "defer_applied lc e j = push lc e j"

definition defer_commands :: "line_codec \<Rightarrow> u64 \<Rightarrow> str list list \<Rightarrow> journal \<Rightarrow> journal \<times> str option" where
  "defer_commands lc at commands j = push lc (E_Db at commands) j"

definition flush_pending :: "journal \<Rightarrow> journal \<times> str option" where
  "flush_pending j =
     (if jr_pending j = [] \<and> \<not> wr_refused (jr_writer j) \<and> wr_busy (jr_writer j) = 0 then (j, None)
      else let (j, lines) = take_out_pending j in locked (guard_write lines) j)"

definition append_applied :: "line_codec \<Rightarrow> effect \<Rightarrow> journal \<Rightarrow> journal \<times> str option" where
  "append_applied lc e j =
     (let (j, written) = push lc e j in if written \<noteq> None then (j, written) else flush_pending j)"

definition append_commands :: "line_codec \<Rightarrow> u64 \<Rightarrow> str list list \<Rightarrow> journal \<Rightarrow> journal \<times> str option" where
  "append_commands lc at commands j = append_applied lc (E_Db at commands) j"

definition take_pending :: "nat \<Rightarrow> journal \<Rightarrow> journal \<times> str option" where
  "take_pending now j =
     (if jr_pending j = [] \<or> jr_fsync j = Always \<or> postponing now j \<or> wr_failing (jr_writer j) then (j, None)
      else let (j, lines) = take_out_pending j in (j, Some lines))"

definition flush_soon :: "nat \<Rightarrow> journal \<Rightarrow> journal \<times> str option" where
  "flush_soon now j = (if postponing now j then (j, None) else flush_pending j)"

subsection \<open>Syncing every second\<close>

record sync_job =
  sj_retired :: "str list"
  sj_dir :: bool
  sj_file :: bool

text \<open>\<open>cloned\<close> is whether a second handle to the file can be had.\<close>

definition take_sync :: "bool \<Rightarrow> journal \<Rightarrow> journal \<times> sync_job option" where
  "take_sync cloned j =
     (if jr_fsync j = Never then (j, None)
      else
        (let w = jr_writer j; t = wr_tail w;
             file = (tl_dirty t \<and> cloned); dir = tl_dir_unsynced t;
             t = t\<lparr>tl_dirty := (tl_dirty t \<and> \<not> file), tl_dir_unsynced := False\<rparr>;
             job = \<lparr>sj_retired = jr_retired j, sj_dir = dir, sj_file = file\<rparr>
         in (j\<lparr>jr_writer := w\<lparr>wr_tail := t\<rparr>, jr_retired := []\<rparr>,
             if sj_retired job \<noteq> [] \<or> sj_dir job \<or> sj_file job then Some job else None)))"

text \<open>
  \<open>run\<close>: in the order the writes were made. The disk's results come one by one, an error's
  text for a sync that fails; past their end it syncs. What is synced is added to what is.
\<close>

fun run_retired :: "str option list \<Rightarrow> str list \<Rightarrow> str list \<times> str option list \<times> str option" where
  "run_retired results [] = ([], results, None)"
| "run_retired [] (f # fs) = ([], [], None)"
| "run_retired (None # results) (f # fs) = run_retired results fs"
| "run_retired (Some why # results) (f # fs) = (f # fs, results, Some why)"

definition sync_run :: "str option list \<Rightarrow> sync_job \<Rightarrow> sync_job \<times> str option" where
  "sync_run results job =
     (case run_retired results (sj_retired job) of
        (left, _, Some why) \<Rightarrow> (job\<lparr>sj_retired := left\<rparr>, Some why)
      | (left, results, None) \<Rightarrow>
          (let job = job\<lparr>sj_retired := left, sj_dir := False\<rparr>
           in if \<not> sj_file job then (job, None)
              else case results of
                Some why # _ \<Rightarrow> (job, Some why)
              | _ \<Rightarrow> (job\<lparr>sj_file := False\<rparr>, None)))"

definition synced :: "sync_job \<Rightarrow> str option \<Rightarrow> journal \<Rightarrow> journal" where
  "synced job result j =
     (let w = jr_writer j; t = wr_tail w;
          t = t\<lparr>tl_dir_unsynced := (tl_dir_unsynced t \<or> sj_dir job), tl_dirty := (tl_dirty t \<or> sj_file job)\<rparr>;
          j = j\<lparr>jr_retired := sj_retired job @ jr_retired j, jr_writer := w\<lparr>wr_tail := t\<rparr>\<rparr>
      in case result of
           Some why \<Rightarrow> j\<lparr>jr_unsynced := Some (''cannot sync the journal: '' @ why), jr_resnapshot := True\<rparr>
         | None \<Rightarrow> j\<lparr>jr_unsynced := None\<rparr>)"

definition rewrite_min_bytes :: nat where
  "rewrite_min_bytes = 64 * 1024 * 1024"

definition needs_rewrite :: "nat \<Rightarrow> journal \<Rightarrow> bool" where
  "needs_rewrite now j \<longleftrightarrow>
     \<not> jr_writing j \<and> \<not> refusing j \<and> \<not> holding_up now (jr_syncs j) \<and>
     (jr_resnapshot j \<or> jr_journaled j > max rewrite_min_bytes (jr_snapshot_bytes j * 2))"

subsection \<open>What the file holds\<close>

definition writable :: "line_codec \<Rightarrow> effect \<Rightarrow> bool" where
  "writable lc e \<longleftrightarrow> (\<exists>doc. effect_text lc e = Inr doc \<and> newline \<notin> set doc)"

lemma line_of_writable:
  assumes "writable lc e"
  obtains s where "line_of lc n e = s @ [newline]" "newline \<notin> set s" "\<And>out. write_line lc out n e = (out @ line_of lc n e, None)"
proof -
  from assms obtain doc where t: "effect_text lc e = Inr doc" "newline \<notin> set doc"
    unfolding writable_def by blast
  let ?s = "checksum_start @ hex_digits (crc32c (line_body n doc)) @ checksum_mid @ line_body n doc"
  have "newline \<notin> set ?s"
    using hex_digits_no_newline t(2) show_nat_no_newline
    by (simp add: checksum_start_def checksum_mid_def line_body_def newline_def)
  moreover have "line_of lc n e = ?s @ [newline]" by (simp add: line_of_def write_line_def t sealed_line_def)
  ultimately show thesis using that [of ?s] by (simp add: write_line_def t line_of_def)
qed

lemma journal_text_append:
  "journal_text lc n (xs @ ys) = journal_text lc n xs @ journal_text lc (n + word_of_nat (length xs)) ys"
  by (induction xs arbitrary: n) (simp_all add: add.assoc)

lemma line_of_nonempty: "writable lc e \<Longrightarrow> line_of lc n e \<noteq> []"
  by (metis line_of_writable snoc_eq_iff_butlast)

lemma journal_text_empty: "list_all (writable lc) es \<Longrightarrow> journal_text lc n es = [] \<longleftrightarrow> es = []"
  by (cases es) (auto dest: line_of_nonempty)

text \<open>However many bytes of whole lines are written, they are whole lines and a piece of one.\<close>

lemma take_line:
  assumes "newline \<notin> set s"
  shows "newline \<notin> set (take m (s @ [newline])) \<or> take m (s @ [newline]) = s @ [newline]"
  using assms set_take_subset [of m s] by (cases "m \<le> length s") auto

lemma take_journal_text:
  assumes "list_all (writable lc) es"
  obtains i rest where "i \<le> length es" "take m (journal_text lc n es) = journal_text lc n (take i es) @ rest" "newline \<notin> set rest"
  using assms
proof (induction es arbitrary: n m thesis)
  case (Cons e es)
  obtain s where s: "line_of lc (n + 1) e = s @ [newline]" "newline \<notin> set s"
    using Cons.prems(2) by (auto elim: line_of_writable)
  show ?case
  proof (cases "m \<le> length s")
    case True
    then show ?thesis
      using Cons.prems(1) [of 0 "take m s"] s set_take_subset [of m s] by auto
  next
    case False
    obtain i rest where "i \<le> length es"
      "take (m - length (s @ [newline])) (journal_text lc (n + 1) es) = journal_text lc (n + 1) (take i es) @ rest" "newline \<notin> set rest"
      using Cons.IH [of "m - length (s @ [newline])" "n + 1"] Cons.prems(2) by (auto simp del: length_append)
    with False show ?thesis
      by (intro Cons.prems(1) [of "i + 1" rest]) (simp_all add: s(1) take_Cons')
  qed
qed simp

text \<open>
  What the tail's file holds, when the lines of \<open>D\<close> are on it and the changes of \<open>acc\<close> were
  made: these lines, and nothing else, unless a write was cut short; then more of the lines of
  the changes made, perhaps the line of a change that was not, and a piece of a line.
\<close>

definition tail_holds :: "line_codec \<Rightarrow> u64 \<Rightarrow> effect list \<Rightarrow> effect list \<Rightarrow> tail \<Rightarrow> bool" where
  "tail_holds lc base D acc t \<longleftrightarrow>
     tl_bytes t = length (journal_text lc base D) \<and>
     (\<exists>a x rest. prefix D a \<and> prefix a acc \<and> length x \<le> 1 \<and> list_all (writable lc) (a @ x) \<and> newline \<notin> set rest \<and>
        tl_file t = journal_text lc base (a @ x) @ rest \<and>
        (\<not> tl_torn t \<longrightarrow> a = D \<and> x = [] \<and> rest = []))"

lemma tail_holds_more: "tail_holds lc base D acc t \<Longrightarrow> prefix acc acc' \<Longrightarrow> tail_holds lc base D acc' t"
  unfolding tail_holds_def by (metis prefix_order.trans)

lemma tail_holds_whole: "tail_holds lc base D acc t \<Longrightarrow> \<not> tl_torn t \<Longrightarrow> tl_file t = journal_text lc base D"
  unfolding tail_holds_def by auto

lemma tail_holdsI:
  assumes "tl_file t = journal_text lc base D" "tl_bytes t = length (journal_text lc base D)" "prefix D acc" "list_all (writable lc) D"
  shows "tail_holds lc base D acc t"
  unfolding tail_holds_def using assms by (intro conjI exI [of _ D] exI [of _ "[]"]) auto

text \<open>
  A write of the lines \<open>L\<close> that come next, of changes made before, or of one new change:
  all of them are on the file after it, or none.
\<close>

lemma tail_append_holds:
  assumes h: "tail_holds lc base D acc t" and w: "list_all (writable lc) (D @ L)"
    and L: "prefix (D @ L) acc \<or> D = acc \<and> length L \<le> 1"
    and e: "tail_append (journal_text lc (base + word_of_nat (length D)) L) t = (t', r)"
  shows "tl_refused t' = tl_refused t \<and> (if r = None then tail_holds lc base (D @ L) (if prefix (D @ L) acc then acc else D @ L) t' \<and> \<not> tl_torn t'
         else tail_holds lc base D acc t')"
proof (cases "tl_torn t")
  case True
  with e h show ?thesis by (auto simp: tail_append_def)
next
  case False
  let ?n = "base + word_of_nat (length D)"
  have f: "tl_file t = journal_text lc base D" using h False by (rule tail_holds_whole)
  have b: "tl_bytes t = length (journal_text lc base D)" using h by (simp add: tail_holds_def)
  have D: "prefix D acc" using h False by (auto simp: tail_holds_def)
  have undone: "set_len (tl_bytes t) (tl_file t @ s) = journal_text lc base D" for s
    by (simp add: f b set_len_def)
  obtain t1 o1 where a: "attempt (journal_text lc ?n L) t = (t1, o1)" by fastforce
  have same: "tl_bytes t1 = tl_bytes t" "tl_refused t1 = tl_refused t" "tl_torn t1 = tl_torn t"
    using a by (auto simp: attempt_def Let_def split: disk.splits list.splits if_splits)
  show ?thesis
  proof (cases o1)
    case None
    then have "tl_file t1 = tl_file t @ journal_text lc ?n L"
      using a by (auto simp: attempt_def Let_def split: disk.splits list.splits if_splits)
    then have "tl_file t1 = journal_text lc base (D @ L)" by (simp add: f journal_text_append)
    with e a None False same b w show ?thesis
      by (auto simp: tail_append_def intro!: tail_holdsI) (simp_all add: journal_text_append)
  next
    case (Some failure)
    obtain why cutback where o: "o1 = Some (why, cutback)" using Some by (cases failure) auto
    obtain m where m: "tl_file t1 = tl_file t @ take m (journal_text lc ?n L)"
    proof -
      have "(\<exists>m. tl_file t1 = tl_file t @ take m (journal_text lc ?n L)) \<or> tl_file t1 = tl_file t @ journal_text lc ?n L"
        using a by (auto simp: attempt_def Let_def split: disk.splits list.splits if_splits)
      then show thesis using that take_all [OF le_refl] by metis
    qed
    show ?thesis
    proof (cases cutback)
      case True
      with e a o False m undone same b D w show ?thesis
        by (auto simp: tail_append_def Let_def intro!: tail_holdsI)
    next
      case cut: False
      obtain i rest where i: "i \<le> length L" "take m (journal_text lc ?n L) = journal_text lc ?n (take i L) @ rest" "newline \<notin> set rest"
        using take_journal_text [of lc L m ?n] w by auto
      then have f1: "tl_file t1 = journal_text lc base (D @ take i L) @ rest"
        by (simp add: m f journal_text_append)
      have wi: "list_all (writable lc) (D @ take i L)"
        using w set_take_subset [of i L] by (auto simp: list_all_iff)
      obtain pre x where px: "D @ take i L = pre @ x" "prefix D pre" "prefix pre acc" "length x \<le> 1"
      proof (cases "prefix (D @ L) acc")
        case True
        have "prefix (D @ take i L) (D @ L)" by (simp add: take_is_prefix)
        then have "prefix (D @ take i L) acc" using True by (rule prefix_order.trans)
        then show thesis using that [of "D @ take i L" "[]"] by simp
      next
        case False
        with L show thesis using that [of D "take i L"] D by auto
      qed
      have t': "tl_torn t'" "tl_file t' = tl_file t1" "tl_bytes t' = tl_bytes t"
        using e a o False cut same by (auto simp: tail_append_def Let_def)
      have "tail_holds lc base D acc t'"
        unfolding tail_holds_def
        by (intro conjI, simp add: t' b, rule exI [of _ pre], rule exI [of _ x], rule exI [of _ rest])
          (use t' f1 i(3) px wi in auto)
      then show ?thesis using e a o False cut same by (auto simp: tail_append_def Let_def)
    qed
  qed
qed

subsection \<open>What the journal holds\<close>

definition writer_ok :: "nat \<Rightarrow> writer \<Rightarrow> bool" where
  "writer_ok busy w \<longleftrightarrow>
     wr_failing w = (tl_torn (wr_tail w) \<or> tl_refused (wr_tail w) \<noteq> []) \<and>
     wr_refused w = (tl_refused (wr_tail w) \<noteq> []) \<and> wr_busy w = busy"

text \<open>
  Of the changes made, the lines of the first ones are on the file, those of the next ones were
  refused, of the next are on their way, and of the last wait.
\<close>

definition writer_holds :: "line_codec \<Rightarrow> u64 \<Rightarrow> effect list \<Rightarrow> effect list \<Rightarrow> effect list \<Rightarrow> writer \<Rightarrow> bool" where
  "writer_holds lc base D R acc w \<longleftrightarrow>
     tail_holds lc base D acc (wr_tail w) \<and> prefix (D @ R) acc \<and> list_all (writable lc) acc \<and>
     tl_refused (wr_tail w) = journal_text lc (base + word_of_nat (length D)) R"

lemma guard_write_holds:
  assumes h: "writer_holds lc base D R acc w" and ok: "writer_ok b w" and p: "prefix (D @ R @ L) acc"
    and e: "guard_write (journal_text lc (base + word_of_nat (length (D @ R))) L) w = (w', r)"
  shows "writer_ok b w' \<and> (if r = None then writer_holds lc base (D @ R @ L) [] acc w' \<and> (R @ L \<noteq> [] \<longrightarrow> \<not> tl_torn (wr_tail w'))
         else writer_holds lc base D (R @ L) acc w')"
proof -
  let ?n = "base + word_of_nat (length D)"
  have wr: "list_all (writable lc) (D @ R @ L)"
    using p h by (auto simp: writer_holds_def prefix_def)
  have R: "tl_refused (wr_tail w) = journal_text lc ?n R" using h by (simp add: writer_holds_def)
  have RL: "journal_text lc ?n R @ journal_text lc (base + word_of_nat (length (D @ R))) L = journal_text lc ?n (R @ L)"
    by (simp add: journal_text_append add.assoc)
  let ?t = "(wr_tail w)\<lparr>tl_refused := []\<rparr>"
  have t: "tail_holds lc base D acc ?t" using h by (simp add: writer_holds_def tail_holds_def)
  have acc: "list_all (writable lc) acc" using h by (simp add: writer_holds_def)
  have e': "(w', r) = (let (t, r) = (if R @ L = [] then (?t, None) else tail_append (journal_text lc ?n (R @ L)) ?t);
        t = (if r \<noteq> None then t\<lparr>tl_refused := journal_text lc ?n (R @ L)\<rparr> else t)
      in (note_writes (w\<lparr>wr_tail := t\<rparr>), r))"
  proof -
    have wR: "list_all (writable lc) R" "list_all (writable lc) (R @ L)" using wr by simp_all
    have "(if tl_refused (wr_tail w) = [] then (wr_tail w, l) else (?t, tl_refused (wr_tail w) @ l)) = (?t, journal_text lc ?n (R @ L))"
      if l: "l = journal_text lc (base + word_of_nat (length (D @ R))) L" for l
    proof (cases "R = []")
      case True
      with R have "wr_tail w = ?t" by simp
      with R True show ?thesis by (simp add: l)
    next
      case False
      then have "tl_refused (wr_tail w) \<noteq> []" by (simp add: R journal_text_empty [OF wR(1)])
      then show ?thesis by (simp only: R RL l if_False)
    qed
    note lines = this [OF refl]
    have empty: "journal_text lc ?n (R @ L) = [] \<longleftrightarrow> R @ L = []" using wR(2) by (rule journal_text_empty)
    show ?thesis
      unfolding e [symmetric] guard_write_def Let_def lines prod.case empty by (cases "R @ L = []") simp_all
  qed
  show ?thesis
  proof (cases "R @ L = []")
    case True
    with e' t acc p ok show ?thesis by (auto simp: note_writes_def writer_ok_def writer_holds_def)
  next
    case False
    obtain t' r' where a: "tail_append (journal_text lc ?n (R @ L)) ?t = (t', r')" by fastforce
    have q: "prefix (D @ (R @ L)) acc" using p by simp
    from tail_append_holds [OF t _ disjI1 [OF q] a] wr q
    have "tl_refused t' = [] \<and> (if r' = None then tail_holds lc base (D @ R @ L) acc t' \<and> \<not> tl_torn t' else tail_holds lc base D acc t')"
      by (auto split: if_splits)
    with e' a False acc p ok show ?thesis
      by (auto simp: Let_def note_writes_def writer_ok_def writer_holds_def tail_holds_def split: if_splits)
  qed
qed

lemma write_new_holds:
  assumes h: "writer_holds lc base D R (D @ R) w" and ok: "writer_ok b w" and c: "writable lc c"
    and e: "write_new (line_of lc (base + word_of_nat (length (D @ R)) + 1) c) w = (w', r)"
  shows "writer_ok b w' \<and> (if r = None then writer_holds lc base (D @ R @ [c]) [] (D @ R @ [c]) w' \<and> \<not> tl_torn (wr_tail w')
         else \<exists>D' R'. D' @ R' = D @ R \<and> prefix D D' \<and> writer_holds lc base D' R' (D @ R) w')"
proof -
  obtain w1 r1 where g: "guard_write [] w = (w1, r1)" by fastforce
  have "guard_write (journal_text lc (base + word_of_nat (length (D @ R))) []) w = (w1, r1)" using g by simp
  note g1 = guard_write_holds [OF h ok _ this]
  show ?thesis
  proof (cases r1)
    case (Some why)
    with g1 e g have "writer_ok b w1" "writer_holds lc base D R (D @ R) w1" "w' = note_writes w1" "r = r1"
      by (auto simp: write_new_def)
    then have "writer_ok b w'" "writer_holds lc base D R (D @ R) w'"
      by (simp_all add: note_writes_def writer_ok_def writer_holds_def)
    then show ?thesis using \<open>r = r1\<close> Some by auto
  next
    case None
    with g1 have h1: "writer_ok b w1" "writer_holds lc base (D @ R) [] (D @ R) w1" by simp_all
    let ?acc = "D @ R"
    obtain t r2 where a: "tail_append (line_of lc (base + word_of_nat (length ?acc) + 1) c) (wr_tail w1) = (t, r2)" by fastforce
    have w': "w' = note_writes (w1\<lparr>wr_tail := t\<rparr>)" "r = r2"
      using e g None a by (simp_all add: write_new_def)
    have acc: "list_all (writable lc) ?acc" using h1(2) by (simp add: writer_holds_def)
    have th: "tail_holds lc base ?acc ?acc (wr_tail w1)" and rf: "tl_refused (wr_tail w1) = []"
      using h1(2) by (simp_all add: writer_holds_def)
    have L: "journal_text lc (base + word_of_nat (length ?acc)) [c] = line_of lc (base + word_of_nat (length ?acc) + 1) c" by simp
    have "tl_refused t = [] \<and> (if r2 = None then tail_holds lc base (?acc @ [c]) (?acc @ [c]) t \<and> \<not> tl_torn t
        else tail_holds lc base ?acc ?acc t)"
      using tail_append_holds [OF th _ _ a [folded L]] acc c rf by auto
    note t = this
    have "writer_ok b w'" using h1(1) by (simp add: w' note_writes_def writer_ok_def)
    moreover have "writer_holds lc base (D @ R @ [c]) [] (D @ R @ [c]) w' \<and> \<not> tl_torn (wr_tail w')" if "r2 = None"
      using t acc c that by (simp add: w' note_writes_def writer_holds_def)
    moreover have "writer_holds lc base ?acc [] ?acc w'" if "r2 \<noteq> None"
      using t acc that by (simp add: w' note_writes_def writer_holds_def)
    moreover have "?acc @ [] = D @ R" "prefix D ?acc" by simp_all
    ultimately show ?thesis unfolding \<open>r = r2\<close> by (metis (full_types))
  qed
qed

subsection \<open>A journal in use\<close>

text \<open>
  \<open>js_taken\<close> is what a thread took to write, holding the tail's lock meanwhile, and how many
  changes had been made when it did; \<open>js_done\<close> are the changes made so far, in order; \<open>js_safe\<close>
  is how many of them the journal has said are written.
\<close>

record journal_state =
  js_journal :: journal
  js_taken :: "(str \<times> nat) option"
  js_done :: "effect list"
  js_safe :: nat

datatype journal_op =
    Do_Append effect
  | Do_Defer effect
  | Do_Defer_Commands u64 "str list list"
  | Do_Apply effect
  | Do_Apply_Commands u64 "str list list"
  | Do_Flush
  | Do_Flush_Soon nat
  | Do_Take nat
  | Do_Write
  | Do_Take_Sync bool
  | Do_Synced sync_job "str option"
  | Do_Sync_Begins nat
  | Do_Sync_Ends

definition js_result :: "(journal \<times> str option) \<Rightarrow> effect list \<Rightarrow> journal_state \<Rightarrow> journal_state" where
  "js_result res made s =
     s\<lparr>js_journal := fst res, js_done := js_done s @ made,
       js_safe := (if snd res = None then length (js_done s @ made) else js_safe s)\<rparr>"

text \<open>A change journaled after it was made stays made when the disk refuses its line.\<close>

definition made_anyway :: "line_codec \<Rightarrow> effect \<Rightarrow> effect list" where
  "made_anyway lc e = (case effect_text lc e of Inl _ \<Rightarrow> [] | Inr _ \<Rightarrow> [e])"

definition do_append :: "line_codec \<Rightarrow> effect \<Rightarrow> journal_state \<Rightarrow> journal_state" where
  "do_append lc e s =
     (let res = journal_append lc e (js_journal s) in js_result res (if snd res = None then [e] else []) s)"

definition do_defer :: "(journal \<times> str option) \<Rightarrow> effect \<Rightarrow> journal_state \<Rightarrow> journal_state" where
  "do_defer res e s = s\<lparr>js_journal := fst res, js_done := js_done s @ (if snd res = None then [e] else [])\<rparr>"

definition do_take :: "nat \<Rightarrow> journal_state \<Rightarrow> journal_state" where
  "do_take now s =
     (case take_pending now (js_journal s) of
        (j, None) \<Rightarrow> s\<lparr>js_journal := j\<rparr>
      | (j, Some lines) \<Rightarrow>
          s\<lparr>js_journal := j\<lparr>jr_writer := wr_lock (jr_writer j)\<rparr>, js_taken := Some (lines, length (js_done s))\<rparr>)"

definition do_write :: "journal_state \<Rightarrow> journal_state" where
  "do_write s =
     (case js_taken s of
        None \<Rightarrow> s
      | Some (lines, made) \<Rightarrow>
          (let j = js_journal s; (w, written) = guard_write lines (jr_writer j)
           in s\<lparr>js_journal := j\<lparr>jr_writer := wr_unlock w\<rparr>, js_taken := None,
                js_safe := (if written = None then max made (js_safe s) else js_safe s)\<rparr>))"

text \<open>A thread that needs the tail while another holds it waits: here, it does nothing yet.\<close>

definition with_tail :: "(journal_state \<Rightarrow> journal_state) \<Rightarrow> journal_state \<Rightarrow> journal_state" where
  "with_tail f s = (if js_taken s = None then f s else s)"

definition on_journal :: "(journal \<Rightarrow> journal) \<Rightarrow> journal_state \<Rightarrow> journal_state" where
  "on_journal f s = s\<lparr>js_journal := f (js_journal s)\<rparr>"

fun journal_do :: "line_codec \<Rightarrow> journal_op \<Rightarrow> journal_state \<Rightarrow> journal_state" where
  "journal_do lc (Do_Append e) s = with_tail (do_append lc e) s"
| "journal_do lc (Do_Defer e) s = do_defer (defer_applied lc e (js_journal s)) e s"
| "journal_do lc (Do_Defer_Commands at commands) s =
     do_defer (defer_commands lc at commands (js_journal s)) (E_Db at commands) s"
| "journal_do lc (Do_Apply e) s =
     with_tail (\<lambda>s. js_result (append_applied lc e (js_journal s)) (made_anyway lc e) s) s"
| "journal_do lc (Do_Apply_Commands at commands) s =
     with_tail (\<lambda>s. js_result (append_commands lc at commands (js_journal s)) (made_anyway lc (E_Db at commands)) s) s"
| "journal_do lc Do_Flush s = with_tail (\<lambda>s. js_result (flush_pending (js_journal s)) [] s) s"
| "journal_do lc (Do_Flush_Soon now) s =
     with_tail (\<lambda>s. if postponing now (js_journal s) then s else js_result (flush_soon now (js_journal s)) [] s) s"
| "journal_do lc (Do_Take now) s = with_tail (do_take now) s"
| "journal_do lc Do_Write s = do_write s"
| "journal_do lc (Do_Take_Sync cloned) s = with_tail (on_journal (\<lambda>j. fst (take_sync cloned j))) s"
| "journal_do lc (Do_Synced job result) s = with_tail (on_journal (synced job result)) s"
| "journal_do lc (Do_Sync_Begins now) s = on_journal (\<lambda>j. j\<lparr>jr_syncs := sync_begins now (jr_syncs j)\<rparr>) s"
| "journal_do lc Do_Sync_Ends s = on_journal (\<lambda>j. j\<lparr>jr_syncs := sync_ends (jr_syncs j)\<rparr>) s"

definition journal_run :: "line_codec \<Rightarrow> journal_op list \<Rightarrow> journal_state \<Rightarrow> journal_state" where
  "journal_run lc ops s = fold (journal_do lc) ops s"

text \<open>The journal \<open>open\<close> gives, and what a directory held.\<close>

definition journal_opened :: "fsync \<Rightarrow> u64 \<Rightarrow> nat \<Rightarrow> str \<Rightarrow> disk list \<Rightarrow> journal" where
  "journal_opened fs seq snapshot_bytes file ds =
     \<lparr>jr_seq = seq, jr_journaled = length file, jr_snapshot_bytes = snapshot_bytes, jr_fsync = fs, jr_retired = [],
      jr_pending = [], jr_unsynced = None, jr_resnapshot = False, jr_writing = False,
      jr_syncs = \<lparr>sy_running = 0, sy_since = 0\<rparr>,
      jr_writer =
        \<lparr>wr_tail =
           \<lparr>tl_file = file, tl_fsync = fs, tl_bytes = length file, tl_dirty = False, tl_dir_unsynced = False, tl_refused = [],
            tl_torn = False, tl_failure = None, tl_disk = ds\<rparr>,
         wr_failing = False, wr_refused = False, wr_busy = 0\<rparr>\<rparr>"

definition journal_start :: "line_codec \<Rightarrow> u64 \<Rightarrow> effect list \<Rightarrow> fsync \<Rightarrow> nat \<Rightarrow> disk list \<Rightarrow> journal_state" where
  "journal_start lc base es fs snapshot_bytes ds =
     \<lparr>js_journal = journal_opened fs (base + word_of_nat (length es)) snapshot_bytes (journal_text lc base es) ds,
      js_taken = None, js_done = es, js_safe = length es\<rparr>"

lemma ex3I: "P a b c \<Longrightarrow> \<exists>x y z. P x y z"
  by blast

lemma ex4I: "P a b c d \<Longrightarrow> \<exists>x y z w. P x y z w"
  by blast

definition journal_holds ::
  "line_codec \<Rightarrow> u64 \<Rightarrow> effect list \<Rightarrow> effect list \<Rightarrow> effect list \<Rightarrow> effect list \<Rightarrow> nat \<Rightarrow> journal \<Rightarrow> bool" where
  "journal_holds lc base D R T P busy j \<longleftrightarrow>
     writer_holds lc base D R (D @ R @ T @ P) (jr_writer j) \<and> writer_ok busy (jr_writer j) \<and>
     jr_pending j = journal_text lc (base + word_of_nat (length (D @ R @ T))) P \<and>
     jr_seq j = base + word_of_nat (length (D @ R @ T @ P))"

definition written_plain :: "line_codec \<Rightarrow> bool" where
  "written_plain lc \<longleftrightarrow> (\<forall>e doc. effect_text lc e = Inr doc \<longrightarrow> newline \<notin> set doc)"

lemma write_line_cases:
  assumes "written_plain lc" "write_line lc out n e = (out', r)"
  shows "r = None \<and> writable lc e \<and> out' = out @ line_of lc n e \<and> made_anyway lc e = [e] \<or> r \<noteq> None \<and> out' = out \<and> made_anyway lc e = []"
  using assms by (auto simp: write_line_def line_of_def writable_def written_plain_def made_anyway_def split: sum.splits)

lemma writer_holds_more:
  "writer_holds lc base D R acc w \<Longrightarrow> writable lc e \<Longrightarrow> writer_holds lc base D R (acc @ [e]) w"
  by (auto simp: writer_holds_def intro: tail_holds_more)

lemma push_holds:
  assumes "written_plain lc" "journal_holds lc base D R T P busy j" "push lc e j = (j', r)"
  shows "if r = None then journal_holds lc base D R T (P @ [e]) busy j' \<and> made_anyway lc e = [e]
    else journal_holds lc base D R T P busy j' \<and> made_anyway lc e = []"
proof -
  obtain out r' where w: "write_line lc (jr_pending j) (jr_seq j + 1) e = (out, r')" by fastforce
  from write_line_cases [OF assms(1) w] show ?thesis
  proof (elim disjE conjE)
    assume n: "r' = None" and wr: "writable lc e" and out: "out = jr_pending j @ line_of lc (jr_seq j + 1) e" and m: "made_anyway lc e = [e]"
    have j': "j' = j\<lparr>jr_pending := out, jr_seq := jr_seq j + 1\<rparr>" "r = None"
      using assms(3) w n by (simp_all add: push_def)
    from assms(2) have "writer_holds lc base D R ((D @ R @ T @ P) @ [e]) (jr_writer j)"
      unfolding journal_holds_def using wr by (blast intro: writer_holds_more)
    with assms(2) m show ?thesis
      unfolding j' journal_holds_def out by (simp add: journal_text_append add.assoc)
  next
    assume "r' \<noteq> None" "out = jr_pending j" "made_anyway lc e = []"
    with assms(2,3) w show ?thesis by (auto simp: push_def journal_holds_def)
  qed
qed

lemma writer_ok_lock: "writer_ok (Suc b) (wr_lock w) \<longleftrightarrow> writer_ok b w"
  by (simp add: writer_ok_def wr_lock_def)

lemma writer_ok_unlock: "writer_ok (Suc b) w \<Longrightarrow> writer_ok b (wr_unlock w)"
  by (simp add: writer_ok_def wr_unlock_def)

lemma writer_holds_lock [simp]:
  "writer_holds lc base D R acc (wr_lock w) = writer_holds lc base D R acc w"
  "writer_holds lc base D R acc (wr_unlock w) = writer_holds lc base D R acc w"
  by (simp_all add: writer_holds_def wr_lock_def wr_unlock_def)

text \<open>What waits, written: all of it is on the file after, or refused.\<close>

lemma flush_holds:
  assumes h: "journal_holds lc base D R [] P 0 j" and e: "flush_pending j = (j', r)"
  shows "if r = None then journal_holds lc base (D @ R @ P) [] [] [] 0 j' else journal_holds lc base D (R @ P) [] [] 0 j'"
proof (cases "jr_pending j = [] \<and> \<not> wr_refused (jr_writer j) \<and> wr_busy (jr_writer j) = 0")
  case True
  have wr: "list_all (writable lc) (R @ P)" using h by (auto simp: journal_holds_def writer_holds_def)
  have "journal_text lc (base + word_of_nat (length (D @ R @ []))) P = []"
    using True h unfolding journal_holds_def by metis
  then have "P = []" using wr by (simp only: journal_text_empty list_all_append)
  moreover have "journal_text lc (base + word_of_nat (length D)) R = []"
    using True h unfolding journal_holds_def writer_holds_def writer_ok_def by metis
  then have "R = []" using wr by (simp only: journal_text_empty list_all_append)
  ultimately show ?thesis using True e h by (auto simp: flush_pending_def)
next
  case False
  let ?w = "wr_lock (jr_writer j)"
  obtain w r' where g: "guard_write (jr_pending j) ?w = (w, r')" by fastforce
  have j': "j' = j\<lparr>jr_pending := [], jr_journaled := jr_journaled j + length (jr_pending j), jr_writer := wr_unlock w\<rparr>" "r = r'"
    using False e g by (auto simp: flush_pending_def take_out_pending_def locked_def)
  have "writer_ok 1 w \<and> (if r' = None then writer_holds lc base (D @ R @ P) [] (D @ R @ P) w \<and> (R @ P \<noteq> [] \<longrightarrow> \<not> tl_torn (wr_tail w))
      else writer_holds lc base D (R @ P) (D @ R @ P) w)"
    by (rule guard_write_holds [where w = ?w])
      (use h g in \<open>simp_all add: journal_holds_def writer_ok_lock\<close>)
  with h show ?thesis
    unfolding j' journal_holds_def by (cases r') (simp_all add: writer_ok_unlock)
qed

lemma append_holds:
  assumes s: "written_plain lc" and h: "journal_holds lc base D R [] P 0 j" and e: "journal_append lc c j = (j', r)"
  shows "if r = None then journal_holds lc base (D @ R @ P @ [c]) [] [] [] 0 j'
    else \<exists>D' R' P'. D' @ R' @ P' = D @ R @ P \<and> prefix D D' \<and> journal_holds lc base D' R' [] P' 0 j'"
proof (cases "jr_unsynced j")
  case (Some why)
  with e h show ?thesis by (auto simp: journal_append_def)
next
  case None
  obtain line r0 where l: "write_line lc [] (jr_seq j + 1) c = (line, r0)" by fastforce
  show ?thesis
  proof (cases r0)
    case (Some why)
    with e h None l show ?thesis by (auto simp: journal_append_def)
  next
    case n: None
    have wr: "writable lc c" and line: "line = line_of lc (jr_seq j + 1) c"
      using write_line_cases [OF s l] n by auto
    let ?w = "wr_lock (jr_writer j)"
    obtain w1 r1 where g: "guard_write (jr_pending j) ?w = (w1, r1)" by fastforce
    have g1: "writer_ok 1 w1 \<and> (if r1 = None then writer_holds lc base (D @ R @ P) [] (D @ R @ P) w1 \<and> (R @ P \<noteq> [] \<longrightarrow> \<not> tl_torn (wr_tail w1))
        else writer_holds lc base D (R @ P) (D @ R @ P) w1)"
      by (rule guard_write_holds [where w = ?w])
        (use h g in \<open>simp_all add: journal_holds_def writer_ok_lock\<close>)
    show ?thesis
    proof (cases r1)
      case (Some why)
      have j': "j' = j\<lparr>jr_pending := [], jr_journaled := jr_journaled j + length (jr_pending j), jr_writer := wr_unlock w1\<rparr>" "r \<noteq> None"
        using e None l n g Some by (auto simp: journal_append_def take_out_pending_def locked_def Let_def)
      have "journal_holds lc base D (R @ P) [] [] 0 j'"
        unfolding j' journal_holds_def using h g1 Some by (simp add: journal_holds_def writer_ok_unlock)
      then have "\<exists>D' R' P'. D' @ R' @ P' = D @ R @ P \<and> prefix D D' \<and> journal_holds lc base D' R' [] P' 0 j'"
        by (intro ex3I [of _ D "R @ P" "[]"]) simp
      then show ?thesis using j'(2) by auto
    next
      case w1: None
      obtain w2 r2 where k: "write_new line w1 = (w2, r2)" by fastforce
      have g2: "writer_ok 1 w2 \<and> (if r2 = None then writer_holds lc base ((D @ R @ P) @ [] @ [c]) [] ((D @ R @ P) @ [] @ [c]) w2 \<and> \<not> tl_torn (wr_tail w2)
          else \<exists>D' R'. D' @ R' = (D @ R @ P) @ [] \<and> prefix (D @ R @ P) D' \<and> writer_holds lc base D' R' ((D @ R @ P) @ []) w2)"
        by (rule write_new_holds [where w = w1])
          (use h g1 w1 wr k line in \<open>simp_all add: journal_holds_def add.assoc\<close>)
      show ?thesis
      proof (cases r2)
        case (Some why)
        have j': "j' = j\<lparr>jr_pending := [], jr_journaled := jr_journaled j + length (jr_pending j), jr_writer := wr_unlock w2\<rparr>" "r \<noteq> None"
          using e None l n g w1 k Some by (auto simp: journal_append_def take_out_pending_def locked_def Let_def)
        from g2 Some obtain D' R' where D': "D' @ R' = D @ R @ P" "prefix (D @ R @ P) D'" "writer_holds lc base D' R' (D @ R @ P) w2"
          by auto
        have "journal_holds lc base D' R' [] [] 0 j'"
          unfolding j' journal_holds_def using h g2 D' by (simp add: journal_holds_def writer_ok_unlock)
        moreover have "prefix D D'" using D'(2) by (rule append_prefixD)
        ultimately have "\<exists>D' R' P'. D' @ R' @ P' = D @ R @ P \<and> prefix D D' \<and> journal_holds lc base D' R' [] P' 0 j'"
          using D'(1) by (intro ex3I [of _ D' R' "[]"]) simp
        then show ?thesis using j'(2) by auto
      next
        case r2: None
        have j': "j' = j\<lparr>jr_pending := [], jr_writer := wr_unlock w2, jr_journaled := jr_journaled j + length (jr_pending j) + length line,
            jr_seq := jr_seq j + 1\<rparr>" "r = None"
          using e None l n g w1 k r2 by (simp_all add: journal_append_def take_out_pending_def locked_def Let_def)
        show ?thesis
          unfolding j' journal_holds_def using h g2 r2 by (simp add: journal_holds_def writer_ok_unlock add.assoc)
      qed
    qed
  qed
qed

text \<open>What holds however the journal is used.\<close>

definition journal_inv :: "line_codec \<Rightarrow> u64 \<Rightarrow> journal_state \<Rightarrow> bool" where
  "journal_inv lc base s \<longleftrightarrow>
     (\<exists>D R T P. js_done s = D @ R @ T @ P \<and> js_safe s \<le> length D \<and>
        (case js_taken s of
           None \<Rightarrow> T = [] \<and> journal_holds lc base D R T P 0 (js_journal s)
         | Some (lines, made) \<Rightarrow>
             lines = journal_text lc (base + word_of_nat (length (D @ R))) T \<and> made \<le> length (D @ R @ T) \<and>
             journal_holds lc base D R T P 1 (js_journal s)))"

lemma journal_invI:
  assumes "js_done s = D @ R @ P" "js_safe s \<le> length D" "js_taken s = None" "journal_holds lc base D R [] P 0 (js_journal s)"
  shows "journal_inv lc base s"
  unfolding journal_inv_def using assms
  by (intro ex4I [of _ D R "[]" P]) simp

lemma journal_invE:
  assumes "journal_inv lc base s" "js_taken s = None"
  obtains D R P where "js_done s = D @ R @ P" "js_safe s \<le> length D" "journal_holds lc base D R [] P 0 (js_journal s)"
  using assms by (auto simp: journal_inv_def)

text \<open>Nothing of the tail's file or its lines, nor of what waits, is touched.\<close>

definition same_lines :: "journal \<Rightarrow> journal \<Rightarrow> bool" where
  "same_lines j j' \<longleftrightarrow>
     jr_pending j' = jr_pending j \<and> jr_seq j' = jr_seq j \<and>
     (\<exists>d u. jr_writer j' = (jr_writer j)\<lparr>wr_tail := (wr_tail (jr_writer j))\<lparr>tl_dirty := d, tl_dir_unsynced := u\<rparr>\<rparr>)"

lemma writer_holds_synced [simp]:
  "writer_holds lc base D R acc (w\<lparr>wr_tail := (wr_tail w)\<lparr>tl_dirty := d, tl_dir_unsynced := u\<rparr>\<rparr>) = writer_holds lc base D R acc w"
  "writer_ok b (w\<lparr>wr_tail := (wr_tail w)\<lparr>tl_dirty := d, tl_dir_unsynced := u\<rparr>\<rparr>) = writer_ok b w"
  by (simp_all add: writer_holds_def tail_holds_def writer_ok_def)

lemma same_lines_holds: "same_lines j j' \<Longrightarrow> journal_holds lc base D R T P busy j \<Longrightarrow> journal_holds lc base D R T P busy j'"
  unfolding same_lines_def journal_holds_def by (elim conjE exE) (simp only: writer_holds_synced simp_thms)

lemma same_linesI:
  "jr_pending j' = jr_pending j \<Longrightarrow> jr_seq j' = jr_seq j \<Longrightarrow>
    jr_writer j' = (jr_writer j)\<lparr>wr_tail := (wr_tail (jr_writer j))\<lparr>tl_dirty := d, tl_dir_unsynced := u\<rparr>\<rparr> \<Longrightarrow> same_lines j j'"
  by (auto simp: same_lines_def)

lemma same_linesI': "jr_pending j' = jr_pending j \<Longrightarrow> jr_seq j' = jr_seq j \<Longrightarrow> jr_writer j' = jr_writer j \<Longrightarrow> same_lines j j'"
  by (rule same_linesI [where d = "tl_dirty (wr_tail (jr_writer j))" and u = "tl_dir_unsynced (wr_tail (jr_writer j))"]) simp_all

lemma same_lines_syncs: "same_lines j (fst (take_sync cloned j))" "same_lines j (synced job result j)"
proof -
  show "same_lines j (fst (take_sync cloned j))"
  proof (cases "jr_fsync j = Never")
    case True
    then show ?thesis by (auto simp: take_sync_def intro: same_linesI')
  next
    case False
    then show ?thesis by (auto simp: take_sync_def Let_def intro: same_linesI)
  qed
  show "same_lines j (synced job result j)"
    by (rule same_linesI [where d = "tl_dirty (wr_tail (jr_writer j)) \<or> sj_file job" and u = "tl_dir_unsynced (wr_tail (jr_writer j)) \<or> sj_dir job"])
      (simp_all add: synced_def Let_def split: option.splits)
qed

lemma on_journal_inv:
  assumes "journal_inv lc base s" "same_lines (js_journal s) (f (js_journal s))"
  shows "journal_inv lc base (on_journal f s)"
proof -
  have h: "journal_holds lc base D R T P b (js_journal s) \<Longrightarrow> journal_holds lc base D R T P b (f (js_journal s))" for D R T P b
    using assms(2) by (rule same_lines_holds)
  obtain D R T P where d: "js_done s = D @ R @ T @ P" "js_safe s \<le> length D"
    and t: "case js_taken s of None \<Rightarrow> T = [] \<and> journal_holds lc base D R T P 0 (js_journal s)
       | Some (lines, made) \<Rightarrow>
           lines = journal_text lc (base + word_of_nat (length (D @ R))) T \<and> made \<le> length (D @ R @ T) \<and>
           journal_holds lc base D R T P 1 (js_journal s)"
    using assms(1) unfolding journal_inv_def by blast
  show ?thesis
    unfolding journal_inv_def on_journal_def using d t
    by (intro ex4I [of _ D R T P]) (auto split: option.splits intro: h)
qed

lemma with_tail_inv:
  "journal_inv lc base s \<Longrightarrow> (js_taken s = None \<Longrightarrow> journal_inv lc base (f s)) \<Longrightarrow> journal_inv lc base (with_tail f s)"
  by (simp add: with_tail_def)

lemma do_append_inv:
  assumes "written_plain lc" "journal_inv lc base s" "js_taken s = None"
  shows "journal_inv lc base (do_append lc e s)"
proof -
  obtain D R P where d: "js_done s = D @ R @ P" "js_safe s \<le> length D" "journal_holds lc base D R [] P 0 (js_journal s)"
    using assms(2,3) by (rule journal_invE)
  obtain j r where a: "journal_append lc e (js_journal s) = (j, r)" by fastforce
  note h = append_holds [OF assms(1) d(3) a]
  show ?thesis
  proof (cases r)
    case None
    with h a d assms(3) show ?thesis
      by (intro journal_invI [where D = "D @ R @ P @ [e]" and R = "[]" and P = "[]"]) (auto simp: do_append_def js_result_def)
  next
    case (Some why)
    with h obtain D' R' P' where h': "D' @ R' @ P' = D @ R @ P" "prefix D D'" "journal_holds lc base D' R' [] P' 0 j" by auto
    have "length D \<le> length D'" using h'(2) by (rule prefix_length_le)
    with h' Some a d assms(3) show ?thesis
      by (intro journal_invI [where D = D' and R = R' and P = P']) (auto simp: do_append_def js_result_def)
  qed
qed

lemma do_flush_inv:
  assumes "journal_inv lc base s" "js_taken s = None"
  shows "journal_inv lc base (js_result (flush_pending (js_journal s)) [] s)"
proof -
  obtain D R P where d: "js_done s = D @ R @ P" "js_safe s \<le> length D" "journal_holds lc base D R [] P 0 (js_journal s)"
    using assms(1,2) by (rule journal_invE)
  obtain j r where f: "flush_pending (js_journal s) = (j, r)" by fastforce
  note h = flush_holds [OF d(3) f]
  show ?thesis
  proof (cases r)
    case None
    with h f d assms(2) show ?thesis
      by (intro journal_invI [where D = "D @ R @ P" and R = "[]" and P = "[]"]) (auto simp: js_result_def)
  next
    case (Some why)
    with h f d assms(2) show ?thesis
      by (intro journal_invI [where D = D and R = "R @ P" and P = "[]"]) (auto simp: js_result_def)
  qed
qed

lemma do_defer_inv:
  assumes "written_plain lc" "journal_inv lc base s"
  shows "journal_inv lc base (do_defer (push lc e (js_journal s)) e s)"
proof -
  obtain j r where p: "push lc e (js_journal s) = (j, r)" by fastforce
  obtain D R T P where d: "js_done s = D @ R @ T @ P" "js_safe s \<le> length D"
    and t: "case js_taken s of None \<Rightarrow> T = [] \<and> journal_holds lc base D R T P 0 (js_journal s)
       | Some (lines, made) \<Rightarrow>
           lines = journal_text lc (base + word_of_nat (length (D @ R))) T \<and> made \<le> length (D @ R @ T) \<and>
           journal_holds lc base D R T P 1 (js_journal s)"
    using assms(2) unfolding journal_inv_def by blast
  let ?P = "if r = None then P @ [e] else P"
  have "journal_holds lc base D R T P b (js_journal s) \<Longrightarrow> journal_holds lc base D R T ?P b j" for b
    using push_holds [OF assms(1) _ p] by (simp split: if_splits)
  with d t p show ?thesis
    unfolding journal_inv_def do_defer_def
    by (intro ex4I [of _ D R T ?P]) (auto split: option.splits)
qed

lemma do_apply_inv:
  assumes "written_plain lc" "journal_inv lc base s" "js_taken s = None"
  shows "journal_inv lc base (js_result (append_applied lc e (js_journal s)) (made_anyway lc e) s)"
proof -
  obtain D R P where d: "js_done s = D @ R @ P" "js_safe s \<le> length D" "journal_holds lc base D R [] P 0 (js_journal s)"
    using assms(2,3) by (rule journal_invE)
  obtain j r where p: "push lc e (js_journal s) = (j, r)" by fastforce
  note h = push_holds [OF assms(1) d(3) p]
  show ?thesis
  proof (cases r)
    case (Some why)
    with h p d assms(3) show ?thesis
      by (intro journal_invI [where D = D and R = R and P = P]) (auto simp: append_applied_def js_result_def)
  next
    case None
    let ?s = "s\<lparr>js_journal := j, js_done := js_done s @ [e]\<rparr>"
    have "journal_inv lc base ?s"
      using None h d assms(3) by (intro journal_invI [where D = D and R = R and P = "P @ [e]"]) auto
    from do_flush_inv [OF this] None h p assms(3) show ?thesis
      by (cases "snd (flush_pending j)") (simp_all add: append_applied_def js_result_def)
  qed
qed

lemma do_take_inv:
  assumes "journal_inv lc base s" "js_taken s = None"
  shows "journal_inv lc base (do_take now s)"
proof -
  obtain D R P where d: "js_done s = D @ R @ P" "js_safe s \<le> length D" "journal_holds lc base D R [] P 0 (js_journal s)"
    using assms by (rule journal_invE)
  show ?thesis
  proof (cases "snd (take_pending now (js_journal s))")
    case None
    then have "do_take now s = s"
      by (auto simp: do_take_def take_pending_def take_out_pending_def split: if_splits)
    with assms(1) show ?thesis by simp
  next
    case (Some lines)
    let ?j = "js_journal s"
    have l: "lines = jr_pending ?j"
      and s': "do_take now s = s\<lparr>js_journal := ?j\<lparr>jr_pending := [], jr_journaled := jr_journaled ?j + length (jr_pending ?j),
        jr_writer := wr_lock (jr_writer ?j)\<rparr>, js_taken := Some (lines, length (js_done s))\<rparr>"
      using Some by (auto simp: do_take_def take_pending_def take_out_pending_def split: if_splits)
    have "journal_holds lc base D R P [] 1 (js_journal (do_take now s))"
      using d(3) unfolding s' journal_holds_def by (simp add: writer_ok_lock)
    with d l show ?thesis
      unfolding journal_inv_def by (intro ex4I [of _ D R P "[]"]) (simp add: s' journal_holds_def)
  qed
qed

lemma do_write_inv:
  assumes "journal_inv lc base s"
  shows "journal_inv lc base (do_write s)"
proof (cases "js_taken s")
  case None
  with assms show ?thesis by (simp add: do_write_def)
next
  case (Some taken)
  obtain lines made where tk: "js_taken s = Some (lines, made)" using Some by (cases taken) auto
  obtain D R T P where d: "js_done s = D @ R @ T @ P" "js_safe s \<le> length D"
    "lines = journal_text lc (base + word_of_nat (length (D @ R))) T" "made \<le> length (D @ R @ T)"
    and h: "journal_holds lc base D R T P 1 (js_journal s)"
    using assms tk by (auto simp: journal_inv_def)
  obtain w r where g: "guard_write lines (jr_writer (js_journal s)) = (w, r)" by fastforce
  have g1: "writer_ok 1 w \<and> (if r = None then writer_holds lc base (D @ R @ T) [] (D @ R @ T @ P) w \<and> (R @ T \<noteq> [] \<longrightarrow> \<not> tl_torn (wr_tail w))
      else writer_holds lc base D (R @ T) (D @ R @ T @ P) w)"
    by (rule guard_write_holds [where w = "jr_writer (js_journal s)"])
      (use h g d in \<open>simp_all add: journal_holds_def\<close>)
  have s': "do_write s = s\<lparr>js_journal := (js_journal s)\<lparr>jr_writer := wr_unlock w\<rparr>, js_taken := None,
      js_safe := (if r = None then max made (js_safe s) else js_safe s)\<rparr>"
    by (simp add: do_write_def tk g)
  show ?thesis
  proof (cases r)
    case None
    have "journal_holds lc base (D @ R @ T) [] [] P 0 (js_journal (do_write s))"
      using g1 h None unfolding s' journal_holds_def by (simp add: writer_ok_unlock)
    with d None show ?thesis
      by (intro journal_invI [where D = "D @ R @ T" and R = "[]" and P = P]) (simp_all add: s')
  next
    case (Some why)
    have "journal_holds lc base D (R @ T) [] P 0 (js_journal (do_write s))"
      using g1 h Some unfolding s' journal_holds_def by (simp add: writer_ok_unlock)
    with d Some show ?thesis
      by (intro journal_invI [where D = D and R = "R @ T" and P = P]) (simp_all add: s')
  qed
qed

lemma journal_do_inv:
  assumes "written_plain lc" "journal_inv lc base s"
  shows "journal_inv lc base (journal_do lc op s)"
  using assms
proof (cases op)
  case (Do_Flush_Soon now)
  with assms show ?thesis by (auto simp: flush_soon_def intro!: with_tail_inv do_flush_inv)
next
  case (Do_Sync_Begins now)
  with assms show ?thesis by (auto intro!: on_journal_inv same_linesI')
next
  case Do_Sync_Ends
  with assms show ?thesis by (auto intro!: on_journal_inv same_linesI')
qed (auto simp: defer_applied_def defer_commands_def append_commands_def
    intro!: with_tail_inv do_append_inv do_defer_inv do_apply_inv do_flush_inv do_take_inv do_write_inv on_journal_inv same_lines_syncs)

lemma journal_run_inv:
  "written_plain lc \<Longrightarrow> journal_inv lc base s \<Longrightarrow> journal_inv lc base (journal_run lc ops s)"
  unfolding journal_run_def by (induction ops arbitrary: s) (simp_all add: journal_do_inv)

lemma journal_start_inv:
  assumes "list_all (writable lc) es"
  shows "journal_inv lc base (journal_start lc base es fs sb ds)"
  using assms
  by (intro journal_invI [where D = es and R = "[]" and P = "[]"])
    (auto simp: journal_start_def journal_opened_def journal_holds_def writer_holds_def writer_ok_def intro!: tail_holdsI)

text \<open>What serde promises: what it writes of an effect is one line, which is read back as it.\<close>

definition reads_back :: "line_codec \<Rightarrow> bool" where
  "reads_back lc \<longleftrightarrow> (\<forall>e. made_anyway lc e \<noteq> [] \<longrightarrow> readable lc e)"

lemma reads_back_plain: "reads_back lc \<Longrightarrow> written_plain lc"
  unfolding reads_back_def written_plain_def made_anyway_def readable_def by (auto split: sum.splits)

lemma writable_reads_back: "reads_back lc \<Longrightarrow> writable lc e \<Longrightarrow> readable lc e"
  by (auto simp: reads_back_def writable_def made_anyway_def)

lemma readable_writable: "readable lc e \<Longrightarrow> writable lc e"
  by (auto simp: readable_def writable_def)

definition journal_file :: "journal_state \<Rightarrow> str" where
  "journal_file s = tl_file (wr_tail (jr_writer (js_journal s)))"

definition journal_torn :: "journal_state \<Rightarrow> bool" where
  "journal_torn s = tl_torn (wr_tail (jr_writer (js_journal s)))"

text \<open>
  C2: However changes are journaled, deferred, written by other threads and refused by the
  disk, a crash at any moment loses no change the journal has said is written, and keeps the
  others in order: what the file replays is the first of the changes made, as many as were
  said to be written at least; and, only if a write was cut short and could not be cut off
  again, perhaps one change more that was refused.
\<close>

theorem journal_loses_nothing_written:
  assumes "reads_back lc" "list_all (readable lc) es"
    and "s = journal_run lc ops (journal_start lc base es fs snapshot_bytes ds)"
    and "unat base + length (js_done s) + 1 < 2 ^ 64"
  shows "\<exists>kept more seq valid.
    replay lc cd (journal_file s) st sn path = (fold (apply_effect cd) (drop (unat sn - unat base) (kept @ more)) st, Inr (seq, valid)) \<and>
    prefix kept (js_done s) \<and> js_safe s \<le> length kept \<and> length more \<le> 1 \<and> (journal_torn s \<or> more = [])"
proof -
  have "list_all (writable lc) es" using assms(2) by (auto simp: list_all_iff readable_writable)
  then have "journal_inv lc base s"
    unfolding assms(3) by (intro journal_run_inv reads_back_plain journal_start_inv) (rule assms(1))
  then obtain D where D: "js_safe s \<le> length D" "tail_holds lc base D (js_done s) (wr_tail (jr_writer (js_journal s)))"
    unfolding journal_inv_def journal_holds_def writer_holds_def by (fastforce split: option.splits prod.splits)
  then obtain a x rest where a: "prefix D a" "prefix a (js_done s)" "length x \<le> 1" "list_all (writable lc) (a @ x)" "newline \<notin> set rest"
    "journal_file s = journal_text lc base (a @ x) @ rest" "journal_torn s \<or> x = []"
    unfolding tail_holds_def journal_file_def journal_torn_def by blast
  have r: "list_all (readable lc) (a @ x)" using a(4) assms(1) by (auto simp: list_all_iff intro: writable_reads_back)
  have "unat base + length (a @ x) < 2 ^ 64"
    using prefix_length_le [OF a(2)] a(3) assms(4) by simp
  from journal_replays_what_was_written [OF r this a(5)] a prefix_length_le [OF a(1)] D(1) show ?thesis
    by (intro ex4I [of _ a x]) auto
qed

lemma plain_reads_back: "reads_back plain_codec"
proof -
  have "readable plain_codec e" if "made_anyway plain_codec e \<noteq> []" for e
    using that by (cases e) (auto simp: made_anyway_def plain_codec_def intro: plain_readable [unfolded plain_codec_def] split: if_splits)
  then show ?thesis by (simp add: reads_back_def)
qed

lemma made_length: "length (made_anyway lc e) \<le> 1"
  by (simp add: made_anyway_def split: sum.splits)

lemma do_length: "length (js_done (journal_do lc op s)) \<le> length (js_done s) + 1"
  by (cases op)
    (auto simp: with_tail_def do_append_def do_defer_def js_result_def do_take_def do_write_def on_journal_def made_length
      Let_def made_length [simplified] split: option.splits prod.splits)

lemma run_length: "length (js_done (journal_run lc ops s)) \<le> length (js_done s) + length ops"
proof (induction ops arbitrary: s)
  case (Cons op ops)
  show ?case using Cons.IH [of "journal_do lc op s"] do_length [of lc op s] by (simp add: journal_run_def)
qed (simp add: journal_run_def)

text \<open>Two changes made while the disk takes the first only, and part of the second, and cannot be cut back.\<close>

definition sample_journal :: journal_state where
  "sample_journal =
     journal_run plain_codec [Do_Append (E_Forget ''b''), Do_Apply (E_Forget ''c''), Do_Flush]
       (journal_start plain_codec 4 [E_Forget ''a''] Always 0 [Takes, Stops 7 ''no space left on device'' False])"

lemma journal_loses_nothing_written_witness:
  "\<exists>kept more seq valid.
    replay plain_codec (en_codec sample_env) (journal_file sample_journal) store_default 0 ''journal.log'' =
      (fold (apply_effect (en_codec sample_env)) (drop (unat (0 :: u64) - unat (4 :: u64)) (kept @ more)) store_default, Inr (seq, valid)) \<and>
    prefix kept (js_done sample_journal) \<and> js_safe sample_journal \<le> length kept \<and> length more \<le> 1 \<and>
    (journal_torn sample_journal \<or> more = [])"
proof (rule journal_loses_nothing_written [OF plain_reads_back _ sample_journal_def])
  show "list_all (readable plain_codec) [E_Forget ''a'']"
    by (simp add: plain_readable is_ascii_alphanumeric_def byte_of_def)
  have "length (js_done sample_journal) \<le> 4"
    unfolding sample_journal_def by (rule order_trans [OF run_length]) (simp add: journal_start_def)
  then show "unat (4 :: u64) + length (js_done sample_journal) + 1 < 2 ^ 64" by simp
qed

subsection \<open>The broker's journal\<close>

definition journal_env :: "line_codec \<Rightarrow> 'k env \<Rightarrow> journal env" where
  "journal_env lc en =
     \<lparr>en_codec = en_codec en, en_append = journal_append lc, en_defer = defer_applied lc, en_defers = defers,
      en_batching = en_batching en, en_in_use = en_in_use en, en_mib = en_mib en, en_random = en_random en\<rparr>"

text \<open>
  C5: A change the broker commits is made in memory exactly when the journal takes it, and the
  two stay in step: a change that is refused is neither made nor journaled, and one that is made
  outside a batch of changes is on the disk, as far as the journal says, before the reply.
\<close>

theorem commit_journals_what_it_applies:
  assumes "reads_back lc" "journal_inv lc base s" "js_taken s = None" "c_journal c = Some (js_journal s)"
    and "commit (journal_env lc en) e c = (c', r)"
  shows "\<exists>s'. journal_inv lc base s' \<and> js_taken s' = None \<and> c_journal c' = Some (js_journal s') \<and>
    (if r = Inr ()
     then c_store c' = apply_effect (en_codec en) e (c_store c) \<and> js_done s' = js_done s @ [e] \<and>
       (js_safe s' = length (js_done s') \<or> en_batching en \<and> defers (js_journal s))
     else c_store c' = c_store c \<and> js_done s' = js_done s)"
proof -
  note plain = reads_back_plain [OF assms(1)]
  let ?d = "en_batching en \<and> defers (js_journal s)"
  let ?s = "if c_halted c then s else if ?d then do_defer (push lc e (js_journal s)) e s else do_append lc e s"
  have "journal_inv lc base ?s"
    using do_defer_inv [OF plain assms(2)] do_append_inv [OF plain assms(2,3)] assms(2) by simp
  moreover have "js_taken ?s = None"
    using assms(3) by (simp add: do_defer_def do_append_def js_result_def Let_def)
  moreover have "c_journal c' = Some (js_journal ?s) \<and>
    (if r = Inr ()
     then c_store c' = apply_effect (en_codec en) e (c_store c) \<and> js_done ?s = js_done s @ [e] \<and>
       (js_safe ?s = length (js_done ?s) \<or> ?d)
     else c_store c' = c_store c \<and> js_done ?s = js_done s)"
  proof (cases "c_halted c")
    case True
    with assms(4,5) show ?thesis by (auto simp: commit_def)
  next
    case False
    show ?thesis
    proof (cases ?d)
      case True
      obtain j w where "push lc e (js_journal s) = (j, w)" by fastforce
      with True False assms(4,5) show ?thesis
        by (cases w) (auto simp: commit_def journal_env_def defer_applied_def do_defer_def apply_commit_def)
    next
      case no: False
      obtain j w where "journal_append lc e (js_journal s) = (j, w)" by fastforce
      with no False assms(4,5) show ?thesis
        by (cases w) (auto simp: commit_def journal_env_def do_append_def js_result_def apply_commit_def Let_def)
    qed
  qed
  ultimately show ?thesis by blast
qed

definition fresh_journal :: journal_state where
  "fresh_journal = journal_start plain_codec 0 [] Always 0 []"

lemma fresh_journal_inv: "journal_inv plain_codec 0 fresh_journal"
  unfolding fresh_journal_def by (rule journal_start_inv) simp

definition journaled_core :: "journal core" where
  "journaled_core = core_new sample_store limits_default (Some (js_journal fresh_journal)) 5"

lemma commit_journals_what_it_applies_witness:
  "\<exists>c' r s'. commit (journal_env plain_codec sample_env) (E_Forget ''a'') journaled_core = (c', r) \<and>
    journal_inv plain_codec 0 s' \<and> c_journal c' = Some (js_journal s') \<and>
    (if r = Inr () then js_done s' = [E_Forget ''a''] \<and> js_safe s' = 1 else c_store c' = sample_store \<and> js_done s' = [])"
proof -
  obtain c' r where c: "commit (journal_env plain_codec sample_env) (E_Forget ''a'') journaled_core = (c', r)" by fastforce
  have t: "js_taken fresh_journal = None" "js_done fresh_journal = []" "c_journal journaled_core = Some (js_journal fresh_journal)"
    "c_store journaled_core = sample_store" "\<not> en_batching sample_env"
    by (simp_all add: fresh_journal_def journal_start_def journaled_core_def core_new_def sample_env_def)
  from commit_journals_what_it_applies [OF plain_reads_back fresh_journal_inv t(1,3) c] obtain s' where
    "journal_inv plain_codec 0 s'" "c_journal c' = Some (js_journal s')"
    "if r = Inr () then js_done s' = [E_Forget ''a''] \<and> js_safe s' = 1 else c_store c' = sample_store \<and> js_done s' = []"
    using t by (auto split: if_splits)
  with c show ?thesis by blast
qed

end
