(* ===== verification/Data_Dir.thy ===== *)
theory Data_Dir
  imports Journal
begin

text \<open>
  The data directory (\<open>journal.rs\<close>: \<open>Snapshot\<close>, \<open>Journal::open\<close>, \<open>start_rewrite\<close>, \<open>persist\<close>): a
  snapshot, the journals set aside and the current one. A rewrite is the list of the steps it takes
  in the directory, so that a crash is a prefix of it.
\<close>

subsection \<open>A snapshot's file\<close>

definition snapshot_end_start :: str where
  "snapshot_end_start = [CHR '','', CHR 34, CHR ''c'', CHR 34, CHR '':'', CHR 34]"

definition snapshot_end_close :: str where
  "snapshot_end_close = [CHR 34, CHR ''}'']"

definition snapshot_end :: "u32 \<Rightarrow> str" where
  "snapshot_end crc = snapshot_end_start @ hex_digits crc @ snapshot_end_close"

text \<open>What serde reads in a snapshot: its version, its number, and what it holds.\<close>

type_synonym snapshot_reader = "str \<Rightarrow> str + (u32 \<times> u64 \<times> snapshot)"

definition read_snapshot :: "snapshot_reader \<Rightarrow> str \<Rightarrow> str + (u32 \<times> u64 \<times> snapshot)" where
  "read_snapshot parse raw =
     (let at = length raw - 16; body = take at raw; ending = drop at raw
      in if 16 \<le> length raw \<and> take 6 ending = snapshot_end_start \<and> drop 14 ending = snapshot_end_close \<and>
            read_hex (take 8 (drop 6 ending)) = Some (crc32c body)
         then parse raw
         else Inl ''it does not match its checksum'')"

record snapshot_file =
  sw_seq :: u64
  sw_capture :: nat
  sw_parts :: "str list"
  sw_bytes :: nat
  sw_file :: "str option"
  sw_crc :: u32

definition sw_start :: "u64 \<Rightarrow> nat \<Rightarrow> snapshot_file" where
  "sw_start seq n =
     \<lparr>sw_seq = seq, sw_capture = n, sw_parts = [], sw_bytes = 0, sw_file = None, sw_crc = 0\<rparr>"

definition sw_len :: "snapshot_file \<Rightarrow> nat" where
  "sw_len sw = sw_bytes sw + 16"

definition sw_is_empty :: "snapshot_file \<Rightarrow> bool" where
  "sw_is_empty sw \<longleftrightarrow> sw_bytes sw = 0"

definition sw_add :: "str list \<Rightarrow> snapshot_file \<Rightarrow> snapshot_file" where
  "sw_add parts sw = sw\<lparr>sw_bytes := sw_bytes sw + sum_list (map length parts), sw_parts := sw_parts sw @ parts\<rparr>"

text \<open>The parts written, but for what the disk refuses; what was drained is gone either way.\<close>

primrec write_parts :: "str list \<Rightarrow> nat option \<Rightarrow> str \<times> u32 \<Rightarrow> (str \<times> u32) \<times> bool" where
  "write_parts [] refuses fc = (fc, True)"
| "write_parts (part # parts) refuses fc =
     (case refuses of
        Some 0 \<Rightarrow> (fc, False)
      | Some (Suc n) \<Rightarrow> write_parts parts (Some n) (fst fc @ part, crc32c_extend (snd fc) part)
      | None \<Rightarrow> write_parts parts None (fst fc @ part, crc32c_extend (snd fc) part))"

definition sw_flush :: "nat option \<Rightarrow> snapshot_file \<Rightarrow> snapshot_file \<times> bool" where
  "sw_flush refuses sw =
     (let file = (case sw_file sw of Some file \<Rightarrow> file | None \<Rightarrow> []);
          ((file, crc), ok) = write_parts (sw_parts sw) refuses (file, sw_crc sw)
      in (sw\<lparr>sw_file := Some file, sw_crc := crc, sw_parts := []\<rparr>, ok))"

text \<open>What \<open>persist\<close> writes at the end, and the whole file.\<close>

definition sw_complete :: "snapshot_file \<Rightarrow> str option" where
  "sw_complete sw = map_option (\<lambda>file. file @ snapshot_end (sw_crc sw)) (sw_file sw)"

lemma crc_nil: "crc32c [] = 0"
  by (simp add: crc32c_def crc32c_extend_def crc32c_table_def)

lemma crc_concat: "crc32c_extend (crc32c a) b = crc32c (a @ b)"
  by (simp add: crc32c_def crc_extend_append)

lemma write_parts_all:
  "crc = crc32c out \<Longrightarrow> write_parts parts None (out, crc) = ((out @ concat parts, crc32c (out @ concat parts)), True)"
  by (induction parts arbitrary: out crc) (simp_all add: crc_concat)

text \<open>Parts added and flushed as they come.\<close>

definition sw_batch :: "str list \<Rightarrow> snapshot_file \<Rightarrow> snapshot_file" where
  "sw_batch parts sw = fst (sw_flush None (sw_add parts sw))"

definition sw_holds :: "str \<Rightarrow> snapshot_file \<Rightarrow> bool" where
  "sw_holds body sw \<longleftrightarrow> sw_parts sw = [] \<and> sw_file sw = Some body \<and> sw_crc sw = crc32c body \<and> sw_bytes sw = length body"

lemma sw_batch_holds: "sw_holds body sw \<Longrightarrow> sw_holds (body @ concat parts) (sw_batch parts sw)"
  by (simp add: sw_holds_def sw_batch_def sw_add_def sw_flush_def write_parts_all length_concat)

lemma sw_batches_hold: "sw_holds body sw \<Longrightarrow> sw_holds (body @ concat (concat batches)) (fold sw_batch batches sw)"
proof (induction batches arbitrary: body sw)
  case (Cons parts batches)
  from Cons.IH [OF sw_batch_holds [OF Cons.prems]] show ?case by simp
qed simp

lemma sw_first_batch: "sw_holds (concat parts) (sw_batch parts (sw_start seq n))"
  by (simp add: sw_holds_def sw_batch_def sw_add_def sw_flush_def sw_start_def write_parts_all crc_nil length_concat)

lemma read_sealed: "read_snapshot parse (body @ snapshot_end (crc32c body)) = parse (body @ snapshot_end (crc32c body))"
  by (simp add: read_snapshot_def snapshot_end_def snapshot_end_start_def snapshot_end_close_def read_hex_digits)



subsection \<open>The data directory\<close>

text \<open>Journals set aside are kept by the number they are named after.\<close>

record data_dir =
  dd_snapshot :: "str option"
  dd_rotated :: "(u64, str) btree_map"
  dd_active :: "str option"
  dd_next :: "str option"
  dd_temps :: "str list"

definition rotated_name :: "u64 \<Rightarrow> str" where
  "rotated_name n = ''journal-'' @ pad0 20 (unat n) @ ''.log''"

definition rotated_number :: "str \<Rightarrow> u64 option" where
  "rotated_number name =
     (case strip_prefix ''journal-'' name of
        None \<Rightarrow> None
      | Some s \<Rightarrow> if ends_with s ''.log'' then parse_u64 (take (length s - 4) s) else None)"

definition in_dir :: "str \<Rightarrow> str \<Rightarrow> str" where
  "in_dir dir name = dir @ ''/'' @ name"

definition load_snapshot :: "codec \<Rightarrow> snapshot_reader \<Rightarrow> str \<Rightarrow> data_dir \<Rightarrow> str + (store \<times> u64 \<times> nat)" where
  "load_snapshot cd parse path d =
     (case dd_snapshot d of
        None \<Rightarrow> Inr (store_default, 0, 0)
      | Some raw \<Rightarrow>
          (case read_snapshot parse raw of
             Inl e \<Rightarrow> Inl (''corrupt snapshot '' @ in_dir path ''snapshot.json'' @ '': '' @ e)
           | Inr (version, seq, sn) \<Rightarrow>
               if version \<noteq> 1
               then Inl (''unsupported snapshot version '' @ show_nat (unat version) @ '' in '' @ in_dir path ''snapshot.json'')
               else Inr (from_snapshot cd sn, seq, length raw)))"

primrec replay_rotated ::
  "line_codec \<Rightarrow> codec \<Rightarrow> u64 \<Rightarrow> str \<Rightarrow> (u64 \<times> str) list \<Rightarrow> store \<Rightarrow> u64 \<Rightarrow> str + (store \<times> u64)" where
  "replay_rotated lc cd snapshot_seq path [] st seq = Inr (st, seq)"
| "replay_rotated lc cd snapshot_seq path (x # xs) st seq =
     (if fst x \<le> snapshot_seq then replay_rotated lc cd snapshot_seq path xs st seq
      else case replay lc cd (snd x) st snapshot_seq (in_dir path (rotated_name (fst x))) of
        (_, Inl e) \<Rightarrow> Inl e
      | (st, Inr (read_seq, _)) \<Rightarrow> replay_rotated lc cd snapshot_seq path xs st (max seq read_seq))"

definition journal_open ::
  "line_codec \<Rightarrow> codec \<Rightarrow> snapshot_reader \<Rightarrow> str \<Rightarrow> fsync \<Rightarrow> disk list \<Rightarrow> data_dir \<Rightarrow> data_dir \<times> (str + (journal \<times> store))" where
  "journal_open lc cd parse path fs ds d =
     (case load_snapshot cd parse path d of
        Inl e \<Rightarrow> (d, Inl e)
      | Inr (st, snapshot_seq, snapshot_bytes) \<Rightarrow>
          (let rotated = bm_entries (dd_rotated d);
               d = d\<lparr>dd_rotated := bm_filter (\<lambda>n _. n > snapshot_seq) (dd_rotated d)\<rparr>
           in case replay_rotated lc cd snapshot_seq path rotated st snapshot_seq of
                Inl e \<Rightarrow> (d, Inl e)
              | Inr (st, seq) \<Rightarrow>
                  (let file = (case dd_active d of Some file \<Rightarrow> file | None \<Rightarrow> []);
                       d = d\<lparr>dd_next := None, dd_temps := [], dd_active := Some file\<rparr>
                   in case replay lc cd file st snapshot_seq (in_dir path ''journal.log'') of
                        (_, Inl e) \<Rightarrow> (d, Inl e)
                      | (st, Inr (read_seq, valid)) \<Rightarrow>
                          (d\<lparr>dd_active := Some (take valid file)\<rparr>,
                           Inr (journal_opened fs (max (max seq read_seq) snapshot_seq) snapshot_bytes (take valid file) ds, st)))))"

subsection \<open>Rewriting\<close>

text \<open>The steps a rewrite takes in the directory, each of them whole or not at all.\<close>

datatype fs_op =
    Remove_Next
  | Create_Next
  | Set_Aside u64
  | Take_Over
  | Put_Back u64
  | Save_Temp str
  | Land str
  | Remove_Temp str
  | Remove_Rotated u64

fun fs_do :: "fs_op \<Rightarrow> data_dir \<Rightarrow> data_dir" where
  "fs_do Remove_Next d = d\<lparr>dd_next := None\<rparr>"
| "fs_do Create_Next d = d\<lparr>dd_next := Some []\<rparr>"
| "fs_do (Set_Aside n) d =
     (case dd_active d of
        None \<Rightarrow> d
      | Some file \<Rightarrow> d\<lparr>dd_active := None, dd_rotated := bm_insert n file (dd_rotated d)\<rparr>)"
| "fs_do Take_Over d = d\<lparr>dd_active := dd_next d, dd_next := None\<rparr>"
| "fs_do (Put_Back n) d =
     d\<lparr>dd_active := bm_get (dd_rotated d) n, dd_rotated := bm_remove n (dd_rotated d)\<rparr>"
| "fs_do (Save_Temp content) d = d\<lparr>dd_temps := content # dd_temps d\<rparr>"
| "fs_do (Land content) d = d\<lparr>dd_snapshot := Some content, dd_temps := remove1 content (dd_temps d)\<rparr>"
| "fs_do (Remove_Temp content) d = d\<lparr>dd_temps := remove1 content (dd_temps d)\<rparr>"
| "fs_do (Remove_Rotated n) d = d\<lparr>dd_rotated := bm_remove n (dd_rotated d)\<rparr>"

text \<open>
  \<open>start_rewrite\<close>'s steps in the directory, up to the first the file system refuses and what
  undoes those before it: the ones done, in order, and the error.
\<close>

definition start_rewrite_files :: "(fs_op \<Rightarrow> str option) \<Rightarrow> u64 \<Rightarrow> data_dir \<Rightarrow> fs_op list \<times> str option" where
  "start_rewrite_files refuses n d =
     (let set_aside = bm_contains (dd_rotated d) n;
          begun = [Remove_Next, Create_Next] @ (if set_aside then [] else [Set_Aside n])
      in case refuses Create_Next of
           Some why \<Rightarrow> ([Remove_Next], Some why)
         | None \<Rightarrow>
             (case (if set_aside then None else refuses (Set_Aside n)) of
                Some why \<Rightarrow> ([Remove_Next, Create_Next, Remove_Next], Some why)
              | None \<Rightarrow>
                  (case refuses Take_Over of
                     Some why \<Rightarrow>
                       (begun @ (if set_aside \<or> refuses (Put_Back n) \<noteq> None then [] else [Put_Back n]) @ [Remove_Next], Some why)
                   | None \<Rightarrow> (begun @ [Take_Over], None))))"

text \<open>
  \<open>start_rewrite\<close>: what waits goes to the journal about to be set aside; then the fresh one takes
  over. \<open>head\<close> is serde's answer when it is given the state.
\<close>

definition fresh_tail :: "tail \<Rightarrow> tail" where
  "fresh_tail t = t\<lparr>tl_dir_unsynced := True, tl_file := [], tl_dirty := False, tl_bytes := 0, tl_torn := False\<rparr>"

definition start_rewrite ::
  "(fs_op \<Rightarrow> str option) \<Rightarrow> str option \<Rightarrow> data_dir \<Rightarrow> journal \<Rightarrow> data_dir \<times> journal \<times> str option" where
  "start_rewrite refuses head d j =
     (let (j, lines) = take_out_pending j;
          (w, written) = guard_write lines (wr_lock (jr_writer j));
          j = j\<lparr>jr_writer := w\<rparr>;
          unlocked = (\<lambda>j. j\<lparr>jr_writer := wr_unlock (jr_writer j)\<rparr>);
          d = d\<lparr>dd_active := map_option (\<lambda>_. tl_file (wr_tail w)) (dd_active d)\<rparr>
      in case written of
           Some why \<Rightarrow> (d, unlocked j, Some why)
         | None \<Rightarrow>
             (case head of
                Some why \<Rightarrow> (d, unlocked j, Some why)
              | None \<Rightarrow>
                  (let (ops, failed) = start_rewrite_files refuses (jr_seq j) d; d = fold fs_do ops d
                   in case failed of
                        Some why \<Rightarrow> (d, unlocked j, Some why)
                      | None \<Rightarrow>
                          (let t = wr_tail w;
                               retired = (if tl_dirty t \<and> jr_fsync j = EverySec then jr_retired j @ [tl_file t] else jr_retired j);
                               w = note_writes (w\<lparr>wr_tail := fresh_tail t\<rparr>)
                           in (d, unlocked (j\<lparr>jr_writer := w, jr_retired := retired, jr_journaled := 0, jr_resnapshot := False,
                                 jr_writing := True\<rparr>), None)))))"

text \<open>
  \<open>persist\<close>, once the snapshot's parts are in its temporary file: it takes \<open>snapshot.json\<close>'s
  place, and the journals it covers go, oldest first. \<open>write\<close> removes the file when it fails.
\<close>

primrec remove_covered :: "(fs_op \<Rightarrow> str option) \<Rightarrow> u64 list \<Rightarrow> fs_op list \<times> str option" where
  "remove_covered refuses [] = ([], None)"
| "remove_covered refuses (n # ns) =
     (case refuses (Remove_Rotated n) of
        Some why \<Rightarrow> ([], Some why)
      | None \<Rightarrow> (let (ops, failed) = remove_covered refuses ns in (Remove_Rotated n # ops, failed)))"

definition persist_files :: "(fs_op \<Rightarrow> str option) \<Rightarrow> str \<Rightarrow> u64 \<Rightarrow> data_dir \<Rightarrow> fs_op list \<times> str option" where
  "persist_files refuses content seq d =
     (let covered = filter (\<lambda>n. n \<le> seq) (bm_keys (dd_rotated d))
      in case refuses (Save_Temp content) of
           Some why \<Rightarrow> ([], Some why)
         | None \<Rightarrow>
             (case refuses (Land content) of
                Some why \<Rightarrow> ([Save_Temp content, Remove_Temp content], Some why)
              | None \<Rightarrow>
                  (let (ops, failed) = remove_covered refuses covered in ([Save_Temp content, Land content] @ ops, failed))))"

subsection \<open>A directory at any moment\<close>

lemma rotated_name_number: "rotated_number (rotated_name n) = Some n"
proof -
  let ?z = "replicate (20 - length (show_nat (unat n))) (CHR ''0'')"
  have z: "foldl (\<lambda>m c. 10 * m + digit_val c) 0 (replicate k (CHR ''0'')) = (0 :: nat)" for k
    by (induction k) (simp_all add: digit_val_def byte_of_def)
  have v: "digits_val (?z @ show_nat (unat n)) = unat n"
    using digits_val_show [of "unat n"] unfolding digits_val_def foldl_append z .
  have d: "list_all is_ascii_digit (?z @ show_nat (unat n))"
    using show_nat_digits [of "unat n"] by (auto simp: list_all_iff is_ascii_digit_def byte_of_def)
  have "parse_u64 (?z @ show_nat (unat n)) = Some n"
  proof (cases "?z @ show_nat (unat n)")
    case (Cons c r)
    with d have "c \<noteq> CHR ''+''" using digit_not_sign by simp
    with Cons d v show ?thesis
      using unsigned_less [of n] by (simp add: parse_u64_def parse_digits_def)
  qed simp
  then show ?thesis
    by (simp add: rotated_number_def rotated_name_def pad0_def Let_def strip_prefix_def starts_with_def ends_with_iff)
qed

primrec journals_hold :: "line_codec \<Rightarrow> u64 \<Rightarrow> effect list list \<Rightarrow> (u64 \<times> str) list \<Rightarrow> bool" where
  "journals_hold lc b [] js \<longleftrightarrow> js = []"
| "journals_hold lc b (es # ess) js \<longleftrightarrow>
     (\<exists>rest js'. js = (b + word_of_nat (length es), journal_text lc b es @ rest) # js' \<and> newline \<notin> set rest \<and>
        journals_hold lc (b + word_of_nat (length es)) ess js')"

definition live :: "u64 \<Rightarrow> data_dir \<Rightarrow> (u64 \<times> str) list" where
  "live S d = filter (\<lambda>(n, _). n > S) (bm_entries (dd_rotated d))"

definition active_file :: "data_dir \<Rightarrow> str" where
  "active_file d = (case dd_active d of Some file \<Rightarrow> file | None \<Rightarrow> [])"

text \<open>
  What a directory holds beyond a snapshot numbered \<open>S\<close>: the changes \<open>changes\<close>, the last of them
  numbered \<open>N\<close>, in the journals set aside and then the current one.
\<close>

definition dir_holds :: "line_codec \<Rightarrow> data_dir \<Rightarrow> u64 \<Rightarrow> u64 \<Rightarrow> effect list list \<Rightarrow> effect list \<Rightarrow> u64 \<Rightarrow> bool" where
  "dir_holds lc d S b ess es N \<longleftrightarrow>
     journals_hold lc b ess (live S d) \<and>
     (\<exists>rest. newline \<notin> set rest \<and> active_file d = journal_text lc (b + word_of_nat (length (concat ess))) es @ rest) \<and>
     b \<le> S \<and> S \<le> N \<and> list_all (readable lc) (concat ess @ es) \<and>
     unat b + length (concat ess @ es) = unat N \<and> (\<forall>n \<in> set (bm_keys (dd_rotated d)). n \<le> N)"

definition dir_changes :: "line_codec \<Rightarrow> data_dir \<Rightarrow> u64 \<Rightarrow> effect list \<Rightarrow> u64 \<Rightarrow> bool" where
  "dir_changes lc d S changes N \<longleftrightarrow>
     (\<exists>b ess es. dir_holds lc d S b ess es N \<and> changes = drop (unat S - unat b) (concat ess @ es))"

definition snapshot_holds :: "codec \<Rightarrow> snapshot_reader \<Rightarrow> data_dir \<Rightarrow> u64 \<Rightarrow> store \<Rightarrow> bool" where
  "snapshot_holds cd parse d S st \<longleftrightarrow>
     (case dd_snapshot d of
        None \<Rightarrow> S = 0 \<and> st = store_default
      | Some raw \<Rightarrow> \<exists>sn. read_snapshot parse raw = Inr (1, S, sn) \<and> st = from_snapshot cd sn)"

text \<open>Opening a directory gives a store, and a journal that goes on from a number.\<close>

definition recovers :: "line_codec \<Rightarrow> codec \<Rightarrow> snapshot_reader \<Rightarrow> data_dir \<Rightarrow> store \<Rightarrow> u64 \<Rightarrow> bool" where
  "recovers lc cd parse d st N \<longleftrightarrow>
     (\<forall>path fs ds. case journal_open lc cd parse path fs ds d of
        (_, Inl _) \<Rightarrow> False
      | (_, Inr (j, st')) \<Rightarrow> st' = st \<and> jr_seq j = N)"

lemma load_snapshot_holds:
  "snapshot_holds cd parse d S st \<Longrightarrow> \<exists>n. load_snapshot cd parse path d = Inr (st, S, n)"
  by (cases "dd_snapshot d") (auto simp: snapshot_holds_def load_snapshot_def)

lemma replay_rotated_live:
  "replay_rotated lc cd S path js st seq = replay_rotated lc cd S path (filter (\<lambda>(n, _). n > S) js) st seq"
proof (induction js arbitrary: st seq)
  case (Cons x js)
  show ?case
  proof (cases "fst x \<le> S")
    case True
    then have "filter (\<lambda>(n, _). n > S) (x # js) = filter (\<lambda>(n, _). n > S) js" by (simp add: case_prod_beta)
    with True show ?thesis using Cons.IH [of st seq] by (simp only: replay_rotated.simps if_True)
  next
    case False
    then have f: "filter (\<lambda>(n, _). n > S) (x # js) = x # filter (\<lambda>(n, _). n > S) js" by (simp add: case_prod_beta)
    obtain st' r where "replay lc cd (snd x) st S (in_dir path (rotated_name (fst x))) = (st', r)" by fastforce
    then show ?thesis
      unfolding f replay_rotated.simps using False Cons.IH by (cases r) (simp_all split: prod.split)
  qed
qed simp

lemma unat_plus_len: "unat b + n < 2 ^ 64 \<Longrightarrow> unat (b + word_of_nat n :: u64) = unat b + n"
  by (simp add: unat_word_ariths unat_of_nat take_bit_nat_eq_self)

lemma replay_rotated_holds:
  assumes "journals_hold lc b ess js" "\<forall>(n, _) \<in> set js. n > S" "list_all (readable lc) (concat ess)"
    "unat b + length (concat ess) < 2 ^ 64" "S \<le> seq" "b \<le> seq"
  shows "replay_rotated lc cd S path js st seq =
    Inr (fold (apply_effect cd) (drop (unat S - unat b) (concat ess)) st, max seq (b + word_of_nat (length (concat ess))))"
  using assms
proof (induction ess arbitrary: b js st seq)
  case Nil
  then show ?case by (simp add: max_absorb1)
next
  case (Cons es ess)
  let ?b = "b + word_of_nat (length es)"
  obtain rest js' where js: "js = (?b, journal_text lc b es @ rest) # js'" "newline \<notin> set rest" "journals_hold lc ?b ess js'"
    using Cons.prems(1) by auto
  have ub: "unat ?b = unat b + length es" using Cons.prems(4) by (intro unat_plus_len) simp
  have S: "\<not> ?b \<le> S" using Cons.prems(2) js(1) by auto
  have r: "list_all (readable lc) es" "unat b + length es < 2 ^ 64" using Cons.prems by simp_all
  let ?st = "fold (apply_effect cd) (drop (unat S - unat b) es) st"
  have up: "?b \<le> ?b + word_of_nat (length (concat ess))"
    using Cons.prems(4) unat_plus_len [of ?b "length (concat ess)"] by (simp add: word_le_nat_alt ub)
  have IH: "replay_rotated lc cd S path js' ?st (max seq ?b) =
    Inr (fold (apply_effect cd) (drop (unat S - unat ?b) (concat ess)) ?st, max (max seq ?b) (?b + word_of_nat (length (concat ess))))"
    using Cons.prems js ub by (intro Cons.IH) (auto simp: max_def)
  have "(if es = [] then S else max S ?b) = ?b \<or> es = []" using S by (simp add: max_def)
  then have m: "max seq (if es = [] then S else max S ?b) = max seq ?b" using Cons.prems(5,6) by (auto simp: max_absorb1)
  have "replay_rotated lc cd S path js st seq = replay_rotated lc cd S path js' ?st (max seq ?b)"
    by (simp only: js(1) replay_rotated.simps fst_conv snd_conv S if_False journal_replays_what_was_written [OF r js(2)] prod.case sum.case m)
  also note IH
  also have "max (max seq ?b) (?b + word_of_nat (length (concat ess))) = max seq (b + word_of_nat (length (concat (es # ess))))"
    using up by (simp add: max.assoc max_absorb2 add.assoc)
  also have "fold (apply_effect cd) (drop (unat S - unat ?b) (concat ess)) ?st =
      fold (apply_effect cd) (drop (unat S - unat b) (concat (es # ess))) st"
    by (simp add: ub)
  finally show ?case .
qed

lemma u64_small: "unat (N :: u64) < 2 ^ 64"
  using unsigned_less [of N] by simp

lemma dir_recovers:
  assumes h: "dir_holds lc d S b ess es N" and s: "snapshot_holds cd parse d S st"
  shows "recovers lc cd parse d (fold (apply_effect cd) (drop (unat S - unat b) (concat ess @ es)) st) N"
proof -
  let ?b = "b + word_of_nat (length (concat ess))"
  let ?st = "fold (apply_effect cd) (drop (unat S - unat b) (concat ess)) st"
  from h obtain rest where a: "newline \<notin> set rest" "active_file d = journal_text lc ?b es @ rest"
    and js: "journals_hold lc b ess (live S d)" and b: "b \<le> S" "S \<le> N" and r: "list_all (readable lc) (concat ess)" "list_all (readable lc) es"
    and n: "unat b + length (concat ess @ es) = unat N"
    unfolding dir_holds_def by auto
  have lt: "unat b + length (concat ess) < 2 ^ 64" "unat b + length (concat ess @ es) < 2 ^ 64"
    using n u64_small [of N] by simp_all
  have ub: "unat ?b = unat b + length (concat ess)" using lt(1) by (rule unat_plus_len)
  have "\<forall>(n, _) \<in> set (live S d). n > S" by (auto simp: live_def)
  from replay_rotated_holds [OF js this r(1) lt(1) order_refl b(1)]
  have rot: "replay_rotated lc cd S path (bm_entries (dd_rotated d)) st S = Inr (?st, max S ?b)" for path
    by (subst replay_rotated_live) (simp only: live_def)
  have lt2: "unat ?b + length es < 2 ^ 64" using lt(2) ub by simp
  have N: "?b + word_of_nat (length es) = N"
    by (rule word_unat_eq_iff [THEN iffD2]) (use unat_plus_len [OF lt2] ub n in simp)
  have act: "replay lc cd (active_file d) ?st S path =
      (fold (apply_effect cd) (drop (unat S - unat ?b) es) ?st, Inr (if es = [] then S else max S N, length (journal_text lc ?b es)))" for path
    unfolding a(2) using journal_replays_what_was_written [OF r(2) lt2 a(1)] by (simp add: N)
  have bN: "?b \<le> N" using n ub by (simp add: word_le_nat_alt)
  have last_number: "max (max (max S ?b) (if es = [] then S else max S N)) S = N"
    using bN b(2) N by (cases "es = []") (auto simp: max_def)
  have all: "fold (apply_effect cd) (drop (unat S - unat ?b) es) ?st = fold (apply_effect cd) (drop (unat S - unat b) (concat ess @ es)) st"
    by (simp add: ub)
  show ?thesis
    unfolding recovers_def
  proof (intro allI)
    fix path fs ds
    obtain m where l: "load_snapshot cd parse path d = Inr (st, S, m)" using load_snapshot_holds [OF s] by blast
    show "case journal_open lc cd parse path fs ds d of
        (_, Inl _) \<Rightarrow> False
      | (_, Inr (j, st')) \<Rightarrow> st' = fold (apply_effect cd) (drop (unat S - unat b) (concat ess @ es)) st \<and> jr_seq j = N"
      using act [unfolded active_file_def] rot [of path] last_number
      by (simp add: journal_open_def l Let_def all journal_opened_def)
  qed
qed

lemma dir_changes_recovers:
  "dir_changes lc d S changes N \<Longrightarrow> snapshot_holds cd parse d S st \<Longrightarrow> recovers lc cd parse d (fold (apply_effect cd) changes st) N"
  unfolding dir_changes_def by (elim exE conjE) (simp only: dir_recovers)

lemma dir_changes_cong:
  "dir_changes lc d S changes N \<Longrightarrow> dd_rotated d' = dd_rotated d \<Longrightarrow> active_file d' = active_file d \<Longrightarrow> dir_changes lc d' S changes N"
  by (simp add: dir_changes_def dir_holds_def live_def)

lemma journals_hold_keys:
  "journals_hold lc b ess js \<Longrightarrow> unat b + length (concat ess) < 2 ^ 64 \<Longrightarrow> x \<in> set js \<Longrightarrow> unat (fst x) \<le> unat b + length (concat ess)"
proof (induction ess arbitrary: b js)
  case (Cons es ess)
  let ?b = "b + word_of_nat (length es)"
  obtain rest js' where js: "js = (?b, journal_text lc b es @ rest) # js'" "journals_hold lc ?b ess js'"
    using Cons.prems(1) by auto
  have ub: "unat ?b = unat b + length es" using Cons.prems(2) by (intro unat_plus_len) simp
  show ?case
  proof (cases "x \<in> set js'")
    case True
    with Cons.IH [OF js(2)] Cons.prems(2) ub show ?thesis by simp
  next
    case False
    with js(1) Cons.prems(3) ub show ?thesis by simp
  qed
qed simp

lemma journals_hold_above:
  "journals_hold lc b ess js \<Longrightarrow> unat b + length (concat ess) < 2 ^ 64 \<Longrightarrow> (n, out) \<in> set js \<Longrightarrow> b \<le> n"
proof (induction ess arbitrary: b js)
  case (Cons es ess)
  let ?b = "b + word_of_nat (length es)"
  obtain rest js' where js: "js = (?b, journal_text lc b es @ rest) # js'" "journals_hold lc ?b ess js'"
    using Cons.prems(1) by auto
  have ub: "unat ?b = unat b + length es" using Cons.prems(2) by (intro unat_plus_len) simp
  then have le: "b \<le> ?b" by (simp add: word_le_nat_alt)
  show ?case
  proof (cases "(n, out) \<in> set js'")
    case True
    with Cons.IH [OF js(2)] Cons.prems(2) ub have "?b \<le> n" by simp
    with le show ?thesis by (rule order_trans)
  next
    case False
    with js(1) Cons.prems(3) le show ?thesis by simp
  qed
qed simp

lemma journals_hold_snoc:
  "journals_hold lc b ess js \<Longrightarrow> newline \<notin> set rest \<Longrightarrow> c = b + word_of_nat (length (concat ess)) \<Longrightarrow>
    journals_hold lc b (ess @ [es]) (js @ [(c + word_of_nat (length es), journal_text lc c es @ rest)])"
  by (induction ess arbitrary: b js) (auto simp: add.assoc)

lemma al_insert_last: "\<forall>x \<in> set xs. fst x < k \<Longrightarrow> al_insert k v xs = xs @ [(k, v)]"
  by (induction k v xs rule: al_insert.induct) auto

lemma keys_set: "set (bm_keys m) = fst ` set (bm_entries m)"
  by (simp add: bm_keys_def)

text \<open>The current journal set aside under the number it ends with, unless one already is.\<close>

lemma set_aside_changes:
  assumes c: "dir_changes lc d S changes N"
    and d': "dd_rotated d' = (if bm_contains (dd_rotated d) N then dd_rotated d else bm_insert N (active_file d) (dd_rotated d))"
    and a': "newline \<notin> set (active_file d')"
  shows "dir_changes lc d' S changes N"
proof -
  obtain b ess es where h: "dir_holds lc d S b ess es N" and ch: "changes = drop (unat S - unat b) (concat ess @ es)"
    using c by (auto simp: dir_changes_def)
  then obtain rest where a: "newline \<notin> set rest" "active_file d = journal_text lc (b + word_of_nat (length (concat ess))) es @ rest"
    and js: "journals_hold lc b ess (live S d)" and b: "b \<le> S" "S \<le> N" and r: "list_all (readable lc) (concat ess @ es)"
    and n: "unat b + length (concat ess @ es) = unat N" and keys: "\<forall>n \<in> set (bm_keys (dd_rotated d)). n \<le> N"
    unfolding dir_holds_def by auto
  have lt: "unat b + length (concat ess) < 2 ^ 64" using n u64_small [of N] by simp
  have keys': "\<forall>n \<in> set (bm_keys (dd_rotated d')). n \<le> N" using keys by (auto simp: d' split: if_splits)
  have empty: "journal_text lc c [] @ active_file d' = active_file d'" for c by simp
  show ?thesis
  proof (cases "N = S")
    case True
    have "fst x \<le> S" if "x \<in> set (bm_entries (dd_rotated d'))" for x
      using keys' that True by (simp add: keys_set)
    then have "\<forall>x \<in> set (bm_entries (dd_rotated d')). \<not> S < fst x" by (simp add: not_less)
    then have "live S d' = []" by (simp add: live_def filter_empty_conv case_prod_beta)
    moreover have "changes = []" using ch n True by simp
    ultimately show ?thesis
      unfolding dir_changes_def dir_holds_def using True a' keys'
      by (intro exI [of _ N] exI [of _ "[] :: effect list list"] exI [of _ "[] :: effect list"]) simp
  next
    case False
    then have S: "S < N" using b(2) by simp
    show ?thesis
    proof (cases "bm_contains (dd_rotated d) N")
      case True
      then have "N \<in> fst ` set (bm_entries (dd_rotated d))" by (simp add: keys_set [symmetric] bm_contains_iff)
      then obtain x where x: "x \<in> set (live S d)" "fst x = N" using S by (force simp: live_def)
      from journals_hold_keys [OF js lt x(1)] x(2) n have "length es = 0" by (simp del: length_0_conv)
      then have "es = []" by simp
      moreover have "live S d' = live S d" using True by (simp add: live_def d')
      ultimately show ?thesis
        unfolding dir_changes_def dir_holds_def using js a' b r n keys' ch
        by (intro exI [of _ b] exI [of _ ess] exI [of _ "[] :: effect list"]) simp
    next
      case nc: False
      have "fst x < N" if "x \<in> set (bm_entries (dd_rotated d))" for x
      proof -
        have "fst x \<in> set (bm_keys (dd_rotated d))" using that by (simp add: keys_set)
        with keys nc show ?thesis by (metis bm_contains_iff in_keys order_le_less)
      qed
      then have "bm_entries (dd_rotated d') = bm_entries (dd_rotated d) @ [(N, active_file d)]"
        using nc by (simp add: d' bm_insert.rep_eq al_insert_last)
      then have lv: "live S d' = live S d @ [(N, active_file d)]" using S by (simp add: live_def)
      have u: "unat (b + word_of_nat (length (concat ess))) = unat b + length (concat ess)" using lt by (rule unat_plus_len)
      have N: "b + word_of_nat (length (concat ess)) + word_of_nat (length es) = N"
        by (rule word_unat_eq_iff [THEN iffD2]) (use n u unat_plus_len [of "b + word_of_nat (length (concat ess))" "length es"] u64_small [of N] in simp)
      have "journals_hold lc b (ess @ [es]) (live S d')"
        using journals_hold_snoc [OF js a(1) refl, of es] unfolding lv a(2) N .
      then show ?thesis
        unfolding dir_changes_def dir_holds_def using a' b r n keys' ch
        by (intro exI [of _ b] exI [of _ "ess @ [es]"] exI [of _ "[] :: effect list"]) simp
    qed
  qed
qed

text \<open>A snapshot of the changes up to \<open>S'\<close> takes over: the journals that end before it no longer count.\<close>

lemma journals_hold_cut:
  assumes "journals_hold lc b ess js" "unat b + length (concat ess) < 2 ^ 64" "b \<le> S"
  obtains c ess' pre where "journals_hold lc c ess' (filter (\<lambda>(n, _). n > S) js)" "c \<le> S" "concat ess = pre @ concat ess'"
    "unat c = unat b + length pre"
  using assms
proof (induction ess arbitrary: b js thesis)
  case Nil
  then show ?case using Nil.prems(1) [of b "[]" "[]"] by simp
next
  case (Cons es ess)
  let ?b = "b + word_of_nat (length es)"
  obtain rest js' where js: "js = (?b, journal_text lc b es @ rest) # js'" "newline \<notin> set rest" "journals_hold lc ?b ess js'"
    using Cons.prems(2) by auto
  have ub: "unat ?b = unat b + length es" using Cons.prems(3) by (intro unat_plus_len) simp
  have lt: "unat ?b + length (concat ess) < 2 ^ 64" using Cons.prems(3) ub by simp
  show ?case
  proof (cases "?b \<le> S")
    case True
    obtain c ess' pre where "journals_hold lc c ess' (filter (\<lambda>(n, _). n > S) js')" "c \<le> S" "concat ess = pre @ concat ess'"
      "unat c = unat ?b + length pre"
      using Cons.IH [OF _ js(3) lt True] by metis
    with True ub show ?thesis by (intro Cons.prems(1) [of c ess' "es @ pre"]) (auto simp: js(1))
  next
    case False
    have "n > S" if "(n, out) \<in> set js'" for n out
      using journals_hold_above [OF js(3) lt that] False by simp
    then have "filter (\<lambda>(n, _). n > S) js' = js'" by (auto simp: filter_id_conv)
    with False js have "filter (\<lambda>(n, _). n > S) js = js" by simp
    then show ?thesis using Cons.prems(1) [of b "es # ess" "[]"] Cons.prems(2,4) by simp
  qed
qed

lemma snapshot_takes_over:
  assumes c: "dir_changes lc d S changes N" and S: "S \<le> S'" "S' \<le> N"
  shows "dir_changes lc d S' (drop (unat S' - unat S) changes) N"
proof -
  obtain b ess es where h: "dir_holds lc d S b ess es N" and ch: "changes = drop (unat S - unat b) (concat ess @ es)"
    using c by (auto simp: dir_changes_def)
  then have js: "journals_hold lc b ess (live S d)" and b: "b \<le> S" "b \<le> S'" and n: "unat b + length (concat ess @ es) = unat N"
    using S(1) by (auto simp: dir_holds_def)
  have lt: "unat b + length (concat ess) < 2 ^ 64" using n u64_small [of N] by simp
  obtain c ess' pre where j: "journals_hold lc c ess' (filter (\<lambda>(n, _). n > S') (live S d))" "c \<le> S'" "concat ess = pre @ concat ess'"
    "unat c = unat b + length pre"
    using journals_hold_cut [OF js lt b(2)] by metis
  have "filter (\<lambda>(n, _). n > S') (live S d) = live S' d"
    using S(1) by (auto simp: live_def intro!: filter_cong)
  moreover have "c + word_of_nat (length (concat ess')) = b + word_of_nat (length (concat ess))"
    by (rule word_unat_eq_iff [THEN iffD2])
      (use j lt unat_plus_len [of c "length (concat ess')"] unat_plus_len [of b "length (concat ess)"] in simp)
  ultimately have "dir_holds lc d S' c ess' es N"
    using h j S(2) n by (auto simp: dir_holds_def add.assoc)
  moreover have "drop (unat S' - unat S) changes = drop (unat S' - unat c) (concat ess' @ es)"
  proof -
    have le: "unat b \<le> unat S" "unat S \<le> unat S'" "unat c \<le> unat S'" using b S j(2) by (simp_all add: word_le_nat_alt)
    have "drop (unat S' - unat S) changes = drop (unat S' - unat S + (unat S - unat b)) (pre @ (concat ess' @ es))"
      by (simp only: ch j(3) append_assoc drop_drop)
    also have "unat S' - unat S + (unat S - unat b) = unat S' - unat b" using le by simp
    also have "drop (unat S' - unat b) (pre @ (concat ess' @ es)) = drop (unat S' - unat c) (concat ess' @ es)"
      using le j(4) by (simp del: drop_append add: drop_append [of _ pre])
    finally show ?thesis .
  qed
  ultimately show ?thesis unfolding dir_changes_def by blast
qed

lemma remove_rotated_changes:
  assumes "dir_changes lc d S changes N" "n \<le> S"
  shows "dir_changes lc (fs_do (Remove_Rotated n) d) S changes N"
proof -
  have "live S (fs_do (Remove_Rotated n) d) = live S d"
    using assms(2) by (auto simp: live_def bm_remove_def bm_filter.rep_eq filter_filter intro!: filter_cong)
  moreover have "\<forall>n \<in> set (bm_keys (dd_rotated (fs_do (Remove_Rotated n') d))). n \<le> N"
    if "\<forall>n \<in> set (bm_keys (dd_rotated d)). n \<le> N" for n'
    using that by (auto split: if_splits)
  ultimately have "dir_holds lc (fs_do (Remove_Rotated n) d) S b ess es N" if "dir_holds lc d S b ess es N" for b ess es
    using that unfolding dir_holds_def by (simp add: active_file_def)
  then show ?thesis using assms(1) unfolding dir_changes_def by blast
qed

text \<open>Cut short anywhere, a run of steps leaves one of the directories along it.\<close>

lemma any_prefix_Nil [simp]: "(\<forall>k. P (fold f (take k []) d)) \<longleftrightarrow> P d"
  by simp

lemma any_prefix_Cons [simp]: "(\<forall>k. P (fold f (take k (x # xs)) d)) \<longleftrightarrow> P d \<and> (\<forall>k. P (fold f (take k xs) (f x d)))"
proof
  assume a: "\<forall>k. P (fold f (take k (x # xs)) d)"
  show "P d \<and> (\<forall>k. P (fold f (take k xs) (f x d)))"
    using spec [OF a, of 0] spec [OF a, of "Suc k" for k] by simp
next
  assume a: "P d \<and> (\<forall>k. P (fold f (take k xs) (f x d)))"
  show "\<forall>k. P (fold f (take k (x # xs)) d)"
  proof
    fix k show "P (fold f (take k (x # xs)) d)" using a by (cases k) simp_all
  qed
qed

lemma newline_active: "dir_changes lc d S changes N \<Longrightarrow> dd_active d = None \<Longrightarrow> active_file d = []"
  by (simp add: active_file_def)

lemma start_rewrite_changes:
  assumes c: "dir_changes lc d S changes N"
  shows "\<forall>k. dir_changes lc (fold fs_do (take k (fst (start_rewrite_files refuses N d))) d) S changes N \<and>
    dd_snapshot (fold fs_do (take k (fst (start_rewrite_files refuses N d))) d) = dd_snapshot d"
proof -
  define P where "P d' \<longleftrightarrow> dir_changes lc d' S changes N \<and> dd_snapshot d' = dd_snapshot d" for d'
  have same: "P d'" if "dd_rotated d' = dd_rotated d" "active_file d' = active_file d" "dd_snapshot d' = dd_snapshot d" for d'
    using dir_changes_cong [OF c that(1,2)] that(3) by (simp add: P_def)
  have moved: "P d'" if "dd_rotated d' = (if bm_contains (dd_rotated d) N then dd_rotated d else bm_insert N (active_file d) (dd_rotated d))"
    "newline \<notin> set (active_file d')" "dd_snapshot d' = dd_snapshot d" for d'
    using set_aside_changes [OF c that(1,2)] that(3) by (simp add: P_def)
  have undone: "bm_remove N (bm_insert N v (dd_rotated d)) = dd_rotated d" "bm_remove N (dd_rotated d) = dd_rotated d"
    if "bm_get (dd_rotated d) N = None" for v
    by (rule bm_eqI; use that in auto)+
  have "\<forall>k. P (fold fs_do (take k (fst (start_rewrite_files refuses N d))) d)"
  proof (cases "bm_contains (dd_rotated d) N")
    case True
    note True [simp]
    show ?thesis
      unfolding start_rewrite_files_def Let_def
      by (cases "refuses Create_Next"; cases "refuses Take_Over"; simp del: bm_contains_iff; (intro conjI)?;
          ((rule same; simp add: active_file_def del: bm_contains_iff; fail) | (rule moved; simp add: active_file_def del: bm_contains_iff; fail)))
  next
    case False
    then have none: "bm_get (dd_rotated d) N = None" by simp
    note False [simp]
    show ?thesis
      unfolding start_rewrite_files_def Let_def
      by (cases "refuses Create_Next"; cases "refuses Take_Over"; cases "refuses (Set_Aside N)"; cases "refuses (Put_Back N)"; cases "dd_active d";
          simp del: bm_contains_iff; (intro conjI)?;
          ((rule same; simp add: active_file_def none undone del: bm_contains_iff; fail) |
           (rule moved; simp add: active_file_def none del: bm_contains_iff; fail)))
  qed
  then show ?thesis by (simp add: P_def)
qed

lemma remove_covered_ops: "set (fst (remove_covered refuses ns)) \<subseteq> Remove_Rotated ` set ns"
  by (induction ns) (auto split: option.splits prod.splits)

lemma removals_change_nothing:
  "dir_changes lc d S changes N \<Longrightarrow> set ops \<subseteq> Remove_Rotated ` {n. n \<le> S} \<Longrightarrow>
    dir_changes lc (fold fs_do ops d) S changes N \<and> dd_snapshot (fold fs_do ops d) = dd_snapshot d"
proof (induction ops arbitrary: d)
  case (Cons op ops)
  obtain n where n: "op = Remove_Rotated n" "n \<le> S" using Cons.prems(2) by auto
  from Cons.IH [of "fs_do op d"] remove_rotated_changes [OF Cons.prems(1) n(2)] Cons.prems(2) show ?case by (simp add: n)
qed simp

lemma persist_changes:
  fixes refuses content
  assumes c: "dir_changes lc d S changes N" and S: "S \<le> S'" "S' \<le> N"
  defines "d' \<equiv> \<lambda>k. fold fs_do (take k (fst (persist_files refuses content S' d))) d"
  shows "dir_changes lc (d' k) S changes N \<and> dd_snapshot (d' k) = dd_snapshot d \<or>
    dir_changes lc (d' k) S' (drop (unat S' - unat S) changes) N \<and> dd_snapshot (d' k) = Some content"
proof -
  define Q where "Q x \<longleftrightarrow> dir_changes lc x S changes N \<and> dd_snapshot x = dd_snapshot d \<or>
    dir_changes lc x S' (drop (unat S' - unat S) changes) N \<and> dd_snapshot x = Some content" for x
  have same: "Q x" if "dd_rotated x = dd_rotated d" "active_file x = active_file d" "dd_snapshot x = dd_snapshot d" for x
    using dir_changes_cong [OF c that(1,2)] that(3) by (simp add: Q_def)
  have landed: "dir_changes lc x S' (drop (unat S' - unat S) changes) N" if "dd_rotated x = dd_rotated d" "active_file x = active_file d" for x
    using dir_changes_cong [OF snapshot_takes_over [OF c S] that] .
  let ?d = "fs_do (Land content) (fs_do (Save_Temp content) d)"
  have removed: "Q (fold fs_do (take m (fst (remove_covered refuses (filter (\<lambda>n. n \<le> S') (bm_keys (dd_rotated d)))))) ?d)" for m
  proof -
    let ?ops = "take m (fst (remove_covered refuses (filter (\<lambda>n. n \<le> S') (bm_keys (dd_rotated d)))))"
    have "set ?ops \<subseteq> Remove_Rotated ` {n. n \<le> S'}"
      using set_take_subset [of m "fst (remove_covered refuses (filter (\<lambda>n. n \<le> S') (bm_keys (dd_rotated d))))"]
        remove_covered_ops [of refuses "filter (\<lambda>n. n \<le> S') (bm_keys (dd_rotated d))"] by auto
    moreover have "dir_changes lc ?d S' (drop (unat S' - unat S) changes) N" by (rule landed) (simp_all add: active_file_def)
    ultimately show ?thesis using removals_change_nothing [of lc ?d S' "drop (unat S' - unat S) changes" N ?ops] by (simp add: Q_def)
  qed
  have "\<forall>k. Q (d' k)"
    unfolding d'_def persist_files_def Let_def
    by (cases "refuses (Save_Temp content)"; cases "refuses (Land content)"; simp add: case_prod_beta; (intro conjI)?;
        ((rule same; simp add: active_file_def; fail) | (use removed in simp; fail)))
  then show ?thesis unfolding Q_def by blast
qed

text \<open>
  C3: A crash at any point of a rewrite loses nothing. Wherever the steps of setting the
  journal aside stop, by a crash or because the file system refused one, the directory opens
  to the same store, with the same number to go on from; and wherever those of the snapshot
  stop, it opens either to that, or to the state the snapshot holds with the changes made
  after it.
\<close>

theorem rewrite_survives_any_crash:
  assumes "dir_changes lc d S changes N" "snapshot_holds cd parse d S st"
    and "S \<le> S'" "S' \<le> N" "read_snapshot parse content = Inr (1, S', sn)"
  shows "recovers lc cd parse (fold fs_do (take k (fst (start_rewrite_files refuses N d))) d) (fold (apply_effect cd) changes st) N \<and>
    (recovers lc cd parse (fold fs_do (take k (fst (persist_files refuses content S' d))) d) (fold (apply_effect cd) changes st) N \<or>
     recovers lc cd parse (fold fs_do (take k (fst (persist_files refuses content S' d))) d)
       (fold (apply_effect cd) (drop (unat S' - unat S) changes) (from_snapshot cd sn)) N)"
proof
  have "dir_changes lc (fold fs_do (take k (fst (start_rewrite_files refuses N d))) d) S changes N"
    "dd_snapshot (fold fs_do (take k (fst (start_rewrite_files refuses N d))) d) = dd_snapshot d"
    using start_rewrite_changes [OF assms(1)] by simp_all
  then show "recovers lc cd parse (fold fs_do (take k (fst (start_rewrite_files refuses N d))) d) (fold (apply_effect cd) changes st) N"
    using assms(2) by (intro dir_changes_recovers) (simp_all add: snapshot_holds_def)
  let ?d = "fold fs_do (take k (fst (persist_files refuses content S' d))) d"
  from persist_changes [OF assms(1,3,4), where refuses = refuses and content = content and k = k]
  show "recovers lc cd parse ?d (fold (apply_effect cd) changes st) N \<or>
    recovers lc cd parse ?d (fold (apply_effect cd) (drop (unat S' - unat S) changes) (from_snapshot cd sn)) N"
  proof (elim disjE conjE)
    assume "dir_changes lc ?d S changes N" "dd_snapshot ?d = dd_snapshot d"
    then have "recovers lc cd parse ?d (fold (apply_effect cd) changes st) N"
      using assms(2) by (intro dir_changes_recovers) (simp_all add: snapshot_holds_def)
    then show ?thesis by simp
  next
    assume "dir_changes lc ?d S' (drop (unat S' - unat S) changes) N" "dd_snapshot ?d = Some content"
    then have "recovers lc cd parse ?d (fold (apply_effect cd) (drop (unat S' - unat S) changes) (from_snapshot cd sn)) N"
      using assms(5) by (intro dir_changes_recovers) (simp_all add: snapshot_holds_def)
    then show ?thesis by simp
  qed
qed

definition sample_dir :: data_dir where
  "sample_dir =
     \<lparr>dd_snapshot = None, dd_rotated = bm_empty, dd_active = Some (journal_text plain_codec 0 [E_Forget ''a'']), dd_next = None,
      dd_temps = []\<rparr>"

definition sample_snapshot :: snapshot where
  "sample_snapshot =
     \<lparr>sn_last_id = id_default, sn_agents = [], sn_messages = [], sn_broadcasts = [], sn_rooms = [], sn_keys = bm_empty\<rparr>"

definition sample_reader :: snapshot_reader where
  "sample_reader raw = Inr (1, 1, sample_snapshot)"

lemma sample_dir_changes: "dir_changes plain_codec sample_dir 0 [E_Forget ''a''] 1"
proof -
  have "dir_holds plain_codec sample_dir 0 0 [] [E_Forget ''a''] 1"
    by (simp add: dir_holds_def sample_dir_def live_def active_file_def bm_empty.rep_eq bm_keys_def plain_readable
        is_ascii_alphanumeric_def byte_of_def exI [of _ "[]"])
  then show ?thesis
    unfolding dir_changes_def
    by (intro ex3I [of _ 0 "[]" "[E_Forget ''a'']"]) simp
qed

lemma rewrite_survives_any_crash_witness:
  "recovers plain_codec (en_codec sample_env) sample_reader
     (fold fs_do (take 3 (fst (start_rewrite_files (\<lambda>_. None) 1 sample_dir))) sample_dir)
     (fold (apply_effect (en_codec sample_env)) [E_Forget ''a''] store_default) 1 \<and>
   (recovers plain_codec (en_codec sample_env) sample_reader
      (fold fs_do (take 3 (fst (persist_files (\<lambda>_. None) (''{'' @ snapshot_end (crc32c ''{'')) 1 sample_dir))) sample_dir)
      (fold (apply_effect (en_codec sample_env)) [E_Forget ''a''] store_default) 1 \<or>
    recovers plain_codec (en_codec sample_env) sample_reader
      (fold fs_do (take 3 (fst (persist_files (\<lambda>_. None) (''{'' @ snapshot_end (crc32c ''{'')) 1 sample_dir))) sample_dir)
      (fold (apply_effect (en_codec sample_env)) (drop (unat (1 :: u64) - unat (0 :: u64)) [E_Forget ''a'']) (from_snapshot (en_codec sample_env) sample_snapshot)) 1)"
proof (rule rewrite_survives_any_crash [OF sample_dir_changes])
  show "read_snapshot sample_reader (''{'' @ snapshot_end (crc32c ''{'')) = Inr (1, 1, sample_snapshot)"
    by (simp only: read_sealed) (simp add: sample_reader_def)
qed (simp_all add: snapshot_holds_def sample_dir_def)

text \<open>A rewrite begun leaves a fresh journal, from the number the last ended with.\<close>

lemma start_rewrite_fresh:
  assumes h: "journal_holds lc base D R [] P 0 j" and e: "start_rewrite refuses head d j = (d', j', None)"
  shows "journal_holds lc (jr_seq j) [] [] [] [] 0 j' \<and> jr_seq j' = jr_seq j"
proof -
  let ?w = "wr_lock (jr_writer j)"
  obtain w r where g: "guard_write (jr_pending j) ?w = (w, r)" by fastforce
  have g1: "writer_ok 1 w \<and> (if r = None then writer_holds lc base (D @ R @ P) [] (D @ R @ P) w \<and> (R @ P \<noteq> [] \<longrightarrow> \<not> tl_torn (wr_tail w))
      else writer_holds lc base D (R @ P) (D @ R @ P) w)"
    by (rule guard_write_holds [where w = ?w])
      (use h g in \<open>simp_all add: journal_holds_def writer_ok_lock\<close>)
  have r: "r = None" and j': "jr_writer j' = wr_unlock (note_writes (w\<lparr>wr_tail := fresh_tail (wr_tail w)\<rparr>))" "jr_pending j' = []" "jr_seq j' = jr_seq j"
    using e g by (auto simp: start_rewrite_def take_out_pending_def Let_def split: option.splits prod.splits)
  have "tl_refused (wr_tail w) = []" using g1 r by (simp add: writer_holds_def)
  then have "writer_holds lc (jr_seq j) [] [] [] (note_writes (w\<lparr>wr_tail := fresh_tail (wr_tail w)\<rparr>))"
    by (auto simp: writer_holds_def note_writes_def fresh_tail_def intro: tail_holdsI)
  moreover have "writer_ok 1 (note_writes (w\<lparr>wr_tail := fresh_tail (wr_tail w)\<rparr>))"
    using g1 by (simp add: writer_ok_def note_writes_def)
  ultimately show ?thesis
    unfolding journal_holds_def by (simp add: j' writer_ok_unlock)
qed


end
