(* ===== verification/Repair.thy ===== *)
theory Repair
  imports Data_Dir
begin

text \<open>
  \<open>postino repair\<close> (\<open>journal.rs\<close>: \<open>repair\<close>, \<open>aside\<close>): a journal cut at the first line that makes no
  sense, what follows set aside.
\<close>

subsection \<open>Repair\<close>

text \<open>The journals of a directory, oldest first: set aside under a number, or the current one.\<close>

definition journal_name :: "u64 option \<Rightarrow> str" where
  "journal_name n = (case n of Some n \<Rightarrow> rotated_name n | None \<Rightarrow> ''journal.log'')"

definition live_journals :: "u64 \<Rightarrow> data_dir \<Rightarrow> (u64 option \<times> str) list" where
  "live_journals S d =
     map (\<lambda>(n, out). (Some n, out)) (live S d) @ (case dd_active d of Some out \<Rightarrow> [(None, out)] | None \<Rightarrow> [])"

definition set_journal :: "str option \<Rightarrow> u64 option \<Rightarrow> data_dir \<Rightarrow> data_dir" where
  "set_journal out n d =
     (case n of
        None \<Rightarrow> d\<lparr>dd_active := out\<rparr>
      | Some n \<Rightarrow>
          d\<lparr>dd_rotated := (case out of Some out \<Rightarrow> bm_insert n out (dd_rotated d) | None \<Rightarrow> bm_remove n (dd_rotated d))\<rparr>)"

primrec first_corrupt ::
  "line_codec \<Rightarrow> u64 \<Rightarrow> (u64 option \<times> str) list \<Rightarrow> ((u64 option \<times> str) \<times> scanned \<times> nat \<times> (u64 option \<times> str) list) option" where
  "first_corrupt lc S [] = None"
| "first_corrupt lc S (x # xs) =
     (let sc = snd (scan_file lc S (\<lambda>_ u. u) (snd x) ())
      in case sc_corrupt sc of
           None \<Rightarrow> first_corrupt lc S xs
         | Some line \<Rightarrow> Some (x, sc, line, xs))"

text \<open>A name no file has yet, given the ones that are taken.\<close>

definition aside_candidate :: "str \<Rightarrow> nat \<Rightarrow> str" where
  "aside_candidate name n = (if n = 0 then name @ ''.corrupt'' else name @ ''.corrupt.'' @ show_nat n)"

definition aside :: "str list \<Rightarrow> str \<Rightarrow> str" where
  "aside taken name =
     (case find (\<lambda>n. aside_candidate name n \<notin> set taken) [0..<Suc (length taken)] of
        Some n \<Rightarrow> aside_candidate name n
      | None \<Rightarrow> name)"

primrec set_aside_later :: "str list \<Rightarrow> (u64 option \<times> str) list \<Rightarrow> data_dir \<Rightarrow> str \<Rightarrow> data_dir \<times> (str \<times> str) list \<times> str" where
  "set_aside_later taken [] d report = (d, [], report)"
| "set_aside_later taken (x # xs) d report =
     (let moved = aside taken (journal_name (fst x));
          (d, kept, report) =
            set_aside_later (moved # taken) xs (set_journal None (fst x) d)
              (report @ '', and '' @ journal_name (fst x) @ '' as '' @ moved)
      in (d, (moved, snd x) # kept, report))"

text \<open>
  What repair makes of a directory where the names \<open>taken\<close> are other files': the directory, the
  files it sets things aside in, and what it reports.
\<close>

definition repair ::
  "line_codec \<Rightarrow> snapshot_reader \<Rightarrow> str \<Rightarrow> str list \<Rightarrow> data_dir \<Rightarrow> data_dir \<times> (str \<times> str) list \<times> (str + str option)" where
  "repair lc parse path taken d =
     (case (case dd_snapshot d of
              None \<Rightarrow> Inr 0
            | Some raw \<Rightarrow>
                (case read_snapshot parse raw of
                   Inl e \<Rightarrow> Inl (''corrupt snapshot '' @ in_dir path ''snapshot.json'' @ '': '' @ e @ ''; restore it from a backup'')
                 | Inr (_, S, _) \<Rightarrow> Inr S)) of
        Inl e \<Rightarrow> (d, [], Inl e)
      | Inr S \<Rightarrow>
          (case first_corrupt lc S (live_journals S d) of
             None \<Rightarrow> (d, [], Inr None)
           | Some (x, sc, line, later) \<Rightarrow>
               (let rest_at = aside taken (journal_name (fst x));
                    report = in_dir path (journal_name (fst x)) @ '': kept the '' @ show_nat (sc_lines sc) @ '' lines before line '' @
                      show_nat line @ '', and set aside the rest in '' @ rest_at;
                    (d, kept, report) =
                      set_aside_later (rest_at # taken) later (set_journal (Some (take (sc_valid sc) (snd x))) (fst x) d) report
                in (d, (rest_at, drop (sc_valid sc) (snd x)) # kept, Inr (Some report)))))"

text \<open>Cut at what a scan found whole, a journal scans to the end.\<close>

lemma read_line_unique: "read_line bs = (line, rest) \<Longrightarrow> complete line \<Longrightarrow> read_line (line @ bs') = (line, bs')"
proof (induction bs arbitrary: line rest rule: read_line.induct)
  case (2 c cs)
  show ?case
  proof (cases "c = newline")
    case False
    obtain l r where lr: "read_line cs = (l, r)" by fastforce
    with 2(2) False have line: "line = c # l" by simp
    with 2(3) False have "complete l" by (cases l) (auto simp: complete_def)
    from 2(1) [OF False lr this] show ?thesis using False by (simp add: line)
  qed (use 2 in auto)
qed (simp add: complete_def)

lemma scan_cut:
  "scan_lines lc S ap bs s sc = (s', sc') \<Longrightarrow>
    \<exists>n. sc_valid sc' = sc_valid sc + n \<and> n \<le> length bs \<and> scan_lines lc S ap (take n bs) s sc = (s', sc'\<lparr>sc_corrupt := sc_corrupt sc\<rparr>)"
proof (induction lc S ap bs s sc rule: scan_lines.induct)
  case (1 lc S ap bs s sc)
  obtain line rest where rl: "read_line bs = (line, rest)" by fastforce
  have bs: "bs = line @ rest" using read_line_parts [OF rl] by simp
  have nil: "scan_lines lc S ap [] s sc = (s, sc)" by (subst scan_lines.simps) simp
  let ?stop = "(s, sc\<lparr>sc_corrupt := (if list_all blank_byte rest then None else Some (sc_lines sc + 1))\<rparr>)"
  have eq: "scan_lines lc S ap bs s sc =
     (if line = [] then (s, sc)
      else case line_entry lc line of
          None \<Rightarrow> ?stop
        | Some (n, e) \<Rightarrow>
            if complete line \<and> intact line
            then scan_lines lc S ap rest (if n > S then ap e s else s)
                   (sc\<lparr>sc_seq := max (sc_seq sc) n, sc_valid := sc_valid sc + length line, sc_lines := sc_lines sc + 1\<rparr>)
            else ?stop)"
    by (subst scan_lines.simps) (simp add: rl Let_def)
  show ?case
  proof (cases "line \<noteq> [] \<and> complete line \<and> intact line \<and> line_entry lc line \<noteq> None")
    case False
    then have "(s', sc') = (s, sc) \<or> (s', sc') = ?stop"
      using 1(2) unfolding eq by (auto split: if_splits option.splits)
    then show ?thesis using nil by (intro exI [of _ 0]) auto
  next
    case True
    then obtain n e where l: "line \<noteq> []" "complete line" "intact line" "line_entry lc line = Some (n, e)" by auto
    let ?s = "if n > S then ap e s else s"
    let ?sc = "sc\<lparr>sc_seq := max (sc_seq sc) n, sc_valid := sc_valid sc + length line, sc_lines := sc_lines sc + 1\<rparr>"
    have "scan_lines lc S ap rest ?s ?sc = (s', sc')" using 1(2) l unfolding eq by simp
    then obtain m where m: "sc_valid sc' = sc_valid ?sc + m" "m \<le> length rest"
      "scan_lines lc S ap (take m rest) ?s ?sc = (s', sc'\<lparr>sc_corrupt := sc_corrupt ?sc\<rparr>)"
      using 1(1) [OF rl [symmetric] refl refl l(1,4) refl] l(2,3) by auto
    have "scan_lines lc S ap (line @ take m rest) s sc = scan_lines lc S ap (take m rest) ?s ?sc"
      by (subst scan_lines.simps) (simp add: read_line_unique [OF rl l(2)] l Let_def)
    with m show ?thesis by (intro exI [of _ "length line + m"]) (simp add: bs)
  qed
qed

lemma scan_result_same: "snd (scan_lines lc S ap bs s sc) = snd (scan_lines lc S ap' bs s' sc)"
proof (induction lc S ap bs s sc arbitrary: s' rule: scan_lines.induct)
  case (1 lc S ap bs s sc)
  obtain line rest where rl: "read_line bs = (line, rest)" by fastforce
  show ?case
  proof (cases "line \<noteq> [] \<and> complete line \<and> intact line \<and> line_entry lc line \<noteq> None")
    case False
    then show ?thesis
      by (subst (1 2) scan_lines.simps) (auto simp: rl Let_def split: option.splits)
  next
    case True
    then obtain n e where l: "line \<noteq> []" "complete line" "intact line" "line_entry lc line = Some (n, e)" by auto
    from 1 [OF rl [symmetric] refl refl l(1,4) refl] l(2,3) show ?thesis
      by (subst (1 2) scan_lines.simps) (simp add: rl Let_def l)
  qed
qed

definition whole :: "line_codec \<Rightarrow> u64 \<Rightarrow> str \<Rightarrow> bool" where
  "whole lc S out \<longleftrightarrow> sc_corrupt (snd (scan_file lc S (\<lambda>_ u. u) out ())) = None"

lemma scan_whole: "whole lc S (take (sc_valid (snd (scan_file lc S (\<lambda>_ u. u) out ()))) out)"
  using scan_cut [OF prod.collapse [symmetric], of lc S "\<lambda>_ u. u" out "()" "\<lparr>sc_seq = S, sc_valid = 0, sc_lines = 0, sc_corrupt = None\<rparr>"]
  by (auto simp: whole_def scan_file_def)

lemma replay_whole: "whole lc S out \<Longrightarrow> \<exists>st' n v. replay lc cd out st S path = (st', Inr (n, v))"
proof -
  assume w: "whole lc S out"
  have "snd (scan_file lc S (apply_effect cd) out st) = snd (scan_file lc S (\<lambda>_ u. u) out ())"
    unfolding scan_file_def by (rule scan_result_same)
  with w have "sc_corrupt (snd (scan_file lc S (apply_effect cd) out st)) = None" by (simp add: whole_def)
  then show ?thesis by (simp add: replay_def case_prod_beta)
qed

lemma first_corrupt_whole:
  "first_corrupt lc S xs = None \<Longrightarrow> \<forall>x \<in> set xs. whole lc S (snd x)"
  "first_corrupt lc S xs = Some (x, sc, line, later) \<Longrightarrow>
    \<exists>before. xs = before @ x # later \<and> (\<forall>y \<in> set before. whole lc S (snd y)) \<and> sc = snd (scan_file lc S (\<lambda>_ u. u) (snd x) ()) \<and> sc_corrupt sc = Some line"
proof (induction xs)
  case (Cons y xs)
  {
    case 1
    with Cons.IH(1) show ?case by (auto simp: whole_def Let_def split: option.splits)
  next
    case 2
    show ?case
    proof (cases "sc_corrupt (snd (scan_file lc S (\<lambda>_ u. u) (snd y) ()))")
      case None
      with 2 Cons.IH(2) obtain before where b: "xs = before @ x # later" "\<forall>y \<in> set before. whole lc S (snd y)"
        "sc = snd (scan_file lc S (\<lambda>_ u. u) (snd x) ())" "sc_corrupt sc = Some line"
        by (auto simp: Let_def)
      with None show ?thesis by (intro exI [of _ "y # before"]) (simp add: whole_def)
    next
      case (Some n)
      with 2 show ?thesis by (intro exI [of _ "[]"]) (auto simp: Let_def)
    qed
  }
qed simp_all

subsection \<open>After a repair\<close>

lemma live_journals_distinct: "distinct (map fst (live_journals S d))"
proof -
  have "distinct (map fst (live S d))"
    unfolding live_def by (rule distinct_map_filter) simp
  then have "distinct (map Some (map fst (live S d)))" by (simp add: distinct_map inj_on_def)
  then show ?thesis
    by (auto simp: live_journals_def comp_def case_prod_beta split: option.splits)
qed

lemma live_journals_alt:
  "live_journals S d = map (\<lambda>x. (Some (fst x), snd x)) (filter (\<lambda>x. S < fst x) (bm_entries (dd_rotated d))) @
    (case dd_active d of Some out \<Rightarrow> [(None, out)] | None \<Rightarrow> [])"
  by (simp add: live_journals_def live_def case_prod_unfold)

lemma live_journals_removed: "live_journals S (set_journal None n d) = filter (\<lambda>x. fst x \<noteq> n) (live_journals S d)"
proof (cases n)
  case None
  then show ?thesis
    by (auto simp: live_journals_alt set_journal_def filter_map comp_def split: option.splits)
next
  case (Some m)
  then show ?thesis
    by (auto simp: live_journals_alt set_journal_def bm_remove_def bm_filter.rep_eq filter_map comp_def case_prod_unfold
        conj_commute split: option.splits)
qed

lemma live_journals_changed:
  assumes "n \<in> fst ` set (live_journals S d)"
  shows "live_journals S (set_journal (Some out) n d) = map (\<lambda>x. if fst x = n then (n, out) else x) (live_journals S d)"
proof (cases n)
  case None
  with assms show ?thesis
    by (auto simp: live_journals_def set_journal_def live_def comp_def case_prod_beta dest: sym split: option.splits)
next
  case (Some m)
  from assms Some have "m \<in> fst ` set (live S d)"
    by (force simp: live_journals_def split: option.splits)
  then have m: "m > S" "bm_get (dd_rotated d) m \<noteq> None" by (auto simp: live_def in_entries)
  have "bm_insert m out (dd_rotated d) = bm_map (\<lambda>a b. if a = m then out else b) (dd_rotated d)"
  proof (rule bm_eqI)
    fix k
    show "bm_get (bm_insert m out (dd_rotated d)) k = bm_get (bm_map (\<lambda>a b. if a = m then out else b) (dd_rotated d)) k"
      using m(2) by (cases "bm_get (dd_rotated d) k") auto
  qed
  then show ?thesis
    using Some by (auto simp: live_journals_alt set_journal_def bm_map.rep_eq filter_map comp_def case_prod_unfold split: option.splits)
qed

lemma set_journal_snapshot [simp]: "dd_snapshot (set_journal out n d) = dd_snapshot d"
  by (simp add: set_journal_def split: option.splits)

lemma set_aside_later_journals:
  "set_aside_later taken later d report = (d', kept, report') \<Longrightarrow>
    live_journals S d' = filter (\<lambda>x. fst x \<notin> fst ` set later) (live_journals S d) \<and> map snd kept = map snd later \<and>
    dd_snapshot d' = dd_snapshot d"
proof (induction later arbitrary: taken d report d' kept report')
  case (Cons x later)
  obtain moved report'' kept' where r: "set_aside_later (moved # taken) later (set_journal None (fst x) d) report'' = (d', kept', report')"
    "kept = (moved, snd x) # kept'"
    using Cons.prems by (auto simp: Let_def split: prod.splits)
  from Cons.IH [OF r(1)] r(2) show ?case
    by (auto simp: live_journals_removed filter_filter intro!: filter_cong)
qed simp

lemma open_whole:
  assumes "snapshot_holds cd parse d S st" "\<forall>x \<in> set (live_journals S d). whole lc S (snd x)"
  shows "\<exists>d' j st'. journal_open lc cd parse path fs ds d = (d', Inr (j, st'))"
proof -
  obtain m where l: "load_snapshot cd parse path d = Inr (st, S, m)" using load_snapshot_holds [OF assms(1)] by blast
  have rot: "\<exists>st' seq'. replay_rotated lc cd S path js st seq = Inr (st', seq')" if "\<forall>x \<in> set js. whole lc S (snd x)" for js st seq
    using that
  proof (induction js arbitrary: st seq)
    case (Cons x js)
    obtain st1 n v where "replay lc cd (snd x) st S (in_dir path (rotated_name (fst x))) = (st1, Inr (n, v))"
      using replay_whole [of lc S "snd x"] Cons.prems by fastforce
    with Cons show ?case by simp
  qed simp
  have "\<forall>x \<in> set (live S d). whole lc S (snd x)" using assms(2) by (force simp: live_journals_def)
  from rot [OF this, of st S] obtain st1 seq1 where r: "replay_rotated lc cd S path (bm_entries (dd_rotated d)) st S = Inr (st1, seq1)"
    unfolding live_def replay_rotated_live [of lc cd S path "bm_entries (dd_rotated d)" st S] by blast
  have "whole lc S (active_file d)"
  proof (cases "dd_active d")
    case None
    then show ?thesis by (simp add: whole_def scan_file_def active_file_def scan_torn)
  next
    case (Some out)
    with assms(2) show ?thesis by (simp add: live_journals_def active_file_def)
  qed
  then obtain st2 n v where "replay lc cd (active_file d) st1 S (in_dir path ''journal.log'') = (st2, Inr (n, v))"
    using replay_whole by blast
  then show ?thesis by (simp add: journal_open_def l Let_def r active_file_def)
qed


text \<open>A journal whose first line the disk lost most of, with a whole one after it.\<close>

definition damaged_dir :: data_dir where
  "damaged_dir = sample_dir\<lparr>dd_active := Some (''{'' @ [newline] @ journal_text plain_codec 0 [E_Forget ''a''])\<rparr>"


end
