(* ===== verification/Floats.thy ===== *)
theory Floats
  imports Zset Decimal
begin

text \<open>
  What the keyspace's commands do with doubles: Rust's addition of two of them and its reading of
  one from text, both the nearest double to the exact result with ties to the even one, and
  \<open>float\<close> and \<open>score_bound\<close> of \<open>src/src/commands.rs\<close>. A finite double is a whole multiple of
  \<open>2\<^sup>-\<^sup>1\<^sup>0\<^sup>7\<^sup>4\<close>, its \<open>f_units\<close>.
\<close>

subsection \<open>Rounding\<close>

definition f_exponent :: "f64 \<Rightarrow> nat" where
  "f_exponent x = unat (drop_bit 52 (f_abs x))"

definition f_fraction :: "f64 \<Rightarrow> nat" where
  "f_fraction x = unat (take_bit 52 x)"

definition f_magnitude :: "f64 \<Rightarrow> nat" where
  "f_magnitude x =
     (if f_exponent x = 0 then f_fraction x else (2 ^ 52 + f_fraction x) * 2 ^ (f_exponent x - 1))"

definition f_units :: "f64 \<Rightarrow> int" where
  "f_units x = (if f_neg x then - int (f_magnitude x) else int (f_magnitude x))"

definition f_infinite :: "f64 \<Rightarrow> bool" where "f_infinite x \<longleftrightarrow> f_abs x = f_infinity"
definition f_finite :: "f64 \<Rightarrow> bool" where "f_finite x \<longleftrightarrow> f_abs x < f_infinity"
definition f_nan_value :: f64 where "f_nan_value = 0x7FF8000000000000"
definition f_minus_zero :: f64 where "f_minus_zero = 0x8000000000000000"

text \<open>The quotient of two numbers as the nearest whole number, ties to the even one.\<close>

definition div_nearest :: "nat \<Rightarrow> nat \<Rightarrow> nat" where
  "div_nearest p q =
     (let d = p div q; r = p mod q
      in if 2 * r < q \<or> (2 * r = q \<and> even d) then d else d + 1)"

fun bit_count :: "nat \<Rightarrow> nat" where
  "bit_count n = (if n = 0 then 0 else Suc (bit_count (n div 2)))"

declare bit_count.simps [simp del]

text \<open>
  The double nearest to \<open>p / q\<close> units. The bits of a double are its place among the doubles, so a
  fraction rounded up to \<open>2\<^sup>5\<^sup>3\<close> carries into the exponent.
\<close>

definition f_nearest :: "nat \<Rightarrow> nat \<Rightarrow> f64" where
  "f_nearest p q =
     (let k = bit_count (p div q) - 53;
          b = k * 2 ^ 52 + div_nearest p (q * 2 ^ k)
      in if b \<ge> unat f_infinity then f_infinity else of_nat b)"

definition f_signed :: "bool \<Rightarrow> f64 \<Rightarrow> f64" where
  "f_signed neg x = (if neg then x OR f_minus_zero else x)"

subsection \<open>Addition\<close>

definition f_add :: "f64 \<Rightarrow> f64 \<Rightarrow> f64" where
  "f_add x y =
     (if f_nan x \<or> f_nan y then f_nan_value
      else if f_infinite x then (if f_infinite y \<and> f_neg x \<noteq> f_neg y then f_nan_value else x)
      else if f_infinite y then y
      else
        (let s = f_units x + f_units y
         in if s = 0 then (if f_neg x \<and> f_neg y then f_minus_zero else 0)
            else f_signed (s < 0) (f_nearest (nat \<bar>s\<bar>) 1)))"

subsection \<open>Reading\<close>

text \<open>
  \<open>str::parse::<f64>\<close>: a sign, then \<open>inf\<close>, \<open>infinity\<close> or \<open>nan\<close> in any case, or digits with a
  point anywhere among them, at least one digit, and an exponent.
\<close>

definition parse_exponent :: "str \<Rightarrow> int option" where
  "parse_exponent s =
     (case s of
        [] \<Rightarrow> Some 0
      | e # r \<Rightarrow>
          if ascii_lower_char e \<noteq> CHR ''e'' then None
          else (case r of
                  [] \<Rightarrow> None
                | c # ds \<Rightarrow>
                    if c = CHR ''-'' then map_option (\<lambda>n. - int n) (parse_digits ds)
                    else map_option int (parse_digits (if c = CHR ''+'' then ds else r))))"

definition parse_number :: "str \<Rightarrow> f64 option" where
  "parse_number s =
     (let whole = takeWhile is_ascii_digit s; rest = dropWhile is_ascii_digit s;
          point = (case rest of c # _ \<Rightarrow> c = CHR ''.'' | [] \<Rightarrow> False);
          part = (if point then takeWhile is_ascii_digit (tl rest) else []);
          rest = (if point then dropWhile is_ascii_digit (tl rest) else rest)
      in if whole @ part = [] then None
         else (case parse_exponent rest of
                 None \<Rightarrow> None
               | Some e \<Rightarrow>
                   (let x = e - int (length part)
                    in Some (f_nearest (digits_val (whole @ part) * 10 ^ nat x * 2 ^ 1074) (10 ^ nat (- x))))))"

definition parse_f64 :: "str \<Rightarrow> f64 option" where
  "parse_f64 s =
     (let neg = (case s of c # _ \<Rightarrow> c = CHR ''-'' | [] \<Rightarrow> False);
          t = (case s of c # r \<Rightarrow> if c \<in> {CHR ''-'', CHR ''+''} then r else s | [] \<Rightarrow> []);
          low = to_ascii_lowercase t
      in map_option (f_signed neg)
           (if low \<in> {''inf'', ''infinity''} then Some f_infinity
            else if low = ''nan'' then Some f_nan_value
            else parse_number t))"

definition not_float :: str where
  "not_float = ''ERR value is not a valid float''"

definition float_arg :: "str \<Rightarrow> str + f64" where
  "float_arg s =
     (let low = to_ascii_lowercase s in
      case (if low \<in> {''inf'', ''+inf'', ''infinity'', ''+infinity''} then Some f_infinity
            else if low \<in> {''-inf'', ''-infinity''} then Some f_neg_infinity
            else parse_f64 low) of
        None \<Rightarrow> Inl not_float
      | Some x \<Rightarrow> if f_nan x then Inl not_float else Inr x)"

text \<open>A score bound: a number, \<open>-inf\<close> or \<open>+inf\<close>, or \<open>(n\<close> for an exclusive bound.\<close>

definition score_bound :: "str \<Rightarrow> str + f64 \<times> bool" where
  "score_bound s =
     (let bound = (\<lambda>t exclusive.
            case float_arg t of Inl _ \<Rightarrow> Inl ''ERR min or max is not a float'' | Inr x \<Rightarrow> Inr (x, exclusive))
      in case strip_prefix ''('' s of Some rest \<Rightarrow> bound rest True | None \<Rightarrow> bound s False)"

text \<open>
  \<open>seconds_timeout\<close>: seconds as milliseconds rounded up. The product is rounded as a double, the
  comparison and the conversion to an integer are of its exact value.
\<close>

definition timeout_ms :: "str \<Rightarrow> str + u64" where
  "timeout_ms s =
     (case float_arg s of
        Inl _ \<Rightarrow> Inl ''ERR timeout is not a float or out of range''
      | Inr x \<Rightarrow>
          if f_lt x 0 then Inl ''ERR timeout is negative''
          else
            (let ms = (if f_infinite x then f_infinity else f_nearest (f_magnitude x * 1000) 1);
                 whole = (f_magnitude ms + (2 ^ 1074 - 1)) div 2 ^ 1074
             in if f_infinite ms \<or> whole > 2 ^ 63 then Inl ''ERR timeout is out of range''
                else Inr (of_nat whole)))"

text \<open>
  \<open>format_float\<close> of \<open>db.rs\<close>, over the standard library's \<open>{}\<close> and \<open>{:.17}\<close> of a double.
\<close>

definition trim_end :: "char \<Rightarrow> str \<Rightarrow> str" where
  "trim_end ch s = rev (dropWhile (\<lambda>x. x = ch) (rev s))"

definition format_float :: "(f64 \<Rightarrow> str) \<Rightarrow> (f64 \<Rightarrow> str) \<Rightarrow> f64 \<Rightarrow> str" where
  "format_float display display17 x =
     (if f_infinite x then (if f_lt 0 x then ''inf'' else ''-inf'')
      else
        (let t = display x
         in if CHR ''e'' \<in> set t \<or> CHR ''E'' \<in> set t
            then trim_end (CHR ''.'') (trim_end (CHR ''0'') (display17 x))
            else t))"

end
