(* ===== verification/Exec.thy ===== *)
theory Exec
  imports Channels Listing Floats
begin

text \<open>
  How a command of the keyspace runs (\<open>src/src/commands.rs\<close>): its context and outcome, reading its
  arguments, the limits, and typed access to what a key holds. An execution is a function from its
  state, the record \<open>ex\<close>, to the new state and a result; \<open>?\<close> on an error ends it with what was
  changed before.
\<close>

subsection \<open>Replies\<close>

definition r_ok :: reply where "r_ok = R_Simple ''OK''"

fun reply_size :: "reply \<Rightarrow> nat" where
  "reply_size (R_Simple s) = length s + 4"
| "reply_size (R_Bulk s) = length s + 4"
| "reply_size (R_Error s) = length s + 4"
| "reply_size (R_Int n) = 8"
| "reply_size R_Nil = 4"
| "reply_size (R_Array items) = sum_list (map reply_size items) + 2"
| "reply_size (R_Map pairs) = sum_list (map (\<lambda>(k, v). length k + 4 + reply_size v) pairs) + 2"

definition r_bulks :: "str list \<Rightarrow> reply" where
  "r_bulks items = R_Array (map R_Bulk items)"

definition i64_max :: int where "i64_max = 2 ^ 63 - 1"

definition r_int :: "nat \<Rightarrow> reply" where
  "r_int n = R_Int (if int n \<le> i64_max then int n else i64_max)"

definition r_bool :: "bool \<Rightarrow> reply" where
  "r_bool b = R_Int (if b then 1 else 0)"

fun is_error :: "reply \<Rightarrow> bool" where
  "is_error (R_Error e) = True"
| "is_error _ = False"

subsection \<open>Context and outcome\<close>

text \<open>
  What a command takes from the standard library and the derived serializers: the text of a key in
  a snapshot, a double as \<open>{}\<close> and \<open>{:.17}\<close> write it, a string as \<open>{:?}\<close> does.
\<close>

record rust =
  ru_ser :: key_text
  ru_display :: "f64 \<Rightarrow> str"
  ru_display17 :: "f64 \<Rightarrow> str"
  ru_debug :: "str \<Rightarrow> str"

record ctx =
  cx_now :: u64
  cx_replay :: bool
  cx_blocking :: bool
  cx_access :: access
  cx_max_keys :: nat
  cx_max_elements :: nat
  cx_events :: bool
  cx_rust :: rust

definition usize_max :: nat where "usize_max = 2 ^ 64 - 1"

definition ctx_replay :: "rust \<Rightarrow> u64 \<Rightarrow> ctx" where
  "ctx_replay ru now =
     \<lparr>cx_now = now, cx_replay = True, cx_blocking = False, cx_access = access_admin,
      cx_max_keys = usize_max, cx_max_elements = usize_max, cx_events = True, cx_rust = ru\<rparr>"

abbreviation ser_of :: "ctx \<Rightarrow> key_text" where "ser_of c \<equiv> ru_ser (cx_rust c)"

definition float_text :: "ctx \<Rightarrow> f64 \<Rightarrow> str" where
  "float_text c = format_float (ru_display (cx_rust c)) (ru_display17 (cx_rust c))"

record block =
  bk_retry :: "str list"
  bk_timeout :: u64

record outcome =
  oc_reply :: reply
  oc_dirty :: bool
  oc_propagate :: "str list list option"
  oc_events :: "(str \<times> str) list"
  oc_block :: "block option"

definition outcome_of :: "reply \<Rightarrow> outcome" where
  "outcome_of r = \<lparr>oc_reply = r, oc_dirty = False, oc_propagate = None, oc_events = [], oc_block = None\<rparr>"

definition outcome_journal :: "str list \<Rightarrow> outcome \<Rightarrow> str list list" where
  "outcome_journal argv o1 =
     (if \<not> oc_dirty o1 \<or> is_error (oc_reply o1) then []
      else (case oc_propagate o1 of Some commands \<Rightarrow> commands | None \<Rightarrow> [argv]))"

subsection \<open>Executions\<close>

text \<open>
  \<open>Exec\<close>, with the hashes \<open>random_below\<close> will draw from the standard library. A command fails with an
  error, or is \<open>Starved\<close>: it still waits for randomness that has not come.
\<close>

record ex =
  ex_db :: db
  ex_dirty :: bool
  ex_propagate :: "str list list option"
  ex_events :: "(str \<times> str) list"
  ex_block :: "block option"
  ex_draws :: "u64 list"

datatype stop = Failed str | Starved

type_synonym 'a exec = "ex \<Rightarrow> ex \<times> (stop + 'a)"

definition pass :: "'a \<Rightarrow> 'a exec" where
  "pass x s = (s, Inr x)"

definition refuse :: "str \<Rightarrow> 'a exec" where
  "refuse e s = (s, Inl (Failed e))"

definition bind_ex :: "'a exec \<Rightarrow> ('a \<Rightarrow> 'b exec) \<Rightarrow> 'b exec" where
  "bind_ex m k s = (case m s of (t, Inl e) \<Rightarrow> (t, Inl e) | (t, Inr x) \<Rightarrow> k x t)"

definition then_ex :: "unit exec \<Rightarrow> 'b exec \<Rightarrow> 'b exec" where
  "then_ex m n = bind_ex m (\<lambda>_. n)"

definition try_ex :: "str + 'a \<Rightarrow> ('a \<Rightarrow> 'b exec) \<Rightarrow> 'b exec" where
  "try_ex r k = (case r of Inl e \<Rightarrow> refuse e | Inr x \<Rightarrow> k x)"

definition need_ex :: "bool \<Rightarrow> str \<Rightarrow> 'b exec \<Rightarrow> 'b exec" where
  "need_ex b e m = (if b then m else refuse e)"

definition some_ex :: "'a option \<Rightarrow> str \<Rightarrow> ('a \<Rightarrow> 'b exec) \<Rightarrow> 'b exec" where
  "some_ex r e k = (case r of None \<Rightarrow> refuse e | Some x \<Rightarrow> k x)"

definition change_ex :: "(db \<Rightarrow> db) \<Rightarrow> unit exec" where
  "change_ex f s = (s\<lparr>ex_db := f (ex_db s)\<rparr>, Inr ())"

definition mark_dirty :: "unit exec" where
  "mark_dirty s = (s\<lparr>ex_dirty := True\<rparr>, Inr ())"

definition touch :: "ctx \<Rightarrow> str \<Rightarrow> str \<Rightarrow> unit exec" where
  "touch c key event s =
     (s\<lparr>ex_dirty := True,
        ex_events := (if cx_events c then ex_events s @ [(key, event)] else ex_events s)\<rparr>, Inr ())"

definition when_ex :: "bool \<Rightarrow> unit exec \<Rightarrow> unit exec" where
  "when_ex b m = (if b then m else pass ())"

definition propagate :: "str list \<Rightarrow> unit exec" where
  "propagate command s = (s\<lparr>ex_propagate := Some [command]\<rparr>, Inr ())"

text \<open>\<open>wait\<close>, and the block a stream reader asks for.\<close>

definition block_ex :: "ctx \<Rightarrow> str list \<Rightarrow> u64 \<Rightarrow> unit exec" where
  "block_ex c retry timeout s =
     (if cx_blocking c then (s\<lparr>ex_block := Some \<lparr>bk_retry = retry, bk_timeout = timeout\<rparr>\<rparr>, Inr ())
      else (s, Inr ()))"

text \<open>One call of \<open>random_below\<close>.\<close>

definition draw_ex :: "nat \<Rightarrow> (nat \<Rightarrow> 'a exec) \<Rightarrow> 'a exec" where
  "draw_ex n k s =
     (case ex_draws s of
        [] \<Rightarrow> (s, Inl Starved)
      | h # hs \<Rightarrow> k (random_below h n) (s\<lparr>ex_draws := hs\<rparr>))"

subsection \<open>Arguments\<close>

definition syntax_error :: str where "syntax_error = ''ERR syntax error''"
definition not_int :: str where "not_int = ''ERR value is not an integer or out of range''"
definition bad_id :: str where "bad_id = ''ERR Invalid stream ID specified as stream command argument''"
definition wrong_type :: str where
  "wrong_type = ''WRONGTYPE Operation against a key holding the wrong kind of value''"
definition max_string :: nat where "max_string = 16 * 2 ^ 20"

definition quoted :: "str \<Rightarrow> str" where
  "quoted s = CHR 0x27 # s @ [CHR 0x27]"

definition wrong_args :: "str \<Rightarrow> str" where
  "wrong_args name = ''ERR wrong number of arguments for '' @ quoted (to_ascii_lowercase name) @ '' command''"

definition invalid_expire :: "str \<Rightarrow> str" where
  "invalid_expire name = ''ERR invalid expire time in '' @ quoted (to_ascii_lowercase name) @ '' command''"

definition need_args :: "str list \<Rightarrow> nat \<Rightarrow> 'a exec \<Rightarrow> 'a exec" where
  "need_args argv n m = need_ex (n \<le> length argv) (wrong_args (argv ! 0)) m"

definition exactly :: "str list \<Rightarrow> nat \<Rightarrow> 'a exec \<Rightarrow> 'a exec" where
  "exactly argv n m = need_ex (length argv = n) (wrong_args (argv ! 0)) m"

definition arg_at :: "str list \<Rightarrow> nat \<Rightarrow> str option" where
  "arg_at argv i = (if i < length argv then Some (argv ! i) else None)"

definition arg_or :: "str list \<Rightarrow> nat \<Rightarrow> str + str" where
  "arg_or argv i = (case arg_at argv i of Some a \<Rightarrow> Inr a | None \<Rightarrow> Inl syntax_error)"

definition int_arg :: "str \<Rightarrow> str + int" where
  "int_arg s = (case parse_i64 s of None \<Rightarrow> Inl not_int | Some i \<Rightarrow> Inr i)"

definition count_arg :: "str \<Rightarrow> str + nat" where
  "count_arg s =
     (case int_arg s of
        Inl e \<Rightarrow> Inl e
      | Inr n \<Rightarrow> if n < 0 then Inl ''ERR value is out of range, must be positive'' else Inr (nat n))"

definition bind_sum :: "'e + 'a \<Rightarrow> ('a \<Rightarrow> 'e + 'b) \<Rightarrow> 'e + 'b" where
  "bind_sum r k = (case r of Inl e \<Rightarrow> Inl e | Inr x \<Rightarrow> k x)"

text \<open>Checked arithmetic on \<open>i64\<close>.\<close>

definition checked_i64 :: "int \<Rightarrow> int option" where
  "checked_i64 i = (if - (2 ^ 63) \<le> i \<and> i \<le> i64_max then Some i else None)"

definition expiry_at :: "u64 \<Rightarrow> int \<Rightarrow> int \<Rightarrow> bool \<Rightarrow> u64 option" where
  "expiry_at now amount unit absolute =
     Option.bind (checked_i64 (amount * unit)) (\<lambda>ms.
     Option.bind (if absolute then Some ms
                  else Option.bind (checked_i64 (uint now)) (\<lambda>n. checked_i64 (ms + n))) (\<lambda>at.
     if at < 0 then None else Some (word_of_int at)))"

fun pairs_of :: "'a list \<Rightarrow> ('a \<times> 'a) list" where
  "pairs_of (a # b # xs) = (a, b) # pairs_of xs"
| "pairs_of _ = []"

text \<open>The range of a list named by two indexes, those below zero counted from its end.\<close>

definition range_bounds :: "int \<Rightarrow> int \<Rightarrow> nat \<Rightarrow> (nat \<times> nat) option" where
  "range_bounds start stop len =
     (let start = (if start < 0 then max (int len + start) 0 else start);
          stop = (if stop < 0 then int len + stop else min stop (int len - 1))
      in if start \<le> stop \<and> start < int len then Some (nat start, nat stop) else None)"

subsection \<open>Limits\<close>

definition contains_key :: "db \<Rightarrow> str \<Rightarrow> bool" where
  "contains_key d key \<longleftrightarrow> bm_contains (db_keys d) key"

definition admit_all :: "ctx \<Rightarrow> str list \<Rightarrow> db \<Rightarrow> str + unit" where
  "admit_all c keys d =
     (if cx_replay c then Inr ()
      else
        (let new = remdups (sort (filter (\<lambda>k. \<not> contains_key d k) keys))
         in if bm_len (db_keys d) + length new > cx_max_keys c \<and> new \<noteq> []
            then Inl (''OOM key limit reached ('' @ show_nat (cx_max_keys c)
              @ '' keys); raise POSTINO_MAX_KEYS or delete keys'')
            else Inr ()))"

definition admit_ex :: "ctx \<Rightarrow> str list \<Rightarrow> 'a exec \<Rightarrow> 'a exec" where
  "admit_ex c keys m s = try_ex (admit_all c keys (ex_db s)) (\<lambda>_. m) s"

definition room_for :: "ctx \<Rightarrow> nat \<Rightarrow> nat \<Rightarrow> 'a exec \<Rightarrow> 'a exec" where
  "room_for c len adding m =
     need_ex (cx_replay c \<or> len + adding \<le> cx_max_elements c)
       (''OOM a collection holds at most '' @ show_nat (cx_max_elements c) @ '' elements (POSTINO_MAX_ELEMENTS)'') m"

definition reply_too_long :: str where
  "reply_too_long = ''ERR the reply would exceed 64 MiB; read less at a time, with a range, COUNT, or SCAN''"

text \<open>\<open>collect_within\<close>: replies one at a time, refused once they are more than a response carries.\<close>

fun collect_from :: "nat \<Rightarrow> reply list \<Rightarrow> str + reply list" where
  "collect_from bytes [] = Inr []"
| "collect_from bytes (r # rs) =
     (let bytes = bytes + reply_size r
      in if bytes > max_reply_bytes then Inl reply_too_long
         else bind_sum (collect_from bytes rs) (\<lambda>out. Inr (r # out)))"

definition collect_within :: "reply list \<Rightarrow> reply exec" where
  "collect_within rs = try_ex (collect_from 0 rs) (\<lambda>out. pass (R_Array out))"

subsection \<open>What a key holds\<close>

fun as_string :: "kvalue \<Rightarrow> str option" where
  "as_string (V_String v) = Some v" | "as_string _ = None"

fun as_list :: "kvalue \<Rightarrow> str list option" where
  "as_list (V_List v) = Some v" | "as_list _ = None"

fun as_hash :: "kvalue \<Rightarrow> (str, str) btree_map option" where
  "as_hash (V_Hash v) = Some v" | "as_hash _ = None"

fun as_set :: "kvalue \<Rightarrow> str btree_set option" where
  "as_set (V_Set v) = Some v" | "as_set _ = None"

fun as_zset :: "kvalue \<Rightarrow> zset option" where
  "as_zset (V_ZSet v) = Some v" | "as_zset _ = None"

fun as_stream :: "kvalue \<Rightarrow> stream option" where
  "as_stream (V_Stream v) = Some v" | "as_stream _ = None"

definition entry_new :: "kvalue \<Rightarrow> kentry" where
  "entry_new v = \<lparr>ent_value = v, ent_expires = None\<rparr>"

definition look_ex :: "ctx \<Rightarrow> str \<Rightarrow> (kentry option \<Rightarrow> 'a exec) \<Rightarrow> 'a exec" where
  "look_ex c key k s = k (db_get key (cx_now c) (ex_db s)) s"

text \<open>The readers \<open>string_ref\<close>, \<open>list_ref\<close> and so on, by the kind \<open>prj\<close> they expect.\<close>

definition typed_ref :: "(kvalue \<Rightarrow> 'v option) \<Rightarrow> kentry option \<Rightarrow> str + 'v option" where
  "typed_ref prj e =
     (case e of
        None \<Rightarrow> Inr None
      | Some e \<Rightarrow> (case prj (ent_value e) of Some v \<Rightarrow> Inr (Some v) | None \<Rightarrow> Inl wrong_type))"

definition ref_ex :: "ctx \<Rightarrow> (kvalue \<Rightarrow> 'v option) \<Rightarrow> str \<Rightarrow> ('v option \<Rightarrow> 'a exec) \<Rightarrow> 'a exec" where
  "ref_ex c prj key k = look_ex c key (\<lambda>e. try_ex (typed_ref prj e) k)"

text \<open>\<open>Db::get_mut\<close>, with what its caller makes of the entry it finds.\<close>

definition entry_mut :: "ctx \<Rightarrow> str \<Rightarrow> (kentry \<Rightarrow> kentry \<times> 'b) \<Rightarrow> 'b option exec" where
  "entry_mut c key f s =
     (s\<lparr>ex_db := db_get_mut (ser_of c) key (cx_now c) (\<lambda>e. fst (f e)) (ex_db s)\<rparr>,
      Inr (map_option (\<lambda>e. snd (f e)) (db_get key (cx_now c) (ex_db s))))"

text \<open>
  The writers \<open>string_mut\<close> and so on: an error for another kind, a new value where there is none and
  \<open>create\<close> says so. \<open>f\<close> is what the caller does to the value, and what it learns from it.
\<close>

definition value_mut ::
  "ctx \<Rightarrow> (kvalue \<Rightarrow> 'v option) \<Rightarrow> ('v \<Rightarrow> kvalue) \<Rightarrow> str \<Rightarrow> ('v \<Rightarrow> 'v \<times> 'b) \<Rightarrow> 'b option exec" where
  "value_mut c prj mk key f =
     bind_ex (entry_mut c key (\<lambda>e. case prj (ent_value e) of
         Some v \<Rightarrow> (e\<lparr>ent_value := mk (fst (f v))\<rparr>, Some (snd (f v)))
       | None \<Rightarrow> (e, None)))
       (\<lambda>r. pass (Option.bind r id))"

definition mut_ex ::
  "ctx \<Rightarrow> (kvalue \<Rightarrow> 'v option) \<Rightarrow> ('v \<Rightarrow> kvalue) \<Rightarrow> 'v \<Rightarrow> str \<Rightarrow> bool \<Rightarrow> ('v \<Rightarrow> 'v \<times> 'b) \<Rightarrow> 'b option exec" where
  "mut_ex c prj mk fresh key create f =
     look_ex c key (\<lambda>e.
       case e of
         Some e \<Rightarrow> need_ex (prj (ent_value e) \<noteq> None) wrong_type (value_mut c prj mk key f)
       | None \<Rightarrow>
           if create then
             admit_ex c [key] (then_ex (change_ex (db_insert (ser_of c) key (entry_new (mk fresh))))
               (value_mut c prj mk key f))
           else pass None)"

definition stream_empty :: stream where
  "stream_empty = \<lparr>st_entries = bm_empty, st_last_id = id_default, st_added = 0, st_max_deleted = id_default,
     st_groups = bm_empty\<rparr>"

abbreviation string_mut where "string_mut c \<equiv> mut_ex c as_string V_String []"
abbreviation list_mut where "list_mut c \<equiv> mut_ex c as_list V_List []"
abbreviation hash_mut where "hash_mut c \<equiv> mut_ex c as_hash V_Hash bm_empty"
abbreviation set_mut where "set_mut c \<equiv> mut_ex c as_set V_Set bm_empty"
abbreviation zset_mut where "zset_mut c \<equiv> mut_ex c as_zset V_ZSet zset_empty"
abbreviation stream_mut where "stream_mut c \<equiv> mut_ex c as_stream V_Stream stream_empty"

definition prune_ex :: "ctx \<Rightarrow> str \<Rightarrow> unit exec" where
  "prune_ex c key = change_ex (db_prune (ser_of c) key)"

end
