(* ===== verification/Cmd_Keys.thy ===== *)
theory Cmd_Keys
  imports Exec
begin

text \<open>
  The commands on keys and strings (\<open>src/src/commands.rs\<close>): each arm of \<open>Exec::dispatch\<close> and each
  method it calls is a definition \<open>cmd_\<dots>\<close> of the context and the words of the command, whose name
  comes upper-cased where several share it.
\<close>

subsection \<open>The server\<close>

definition cmd_ping :: "str list \<Rightarrow> reply exec" where
  "cmd_ping argv =
     (if length argv = 1 then pass (R_Simple ''PONG'')
      else if length argv = 2 then pass (R_Bulk (argv ! 1))
      else refuse (wrong_args ''ping''))"

definition cmd_echo :: "str list \<Rightarrow> reply exec" where
  "cmd_echo argv = exactly argv 2 (pass (R_Bulk (argv ! 1)))"

definition cmd_time :: "ctx \<Rightarrow> reply exec" where
  "cmd_time c =
     (let micros = cx_now c * 1000
      in pass (r_bulks [show_nat (unat (micros div 1000000)), show_nat (unat (micros mod 1000000))]))"

definition too_long :: "str \<Rightarrow> str" where
  "too_long command =
     ''ERR '' @ command @ '' in a batch looks at 10000 keys at most, while every other request waits; send it alone''"

definition count_visit :: "nat visit" where
  "count_visit key e keys = (keys + 1, True)"

definition cmd_dbsize :: "ctx \<Rightarrow> reply exec" where
  "cmd_dbsize c s =
     (let scope = acc_scope (cx_access c); d = ex_db s in
      if scope_is_all scope then pass (r_int (bm_len (db_keys d))) s
      else (case walk d scope [] None (walk_whole + 1) (cx_now c) count_visit 0 of
              (keys, Some _) \<Rightarrow> refuse (too_long ''DBSIZE'') s
            | (keys, None) \<Rightarrow> pass (r_int keys) s))"

definition flush_ex :: "ctx \<Rightarrow> unit exec" where
  "flush_ex c s =
     (if db_keys (ex_db s) \<noteq> bm_empty
      then then_ex (change_ex (db_clear (ser_of c))) mark_dirty s
      else pass () s)"

definition cmd_flush :: "ctx \<Rightarrow> reply exec" where
  "cmd_flush c =
     need_ex (acc_admin (cx_access c)) ''NOPERM this command requires the administrator token''
       (then_ex (flush_ex c) (pass r_ok))"

text \<open>\<open>COMMANDS\<close>, sorted.\<close>

definition command_names :: "str list" where
  "command_names =
    [''APPEND'', ''BLMOVE'', ''BLPOP'', ''BRPOP'', ''BZPOPMAX'', ''BZPOPMIN'', ''COMMAND'', ''DBSIZE'',
     ''DECR'', ''DECRBY'', ''DEL'', ''DELIFEQ'', ''ECHO'', ''EXISTS'', ''EXPIRE'', ''EXPIREAT'',
     ''EXPIRETIME'', ''FLUSHALL'', ''FLUSHDB'', ''GET'', ''GETDEL'', ''GETEX'', ''GETSET'', ''HDEL'',
     ''HEXISTS'', ''HGET'', ''HGETALL'', ''HINCRBY'', ''HINCRBYFLOAT'', ''HKEYS'', ''HLEN'', ''HMGET'',
     ''HMSET'', ''HSET'', ''HSETNX'', ''HVALS'', ''INCR'', ''INCRBY'', ''INCRBYFLOAT'', ''INFO'',
     ''KEYS'', ''LINDEX'', ''LINSERT'', ''LLEN'', ''LMOVE'', ''LPOP'', ''LPUSH'', ''LPUSHX'', ''LRANGE'',
     ''LREM'', ''LSET'', ''LTRIM'', ''MGET'', ''MSET'', ''MSETNX'', ''PERSIST'', ''PEXPIRE'',
     ''PEXPIREAT'', ''PEXPIRETIME'', ''PING'', ''PSETEX'', ''PTTL'', ''PUBLISH'', ''PUBSUB'', ''RENAME'',
     ''RENAMENX'', ''RPOP'', ''RPOPLPUSH'', ''RPUSH'', ''RPUSHX'', ''SADD'', ''SCAN'', ''SCARD'', ''SDIFF'',
     ''SET'', ''SETEX'', ''SETNX'', ''SINTER'', ''SISMEMBER'', ''SMEMBERS'', ''SMISMEMBER'', ''SMOVE'',
     ''SPOP'', ''SRANDMEMBER'', ''SREM'', ''STRLEN'', ''SUNION'', ''TIME'', ''TTL'', ''TYPE'', ''UNLINK'',
     ''XACK'', ''XADD'', ''XAUTOCLAIM'', ''XCLAIM'', ''XDEL'', ''XGROUP'', ''XINFO'', ''XLEN'', ''XPENDING'',
     ''XRANGE'', ''XREAD'', ''XREADGROUP'', ''XREVRANGE'', ''XTRIM'', ''ZADD'', ''ZCARD'', ''ZCOUNT'',
     ''ZINCRBY'', ''ZMSCORE'', ''ZPOPMAX'', ''ZPOPMIN'', ''ZRANGE'', ''ZRANGEBYSCORE'', ''ZRANK'', ''ZREM'',
     ''ZREMRANGEBYRANK'', ''ZREMRANGEBYSCORE'', ''ZREVRANGE'', ''ZREVRANGEBYSCORE'', ''ZREVRANK'', ''ZSCORE'']"

definition cmd_command :: "str list \<Rightarrow> reply exec" where
  "cmd_command argv =
     (if map_option to_ascii_uppercase (arg_at argv 1) = Some ''COUNT'' then pass (r_int (length command_names))
      else pass (r_bulks (map to_ascii_lowercase command_names)))"

subsection \<open>Keys\<close>

fun del_loop :: "ctx \<Rightarrow> str list \<Rightarrow> nat \<Rightarrow> reply exec" where
  "del_loop c [] removed = pass (r_int removed)"
| "del_loop c (key # keys) removed =
     bind_ex (\<lambda>s. (s\<lparr>ex_db := fst (db_delete (ser_of c) key (cx_now c) (ex_db s))\<rparr>,
                   Inr (snd (db_delete (ser_of c) key (cx_now c) (ex_db s)))))
       (\<lambda>there. then_ex (when_ex there (touch c key ''del''))
         (del_loop c keys (if there then removed + 1 else removed)))"

definition cmd_del :: "ctx \<Rightarrow> str list \<Rightarrow> reply exec" where
  "cmd_del c argv = need_args argv 2 (del_loop c (tl argv) 0)"

fun exists_loop :: "ctx \<Rightarrow> str list \<Rightarrow> nat \<Rightarrow> reply exec" where
  "exists_loop c [] n = pass (r_int n)"
| "exists_loop c (key # keys) n =
     look_ex c key (\<lambda>e. exists_loop c keys (if e \<noteq> None then n + 1 else n))"

definition cmd_exists :: "ctx \<Rightarrow> str list \<Rightarrow> reply exec" where
  "cmd_exists c argv = need_args argv 2 (exists_loop c (tl argv) 0)"

definition cmd_type :: "ctx \<Rightarrow> str list \<Rightarrow> reply exec" where
  "cmd_type c argv =
     exactly argv 2 (look_ex c (argv ! 1) (\<lambda>e.
       pass (R_Simple (case e of None \<Rightarrow> ''none'' | Some e \<Rightarrow> type_name (ent_value e)))))"

record expire_flags =
  fl_nx :: bool
  fl_xx :: bool
  fl_gt :: bool
  fl_lt :: bool

fun expire_options :: "str list \<Rightarrow> expire_flags \<Rightarrow> str + expire_flags" where
  "expire_options [] fl = Inr fl"
| "expire_options (flag # flags) fl =
     (let word = to_ascii_uppercase flag in
      if word = ''NX'' then expire_options flags (fl\<lparr>fl_nx := True\<rparr>)
      else if word = ''XX'' then expire_options flags (fl\<lparr>fl_xx := True\<rparr>)
      else if word = ''GT'' then expire_options flags (fl\<lparr>fl_gt := True\<rparr>)
      else if word = ''LT'' then expire_options flags (fl\<lparr>fl_lt := True\<rparr>)
      else Inl (''ERR Unsupported option '' @ flag))"

definition expire_time :: "str \<Rightarrow> int \<Rightarrow> int \<Rightarrow> int option" where
  "expire_time name amount now =
     (if name = ''EXPIRE'' then Option.bind (checked_i64 (amount * 1000)) (\<lambda>ms. checked_i64 (ms + now))
      else if name = ''PEXPIRE'' then checked_i64 (amount + now)
      else if name = ''EXPIREAT'' then checked_i64 (amount * 1000)
      else Some amount)"

definition expire_allowed :: "expire_flags \<Rightarrow> int \<Rightarrow> u64 option \<Rightarrow> bool" where
  "expire_allowed fl at current =
     (case current of
        None \<Rightarrow> \<not> fl_xx fl \<and> \<not> fl_gt fl
      | Some t \<Rightarrow>
          (let existing = min (uint t) i64_max
           in \<not> fl_nx fl \<and> (\<not> fl_gt fl \<or> at > existing) \<and> (\<not> fl_lt fl \<or> at < existing)))"

definition cmd_expire :: "ctx \<Rightarrow> str \<Rightarrow> str list \<Rightarrow> reply exec" where
  "cmd_expire c name argv =
     need_args argv 3 (
     let key = argv ! 1; now = cx_now c in
     try_ex (int_arg (argv ! 2)) (\<lambda>amount.
     some_ex (expire_time name amount (sint now)) (invalid_expire name) (\<lambda>at.
     try_ex (expire_options (drop 3 argv) \<lparr>fl_nx = False, fl_xx = False, fl_gt = False, fl_lt = False\<rparr>) (\<lambda>fl.
     if (fl_nx fl \<and> (fl_xx fl \<or> fl_gt fl \<or> fl_lt fl)) \<or> (fl_gt fl \<and> fl_lt fl)
     then refuse ''ERR NX and XX, GT or LT options at the same time are not compatible''
     else
       (let past = (at \<le> sint now) in
        bind_ex (entry_mut c key (\<lambda>e.
            let allowed = expire_allowed fl at (ent_expires e)
            in (if allowed \<and> \<not> past then e\<lparr>ent_expires := Some (word_of_int at)\<rparr> else e, allowed)))
          (\<lambda>allowed.
            if allowed \<noteq> Some True then pass (R_Int 0)
            else if past then
              then_ex (change_ex (\<lambda>d. fst (db_delete (ser_of c) key now d)))
                (then_ex (touch c key ''del'') (pass (R_Int 1)))
            else
              then_ex (change_ex (db_deadline key (word_of_int at)))
                (then_ex (touch c key ''expire'') (pass (R_Int 1)))))))))"

definition ttl_value :: "str \<Rightarrow> int \<Rightarrow> kentry option \<Rightarrow> int" where
  "ttl_value name now e =
     (case e of
        None \<Rightarrow> - 2
      | Some e \<Rightarrow>
          (case ent_expires e of
             None \<Rightarrow> - 1
           | Some at \<Rightarrow>
               (let at = uint at;
                    value = (if name = ''TTL'' then (at - now + 500) div 1000
                             else if name = ''PTTL'' then at - now
                             else if name = ''EXPIRETIME'' then at div 1000
                             else at)
                in if value \<le> i64_max then value else i64_max)))"

definition cmd_ttl :: "ctx \<Rightarrow> str \<Rightarrow> str list \<Rightarrow> reply exec" where
  "cmd_ttl c name argv =
     exactly argv 2 (look_ex c (argv ! 1) (\<lambda>e. pass (R_Int (ttl_value name (uint (cx_now c)) e))))"

definition cmd_persist :: "ctx \<Rightarrow> str list \<Rightarrow> reply exec" where
  "cmd_persist c argv =
     exactly argv 2 (
     let key = argv ! 1 in
     bind_ex (entry_mut c key (\<lambda>e. (e\<lparr>ent_expires := None\<rparr>, ent_expires e \<noteq> None)))
       (\<lambda>had. if had = Some True then then_ex (touch c key ''persist'') (pass (R_Int 1)) else pass (R_Int 0)))"

definition remove_ex :: "ctx \<Rightarrow> str \<Rightarrow> kentry option exec" where
  "remove_ex c key s =
     (s\<lparr>ex_db := fst (db_remove (ser_of c) key (cx_now c) (ex_db s))\<rparr>,
      Inr (snd (db_remove (ser_of c) key (cx_now c) (ex_db s))))"

definition cmd_rename :: "ctx \<Rightarrow> bool \<Rightarrow> str list \<Rightarrow> reply exec" where
  "cmd_rename c nx argv =
     exactly argv 3 (
     let frm = argv ! 1; to = argv ! 2 in
     look_ex c frm (\<lambda>there.
     need_ex (there \<noteq> None) ''ERR no such key'' (
     if frm = to then pass (if nx then R_Int 0 else r_ok)
     else look_ex c to (\<lambda>taken.
     if nx \<and> taken \<noteq> None then pass (R_Int 0)
     else
       bind_ex (remove_ex c frm) (\<lambda>e.
       some_ex e ''ERR no such key'' (\<lambda>e.
       then_ex (case ent_expires e of Some at \<Rightarrow> change_ex (db_deadline to at) | None \<Rightarrow> pass ())
      (then_ex (change_ex (db_insert (ser_of c) to e))
      (then_ex (touch c frm ''rename_from'')
      (then_ex (touch c to ''rename_to'')
         (pass (if nx then R_Int 1 else r_ok)))))))))))"

definition cmd_keys :: "ctx \<Rightarrow> str list \<Rightarrow> reply exec" where
  "cmd_keys c argv =
     exactly argv 2 (
     try_ex (glob_client (argv ! 1)) (\<lambda>pattern s.
       case walk (ex_db s) (acc_scope (cx_access c)) (literal_prefix (glob_source pattern)) None (walk_whole + 1)
              (cx_now c) (\<lambda>key e keys. (if glob_matches pattern key then keys @ [key] else keys, True)) [] of
         (keys, Some _) \<Rightarrow> refuse (too_long ''KEYS'' @ '', or page through the keys with SCAN'') s
       | (keys, None) \<Rightarrow> collect_within (map R_Bulk keys) s))"

subsection \<open>SCAN\<close>

record scan =
  sn_pattern :: "glob option"
  sn_count :: nat
  sn_kind :: "str option"
  sn_after :: "str option"
  sn_seen :: nat
  sn_last :: "str option"
  sn_found :: "str list"

lemma bind_sum_cong [fundef_cong]:
  "r = r' \<Longrightarrow> (\<And>x. r' = Inr x \<Longrightarrow> k x = k' x) \<Longrightarrow> bind_sum r k = bind_sum r' k'"
  by (cases r') (simp_all add: bind_sum_def)

function scan_options :: "str list \<Rightarrow> nat \<Rightarrow> scan \<Rightarrow> str + scan" where
  "scan_options argv i sn =
     (if i < length argv then
        bind_sum (arg_or argv (i + 1)) (\<lambda>value.
          let word = to_ascii_uppercase (argv ! i) in
          if word = ''MATCH'' then
            bind_sum (glob_client value) (\<lambda>p. scan_options argv (i + 2) (sn\<lparr>sn_pattern := Some p\<rparr>))
          else if word = ''COUNT'' then
            bind_sum (int_arg value) (\<lambda>n.
              if n \<ge> 1 then scan_options argv (i + 2) (sn\<lparr>sn_count := min (nat n) scan_most\<rparr>)
              else Inl syntax_error)
          else if word = ''TYPE'' then
            scan_options argv (i + 2) (sn\<lparr>sn_kind := Some (to_ascii_lowercase value)\<rparr>)
          else Inl syntax_error)
      else Inr sn)"
  by pat_completeness auto

termination
  by (relation "measure (\<lambda>(argv, i, sn). length argv - i)") (auto simp: arg_or_def arg_at_def)

declare scan_options.simps [simp del]

definition scan_start :: "str \<Rightarrow> str + str option" where
  "scan_start cursor =
     (if cursor = ''0'' then Inr None
      else (case from_hex cursor of
              Some bytes \<Rightarrow> (let name = map (\<lambda>b. char_of (unat b)) bytes
                             in if valid_str name then Inr (Some name) else Inl ''ERR invalid cursor'')
            | None \<Rightarrow> Inl ''ERR invalid cursor''))"

definition scan_new :: "str list \<Rightarrow> str + scan" where
  "scan_new argv =
     (if length argv < 2 then Inl (wrong_args (argv ! 0))
      else
        bind_sum (scan_start (argv ! 1)) (\<lambda>after.
          scan_options argv 2 \<lparr>sn_pattern = None, sn_count = 10, sn_kind = None, sn_after = after,
            sn_seen = 0, sn_last = None, sn_found = []\<rparr>))"

definition scan_visit :: "scan visit" where
  "scan_visit key e sn =
     (let sn = sn\<lparr>sn_seen := sn_seen sn + 1\<rparr>;
          chosen = (case sn_pattern sn of None \<Rightarrow> True | Some p \<Rightarrow> glob_matches p key) \<and>
                   (case sn_kind sn of None \<Rightarrow> True | Some t \<Rightarrow> type_name (ent_value e) = t);
          sn = (if chosen then sn\<lparr>sn_found := sn_found sn @ [key]\<rparr> else sn)
      in if sn_seen sn < sn_count sn then (sn, True) else (sn\<lparr>sn_last := Some key\<rparr>, False))"

definition scan_run :: "db \<Rightarrow> scope \<Rightarrow> nat \<Rightarrow> u64 \<Rightarrow> scan \<Rightarrow> scan \<times> reply option" where
  "scan_run d scope most now sn =
     (case walk d scope (case sn_pattern sn of None \<Rightarrow> [] | Some p \<Rightarrow> literal_prefix (glob_source p))
             (sn_after sn) most now scan_visit sn of
        (sn, Some key) \<Rightarrow> (sn\<lparr>sn_after := Some key\<rparr>, None)
      | (sn, None) \<Rightarrow>
          (sn\<lparr>sn_found := []\<rparr>,
           Some (R_Array
             [R_Bulk (case sn_last sn of None \<Rightarrow> ''0'' | Some key \<Rightarrow> to_hex (map (\<lambda>ch. of_nat (byte_of ch)) key)),
              r_bulks (sn_found sn)])))"

definition cmd_scan :: "ctx \<Rightarrow> str list \<Rightarrow> reply exec" where
  "cmd_scan c argv =
     try_ex (scan_new argv) (\<lambda>sn s.
       case snd (scan_run (ex_db s) (acc_scope (cx_access c)) (walk_whole + 1) (cx_now c) sn) of
         Some r \<Rightarrow> pass r s
       | None \<Rightarrow> refuse (too_long ''SCAN'') s)"

end
