(* ===== verification/Cmd_Strings.thy ===== *)
theory Cmd_Strings
  imports Cmd_Keys
begin

text \<open>The commands on strings (\<open>src/src/commands.rs\<close>), counters and compare-and-set included.\<close>

subsection \<open>Writing a string\<close>

definition string_too_long :: str where
  "string_too_long = ''ERR string exceeds maximum allowed size (16 MiB)''"

definition replace_ex :: "ctx \<Rightarrow> str \<Rightarrow> kentry \<Rightarrow> kentry option exec" where
  "replace_ex c key e s =
     (s\<lparr>ex_db := fst (db_replace (ser_of c) key e (ex_db s))\<rparr>, Inr (snd (db_replace (ser_of c) key e (ex_db s))))"

definition deadline_ex :: "str \<Rightarrow> u64 option \<Rightarrow> unit exec" where
  "deadline_ex key expires = (case expires of Some at \<Rightarrow> change_ex (db_deadline key at) | None \<Rightarrow> pass ())"

definition store_string :: "ctx \<Rightarrow> str \<Rightarrow> str \<Rightarrow> u64 option \<Rightarrow> unit exec" where
  "store_string c key value expires =
     need_ex (length value \<le> max_string) string_too_long (
     bind_ex (replace_ex c key \<lparr>ent_value = V_String value, ent_expires = expires\<rparr>) (\<lambda>back.
     then_ex (case back of
                Some e \<Rightarrow> admit_ex c [key] (change_ex (db_insert (ser_of c) key e))
              | None \<Rightarrow> pass ())
    (then_ex (deadline_ex key expires)
       (touch c key ''set''))))"

definition write_string_keep_ttl :: "ctx \<Rightarrow> str \<Rightarrow> str \<Rightarrow> unit exec" where
  "write_string_keep_ttl c key value =
     look_ex c key (\<lambda>e.
     admit_ex c [key] (change_ex (db_insert (ser_of c) key
       \<lparr>ent_value = V_String value, ent_expires = Option.bind e ent_expires\<rparr>)))"

definition r_bulk_or_nil :: "str option \<Rightarrow> reply" where
  "r_bulk_or_nil v = (case v of None \<Rightarrow> R_Nil | Some s \<Rightarrow> R_Bulk s)"

subsection \<open>Reading and replacing\<close>

definition cmd_get :: "ctx \<Rightarrow> str list \<Rightarrow> reply exec" where
  "cmd_get c argv = exactly argv 2 (ref_ex c as_string (argv ! 1) (\<lambda>v. pass (r_bulk_or_nil v)))"

definition cmd_setnx :: "ctx \<Rightarrow> str list \<Rightarrow> reply exec" where
  "cmd_setnx c argv =
     exactly argv 3 (
     look_ex c (argv ! 1) (\<lambda>e.
     if e \<noteq> None then pass (R_Int 0)
     else then_ex (store_string c (argv ! 1) (argv ! 2) None) (pass (R_Int 1))))"

definition cmd_setex :: "ctx \<Rightarrow> str \<Rightarrow> str list \<Rightarrow> reply exec" where
  "cmd_setex c name argv =
     exactly argv 4 (
     try_ex (int_arg (argv ! 2)) (\<lambda>amount.
     need_ex (amount > 0) (invalid_expire name) (
     some_ex (expiry_at (cx_now c) amount (if name = ''SETEX'' then 1000 else 1) False) (invalid_expire name) (\<lambda>at.
     then_ex (store_string c (argv ! 1) (argv ! 3) (Some at)) (pass r_ok)))))"

definition cmd_getset :: "ctx \<Rightarrow> str list \<Rightarrow> reply exec" where
  "cmd_getset c argv =
     exactly argv 3 (
     ref_ex c as_string (argv ! 1) (\<lambda>old.
     then_ex (store_string c (argv ! 1) (argv ! 2) None) (pass (r_bulk_or_nil old))))"

definition take_ex :: "ctx \<Rightarrow> str \<Rightarrow> unit exec" where
  "take_ex c key = change_ex (\<lambda>d. fst (db_take (ser_of c) key d))"

definition cmd_getdel :: "ctx \<Rightarrow> str list \<Rightarrow> reply exec" where
  "cmd_getdel c argv =
     exactly argv 2 (
     ref_ex c as_string (argv ! 1) (\<lambda>old.
     then_ex (when_ex (old \<noteq> None) (then_ex (take_ex c (argv ! 1)) (touch c (argv ! 1) ''del'')))
       (pass (r_bulk_or_nil old))))"

function getex_options :: "u64 \<Rightarrow> str list \<Rightarrow> nat \<Rightarrow> u64 option option \<Rightarrow> str + u64 option option" where
  "getex_options now argv i change =
     (if i < length argv then
        (let word = to_ascii_uppercase (argv ! i) in
         if word = ''PERSIST'' then getex_options now argv (i + 1) (Some None)
         else
           bind_sum (arg_or argv (i + 1)) (\<lambda>a.
           bind_sum (int_arg a) (\<lambda>n.
             if n \<le> 0 then Inl (invalid_expire ''getex'')
             else if word \<notin> {''EX'', ''PX'', ''EXAT'', ''PXAT''} then Inl syntax_error
             else
               (case expiry_at now n (if starts_with word ''E'' then 1000 else 1) (ends_with word ''AT'') of
                  None \<Rightarrow> Inl (invalid_expire ''getex'')
                | Some at \<Rightarrow> getex_options now argv (i + 2) (Some (Some at))))))
      else Inr change)"
  by pat_completeness auto

termination
  by (relation "measure (\<lambda>(now, argv, i, ch). length argv - i)") auto

declare getex_options.simps [simp del]

definition cmd_getex :: "ctx \<Rightarrow> str list \<Rightarrow> reply exec" where
  "cmd_getex c argv =
     need_args argv 2 (
     let key = argv ! 1 in
     ref_ex c as_string key (\<lambda>value.
     try_ex (getex_options (cx_now c) argv 2 None) (\<lambda>change.
     then_ex
       (case (change, value) of
          (Some expires, Some _) \<Rightarrow>
            bind_ex (entry_mut c key (\<lambda>e. (e\<lparr>ent_expires := expires\<rparr>, ()))) (\<lambda>found.
            when_ex (found \<noteq> None)
              (then_ex (deadline_ex key expires)
                (touch c key (if expires \<noteq> None then ''expire'' else ''persist''))))
        | _ \<Rightarrow> pass ())
       (pass (r_bulk_or_nil value)))))"

fun mget_loop :: "ctx \<Rightarrow> str list \<Rightarrow> nat \<Rightarrow> reply list \<Rightarrow> reply exec" where
  "mget_loop c [] bytes values = pass (R_Array values)"
| "mget_loop c (key # keys) bytes values =
     look_ex c key (\<lambda>e.
       case Option.bind e (\<lambda>e. as_string (ent_value e)) of
         Some s \<Rightarrow>
           need_ex (bytes + length s \<le> max_reply_bytes) reply_too_long
             (mget_loop c keys (bytes + length s) (values @ [R_Bulk s]))
       | None \<Rightarrow> mget_loop c keys bytes (values @ [R_Nil]))"

definition cmd_mget :: "ctx \<Rightarrow> str list \<Rightarrow> reply exec" where
  "cmd_mget c argv = need_args argv 2 (mget_loop c (tl argv) 0 [])"

fun any_exists :: "ctx \<Rightarrow> str list \<Rightarrow> (bool \<Rightarrow> 'a exec) \<Rightarrow> 'a exec" where
  "any_exists c [] k = k False"
| "any_exists c (key # keys) k = look_ex c key (\<lambda>e. if e \<noteq> None then k True else any_exists c keys k)"

fun store_all :: "ctx \<Rightarrow> (str \<times> str) list \<Rightarrow> unit exec" where
  "store_all c [] = pass ()"
| "store_all c ((key, value) # pairs) = then_ex (store_string c key value None) (store_all c pairs)"

definition cmd_mset :: "ctx \<Rightarrow> str \<Rightarrow> str list \<Rightarrow> reply exec" where
  "cmd_mset c name argv =
     need_ex (length argv \<ge> 3 \<and> odd (length argv)) (wrong_args name) (
     let pairs = pairs_of (tl argv);
         write =
           (case find (\<lambda>(_, v). length v > max_string) pairs of
              Some (key, _) \<Rightarrow>
                refuse (''ERR string for '' @ ru_debug (cx_rust c) key @ '' exceeds maximum allowed size (16 MiB)'')
            | None \<Rightarrow>
                admit_ex c (map fst pairs) (then_ex (store_all c pairs)
                  (pass (if name = ''MSET'' then r_ok else R_Int 1))))
     in if name = ''MSETNX'' then any_exists c (map fst pairs) (\<lambda>any. if any then pass (R_Int 0) else write)
        else write)"

definition cmd_append :: "ctx \<Rightarrow> str list \<Rightarrow> reply exec" where
  "cmd_append c argv =
     exactly argv 3 (
     let key = argv ! 1; suffix = argv ! 2 in
     ref_ex c as_string key (\<lambda>current.
     need_ex ((case current of None \<Rightarrow> 0 | Some s \<Rightarrow> length s) + length suffix \<le> max_string) string_too_long (
     bind_ex (string_mut c key True (\<lambda>s. (s @ suffix, length (s @ suffix)))) (\<lambda>len.
     some_ex len syntax_error (\<lambda>len.
     then_ex (touch c key ''append'') (pass (r_int len)))))))"

definition cmd_strlen :: "ctx \<Rightarrow> str list \<Rightarrow> reply exec" where
  "cmd_strlen c argv =
     exactly argv 2 (ref_ex c as_string (argv ! 1) (\<lambda>v.
       pass (r_int (case v of None \<Rightarrow> 0 | Some s \<Rightarrow> length s))))"

definition overflow_error :: str where
  "overflow_error = ''ERR increment or decrement would overflow''"

definition incr :: "ctx \<Rightarrow> str list \<Rightarrow> int \<Rightarrow> reply exec" where
  "incr c argv by =
     (let key = argv ! 1 in
      ref_ex c as_string key (\<lambda>v.
      try_ex (case v of Some s \<Rightarrow> int_arg s | None \<Rightarrow> Inr 0) (\<lambda>current.
      some_ex (checked_i64 (current + by)) overflow_error (\<lambda>n.
      then_ex (write_string_keep_ttl c key (show_int n))
     (then_ex (touch c key ''incrby'')
        (pass (R_Int n)))))))"

definition cmd_incr :: "ctx \<Rightarrow> str \<Rightarrow> str list \<Rightarrow> reply exec" where
  "cmd_incr c name argv =
     (let go = (\<lambda>by. if starts_with name ''D''
                     then some_ex (checked_i64 (- by)) not_int (incr c argv)
                     else incr c argv by)
      in if name \<in> {''INCR'', ''DECR''} then exactly argv 2 (go 1)
         else exactly argv 3 (try_ex (int_arg (argv ! 2)) go))"

definition not_finite :: str where
  "not_finite = ''ERR increment would produce NaN or Infinity''"

definition cmd_incrbyfloat :: "ctx \<Rightarrow> str list \<Rightarrow> reply exec" where
  "cmd_incrbyfloat c argv =
     exactly argv 3 (
     let key = argv ! 1 in
     try_ex (float_arg (argv ! 2)) (\<lambda>by.
     ref_ex c as_string key (\<lambda>v.
     try_ex (case v of Some s \<Rightarrow> float_arg s | None \<Rightarrow> Inr 0) (\<lambda>current.
     let n = f_add current by; text = float_text c n in
     need_ex (f_finite n) not_finite (
     then_ex (write_string_keep_ttl c key text)
    (then_ex (touch c key ''incrbyfloat'')
       (pass (R_Bulk text))))))))"

definition cmd_delifeq :: "ctx \<Rightarrow> str list \<Rightarrow> reply exec" where
  "cmd_delifeq c argv =
     exactly argv 3 (
     ref_ex c as_string (argv ! 1) (\<lambda>v.
     let matches = (v = Some (argv ! 2)) in
     then_ex (when_ex matches (then_ex (take_ex c (argv ! 1)) (touch c (argv ! 1) ''del'')))
       (pass (r_bool matches))))"

subsection \<open>SET\<close>

text \<open>\<open>SET key value [NX | XX | IFEQ current] [GET] [EX s | PX ms | EXAT ts | PXAT ms-ts | KEEPTTL]\<close>.\<close>

record set_options =
  so_nx :: bool
  so_xx :: bool
  so_get :: bool
  so_keep :: bool
  so_ifeq :: "str option"
  so_expires :: "u64 option"

function set_words :: "u64 \<Rightarrow> str list \<Rightarrow> nat \<Rightarrow> set_options \<Rightarrow> str + set_options" where
  "set_words now argv i so =
     (if i < length argv then
        (let word = to_ascii_uppercase (argv ! i) in
         if word = ''NX'' then set_words now argv (i + 1) (so\<lparr>so_nx := True\<rparr>)
         else if word = ''XX'' then set_words now argv (i + 1) (so\<lparr>so_xx := True\<rparr>)
         else if word = ''GET'' then set_words now argv (i + 1) (so\<lparr>so_get := True\<rparr>)
         else if word = ''KEEPTTL'' then set_words now argv (i + 1) (so\<lparr>so_keep := True\<rparr>)
         else if word \<in> {''EX'', ''PX'', ''EXAT'', ''PXAT''} then
           bind_sum (arg_or argv (i + 1)) (\<lambda>a.
           bind_sum (int_arg a) (\<lambda>n.
             if n \<le> 0 then Inl (invalid_expire ''set'')
             else
               (case expiry_at now n (if starts_with word ''E'' then 1000 else 1) (ends_with word ''AT'') of
                  None \<Rightarrow> Inl (invalid_expire ''set'')
                | Some at \<Rightarrow> set_words now argv (i + 2) (so\<lparr>so_expires := Some at\<rparr>))))
         else if word = ''IFEQ'' then
           bind_sum (arg_or argv (i + 1)) (\<lambda>a. set_words now argv (i + 2) (so\<lparr>so_ifeq := Some a\<rparr>))
         else Inl syntax_error)
      else Inr so)"
  by pat_completeness auto

termination
  by (relation "measure (\<lambda>(now, argv, i, so). length argv - i)") auto

declare set_words.simps [simp del]

definition set_conflict :: "set_options \<Rightarrow> bool" where
  "set_conflict so \<longleftrightarrow>
     length (filter id [so_nx so, so_xx so, so_ifeq so \<noteq> None]) > 1 \<or> (so_keep so \<and> so_expires so \<noteq> None)"

definition cmd_set :: "ctx \<Rightarrow> str list \<Rightarrow> reply exec" where
  "cmd_set c argv =
     need_args argv 3 (
     let key = argv ! 1; value = argv ! 2 in
     try_ex (set_words (cx_now c) argv 3 \<lparr>so_nx = False, so_xx = False, so_get = False, so_keep = False,
       so_ifeq = None, so_expires = None\<rparr>) (\<lambda>so.
     need_ex (\<not> set_conflict so) syntax_error (
     if \<not> (so_nx so \<or> so_xx so \<or> so_get so \<or> so_keep so \<or> so_ifeq so \<noteq> None)
     then then_ex (store_string c key value (so_expires so)) (pass r_ok)
     else
       look_ex c key (\<lambda>current.
       let old = Option.bind current (\<lambda>e. as_string (ent_value e)) in
       need_ex (\<not> (current \<noteq> None \<and> old = None \<and> (so_get so \<or> so_ifeq so \<noteq> None))) wrong_type (
       let allowed = (\<not> so_nx so \<or> current = None) \<and> (\<not> so_xx so \<or> current \<noteq> None) \<and>
             (case so_ifeq so of None \<Rightarrow> True | Some want \<Rightarrow> old = Some want);
           r = (if so_get so then r_bulk_or_nil old else if allowed then r_ok else R_Nil)
       in then_ex
            (when_ex allowed (store_string c key value
               (if so_keep so then Option.bind current ent_expires else so_expires so)))
            (pass r))))))"

end
