(* ===== verification/Cmd_Hashes.thy ===== *)
theory Cmd_Hashes
  imports Cmd_Strings
begin

text \<open>The commands on hashes and lists (\<open>src/src/commands.rs\<close>), blocking pops included.\<close>

subsection \<open>Hashes\<close>

definition coll_len :: "('a \<Rightarrow> nat) \<Rightarrow> 'a option \<Rightarrow> nat" where
  "coll_len len v = (case v of None \<Rightarrow> 0 | Some x \<Rightarrow> len x)"

fun put_fields :: "(str \<times> str) list \<Rightarrow> (str, str) btree_map \<Rightarrow> (str, str) btree_map \<times> nat" where
  "put_fields [] h = (h, 0)"
| "put_fields ((f, v) # pairs) h =
     (let (h', n) = put_fields pairs (bm_insert f v h) in (h', if bm_contains h f then n else n + 1))"

definition cmd_hset :: "ctx \<Rightarrow> str \<Rightarrow> str list \<Rightarrow> reply exec" where
  "cmd_hset c name argv =
     need_ex (length argv \<ge> 4 \<and> even (length argv)) (wrong_args name) (
     let key = argv ! 1; pairs = pairs_of (drop 2 argv) in
     ref_ex c as_hash key (\<lambda>h.
     room_for c (coll_len bm_len h) (length pairs) (
     bind_ex (hash_mut c key True (put_fields pairs)) (\<lambda>added.
     some_ex added syntax_error (\<lambda>added.
     then_ex (touch c key ''hset'')
       (pass (if name = ''HMSET'' then r_ok else r_int added)))))))"

definition cmd_hsetnx :: "ctx \<Rightarrow> str list \<Rightarrow> reply exec" where
  "cmd_hsetnx c argv =
     exactly argv 4 (
     let key = argv ! 1 in
     ref_ex c as_hash key (\<lambda>h.
     if (case h of None \<Rightarrow> False | Some h \<Rightarrow> bm_contains h (argv ! 2)) then pass (R_Int 0)
     else
       room_for c (coll_len bm_len h) 1 (
       bind_ex (hash_mut c key True (\<lambda>h. (bm_insert (argv ! 2) (argv ! 3) h, ()))) (\<lambda>u.
       some_ex u syntax_error (\<lambda>_.
       then_ex (touch c key ''hset'') (pass (R_Int 1)))))))"

definition cmd_hget :: "ctx \<Rightarrow> str list \<Rightarrow> reply exec" where
  "cmd_hget c argv =
     exactly argv 3 (ref_ex c as_hash (argv ! 1) (\<lambda>h.
       pass (r_bulk_or_nil (Option.bind h (\<lambda>h. bm_get h (argv ! 2))))))"

fun hmget_from :: "(str, str) btree_map option \<Rightarrow> str list \<Rightarrow> nat \<Rightarrow> str + reply list" where
  "hmget_from h [] bytes = Inr []"
| "hmget_from h (field # fs) bytes =
     (case Option.bind h (\<lambda>h. bm_get h field) of
        Some v \<Rightarrow>
          if bytes + length v > max_reply_bytes then Inl reply_too_long
          else bind_sum (hmget_from h fs (bytes + length v)) (\<lambda>rs. Inr (R_Bulk v # rs))
      | None \<Rightarrow> bind_sum (hmget_from h fs bytes) (\<lambda>rs. Inr (R_Nil # rs)))"

definition cmd_hmget :: "ctx \<Rightarrow> str list \<Rightarrow> reply exec" where
  "cmd_hmget c argv =
     need_args argv 3 (ref_ex c as_hash (argv ! 1) (\<lambda>h.
       try_ex (hmget_from h (drop 2 argv) 0) (\<lambda>rs. pass (R_Array rs))))"

fun hgetall_from :: "(str \<times> str) list \<Rightarrow> nat \<Rightarrow> str + (str \<times> reply) list" where
  "hgetall_from [] bytes = Inr []"
| "hgetall_from ((f, v) # pairs) bytes =
     (let bytes = bytes + (length f + length v + 8)
      in if bytes > max_reply_bytes then Inl reply_too_long
         else bind_sum (hgetall_from pairs bytes) (\<lambda>rs. Inr ((f, R_Bulk v) # rs)))"

definition entries_of :: "('k::linorder, 'v) btree_map option \<Rightarrow> ('k \<times> 'v) list" where
  "entries_of h = (case h of None \<Rightarrow> [] | Some h \<Rightarrow> bm_entries h)"

definition cmd_hgetall :: "ctx \<Rightarrow> str list \<Rightarrow> reply exec" where
  "cmd_hgetall c argv =
     exactly argv 2 (ref_ex c as_hash (argv ! 1) (\<lambda>h.
       try_ex (hgetall_from (entries_of h) 0) (\<lambda>rs. pass (R_Map rs))))"

text \<open>Removing names from a map or a set one by one, counting those that were there.\<close>

fun remove_each :: "str list \<Rightarrow> (str, 'v) btree_map \<Rightarrow> (str, 'v) btree_map \<times> nat" where
  "remove_each [] m = (m, 0)"
| "remove_each (k # ks) m =
     (let (m', n) = remove_each ks (bm_remove k m) in (m', if bm_contains m k then n + 1 else n))"

definition cmd_hdel :: "ctx \<Rightarrow> str list \<Rightarrow> reply exec" where
  "cmd_hdel c argv =
     need_args argv 3 (
     let key = argv ! 1 in
     bind_ex (hash_mut c key False (remove_each (drop 2 argv))) (\<lambda>removed.
     case removed of
       None \<Rightarrow> pass (R_Int 0)
     | Some removed \<Rightarrow>
         then_ex (prune_ex c key) (then_ex (when_ex (removed > 0) (touch c key ''hdel''))
           (pass (r_int removed)))))"

definition cmd_hexists :: "ctx \<Rightarrow> str list \<Rightarrow> reply exec" where
  "cmd_hexists c argv =
     exactly argv 3 (ref_ex c as_hash (argv ! 1) (\<lambda>h.
       pass (r_bool (case h of None \<Rightarrow> False | Some h \<Rightarrow> bm_contains h (argv ! 2)))))"

definition cmd_hlen :: "ctx \<Rightarrow> str list \<Rightarrow> reply exec" where
  "cmd_hlen c argv = exactly argv 2 (ref_ex c as_hash (argv ! 1) (\<lambda>h. pass (r_int (coll_len bm_len h))))"

definition cmd_hkeys :: "ctx \<Rightarrow> str \<Rightarrow> str list \<Rightarrow> reply exec" where
  "cmd_hkeys c name argv =
     exactly argv 2 (ref_ex c as_hash (argv ! 1) (\<lambda>h.
       collect_within (map (\<lambda>(f, v). R_Bulk (if name = ''HKEYS'' then f else v)) (entries_of h))))"

definition hash_next ::
  "ctx \<Rightarrow> str \<Rightarrow> str option \<Rightarrow> str \<Rightarrow> str + str \<times> reply" where
  "hash_next c name existing by =
     (if name = ''HINCRBY'' then
        bind_sum (case existing of
            Some v \<Rightarrow> (case int_arg v of Inl _ \<Rightarrow> Inl ''ERR hash value is not an integer'' | Inr i \<Rightarrow> Inr i)
          | None \<Rightarrow> Inr 0) (\<lambda>current.
        bind_sum (int_arg by) (\<lambda>by.
        case checked_i64 (current + by) of
          None \<Rightarrow> Inl overflow_error
        | Some n \<Rightarrow> Inr (show_int n, R_Int n)))
      else
        bind_sum (case existing of
            Some v \<Rightarrow> (case float_arg v of Inl _ \<Rightarrow> Inl ''ERR hash value is not a float'' | Inr x \<Rightarrow> Inr x)
          | None \<Rightarrow> Inr 0) (\<lambda>current.
        bind_sum (float_arg by) (\<lambda>by.
        let n = f_add current by in
        if \<not> f_finite n then Inl not_finite
        else Inr (float_text c n, R_Bulk (float_text c n)))))"

definition cmd_hincrby :: "ctx \<Rightarrow> str \<Rightarrow> str list \<Rightarrow> reply exec" where
  "cmd_hincrby c name argv =
     exactly argv 4 (
     let key = argv ! 1; field = argv ! 2 in
     ref_ex c as_hash key (\<lambda>current.
     let existing = Option.bind current (\<lambda>h. bm_get h field);
         go = try_ex (hash_next c name existing (argv ! 3)) (\<lambda>(text, r).
           bind_ex (hash_mut c key True (\<lambda>h. (bm_insert field text h, ()))) (\<lambda>u.
           some_ex u syntax_error (\<lambda>_.
           then_ex (touch c key (if name = ''HINCRBY'' then ''hincrby'' else ''hincrbyfloat''))
             (pass r))))
     in if existing = None then room_for c (coll_len bm_len current) 1 go else go))"

subsection \<open>Lists\<close>

definition cmd_push :: "ctx \<Rightarrow> str \<Rightarrow> str list \<Rightarrow> reply exec" where
  "cmd_push c name argv =
     need_args argv 3 (
     let key = argv ! 1; items = drop 2 argv; left = starts_with name ''L'' in
     ref_ex c as_list key (\<lambda>current.
     if ends_with name ''X'' \<and> current = None then pass (R_Int 0)
     else
       room_for c (coll_len length current) (length items) (
       bind_ex (list_mut c key True (\<lambda>l.
           let l = (if left then fold (#) items l else l @ items) in (l, length l))) (\<lambda>len.
       some_ex len syntax_error (\<lambda>len.
       then_ex (touch c key (if left then ''lpush'' else ''rpush''))
         (pass (r_int len)))))))"

text \<open>\<open>pop_front\<close> or \<open>pop_back\<close>, at most \<open>n\<close> times: what is popped, in order, and what stays.\<close>

definition pop_side :: "bool \<Rightarrow> nat \<Rightarrow> 'a list \<Rightarrow> 'a list \<times> 'a list" where
  "pop_side left n l =
     (if left then (take n l, drop n l) else (take n (rev l), take (length l - n) l))"

definition optional_count :: "str list \<Rightarrow> nat \<Rightarrow> str + nat option" where
  "optional_count argv i =
     (case arg_at argv i of
        None \<Rightarrow> Inr None
      | Some a \<Rightarrow> (case count_arg a of Inl e \<Rightarrow> Inl e | Inr n \<Rightarrow> Inr (Some n)))"

definition cmd_pop :: "ctx \<Rightarrow> str \<Rightarrow> str list \<Rightarrow> reply exec" where
  "cmd_pop c name argv =
     need_ex (2 \<le> length argv \<and> length argv \<le> 3) (wrong_args name) (
     let key = argv ! 1; left = (name = ''LPOP'') in
     try_ex (optional_count argv 2) (\<lambda>wanted.
     let n = (case wanted of None \<Rightarrow> 1 | Some n \<Rightarrow> n) in
     bind_ex (list_mut c key False (\<lambda>l. let (popped, rest) = pop_side left n l in (rest, popped))) (\<lambda>popped.
     case popped of
       None \<Rightarrow> pass R_Nil
     | Some popped \<Rightarrow>
         then_ex (prune_ex c key)
        (then_ex (when_ex (popped \<noteq> []) (touch c key (if left then ''lpop'' else ''rpop'')))
           (pass (case wanted of
                    Some _ \<Rightarrow> r_bulks popped
                  | None \<Rightarrow> (case popped of [] \<Rightarrow> R_Nil | _ \<Rightarrow> R_Bulk (List.last popped))))))))"

definition cmd_llen :: "ctx \<Rightarrow> str list \<Rightarrow> reply exec" where
  "cmd_llen c argv = exactly argv 2 (ref_ex c as_list (argv ! 1) (\<lambda>l. pass (r_int (coll_len length l))))"

definition cmd_lrange :: "ctx \<Rightarrow> str list \<Rightarrow> reply exec" where
  "cmd_lrange c argv =
     exactly argv 4 (
     try_ex (int_arg (argv ! 2)) (\<lambda>start.
     try_ex (int_arg (argv ! 3)) (\<lambda>stop.
     ref_ex c as_list (argv ! 1) (\<lambda>l.
     case Option.bind l (\<lambda>l. map_option (Pair l) (range_bounds start stop (length l))) of
       None \<Rightarrow> pass (R_Array [])
     | Some (l, (a, b)) \<Rightarrow> collect_within (map R_Bulk (take (b + 1 - a) (drop a l)))))))"

definition list_index :: "int \<Rightarrow> 'a list \<Rightarrow> nat option" where
  "list_index index l =
     (let i = (if index < 0 then int (length l) + index else index)
      in if 0 \<le> i \<and> i < int (length l) then Some (nat i) else None)"

definition cmd_lindex :: "ctx \<Rightarrow> str list \<Rightarrow> reply exec" where
  "cmd_lindex c argv =
     exactly argv 3 (
     try_ex (int_arg (argv ! 2)) (\<lambda>index.
     ref_ex c as_list (argv ! 1) (\<lambda>l.
     pass (r_bulk_or_nil (Option.bind l (\<lambda>l. map_option (nth l) (list_index index l)))))))"

definition cmd_lset :: "ctx \<Rightarrow> str list \<Rightarrow> reply exec" where
  "cmd_lset c argv =
     exactly argv 4 (
     let key = argv ! 1 in
     try_ex (int_arg (argv ! 2)) (\<lambda>index.
     bind_ex (list_mut c key False (\<lambda>l.
         case list_index index l of Some i \<Rightarrow> (l[i := argv ! 3], True) | None \<Rightarrow> (l, False))) (\<lambda>slot.
     some_ex slot ''ERR no such key'' (\<lambda>there.
     need_ex there ''ERR index out of range'' (
     then_ex (touch c key ''lset'') (pass r_ok))))))"

text \<open>The first \<open>most\<close> occurrences of a value taken out, and how many there were.\<close>

fun remove_some :: "nat \<Rightarrow> 'a \<Rightarrow> 'a list \<Rightarrow> 'a list \<times> nat" where
  "remove_some most v [] = ([], 0)"
| "remove_some most v (x # xs) =
     (if most = 0 then (x # xs, 0)
      else if x = v then (let (ys, n) = remove_some (most - 1) v xs in (ys, n + 1))
      else (let (ys, n) = remove_some most v xs in (x # ys, n)))"

definition cmd_lrem :: "ctx \<Rightarrow> str list \<Rightarrow> reply exec" where
  "cmd_lrem c argv =
     exactly argv 4 (
     let key = argv ! 1; value = argv ! 3 in
     try_ex (int_arg (argv ! 2)) (\<lambda>limit.
     let most = (if limit = 0 then usize_max else nat \<bar>limit\<bar>) in
     bind_ex (list_mut c key False (\<lambda>l.
         if limit \<ge> 0 then remove_some most value l
         else (let (ys, n) = remove_some most value (rev l) in (rev ys, n)))) (\<lambda>removed.
     case removed of
       None \<Rightarrow> pass (R_Int 0)
     | Some removed \<Rightarrow>
         then_ex (prune_ex c key)
        (then_ex (when_ex (removed > 0) (touch c key ''lrem''))
           (pass (r_int removed))))))"

definition cmd_ltrim :: "ctx \<Rightarrow> str list \<Rightarrow> reply exec" where
  "cmd_ltrim c argv =
     exactly argv 4 (
     let key = argv ! 1 in
     try_ex (int_arg (argv ! 2)) (\<lambda>start.
     try_ex (int_arg (argv ! 3)) (\<lambda>stop.
     bind_ex (list_mut c key False (\<lambda>l.
         let kept = (case range_bounds start stop (length l) of
                       Some (a, b) \<Rightarrow> drop a (take (b + 1) l)
                     | None \<Rightarrow> [])
         in (kept, length kept \<noteq> length l))) (\<lambda>changed.
     case changed of
       None \<Rightarrow> pass r_ok
     | Some changed \<Rightarrow>
         then_ex (prune_ex c key)
        (then_ex (when_ex changed (touch c key ''ltrim''))
           (pass r_ok))))))"

fun position_of :: "'a \<Rightarrow> 'a list \<Rightarrow> nat option" where
  "position_of v [] = None"
| "position_of v (x # xs) = (if x = v then Some 0 else map_option Suc (position_of v xs))"

definition insert_at :: "nat \<Rightarrow> 'a \<Rightarrow> 'a list \<Rightarrow> 'a list" where
  "insert_at i v l = take i l @ v # drop i l"

text \<open>The list is looked through and the limit checked before anything is put into it.\<close>

definition cmd_linsert :: "ctx \<Rightarrow> str list \<Rightarrow> reply exec" where
  "cmd_linsert c argv =
     exactly argv 5 (
     let key = argv ! 1; pivot = argv ! 3; value = argv ! 4 in
     try_ex (if eq_ignore_ascii_case (argv ! 2) ''BEFORE'' then Inr True
             else if eq_ignore_ascii_case (argv ! 2) ''AFTER'' then Inr False
             else Inl syntax_error) (\<lambda>ahead.
     ref_ex c as_list key (\<lambda>l.
     bind_ex (list_mut c key False (\<lambda>l.
         case position_of pivot l of
           None \<Rightarrow> (l, None)
         | Some at \<Rightarrow>
             (let grown = insert_at (if ahead then at else at + 1) value l
              in (if cx_replay c \<or> length l + 1 \<le> cx_max_elements c then grown else l,
                  Some (length grown))))) (\<lambda>found.
     case found of
       None \<Rightarrow> pass (R_Int 0)
     | Some None \<Rightarrow> pass (R_Int (- 1))
     | Some (Some len) \<Rightarrow>
         room_for c (coll_len length l) 1 (
         then_ex (touch c key ''linsert'') (pass (r_int len)))))))"

definition side_arg :: "str \<Rightarrow> str + bool" where
  "side_arg a =
     (if eq_ignore_ascii_case a ''LEFT'' then Inr True
      else if eq_ignore_ascii_case a ''RIGHT'' then Inr False
      else Inl syntax_error)"

definition push_side :: "bool \<Rightarrow> 'a \<Rightarrow> 'a list \<Rightarrow> 'a list" where
  "push_side left v l = (if left then v # l else l @ [v])"

definition lmove :: "ctx \<Rightarrow> str \<Rightarrow> str \<Rightarrow> bool \<Rightarrow> bool \<Rightarrow> reply exec" where
  "lmove c src dst from_left to_left =
     ref_ex c as_list src (\<lambda>source.
     case source of
       None \<Rightarrow> pass R_Nil
     | Some source \<Rightarrow>
         ref_ex c as_list dst (\<lambda>dest.
         if source = [] then pass R_Nil
         else
           (let go =
              bind_ex (list_mut c src False (\<lambda>l.
                  case pop_side from_left 1 l of (x # _, rest) \<Rightarrow> (rest, Some x) | _ \<Rightarrow> (l, None))) (\<lambda>popped.
              some_ex popped syntax_error (\<lambda>item.
              some_ex item syntax_error (\<lambda>item.
              then_ex (when_ex (src \<noteq> dst) (prune_ex c src))
             (then_ex (when_ex (dest = None) (change_ex (db_insert (ser_of c) dst (entry_new (V_List [])))))
             (bind_ex (list_mut c dst False (\<lambda>l. (push_side to_left item l, ()))) (\<lambda>u.
              some_ex u syntax_error (\<lambda>_.
              then_ex (touch c src (if from_left then ''lpop'' else ''rpop''))
             (then_ex (touch c dst (if to_left then ''lpush'' else ''rpush''))
                (pass (R_Bulk item))))))))))
            in if src \<noteq> dst then
                 room_for c (coll_len length dest) 1
                   (if dest = None \<and> length source > 1 then admit_ex c [dst] go else go)
               else go)))"

definition cmd_lmove :: "ctx \<Rightarrow> str list \<Rightarrow> reply exec" where
  "cmd_lmove c argv =
     exactly argv 5 (
     try_ex (side_arg (argv ! 3)) (\<lambda>from_left.
     try_ex (side_arg (argv ! 4)) (\<lambda>to_left.
     lmove c (argv ! 1) (argv ! 2) from_left to_left)))"

definition cmd_rpoplpush :: "ctx \<Rightarrow> str list \<Rightarrow> reply exec" where
  "cmd_rpoplpush c argv = exactly argv 3 (lmove c (argv ! 1) (argv ! 2) False True)"

fun blpop_loop :: "ctx \<Rightarrow> bool \<Rightarrow> str list \<Rightarrow> reply exec \<Rightarrow> reply exec" where
  "blpop_loop c left [] otherwise = otherwise"
| "blpop_loop c left (key # keys) otherwise =
     bind_ex (list_mut c key False (\<lambda>l.
         case pop_side left 1 l of (x # _, rest) \<Rightarrow> (rest, Some x) | _ \<Rightarrow> (l, None))) (\<lambda>popped.
     case Option.bind popped id of
       Some item \<Rightarrow>
         then_ex (prune_ex c key)
        (then_ex (touch c key (if left then ''lpop'' else ''rpop''))
        (then_ex (propagate [if left then ''LPOP'' else ''RPOP'', key])
           (pass (r_bulks [key, item]))))
     | None \<Rightarrow> blpop_loop c left keys otherwise)"

definition cmd_blpop :: "ctx \<Rightarrow> bool \<Rightarrow> str list \<Rightarrow> reply exec" where
  "cmd_blpop c left argv =
     need_args argv 3 (
     try_ex (timeout_ms (List.last argv)) (\<lambda>timeout.
     blpop_loop c left (butlast (tl argv)) (then_ex (block_ex c argv timeout) (pass R_Nil))))"

definition side_name :: "bool \<Rightarrow> str" where
  "side_name left = (if left then ''LEFT'' else ''RIGHT'')"

definition cmd_blmove :: "ctx \<Rightarrow> str list \<Rightarrow> reply exec" where
  "cmd_blmove c argv =
     exactly argv 6 (
     try_ex (side_arg (argv ! 3)) (\<lambda>from_left.
     try_ex (side_arg (argv ! 4)) (\<lambda>to_left.
     try_ex (timeout_ms (argv ! 5)) (\<lambda>timeout.
     let src = argv ! 1; dst = argv ! 2 in
     ref_ex c as_list src (\<lambda>l.
     if l \<noteq> None \<and> l \<noteq> Some [] then
       bind_ex (lmove c src dst from_left to_left) (\<lambda>r.
       then_ex (propagate [''LMOVE'', src, dst, side_name from_left, side_name to_left])
         (pass r))
     else then_ex (block_ex c argv timeout) (pass R_Nil))))))"

end
