(* ===== verification/Cmd_Sets.thy ===== *)
theory Cmd_Sets
  imports Cmd_Hashes
begin

text \<open>The commands on sets and sorted sets (\<open>src/src/commands.rs\<close>).\<close>

subsection \<open>Sets\<close>

fun add_each :: "str list \<Rightarrow> str btree_set \<Rightarrow> str btree_set \<times> nat" where
  "add_each [] m = (m, 0)"
| "add_each (k # ks) m =
     (let (m', n) = add_each ks (bs_insert k m) in (m', if bm_contains m k then n else n + 1))"

definition set_has :: "str btree_set option \<Rightarrow> str \<Rightarrow> bool" where
  "set_has v m = (case v of None \<Rightarrow> False | Some s \<Rightarrow> bm_contains s m)"

definition cmd_sadd :: "ctx \<Rightarrow> str list \<Rightarrow> reply exec" where
  "cmd_sadd c argv =
     need_args argv 3 (
     let key = argv ! 1; members = drop 2 argv in
     ref_ex c as_set key (\<lambda>current.
     room_for c (coll_len bm_len current) (bm_len (bs_of_list (filter (\<lambda>m. \<not> set_has current m) members))) (
     bind_ex (set_mut c key True (add_each members)) (\<lambda>added.
     some_ex added syntax_error (\<lambda>added.
     then_ex (when_ex (added > 0) (touch c key ''sadd''))
    (then_ex (prune_ex c key) (pass (r_int added))))))))"

definition cmd_srem :: "ctx \<Rightarrow> str list \<Rightarrow> reply exec" where
  "cmd_srem c argv =
     need_args argv 3 (
     let key = argv ! 1 in
     bind_ex (set_mut c key False (remove_each (drop 2 argv))) (\<lambda>removed.
     case removed of
       None \<Rightarrow> pass (R_Int 0)
     | Some removed \<Rightarrow>
         then_ex (prune_ex c key)
        (then_ex (when_ex (removed > 0) (touch c key ''srem''))
           (pass (r_int removed)))))"

definition elems_of :: "str btree_set option \<Rightarrow> str list" where
  "elems_of v = (case v of None \<Rightarrow> [] | Some s \<Rightarrow> bs_list s)"

definition cmd_smembers :: "ctx \<Rightarrow> str list \<Rightarrow> reply exec" where
  "cmd_smembers c argv =
     exactly argv 2 (ref_ex c as_set (argv ! 1) (\<lambda>v. collect_within (map R_Bulk (elems_of v))))"

definition cmd_sismember :: "ctx \<Rightarrow> str list \<Rightarrow> reply exec" where
  "cmd_sismember c argv = exactly argv 3 (ref_ex c as_set (argv ! 1) (\<lambda>v. pass (r_bool (set_has v (argv ! 2)))))"

definition cmd_smismember :: "ctx \<Rightarrow> str list \<Rightarrow> reply exec" where
  "cmd_smismember c argv =
     need_args argv 3 (ref_ex c as_set (argv ! 1) (\<lambda>v.
       pass (R_Array (map (\<lambda>m. r_bool (set_has v m)) (drop 2 argv)))))"

definition cmd_scard :: "ctx \<Rightarrow> str list \<Rightarrow> reply exec" where
  "cmd_scard c argv = exactly argv 2 (ref_ex c as_set (argv ! 1) (\<lambda>v. pass (r_int (coll_len bm_len v))))"

text \<open>
  \<open>sample_distinct\<close>: a partial shuffle of all indexes, or drawing until enough are distinct. The
  second loop ends when the draws it is given hold enough of them.
\<close>

fun shuffle_loop :: "nat \<Rightarrow> nat \<Rightarrow> nat list \<Rightarrow> (nat list \<Rightarrow> 'a exec) \<Rightarrow> 'a exec" where
  "shuffle_loop 0 i idx k = k idx"
| "shuffle_loop (Suc m) i idx k =
     draw_ex (length idx - i) (\<lambda>r. shuffle_loop m (i + 1) (idx[i := idx ! (i + r), i + r := idx ! i]) k)"

fun sample_loop :: "nat \<Rightarrow> nat \<Rightarrow> nat list \<Rightarrow> u64 list \<Rightarrow> (nat list \<times> u64 list) option" where
  "sample_loop len n picked [] = (if length picked < n then None else Some (picked, []))"
| "sample_loop len n picked (h # hs) =
     (if length picked < n then
        (let i = random_below h len
         in sample_loop len n (if i \<in> set picked then picked else picked @ [i]) hs)
      else Some (picked, h # hs))"

definition sample_distinct :: "nat \<Rightarrow> nat \<Rightarrow> (nat list \<Rightarrow> 'a exec) \<Rightarrow> 'a exec" where
  "sample_distinct len n k =
     (let n = min n len in
      if n * 2 \<ge> len then shuffle_loop n 0 [0..<len] (\<lambda>idx. k (take n idx))
      else (\<lambda>s. case sample_loop len n [] (ex_draws s) of
                  None \<Rightarrow> (s\<lparr>ex_draws := []\<rparr>, Inl Starved)
                | Some (picked, hs) \<Rightarrow> k picked (s\<lparr>ex_draws := hs\<rparr>)))"

text \<open>The walk over a set that picks the members at the positions given, in order.\<close>

fun pick_at :: "nat \<Rightarrow> 'a list \<Rightarrow> nat list \<Rightarrow> 'a list" where
  "pick_at i (x # xs) (p # ps) = (if p = i then x # pick_at (i + 1) xs ps else pick_at (i + 1) xs (p # ps))"
| "pick_at i _ _ = []"

fun pick_repeated :: "nat \<Rightarrow> str list \<Rightarrow> nat \<Rightarrow> str list \<Rightarrow> (str list \<Rightarrow> 'a exec) \<Rightarrow> 'a exec" where
  "pick_repeated 0 members bytes picked k = k picked"
| "pick_repeated (Suc m) members bytes picked k =
     draw_ex (length members) (\<lambda>i.
       need_ex (bytes + length (members ! i) \<le> max_reply_bytes) reply_too_long
         (pick_repeated m members (bytes + length (members ! i)) (picked @ [members ! i]) k))"

definition optional_int :: "str list \<Rightarrow> nat \<Rightarrow> str + int option" where
  "optional_int argv i =
     (case arg_at argv i of
        None \<Rightarrow> Inr None
      | Some a \<Rightarrow> (case int_arg a of Inl e \<Rightarrow> Inl e | Inr n \<Rightarrow> Inr (Some n)))"

definition pick_members ::
  "ctx \<Rightarrow> bool \<Rightarrow> int option \<Rightarrow> str btree_set \<Rightarrow> (str list \<Rightarrow> 'a exec) \<Rightarrow> 'a exec" where
  "pick_members c pop wanted v k =
     (let members = bs_list v; len = length members in
      case wanted of
        None \<Rightarrow> draw_ex len (\<lambda>i. k (if i < len then [members ! i] else []))
      | Some n \<Rightarrow>
          if n \<ge> 0 \<or> pop then
            need_ex (n \<ge> 0) ''ERR value is out of range, must be positive''
              (sample_distinct len (min (nat n) len) (\<lambda>positions. k (pick_at 0 members (sort positions))))
          else
            need_ex (nat (- n) \<le> cx_max_elements c)
              (''ERR count exceeds the element limit ('' @ show_nat (cx_max_elements c) @ '')'')
              (pick_repeated (nat (- n)) members 0 [] k))"

definition cmd_spop :: "ctx \<Rightarrow> bool \<Rightarrow> str list \<Rightarrow> reply exec" where
  "cmd_spop c pop argv =
     need_ex (2 \<le> length argv \<and> length argv \<le> 3) (wrong_args (argv ! 0)) (
     let key = argv ! 1 in
     try_ex (optional_int argv 2) (\<lambda>wanted.
     ref_ex c as_set key (\<lambda>v.
     case v of
       None \<Rightarrow> pass (if wanted \<noteq> None then R_Array [] else R_Nil)
     | Some v \<Rightarrow>
         pick_members c pop wanted v (\<lambda>picked.
         then_ex
           (when_ex (pop \<and> picked \<noteq> [])
             (bind_ex (set_mut c key False (\<lambda>v. (fst (remove_each picked v), ()))) (\<lambda>u.
              some_ex u syntax_error (\<lambda>_.
              then_ex (prune_ex c key)
             (then_ex (touch c key ''spop'')
                (propagate ([''SREM'', key] @ picked)))))))
           (pass (case wanted of
                    None \<Rightarrow> R_Bulk (case picked of [] \<Rightarrow> [] | m # _ \<Rightarrow> m)
                  | Some _ \<Rightarrow> r_bulks picked))))))"

text \<open>
  The sets named by keys, read where they are. Two references are the same set exactly when they
  name the same key; the empty set that stands for a missing first one is no key's.
\<close>

fun named_sets ::
  "ctx \<Rightarrow> str list \<Rightarrow> (str \<times> str btree_set option) list \<Rightarrow> ((str \<times> str btree_set option) list \<Rightarrow> 'a exec) \<Rightarrow> 'a exec" where
  "named_sets c [] named k = k named"
| "named_sets c (key # keys) named k = ref_ex c as_set key (\<lambda>v. named_sets c keys (named @ [(key, v)]) k)"

type_synonym set_place = "str option \<times> str btree_set"

definition first_set :: "(str \<times> str btree_set option) list \<Rightarrow> set_place" where
  "first_set named =
     (case hd named of (key, Some v) \<Rightarrow> (Some key, v) | (key, None) \<Rightarrow> (None, bm_empty))"

fun other_sets :: "(str \<times> str btree_set option) list \<Rightarrow> set_place list \<Rightarrow> set_place list" where
  "other_sets [] seen = seen"
| "other_sets ((key, None) # named) seen = other_sets named seen"
| "other_sets ((key, Some v) # named) seen =
     other_sets named (if list_ex (\<lambda>(p, _). p = Some key) seen then seen else seen @ [(Some key, v)])"

fun union_loop :: "str list \<Rightarrow> str btree_set \<Rightarrow> nat \<Rightarrow> str + str btree_set \<times> nat" where
  "union_loop [] u bytes = Inr (u, bytes)"
| "union_loop (m # ms) u bytes =
     (if bm_contains u m then union_loop ms u bytes
      else if bytes + length m > max_reply_bytes then Inl reply_too_long
      else union_loop ms (bs_insert m u) (bytes + length m))"

fun union_sets :: "set_place list \<Rightarrow> str btree_set \<Rightarrow> nat \<Rightarrow> str + str btree_set" where
  "union_sets [] u bytes = Inr u"
| "union_sets ((p, v) # vs) u bytes =
     bind_sum (union_loop (bs_list v) u bytes) (\<lambda>(u, bytes). union_sets vs u bytes)"

definition set_members :: "str \<Rightarrow> (str \<times> str btree_set option) list \<Rightarrow> str + str list" where
  "set_members name named =
     (let first = first_set named; others = other_sets (tl named) [];
          apart = filter (\<lambda>(p, _). p \<noteq> fst first) others in
      if name = ''SINTER'' then
        (if list_ex (\<lambda>(_, v). v = None) named then Inr []
         else
           (let by_size = sort_key (\<lambda>(_, v). bm_len v) (first # apart)
            in Inr (filter (\<lambda>m. list_all (\<lambda>(_, v). bm_contains v m) (tl by_size)) (bs_list (snd (hd by_size))))))
      else if name = ''SUNION'' then
        bind_sum (union_sets (first # apart) bm_empty 0) (\<lambda>u. Inr (bs_list u))
      else if list_ex (\<lambda>(p, _). p = fst first) others then Inr []
      else Inr (filter (\<lambda>m. \<not> list_ex (\<lambda>(_, v). bm_contains v m) others) (bs_list (snd first))))"

definition cmd_sets :: "ctx \<Rightarrow> str \<Rightarrow> str list \<Rightarrow> reply exec" where
  "cmd_sets c name argv =
     need_args argv 2 (
     named_sets c (tl argv) [] (\<lambda>named.
     try_ex (set_members name named) (\<lambda>members. collect_within (map R_Bulk members))))"

definition cmd_smove :: "ctx \<Rightarrow> str list \<Rightarrow> reply exec" where
  "cmd_smove c argv =
     exactly argv 4 (
     let src = argv ! 1; dst = argv ! 2; member = argv ! 3 in
     ref_ex c as_set src (\<lambda>source.
     case source of
       None \<Rightarrow> pass (R_Int 0)
     | Some source \<Rightarrow>
         ref_ex c as_set dst (\<lambda>dest.
         if src = dst \<or> \<not> bm_contains source member then pass (r_bool (bm_contains source member))
         else
           (let creating = (dest = None);
                go =
                  bind_ex (set_mut c src False (\<lambda>v. (bs_remove member v, ()))) (\<lambda>u.
                  some_ex u syntax_error (\<lambda>_.
                  then_ex (prune_ex c src)
                 (then_ex (when_ex creating (change_ex (db_insert (ser_of c) dst (entry_new (V_Set bm_empty)))))
                 (bind_ex (set_mut c dst False (\<lambda>v. (bs_insert member v, ()))) (\<lambda>u.
                  some_ex u syntax_error (\<lambda>_.
                  then_ex (touch c src ''srem'')
                 (then_ex (touch c dst ''sadd'') (pass (R_Int 1)))))))))
            in if set_has dest member then go
               else room_for c (coll_len bm_len dest) 1
                 (if creating \<and> bm_len source > 1 then admit_ex c [dst] go else go)))))"

subsection \<open>Sorted sets\<close>

record zadd_flags =
  za_nx :: bool
  za_xx :: bool
  za_gt :: bool
  za_lt :: bool
  za_ch :: bool
  za_incr :: bool

fun zadd_words :: "str list \<Rightarrow> zadd_flags \<Rightarrow> zadd_flags \<times> str list" where
  "zadd_words [] fl = (fl, [])"
| "zadd_words (w # ws) fl =
     (let word = to_ascii_uppercase w in
      if word = ''NX'' then zadd_words ws (fl\<lparr>za_nx := True\<rparr>)
      else if word = ''XX'' then zadd_words ws (fl\<lparr>za_xx := True\<rparr>)
      else if word = ''GT'' then zadd_words ws (fl\<lparr>za_gt := True\<rparr>)
      else if word = ''LT'' then zadd_words ws (fl\<lparr>za_lt := True\<rparr>)
      else if word = ''CH'' then zadd_words ws (fl\<lparr>za_ch := True\<rparr>)
      else if word = ''INCR'' then zadd_words ws (fl\<lparr>za_incr := True\<rparr>)
      else (fl, w # ws))"

fun score_pairs :: "(str \<times> str) list \<Rightarrow> str + (f64 \<times> str) list" where
  "score_pairs [] = Inr []"
| "score_pairs ((x, m) # pairs) =
     bind_sum (float_arg x) (\<lambda>x. bind_sum (score_pairs pairs) (\<lambda>rs. Inr ((x, m) # rs)))"

record zadd_counts =
  zc_added :: nat
  zc_changed :: nat
  zc_last :: "f64 option"

text \<open>The loop over the pairs; an error leaves what the pairs before it did.\<close>

fun zadd_loop :: "zadd_flags \<Rightarrow> (f64 \<times> str) list \<Rightarrow> zset \<Rightarrow> zadd_counts \<Rightarrow> zset \<times> (str + zadd_counts)" where
  "zadd_loop fl [] z zc = (z, Inr zc)"
| "zadd_loop fl ((given, member) # pairs) z zc =
     (let old = bm_get (zs_scores z) member;
          sc = (if za_incr fl then f_add (case old of None \<Rightarrow> 0 | Some x \<Rightarrow> x) given else given) in
      if f_nan sc then (z, Inl ''ERR resulting score is not a number (NaN)'')
      else
        (let allowed =
               (case old of
                  None \<Rightarrow> \<not> za_xx fl
                | Some old \<Rightarrow> \<not> za_nx fl \<and> (\<not> za_gt fl \<or> f_lt old sc) \<and> (\<not> za_lt fl \<or> f_lt sc old))
         in if \<not> allowed then zadd_loop fl pairs z zc
            else zadd_loop fl pairs (fst (zset_insert member sc z))
              (case old of
                 None \<Rightarrow> zc\<lparr>zc_last := Some sc, zc_added := zc_added zc + 1\<rparr>
               | Some old \<Rightarrow>
                   if f_eq old sc then zc\<lparr>zc_last := Some sc\<rparr>
                   else zc\<lparr>zc_last := Some sc, zc_changed := zc_changed zc + 1\<rparr>)))"

definition has_member :: "zset option \<Rightarrow> str \<Rightarrow> bool" where
  "has_member v m = (case v of None \<Rightarrow> False | Some z \<Rightarrow> bm_contains (zs_scores z) m)"

definition cmd_zadd :: "ctx \<Rightarrow> str list \<Rightarrow> reply exec" where
  "cmd_zadd c argv =
     need_args argv 4 (
     let key = argv ! 1;
         (fl, rest) = zadd_words (drop 2 argv) \<lparr>za_nx = False, za_xx = False, za_gt = False, za_lt = False,
           za_ch = False, za_incr = False\<rparr> in
     need_ex (rest \<noteq> [] \<and> even (length rest)) syntax_error (
     need_ex (\<not> (za_nx fl \<and> za_xx fl)) ''ERR XX and NX options at the same time are not compatible'' (
     need_ex (\<not> ((za_gt fl \<and> za_lt fl) \<or> (za_nx fl \<and> (za_gt fl \<or> za_lt fl))))
       ''ERR GT, LT, and/or NX options at the same time are not compatible'' (
     need_ex (\<not> (za_incr fl \<and> length rest \<noteq> 2)) ''ERR INCR option supports a single increment-element pair'' (
     try_ex (score_pairs (pairs_of rest)) (\<lambda>pairs.
     ref_ex c as_zset key (\<lambda>current.
     let new = length (filter (\<lambda>(_, m). \<not> has_member current m) pairs);
         go =
           (if za_xx fl \<and> current = None then pass (if za_incr fl then R_Nil else R_Int 0)
            else
              bind_ex (zset_mut c key True (\<lambda>z.
                  zadd_loop fl pairs z \<lparr>zc_added = 0, zc_changed = 0, zc_last = None\<rparr>)) (\<lambda>out.
              some_ex out syntax_error (\<lambda>out.
              try_ex out (\<lambda>zc.
              then_ex (prune_ex c key)
             (then_ex (when_ex (zc_added zc + zc_changed zc > 0)
                 (touch c key (if za_incr fl then ''zincr'' else ''zadd'')))
                (pass (if za_incr fl
                       then (case zc_last zc of None \<Rightarrow> R_Nil | Some x \<Rightarrow> R_Bulk (float_text c x))
                       else r_int (if za_ch fl then zc_added zc + zc_changed zc else zc_added zc))))))))
     in if za_xx fl then go else room_for c (coll_len zset_len current) new go)))))))"

fun zrem_each :: "str list \<Rightarrow> zset \<Rightarrow> zset \<times> nat" where
  "zrem_each [] z = (z, 0)"
| "zrem_each (m # ms) z =
     (let (z1, there) = zset_remove m z; (z2, n) = zrem_each ms z1 in (z2, if there then n + 1 else n))"

definition cmd_zrem :: "ctx \<Rightarrow> str list \<Rightarrow> reply exec" where
  "cmd_zrem c argv =
     need_args argv 3 (
     let key = argv ! 1 in
     bind_ex (zset_mut c key False (zrem_each (drop 2 argv))) (\<lambda>removed.
     case removed of
       None \<Rightarrow> pass (R_Int 0)
     | Some removed \<Rightarrow>
         then_ex (prune_ex c key)
        (then_ex (when_ex (removed > 0) (touch c key ''zrem''))
           (pass (r_int removed)))))"

definition r_score :: "ctx \<Rightarrow> zset option \<Rightarrow> str \<Rightarrow> reply" where
  "r_score c v m =
     (case Option.bind v (\<lambda>z. bm_get (zs_scores z) m) of None \<Rightarrow> R_Nil | Some x \<Rightarrow> R_Bulk (float_text c x))"

definition cmd_zscore :: "ctx \<Rightarrow> str list \<Rightarrow> reply exec" where
  "cmd_zscore c argv = exactly argv 3 (ref_ex c as_zset (argv ! 1) (\<lambda>v. pass (r_score c v (argv ! 2))))"

definition cmd_zmscore :: "ctx \<Rightarrow> str list \<Rightarrow> reply exec" where
  "cmd_zmscore c argv =
     need_args argv 3 (ref_ex c as_zset (argv ! 1) (\<lambda>v. pass (R_Array (map (r_score c v) (drop 2 argv)))))"

definition cmd_zincrby :: "ctx \<Rightarrow> str list \<Rightarrow> reply exec" where
  "cmd_zincrby c argv =
     exactly argv 4 (
     let key = argv ! 1; member = argv ! 3 in
     try_ex (float_arg (argv ! 2)) (\<lambda>by.
     ref_ex c as_zset key (\<lambda>current.
     let old = Option.bind current (\<lambda>z. bm_get (zs_scores z) member);
         n = f_add (case old of None \<Rightarrow> 0 | Some x \<Rightarrow> x) by;
         go =
           need_ex (\<not> f_nan n) ''ERR resulting score is not a number (NaN)'' (
           bind_ex (zset_mut c key True (\<lambda>z. (fst (zset_insert member n z), ()))) (\<lambda>u.
           some_ex u syntax_error (\<lambda>_.
           then_ex (touch c key ''zincr'') (pass (R_Bulk (float_text c n))))))
     in if old = None then room_for c (coll_len zset_len current) 1 go else go)))"

definition cmd_zcard :: "ctx \<Rightarrow> str list \<Rightarrow> reply exec" where
  "cmd_zcard c argv = exactly argv 2 (ref_ex c as_zset (argv ! 1) (\<lambda>v. pass (r_int (coll_len zset_len v))))"

definition cmd_zcount :: "ctx \<Rightarrow> str list \<Rightarrow> reply exec" where
  "cmd_zcount c argv =
     exactly argv 4 (
     try_ex (score_bound (argv ! 2)) (\<lambda>mn.
     try_ex (score_bound (argv ! 3)) (\<lambda>mx.
     ref_ex c as_zset (argv ! 1) (\<lambda>v.
     pass (r_int (case v of None \<Rightarrow> 0 | Some z \<Rightarrow> length (by_score mn mx z)))))))"

text \<open>\<open>ZSet::rank\<close>.\<close>

definition zset_rank :: "str \<Rightarrow> zset \<Rightarrow> nat option" where
  "zset_rank member z =
     (case bm_get (zs_scores z) member of
        None \<Rightarrow> None
      | Some x \<Rightarrow> Some (length (filter (\<lambda>r. r < (Score x, member)) (bs_list (zs_order z)))))"

definition cmd_zrank :: "ctx \<Rightarrow> str \<Rightarrow> str list \<Rightarrow> reply exec" where
  "cmd_zrank c name argv =
     exactly argv 3 (ref_ex c as_zset (argv ! 1) (\<lambda>v.
       pass (case Option.bind v (\<lambda>z. map_option (\<lambda>r. if name = ''ZRANK'' then r else zset_len z - 1 - r)
                                   (zset_rank (argv ! 2) z)) of
               None \<Rightarrow> R_Nil
             | Some r \<Rightarrow> r_int r)))"

record zrange_options =
  zo_by_score :: bool
  zo_rev :: bool
  zo_scores :: bool
  zo_limit :: "(nat \<times> int) option"

function zrange_words :: "str \<Rightarrow> str list \<Rightarrow> nat \<Rightarrow> zrange_options \<Rightarrow> str + zrange_options" where
  "zrange_words name argv i zo =
     (if i < length argv then
        (let word = to_ascii_uppercase (argv ! i) in
         if word = ''BYSCORE'' \<and> name = ''ZRANGE'' then zrange_words name argv (i + 1) (zo\<lparr>zo_by_score := True\<rparr>)
         else if word = ''REV'' \<and> name = ''ZRANGE'' then zrange_words name argv (i + 1) (zo\<lparr>zo_rev := True\<rparr>)
         else if word = ''WITHSCORES'' then zrange_words name argv (i + 1) (zo\<lparr>zo_scores := True\<rparr>)
         else if word = ''LIMIT'' then
           bind_sum (bind_sum (arg_or argv (i + 1)) int_arg) (\<lambda>offset.
           bind_sum (bind_sum (arg_or argv (i + 2)) int_arg) (\<lambda>n.
             zrange_words name argv (i + 3) (zo\<lparr>zo_limit := Some (nat (max offset 0), n)\<rparr>)))
         else Inl syntax_error)
      else Inr zo)"
  by pat_completeness auto

termination
  by (relation "measure (\<lambda>(name, argv, i, zo). length argv - i)") auto

declare zrange_words.simps [simp del]

definition zrange_picked :: "zrange_options \<Rightarrow> str list \<Rightarrow> zset \<Rightarrow> str + ranked list" where
  "zrange_picked zo argv z =
     (let way = (if zo_rev zo then rev else id) in
      if zo_by_score zo then
        (let (lo, hi) = (if zo_rev zo then (argv ! 3, argv ! 2) else (argv ! 2, argv ! 3)) in
         bind_sum (score_bound lo) (\<lambda>mn.
         bind_sum (score_bound hi) (\<lambda>mx.
         let matching = way (by_score mn mx z)
         in Inr (case zo_limit zo of
                   Some (offset, n) \<Rightarrow>
                     if n \<ge> 0 then take (nat n) (drop offset matching) else drop offset matching
                 | None \<Rightarrow> matching))))
      else if zo_limit zo \<noteq> None then
        Inl ''ERR syntax error, LIMIT is only supported in combination with either BYSCORE or BYLEX''
      else
        bind_sum (int_arg (argv ! 2)) (\<lambda>start.
        bind_sum (int_arg (argv ! 3)) (\<lambda>stop.
        Inr (case range_bounds start stop (zset_len z) of
               Some (a, b) \<Rightarrow> take (b - a + 1) (drop a (way (bs_list (zs_order z))))
             | None \<Rightarrow> []))))"

definition contains_byscore :: "str \<Rightarrow> bool" where
  "contains_byscore name \<longleftrightarrow> contains_sub name ''BYSCORE''"

definition cmd_zrange :: "ctx \<Rightarrow> str \<Rightarrow> str list \<Rightarrow> reply exec" where
  "cmd_zrange c name argv =
     need_args argv 4 (
     try_ex (zrange_words name argv 4 \<lparr>zo_by_score = contains_byscore name, zo_rev = starts_with name ''ZREV'',
       zo_scores = False, zo_limit = None\<rparr>) (\<lambda>zo.
     ref_ex c as_zset (argv ! 1) (\<lambda>v.
     case v of
       None \<Rightarrow> pass (R_Array [])
     | Some z \<Rightarrow>
         try_ex (zrange_picked zo argv z) (\<lambda>picked.
         collect_within (concat (map (\<lambda>(sc, m).
           R_Bulk m # (if zo_scores zo then [R_Bulk (float_text c (score_bits sc))] else [])) picked))))))"

fun zpop_loop :: "ctx \<Rightarrow> bool \<Rightarrow> nat \<Rightarrow> zset \<Rightarrow> zset \<times> reply list" where
  "zpop_loop c mn 0 z = (z, [])"
| "zpop_loop c mn (Suc n) z =
     (case (if mn then bm_first (zs_order z) else bm_last (zs_order z)) of
        None \<Rightarrow> (z, [])
      | Some ((sc, member), _) \<Rightarrow>
          (let (z', out) = zpop_loop c mn n (fst (zset_remove member z))
           in (z', [R_Bulk member, R_Bulk (float_text c (score_bits sc))] @ out)))"

definition zpop :: "ctx \<Rightarrow> str \<Rightarrow> bool \<Rightarrow> nat \<Rightarrow> (reply list \<Rightarrow> 'a exec) \<Rightarrow> 'a exec" where
  "zpop c key mn n k =
     bind_ex (zset_mut c key False (zpop_loop c mn n)) (\<lambda>out.
     case out of
       None \<Rightarrow> k []
     | Some out \<Rightarrow>
         then_ex (prune_ex c key)
        (then_ex (when_ex (out \<noteq> []) (touch c key (if mn then ''zpopmin'' else ''zpopmax'')))
           (k out)))"

definition cmd_zpop :: "ctx \<Rightarrow> str \<Rightarrow> str list \<Rightarrow> reply exec" where
  "cmd_zpop c name argv =
     need_ex (2 \<le> length argv \<and> length argv \<le> 3) (wrong_args name) (
     try_ex (optional_count argv 2) (\<lambda>n.
     zpop c (argv ! 1) (name = ''ZPOPMIN'') (case n of None \<Rightarrow> 1 | Some n \<Rightarrow> n) (\<lambda>out. pass (R_Array out))))"

fun bzpop_loop :: "ctx \<Rightarrow> bool \<Rightarrow> str list \<Rightarrow> reply exec \<Rightarrow> reply exec" where
  "bzpop_loop c mn [] otherwise = otherwise"
| "bzpop_loop c mn (key # keys) otherwise =
     ref_ex c as_zset key (\<lambda>v.
     if (case v of None \<Rightarrow> False | Some z \<Rightarrow> zset_len z \<noteq> 0) then
       zpop c key mn 1 (\<lambda>out.
       then_ex (propagate [if mn then ''ZPOPMIN'' else ''ZPOPMAX'', key])
         (pass (R_Array (R_Bulk key # out))))
     else bzpop_loop c mn keys otherwise)"

definition cmd_bzpop :: "ctx \<Rightarrow> bool \<Rightarrow> str list \<Rightarrow> reply exec" where
  "cmd_bzpop c mn argv =
     need_args argv 3 (
     try_ex (timeout_ms (List.last argv)) (\<lambda>timeout.
     bzpop_loop c mn (butlast (tl argv)) (then_ex (block_ex c argv timeout) (pass R_Nil))))"

definition zrem_ranked :: "ctx \<Rightarrow> str \<Rightarrow> str \<Rightarrow> (zset \<Rightarrow> ranked list) \<Rightarrow> reply exec" where
  "zrem_ranked c key event doomed =
     bind_ex (zset_mut c key False (\<lambda>z. (fst (zrem_each (map snd (doomed z)) z), length (doomed z)))) (\<lambda>n.
     case n of
       None \<Rightarrow> pass (R_Int 0)
     | Some n \<Rightarrow>
         then_ex (prune_ex c key)
        (then_ex (when_ex (n > 0) (touch c key event))
           (pass (r_int n))))"

definition cmd_zremrangebyscore :: "ctx \<Rightarrow> str list \<Rightarrow> reply exec" where
  "cmd_zremrangebyscore c argv =
     exactly argv 4 (
     try_ex (score_bound (argv ! 2)) (\<lambda>mn.
     try_ex (score_bound (argv ! 3)) (\<lambda>mx.
     zrem_ranked c (argv ! 1) ''zremrangebyscore'' (by_score mn mx))))"

definition cmd_zremrangebyrank :: "ctx \<Rightarrow> str list \<Rightarrow> reply exec" where
  "cmd_zremrangebyrank c argv =
     exactly argv 4 (
     try_ex (int_arg (argv ! 2)) (\<lambda>start.
     try_ex (int_arg (argv ! 3)) (\<lambda>stop.
     zrem_ranked c (argv ! 1) ''zremrangebyrank'' (\<lambda>z.
       case range_bounds start stop (zset_len z) of
         Some (a, b) \<Rightarrow> take (b - a + 1) (drop a (bs_list (zs_order z)))
       | None \<Rightarrow> []))))"

end
