(* ===== verification/Cmd_Streams.thy ===== *)
theory Cmd_Streams
  imports Cmd_Sets
begin

text \<open>The commands on streams and their consumer groups (\<open>src/src/commands.rs\<close>).\<close>

subsection \<open>Ids\<close>

definition id_arg :: "str \<Rightarrow> u64 \<Rightarrow> str + id" where
  "id_arg s missing_seq =
     bind_sum (case split_once CHR ''-'' s of
         Some (ms, seq) \<Rightarrow> (case parse_u64 seq of None \<Rightarrow> Inl bad_id | Some n \<Rightarrow> Inr (ms, n))
       | None \<Rightarrow> Inr (s, missing_seq)) (\<lambda>(ms, seq).
     case parse_u64 ms of None \<Rightarrow> Inl bad_id | Some n \<Rightarrow> Inr (Id n seq))"

definition range_start :: "str \<Rightarrow> str + id" where
  "range_start s =
     (if s = ''-'' then Inr id_default
      else if s = ''+'' then Inr id_max
      else
        (case strip_prefix ''('' s of
           Some rest \<Rightarrow>
             bind_sum (id_arg rest 0) (\<lambda>i.
               case id_after i of Some j \<Rightarrow> Inr j | None \<Rightarrow> Inl ''ERR invalid start ID for the interval'')
         | None \<Rightarrow> id_arg s 0))"

definition range_end :: "str \<Rightarrow> str + id option" where
  "range_end s =
     (if s = ''-'' then Inr (Some id_default)
      else if s = ''+'' then Inr (Some id_max)
      else
        (case strip_prefix ''('' s of
           Some rest \<Rightarrow>
             bind_sum (id_arg rest (-1)) (\<lambda>i. Inr
               (if id_ms i = 0 \<and> id_seq i = 0 then None
                else if id_seq i = 0 then Some (Id (id_ms i - 1) (-1))
                else Some (Id (id_ms i) (id_seq i - 1))))
         | None \<Rightarrow> bind_sum (id_arg s (-1)) (\<lambda>i. Inr (Some i))))"

definition id_args :: "str list \<Rightarrow> str + id list" where
  "id_args ss = foldr (\<lambda>s rest. bind_sum (id_arg s 0) (\<lambda>i. bind_sum rest (\<lambda>is. Inr (i # is)))) ss (Inr [])"

definition fields_size :: "(str \<times> str) list \<Rightarrow> nat" where
  "fields_size fvs = sum_list (map (\<lambda>(f, v). length f + length v) fvs) + 24"

definition entry_reply :: "id \<Rightarrow> (str \<times> str) list \<Rightarrow> reply" where
  "entry_reply i fvs =
     R_Array [R_Bulk (id_to_string i), R_Array (concat (map (\<lambda>(f, v). [R_Bulk f, R_Bulk v]) fvs))]"

definition no_group :: "str \<Rightarrow> str \<Rightarrow> str \<Rightarrow> str" where
  "no_group key grp command =
     ''NOGROUP No such key '' @ quoted key @ '' or consumer group '' @ quoted grp @ '' in '' @ command
       @ '' with GROUP option''"

text \<open>\<open>range(lo..=hi)\<close>.\<close>

definition bm_between :: "'k::linorder \<Rightarrow> 'k \<Rightarrow> ('k, 'v) btree_map \<Rightarrow> ('k \<times> 'v) list" where
  "bm_between lo hi m = filter (\<lambda>(a, _). lo \<le> a \<and> a \<le> hi) (bm_entries m)"

subsection \<open>Adding and reading\<close>

datatype trim = Trim_MaxLen nat | Trim_MinId id

fun trim_apply :: "trim \<Rightarrow> stream \<Rightarrow> stream \<times> nat" where
  "trim_apply (Trim_MaxLen n) s = trim_to n s"
| "trim_apply (Trim_MinId i) s = trim_before i s"

definition trim_spec :: "str list \<Rightarrow> nat \<Rightarrow> str + trim \<times> nat" where
  "trim_spec argv at =
     (let word = to_ascii_uppercase (argv ! at);
          i = (if arg_at argv (at + 1) \<in> {Some ''='', Some ''~''} then at + 2 else at + 1) in
      bind_sum (arg_or argv i) (\<lambda>threshold.
      bind_sum (if word = ''MAXLEN'' then bind_sum (count_arg threshold) (\<lambda>n. Inr (Trim_MaxLen n))
                else if word = ''MINID'' then bind_sum (id_arg threshold 0) (\<lambda>i. Inr (Trim_MinId i))
                else Inl syntax_error) (\<lambda>t.
      Inr (t, if (case arg_at argv (i + 1) of None \<Rightarrow> False | Some w \<Rightarrow> eq_ignore_ascii_case w ''LIMIT'')
              then i + 3 else i + 1))))"

lemma trim_spec_next: "trim_spec argv at = Inr (t, i) \<Longrightarrow> at + 2 \<le> i"
  by (auto simp: trim_spec_def bind_sum_def Let_def split: sum.splits if_splits)

function xadd_words :: "str list \<Rightarrow> nat \<Rightarrow> bool \<Rightarrow> trim option \<Rightarrow> str + bool \<times> trim option \<times> nat" where
  "xadd_words argv i nomk trim =
     bind_sum (arg_or argv i) (\<lambda>w.
       let word = to_ascii_uppercase w in
       if word = ''NOMKSTREAM'' then xadd_words argv (i + 1) True trim
       else if word \<in> {''MAXLEN'', ''MINID''} then
         bind_sum (trim_spec argv i) (\<lambda>p. xadd_words argv (snd p) nomk (Some (fst p)))
       else Inr (nomk, trim, i))"
  by pat_completeness auto

termination
  by (relation "measure (\<lambda>(argv, i, nomk, trim). length argv - i)")
    (auto simp: arg_or_def arg_at_def split: if_splits dest!: trim_spec_next)

declare xadd_words.simps [simp del]

definition not_above_top :: str where
  "not_above_top = ''ERR The ID specified in XADD is equal or smaller than the target stream top item''"

definition xadd_id :: "str \<Rightarrow> id \<Rightarrow> u64 \<Rightarrow> str + id" where
  "xadd_id a l now =
     (if a = ''*'' then
        (case id_next_after l now of
           Some i \<Rightarrow> Inr i
         | None \<Rightarrow> Inl ''ERR The stream has exhausted the last possible ID, unable to add more items'')
      else if ends_with a ''-*'' then
        (case parse_u64 (take (length a - 2) a) of
           None \<Rightarrow> Inl bad_id
         | Some ms \<Rightarrow>
             if ms > id_ms l then Inr (Id ms 0)
             else if ms = id_ms l then
               (case checked_succ (id_seq l) of Some seq \<Rightarrow> Inr (Id ms seq) | None \<Rightarrow> Inl bad_id)
             else Inl not_above_top)
      else id_arg a 0)"

definition xadd_dropped :: "trim option \<Rightarrow> stream option \<Rightarrow> id \<Rightarrow> nat" where
  "xadd_dropped trim existing i =
     (case trim of
        None \<Rightarrow> 0
      | Some (Trim_MaxLen n) \<Rightarrow> coll_len (\<lambda>s. bm_len (st_entries s)) existing + 1 - n
      | Some (Trim_MinId least) \<Rightarrow>
          coll_len (\<lambda>s. length (bm_before least (st_entries s))) existing + (if i < least then 1 else 0))"

definition xadd_entry :: "id \<Rightarrow> (str \<times> str) list \<Rightarrow> trim option \<Rightarrow> stream \<Rightarrow> stream" where
  "xadd_entry i fvs trim s =
     (let s = s\<lparr>st_entries := bm_insert i fvs (st_entries s), st_last_id := i, st_added := st_added s + 1\<rparr>
      in case trim of None \<Rightarrow> s | Some t \<Rightarrow> fst (trim_apply t s))"

definition cmd_xadd :: "ctx \<Rightarrow> str list \<Rightarrow> reply exec" where
  "cmd_xadd c argv =
     need_args argv 5 (
     let key = argv ! 1 in
     try_ex (xadd_words argv 2 False None) (\<lambda>(nomk, trim, i).
     let id_word = argv ! i; fs = drop (i + 1) argv in
     need_ex (fs \<noteq> [] \<and> even (length fs)) (wrong_args ''xadd'') (
     ref_ex c as_stream key (\<lambda>existing.
     if existing = None \<and> nomk then pass R_Nil
     else
       (let l = (case existing of None \<Rightarrow> id_default | Some s \<Rightarrow> st_last_id s) in
        try_ex (xadd_id id_word l (cx_now c)) (\<lambda>i.
        need_ex (i \<noteq> id_default) ''ERR The ID specified in XADD must be greater than 0-0'' (
        need_ex (l < i) not_above_top (
        let go =
          bind_ex (stream_mut c key True (\<lambda>s. (xadd_entry i (pairs_of fs) trim s, ()))) (\<lambda>u.
          some_ex u syntax_error (\<lambda>_.
          then_ex (touch c key ''xadd'') (pass (R_Bulk (id_to_string i)))))
        in if xadd_dropped trim existing i = 0
           then room_for c (coll_len (\<lambda>s. bm_len (st_entries s)) existing) 1 go
           else go))))))))"

definition cmd_xlen :: "ctx \<Rightarrow> str list \<Rightarrow> reply exec" where
  "cmd_xlen c argv =
     exactly argv 2 (ref_ex c as_stream (argv ! 1) (\<lambda>s. pass (r_int (coll_len (\<lambda>s. bm_len (st_entries s)) s))))"

definition xrange_limit :: "str list \<Rightarrow> str + nat" where
  "xrange_limit argv =
     (case arg_at argv 4 of
        None \<Rightarrow> Inr usize_max
      | Some w \<Rightarrow> if eq_ignore_ascii_case w ''COUNT'' then bind_sum (arg_or argv 5) count_arg else Inl syntax_error)"

definition cmd_xrange :: "ctx \<Rightarrow> bool \<Rightarrow> str list \<Rightarrow> reply exec" where
  "cmd_xrange c back argv =
     need_args argv 4 (
     let (lo, hi) = (if back then (3, 2) else (2, 3)) in
     try_ex (range_start (argv ! lo)) (\<lambda>start.
     try_ex (range_end (argv ! hi)) (\<lambda>stop.
     try_ex (xrange_limit argv) (\<lambda>limit.
     ref_ex c as_stream (argv ! 1) (\<lambda>s.
     case (s, stop) of
       (Some s, Some stop) \<Rightarrow>
         if start \<le> stop then
           collect_within (map (\<lambda>(i, fvs). entry_reply i fvs)
             (take limit ((if back then rev else id) (bm_between start stop (st_entries s)))))
         else pass (R_Array [])
     | _ \<Rightarrow> pass (R_Array []))))))"

fun xdel_each :: "id list \<Rightarrow> stream \<Rightarrow> stream \<times> nat" where
  "xdel_each [] s = (s, 0)"
| "xdel_each (i # is) s =
     (if bm_contains (st_entries s) i then
        (let (s', n) = xdel_each is (s\<lparr>st_entries := bm_remove i (st_entries s), st_max_deleted := max (st_max_deleted s) i\<rparr>)
         in (s', n + 1))
      else xdel_each is s)"

definition cmd_xdel :: "ctx \<Rightarrow> str list \<Rightarrow> reply exec" where
  "cmd_xdel c argv =
     need_args argv 3 (
     let key = argv ! 1 in
     try_ex (id_args (drop 2 argv)) (\<lambda>is.
     bind_ex (stream_mut c key False (xdel_each is)) (\<lambda>removed.
     case removed of
       None \<Rightarrow> pass (R_Int 0)
     | Some removed \<Rightarrow>
         then_ex (when_ex (removed > 0) (touch c key ''xdel'')) (pass (r_int removed)))))"

definition cmd_xtrim :: "ctx \<Rightarrow> str list \<Rightarrow> reply exec" where
  "cmd_xtrim c argv =
     need_args argv 4 (
     let key = argv ! 1 in
     try_ex (trim_spec argv 2) (\<lambda>(trim, i).
     need_ex (i = length argv) syntax_error (
     bind_ex (stream_mut c key False (trim_apply trim)) (\<lambda>removed.
     case removed of
       None \<Rightarrow> pass (R_Int 0)
     | Some removed \<Rightarrow>
         then_ex (when_ex (removed > 0) (touch c key ''xtrim'')) (pass (r_int removed))))))"

text \<open>\<open>[COUNT n] [BLOCK ms] [NOACK] STREAMS k1.. id1..\<close>.\<close>

record read_options =
  ro_count :: "nat option"
  ro_block :: "u64 option"
  ro_block_at :: "nat option"
  ro_noack :: bool
  ro_keys :: "str list"
  ro_ids :: "str list"
  ro_ids_at :: nat

definition ro_default :: read_options where
  "ro_default = \<lparr>ro_count = None, ro_block = None, ro_block_at = None, ro_noack = False, ro_keys = [],
     ro_ids = [], ro_ids_at = 0\<rparr>"

definition block_arg :: "str \<Rightarrow> str + u64" where
  "block_arg a =
     (case int_arg a of
        Inl _ \<Rightarrow> Inl ''ERR timeout is not an integer or out of range''
      | Inr ms \<Rightarrow> if ms < 0 then Inl ''ERR timeout is negative'' else Inr (word_of_int ms))"

definition unbalanced :: str where
  "unbalanced = ''ERR Unbalanced '' @ quoted ''xread''
     @ '' list of streams: for each stream key an ID or '' @ quoted ''$'' @ '' must be specified.''"

function read_words :: "str list \<Rightarrow> nat \<Rightarrow> read_options \<Rightarrow> str + read_options" where
  "read_words argv i ro =
     bind_sum (arg_or argv i) (\<lambda>w.
       let word = to_ascii_uppercase w in
       if word = ''COUNT'' then
         bind_sum (bind_sum (arg_or argv (i + 1)) count_arg) (\<lambda>n.
           read_words argv (i + 2) (ro\<lparr>ro_count := Some n\<rparr>))
       else if word = ''BLOCK'' then
         bind_sum (bind_sum (arg_or argv (i + 1)) block_arg) (\<lambda>ms.
           read_words argv (i + 2) (ro\<lparr>ro_block := Some ms, ro_block_at := Some i\<rparr>))
       else if word = ''NOACK'' then read_words argv (i + 1) (ro\<lparr>ro_noack := True\<rparr>)
       else if word = ''STREAMS'' then
         (let rest = drop (i + 1) argv; half = length rest div 2 in
          if rest = [] \<or> odd (length rest) then Inl unbalanced
          else Inr (ro\<lparr>ro_keys := take half rest, ro_ids := drop half rest, ro_ids_at := i + 1 + half\<rparr>))
       else Inl syntax_error)"
  by pat_completeness auto

termination
  by (relation "measure (\<lambda>(argv, i, ro). length argv - i)")
    (auto simp: arg_or_def arg_at_def split: if_splits)

declare read_words.simps [simp del]

definition read_limit :: "read_options \<Rightarrow> nat" where
  "read_limit ro = max (case ro_count ro of None \<Rightarrow> usize_max | Some n \<Rightarrow> n) 1"

definition drop_two :: "nat option \<Rightarrow> 'a list \<Rightarrow> 'a list" where
  "drop_two at xs = (case at of None \<Rightarrow> xs | Some i \<Rightarrow> take i xs @ drop (i + 2) xs)"

fun xread_after :: "ctx \<Rightarrow> (str \<times> str) list \<Rightarrow> id list \<Rightarrow> (id list \<Rightarrow> 'a exec) \<Rightarrow> 'a exec" where
  "xread_after c [] after k = k after"
| "xread_after c ((key, i) # ks) after k =
     ref_ex c as_stream key (\<lambda>s.
     try_ex (if i = ''$'' then Inr (case s of None \<Rightarrow> id_default | Some s \<Rightarrow> st_last_id s) else id_arg i 0) (\<lambda>a.
     xread_after c ks (after @ [a]) k))"

fun read_entries :: "(id \<times> (str \<times> str) list) list \<Rightarrow> nat \<Rightarrow> str + reply list \<times> nat" where
  "read_entries [] bytes = Inr ([], bytes)"
| "read_entries ((i, fvs) # es) bytes =
     (let bytes = bytes + fields_size fvs
      in if bytes > max_reply_bytes then Inl reply_too_long
         else bind_sum (read_entries es bytes) (\<lambda>(rs, bytes). Inr (entry_reply i fvs # rs, bytes)))"

fun xread_loop ::
  "ctx \<Rightarrow> nat \<Rightarrow> (str \<times> id) list \<Rightarrow> nat \<Rightarrow> reply list \<Rightarrow> (reply list \<Rightarrow> 'a exec) \<Rightarrow> 'a exec" where
  "xread_loop c limit [] bytes out k = k out"
| "xread_loop c limit ((key, after) # ks) bytes out k =
     ref_ex c as_stream key (\<lambda>s.
     case s of
       None \<Rightarrow> xread_loop c limit ks bytes out k
     | Some s \<Rightarrow>
         try_ex (read_entries (take limit (bm_after after (st_entries s))) bytes) (\<lambda>(es, bytes).
         xread_loop c limit ks bytes (if es \<noteq> [] then out @ [R_Array [R_Bulk key, R_Array es]] else out) k))"

definition cmd_xread :: "ctx \<Rightarrow> str list \<Rightarrow> reply exec" where
  "cmd_xread c argv =
     need_args argv 4 (
     try_ex (read_words argv 1 ro_default) (\<lambda>ro.
     xread_after c (zip (ro_keys ro) (ro_ids ro)) [] (\<lambda>after.
     xread_loop c (read_limit ro) (zip (ro_keys ro) after) 0 [] (\<lambda>out.
     if out \<noteq> [] then pass (R_Array out)
     else
       then_ex
         (case ro_block ro of
            None \<Rightarrow> pass ()
          | Some timeout \<Rightarrow>
              block_ex c (drop_two (ro_block_at ro) (take (ro_ids_at ro) argv) @ map id_to_string after) timeout)
         (pass R_Nil)))))"

end
