(* ===== verification/Cmd_Groups.thy ===== *)
theory Cmd_Groups
  imports Cmd_Streams
begin

text \<open>
  Consumer groups (\<open>src/src/commands.rs\<close>): creating them, delivering entries to consumers,
  acknowledging, claiming what another consumer left, and what there is to see of them.
\<close>

definition group_default :: group where
  "group_default = \<lparr>grp_last_delivered = id_default, grp_read = 0, grp_pending = bm_empty, grp_consumers = bm_empty\<rparr>"

definition consumer_default :: consumer where
  "consumer_default = \<lparr>con_seen = 0, con_active = None\<rparr>"

definition get_group :: "str \<Rightarrow> stream \<Rightarrow> group option" where
  "get_group grp s = bm_get (st_groups s) grp"

definition set_group :: "str \<Rightarrow> group \<Rightarrow> stream \<Rightarrow> stream" where
  "set_group grp g s = s\<lparr>st_groups := bm_insert grp g (st_groups s)\<rparr>"

text \<open>
  A change of a group found in a stream that must exist, as \<open>stream_mut\<close> and \<open>get_mut\<close> with the
  same error for either missing.
\<close>

definition group_mut ::
  "ctx \<Rightarrow> str \<Rightarrow> str \<Rightarrow> str \<Rightarrow> (stream \<Rightarrow> str + 'x) \<Rightarrow> ('x \<Rightarrow> stream \<Rightarrow> group \<Rightarrow> group \<times> 'b) \<Rightarrow> ('b \<Rightarrow> 'a exec) \<Rightarrow> 'a exec" where
  "group_mut c key grp command first f k =
     bind_ex (stream_mut c key False (\<lambda>s.
         case first s of
           Inl e \<Rightarrow> (s, Inl e)
         | Inr x \<Rightarrow>
             (case get_group grp s of
                None \<Rightarrow> (s, Inl (no_group key grp command))
              | Some g \<Rightarrow> (set_group grp (fst (f x s g)) s, Inr (snd (f x s g)))))) (\<lambda>out.
     some_ex out (no_group key grp command) (\<lambda>out.
     try_ex out k))"

subsection \<open>XGROUP\<close>

definition resolve_id :: "str \<Rightarrow> stream \<Rightarrow> str + id" where
  "resolve_id a s = (if a = ''$'' then Inr (st_last_id s) else id_arg a 0)"

definition needs_key :: str where
  "needs_key = ''ERR The XGROUP subcommand requires the key to exist. Note that for CREATE you may want to use the ''
     @ ''MKSTREAM option to create an empty stream automatically.''"

definition xgroup_create :: "ctx \<Rightarrow> str list \<Rightarrow> reply exec" where
  "xgroup_create c argv =
     need_args argv 5 (
     let key = argv ! 2; grp = argv ! 3; a = argv ! 4;
         mkstream = list_ex (\<lambda>w. eq_ignore_ascii_case w ''MKSTREAM'') (drop 5 argv);
         go =
           bind_ex (stream_mut c key False (\<lambda>s.
               if bm_contains (st_groups s) grp then (s, Inl ''BUSYGROUP Consumer Group name already exists'')
               else (case resolve_id a s of
                       Inl e \<Rightarrow> (s, Inl e)
                     | Inr i \<Rightarrow> (set_group grp (group_default\<lparr>grp_last_delivered := i\<rparr>) s, Inr ())))) (\<lambda>out.
           some_ex out syntax_error (\<lambda>out.
           try_ex out (\<lambda>_.
           then_ex (touch c key ''xgroup-create'') (pass r_ok)))) in
     try_ex (if a \<noteq> ''$'' then id_arg a 0 else Inr id_default) (\<lambda>_.
     ref_ex c as_stream key (\<lambda>s.
     if s = None then
       need_ex mkstream needs_key (bind_ex (stream_mut c key True (\<lambda>s. (s, ()))) (\<lambda>_. go))
     else go)))"

definition xgroup_setid :: "ctx \<Rightarrow> str list \<Rightarrow> reply exec" where
  "xgroup_setid c argv =
     need_args argv 5 (
     let key = argv ! 2; grp = argv ! 3 in
     group_mut c key grp ''XGROUP'' (resolve_id (argv ! 4)) (\<lambda>i s g. (g\<lparr>grp_last_delivered := i\<rparr>, ())) (\<lambda>_.
     then_ex (touch c key ''xgroup-setid'') (pass r_ok)))"

definition xgroup_destroy :: "ctx \<Rightarrow> str list \<Rightarrow> reply exec" where
  "xgroup_destroy c argv =
     (let key = argv ! 2; grp = argv ! 3 in
      bind_ex (stream_mut c key False (\<lambda>s.
          (s\<lparr>st_groups := bm_remove grp (st_groups s)\<rparr>, bm_contains (st_groups s) grp))) (\<lambda>removed.
      case removed of
        None \<Rightarrow> pass (R_Int 0)
      | Some removed \<Rightarrow> then_ex (when_ex removed (touch c key ''xgroup-destroy'')) (pass (r_bool removed))))"

definition create_consumer :: "str \<Rightarrow> u64 \<Rightarrow> group \<Rightarrow> group \<times> bool" where
  "create_consumer name now g =
     (if bm_contains (grp_consumers g) name then (g, False)
      else (g\<lparr>grp_consumers := bm_insert name \<lparr>con_seen = now, con_active = None\<rparr> (grp_consumers g)\<rparr>, True))"

definition delete_consumer :: "str \<Rightarrow> group \<Rightarrow> group \<times> nat \<times> bool" where
  "delete_consumer name g =
     (let kept = bm_filter (\<lambda>_ p. pe_consumer p \<noteq> name) (grp_pending g)
      in (g\<lparr>grp_pending := kept, grp_consumers := bm_remove name (grp_consumers g)\<rparr>,
          bm_len (grp_pending g) - bm_len kept, bm_contains (grp_consumers g) name))"

definition xgroup_consumer :: "ctx \<Rightarrow> bool \<Rightarrow> str list \<Rightarrow> reply exec" where
  "xgroup_consumer c create argv =
     exactly argv 5 (
     let key = argv ! 2; grp = argv ! 3; name = argv ! 4 in
     if create then
       group_mut c key grp ''XGROUP'' (\<lambda>_. Inr ()) (\<lambda>_ s. create_consumer name (cx_now c)) (\<lambda>made.
       if made then then_ex (touch c key ''xgroup-createconsumer'') (pass (R_Int 1)) else pass (R_Int 0))
     else
       group_mut c key grp ''XGROUP'' (\<lambda>_. Inr ()) (\<lambda>_ s. delete_consumer name) (\<lambda>(dropped, there).
       then_ex (when_ex there (touch c key ''xgroup-delconsumer'')) (pass (r_int dropped))))"

definition cmd_xgroup :: "ctx \<Rightarrow> str list \<Rightarrow> reply exec" where
  "cmd_xgroup c argv =
     need_args argv 2 (
     let sub = to_ascii_uppercase (argv ! 1) in
     if sub = ''HELP'' then
       pass (r_bulks
         [''XGROUP CREATE <key> <group> <id|$> [MKSTREAM] [ENTRIESREAD <n>]'',
          ''XGROUP SETID <key> <group> <id|$>'',
          ''XGROUP DESTROY <key> <group>'',
          ''XGROUP CREATECONSUMER <key> <group> <consumer>'',
          ''XGROUP DELCONSUMER <key> <group> <consumer>''])
     else
       need_args argv 4 (
       if sub = ''CREATE'' then xgroup_create c argv
       else if sub = ''SETID'' then xgroup_setid c argv
       else if sub = ''DESTROY'' then xgroup_destroy c argv
       else if sub = ''CREATECONSUMER'' then xgroup_consumer c True argv
       else if sub = ''DELCONSUMER'' then xgroup_consumer c False argv
       else refuse (''ERR unknown subcommand '' @ quoted (argv ! 1) @ ''. Try XGROUP HELP.'')))"

subsection \<open>XREADGROUP\<close>

text \<open>The entries of a consumer that are pending after an id, and how long they are together.\<close>

definition pending_of :: "str \<Rightarrow> id \<Rightarrow> nat \<Rightarrow> group \<Rightarrow> id list" where
  "pending_of name after limit g =
     map fst (take limit (filter (\<lambda>(_, p). pe_consumer p = name) (bm_after after (grp_pending g))))"

fun history_size :: "(id, (str \<times> str) list) btree_map \<Rightarrow> id list \<Rightarrow> nat \<Rightarrow> str + nat" where
  "history_size es [] bytes = Inr bytes"
| "history_size es (i # is) bytes =
     (let bytes = bytes + (case bm_get es i of None \<Rightarrow> 0 | Some fvs \<Rightarrow> fields_size fvs)
      in if bytes > max_reply_bytes then Inl reply_too_long else history_size es is bytes)"

fun xreadgroup_check ::
  "ctx \<Rightarrow> str \<Rightarrow> str \<Rightarrow> nat \<Rightarrow> (str \<times> str) list \<Rightarrow> str list \<Rightarrow> nat \<Rightarrow> 'a exec \<Rightarrow> 'a exec" where
  "xreadgroup_check c grp name limit [] named bytes m = m"
| "xreadgroup_check c grp name limit ((key, i) # ks) named bytes m =
     need_ex (key \<notin> set named)
       (''ERR stream '' @ ru_debug (cx_rust c) key @ '' is named twice; name each stream once'') (
     ref_ex c as_stream key (\<lambda>s.
     some_ex (Option.bind s (\<lambda>s. map_option (Pair (st_entries s)) (get_group grp s)))
       (no_group key grp ''XREADGROUP'') (\<lambda>(es, g).
     try_ex (if i = ''>'' then Inr bytes
             else bind_sum (id_arg i 0) (\<lambda>after. history_size es (pending_of name after limit g) bytes)) (\<lambda>bytes.
     xreadgroup_check c grp name limit ks (named @ [key]) bytes m))))"

definition deliver_one :: "str \<Rightarrow> u64 \<Rightarrow> bool \<Rightarrow> id \<Rightarrow> group \<Rightarrow> group" where
  "deliver_one name now noack i g =
     g\<lparr>grp_last_delivered := i, grp_read := grp_read g + 1,
       grp_pending := (if noack then grp_pending g
         else bm_insert i \<lparr>pe_consumer = name, pe_delivered = now, pe_count = 1\<rparr> (grp_pending g))\<rparr>"

text \<open>
  What reading one stream does to the group: the consumer is seen; with \<open>>\<close> it takes the entries
  after the last one delivered, with an id it is given its pending ones again.
\<close>

definition read_group ::
  "str \<Rightarrow> u64 \<Rightarrow> nat \<Rightarrow> bool \<Rightarrow> id option \<Rightarrow> stream \<Rightarrow> group \<Rightarrow> group \<times> bool \<times> reply list" where
  "read_group name now limit noack history s g =
     (let created = \<not> bm_contains (grp_consumers g) name;
          seat = (case bm_get (grp_consumers g) name of Some seat \<Rightarrow> seat | None \<Rightarrow> consumer_default)\<lparr>con_seen := now\<rparr>
      in case history of
           None \<Rightarrow>
             (let fresh = map fst (take limit (bm_after (grp_last_delivered g) (st_entries s)));
                  seat = (if fresh \<noteq> [] then seat\<lparr>con_active := Some now\<rparr> else seat);
                  items = map (\<lambda>i. entry_reply i (case bm_get (st_entries s) i of Some fvs \<Rightarrow> fvs | None \<Rightarrow> [])) fresh
              in (fold (deliver_one name now noack) fresh
                    (g\<lparr>grp_consumers := bm_insert name seat (grp_consumers g)\<rparr>),
                  created, items))
         | Some after \<Rightarrow>
             (g\<lparr>grp_consumers := bm_insert name seat (grp_consumers g)\<rparr>, created,
              map (\<lambda>i. case bm_get (st_entries s) i of
                         Some fvs \<Rightarrow> entry_reply i fvs
                       | None \<Rightarrow> R_Array [R_Bulk (id_to_string i), R_Nil])
                (pending_of name after limit g)))"

fun xreadgroup_loop ::
  "ctx \<Rightarrow> str \<Rightarrow> str \<Rightarrow> nat \<Rightarrow> bool \<Rightarrow> (str \<times> str) list \<Rightarrow> reply list \<Rightarrow> bool \<Rightarrow>
   (reply list \<Rightarrow> bool \<Rightarrow> 'a exec) \<Rightarrow> 'a exec" where
  "xreadgroup_loop c grp name limit noack [] out any_new k = k out any_new"
| "xreadgroup_loop c grp name limit noack ((key, i) # ks) out any_new k =
     try_ex (if i = ''>'' then Inr None else bind_sum (id_arg i 0) (\<lambda>i. Inr (Some i))) (\<lambda>history.
     bind_ex (stream_mut c key False (\<lambda>s.
         case get_group grp s of
           None \<Rightarrow> (s, None)
         | Some g \<Rightarrow>
             (let (g', res) = read_group name (cx_now c) limit noack history s g in (set_group grp g' s, Some res)))) (\<lambda>res.
     some_ex (Option.bind res id) syntax_error (\<lambda>(created, items).
     then_ex (when_ex (created \<or> (items \<noteq> [] \<and> history = None)) mark_dirty)
       (xreadgroup_loop c grp name limit noack ks
         (if history \<noteq> None \<or> items \<noteq> [] then out @ [R_Array [R_Bulk key, R_Array items]] else out)
         (any_new \<or> (history = None \<and> items \<noteq> [])) k))))"

definition cmd_xreadgroup :: "ctx \<Rightarrow> str list \<Rightarrow> reply exec" where
  "cmd_xreadgroup c argv =
     need_args argv 7 (
     need_ex (eq_ignore_ascii_case (argv ! 1) ''GROUP'') syntax_error (
     let grp = argv ! 2; name = argv ! 3 in
     try_ex (read_words argv 4 ro_default) (\<lambda>ro.
     let ks = zip (ro_keys ro) (ro_ids ro); limit = read_limit ro in
     xreadgroup_check c grp name limit ks [] 0 (
     xreadgroup_loop c grp name limit (ro_noack ro) ks [] False (\<lambda>out any_new.
     if \<not> any_new \<and> list_all (\<lambda>i. i = ''>'') (ro_ids ro) then
       then_ex
         (case ro_block ro of
            None \<Rightarrow> pass ()
          | Some timeout \<Rightarrow> block_ex c (drop_two (ro_block_at ro) argv) timeout)
         (pass R_Nil)
     else pass (R_Array out))))))"

subsection \<open>Pending entries\<close>

fun ack_each :: "id list \<Rightarrow> group \<Rightarrow> group \<times> nat" where
  "ack_each [] g = (g, 0)"
| "ack_each (i # is) g =
     (let (g', n) = ack_each is (g\<lparr>grp_pending := bm_remove i (grp_pending g)\<rparr>)
      in (g', if bm_contains (grp_pending g) i then n + 1 else n))"

definition cmd_xack :: "ctx \<Rightarrow> str list \<Rightarrow> reply exec" where
  "cmd_xack c argv =
     need_args argv 4 (
     let key = argv ! 1; grp = argv ! 2 in
     try_ex (id_args (drop 3 argv)) (\<lambda>is.
     bind_ex (stream_mut c key False (\<lambda>s.
         case get_group grp s of
           None \<Rightarrow> (s, None)
         | Some g \<Rightarrow> (set_group grp (fst (ack_each is g)) s, Some (snd (ack_each is g))))) (\<lambda>acked.
     case Option.bind acked id of
       None \<Rightarrow> pass (R_Int 0)
     | Some n \<Rightarrow> then_ex (when_ex (n > 0) mark_dirty) (pass (r_int n)))))"

definition pending_counts :: "group \<Rightarrow> (str, nat) btree_map" where
  "pending_counts g =
     fold (\<lambda>p m. bm_insert (pe_consumer p) (case bm_get m (pe_consumer p) of Some n \<Rightarrow> n + 1 | None \<Rightarrow> 1) m)
       (bm_values (grp_pending g)) bm_empty"

definition r_idle :: "u64 \<Rightarrow> u64 \<Rightarrow> reply" where
  "r_idle now t = R_Int (sint (sat_sub now t))"

definition xpending_summary :: "group \<Rightarrow> reply" where
  "xpending_summary g =
     (if bm_len (grp_pending g) = 0 then R_Array [R_Int 0, R_Nil, R_Nil, R_Nil]
      else
        R_Array
          [r_int (bm_len (grp_pending g)),
           R_Bulk (case bm_first (grp_pending g) of Some (i, _) \<Rightarrow> id_to_string i | None \<Rightarrow> []),
           R_Bulk (case bm_last (grp_pending g) of Some (i, _) \<Rightarrow> id_to_string i | None \<Rightarrow> []),
           R_Array (map (\<lambda>(name, n). r_bulks [name, show_nat n]) (bm_entries (pending_counts g)))])"

definition xpending_page :: "u64 \<Rightarrow> id \<Rightarrow> id \<Rightarrow> nat \<Rightarrow> str option \<Rightarrow> u64 \<Rightarrow> group \<Rightarrow> reply" where
  "xpending_page now start stop limit name min_idle g =
     R_Array (map (\<lambda>(i, p). R_Array
         [R_Bulk (id_to_string i), R_Bulk (pe_consumer p), r_idle now (pe_delivered p), R_Int (sint (pe_count p))])
       (take limit
         (filter (\<lambda>(_, p). sat_sub now (pe_delivered p) \<ge> min_idle)
           (filter (\<lambda>(_, p). case name of None \<Rightarrow> True | Some n \<Rightarrow> pe_consumer p = n)
             (bm_between start stop (grp_pending g))))))"

definition cmd_xpending :: "ctx \<Rightarrow> str list \<Rightarrow> reply exec" where
  "cmd_xpending c argv =
     need_args argv 3 (
     ref_ex c as_stream (argv ! 1) (\<lambda>s.
     some_ex (Option.bind s (get_group (argv ! 2))) (no_group (argv ! 1) (argv ! 2) ''XPENDING'') (\<lambda>g.
     if length argv = 3 then pass (xpending_summary g)
     else
       try_ex (if eq_ignore_ascii_case (argv ! 3) ''IDLE''
               then bind_sum (bind_sum (arg_or argv 4) count_arg) (\<lambda>n. Inr (of_nat n, 5))
               else Inr (0, 3)) (\<lambda>(min_idle, i).
       need_ex (length argv \<ge> i + 3) syntax_error (
       try_ex (range_start (argv ! i)) (\<lambda>start.
       try_ex (range_end (argv ! (i + 1))) (\<lambda>stop.
       case stop of
         None \<Rightarrow> pass (R_Array [])
       | Some stop \<Rightarrow>
           try_ex (count_arg (argv ! (i + 2))) (\<lambda>limit.
           if stop < start then pass (R_Array [])
           else pass (xpending_page (cx_now c) start stop limit (arg_at argv (i + 3)) min_idle g)))))))))"

subsection \<open>Claiming\<close>

text \<open>The ids that open the rest of XCLAIM's words, and the options after them.\<close>

fun claim_ids :: "str list \<Rightarrow> id list \<times> str list" where
  "claim_ids [] = ([], [])"
| "claim_ids (w # ws) =
     (case id_arg w 0 of
        Inr i \<Rightarrow> (let (is, rest) = claim_ids ws in (i # is, rest))
      | Inl _ \<Rightarrow> ([], w # ws))"

record claim_options =
  cl_delivered :: u64
  cl_retry :: "u64 option"
  cl_force :: bool
  cl_justid :: bool

definition value_of :: "str list \<Rightarrow> str + nat" where
  "value_of ws = (case ws of [] \<Rightarrow> Inl syntax_error | v # _ \<Rightarrow> count_arg v)"

function claim_words :: "u64 \<Rightarrow> str list \<Rightarrow> claim_options \<Rightarrow> str + claim_options" where
  "claim_words now [] cl = Inr cl"
| "claim_words now (w # ws) cl =
     (let word = to_ascii_uppercase w in
      if word = ''IDLE'' then
        bind_sum (value_of ws) (\<lambda>n. claim_words now (tl ws) (cl\<lparr>cl_delivered := sat_sub now (of_nat n)\<rparr>))
      else if word = ''TIME'' then
        bind_sum (value_of ws) (\<lambda>n. claim_words now (tl ws) (cl\<lparr>cl_delivered := of_nat n\<rparr>))
      else if word = ''RETRYCOUNT'' then
        bind_sum (value_of ws) (\<lambda>n. claim_words now (tl ws) (cl\<lparr>cl_retry := Some (of_nat n)\<rparr>))
      else if word = ''LASTID'' then claim_words now (tl ws) cl
      else if word = ''FORCE'' then claim_words now ws (cl\<lparr>cl_force := True\<rparr>)
      else if word = ''JUSTID'' then claim_words now ws (cl\<lparr>cl_justid := True\<rparr>)
      else Inl syntax_error)"
  by pat_completeness auto

termination
  by (relation "measure (\<lambda>(now, ws, cl). length ws)") auto

definition claim_reply :: "bool \<Rightarrow> id \<Rightarrow> (str \<times> str) list \<Rightarrow> reply" where
  "claim_reply justid i fvs = (if justid then R_Bulk (id_to_string i) else entry_reply i fvs)"

text \<open>The loop over the ids: the pending entries, the replies, and whether any entry was forgotten.\<close>

fun claim_loop ::
  "str \<Rightarrow> u64 \<Rightarrow> u64 \<Rightarrow> claim_options \<Rightarrow> (id, (str \<times> str) list) btree_map \<Rightarrow> id list \<Rightarrow>
   (id, pending_entry) btree_map \<Rightarrow> (id, pending_entry) btree_map \<times> reply list \<times> bool" where
  "claim_loop name now min_idle cl es [] ps = (ps, [], False)"
| "claim_loop name now min_idle cl es (i # is) ps =
     (if \<not> bm_contains ps i \<and> \<not> (cl_force cl \<and> bm_contains es i)
      then claim_loop name now min_idle cl es is ps
      else
        (let ps = (if bm_contains ps i then ps
                   else bm_insert i \<lparr>pe_consumer = name, pe_delivered = cl_delivered cl, pe_count = 0\<rparr> ps)
         in case (bm_get es i, bm_get ps i) of
              (Some fvs, Some p) \<Rightarrow>
                if sat_sub now (pe_delivered p) < min_idle \<and> pe_count p > 0
                then claim_loop name now min_idle cl es is ps
                else
                  (let p = \<lparr>pe_consumer = name, pe_delivered = cl_delivered cl,
                           pe_count = (case cl_retry cl of Some n \<Rightarrow> n
                                       | None \<Rightarrow> pe_count p + (if cl_justid cl then 0 else 1))\<rparr>;
                       (ps, out, lost) = claim_loop name now min_idle cl es is (bm_insert i p ps)
                   in (ps, claim_reply (cl_justid cl) i fvs # out, lost))
            | _ \<Rightarrow>
                (let (ps, out, lost) = claim_loop name now min_idle cl es is (bm_remove i ps)
                 in (ps, out, True))))"

text \<open>\<open>consumers.entry(consumer).or_default().seen = now\<close>.\<close>

definition see_consumer :: "str \<Rightarrow> u64 \<Rightarrow> group \<Rightarrow> group" where
  "see_consumer name now g =
     g\<lparr>grp_consumers := bm_insert name
         ((case bm_get (grp_consumers g) name of Some k \<Rightarrow> k | None \<Rightarrow> consumer_default)\<lparr>con_seen := now\<rparr>)
         (grp_consumers g)\<rparr>"

definition claim :: "str \<Rightarrow> u64 \<Rightarrow> u64 \<Rightarrow> claim_options \<Rightarrow> id list \<Rightarrow> stream \<Rightarrow> group \<Rightarrow> group \<times> reply list \<times> bool" where
  "claim name now min_idle cl is s g =
     (let (ps, out, lost) = claim_loop name now min_idle cl (st_entries s) is (grp_pending g);
          g = g\<lparr>grp_pending := ps\<rparr>
      in (if out \<noteq> [] then see_consumer name now g else g, out, lost \<or> out \<noteq> []))"

definition cmd_xclaim :: "ctx \<Rightarrow> str list \<Rightarrow> reply exec" where
  "cmd_xclaim c argv =
     need_args argv 6 (
     let key = argv ! 1; grp = argv ! 2; name = argv ! 3; now = cx_now c in
     try_ex (count_arg (argv ! 4)) (\<lambda>min_idle.
     let (is, ws) = claim_ids (drop 5 argv) in
     try_ex (claim_words now ws \<lparr>cl_delivered = now, cl_retry = None, cl_force = False, cl_justid = False\<rparr>) (\<lambda>cl.
     group_mut c key grp ''XCLAIM'' (\<lambda>_. Inr ()) (\<lambda>_. claim name now (of_nat min_idle) cl is) (\<lambda>(out, changed).
     then_ex (when_ex changed mark_dirty) (pass (R_Array out))))))"

function autoclaim_words :: "str list \<Rightarrow> nat \<Rightarrow> nat \<Rightarrow> bool \<Rightarrow> str + nat \<times> bool" where
  "autoclaim_words argv i limit justid =
     (if i < length argv then
        (let word = to_ascii_uppercase (argv ! i) in
         if word = ''COUNT'' then
           bind_sum (bind_sum (arg_or argv (i + 1)) count_arg) (\<lambda>n. autoclaim_words argv (i + 2) (max n 1) justid)
         else if word = ''JUSTID'' then autoclaim_words argv (i + 1) limit True
         else Inl syntax_error)
      else Inr (limit, justid))"
  by pat_completeness auto

termination
  by (relation "measure (\<lambda>(argv, i, limit, justid). length argv - i)") auto

declare autoclaim_words.simps [simp del]

fun autoclaim_loop ::
  "str \<Rightarrow> u64 \<Rightarrow> u64 \<Rightarrow> bool \<Rightarrow> (id, (str \<times> str) list) btree_map \<Rightarrow> id list \<Rightarrow>
   (id, pending_entry) btree_map \<Rightarrow> (id, pending_entry) btree_map \<times> reply list \<times> reply list" where
  "autoclaim_loop name now min_idle justid es [] ps = (ps, [], [])"
| "autoclaim_loop name now min_idle justid es (i # is) ps =
     (case (bm_get es i, bm_get ps i) of
        (Some fvs, Some p) \<Rightarrow>
          if sat_sub now (pe_delivered p) < min_idle then autoclaim_loop name now min_idle justid es is ps
          else
            (let p = \<lparr>pe_consumer = name, pe_delivered = now, pe_count = (if justid then pe_count p else pe_count p + 1)\<rparr>;
                 (ps, claimed, deleted) = autoclaim_loop name now min_idle justid es is (bm_insert i p ps)
             in (ps, claim_reply justid i fvs # claimed, deleted))
      | _ \<Rightarrow>
          (let (ps, claimed, deleted) = autoclaim_loop name now min_idle justid es is (bm_remove i ps)
           in (ps, claimed, R_Bulk (id_to_string i) # deleted)))"

definition autoclaim ::
  "str \<Rightarrow> u64 \<Rightarrow> u64 \<Rightarrow> id \<Rightarrow> nat \<Rightarrow> bool \<Rightarrow> stream \<Rightarrow> group \<Rightarrow> group \<times> id \<times> reply list \<times> reply list" where
  "autoclaim name now min_idle start limit justid s g =
     (let candidates = map fst (take limit (bm_from start (grp_pending g)));
          nxt = (case al_last candidates of
                   None \<Rightarrow> id_default
                 | Some l \<Rightarrow> (case bm_after l (grp_pending g) of [] \<Rightarrow> id_default | (i, _) # _ \<Rightarrow> i));
          (ps, claimed, deleted) = autoclaim_loop name now min_idle justid (st_entries s) candidates (grp_pending g);
          g = g\<lparr>grp_pending := ps\<rparr>
      in (if claimed \<noteq> [] \<or> deleted \<noteq> [] then see_consumer name now g else g, nxt, claimed, deleted))"

definition cmd_xautoclaim :: "ctx \<Rightarrow> str list \<Rightarrow> reply exec" where
  "cmd_xautoclaim c argv =
     need_args argv 6 (
     let key = argv ! 1; grp = argv ! 2; name = argv ! 3 in
     try_ex (count_arg (argv ! 4)) (\<lambda>min_idle.
     try_ex (range_start (argv ! 5)) (\<lambda>start.
     try_ex (autoclaim_words argv 6 100 False) (\<lambda>(limit, justid).
     group_mut c key grp ''XAUTOCLAIM'' (\<lambda>_. Inr ())
       (\<lambda>_. autoclaim name (cx_now c) (of_nat min_idle) start limit justid) (\<lambda>(nxt, claimed, deleted).
     then_ex (when_ex (claimed \<noteq> [] \<or> deleted \<noteq> []) mark_dirty)
       (pass (R_Array [R_Bulk (id_to_string nxt), R_Array claimed, R_Array deleted])))))))"

subsection \<open>XINFO\<close>

text \<open>How many entries each group has yet to read, by the last id it read, from one walk.\<close>

fun lag_loop :: "id list \<Rightarrow> id list \<Rightarrow> nat \<Rightarrow> (id \<times> nat) list" where
  "lag_loop [] ahead remaining = []"
| "lag_loop (mark # marks) ahead remaining =
     (let passed = length (takeWhile (\<lambda>i. i \<le> mark) ahead)
      in (mark, remaining - passed) # lag_loop marks (drop passed ahead) (remaining - passed))"

definition lags :: "stream \<Rightarrow> (id \<times> nat) list" where
  "lags s =
     (case remdups (sort (map grp_last_delivered (bm_values (st_groups s)))) of
        [] \<Rightarrow> []
      | first # marks \<Rightarrow>
          (let ahead = map fst (bm_after first (st_entries s)) in lag_loop (first # marks) ahead (length ahead)))"

definition group_lag :: "stream \<Rightarrow> group \<Rightarrow> nat" where
  "group_lag s g = (case map_of (lags s) (grp_last_delivered g) of Some n \<Rightarrow> n | None \<Rightarrow> 0)"

definition xinfo_stream :: "stream \<Rightarrow> reply" where
  "xinfo_stream s =
     (let edge = (\<lambda>e. case e of None \<Rightarrow> R_Nil | Some (i, fvs) \<Rightarrow> entry_reply i fvs) in
      R_Map
        [(''length'', r_int (bm_len (st_entries s))),
         (''last-generated-id'', R_Bulk (id_to_string (st_last_id s))),
         (''max-deleted-entry-id'', R_Bulk (id_to_string (st_max_deleted s))),
         (''entries-added'', R_Int (sint (st_added s))),
         (''groups'', r_int (bm_len (st_groups s))),
         (''first-entry'', edge (bm_first (st_entries s))),
         (''last-entry'', edge (bm_last (st_entries s)))])"

definition xinfo_groups :: "stream \<Rightarrow> reply" where
  "xinfo_groups s =
     R_Array (map (\<lambda>(name, g).
       R_Map
         [(''name'', R_Bulk name),
          (''consumers'', r_int (bm_len (grp_consumers g))),
          (''pending'', r_int (bm_len (grp_pending g))),
          (''last-delivered-id'', R_Bulk (id_to_string (grp_last_delivered g))),
          (''entries-read'', R_Int (sint (grp_read g))),
          (''lag'', r_int (group_lag s g))]) (bm_entries (st_groups s)))"

definition xinfo_consumers :: "u64 \<Rightarrow> group \<Rightarrow> reply" where
  "xinfo_consumers now g =
     R_Array (map (\<lambda>(name, k).
       R_Map
         [(''name'', R_Bulk name),
          (''pending'', r_int (case bm_get (pending_counts g) name of Some n \<Rightarrow> n | None \<Rightarrow> 0)),
          (''idle'', r_idle now (con_seen k)),
          (''inactive'', case con_active k of None \<Rightarrow> R_Int (- 1) | Some a \<Rightarrow> r_idle now a)])
       (bm_entries (grp_consumers g)))"

definition cmd_xinfo :: "ctx \<Rightarrow> str list \<Rightarrow> reply exec" where
  "cmd_xinfo c argv =
     need_args argv 2 (
     let sub = to_ascii_uppercase (argv ! 1); key = argv ! 2 in
     if sub = ''HELP'' then
       pass (r_bulks [''XINFO STREAM <key>'', ''XINFO GROUPS <key>'', ''XINFO CONSUMERS <key> <group>''])
     else if sub \<notin> {''STREAM'', ''GROUPS'', ''CONSUMERS''} then
       refuse (''ERR unknown subcommand '' @ quoted (argv ! 1))
     else
       need_args argv 3 (
       ref_ex c as_stream key (\<lambda>s.
       some_ex s ''ERR no such key'' (\<lambda>s.
       if sub = ''STREAM'' then pass (xinfo_stream s)
       else if sub = ''GROUPS'' then pass (xinfo_groups s)
       else
         exactly argv 4 (
         some_ex (get_group (argv ! 3) s) (no_group key (argv ! 3) ''XINFO'') (\<lambda>g.
         pass (xinfo_consumers (cx_now c) g)))))))"

end
