(* ===== verification/Commands.thy ===== *)
theory Commands
  imports Cmd_Groups
begin

text \<open>
  The interpreter of the keyspace's commands (\<open>Db::exec\<close> and \<open>Exec::dispatch\<close> of
  \<open>src/src/commands.rs\<close>).
\<close>

definition unknown_command :: "str list \<Rightarrow> str" where
  "unknown_command argv =
     ''ERR unknown command '' @ quoted (argv ! 0) @ '', with args beginning with: '' @
     (case map quoted (take 3 (tl argv)) of
        [] \<Rightarrow> []
      | w # ws \<Rightarrow> w @ concat (map (\<lambda>w. '' '' @ w) ws))"

definition dispatch_keys :: "ctx \<Rightarrow> str \<Rightarrow> str list \<Rightarrow> reply exec option" where
  "dispatch_keys c name argv =
     (if name = ''PING'' then Some (cmd_ping argv)
      else if name = ''ECHO'' then Some (cmd_echo argv)
      else if name = ''TIME'' then Some (cmd_time c)
      else if name = ''DBSIZE'' then Some (cmd_dbsize c)
      else if name \<in> {''FLUSHDB'', ''FLUSHALL''} then Some (cmd_flush c)
      else if name = ''COMMAND'' then Some (cmd_command argv)
      else if name \<in> {''DEL'', ''UNLINK''} then Some (cmd_del c argv)
      else if name = ''EXISTS'' then Some (cmd_exists c argv)
      else if name = ''TYPE'' then Some (cmd_type c argv)
      else if name \<in> {''EXPIRE'', ''PEXPIRE'', ''EXPIREAT'', ''PEXPIREAT''} then Some (cmd_expire c name argv)
      else if name \<in> {''TTL'', ''PTTL'', ''EXPIRETIME'', ''PEXPIRETIME''} then Some (cmd_ttl c name argv)
      else if name = ''PERSIST'' then Some (cmd_persist c argv)
      else if name \<in> {''RENAME'', ''RENAMENX''} then Some (cmd_rename c (name = ''RENAMENX'') argv)
      else if name = ''KEYS'' then Some (cmd_keys c argv)
      else if name = ''SCAN'' then Some (cmd_scan c argv)
      else if name = ''GET'' then Some (cmd_get c argv)
      else if name = ''SET'' then Some (cmd_set c argv)
      else if name = ''SETNX'' then Some (cmd_setnx c argv)
      else if name \<in> {''SETEX'', ''PSETEX''} then Some (cmd_setex c name argv)
      else if name = ''GETSET'' then Some (cmd_getset c argv)
      else if name = ''GETDEL'' then Some (cmd_getdel c argv)
      else if name = ''GETEX'' then Some (cmd_getex c argv)
      else if name = ''MGET'' then Some (cmd_mget c argv)
      else if name \<in> {''MSET'', ''MSETNX''} then Some (cmd_mset c name argv)
      else if name = ''APPEND'' then Some (cmd_append c argv)
      else if name = ''STRLEN'' then Some (cmd_strlen c argv)
      else if name \<in> {''INCR'', ''DECR'', ''INCRBY'', ''DECRBY''} then Some (cmd_incr c name argv)
      else if name = ''INCRBYFLOAT'' then Some (cmd_incrbyfloat c argv)
      else if name = ''DELIFEQ'' then Some (cmd_delifeq c argv)
      else None)"

definition dispatch_lists :: "ctx \<Rightarrow> str \<Rightarrow> str list \<Rightarrow> reply exec option" where
  "dispatch_lists c name argv =
     (if name \<in> {''HSET'', ''HMSET''} then Some (cmd_hset c name argv)
      else if name = ''HSETNX'' then Some (cmd_hsetnx c argv)
      else if name = ''HGET'' then Some (cmd_hget c argv)
      else if name = ''HMGET'' then Some (cmd_hmget c argv)
      else if name = ''HGETALL'' then Some (cmd_hgetall c argv)
      else if name = ''HDEL'' then Some (cmd_hdel c argv)
      else if name = ''HEXISTS'' then Some (cmd_hexists c argv)
      else if name = ''HLEN'' then Some (cmd_hlen c argv)
      else if name \<in> {''HKEYS'', ''HVALS''} then Some (cmd_hkeys c name argv)
      else if name \<in> {''HINCRBY'', ''HINCRBYFLOAT''} then Some (cmd_hincrby c name argv)
      else if name \<in> {''LPUSH'', ''RPUSH'', ''LPUSHX'', ''RPUSHX''} then Some (cmd_push c name argv)
      else if name \<in> {''LPOP'', ''RPOP''} then Some (cmd_pop c name argv)
      else if name = ''LLEN'' then Some (cmd_llen c argv)
      else if name = ''LRANGE'' then Some (cmd_lrange c argv)
      else if name = ''LINDEX'' then Some (cmd_lindex c argv)
      else if name = ''LSET'' then Some (cmd_lset c argv)
      else if name = ''LREM'' then Some (cmd_lrem c argv)
      else if name = ''LTRIM'' then Some (cmd_ltrim c argv)
      else if name = ''LINSERT'' then Some (cmd_linsert c argv)
      else if name = ''LMOVE'' then Some (cmd_lmove c argv)
      else if name = ''RPOPLPUSH'' then Some (cmd_rpoplpush c argv)
      else if name \<in> {''BLPOP'', ''BRPOP''} then Some (cmd_blpop c (name = ''BLPOP'') argv)
      else if name = ''BLMOVE'' then Some (cmd_blmove c argv)
      else None)"

definition dispatch_sets :: "ctx \<Rightarrow> str \<Rightarrow> str list \<Rightarrow> reply exec option" where
  "dispatch_sets c name argv =
     (if name = ''SADD'' then Some (cmd_sadd c argv)
      else if name = ''SREM'' then Some (cmd_srem c argv)
      else if name = ''SMEMBERS'' then Some (cmd_smembers c argv)
      else if name = ''SISMEMBER'' then Some (cmd_sismember c argv)
      else if name = ''SMISMEMBER'' then Some (cmd_smismember c argv)
      else if name = ''SCARD'' then Some (cmd_scard c argv)
      else if name \<in> {''SPOP'', ''SRANDMEMBER''} then Some (cmd_spop c (name = ''SPOP'') argv)
      else if name \<in> {''SINTER'', ''SUNION'', ''SDIFF''} then Some (cmd_sets c name argv)
      else if name = ''SMOVE'' then Some (cmd_smove c argv)
      else if name = ''ZADD'' then Some (cmd_zadd c argv)
      else if name = ''ZREM'' then Some (cmd_zrem c argv)
      else if name = ''ZSCORE'' then Some (cmd_zscore c argv)
      else if name = ''ZMSCORE'' then Some (cmd_zmscore c argv)
      else if name = ''ZINCRBY'' then Some (cmd_zincrby c argv)
      else if name = ''ZCARD'' then Some (cmd_zcard c argv)
      else if name = ''ZCOUNT'' then Some (cmd_zcount c argv)
      else if name \<in> {''ZRANK'', ''ZREVRANK''} then Some (cmd_zrank c name argv)
      else if name \<in> {''ZRANGE'', ''ZREVRANGE'', ''ZRANGEBYSCORE'', ''ZREVRANGEBYSCORE''} then
        Some (cmd_zrange c name argv)
      else if name \<in> {''ZPOPMIN'', ''ZPOPMAX''} then Some (cmd_zpop c name argv)
      else if name \<in> {''BZPOPMIN'', ''BZPOPMAX''} then Some (cmd_bzpop c (name = ''BZPOPMIN'') argv)
      else if name = ''ZREMRANGEBYSCORE'' then Some (cmd_zremrangebyscore c argv)
      else if name = ''ZREMRANGEBYRANK'' then Some (cmd_zremrangebyrank c argv)
      else None)"

definition dispatch_streams :: "ctx \<Rightarrow> str \<Rightarrow> str list \<Rightarrow> reply exec option" where
  "dispatch_streams c name argv =
     (if name = ''XADD'' then Some (cmd_xadd c argv)
      else if name = ''XLEN'' then Some (cmd_xlen c argv)
      else if name \<in> {''XRANGE'', ''XREVRANGE''} then Some (cmd_xrange c (name = ''XREVRANGE'') argv)
      else if name = ''XDEL'' then Some (cmd_xdel c argv)
      else if name = ''XTRIM'' then Some (cmd_xtrim c argv)
      else if name = ''XREAD'' then Some (cmd_xread c argv)
      else if name = ''XGROUP'' then Some (cmd_xgroup c argv)
      else if name = ''XREADGROUP'' then Some (cmd_xreadgroup c argv)
      else if name = ''XACK'' then Some (cmd_xack c argv)
      else if name = ''XPENDING'' then Some (cmd_xpending c argv)
      else if name = ''XCLAIM'' then Some (cmd_xclaim c argv)
      else if name = ''XAUTOCLAIM'' then Some (cmd_xautoclaim c argv)
      else if name = ''XINFO'' then Some (cmd_xinfo c argv)
      else None)"

definition dispatch :: "ctx \<Rightarrow> str \<Rightarrow> str list \<Rightarrow> reply exec" where
  "dispatch c name argv =
     (case dispatch_keys c name argv of
        Some m \<Rightarrow> m
      | None \<Rightarrow>
          (case dispatch_lists c name argv of
             Some m \<Rightarrow> m
           | None \<Rightarrow>
               (case dispatch_sets c name argv of
                  Some m \<Rightarrow> m
                | None \<Rightarrow>
                    (case dispatch_streams c name argv of
                       Some m \<Rightarrow> m
                     | None \<Rightarrow> refuse (unknown_command argv)))))"

definition ex_start :: "db \<Rightarrow> u64 list \<Rightarrow> ex" where
  "ex_start d draws =
     \<lparr>ex_db = d, ex_dirty = False, ex_propagate = None, ex_events = [], ex_block = None, ex_draws = draws\<rparr>"

text \<open>
  \<open>Db::exec\<close> with the hashes it may draw: the keyspace after it and its outcome, \<open>None\<close> while it
  waits for more of them.
\<close>

definition exec :: "ctx \<Rightarrow> str list \<Rightarrow> u64 list \<Rightarrow> db \<Rightarrow> db \<times> outcome option" where
  "exec c argv draws d =
     (case (case argv of [] \<Rightarrow> refuse ''ERR empty command'' | _ \<Rightarrow> dispatch c (command_name argv) argv) (ex_start d draws) of
        (s, Inl Starved) \<Rightarrow> (ex_db s, None)
      | (s, Inl (Failed e)) \<Rightarrow>
          (ex_db s, Some \<lparr>oc_reply = R_Error e, oc_dirty = False, oc_propagate = ex_propagate s,
             oc_events = ex_events s, oc_block = ex_block s\<rparr>)
      | (s, Inr r) \<Rightarrow>
          (ex_db s, Some \<lparr>oc_reply = r, oc_dirty = ex_dirty s \<and> \<not> is_error r, oc_propagate = ex_propagate s,
             oc_events = ex_events s, oc_block = ex_block s\<rparr>))"

text \<open>A command as a journal replays it.\<close>

definition exec_replay :: "rust \<Rightarrow> u64 \<Rightarrow> str list \<Rightarrow> db \<Rightarrow> db" where
  "exec_replay ru now argv d = fst (exec (ctx_replay ru now) argv [] d)"

end
