(* ===== verification/Cmd_View.thy ===== *)
theory Cmd_View
  imports Commands
begin

text \<open>
  What a command does, seen through the live keys: the effect of each operation of the keyspace on
  what \<open>get\<close> finds, what a command may reach, and two runs of it side by side, with a rule for every
  way executions are put together.
\<close>

named_theorems steps_intros \<open>what every part of an execution does to its state\<close>
named_theorems sim_intros \<open>two runs of the same part\<close>

subsection \<open>What a read finds\<close>

lemma get_keys: "db_get k now d = (case bm_get (db_keys d) k of Some e \<Rightarrow> if entry_expired now e then None else Some e | None \<Rightarrow> None)"
  by (simp add: db_get_def)

lemma get_same_keys: "db_keys d = db_keys d' \<Longrightarrow> db_get k now d = db_get k now d'"
  by (simp add: get_keys)

lemma get_live: "db_get k now d = Some e \<Longrightarrow> \<not> entry_expired now e"
  by (auto simp: get_keys split: option.splits if_splits)

lemma get_preserve [simp]: "db_get k now (db_preserve ser a d) = db_get k now d"
  by (simp add: get_keys)

lemma get_insert [simp]:
  "db_get k now (db_insert ser a e d) = (if k = a then (if entry_expired now e then None else Some e) else db_get k now d)"
  by (simp add: get_keys db_insert_def Let_def)

lemma get_take [simp]: "db_get k now (fst (db_take ser a d)) = (if k = a then None else db_get k now d)"
  by (simp add: get_keys)

lemma take_pair: "db_take ser a d = (d', r) \<Longrightarrow> r = bm_get (db_keys d) a"
  using take_fields(3) [of ser a d] by simp

lemma delete_keys: "db_keys (fst (db_delete ser a now d)) = bm_remove a (db_keys d)"
  by (simp add: db_delete_def split: prod.split option.split) (metis fst_conv take_fields(1))

lemma get_delete [simp]: "db_get k t (fst (db_delete ser a now d)) = (if k = a then None else db_get k t d)"
  by (simp add: get_keys delete_keys)

lemma delete_there [simp]: "snd (db_delete ser a now d) = (db_get a now d \<noteq> None)"
  by (auto simp: db_delete_def get_keys dest!: take_pair split: prod.split option.split)

lemma remove_keys: "db_keys (fst (db_remove ser a now d)) = bm_remove a (db_keys d)"
  by (simp add: db_remove_def split: prod.split option.split) (metis fst_conv take_fields(1))

lemma get_remove [simp]: "db_get k t (fst (db_remove ser a now d)) = (if k = a then None else db_get k t d)"
  by (simp add: get_keys remove_keys)

lemma remove_there [simp]: "snd (db_remove ser a now d) = db_get a now d"
  by (auto simp: db_remove_def get_keys dest!: take_pair split: prod.split option.split)

lemma get_replace [simp]:
  "db_get k now (fst (db_replace ser a e d)) =
     (if k = a \<and> contains_key d a then (if entry_expired now e then None else Some e) else db_get k now d)"
  by (auto simp: get_keys db_replace_def Let_def contains_key_def split: option.split)

lemma replace_back [simp]: "snd (db_replace ser a e d) = (if contains_key d a then None else Some e)"
  by (auto simp: db_replace_def Let_def contains_key_def split: option.split)

lemma get_clear [simp]: "db_get k now (db_clear ser d) = None"
  by (simp add: get_keys db_clear_def)

lemma deadline_keys [simp]: "db_keys (db_deadline a at d) = db_keys d"
  by (simp add: db_deadline_def reindex_deadlines_def Let_def)

lemma get_deadline [simp]: "db_get k now (db_deadline a at d) = db_get k now d"
  by (simp add: get_keys)

lemma get_prune [simp]:
  "db_get k now (db_prune ser a d) =
     (if k = a then (case db_get k now d of
                       Some e \<Rightarrow> if is_empty_collection (ent_value e) then None else Some e
                     | None \<Rightarrow> None)
      else db_get k now d)"
  by (auto simp: get_keys db_prune_def split: option.split)

lemma get_mut_keys:
  "db_keys (db_get_mut ser a now f d) =
     (case bm_get (db_keys d) a of
        Some e \<Rightarrow> if entry_expired now e then bm_remove a (db_keys d) else bm_update a f (db_keys d)
      | None \<Rightarrow> db_keys d)"
  by (auto simp: db_get_mut_def Let_def intro!: bm_eqI split: option.split)

lemma get_get_mut [simp]:
  "db_get k now (db_get_mut ser a now f d) =
     (if k = a then (case db_get k now d of
                       Some e \<Rightarrow> if entry_expired now (f e) then None else Some (f e)
                     | None \<Rightarrow> None)
      else db_get k now d)"
  by (auto simp: get_keys get_mut_keys split: option.split)

subsection \<open>What every part does\<close>

text \<open>\<open>steps Q m\<close>: from the state before \<open>m\<close> to the state after it, errors included, is \<open>Q\<close>.\<close>

definition steps :: "(ex \<Rightarrow> ex \<Rightarrow> bool) \<Rightarrow> 'a exec \<Rightarrow> bool" where
  "steps Q m \<longleftrightarrow> (\<forall>s. Q s (fst (m s)))"

definition preord :: "('s \<Rightarrow> 's \<Rightarrow> bool) \<Rightarrow> bool" where
  "preord Q \<longleftrightarrow> (\<forall>s. Q s s) \<and> (\<forall>s t u. Q s t \<longrightarrow> Q t u \<longrightarrow> Q s u)"

lemma preordI: "(\<And>s. Q s s) \<Longrightarrow> (\<And>s t u. Q s t \<Longrightarrow> Q t u \<Longrightarrow> Q s u) \<Longrightarrow> preord Q"
  by (auto simp: preord_def)

lemma bind_cases:
  "bind_ex m k s = (case snd (m s) of Inl e \<Rightarrow> (fst (m s), Inl e) | Inr x \<Rightarrow> k x (fst (m s)))"
  by (simp add: bind_ex_def split: prod.split sum.split)

lemma steps_pass [steps_intros]: "preord Q \<Longrightarrow> steps Q (pass x)"
  by (simp add: steps_def pass_def preord_def)

lemma steps_refuse [steps_intros]: "preord Q \<Longrightarrow> steps Q (refuse e)"
  by (simp add: steps_def refuse_def preord_def)

lemma steps_bind [steps_intros]:
  assumes "preord Q" "steps Q m" "\<And>x. steps Q (k x)"
  shows "steps Q (bind_ex m k)"
  unfolding steps_def bind_cases
proof
  fix s
  have a: "Q s (fst (m s))" using assms(2) by (simp add: steps_def)
  show "Q s (fst (case snd (m s) of Inl e \<Rightarrow> (fst (m s), Inl e) | Inr x \<Rightarrow> k x (fst (m s))))"
  proof (cases "snd (m s)")
    case (Inr x)
    have "Q (fst (m s)) (fst (k x (fst (m s))))" using assms(3) by (simp add: steps_def)
    with a assms(1) Inr show ?thesis by (auto simp: preord_def)
  qed (use a in simp)
qed

lemma steps_then [steps_intros]: "preord Q \<Longrightarrow> steps Q m \<Longrightarrow> steps Q n \<Longrightarrow> steps Q (then_ex m n)"
  by (simp add: then_ex_def steps_bind)

lemma steps_try [steps_intros]: "preord Q \<Longrightarrow> (\<And>x. r = Inr x \<Longrightarrow> steps Q (k x)) \<Longrightarrow> steps Q (try_ex r k)"
  by (cases r) (simp_all add: try_ex_def steps_refuse)

lemma steps_need [steps_intros]: "preord Q \<Longrightarrow> (b \<Longrightarrow> steps Q m) \<Longrightarrow> steps Q (need_ex b e m)"
  by (simp add: need_ex_def steps_refuse)

lemma steps_args [steps_intros]:
  "preord Q \<Longrightarrow> (n \<le> length argv \<Longrightarrow> steps Q m) \<Longrightarrow> steps Q (need_args argv n m)"
  "preord Q \<Longrightarrow> (length argv = n \<Longrightarrow> steps Q m) \<Longrightarrow> steps Q (exactly argv n m)"
  "preord Q \<Longrightarrow> steps Q m \<Longrightarrow> steps Q (room_for c len adding m)"
  by (simp_all add: need_args_def exactly_def room_for_def steps_need)

lemma steps_some [steps_intros]: "preord Q \<Longrightarrow> (\<And>x. r = Some x \<Longrightarrow> steps Q (k x)) \<Longrightarrow> steps Q (some_ex r e k)"
  by (cases r) (simp_all add: some_ex_def steps_refuse)

lemma steps_look [steps_intros]: "(\<And>e. steps Q (k e)) \<Longrightarrow> steps Q (look_ex c key k)"
  by (simp add: steps_def look_ex_def)

lemma steps_ref [steps_intros]: "preord Q \<Longrightarrow> (\<And>v. steps Q (k v)) \<Longrightarrow> steps Q (ref_ex c prj key k)"
  by (simp add: ref_ex_def steps_look steps_try)

lemma steps_if [steps_intros]:
  "(b \<Longrightarrow> steps Q m) \<Longrightarrow> (\<not> b \<Longrightarrow> steps Q n) \<Longrightarrow> steps Q (if b then m else n)"
  by simp

lemma steps_when [steps_intros]: "preord Q \<Longrightarrow> steps Q m \<Longrightarrow> steps Q (when_ex b m)"
  by (simp add: when_ex_def steps_pass)

lemma steps_option [steps_intros]:
  "(r = None \<Longrightarrow> steps Q m) \<Longrightarrow> (\<And>x. r = Some x \<Longrightarrow> steps Q (k x)) \<Longrightarrow> steps Q (case r of None \<Rightarrow> m | Some x \<Rightarrow> k x)"
  by (cases r) simp_all

lemma steps_prod [steps_intros]: "(\<And>x y. p = (x, y) \<Longrightarrow> steps Q (k x y)) \<Longrightarrow> steps Q (case p of (x, y) \<Rightarrow> k x y)"
  by (cases p) simp

lemma steps_admit [steps_intros]: "preord Q \<Longrightarrow> steps Q m \<Longrightarrow> steps Q (admit_ex c keys m)"
  by (auto simp: steps_def admit_ex_def try_ex_def refuse_def preord_def split: sum.split)

lemma steps_collect [steps_intros]: "preord Q \<Longrightarrow> steps Q (collect_within rs)"
  by (simp add: collect_within_def steps_try steps_pass)

text \<open>Only some keys, and, where \<open>plain\<close> says so, no other commands to journal instead.\<close>

definition bounded :: "ctx \<Rightarrow> str set \<Rightarrow> bool \<Rightarrow> ex \<Rightarrow> ex \<Rightarrow> bool" where
  "bounded c W plain s t \<longleftrightarrow>
     (\<forall>k. k \<notin> W \<longrightarrow> db_get k (cx_now c) (ex_db t) = db_get k (cx_now c) (ex_db s)) \<and>
     (plain \<longrightarrow> ex_propagate t = ex_propagate s)"

lemma preord_bounded [simp, steps_intros]: "preord (bounded c W plain)"
  by (rule preordI) (auto simp: bounded_def)

lemma bounded_still [steps_intros]:
  "steps (bounded c W plain) (touch c' key event)" "steps (bounded c W plain) mark_dirty"
  "steps (bounded c W plain) (block_ex c' retry timeout)" "steps (bounded c W False) (propagate command)"
  by (simp_all add: steps_def bounded_def touch_def mark_dirty_def block_ex_def propagate_def)

lemma bounded_draw [steps_intros]:
  "(\<And>i. steps (bounded c W plain) (k i)) \<Longrightarrow> steps (bounded c W plain) (draw_ex n k)"
  by (fastforce simp: steps_def draw_ex_def bounded_def split: list.split)

lemma bounded_change:
  "(\<And>d k. k \<notin> W \<Longrightarrow> db_get k (cx_now c) (f d) = db_get k (cx_now c) d) \<Longrightarrow> steps (bounded c W plain) (change_ex f)"
  by (simp add: steps_def bounded_def change_ex_def)

lemma bounded_entry [steps_intros]:
  "key \<in> W \<Longrightarrow> steps (bounded c W plain) (entry_mut c key f)"
  by (auto simp: steps_def bounded_def entry_mut_def)

lemma bounded_ops [steps_intros]:
  "key \<in> W \<Longrightarrow> steps (bounded c W plain) (change_ex (db_insert (ser_of c) key e))"
  "key \<in> W \<Longrightarrow> steps (bounded c W plain) (prune_ex c key)"
  "key \<in> W \<Longrightarrow> steps (bounded c W plain) (take_ex c key)"
  "steps (bounded c W plain) (change_ex (db_deadline key' at))"
  "key \<in> W \<Longrightarrow> steps (bounded c W plain) (change_ex (\<lambda>d. fst (db_delete (ser_of c) key (cx_now c) d)))"
  by (auto intro!: bounded_change simp: prune_ex_def take_ex_def)

lemma bounded_gets [steps_intros]:
  "key \<in> W \<Longrightarrow> steps (bounded c W plain) (remove_ex c key)"
  "key \<in> W \<Longrightarrow> steps (bounded c W plain) (replace_ex c key e)"
  by (auto simp: steps_def bounded_def remove_ex_def replace_ex_def)

lemma bounded_mut [steps_intros]:
  "key \<in> W \<Longrightarrow> steps (bounded c W plain) (mut_ex c prj mk fresh key create f)"
  unfolding mut_ex_def value_mut_def by (intro steps_intros)

end
