(* ===== verification/Cmd_Reach.thy ===== *)
theory Cmd_Reach
  imports Cmd_View
begin

text \<open>
  What a command may reach: every command of \<open>src/src/commands.rs\<close>, flushes apart, leaves each live
  key as it was unless its table \<open>key_spec\<close> names it as one the command may change.
\<close>

text \<open>The keys a command names as ones it may change.\<close>

definition written_keys :: "str list \<Rightarrow> str list" where
  "written_keys argv =
     (case key_args argv of None \<Rightarrow> [] | Some ks \<Rightarrow> map (\<lambda>(i, _). argv ! i) (filter snd ks))"

subsection \<open>Keys and strings\<close>

lemma bounded_store_string [steps_intros]:
  "key \<in> W \<Longrightarrow> steps (bounded c W plain) (store_string c key value expires)"
  unfolding store_string_def deadline_ex_def by (intro steps_intros)

lemma bounded_write_string [steps_intros]:
  "key \<in> W \<Longrightarrow> steps (bounded c W plain) (write_string_keep_ttl c key value)"
  unfolding write_string_keep_ttl_def by (intro steps_intros)

lemma bounded_reads [steps_intros]:
  "steps (bounded c W plain) (cmd_ping argv)" "steps (bounded c W plain) (cmd_echo argv)"
  "steps (bounded c W plain) (cmd_time c)" "steps (bounded c W plain) (cmd_command argv)"
  "steps (bounded c W plain) (cmd_type c argv)" "steps (bounded c W plain) (cmd_ttl c name argv)"
  "steps (bounded c W plain) (cmd_get c argv)" "steps (bounded c W plain) (cmd_strlen c argv)"
  "steps (bounded c W plain) (cmd_hget c argv)" "steps (bounded c W plain) (cmd_hmget c argv)"
  "steps (bounded c W plain) (cmd_hgetall c argv)" "steps (bounded c W plain) (cmd_hexists c argv)"
  "steps (bounded c W plain) (cmd_hlen c argv)" "steps (bounded c W plain) (cmd_hkeys c name argv)"
  "steps (bounded c W plain) (cmd_llen c argv)" "steps (bounded c W plain) (cmd_lrange c argv)"
  "steps (bounded c W plain) (cmd_lindex c argv)" "steps (bounded c W plain) (cmd_smembers c argv)"
  "steps (bounded c W plain) (cmd_sismember c argv)" "steps (bounded c W plain) (cmd_smismember c argv)"
  "steps (bounded c W plain) (cmd_scard c argv)" "steps (bounded c W plain) (cmd_zscore c argv)"
  "steps (bounded c W plain) (cmd_zmscore c argv)" "steps (bounded c W plain) (cmd_zcard c argv)"
  "steps (bounded c W plain) (cmd_zcount c argv)" "steps (bounded c W plain) (cmd_zrank c name argv)"
  "steps (bounded c W plain) (cmd_zrange c name argv)" "steps (bounded c W plain) (cmd_xlen c argv)"
  "steps (bounded c W plain) (cmd_xrange c back argv)" "steps (bounded c W plain) (cmd_xpending c argv)"
  "steps (bounded c W plain) (cmd_xinfo c argv)"
  unfolding cmd_ping_def cmd_echo_def cmd_time_def cmd_command_def cmd_type_def cmd_ttl_def cmd_get_def cmd_strlen_def
    cmd_hget_def cmd_hmget_def cmd_hgetall_def cmd_hexists_def cmd_hlen_def cmd_hkeys_def cmd_llen_def
    cmd_lrange_def cmd_lindex_def cmd_smembers_def cmd_sismember_def cmd_smismember_def cmd_scard_def
    cmd_zscore_def cmd_zmscore_def cmd_zcard_def cmd_zcount_def cmd_zrank_def cmd_zrange_def cmd_xlen_def
    cmd_xrange_def cmd_xpending_def cmd_xinfo_def Let_def
  by (intro steps_intros)+

lemma bounded_walks [steps_intros]:
  "steps (bounded c W plain) (cmd_dbsize c)" "steps (bounded c W plain) (cmd_keys c argv)"
  "steps (bounded c W plain) (cmd_scan c argv)"
proof -
  have s: "steps (bounded c W plain) m" if "\<And>s. \<exists>r. m s = (s, r)" for m :: "reply exec"
    unfolding steps_def
  proof
    fix s show "bounded c W plain s (fst (m s))" using that [of s] by (auto simp: bounded_def)
  qed
  show "steps (bounded c W plain) (cmd_dbsize c)"
    by (rule s) (auto simp: cmd_dbsize_def Let_def pass_def refuse_def split: prod.split option.split)
  show "steps (bounded c W plain) (cmd_keys c argv)"
    by (rule s) (auto simp: cmd_keys_def exactly_def need_ex_def try_ex_def pass_def refuse_def collect_within_def
        split: prod.split option.split sum.split)
  show "steps (bounded c W plain) (cmd_scan c argv)"
    by (rule s) (auto simp: cmd_scan_def try_ex_def pass_def refuse_def split: option.split sum.split)
qed

lemma bounded_del_loop [steps_intros]:
  "set keys \<subseteq> W \<Longrightarrow> steps (bounded c W plain) (del_loop c keys n)"
proof (induction keys arbitrary: n)
  case (Cons key keys)
  have "steps (bounded c W plain) (\<lambda>s. (s\<lparr>ex_db := fst (db_delete (ser_of c) key (cx_now c) (ex_db s))\<rparr>,
      Inr (snd (db_delete (ser_of c) key (cx_now c) (ex_db s)))))"
    using Cons.prems by (auto simp: steps_def bounded_def)
  then show ?case using Cons by (auto intro!: steps_intros)
qed (simp add: steps_intros)

lemma bounded_loops [steps_intros]:
  "steps (bounded c W plain) (exists_loop c keys n)"
  "steps (bounded c W plain) (mget_loop c keys bytes vs)"
proof (induction keys arbitrary: n bytes vs)
  case (Cons key keys)
  { case 1 show ?case by (simp add: Cons steps_intros) }
  { case 2 show ?case by (auto intro!: steps_intros Cons) }
qed (simp_all add: steps_intros)

lemma bounded_any_exists [steps_intros]:
  "(\<And>b. steps (bounded c W plain) (k b)) \<Longrightarrow> steps (bounded c W plain) (any_exists c keys k)"
  by (induction keys) (auto intro!: steps_intros)

lemma bounded_store_all [steps_intros]:
  "fst ` set pairs \<subseteq> W \<Longrightarrow> steps (bounded c W plain) (store_all c pairs)"
  by (induction pairs) (auto intro!: steps_intros)

lemma bounded_keys [steps_intros]:
  "steps (bounded c W plain) (cmd_exists c argv)"
  "steps (bounded c W plain) (cmd_mget c argv)"
  "set (tl argv) \<subseteq> W \<Longrightarrow> steps (bounded c W plain) (cmd_del c argv)"
  "steps (bounded c UNIV plain) (cmd_flush c)"
  unfolding cmd_exists_def cmd_mget_def cmd_del_def cmd_flush_def flush_ex_def
  by (intro steps_intros | assumption | (auto simp: steps_def bounded_def then_ex_def bind_ex_def change_ex_def mark_dirty_def pass_def)[1])+

lemma first_key: "1 < n \<Longrightarrow> (1 < n \<Longrightarrow> a \<in> W) \<Longrightarrow> a \<in> W" by simp

lemma bounded_strings [steps_intros]:
  assumes "1 < length argv \<Longrightarrow> argv ! 1 \<in> W"
  shows "steps (bounded c W plain) (cmd_expire c name argv)" "steps (bounded c W plain) (cmd_persist c argv)"
    "steps (bounded c W plain) (cmd_setnx c argv)" "steps (bounded c W plain) (cmd_setex c name argv)"
    "steps (bounded c W plain) (cmd_getset c argv)" "steps (bounded c W plain) (cmd_getdel c argv)"
    "steps (bounded c W plain) (cmd_getex c argv)" "steps (bounded c W plain) (cmd_append c argv)"
    "steps (bounded c W plain) (cmd_incr c name argv)" "steps (bounded c W plain) (cmd_incrbyfloat c argv)"
    "steps (bounded c W plain) (cmd_delifeq c argv)" "steps (bounded c W plain) (cmd_set c argv)"
  unfolding cmd_expire_def cmd_persist_def cmd_setnx_def cmd_setex_def cmd_getset_def cmd_getdel_def cmd_getex_def
    cmd_append_def cmd_incr_def incr_def cmd_incrbyfloat_def cmd_delifeq_def cmd_set_def deadline_ex_def Let_def
  by (intro steps_intros assms; simp)+

subsection \<open>Hashes, lists, sets and sorted sets\<close>

lemma bounded_renames [steps_intros]:
  assumes "1 < length argv \<Longrightarrow> argv ! 1 \<in> W" "2 < length argv \<Longrightarrow> argv ! 2 \<in> W"
  shows "steps (bounded c W plain) (cmd_rename c nx argv)" "steps (bounded c W plain) (cmd_smove c argv)"
  unfolding cmd_rename_def cmd_smove_def Let_def
  by (intro steps_intros assms; simp)+

lemma bounded_lmove [steps_intros]:
  "src \<in> W \<Longrightarrow> dst \<in> W \<Longrightarrow> steps (bounded c W plain) (lmove c src dst from_left to_left)"
  unfolding lmove_def Let_def by (intro steps_intros; simp)

lemma bounded_moves [steps_intros]:
  assumes "1 < length argv \<Longrightarrow> argv ! 1 \<in> W" "2 < length argv \<Longrightarrow> argv ! 2 \<in> W"
  shows "steps (bounded c W plain) (cmd_lmove c argv)" "steps (bounded c W plain) (cmd_rpoplpush c argv)"
    "steps (bounded c W False) (cmd_blmove c argv)"
  unfolding cmd_lmove_def cmd_rpoplpush_def cmd_blmove_def Let_def
  by (intro steps_intros assms; simp)+

lemma odd_pairs: "fst ` set (pairs_of xs) \<subseteq> {xs ! i | i. even i \<and> i < length xs}"
proof (induction xs rule: pairs_of.induct)
  case (1 a b xs)
  have "{xs ! i | i. even i \<and> i < length xs} \<subseteq> {(a # b # xs) ! i | i. even i \<and> i < length (a # b # xs)}"
    by (auto, rule_tac x="Suc (Suc i)" in exI, simp)
  moreover have "a \<in> {(a # b # xs) ! i | i. even i \<and> i < length (a # b # xs)}" by (auto intro: exI [of _ 0])
  ultimately show ?case using 1 by auto
qed auto

lemma bounded_mset [steps_intros]:
  "(\<And>i. odd i \<Longrightarrow> i < length argv \<Longrightarrow> argv ! i \<in> W) \<Longrightarrow> steps (bounded c W plain) (cmd_mset c name argv)"
proof -
  assume W: "\<And>i. odd i \<Longrightarrow> i < length argv \<Longrightarrow> argv ! i \<in> W"
  have "fst ` set (pairs_of (tl argv)) \<subseteq> W"
    using odd_pairs [of "tl argv"] by (auto simp: nth_tl dest!: subsetD intro!: W)
  then show ?thesis unfolding cmd_mset_def Let_def by (intro steps_intros)
qed

lemma bounded_hashes [steps_intros]:
  assumes "1 < length argv \<Longrightarrow> argv ! 1 \<in> W"
  shows "steps (bounded c W plain) (cmd_hset c name argv)" "steps (bounded c W plain) (cmd_hsetnx c argv)"
    "steps (bounded c W plain) (cmd_hdel c argv)" "steps (bounded c W plain) (cmd_hincrby c name argv)"
    "steps (bounded c W plain) (cmd_push c name argv)" "steps (bounded c W plain) (cmd_pop c name argv)"
    "steps (bounded c W plain) (cmd_lset c argv)" "steps (bounded c W plain) (cmd_lrem c argv)"
    "steps (bounded c W plain) (cmd_ltrim c argv)" "steps (bounded c W plain) (cmd_linsert c argv)"
  unfolding cmd_hset_def cmd_hsetnx_def cmd_hdel_def cmd_hincrby_def cmd_push_def cmd_pop_def cmd_lset_def
    cmd_lrem_def cmd_ltrim_def cmd_linsert_def Let_def
  by (intro steps_intros assms; simp)+

lemma butlast_keys:
  assumes "\<And>i. 1 \<le> i \<Longrightarrow> i < length argv - 1 \<Longrightarrow> argv ! i \<in> W"
  shows "set (butlast (tl argv)) \<subseteq> W"
proof
  fix x assume "x \<in> set (butlast (tl argv))"
  then obtain i where "i < length (tl argv) - 1" "x = butlast (tl argv) ! i" by (auto simp: in_set_conv_nth)
  then show "x \<in> W" using assms [of "Suc i"] by (simp add: nth_butlast nth_tl)
qed

lemma bounded_blpop_loop [steps_intros]:
  "set keys \<subseteq> W \<Longrightarrow> steps (bounded c W False) m \<Longrightarrow> steps (bounded c W False) (blpop_loop c left keys m)"
  by (induction keys) (auto intro!: steps_intros)

lemma bounded_zpop [steps_intros]:
  "key \<in> W \<Longrightarrow> (\<And>out. steps (bounded c W plain) (k out)) \<Longrightarrow> steps (bounded c W plain) (zpop c key mn n k)"
  unfolding zpop_def by (intro steps_intros)

lemma bounded_bzpop_loop [steps_intros]:
  "set keys \<subseteq> W \<Longrightarrow> steps (bounded c W False) m \<Longrightarrow> steps (bounded c W False) (bzpop_loop c mn keys m)"
  by (induction keys) (auto intro!: steps_intros)

lemma bounded_blocks [steps_intros]:
  assumes "\<And>i. 1 \<le> i \<Longrightarrow> i < length argv - 1 \<Longrightarrow> argv ! i \<in> W"
  shows "steps (bounded c W False) (cmd_blpop c left argv)" "steps (bounded c W False) (cmd_bzpop c mn argv)"
  unfolding cmd_blpop_def cmd_bzpop_def
  by (intro steps_intros butlast_keys assms; simp)+

lemma bounded_sample [steps_intros]:
  assumes "\<And>idx. steps (bounded c W plain) (k idx)"
  shows "steps (bounded c W plain) (shuffle_loop m i idx k)" "steps (bounded c W plain) (sample_distinct len n k)"
    "steps (bounded c W plain) (\<lambda>s. case sample_loop len n picked (ex_draws s) of
        None \<Rightarrow> (s\<lparr>ex_draws := []\<rparr>, Inl Starved) | Some (picked, hs) \<Rightarrow> k picked (s\<lparr>ex_draws := hs\<rparr>))"
proof -
  have s: "steps (bounded c W plain) (shuffle_loop m i idx k')" if "\<And>idx. steps (bounded c W plain) (k' idx)"
    for m i idx and k' :: "nat list \<Rightarrow> 'a exec"
    using that by (induction m arbitrary: i idx) (auto intro!: steps_intros)
  show l: "steps (bounded c W plain) (\<lambda>s. case sample_loop len n picked (ex_draws s) of
        None \<Rightarrow> (s\<lparr>ex_draws := []\<rparr>, Inl Starved) | Some (picked, hs) \<Rightarrow> k picked (s\<lparr>ex_draws := hs\<rparr>))"
    for len n picked
    using assms by (fastforce simp: steps_def bounded_def split: option.split prod.split)
  show "steps (bounded c W plain) (shuffle_loop m i idx k)" by (rule s) (rule assms)
  show "steps (bounded c W plain) (sample_distinct len n k)"
    unfolding sample_distinct_def Let_def by (intro steps_intros s l assms)
qed

lemma bounded_pick [steps_intros]:
  assumes "\<And>idx. steps (bounded c W plain) (k idx)"
  shows "steps (bounded c W plain) (pick_repeated m members bytes picked k)"
    "steps (bounded c W plain) (pick_members c pop wanted v k)"
proof -
  show p: "steps (bounded c W plain) (pick_repeated m members bytes picked k)" for m members bytes picked
    using assms by (induction m arbitrary: bytes picked) (auto intro!: steps_intros)
  show "steps (bounded c W plain) (pick_members c pop wanted v k)"
    unfolding pick_members_def Let_def by (intro steps_intros p assms)
qed

lemma bounded_spop [steps_intros]:
  assumes "pop \<Longrightarrow> 1 < length argv \<Longrightarrow> argv ! 1 \<in> W"
  shows "steps (bounded c W False) (cmd_spop c pop argv)"
  unfolding cmd_spop_def Let_def when_ex_def by (intro steps_intros assms; simp)

lemma bounded_named_sets [steps_intros]:
  "(\<And>named. steps (bounded c W plain) (k named)) \<Longrightarrow> steps (bounded c W plain) (named_sets c keys named k)"
  by (induction keys arbitrary: named) (auto intro!: steps_intros)

lemma bounded_zrem_ranked [steps_intros]:
  "key \<in> W \<Longrightarrow> steps (bounded c W plain) (zrem_ranked c key event doomed)"
  unfolding zrem_ranked_def by (intro steps_intros)

lemma bounded_sets [steps_intros]:
  assumes "1 < length argv \<Longrightarrow> argv ! 1 \<in> W"
  shows "steps (bounded c W plain) (cmd_sadd c argv)" "steps (bounded c W plain) (cmd_srem c argv)"
    "steps (bounded c W plain) (cmd_zadd c argv)" "steps (bounded c W plain) (cmd_zrem c argv)"
    "steps (bounded c W plain) (cmd_zincrby c argv)" "steps (bounded c W plain) (cmd_zpop c name argv)"
    "steps (bounded c W plain) (cmd_zremrangebyscore c argv)" "steps (bounded c W plain) (cmd_zremrangebyrank c argv)"
  unfolding cmd_sadd_def cmd_srem_def cmd_zadd_def cmd_zrem_def cmd_zincrby_def cmd_zpop_def
    cmd_zremrangebyscore_def cmd_zremrangebyrank_def Let_def
  by (intro steps_intros assms; simp)+

lemma bounded_set_reads [steps_intros]:
  "steps (bounded c W plain) (cmd_sets c name argv)"
  unfolding cmd_sets_def by (intro steps_intros)

subsection \<open>Streams\<close>

lemma bounded_group_mut [steps_intros]:
  "key \<in> W \<Longrightarrow> (\<And>b. steps (bounded c W plain) (k b)) \<Longrightarrow>
   steps (bounded c W plain) (group_mut c key grp command first f k)"
  unfolding group_mut_def by (intro steps_intros)

lemma bounded_xread_loops [steps_intros]:
  "(\<And>a. steps (bounded c W plain) (k a)) \<Longrightarrow> steps (bounded c W plain) (xread_after c ks after k)"
  "(\<And>a. steps (bounded c W plain) (k' a)) \<Longrightarrow> steps (bounded c W plain) (xread_loop c limit ps bytes out k')"
proof -
  show "(\<And>a. steps (bounded c W plain) (k a)) \<Longrightarrow> steps (bounded c W plain) (xread_after c ks after k)"
    by (induction ks arbitrary: after) (auto intro!: steps_intros)
  show "(\<And>a. steps (bounded c W plain) (k' a)) \<Longrightarrow> steps (bounded c W plain) (xread_loop c limit ps bytes out k')"
    by (induction ps arbitrary: bytes out) (auto intro!: steps_intros)
qed

lemma bounded_xread [steps_intros]: "steps (bounded c W plain) (cmd_xread c argv)"
  unfolding cmd_xread_def by (intro steps_intros)

lemma bounded_streams [steps_intros]:
  assumes "1 < length argv \<Longrightarrow> argv ! 1 \<in> W"
  shows "steps (bounded c W plain) (cmd_xadd c argv)" "steps (bounded c W plain) (cmd_xdel c argv)"
    "steps (bounded c W plain) (cmd_xtrim c argv)" "steps (bounded c W plain) (cmd_xack c argv)"
    "steps (bounded c W plain) (cmd_xclaim c argv)" "steps (bounded c W plain) (cmd_xautoclaim c argv)"
  unfolding cmd_xadd_def cmd_xdel_def cmd_xtrim_def cmd_xack_def cmd_xclaim_def cmd_xautoclaim_def Let_def
  by (intro steps_intros assms; simp)+

lemma bounded_xgroup [steps_intros]:
  assumes "2 < length argv \<Longrightarrow> argv ! 2 \<in> W"
  shows "steps (bounded c W plain) (cmd_xgroup c argv)"
  unfolding cmd_xgroup_def xgroup_create_def xgroup_setid_def xgroup_destroy_def xgroup_consumer_def Let_def
  by (intro steps_intros assms; simp)

lemma bounded_xreadgroup_loops [steps_intros]:
  "steps (bounded c W plain) m \<Longrightarrow> steps (bounded c W plain) (xreadgroup_check c grp name limit ks named bytes m)"
  "fst ` set ks \<subseteq> W \<Longrightarrow> (\<And>out new. steps (bounded c W plain) (k out new)) \<Longrightarrow>
   steps (bounded c W plain) (xreadgroup_loop c grp name limit noack ks out new k)"
proof -
  show "steps (bounded c W plain) m \<Longrightarrow> steps (bounded c W plain) (xreadgroup_check c grp name limit ks named bytes m)"
    by (induction ks arbitrary: named bytes) (auto intro!: steps_intros)
  show "fst ` set ks \<subseteq> W \<Longrightarrow> (\<And>out new. steps (bounded c W plain) (k out new)) \<Longrightarrow>
   steps (bounded c W plain) (xreadgroup_loop c grp name limit noack ks out new k)"
    by (induction ks arbitrary: out new) (auto intro!: steps_intros)
qed

subsection \<open>Readers of a group\<close>

lemma read_words_keys:
  "read_words argv i ro = Inr r \<Longrightarrow> stream_walk argv i = (a, b) \<Longrightarrow>
   ro_keys r = map ((!) argv) [a..<b] \<and> b \<le> length argv"
proof (induction argv i ro arbitrary: r rule: read_words.induct)
  case (1 argv i ro)
  show ?case
  proof (cases "i < length argv")
    case True
    have t: "take h (drop j argv) = map ((!) argv) [j..<j + h]" if "j + h \<le> length argv" for h j
      using that by (auto simp: list_eq_iff_nth_eq)
    note w = read_words.simps [of argv i ro] stream_walk.simps [of argv i]
    consider "to_ascii_uppercase (argv ! i) = ''COUNT''" | "to_ascii_uppercase (argv ! i) = ''BLOCK''"
      | "to_ascii_uppercase (argv ! i) = ''NOACK''" | "to_ascii_uppercase (argv ! i) = ''STREAMS''"
      | "to_ascii_uppercase (argv ! i) \<notin> {''COUNT'', ''BLOCK'', ''NOACK'', ''STREAMS''}"
      by blast
    then show ?thesis
    proof cases
      case 1
      then show ?thesis using "1.IH" "1.prems" True w
        by (auto simp: arg_or_def arg_at_def bind_sum_def Let_def split: sum.splits)
    next
      case 2
      then show ?thesis using "1.IH" "1.prems" True w
        by (auto simp: arg_or_def arg_at_def bind_sum_def Let_def split: sum.splits)
    next
      case 3
      then show ?thesis using "1.IH" "1.prems" True w
        by (auto simp: arg_or_def arg_at_def bind_sum_def Let_def split: sum.splits)
    next
      case 4
      then show ?thesis using "1.prems" True w
        by (auto simp: arg_or_def arg_at_def bind_sum_def Let_def t split: if_splits)
    next
      case 5
      then show ?thesis using "1.prems" True w
        by (auto simp: arg_or_def arg_at_def bind_sum_def Let_def)
    qed
  qed (use 1 read_words.simps [of argv i ro] in \<open>simp add: arg_or_def arg_at_def bind_sum_def\<close>)
qed

lemma bounded_xreadgroup [steps_intros]:
  assumes "\<And>a b i. stream_walk argv 4 = (a, b) \<Longrightarrow> a \<le> i \<Longrightarrow> i < b \<Longrightarrow> i < length argv \<Longrightarrow> argv ! i \<in> W"
  shows "steps (bounded c W plain) (cmd_xreadgroup c argv)"
proof -
  obtain a b where ab: "stream_walk argv 4 = (a, b)" by fastforce
  have "fst ` set (zip (ro_keys r) ids) \<subseteq> W" if "read_words argv 4 ro_default = Inr r" for r ids
    using read_words_keys [OF that ab] assms [OF ab] by (auto dest!: set_zip_leftD)
  then show ?thesis
    unfolding cmd_xreadgroup_def Let_def by (intro steps_intros) 
qed

lemma written_specs:
  "key_spec (command_name argv) = Some (Keys_First True) \<Longrightarrow> 1 < length argv \<Longrightarrow> argv ! 1 \<in> set (written_keys argv)"
  "key_spec (command_name argv) = Some (Keys_All True) \<Longrightarrow> x \<in> set (tl argv) \<Longrightarrow> x \<in> set (written_keys argv)"
  "key_spec (command_name argv) = Some Keys_Pairs \<Longrightarrow> odd i \<Longrightarrow> i < length argv \<Longrightarrow> argv ! i \<in> set (written_keys argv)"
  "key_spec (command_name argv) = Some Keys_Two \<Longrightarrow> 1 < length argv \<Longrightarrow> argv ! 1 \<in> set (written_keys argv)"
  "key_spec (command_name argv) = Some Keys_Two \<Longrightarrow> 2 < length argv \<Longrightarrow> argv ! 2 \<in> set (written_keys argv)"
  "key_spec (command_name argv) = Some Keys_AllButLast \<Longrightarrow> 1 \<le> i \<Longrightarrow> i < length argv - 1 \<Longrightarrow>
     argv ! i \<in> set (written_keys argv)"
  "key_spec (command_name argv) = Some (Keys_Second True) \<Longrightarrow> 2 < length argv \<Longrightarrow> argv ! 2 \<in> set (written_keys argv)"
  "key_spec (command_name argv) = Some (Keys_Streams 4 True) \<Longrightarrow> stream_walk argv 4 = (a, b) \<Longrightarrow> a \<le> i \<Longrightarrow> i < b \<Longrightarrow>
     i < length argv \<Longrightarrow> argv ! i \<in> set (written_keys argv)"
proof -
  have m: "argv ! i \<in> set (written_keys argv)" if "key_args argv = Some ks" "(i, True) \<in> set ks" for i ks
    using that by (force simp: written_keys_def)
  note k = key_args_def Let_def
  show "key_spec (command_name argv) = Some (Keys_First True) \<Longrightarrow> 1 < length argv \<Longrightarrow> argv ! 1 \<in> set (written_keys argv)"
    by (rule m, simp add: k, simp)
  { assume a: "key_spec (command_name argv) = Some (Keys_All True)" and "x \<in> set (tl argv)"
    then obtain i where "i < length (tl argv)" "x = tl argv ! i" by (auto simp: in_set_conv_nth)
    then have "x = argv ! Suc i" "Suc i < length argv" by (auto simp: nth_tl)
    then show "x \<in> set (written_keys argv)" by (simp, intro m, simp add: a k, simp) }
  show "key_spec (command_name argv) = Some Keys_Pairs \<Longrightarrow> odd i \<Longrightarrow> i < length argv \<Longrightarrow> argv ! i \<in> set (written_keys argv)"
    by (rule m, simp add: k) (auto intro: odd_pos Suc_leI)
  show "key_spec (command_name argv) = Some Keys_Two \<Longrightarrow> 1 < length argv \<Longrightarrow> argv ! 1 \<in> set (written_keys argv)"
    by (rule m, simp add: k, simp)
  show "key_spec (command_name argv) = Some Keys_Two \<Longrightarrow> 2 < length argv \<Longrightarrow> argv ! 2 \<in> set (written_keys argv)"
    by (rule m, simp add: k, simp)
  show "key_spec (command_name argv) = Some Keys_AllButLast \<Longrightarrow> 1 \<le> i \<Longrightarrow> i < length argv - 1 \<Longrightarrow>
     argv ! i \<in> set (written_keys argv)"
    by (rule m, simp add: k, simp)
  show "key_spec (command_name argv) = Some (Keys_Second True) \<Longrightarrow> 2 < length argv \<Longrightarrow> argv ! 2 \<in> set (written_keys argv)"
    by (rule m, simp add: k, simp)
  show "key_spec (command_name argv) = Some (Keys_Streams 4 True) \<Longrightarrow> stream_walk argv 4 = (a, b) \<Longrightarrow> a \<le> i \<Longrightarrow> i < b \<Longrightarrow>
     i < length argv \<Longrightarrow> argv ! i \<in> set (written_keys argv)"
    by (rule m, simp add: k, simp)
qed

text \<open>A command found in a table does what each command of the table does.\<close>

definition found :: "(ex \<Rightarrow> ex \<Rightarrow> bool) \<Rightarrow> 'a exec option \<Rightarrow> bool" where
  "found Q r \<longleftrightarrow> (\<forall>m. r = Some m \<longrightarrow> steps Q m)"

lemma found_intros:
  "found Q None"
  "(b \<Longrightarrow> steps Q m) \<Longrightarrow> found Q r \<Longrightarrow> found Q (if b then Some m else r)"
  by (simp_all add: found_def)

lemma key_specs:
  "key_spec ''DEL'' = Some (Keys_All True)"
  "key_spec ''UNLINK'' = Some (Keys_All True)"
  "key_spec ''MSET'' = Some Keys_Pairs"
  "key_spec ''MSETNX'' = Some Keys_Pairs"
  "key_spec ''BLMOVE'' = Some Keys_Two"
  "key_spec ''LMOVE'' = Some Keys_Two"
  "key_spec ''RENAME'' = Some Keys_Two"
  "key_spec ''RENAMENX'' = Some Keys_Two"
  "key_spec ''RPOPLPUSH'' = Some Keys_Two"
  "key_spec ''SMOVE'' = Some Keys_Two"
  "key_spec ''BLPOP'' = Some Keys_AllButLast"
  "key_spec ''BRPOP'' = Some Keys_AllButLast"
  "key_spec ''BZPOPMAX'' = Some Keys_AllButLast"
  "key_spec ''BZPOPMIN'' = Some Keys_AllButLast"
  "key_spec ''XREADGROUP'' = Some (Keys_Streams 4 True)"
  "key_spec ''XGROUP'' = Some (Keys_Second True)"
  "key_spec ''APPEND'' = Some (Keys_First True)"
  "key_spec ''DECR'' = Some (Keys_First True)"
  "key_spec ''DECRBY'' = Some (Keys_First True)"
  "key_spec ''DELIFEQ'' = Some (Keys_First True)"
  "key_spec ''EXPIRE'' = Some (Keys_First True)"
  "key_spec ''EXPIREAT'' = Some (Keys_First True)"
  "key_spec ''GETDEL'' = Some (Keys_First True)"
  "key_spec ''GETEX'' = Some (Keys_First True)"
  "key_spec ''GETSET'' = Some (Keys_First True)"
  "key_spec ''HDEL'' = Some (Keys_First True)"
  "key_spec ''HINCRBY'' = Some (Keys_First True)"
  "key_spec ''HINCRBYFLOAT'' = Some (Keys_First True)"
  "key_spec ''HMSET'' = Some (Keys_First True)"
  "key_spec ''HSET'' = Some (Keys_First True)"
  "key_spec ''HSETNX'' = Some (Keys_First True)"
  "key_spec ''INCR'' = Some (Keys_First True)"
  "key_spec ''INCRBY'' = Some (Keys_First True)"
  "key_spec ''INCRBYFLOAT'' = Some (Keys_First True)"
  "key_spec ''LINSERT'' = Some (Keys_First True)"
  "key_spec ''LPOP'' = Some (Keys_First True)"
  "key_spec ''LPUSH'' = Some (Keys_First True)"
  "key_spec ''LPUSHX'' = Some (Keys_First True)"
  "key_spec ''LREM'' = Some (Keys_First True)"
  "key_spec ''LSET'' = Some (Keys_First True)"
  "key_spec ''LTRIM'' = Some (Keys_First True)"
  "key_spec ''PERSIST'' = Some (Keys_First True)"
  "key_spec ''PEXPIRE'' = Some (Keys_First True)"
  "key_spec ''PEXPIREAT'' = Some (Keys_First True)"
  "key_spec ''PSETEX'' = Some (Keys_First True)"
  "key_spec ''RPOP'' = Some (Keys_First True)"
  "key_spec ''RPUSH'' = Some (Keys_First True)"
  "key_spec ''RPUSHX'' = Some (Keys_First True)"
  "key_spec ''SADD'' = Some (Keys_First True)"
  "key_spec ''SET'' = Some (Keys_First True)"
  "key_spec ''SETEX'' = Some (Keys_First True)"
  "key_spec ''SETNX'' = Some (Keys_First True)"
  "key_spec ''SPOP'' = Some (Keys_First True)"
  "key_spec ''SREM'' = Some (Keys_First True)"
  "key_spec ''XACK'' = Some (Keys_First True)"
  "key_spec ''XADD'' = Some (Keys_First True)"
  "key_spec ''XAUTOCLAIM'' = Some (Keys_First True)"
  "key_spec ''XCLAIM'' = Some (Keys_First True)"
  "key_spec ''XDEL'' = Some (Keys_First True)"
  "key_spec ''XTRIM'' = Some (Keys_First True)"
  "key_spec ''ZADD'' = Some (Keys_First True)"
  "key_spec ''ZINCRBY'' = Some (Keys_First True)"
  "key_spec ''ZPOPMAX'' = Some (Keys_First True)"
  "key_spec ''ZPOPMIN'' = Some (Keys_First True)"
  "key_spec ''ZREM'' = Some (Keys_First True)"
  "key_spec ''ZREMRANGEBYRANK'' = Some (Keys_First True)"
  "key_spec ''ZREMRANGEBYSCORE'' = Some (Keys_First True)"
  by (simp_all add: key_spec_def)

lemma bounded_dispatch_keys:
  assumes name: "command_name argv = name" and flush: "name \<notin> {''FLUSHALL'', ''FLUSHDB''}"
  shows "found (bounded c (set (written_keys argv)) False) (dispatch_keys c name argv)"
  unfolding dispatch_keys_def
  by (intro found_intros) (use name flush in \<open>auto simp: key_specs intro!: steps_intros intro: written_specs\<close>)

lemma bounded_dispatch_lists:
  assumes name: "command_name argv = name"
  shows "found (bounded c (set (written_keys argv)) False) (dispatch_lists c name argv)"
  unfolding dispatch_lists_def
  by (intro found_intros) (use name in \<open>auto simp: key_specs intro!: steps_intros intro: written_specs\<close>)

lemma bounded_dispatch_sets:
  assumes name: "command_name argv = name"
  shows "found (bounded c (set (written_keys argv)) False) (dispatch_sets c name argv)"
  unfolding dispatch_sets_def
  by (intro found_intros) (use name in \<open>auto simp: key_specs intro!: steps_intros intro: written_specs\<close>)

lemma bounded_dispatch_streams:
  assumes name: "command_name argv = name"
  shows "found (bounded c (set (written_keys argv)) False) (dispatch_streams c name argv)"
  unfolding dispatch_streams_def
  by (intro found_intros) (use name in \<open>auto simp: key_specs intro!: steps_intros intro: written_specs\<close>)

subsection \<open>The dispatch\<close>

lemma bounded_dispatch:
  assumes "command_name argv \<notin> {''FLUSHALL'', ''FLUSHDB''}"
  shows "steps (bounded c (set (written_keys argv)) False) (dispatch c (command_name argv) argv)"
proof -
  have p: "preord (bounded c (set (written_keys argv)) False)" by (rule preord_bounded)
  show ?thesis
    using bounded_dispatch_keys [OF refl assms] bounded_dispatch_lists [OF refl] bounded_dispatch_sets [OF refl]
      bounded_dispatch_streams [OF refl]
    unfolding dispatch_def found_def by (auto intro: steps_refuse [OF p] split: option.split)
qed

lemma exec_steps:
  assumes "preord Q" "steps Q (dispatch c (command_name argv) argv)"
  shows "\<exists>s. Q (ex_start d draws) s \<and> ex_db s = fst (exec c argv draws d)"
proof (cases argv)
  case Nil
  then show ?thesis using assms(1) by (auto simp: exec_def refuse_def preord_def ex_start_def)
next
  case (Cons w ws)
  then show ?thesis using assms(2)
    by (auto simp: exec_def steps_def intro!: exI [of _ "fst (dispatch c (command_name argv) argv (ex_start d draws))"]
        split: prod.split sum.split stop.split)
qed

text \<open>
  C22: A command reaches only the keys it names. Whatever it is given and whatever it answers, an
  error included, a command that is no flush leaves every live key as it was, value and deadline,
  except those \<open>key_args\<close> lists as ones it may change: the list a token's scopes were checked against.
\<close>

theorem commands_reach_named_keys:
  assumes "command_name argv \<notin> {''FLUSHALL'', ''FLUSHDB''}"
    and "\<And>ks i. key_args argv = Some ks \<Longrightarrow> (i, True) \<in> set ks \<Longrightarrow> argv ! i \<noteq> key"
  shows "db_get key (cx_now c) (fst (exec c argv draws d)) = db_get key (cx_now c) d"
proof -
  have "key \<notin> set (written_keys argv)"
    using assms(2) by (cases "key_args argv") (auto simp: written_keys_def, blast)
  moreover obtain s where "bounded c (set (written_keys argv)) False (ex_start d draws) s"
      "ex_db s = fst (exec c argv draws d)"
    using exec_steps [OF preord_bounded bounded_dispatch [OF assms(1)]] by blast
  ultimately show ?thesis by (simp add: bounded_def ex_start_def)
qed

definition reach_rust :: rust where
  "reach_rust = \<lparr>ru_ser = (\<lambda>_ _. Some []), ru_display = (\<lambda>_. []), ru_display17 = (\<lambda>_. []), ru_debug = id\<rparr>"

definition reach_db :: db where
  "reach_db = db_insert (\<lambda>_ _. Some []) ''b'' (entry_new (V_String ''1'')) db_default"

lemma commands_reach_named_keys_witness:
  "db_get ''b'' 5 (fst (exec (ctx_replay reach_rust 5) [''SET'', ''a'', ''2''] [] reach_db)) =
     Some (entry_new (V_String ''1''))"
proof -
  let ?argv = "[''SET'', ''a'', ''2'']" and ?c = "ctx_replay reach_rust 5"
  have k: "key_args ?argv = Some [(1, True)]" and n: "command_name ?argv \<notin> {''FLUSHALL'', ''FLUSHDB''}" by code_simp+
  have "db_get ''b'' (cx_now ?c) (fst (exec ?c ?argv [] reach_db)) = db_get ''b'' (cx_now ?c) reach_db"
    by (rule commands_reach_named_keys [OF n]) (auto simp: k)
  moreover have "db_get ''b'' 5 reach_db = Some (entry_new (V_String ''1''))" by code_simp
  moreover have "cx_now ?c = 5" by (simp add: ctx_replay_def)
  ultimately show ?thesis by simp
qed

end
