(* ===== verification/Cmd_Sim.thy ===== *)
theory Cmd_Sim
  imports Cmd_Reach
begin

text \<open>
  Two runs of a command side by side: once as a client asks for it, once more as a journal replays it,
  on keyspaces with the same live keys.
\<close>

subsection \<open>What a journal keeps of a key\<close>

text \<open>When a consumer was last seen is set by reads that change nothing else, and is not journaled.\<close>

definition durable_consumer :: "consumer \<Rightarrow> consumer" where
  "durable_consumer k = k\<lparr>con_seen := 0\<rparr>"

definition durable_group :: "group \<Rightarrow> group" where
  "durable_group g = g\<lparr>grp_consumers := bm_map (\<lambda>_. durable_consumer) (grp_consumers g)\<rparr>"

definition durable_stream :: "stream \<Rightarrow> stream" where
  "durable_stream s = s\<lparr>st_groups := bm_map (\<lambda>_. durable_group) (st_groups s)\<rparr>"

fun durable_value :: "kvalue \<Rightarrow> kvalue" where
  "durable_value (V_Stream s) = V_Stream (durable_stream s)"
| "durable_value v = v"

definition durable :: "kentry \<Rightarrow> kentry" where
  "durable e = e\<lparr>ent_value := durable_value (ent_value e)\<rparr>"

text \<open>Two keyspaces with the same live keys, holding the same but for that.\<close>

definition agree :: "u64 \<Rightarrow> db \<Rightarrow> db \<Rightarrow> bool" where
  "agree now d d' \<longleftrightarrow> (\<forall>k. map_option durable (db_get k now d) = map_option durable (db_get k now d'))"

lemma agree_refl [simp]: "agree now d d"
  by (simp add: agree_def)

lemma agree_trans: "agree now d d' \<Longrightarrow> agree now d' d'' \<Longrightarrow> agree now d d''"
  by (simp add: agree_def)

lemma agree_sym: "agree now d d' \<Longrightarrow> agree now d' d"
  by (simp add: agree_def)

lemma durable_parts [simp]:
  "ent_expires (durable e) = ent_expires e" "ent_value (durable e) = durable_value (ent_value e)"
  "entry_expired now (durable e) = entry_expired now e"
  "is_empty_collection (durable_value v) = is_empty_collection v"
  by (simp_all add: durable_def entry_expired_def) (cases v; simp)

lemma durable_eqD:
  assumes "durable e = durable e'"
  shows "ent_expires e = ent_expires e'" "durable_value (ent_value e) = durable_value (ent_value e')"
    "entry_expired now e = entry_expired now e'"
    "is_empty_collection (ent_value e) = is_empty_collection (ent_value e')"
proof -
  show x: "ent_expires e = ent_expires e'" using arg_cong [OF assms, of ent_expires] by simp
  show v: "durable_value (ent_value e) = durable_value (ent_value e')"
    using arg_cong [OF assms, of ent_value] by simp
  show "entry_expired now e = entry_expired now e'" using x by (simp add: entry_expired_def)
  show "is_empty_collection (ent_value e) = is_empty_collection (ent_value e')"
    using arg_cong [OF v, of is_empty_collection] by simp
qed

lemma durable_eqI:
  "ent_expires e = ent_expires e' \<Longrightarrow> durable_value (ent_value e) = durable_value (ent_value e') \<Longrightarrow> durable e = durable e'"
  by (cases e; cases e') (simp add: durable_def)

lemma agreeD:
  assumes "agree now d d'"
  shows "db_get k now d = None \<longleftrightarrow> db_get k now d' = None"
    and "db_get k now d = Some e \<Longrightarrow> \<exists>e'. db_get k now d' = Some e' \<and> durable e = durable e'"
proof -
  have m: "map_option durable (db_get k now d) = map_option durable (db_get k now d')"
    using assms by (simp add: agree_def)
  show "db_get k now d = None \<longleftrightarrow> db_get k now d' = None"
    using m by (cases "db_get k now d"; cases "db_get k now d'") simp_all
  show "db_get k now d = Some e \<Longrightarrow> \<exists>e'. db_get k now d' = Some e' \<and> durable e = durable e'"
    using m by (cases "db_get k now d'") simp_all
qed

lemma agree_cases:
  assumes "agree now d d'"
  obtains "db_get k now d = None" "db_get k now d' = None"
    | e e' where "db_get k now d = Some e" "db_get k now d' = Some e'" "durable e = durable e'"
  using agreeD [OF assms, of k] by (cases "db_get k now d") auto

subsection \<open>Two runs\<close>

text \<open>
  \<open>sim now R m m'\<close>: wherever \<open>m\<close> returns, \<open>m'\<close> returns too, started from a keyspace that agrees,
  with a result related by \<open>R\<close> and a keyspace that still agrees.
\<close>

definition sim :: "u64 \<Rightarrow> ('a \<Rightarrow> 'b \<Rightarrow> bool) \<Rightarrow> 'a exec \<Rightarrow> 'b exec \<Rightarrow> bool" where
  "sim now R m m' \<longleftrightarrow>
     (\<forall>s s' t x. agree now (ex_db s) (ex_db s') \<longrightarrow> m s = (t, Inr x) \<longrightarrow>
        (\<exists>t' x'. m' s' = (t', Inr x') \<and> R x x' \<and> agree now (ex_db t) (ex_db t')))"

lemma simI:
  assumes "\<And>s s' t x. agree now (ex_db s) (ex_db s') \<Longrightarrow> m s = (t, Inr x) \<Longrightarrow>
    \<exists>t' x'. m' s' = (t', Inr x') \<and> R x x' \<and> agree now (ex_db t) (ex_db t')"
  shows "sim now R m m'"
  using assms by (simp add: sim_def)

lemma simD:
  assumes "sim now R m m'" "agree now (ex_db s) (ex_db s')" "m s = (t, Inr x)"
  obtains t' x' where "m' s' = (t', Inr x')" "R x x'" "agree now (ex_db t) (ex_db t')"
  using assms unfolding sim_def by blast

text \<open>The context a journal replays the command in.\<close>

abbreviation again :: "ctx \<Rightarrow> ctx" where
  "again c \<equiv> ctx_replay (cx_rust c) (cx_now c)"

lemma again_simps [simp]:
  "cx_now (ctx_replay ru now) = now" "cx_rust (ctx_replay ru now) = ru" "cx_replay (ctx_replay ru now)"
  "acc_admin (cx_access (ctx_replay ru now))" "float_text (again c) = float_text c"
  by (simp_all add: ctx_replay_def access_admin_def float_text_def)

lemma sim_pass [sim_intros]: "R x x' \<Longrightarrow> sim now R (pass x) (pass x')"
  by (simp add: sim_def pass_def)

lemma sim_refuse [sim_intros]: "sim now R (refuse e) m'"
  by (simp add: sim_def refuse_def)

lemma sim_bind [sim_intros]:
  assumes "sim now (=) m m'" "\<And>x. sim now R (k x) (k' x)"
  shows "sim now R (bind_ex m k) (bind_ex m' k')"
proof (rule simI)
  fix s s' t :: ex and x
  assume a: "agree now (ex_db s) (ex_db s')" and r: "bind_ex m k s = (t, Inr x)"
  obtain u y where m: "m s = (u, Inr y)" "k y u = (t, Inr x)"
    using r by (auto simp: bind_ex_def split: prod.splits sum.splits)
  obtain u' where m': "m' s' = (u', Inr y)" "agree now (ex_db u) (ex_db u')"
    using simD [OF assms(1) a m(1)] by blast
  obtain t' x' where "k' y u' = (t', Inr x')" "R x x'" "agree now (ex_db t) (ex_db t')"
    using simD [OF assms(2) m'(2) m(2)] by blast
  then show "\<exists>t' x'. bind_ex m' k' s' = (t', Inr x') \<and> R x x' \<and> agree now (ex_db t) (ex_db t')"
    using m'(1) by (simp add: bind_ex_def)
qed

lemma sim_then [sim_intros]: "sim now (=) m m' \<Longrightarrow> sim now R n n' \<Longrightarrow> sim now R (then_ex m n) (then_ex m' n')"
  by (simp add: then_ex_def sim_bind)

lemma sim_try [sim_intros]: "(\<And>x. r = Inr x \<Longrightarrow> sim now R (k x) (k' x)) \<Longrightarrow> sim now R (try_ex r k) (try_ex r k')"
  by (cases r) (simp_all add: try_ex_def sim_refuse)

lemma sim_need [sim_intros]: "(b \<Longrightarrow> sim now R m m') \<Longrightarrow> sim now R (need_ex b e m) (need_ex b e' m')"
  by (simp add: need_ex_def sim_refuse)

lemma sim_args [sim_intros]:
  "(n \<le> length argv \<Longrightarrow> sim now R m m') \<Longrightarrow> sim now R (need_args argv n m) (need_args argv n m')"
  "(length argv = n \<Longrightarrow> sim now R m m') \<Longrightarrow> sim now R (exactly argv n m) (exactly argv n m')"
  "sim now R m m' \<Longrightarrow> sim now R (room_for c len adding m) (room_for (again c) len' adding' m')"
proof -
  show "(n \<le> length argv \<Longrightarrow> sim now R m m') \<Longrightarrow> sim now R (need_args argv n m) (need_args argv n m')"
    "(length argv = n \<Longrightarrow> sim now R m m') \<Longrightarrow> sim now R (exactly argv n m) (exactly argv n m')"
    by (simp_all add: need_args_def exactly_def sim_need)
  show "sim now R m m' \<Longrightarrow> sim now R (room_for c len adding m) (room_for (again c) len' adding' m')"
    by (simp add: room_for_def need_ex_def sim_refuse)
qed

lemma sim_some [sim_intros]: "(\<And>x. r = Some x \<Longrightarrow> sim now R (k x) (k' x)) \<Longrightarrow> sim now R (some_ex r e k) (some_ex r e' k')"
  by (cases r) (simp_all add: some_ex_def sim_refuse)

lemma sim_if [sim_intros]:
  "(b \<Longrightarrow> sim now R m m') \<Longrightarrow> (\<not> b \<Longrightarrow> sim now R n n') \<Longrightarrow> sim now R (if b then m else n) (if b then m' else n')"
  by simp

lemma sim_when [sim_intros]: "sim now (=) m m' \<Longrightarrow> sim now (=) (when_ex b m) (when_ex b m')"
  by (simp add: when_ex_def sim_pass)

lemma sim_option [sim_intros]:
  "(r = None \<Longrightarrow> sim now R m m') \<Longrightarrow> (\<And>x. r = Some x \<Longrightarrow> sim now R (k x) (k' x)) \<Longrightarrow>
   sim now R (case r of None \<Rightarrow> m | Some x \<Rightarrow> k x) (case r of None \<Rightarrow> m' | Some x \<Rightarrow> k' x)"
  by (cases r) simp_all

lemma sim_prod [sim_intros]:
  "(\<And>x y. p = (x, y) \<Longrightarrow> sim now R (k x y) (k' x y)) \<Longrightarrow>
   sim now R (case p of (x, y) \<Rightarrow> k x y) (case p of (x, y) \<Rightarrow> k' x y)"
  by (cases p) simp

lemma sim_admit [sim_intros]: "sim now R m m' \<Longrightarrow> sim now R (admit_ex c keys m) (admit_ex (again c) keys' m')"
  by (auto simp: sim_def admit_ex_def admit_all_def try_ex_def refuse_def split: sum.split)

lemma sim_still [sim_intros]:
  "sim now (=) (touch c key event) (touch c' key' event')" "sim now (=) mark_dirty mark_dirty"
  "sim now (=) (block_ex c' retry timeout) (block_ex c'' retry' timeout')"
  by (simp_all add: sim_def touch_def mark_dirty_def block_ex_def)

lemma sim_collect [sim_intros]: "sim now (=) (collect_within rs) (collect_within rs)"
  by (auto simp: sim_def collect_within_def try_ex_def pass_def refuse_def split: sum.split)

text \<open>Reading a key, where what follows does not ask for more than the journal keeps.\<close>

lemma sim_look:
  assumes "\<And>e. k (map_option durable e) = k e" "\<And>e. k' (map_option durable e) = k' e" "\<And>e. sim (cx_now c) R (k e) (k' e)"
  shows "sim (cx_now c) R (look_ex c key k) (look_ex (again c) key k')"
proof (rule simI)
  fix s s' t :: ex and x
  assume a: "agree (cx_now c) (ex_db s) (ex_db s')" and r: "look_ex c key k s = (t, Inr x)"
  let ?e = "map_option durable (db_get key (cx_now c) (ex_db s))"
  have e: "?e = map_option durable (db_get key (cx_now c) (ex_db s'))"
    using a by (simp add: agree_def)
  have "k ?e s = (t, Inr x)" using r by (simp only: assms(1) look_ex_def)
  from simD [OF assms(3) a this] obtain t' x' where
    "k' ?e s' = (t', Inr x')" "R x x'" "agree (cx_now c) (ex_db t) (ex_db t')" .
  moreover have "look_ex (again c) key k' s' = k' ?e s'"
    unfolding e assms(2) by (simp add: look_ex_def)
  ultimately show "\<exists>t' x'. look_ex (again c) key k' s' = (t', Inr x') \<and> R x x' \<and> agree (cx_now c) (ex_db t) (ex_db t')"
    by simp
qed

lemma typed_ref_durable [simp]:
  "typed_ref as_string (map_option durable e) = typed_ref as_string e"
  "typed_ref as_list (map_option durable e) = typed_ref as_list e"
  "typed_ref as_hash (map_option durable e) = typed_ref as_hash e"
  "typed_ref as_set (map_option durable e) = typed_ref as_set e"
  "typed_ref as_zset (map_option durable e) = typed_ref as_zset e"
  "typed_ref as_stream (map_option durable e) = map_sum id (map_option durable_stream) (typed_ref as_stream e)"
  by (cases e; simp add: typed_ref_def; cases "ent_value (the e)"; simp)+

lemma sim_refs [sim_intros]:
  "(\<And>v. sim (cx_now c) R (k1 v) (k1' v)) \<Longrightarrow> sim (cx_now c) R (ref_ex c as_string key k1) (ref_ex (again c) as_string key k1')"
  "(\<And>v. sim (cx_now c) R (k2 v) (k2' v)) \<Longrightarrow> sim (cx_now c) R (ref_ex c as_list key k2) (ref_ex (again c) as_list key k2')"
  "(\<And>v. sim (cx_now c) R (k3 v) (k3' v)) \<Longrightarrow> sim (cx_now c) R (ref_ex c as_hash key k3) (ref_ex (again c) as_hash key k3')"
  "(\<And>v. sim (cx_now c) R (k4 v) (k4' v)) \<Longrightarrow> sim (cx_now c) R (ref_ex c as_set key k4) (ref_ex (again c) as_set key k4')"
  "(\<And>v. sim (cx_now c) R (k5 v) (k5' v)) \<Longrightarrow> sim (cx_now c) R (ref_ex c as_zset key k5) (ref_ex (again c) as_zset key k5')"
  unfolding ref_ex_def by (rule sim_look, simp, simp, rule sim_try, assumption)+

lemma sim_ref_stream:
  assumes "\<And>s. k (map_option durable_stream s) = k s" "\<And>s. k' (map_option durable_stream s) = k' s"
    "\<And>v. sim (cx_now c) R (k v) (k' v)"
  shows "sim (cx_now c) R (ref_ex c as_stream key k) (ref_ex (again c) as_stream key k')"
  unfolding ref_ex_def
proof (rule sim_look)
  have m: "try_ex (map_sum id f r) k0 = try_ex r (\<lambda>x. k0 (f x))" for f and r :: "str + 'x" and k0 :: "'y \<Rightarrow> 'z exec"
    by (cases r) (simp_all add: try_ex_def)
  show "try_ex (typed_ref as_stream (map_option durable e)) k = try_ex (typed_ref as_stream e) k"
    "try_ex (typed_ref as_stream (map_option durable e)) k' = try_ex (typed_ref as_stream e) k'" for e
    by (simp_all add: m assms)
  show "sim (cx_now c) R (try_ex (typed_ref as_stream e) k) (try_ex (typed_ref as_stream e) k')" for e
    by (rule sim_try) (rule assms)
qed

subsection \<open>Two runs of a change\<close>

lemma sim_entry:
  assumes "\<And>e e'. durable e = durable e' \<Longrightarrow> durable (fst (f e)) = durable (fst (f' e')) \<and> snd (f e) = snd (f' e')"
  shows "sim (cx_now c) (=) (entry_mut c key f) (entry_mut (again c) key f')"
proof (rule simI)
  fix s s' t :: ex and x
  assume a: "agree (cx_now c) (ex_db s) (ex_db s')" and r: "entry_mut c key f s = (t, Inr x)"
  have b: "map_option durable (db_get k (cx_now c) (ex_db s)) = map_option durable (db_get k (cx_now c) (ex_db s'))" for k
    using a by (simp add: agree_def)
  obtain t' x' where t': "entry_mut (again c) key f' s' = (t', Inr x')" by (simp add: entry_mut_def)
  have "x = x' \<and> agree (cx_now c) (ex_db t) (ex_db t')"
  proof (cases rule: agree_cases [OF a, of key])
    case 1
    then show ?thesis using r t' b by (auto simp: entry_mut_def agree_def)
  next
    case (2 e e')
    then show ?thesis using r t' b assms [OF 2(3)] durable_eqD(3) [of "fst (f e)" "fst (f' e')"]
      by (auto simp: entry_mut_def agree_def)
  qed
  then show "\<exists>t' x'. entry_mut (again c) key f' s' = (t', Inr x') \<and> x = x' \<and> agree (cx_now c) (ex_db t) (ex_db t')"
    using t' by blast
qed

lemma sim_change:
  assumes "\<And>d d'. agree now d d' \<Longrightarrow> agree now (f d) (f' d')"
  shows "sim now (=) (change_ex f) (change_ex f')"
  using assms by (simp add: sim_def change_ex_def)

lemma agree_ops:
  assumes "agree now d d'"
  shows "durable e = durable e' \<Longrightarrow> agree now (db_insert ser key e d) (db_insert ser' key e' d')"
    "agree now (db_deadline key at d) (db_deadline key' at' d')"
    "agree now (fst (db_take ser key d)) (fst (db_take ser' key d'))"
    "agree now (fst (db_delete ser key now d)) (fst (db_delete ser' key now d'))"
    "agree now (fst (db_remove ser key now d)) (fst (db_remove ser' key now d'))"
    "agree now (db_prune ser key d) (db_prune ser' key d')"
    "agree now (db_clear ser d) (db_clear ser' d')"
proof -
  note b = assms [unfolded agree_def]
  show "durable e = durable e' \<Longrightarrow> agree now (db_insert ser key e d) (db_insert ser' key e' d')"
    using b by (auto simp: agree_def dest: durable_eqD(3))
  show "agree now (db_deadline key at d) (db_deadline key' at' d')"
    "agree now (fst (db_take ser key d)) (fst (db_take ser' key d'))"
    "agree now (fst (db_delete ser key now d)) (fst (db_delete ser' key now d'))"
    "agree now (fst (db_remove ser key now d)) (fst (db_remove ser' key now d'))"
    "agree now (db_clear ser d) (db_clear ser' d')"
    using b by (simp_all add: agree_def)
  show "agree now (db_prune ser key d) (db_prune ser' key d')"
    unfolding agree_def
  proof
    fix k
    show "map_option durable (db_get k now (db_prune ser key d)) = map_option durable (db_get k now (db_prune ser' key d'))"
      by (cases rule: agree_cases [OF assms, of k]) (auto dest: durable_eqD(4))
  qed
qed

lemma sim_ops [sim_intros]:
  "sim now (=) (change_ex (db_insert ser key e)) (change_ex (db_insert ser' key e))"
  "sim now (=) (change_ex (db_deadline key at)) (change_ex (db_deadline key' at'))"
  "sim now (=) (change_ex (\<lambda>d. fst (db_delete ser key now d))) (change_ex (\<lambda>d. fst (db_delete ser' key now d)))"
  "sim now (=) (take_ex c key) (take_ex c' key)"
  "sim now (=) (prune_ex c key) (prune_ex c' key)"
  unfolding take_ex_def prune_ex_def by (rule sim_change, rule agree_ops, assumption, (rule refl)?)+

text \<open>The kinds of value: a reader and the constructor it reads.\<close>

definition kind_of :: "(kvalue \<Rightarrow> 'v option) \<Rightarrow> ('v \<Rightarrow> kvalue) \<Rightarrow> bool" where
  "kind_of prj mk \<longleftrightarrow> (\<forall>v x. prj v = Some x \<longleftrightarrow> v = mk x) \<and> (\<forall>v. prj (durable_value v) = None \<longleftrightarrow> prj v = None)"

lemma kinds [simp]:
  "kind_of as_string V_String" "kind_of as_list V_List" "kind_of as_hash V_Hash" "kind_of as_set V_Set"
  "kind_of as_zset V_ZSet" "kind_of as_stream V_Stream"
proof -
  show "kind_of as_string V_String" by (simp add: kind_of_def; intro allI conjI; case_tac v; auto)
  show "kind_of as_list V_List" by (simp add: kind_of_def; intro allI conjI; case_tac v; auto)
  show "kind_of as_hash V_Hash" by (simp add: kind_of_def; intro allI conjI; case_tac v; auto)
  show "kind_of as_set V_Set" by (simp add: kind_of_def; intro allI conjI; case_tac v; auto)
  show "kind_of as_zset V_ZSet" by (simp add: kind_of_def; intro allI conjI; case_tac v; auto)
  show "kind_of as_stream V_Stream" by (simp add: kind_of_def; intro allI conjI; case_tac v; auto)
qed

definition same_change :: "('v \<Rightarrow> kvalue) \<Rightarrow> ('v \<Rightarrow> 'v \<times> 'b) \<Rightarrow> ('v \<Rightarrow> 'v \<times> 'b) \<Rightarrow> bool" where
  "same_change mk f f' \<longleftrightarrow>
     (\<forall>x x'. durable_value (mk x) = durable_value (mk x') \<longrightarrow>
        durable_value (mk (fst (f x))) = durable_value (mk (fst (f' x'))) \<and> snd (f x) = snd (f' x'))"

lemma sim_mut:
  assumes k: "kind_of prj mk" and f: "same_change mk f f'"
  shows "sim (cx_now c) (=) (mut_ex c prj mk fresh key create f) (mut_ex (again c) prj mk fresh key create f')"
proof -
  have v: "sim (cx_now c) (=) (value_mut c prj mk key f) (value_mut (again c) prj mk key f')"
    unfolding value_mut_def
  proof (intro sim_bind sim_entry)
    fix e e' assume d: "durable e = durable e'"
    note dv = durable_eqD(1,2) [OF d]
    show "durable (fst (case prj (ent_value e) of Some v \<Rightarrow> (e\<lparr>ent_value := mk (fst (f v))\<rparr>, Some (snd (f v))) | None \<Rightarrow> (e, None))) =
        durable (fst (case prj (ent_value e') of Some v \<Rightarrow> (e'\<lparr>ent_value := mk (fst (f' v))\<rparr>, Some (snd (f' v))) | None \<Rightarrow> (e', None))) \<and>
      snd (case prj (ent_value e) of Some v \<Rightarrow> (e\<lparr>ent_value := mk (fst (f v))\<rparr>, Some (snd (f v))) | None \<Rightarrow> (e, None)) =
        snd (case prj (ent_value e') of Some v \<Rightarrow> (e'\<lparr>ent_value := mk (fst (f' v))\<rparr>, Some (snd (f' v))) | None \<Rightarrow> (e', None))"
    proof (cases "prj (ent_value e)")
      case None
      then have "prj (ent_value e') = None" using k dv(2) unfolding kind_of_def by metis
      then show ?thesis using None d by simp
    next
      case (Some x)
      then obtain x' where x': "prj (ent_value e') = Some x'" using k dv(2) unfolding kind_of_def by (metis not_None_eq)
      have "ent_value e = mk x" "ent_value e' = mk x'" using k Some x' unfolding kind_of_def by simp_all
      then have m: "durable_value (mk x) = durable_value (mk x')" using dv(2) by simp
      have "durable_value (mk (fst (f x))) = durable_value (mk (fst (f' x')))" "snd (f x) = snd (f' x')"
        using f m unfolding same_change_def by blast+
      then show ?thesis using Some x' dv by (intro conjI durable_eqI) simp_all
    qed
  qed (rule sim_pass, rule refl)
  let ?m = "\<lambda>c f. mut_ex c prj mk fresh key create f"
  let ?n = "\<lambda>c f. if create then admit_ex c [key] (then_ex (change_ex (db_insert (ser_of c) key (entry_new (mk fresh))))
      (value_mut c prj mk key f)) else pass None"
  have n: "sim (cx_now c) (=) (?n c f) (?n (again c) f')"
    by (intro sim_intros v refl)
  show ?thesis
  proof (rule simI)
    fix s s' t :: ex and x
    assume a: "agree (cx_now c) (ex_db s) (ex_db s')" and r: "?m c f s = (t, Inr x)"
    show "\<exists>t' x'. ?m (again c) f' s' = (t', Inr x') \<and> x = x' \<and> agree (cx_now c) (ex_db t) (ex_db t')"
    proof (cases rule: agree_cases [OF a, of key])
      case 1
      then have m: "?m c f s = ?n c f s" "?m (again c) f' s' = ?n (again c) f' s'"
        by (simp_all add: mut_ex_def look_ex_def)
      from r have "?n c f s = (t, Inr x)" by (simp only: m)
      from simD [OF n a this] show ?thesis unfolding m by metis
    next
      case (2 e e')
      have b: "prj (ent_value e) = None \<longleftrightarrow> prj (ent_value e') = None"
        using k durable_eqD(2) [OF 2(3)] unfolding kind_of_def by metis
      have p: "prj (ent_value e) \<noteq> None" using r 2 by (auto simp: mut_ex_def look_ex_def need_ex_def refuse_def split: if_splits)
      have m: "?m c f s = value_mut c prj mk key f s" "?m (again c) f' s' = value_mut (again c) prj mk key f' s'"
        using 2 b p by (simp_all add: mut_ex_def look_ex_def need_ex_def)
      from r have "value_mut c prj mk key f s = (t, Inr x)" by (simp only: m)
      from simD [OF v a this] show ?thesis unfolding m by metis
    qed
  qed
qed

lemma same_change_plain [simp]:
  "same_change V_String f1 f1" "same_change V_List f2 f2" "same_change V_Hash f3 f3" "same_change V_Set f4 f4"
  "same_change V_ZSet f5 f5"
  by (simp_all add: same_change_def)

lemma same_change_stream:
  "(\<And>s. durable_stream (fst (f (durable_stream s))) = durable_stream (fst (f s)) \<and> snd (f (durable_stream s)) = snd (f s)) \<Longrightarrow>
   same_change V_Stream f f"
  unfolding same_change_def by simp metis

lemma sim_muts [sim_intros]:
  "sim (cx_now c) (=) (mut_ex c as_string V_String fresh1 key create f1) (mut_ex (again c) as_string V_String fresh1 key create f1)"
  "sim (cx_now c) (=) (mut_ex c as_list V_List fresh2 key create f2) (mut_ex (again c) as_list V_List fresh2 key create f2)"
  "sim (cx_now c) (=) (mut_ex c as_hash V_Hash fresh3 key create f3) (mut_ex (again c) as_hash V_Hash fresh3 key create f3)"
  "sim (cx_now c) (=) (mut_ex c as_set V_Set fresh4 key create f4) (mut_ex (again c) as_set V_Set fresh4 key create f4)"
  "sim (cx_now c) (=) (mut_ex c as_zset V_ZSet fresh5 key create f5) (mut_ex (again c) as_zset V_ZSet fresh5 key create f5)"
  by (rule sim_mut, simp, simp)+

lemma sim_stream_mut:
  "(\<And>s. durable_stream (fst (f (durable_stream s))) = durable_stream (fst (f s)) \<and> snd (f (durable_stream s)) = snd (f s)) \<Longrightarrow>
   sim (cx_now c) (=) (mut_ex c as_stream V_Stream fresh key create f) (mut_ex (again c) as_stream V_Stream fresh key create f)"
  by (rule sim_mut) (simp_all add: same_change_stream)

end
