(* ===== verification/Cmd_Repeat.thy ===== *)
theory Cmd_Repeat
  imports Cmd_Sim
begin

text \<open>
  Every command that journals itself does the same again: run by a client and run by a replay, on
  keyspaces with the same live keys, it leaves the same live keys.
\<close>

abbreviation repeats :: "ctx \<Rightarrow> (ctx \<Rightarrow> 'a exec) \<Rightarrow> bool" where
  "repeats c m \<equiv> sim (cx_now c) (=) (m c) (m (again c))"

lemma bind_durable [simp]:
  "(map_option durable e = None) = (e = None)"
  "Option.bind (map_option durable e) ent_expires = Option.bind e ent_expires"
  "Option.bind (map_option durable e) (\<lambda>e. as_string (ent_value e)) = Option.bind e (\<lambda>e. as_string (ent_value e))"
proof -
  show "Option.bind (map_option durable e) (\<lambda>e. as_string (ent_value e)) = Option.bind e (\<lambda>e. as_string (ent_value e))"
    by (cases e; simp; cases "ent_value (the e)"; simp)
qed (cases e; simp)+

lemma durable_set_expires: "durable (e\<lparr>ent_expires := x\<rparr>) = (durable e)\<lparr>ent_expires := x\<rparr>"
  by (cases e) (simp add: durable_def)

lemma sim_store_string [sim_intros]: "repeats c (\<lambda>c. store_string c key value expires)"
proof (rule simI)
  fix s s' t :: ex and x
  assume a: "agree (cx_now c) (ex_db s) (ex_db s')" and r: "store_string c key value expires s = (t, Inr x)"
  let ?e = "\<lparr>ent_value = V_String value, ent_expires = expires\<rparr>"
  have d: "agree (cx_now c) (ex_db t) (db_insert (ser_of c) key ?e (ex_db s))"
    using r by (auto simp: store_string_def need_ex_def replace_ex_def bind_ex_def then_ex_def deadline_ex_def
        admit_ex_def try_ex_def change_ex_def pass_def refuse_def touch_def agree_def split: if_splits option.splits sum.splits)
  have l: "length value \<le> max_string" using r by (simp add: store_string_def need_ex_def refuse_def split: if_splits)
  have "\<exists>t'. store_string (again c) key value expires s' = (t', Inr ()) \<and>
    agree (cx_now c) (ex_db t') (db_insert (ser_of c) key ?e (ex_db s'))"
    using l by (cases expires; cases "contains_key (ex_db s') key")
      (simp_all add: store_string_def need_ex_def replace_ex_def bind_ex_def then_ex_def deadline_ex_def
        admit_ex_def admit_all_def try_ex_def change_ex_def pass_def touch_def agree_def)
  then obtain t' where t': "store_string (again c) key value expires s' = (t', Inr ())"
    "agree (cx_now c) (ex_db t') (db_insert (ser_of c) key ?e (ex_db s'))" by blast
  show "\<exists>t' x'. store_string (again c) key value expires s' = (t', Inr x') \<and> x = x' \<and> agree (cx_now c) (ex_db t) (ex_db t')"
    using t' agree_trans [OF d agree_trans [OF agree_ops(1) [OF a refl] agree_sym [OF t'(2)]]] by auto
qed

lemma sim_write_string [sim_intros]: "repeats c (\<lambda>c. write_string_keep_ttl c key value)"
  unfolding write_string_keep_ttl_def again_simps
  by (intro sim_look sim_intros; simp)

lemma sim_del_loop [sim_intros]: "repeats c (\<lambda>c. del_loop c keys n)"
proof (induction keys arbitrary: n)
  case (Cons key keys)
  have "sim (cx_now c) (=) (\<lambda>s. (s\<lparr>ex_db := fst (db_delete (ser_of c) key (cx_now c) (ex_db s))\<rparr>,
      Inr (snd (db_delete (ser_of c) key (cx_now c) (ex_db s)))))
    (\<lambda>s. (s\<lparr>ex_db := fst (db_delete (ser_of c) key (cx_now c) (ex_db s))\<rparr>,
      Inr (snd (db_delete (ser_of c) key (cx_now c) (ex_db s)))))"
  proof (rule simI)
    fix s s' t :: ex and x
    assume a: "agree (cx_now c) (ex_db s) (ex_db s')"
    then show "(s\<lparr>ex_db := fst (db_delete (ser_of c) key (cx_now c) (ex_db s))\<rparr>,
        Inr (snd (db_delete (ser_of c) key (cx_now c) (ex_db s)))) = (t, Inr x) \<Longrightarrow>
      \<exists>t' x'. (s'\<lparr>ex_db := fst (db_delete (ser_of c) key (cx_now c) (ex_db s'))\<rparr>,
        Inr (snd (db_delete (ser_of c) key (cx_now c) (ex_db s')))) = (t', Inr x') \<and> x = x' \<and>
        agree (cx_now c) (ex_db t) (ex_db t')"
      using agreeD(1) [OF a, of key] agree_ops(4) [OF a, of "ser_of c" key "ser_of c"] by auto
  qed
  then show ?case using Cons unfolding del_loop.simps again_simps by (intro sim_intros)
qed (simp add: sim_pass)

lemma sim_store_all [sim_intros]: "repeats c (\<lambda>c. store_all c pairs)"
proof (induction pairs)
  case (Cons p pairs)
  obtain key v where p: "p = (key, v)" by fastforce
  show ?case unfolding p store_all.simps by (intro sim_intros Cons)
qed (simp add: sim_pass)

lemma sim_any_exists [sim_intros]:
  "(\<And>b. sim (cx_now c) R (k b) (k' b)) \<Longrightarrow> sim (cx_now c) R (any_exists c keys k) (any_exists (again c) keys k')"
proof (induction keys)
  case (Cons key keys)
  show ?case unfolding any_exists.simps
    by (rule sim_look) (simp_all add: Cons)
qed simp

lemma sim_keys:
  "repeats c (\<lambda>c. cmd_del c argv)" "repeats c (\<lambda>c. cmd_expire c name argv)" "repeats c (\<lambda>c. cmd_persist c argv)"
proof -
  show "repeats c (\<lambda>c. cmd_del c argv)" unfolding cmd_del_def by (intro sim_intros)
  show "repeats c (\<lambda>c. cmd_expire c name argv)"
    unfolding cmd_expire_def Let_def again_simps
    by (intro sim_intros sim_entry refl) (frule durable_eqD(1), simp add: durable_set_expires)
  show "repeats c (\<lambda>c. cmd_persist c argv)"
    unfolding cmd_persist_def Let_def again_simps
    by (intro sim_intros sim_entry refl) (frule durable_eqD(1), simp add: durable_set_expires)
qed

lemma sim_remove:
  assumes "k None = refuse err"
    "\<And>e e'. durable e = durable e' \<Longrightarrow> sim (cx_now c) R (k (Some e)) (k' (Some e'))"
  shows "sim (cx_now c) R (bind_ex (remove_ex c key) k) (bind_ex (remove_ex (again c) key) k')"
proof (rule simI)
  fix s s' t :: ex and x
  assume a: "agree (cx_now c) (ex_db s) (ex_db s')" and r: "bind_ex (remove_ex c key) k s = (t, Inr x)"
  let ?s = "s\<lparr>ex_db := fst (db_remove (ser_of c) key (cx_now c) (ex_db s))\<rparr>"
  let ?s' = "s'\<lparr>ex_db := fst (db_remove (ser_of c) key (cx_now c) (ex_db s'))\<rparr>"
  have b: "agree (cx_now c) (ex_db ?s) (ex_db ?s')" using agree_ops(5) [OF a] by simp
  show "\<exists>t' x'. bind_ex (remove_ex (again c) key) k' s' = (t', Inr x') \<and> R x x' \<and> agree (cx_now c) (ex_db t) (ex_db t')"
  proof (cases rule: agree_cases [OF a, of key])
    case 1
    then show ?thesis using r assms(1) by (simp add: bind_ex_def remove_ex_def refuse_def)
  next
    case (2 e e')
    then have "k (Some e) ?s = (t, Inr x)" using r by (simp add: bind_ex_def remove_ex_def)
    from simD [OF assms(2) [OF 2(3)] b this] obtain t' x' where
      "k' (Some e') ?s' = (t', Inr x')" "R x x'" "agree (cx_now c) (ex_db t) (ex_db t')" .
    then show ?thesis using 2 by (simp add: bind_ex_def remove_ex_def)
  qed
qed

lemma sim_rename: "repeats c (\<lambda>c. cmd_rename c nx argv)"
proof -
  have d: "sim now (=) (case ent_expires e of None \<Rightarrow> pass () | Some at \<Rightarrow> change_ex (db_deadline to at))
      (case ent_expires e' of None \<Rightarrow> pass () | Some at \<Rightarrow> change_ex (db_deadline to at))"
    if "durable e = durable e'" for e e' to now
    unfolding durable_eqD(1) [OF that] by (intro sim_intros refl)
  have i: "sim now (=) (change_ex (db_insert ser to e)) (change_ex (db_insert ser to e'))"
    if "durable e = durable e'" for e e' to now ser
    by (rule sim_change) (rule agree_ops(1) [OF _ that])
  have b: "sim (cx_now c) (=) (bind_ex (remove_ex c (argv ! 1)) k) (bind_ex (remove_ex (again c) (argv ! 1)) k')"
    if "k None = refuse err" "\<And>e e'. durable e = durable e' \<Longrightarrow> sim (cx_now c) (=) (k (Some e)) (k' (Some e'))"
    for k k' :: "kentry option \<Rightarrow> reply exec" and err
    using that by (rule sim_remove)
  have l: "sim (cx_now c) (=) (look_ex c key (\<lambda>e. k (e \<noteq> None))) (look_ex (again c) key (\<lambda>e. k' (e \<noteq> None)))"
    if "\<And>b. sim (cx_now c) (=) (k b) (k' b)" for key and k k' :: "bool \<Rightarrow> reply exec"
    by (rule sim_look) (simp_all add: that)
  show ?thesis
    unfolding cmd_rename_def Let_def again_simps
    by (intro sim_args l sim_need sim_if sim_pass refl b) (simp_all add: some_ex_def sim_intros d i)
qed

lemma sim_strings:
  "repeats c (\<lambda>c. cmd_setnx c argv)" "repeats c (\<lambda>c. cmd_setex c name argv)" "repeats c (\<lambda>c. cmd_getset c argv)"
  "repeats c (\<lambda>c. cmd_getdel c argv)" "repeats c (\<lambda>c. cmd_mset c name argv)" "repeats c (\<lambda>c. cmd_append c argv)"
  "repeats c (\<lambda>c. cmd_incr c name argv)" "repeats c (\<lambda>c. cmd_incrbyfloat c argv)" "repeats c (\<lambda>c. cmd_delifeq c argv)"
proof -
  have l: "sim (cx_now c) (=) (look_ex c key (\<lambda>e. k (e \<noteq> None))) (look_ex (again c) key (\<lambda>e. k' (e \<noteq> None)))"
    if "\<And>b. sim (cx_now c) (=) (k b) (k' b)" for key and k k' :: "bool \<Rightarrow> reply exec"
    by (rule sim_look) (simp_all add: that)
  show "repeats c (\<lambda>c. cmd_setnx c argv)"
    unfolding cmd_setnx_def Let_def again_simps by (intro sim_intros l refl)
  show "repeats c (\<lambda>c. cmd_setex c name argv)"
    unfolding cmd_setex_def Let_def again_simps by (intro sim_intros refl)
  show "repeats c (\<lambda>c. cmd_getset c argv)"
    unfolding cmd_getset_def Let_def again_simps by (intro sim_intros refl)
  show "repeats c (\<lambda>c. cmd_getdel c argv)"
    unfolding cmd_getdel_def Let_def again_simps by (intro sim_intros refl)
  show "repeats c (\<lambda>c. cmd_mset c name argv)"
    unfolding cmd_mset_def Let_def again_simps by (intro sim_intros refl)
  show "repeats c (\<lambda>c. cmd_append c argv)"
    unfolding cmd_append_def Let_def again_simps by (intro sim_intros refl)
  have i: "repeats c (\<lambda>c. incr c argv n)" for n
    unfolding incr_def Let_def again_simps by (intro sim_intros refl)
  show "repeats c (\<lambda>c. cmd_incr c name argv)"
    unfolding cmd_incr_def Let_def again_simps by (intro sim_intros refl i)
  show "repeats c (\<lambda>c. cmd_incrbyfloat c argv)"
    unfolding cmd_incrbyfloat_def Let_def again_simps by (intro sim_intros refl)
  show "repeats c (\<lambda>c. cmd_delifeq c argv)"
    unfolding cmd_delifeq_def Let_def again_simps by (intro sim_intros refl)
qed

lemma sim_flush: "sim now (=) (flush_ex c) (flush_ex (again c))"
proof (rule simI)
  fix s s' t :: ex and x
  assume a: "agree now (ex_db s) (ex_db s')" and r: "flush_ex c s = (t, Inr x)"
  have e: "db_get k now d = None" if "db_keys d = bm_empty" for k d
    using that by (simp add: get_keys)
  have t: "db_get k now (ex_db t) = None" for k
    using r e by (auto simp: flush_ex_def then_ex_def bind_ex_def change_ex_def mark_dirty_def pass_def split: if_splits)
  obtain t' where t': "flush_ex (again c) s' = (t', Inr ())"
    by (cases "db_keys (ex_db s') = bm_empty")
      (simp_all add: flush_ex_def then_ex_def bind_ex_def change_ex_def mark_dirty_def pass_def)
  have "db_get k now (ex_db t') = None" for k
    using t' e by (auto simp: flush_ex_def then_ex_def bind_ex_def change_ex_def mark_dirty_def pass_def split: if_splits)
  then show "\<exists>t' x'. flush_ex (again c) s' = (t', Inr x') \<and> x = x' \<and> agree now (ex_db t) (ex_db t')"
    using t' t by (auto simp: agree_def)
qed

lemma sim_cmd_flush: "repeats c cmd_flush"
  unfolding cmd_flush_def need_ex_def by (auto intro!: sim_intros sim_flush)

lemma sim_getex: "repeats c (\<lambda>c. cmd_getex c argv)"
  unfolding cmd_getex_def Let_def again_simps deadline_ex_def
  by (intro sim_intros sim_entry refl) (simp_all add: durable_set_expires)

lemma sim_set: "repeats c (\<lambda>c. cmd_set c argv)"
proof -
  have l: "sim (cx_now c) (=)
      (look_ex c key (\<lambda>e. k (e = None) (Option.bind e ent_expires) (Option.bind e (\<lambda>e. as_string (ent_value e)))))
      (look_ex (again c) key (\<lambda>e. k' (e = None) (Option.bind e ent_expires) (Option.bind e (\<lambda>e. as_string (ent_value e)))))"
    if "\<And>b x y. sim (cx_now c) (=) (k b x y) (k' b x y)" for key and k k' :: "bool \<Rightarrow> u64 option \<Rightarrow> str option \<Rightarrow> reply exec"
    by (rule sim_look) (simp_all add: that)
  show ?thesis
    unfolding cmd_set_def Let_def again_simps
    by (intro sim_args sim_try sim_need sim_if sim_then sim_pass sim_store_string refl l sim_when)
qed

subsection \<open>Hashes and lists\<close>

lemma hash_next_again [simp]: "hash_next (again c) = hash_next c"
  by (intro ext) (simp only: hash_next_def again_simps)

lemma sim_hashes:
  "repeats c (\<lambda>c. cmd_hset c name argv)" "repeats c (\<lambda>c. cmd_hsetnx c argv)" "repeats c (\<lambda>c. cmd_hdel c argv)"
  "repeats c (\<lambda>c. cmd_hincrby c name argv)"
  unfolding cmd_hset_def cmd_hsetnx_def cmd_hdel_def cmd_hincrby_def Let_def again_simps hash_next_again
  by (intro sim_intros refl)+

lemma sim_lists:
  "repeats c (\<lambda>c. cmd_push c name argv)" "repeats c (\<lambda>c. cmd_pop c name argv)" "repeats c (\<lambda>c. cmd_lset c argv)"
  "repeats c (\<lambda>c. cmd_lrem c argv)" "repeats c (\<lambda>c. cmd_ltrim c argv)"
  unfolding cmd_push_def cmd_pop_def cmd_lset_def cmd_lrem_def cmd_ltrim_def Let_def again_simps
  by (intro sim_intros refl)+

lemma sim_lmove [sim_intros]: "repeats c (\<lambda>c. lmove c src dst from_left to_left)"
  unfolding lmove_def Let_def again_simps by (intro sim_intros refl)

lemma sim_moves:
  "repeats c (\<lambda>c. cmd_lmove c argv)" "repeats c (\<lambda>c. cmd_rpoplpush c argv)"
  unfolding cmd_lmove_def cmd_rpoplpush_def Let_def again_simps by (intro sim_intros refl)+

subsection \<open>Sets\<close>

lemma sim_sets:
  "repeats c (\<lambda>c. cmd_sadd c argv)" "repeats c (\<lambda>c. cmd_srem c argv)" "repeats c (\<lambda>c. cmd_smove c argv)"
  unfolding cmd_sadd_def cmd_srem_def cmd_smove_def Let_def again_simps
  by (intro sim_intros refl)+

lemma zpop_loop_again [simp]: "zpop_loop (again c) mn n z = zpop_loop c mn n z"
  by (induction n arbitrary: z) (simp_all only: zpop_loop.simps again_simps)

lemma sim_zpop [sim_intros]:
  "(\<And>out. sim (cx_now c) R (k out) (k' out)) \<Longrightarrow> sim (cx_now c) R (zpop c key mn n k) (zpop (again c) key mn n k')"
  unfolding zpop_def zpop_loop_again by (intro sim_intros)

lemma sim_zsets:
  "repeats c (\<lambda>c. cmd_zadd c argv)" "repeats c (\<lambda>c. cmd_zrem c argv)" "repeats c (\<lambda>c. cmd_zincrby c argv)"
  "repeats c (\<lambda>c. cmd_zpop c name argv)" "repeats c (\<lambda>c. cmd_zremrangebyscore c argv)"
  "repeats c (\<lambda>c. cmd_zremrangebyrank c argv)"
  unfolding cmd_zadd_def cmd_zrem_def cmd_zincrby_def cmd_zpop_def cmd_zremrangebyscore_def
    cmd_zremrangebyrank_def zrem_ranked_def Let_def again_simps
  by (intro sim_intros refl)+

subsection \<open>Streams\<close>

lemma durable_stream_parts [simp]:
  "st_entries (durable_stream s) = st_entries s" "st_last_id (durable_stream s) = st_last_id s"
  "st_added (durable_stream s) = st_added s" "st_max_deleted (durable_stream s) = st_max_deleted s"
  "get_group grp (durable_stream s) = map_option durable_group (get_group grp s)"
  "bm_get (st_groups (durable_stream s)) grp = map_option durable_group (bm_get (st_groups s) grp)"
  by (simp_all add: durable_stream_def get_group_def)

lemma durable_group_parts [simp]:
  "grp_last_delivered (durable_group g) = grp_last_delivered g" "grp_read (durable_group g) = grp_read g"
  "grp_pending (durable_group g) = grp_pending g"
  "bm_get (grp_consumers (durable_group g)) name = map_option durable_consumer (bm_get (grp_consumers g) name)"
  by (simp_all add: durable_group_def)

lemma bm_map_map: "bm_map f (bm_map g m) = bm_map (\<lambda>k v. f k (g k v)) m"
  by (rule bm_eqI) (simp add: option.map_comp comp_def)

lemma bm_map_insert: "bm_map f (bm_insert k v m) = bm_insert k (f k v) (bm_map f m)"
  by (rule bm_eqI) simp

lemma bm_map_remove: "bm_map f (bm_remove k m) = bm_remove k (bm_map f m)"
  by (rule bm_eqI) simp

lemma durable_twice [simp]:
  "durable_consumer (durable_consumer k) = durable_consumer k" "durable_group (durable_group g) = durable_group g"
  "durable_stream (durable_stream s) = durable_stream s"
proof -
  show k: "durable_consumer (durable_consumer k) = durable_consumer k" for k by (simp add: durable_consumer_def)
  show g: "durable_group (durable_group g) = durable_group g" for g by (simp add: durable_group_def bm_map_map k)
  show "durable_stream (durable_stream s) = durable_stream s" by (simp add: durable_stream_def bm_map_map g)
qed

lemma durable_seen [simp]: "durable_consumer (k\<lparr>con_seen := t\<rparr>) = durable_consumer k"
  by (simp add: durable_consumer_def)

lemma durable_updates [simp]:
  "durable_stream (s\<lparr>st_entries := es\<rparr>) = (durable_stream s)\<lparr>st_entries := es\<rparr>"
  "durable_stream (s\<lparr>st_last_id := i\<rparr>) = (durable_stream s)\<lparr>st_last_id := i\<rparr>"
  "durable_stream (s\<lparr>st_added := n\<rparr>) = (durable_stream s)\<lparr>st_added := n\<rparr>"
  "durable_stream (s\<lparr>st_max_deleted := i\<rparr>) = (durable_stream s)\<lparr>st_max_deleted := i\<rparr>"
  "durable_stream (s\<lparr>st_groups := gs\<rparr>) = (durable_stream s)\<lparr>st_groups := bm_map (\<lambda>_. durable_group) gs\<rparr>"
  "durable_stream (set_group grp g s) = set_group grp (durable_group g) (durable_stream s)"
  "durable_group (g\<lparr>grp_last_delivered := i\<rparr>) = (durable_group g)\<lparr>grp_last_delivered := i\<rparr>"
  "durable_group (g\<lparr>grp_read := r\<rparr>) = (durable_group g)\<lparr>grp_read := r\<rparr>"
  "durable_group (g\<lparr>grp_pending := ps\<rparr>) = (durable_group g)\<lparr>grp_pending := ps\<rparr>"
  "durable_group (g\<lparr>grp_consumers := cs\<rparr>) = (durable_group g)\<lparr>grp_consumers := bm_map (\<lambda>_. durable_consumer) cs\<rparr>"
  by (simp_all add: durable_stream_def set_group_def durable_group_def bm_map_insert)

definition steady :: "(stream \<Rightarrow> stream \<times> 'b) \<Rightarrow> bool" where
  "steady f \<longleftrightarrow> (\<forall>s. durable_stream (fst (f (durable_stream s))) = durable_stream (fst (f s)) \<and> snd (f (durable_stream s)) = snd (f s))"

definition steady_group :: "(group \<Rightarrow> group \<times> 'b) \<Rightarrow> bool" where
  "steady_group f \<longleftrightarrow> (\<forall>g. durable_group (fst (f (durable_group g))) = durable_group (fst (f g)) \<and> snd (f (durable_group g)) = snd (f g))"

lemma sim_steady [sim_intros]:
  "steady f \<Longrightarrow> sim (cx_now c) (=) (mut_ex c as_stream V_Stream fresh key create f) (mut_ex (again c) as_stream V_Stream fresh key create f)"
  by (rule sim_stream_mut) (simp add: steady_def)

lemma durable_drop_oldest [simp]: "drop_oldest n (durable_stream s) = durable_stream (drop_oldest n s)"
proof (induction n arbitrary: s)
  case (Suc n)
  show ?case
  proof (cases "bm_first (st_entries s)")
    case (Some p)
    then show ?thesis using Suc [of "s\<lparr>st_entries := bm_remove (fst p) (st_entries s), st_max_deleted := max (st_max_deleted s) (fst p)\<rparr>"]
      by (cases p) simp
  qed (simp add: Suc)
qed simp

lemma durable_trim [simp]:
  "fst (trim_apply t (durable_stream s)) = durable_stream (fst (trim_apply t s))"
  "snd (trim_apply t (durable_stream s)) = snd (trim_apply t s)"
  by (cases t; simp add: trim_to_def trim_before_def Let_def)+

lemma durable_xdel [simp]:
  "xdel_each is (durable_stream s) = (durable_stream (fst (xdel_each is s)), snd (xdel_each is s))"
proof (induction "is" arbitrary: s)
  case (Cons i xs)
  show ?case
    using Cons [of s] Cons [of "s\<lparr>st_entries := bm_remove i (st_entries s), st_max_deleted := max (st_max_deleted s) i\<rparr>"]
    by (simp split: prod.splits)
qed simp

lemma steady_streams [simp]:
  "steady (trim_apply t)" "steady (xdel_each is)" "steady (\<lambda>s. (s, x))"
  by (simp_all add: steady_def)

lemma steady_xadd [simp]: "steady (\<lambda>s. (xadd_entry i fvs trim s, x))"
proof -
  have u: "(durable_stream s)\<lparr>st_entries := es, st_last_id := i, st_added := n\<rparr> =
      durable_stream (s\<lparr>st_entries := es, st_last_id := i, st_added := n\<rparr>)" for s es n
    by simp
  show ?thesis
    by (simp add: steady_def xadd_entry_def Let_def u del: durable_updates split: option.split)
qed

lemma steady_group_mut:
  assumes "\<And>s. first (durable_stream s) = first s" "\<And>x s. f x (durable_stream s) = f x s" "\<And>x s. steady_group (f x s)"
    "\<And>x. sim (cx_now c) R (k x) (k' x)"
  shows "sim (cx_now c) R (group_mut c key grp command first f k) (group_mut (again c) key grp command first f k')"
  unfolding group_mut_def
proof (intro sim_intros assms(4))
  show "steady (\<lambda>s. case first s of Inl e \<Rightarrow> (s, Inl e) | Inr x \<Rightarrow>
      (case get_group grp s of None \<Rightarrow> (s, Inl (no_group key grp command))
       | Some g \<Rightarrow> (set_group grp (fst (f x s g)) s, Inr (snd (f x s g)))))"
    using assms(3) by (auto simp: steady_def steady_group_def assms(1,2) split: sum.split option.split)
qed

lemma steady_groups [simp]:
  "steady_group (\<lambda>g. (g\<lparr>grp_last_delivered := i\<rparr>, x))"
  "steady_group (create_consumer name now)" "steady_group (delete_consumer name)"
  "steady_group (claim name now min_idle cl is s)" "steady_group (autoclaim name now min_idle start limit justid s)"
proof -
  show "steady_group (\<lambda>g. (g\<lparr>grp_last_delivered := i\<rparr>, x))" by (simp add: steady_group_def)
  show "steady_group (create_consumer name now)"
    by (auto simp: steady_group_def create_consumer_def bm_map_insert bm_map_map durable_group_def)
  show "steady_group (delete_consumer name)"
    by (auto simp: steady_group_def delete_consumer_def bm_map_remove bm_map_map durable_group_def Let_def)
  have see: "durable_group (see_consumer name now (durable_group g)) = durable_group (see_consumer name now g)" for g
    by (cases "bm_get (grp_consumers g) name") (simp_all add: see_consumer_def bm_map_insert bm_map_map durable_group_def)
  have p: "(durable_group g)\<lparr>grp_pending := ps\<rparr> = durable_group (g\<lparr>grp_pending := ps\<rparr>)" for g ps by simp
  show "steady_group (claim name now min_idle cl is s)"
    by (simp add: steady_group_def claim_def Let_def p see del: durable_updates split: prod.split)
  show "steady_group (autoclaim name now min_idle start limit justid s)"
    unfolding steady_group_def autoclaim_def Let_def durable_group_parts
    by (simp add: p see del: durable_updates split: prod.split)
qed

lemma resolve_durable [simp]: "resolve_id a (durable_stream s) = resolve_id a s"
  by (simp add: resolve_id_def)

lemma map_durable_stream [simp]:
  "(map_option durable_stream e = None) = (e = None)"
  "coll_len (\<lambda>s. bm_len (st_entries s)) (map_option durable_stream e) = coll_len (\<lambda>s. bm_len (st_entries s)) e"
  "(case map_option durable_stream e of None \<Rightarrow> id_default | Some s \<Rightarrow> st_last_id s) =
     (case e of None \<Rightarrow> id_default | Some s \<Rightarrow> st_last_id s)"
  "xadd_dropped trim (map_option durable_stream e) i = xadd_dropped trim e i"
  by (cases e; simp add: coll_len_def xadd_dropped_def split: option.split trim.split)+

lemma claim_durable [simp]:
  "claim name now min_idle cl is (durable_stream s) = claim name now min_idle cl is s"
  "autoclaim name now min_idle start limit justid (durable_stream s) = autoclaim name now min_idle start limit justid s"
  by (intro ext, simp add: claim_def autoclaim_def)+

lemma sim_streams:
  "repeats c (\<lambda>c. cmd_xdel c argv)" "repeats c (\<lambda>c. cmd_xtrim c argv)"
  "repeats c (\<lambda>c. cmd_xclaim c argv)" "repeats c (\<lambda>c. cmd_xautoclaim c argv)"
  unfolding cmd_xdel_def cmd_xtrim_def cmd_xclaim_def cmd_xautoclaim_def Let_def again_simps
  by ((intro sim_intros refl steady_group_mut; simp), (intro sim_intros refl steady_group_mut; simp),
    (intro sim_intros refl steady_group_mut; simp), (intro sim_intros refl steady_group_mut; simp))

lemma sim_xack: "repeats c (\<lambda>c. cmd_xack c argv)"
proof -
  have "steady (\<lambda>s. case get_group grp s of None \<Rightarrow> (s, None)
      | Some g \<Rightarrow> (set_group grp (fst (ack_each is g)) s, Some (snd (ack_each is g))))" for grp "is"
  proof -
    have "ack_each is (durable_group g) = (durable_group (fst (ack_each is g)), snd (ack_each is g))" for g
    proof (induction "is" arbitrary: g)
      case (Cons i xs)
      show ?case using Cons [of "g\<lparr>grp_pending := bm_remove i (grp_pending g)\<rparr>"] by (simp split: prod.splits)
    qed simp
    then show ?thesis by (simp add: steady_def split: option.split)
  qed
  then show ?thesis
    unfolding cmd_xack_def Let_def again_simps by (intro sim_intros refl)
qed

lemma sim_xadd: "repeats c (\<lambda>c. cmd_xadd c argv)"
  unfolding cmd_xadd_def Let_def again_simps
  by (intro sim_args sim_try sim_need sim_prod sim_ref_stream sim_if sim_pass refl sim_bind sim_some sim_then sim_still
      sim_steady steady_xadd; simp only: map_durable_stream)

lemma sim_xgroup: "repeats c (\<lambda>c. cmd_xgroup c argv)"
proof -
  have cr: "steady (\<lambda>s. if bm_contains (st_groups s) grp then (s, Inl e)
       else (case resolve_id a s of Inl e \<Rightarrow> (s, Inl e)
         | Inr i \<Rightarrow> (set_group grp (group_default\<lparr>grp_last_delivered := i\<rparr>) s, Inr ())))" for grp a and e :: str
    by (auto simp: steady_def split: sum.split)
  have de: "steady (\<lambda>s. (s\<lparr>st_groups := bm_remove grp (st_groups s)\<rparr>, bm_contains (st_groups s) grp))" for grp
    by (auto simp: steady_def bm_map_remove durable_stream_def bm_map_map)
  have c: "repeats c (\<lambda>c. xgroup_create c argv)"
    unfolding xgroup_create_def Let_def again_simps
    by (intro sim_args sim_try sim_ref_stream sim_if sim_need sim_bind sim_steady cr sim_some sim_then sim_still sim_pass refl; simp)
  have i: "repeats c (\<lambda>c. xgroup_setid c argv)"
    unfolding xgroup_setid_def Let_def again_simps
    by (intro sim_args steady_group_mut sim_then sim_still sim_pass refl; simp)
  have d: "repeats c (\<lambda>c. xgroup_destroy c argv)"
    unfolding xgroup_destroy_def Let_def again_simps
    by (intro sim_intros de refl)
  have n: "repeats c (\<lambda>c. xgroup_consumer c b argv)" for b
    unfolding xgroup_consumer_def Let_def again_simps
    by (intro sim_args sim_if steady_group_mut sim_intros refl; simp)
  show ?thesis
    unfolding cmd_xgroup_def Let_def again_simps by (intro sim_intros c i d n refl)
qed

subsection \<open>XREADGROUP\<close>

lemma pending_durable [simp]: "pending_of name after limit (durable_group g) = pending_of name after limit g"
  by (simp add: pending_of_def)

lemma sim_check:
  assumes "sim (cx_now c) R m m'"
  shows "sim (cx_now c) R (xreadgroup_check c grp name limit ks named bytes m)
    (xreadgroup_check (again c) grp name limit ks named bytes m')"
proof (induction ks arbitrary: named bytes)
  case (Cons x ks)
  obtain key i where x: "x = (key, i)" by fastforce
  have o: "some_ex (Option.bind (map_option durable_stream s) (\<lambda>s. map_option (Pair (st_entries s)) (get_group grp s))) e (\<lambda>(es, g). k es g) =
      some_ex (Option.bind s (\<lambda>s. map_option (Pair (st_entries s)) (get_group grp s))) e (\<lambda>(es, g). k es (durable_group g))"
    for s e and k :: "(id, (str \<times> str) list) btree_map \<Rightarrow> group \<Rightarrow> 'z exec"
  proof (cases s)
    case (Some a)
    then show ?thesis by (cases "get_group grp a") (simp_all add: some_ex_def)
  qed (simp add: some_ex_def)
  show ?case unfolding x xreadgroup_check.simps again_simps
    by (intro sim_need sim_ref_stream sim_some sim_prod sim_try Cons) (simp_all only: o pending_durable)
qed (simp add: assms)

lemma deliver_durable:
  "durable_group (fold (deliver_one name now noack) is (durable_group g)) = durable_group (fold (deliver_one name now noack) is g)"
proof (induction "is" arbitrary: g)
  case (Cons i xs)
  have "deliver_one name now noack i (durable_group g) = durable_group (deliver_one name now noack i g)"
    by (simp add: deliver_one_def)
  then show ?case using Cons by simp
qed simp

lemma deliver_eq:
  "durable_group g = durable_group g' \<Longrightarrow>
   durable_group (fold (deliver_one name now noack) is g) = durable_group (fold (deliver_one name now noack) is g')"
  using deliver_durable [of name now noack "is" g] deliver_durable [of name now noack "is" g'] by simp

lemma steady_read [simp]: "steady_group (read_group name now limit noack history s)"
proof -
  have d: "durable_group ((durable_group g)\<lparr>grp_consumers := bm_insert name (f (case map_option durable_consumer k of Some k \<Rightarrow> k | None \<Rightarrow> d))
        (grp_consumers (durable_group g))\<rparr>) =
      durable_group (g\<lparr>grp_consumers := bm_insert name (f (case k of Some k \<Rightarrow> k | None \<Rightarrow> d)) (grp_consumers g)\<rparr>)"
    if "\<And>k. durable_consumer (f (durable_consumer k)) = durable_consumer (f k)" for f and g :: group and k and d :: consumer
    using that by (cases k) (simp_all add: bm_map_insert bm_map_map durable_group_def)
  have f: "durable_consumer ((durable_consumer k)\<lparr>con_seen := now, con_active := a\<rparr>) = durable_consumer (k\<lparr>con_seen := now, con_active := a\<rparr>)"
    "durable_consumer ((durable_consumer k)\<lparr>con_seen := now\<rparr>) = durable_consumer (k\<lparr>con_seen := now\<rparr>)" for k a
    by (simp_all add: durable_consumer_def)
  show ?thesis
    unfolding steady_group_def
  proof (intro allI conjI)
    fix g
    note c = durable_group_parts(4) [of g name]
    show "durable_group (fst (read_group name now limit noack history s (durable_group g))) =
        durable_group (fst (read_group name now limit noack history s g))"
      using d [where f = "\<lambda>k. k\<lparr>con_seen := now\<rparr>" and g = g and k = "bm_get (grp_consumers g) name"]
        d [where f = "\<lambda>k. k\<lparr>con_seen := now, con_active := Some now\<rparr>" and g = g and k = "bm_get (grp_consumers g) name"] f
      by (cases history) (auto simp: read_group_def Let_def c simp del: durable_updates durable_seen intro!: deliver_eq)
    show "snd (read_group name now limit noack history s (durable_group g)) = snd (read_group name now limit noack history s g)"
      by (cases history) (simp_all add: read_group_def Let_def)
  qed
qed

lemma read_durable [simp]: "read_group name now limit noack history (durable_stream s) = read_group name now limit noack history s"
  by (intro ext) (simp only: read_group_def durable_stream_parts)

lemma steady_in_group:
  assumes "\<And>s. steady_group (f s)" "\<And>s. f (durable_stream s) = f s"
  shows "steady (\<lambda>s. case get_group grp s of None \<Rightarrow> (s, None) | Some g \<Rightarrow>
      (let (g', res) = f s g in (set_group grp g' s, Some res)))"
  using assms(1) by (auto simp: steady_def steady_group_def assms(2) split: option.split prod.split) (metis fst_conv snd_conv)+

lemma sim_read_loop:
  assumes "\<And>out new. sim (cx_now c) R (k out new) (k' out new)"
  shows "sim (cx_now c) R (xreadgroup_loop c grp name limit noack ks out new k)
    (xreadgroup_loop (again c) grp name limit noack ks out new k')"
proof (induction ks arbitrary: out new)
  case (Cons x ks)
  obtain key i where x: "x = (key, i)" by fastforce
  show ?case unfolding x xreadgroup_loop.simps again_simps
    by (intro sim_intros Cons steady_in_group; simp)
qed (simp add: assms)

lemma sim_xreadgroup: "repeats c (\<lambda>c. cmd_xreadgroup c argv)"
  unfolding cmd_xreadgroup_def Let_def again_simps
  by (intro sim_intros sim_check sim_read_loop refl)

subsection \<open>LINSERT\<close>

lemma bm_update_cong: "(\<And>v. bm_get m k = Some v \<Longrightarrow> f v = g v) \<Longrightarrow> bm_update k f m = bm_update k g m"
  by (rule bm_eqI) (cases "bm_get m k"; simp)

lemma get_mut_cong:
  assumes "\<And>e. db_get key now d = Some e \<Longrightarrow> f e = g e"
  shows "db_get_mut ser key now f d = db_get_mut ser key now g d"
proof -
  have "bm_update key f (if expired then bm_remove key m else m) = bm_update key g (if expired then bm_remove key m else m)"
    if "m = db_keys d" "\<And>e. bm_get m key = Some e \<Longrightarrow> expired = entry_expired now e" for m expired
    by (rule bm_update_cong) (use assms that in \<open>auto simp: get_keys split: if_splits\<close>)
  from this [of "db_keys d" "case bm_get (db_keys d) key of Some e \<Rightarrow> entry_expired now e | None \<Rightarrow> False"]
  show ?thesis by (cases "bm_get (db_keys d) key") (auto simp: db_get_mut_def Let_def)
qed

lemma mut_cong:
  assumes "\<And>e x. db_get key (cx_now c) (ex_db s) = Some e \<Longrightarrow> prj (ent_value e) = Some x \<Longrightarrow> f x = g x"
  shows "mut_ex c prj mk fresh key False f s = mut_ex c prj mk fresh key False g s"
proof (cases "db_get key (cx_now c) (ex_db s)")
  case (Some e)
  let ?h = "\<lambda>f e. case prj (ent_value e) of Some v \<Rightarrow> (e\<lparr>ent_value := mk (fst (f v))\<rparr>, Some (snd (f v))) | None \<Rightarrow> (e, None)"
  have h: "?h f e = ?h g e" using assms [OF Some] by (cases "prj (ent_value e)") simp_all
  have "db_get_mut (ser_of c) key (cx_now c) (\<lambda>e. fst (?h f e)) (ex_db s) = db_get_mut (ser_of c) key (cx_now c) (\<lambda>e. fst (?h g e)) (ex_db s)"
    by (rule get_mut_cong) (use Some h in simp)
  then show ?thesis using Some h by (simp add: mut_ex_def look_ex_def value_mut_def entry_mut_def need_ex_def bind_ex_def)
qed (simp add: mut_ex_def look_ex_def)

text \<open>Reading a list and changing it, where the two runs need to change only what was read alike.\<close>

lemma sim_ref_state:
  assumes "\<And>v s s' t x. typed_ref as_list (db_get key (cx_now c) (ex_db s)) = Inr v \<Longrightarrow>
      typed_ref as_list (db_get key (cx_now c) (ex_db s')) = Inr v \<Longrightarrow>
      agree (cx_now c) (ex_db s) (ex_db s') \<Longrightarrow> k v s = (t, Inr x) \<Longrightarrow>
      \<exists>t' x'. k' v s' = (t', Inr x') \<and> R x x' \<and> agree (cx_now c) (ex_db t) (ex_db t')"
  shows "sim (cx_now c) R (ref_ex c as_list key k) (ref_ex (again c) as_list key k')"
proof (rule simI)
  fix s s' t :: ex and x
  assume a: "agree (cx_now c) (ex_db s) (ex_db s')" and r: "ref_ex c as_list key k s = (t, Inr x)"
  obtain v where v: "typed_ref as_list (db_get key (cx_now c) (ex_db s)) = Inr v" "k v s = (t, Inr x)"
    using r by (auto simp: ref_ex_def look_ex_def try_ex_def refuse_def split: sum.splits)
  have v': "typed_ref as_list (db_get key (cx_now c) (ex_db s')) = Inr v"
    using v(1) a typed_ref_durable(2) unfolding agree_def by metis
  show "\<exists>t' x'. ref_ex (again c) as_list key k' s' = (t', Inr x') \<and> R x x' \<and> agree (cx_now c) (ex_db t) (ex_db t')"
    using assms [OF v(1) v' a v(2)] v' by (simp add: ref_ex_def look_ex_def try_ex_def)
qed

lemma typed_list:
  "typed_ref as_list r = Inr v \<Longrightarrow> r = Some e \<Longrightarrow> as_list (ent_value e) = Some x \<Longrightarrow> v = Some x"
  by (auto simp: typed_ref_def)

lemma mut_found:
  assumes "db_get key (cx_now c) (ex_db s) = Some e" "prj (ent_value e) = Some x"
  shows "mut_ex c prj mk fresh key False f s =
    (s\<lparr>ex_db := db_get_mut (ser_of c) key (cx_now c) (\<lambda>e. fst (case prj (ent_value e) of
        Some v \<Rightarrow> (e\<lparr>ent_value := mk (fst (f v))\<rparr>, Some (snd (f v))) | None \<Rightarrow> (e, None))) (ex_db s)\<rparr>,
     Inr (Some (snd (f x))))"
  using assms by (simp add: mut_ex_def look_ex_def need_ex_def value_mut_def bind_ex_def entry_mut_def pass_def)

lemma sim_linsert: "repeats c (\<lambda>c. cmd_linsert c argv)"
proof -
  define key pivot v where "key = argv ! 1" and "pivot = argv ! 3" and "v = argv ! 4"
  define F where "F c ahead = (\<lambda>l. case position_of pivot l of None \<Rightarrow> (l, None)
      | Some at \<Rightarrow> (let grown = insert_at (if ahead then at else at + 1) v l
          in (if cx_replay c \<or> length l + 1 \<le> cx_max_elements c then grown else l, Some (length grown))))"
    for c :: ctx and ahead
  define K where "K c l found = (case found of None \<Rightarrow> pass (R_Int 0) | Some None \<Rightarrow> pass (R_Int (- 1))
      | Some (Some len) \<Rightarrow> room_for c (coll_len length l) 1 (then_ex (touch c key ''linsert'') (pass (r_int len))))"
    for c :: ctx and l :: "str list option" and found :: "nat option option"
  have rest: "sim (cx_now c) (=) (bind_ex (list_mut c key False (F (again c) ahead)) (K c l))
      (bind_ex (list_mut (again c) key False (F (again c) ahead)) (K (again c) l))" for l ahead
    unfolding K_def by (intro sim_intros refl)
  have m: "sim (cx_now c) (=) (ref_ex c as_list key (\<lambda>l. bind_ex (list_mut c key False (F c ahead)) (K c l)))
      (ref_ex (again c) as_list key (\<lambda>l. bind_ex (list_mut (again c) key False (F (again c) ahead)) (K (again c) l)))" for ahead
  proof (rule sim_ref_state)
    fix l and s s' t :: ex and x
    assume l: "typed_ref as_list (db_get key (cx_now c) (ex_db s)) = Inr l" and a: "agree (cx_now c) (ex_db s) (ex_db s')"
      and r: "bind_ex (list_mut c key False (F c ahead)) (K c l) s = (t, Inr x)"
    have same: "F c ahead xs = F (again c) ahead xs" if eq: "l = Some xs" for xs
    proof (rule ccontr)
      assume ne: "F c ahead xs \<noteq> F (again c) ahead xs"
      then have no: "\<not> (cx_replay c \<or> length xs + 1 \<le> cx_max_elements c)" and p: "position_of pivot xs \<noteq> None"
        by (auto simp: F_def split: option.splits)
      obtain e where e: "db_get key (cx_now c) (ex_db s) = Some e" "as_list (ent_value e) = Some xs"
        using l eq by (auto simp: typed_ref_def split: option.splits)
      show False
        using r no p eq mut_found [where prj = as_list, OF e, of V_List "[]" "F c ahead"]
        by (auto simp: bind_ex_def K_def F_def room_for_def need_ex_def refuse_def coll_len_def split: option.splits)
    qed
    have "list_mut c key False (F c ahead) s = list_mut c key False (F (again c) ahead) s"
      by (rule mut_cong) (use same typed_list [OF l] in blast)
    then have "bind_ex (list_mut c key False (F (again c) ahead)) (K c l) s = (t, Inr x)"
      using r by (simp add: bind_ex_def)
    from simD [OF rest a this] show "\<exists>t' x'. bind_ex (list_mut (again c) key False (F (again c) ahead)) (K (again c) l) s' = (t', Inr x') \<and>
        x = x' \<and> agree (cx_now c) (ex_db t) (ex_db t')" by metis
  qed
  have d: "cmd_linsert c argv = exactly argv 5 (
     try_ex (if eq_ignore_ascii_case (argv ! 2) ''BEFORE'' then Inr True
             else if eq_ignore_ascii_case (argv ! 2) ''AFTER'' then Inr False
             else Inl syntax_error) (\<lambda>ahead. ref_ex c as_list key (\<lambda>l. bind_ex (list_mut c key False (F c ahead)) (K c l))))" for c
    unfolding cmd_linsert_def Let_def key_def pivot_def v_def F_def K_def ..
  show ?thesis unfolding d by (intro sim_args sim_try m)
qed

end
