(* ===== verification/Cmd_Instead.thy ===== *)
theory Cmd_Instead
  imports Cmd_Repeat
begin

text \<open>
  The commands that journal another instead: what a blocking pop or a random choice took is what the
  command they hand the journal takes again.
\<close>

subsection \<open>What is journaled instead\<close>

text \<open>One run of a change of a set or a list, and another command that makes the same change.\<close>

lemma command_words:
  "command_name (''SREM'' # ws) = ''SREM''" "command_name (''LPOP'' # ws) = ''LPOP''" "command_name (''RPOP'' # ws) = ''RPOP''"
  "command_name (''LMOVE'' # ws) = ''LMOVE''" "command_name (''ZPOPMIN'' # ws) = ''ZPOPMIN''"
  "command_name (''ZPOPMAX'' # ws) = ''ZPOPMAX''"
  by (simp_all add: command_name_def Let_def to_ascii_uppercase_def) (code_simp)+

lemma dispatch_words:
  "dispatch c ''SREM'' argv = cmd_srem c argv" "dispatch c ''LPOP'' argv = cmd_pop c ''LPOP'' argv"
  "dispatch c ''RPOP'' argv = cmd_pop c ''RPOP'' argv" "dispatch c ''LMOVE'' argv = cmd_lmove c argv"
  "dispatch c ''ZPOPMIN'' argv = cmd_zpop c ''ZPOPMIN'' argv" "dispatch c ''ZPOPMAX'' argv = cmd_zpop c ''ZPOPMAX'' argv"
  by (simp_all add: dispatch_def dispatch_keys_def dispatch_lists_def dispatch_sets_def)

text \<open>Popping from a collection: the change, then the key gone with its last element.\<close>

abbreviation changed :: "(kvalue \<Rightarrow> 'v option) \<Rightarrow> ('v \<Rightarrow> kvalue) \<Rightarrow> ('v \<Rightarrow> 'v \<times> 'b) \<Rightarrow> kentry \<Rightarrow> kentry" where
  "changed prj mk f \<equiv> (\<lambda>e. fst (case prj (ent_value e) of
     Some v \<Rightarrow> (e\<lparr>ent_value := mk (fst (f v))\<rparr>, Some (snd (f v))) | None \<Rightarrow> (e, None)))"

lemma pop_agree:
  assumes a: "agree now d d'" and k: "kind_of prj mk" and p: "\<And>v. durable_value (mk v) = mk v"
    and e: "db_get key now d = Some e" "prj (ent_value e) = Some x"
  obtains e' where "db_get key now d' = Some e'" "prj (ent_value e') = Some x"
    "\<And>(f :: 'v \<Rightarrow> 'v \<times> 'b) (f' :: 'v \<Rightarrow> 'v \<times> 'c). fst (f x) = fst (f' x) \<Longrightarrow>
      agree now (db_prune ser key (db_get_mut ser key now (changed prj mk f) d))
        (db_prune ser' key (db_get_mut ser' key now (changed prj mk f') d'))"
proof -
  obtain e' where e': "db_get key now d' = Some e'" "durable e = durable e'" using agreeD(2) [OF a e(1)] by blast
  have v: "ent_value e = mk x" using k e(2) by (simp add: kind_of_def)
  have "prj (ent_value e') \<noteq> None" using k e(2) durable_eqD(2) [OF e'(2)] unfolding kind_of_def by (metis option.distinct(1))
  then obtain x' where x': "prj (ent_value e') = Some x'" by auto
  then have v': "ent_value e' = mk x'" using k by (simp add: kind_of_def)
  have "mk x = mk x'" using durable_eqD(2) [OF e'(2)] v v' p by simp
  then have x: "prj (ent_value e') = Some x" using v v' k by (simp add: kind_of_def)
  have "agree now (db_prune ser key (db_get_mut ser key now (changed prj mk f) d))
        (db_prune ser' key (db_get_mut ser' key now (changed prj mk f') d'))"
    if f: "fst (f x) = fst (f' x)" for f :: "'v \<Rightarrow> 'v \<times> 'b" and f' :: "'v \<Rightarrow> 'v \<times> 'c"
  proof -
    have "durable (e\<lparr>ent_value := v\<rparr>) = durable (e'\<lparr>ent_value := v\<rparr>)" for v
      by (rule durable_eqI) (use durable_eqD(1) [OF e'(2)] in simp_all)
    moreover have "\<not> entry_expired now e" "\<not> entry_expired now e'"
      using e(1) e'(1) by (auto dest: get_live)
    ultimately show ?thesis
      using a e e'(1) x f unfolding agree_def by (auto simp: entry_expired_def)
  qed
  with e'(1) x show ?thesis by (rule that)
qed

text \<open>
  \<open>instead c m\<close>: a run of \<open>m\<close> that returns either changes nothing of the two flags that decide what
  is journaled, or hands the journal one command, and that command run again leaves the same keys.
\<close>

definition instead :: "ctx \<Rightarrow> reply exec \<Rightarrow> bool" where
  "instead c m \<longleftrightarrow>
     (\<forall>s s' t x. agree (cx_now c) (ex_db s) (ex_db s') \<longrightarrow> m s = (t, Inr x) \<longrightarrow>
        (ex_dirty t = ex_dirty s \<and> ex_propagate t = ex_propagate s) \<or>
        (\<exists>w t' x'. ex_propagate t = Some [w] \<and> w \<noteq> [] \<and>
           dispatch (again c) (command_name w) w s' = (t', Inr x') \<and> agree (cx_now c) (ex_db t) (ex_db t')))"

lemma insteadI:
  assumes "\<And>s s' t x. agree (cx_now c) (ex_db s) (ex_db s') \<Longrightarrow> m s = (t, Inr x) \<Longrightarrow>
    (ex_dirty t = ex_dirty s \<and> ex_propagate t = ex_propagate s) \<or>
    (\<exists>w t' x'. ex_propagate t = Some [w] \<and> w \<noteq> [] \<and>
       dispatch (again c) (command_name w) w s' = (t', Inr x') \<and> agree (cx_now c) (ex_db t) (ex_db t'))"
  shows "instead c m"
  using assms by (simp add: instead_def)

lemma instead_still: "(\<And>s t r. m s = (t, r) \<Longrightarrow> ex_dirty t = ex_dirty s \<and> ex_propagate t = ex_propagate s) \<Longrightarrow> instead c m"
  unfolding instead_def by blast

lemma instead_rules:
  "instead c (refuse e)" "instead c (pass x)"
  "(b \<Longrightarrow> instead c m) \<Longrightarrow> instead c (need_ex b e m)"
  "(n \<le> length argv \<Longrightarrow> instead c m) \<Longrightarrow> instead c (need_args argv n m)"
  "(length argv = n \<Longrightarrow> instead c m) \<Longrightarrow> instead c (exactly argv n m)"
  "(\<And>x. r = Inr x \<Longrightarrow> instead c (k1 x)) \<Longrightarrow> instead c (try_ex r k1)"
  "(b \<Longrightarrow> instead c m) \<Longrightarrow> (\<not> b \<Longrightarrow> instead c n') \<Longrightarrow> instead c (if b then m else n')"
  "(o1 = None \<Longrightarrow> instead c m) \<Longrightarrow> (\<And>x. o1 = Some x \<Longrightarrow> instead c (k2 x)) \<Longrightarrow> instead c (case o1 of None \<Rightarrow> m | Some x \<Rightarrow> k2 x)"
  "(\<And>v. instead c (k3 v)) \<Longrightarrow> instead c (ref_ex c prj key k3)"
  "instead c (then_ex (block_ex c retry timeout) (pass x))"
proof -
  show r: "instead c (refuse e)" "instead c (pass x)" for e x
    by (rule instead_still, simp add: refuse_def pass_def)+
  show "(b \<Longrightarrow> instead c m) \<Longrightarrow> instead c (need_ex b e m)" "(n \<le> length argv \<Longrightarrow> instead c m) \<Longrightarrow> instead c (need_args argv n m)"
    "(length argv = n \<Longrightarrow> instead c m) \<Longrightarrow> instead c (exactly argv n m)"
    by (simp_all add: need_ex_def need_args_def exactly_def r)
  show t: "(\<And>x. r = Inr x \<Longrightarrow> instead c (k1 x)) \<Longrightarrow> instead c (try_ex r k1)" for r :: "str + 'z" and k1
    by (cases r) (simp_all add: try_ex_def r)
  show "(b \<Longrightarrow> instead c m) \<Longrightarrow> (\<not> b \<Longrightarrow> instead c n') \<Longrightarrow> instead c (if b then m else n')" by simp
  show "(o1 = None \<Longrightarrow> instead c m) \<Longrightarrow> (\<And>x. o1 = Some x \<Longrightarrow> instead c (k2 x)) \<Longrightarrow> instead c (case o1 of None \<Rightarrow> m | Some x \<Rightarrow> k2 x)"
    by (cases o1) simp_all
  show "(\<And>v. instead c (k3 v)) \<Longrightarrow> instead c (ref_ex c prj key k3)"
    unfolding instead_def ref_ex_def look_ex_def try_ex_def refuse_def by (auto split: sum.splits)
  show "instead c (then_ex (block_ex c retry timeout) (pass x))"
    by (rule instead_still) (auto simp: then_ex_def bind_ex_def block_ex_def pass_def split: if_splits)
qed

text \<open>Two runs, the first with something to journal after it.\<close>

lemma instead_sim:
  assumes "sim (cx_now c) R m (dispatch (again c) (command_name w) w)" "w \<noteq> []"
    and "\<And>s t x. m s = (t, Inr x) \<Longrightarrow> ex_propagate t = Some [w]"
  shows "instead c m"
proof (rule insteadI)
  fix s s' t :: ex and x
  assume a: "agree (cx_now c) (ex_db s) (ex_db s')" and r: "m s = (t, Inr x)"
  obtain t' x' where "dispatch (again c) (command_name w) w s' = (t', Inr x')" "agree (cx_now c) (ex_db t) (ex_db t')"
    using simD [OF assms(1) a r] by metis
  then show "(ex_dirty t = ex_dirty s \<and> ex_propagate t = ex_propagate s) \<or>
      (\<exists>w t' x'. ex_propagate t = Some [w] \<and> w \<noteq> [] \<and>
         dispatch (again c) (command_name w) w s' = (t', Inr x') \<and> agree (cx_now c) (ex_db t) (ex_db t'))"
    using assms(2) assms(3) [OF r] by blast
qed

lemma sim_propagates:
  assumes "sim now (=) m m'"
  shows "sim now (\<lambda>_ _. True) (bind_ex m (\<lambda>r. then_ex (propagate w) (pass r))) m'"
proof (rule simI)
  fix s s' t :: ex and x
  assume a: "agree now (ex_db s) (ex_db s')" and r: "bind_ex m (\<lambda>r. then_ex (propagate w) (pass r)) s = (t, Inr x)"
  obtain u y where u: "m s = (u, Inr y)" "ex_db t = ex_db u"
    using r by (auto simp: bind_ex_def then_ex_def propagate_def pass_def split: prod.splits sum.splits)
  show "\<exists>t' x'. m' s' = (t', Inr x') \<and> True \<and> agree now (ex_db t) (ex_db t')"
    using simD [OF assms a u(1)] u(2) by metis
qed

lemma side_arg_name [simp]: "side_arg (side_name b) = Inr b"
proof -
  have "side_arg (side_name True) = Inr True" "side_arg (side_name False) = Inr False" by code_simp+
  then show ?thesis by (cases b) simp_all
qed

lemma instead_blmove: "instead c (cmd_blmove c argv)"
proof -
  have "instead c (bind_ex (lmove c src dst fl tl) (\<lambda>r. then_ex (propagate [''LMOVE'', src, dst, side_name fl, side_name tl]) (pass r)))"
    for src dst fl tl
  proof (rule instead_sim)
    let ?w = "[''LMOVE'', src, dst, side_name fl, side_name tl]"
    have "cmd_lmove (again c) ?w = lmove (again c) src dst fl tl"
      by (simp add: cmd_lmove_def exactly_def need_ex_def try_ex_def)
    then show "sim (cx_now c) (\<lambda>_ _. True) (bind_ex (lmove c src dst fl tl) (\<lambda>r. then_ex (propagate ?w) (pass r)))
        (dispatch (again c) (command_name ?w) ?w)"
      by (simp add: command_words dispatch_words sim_propagates sim_lmove)
    show "ex_propagate t = Some [?w]"
      if "bind_ex (lmove c src dst fl tl) (\<lambda>r. then_ex (propagate ?w) (pass r)) s = (t, Inr x)" for s t x
      using that by (auto simp: bind_ex_def then_ex_def propagate_def pass_def split: prod.splits sum.splits)
  qed simp
  then show ?thesis
    unfolding cmd_blmove_def Let_def by (intro instead_rules)
qed

lemma instead_bzpop: "instead c (cmd_bzpop c mn argv)"
proof -
  have z: "instead c (zpop c key mn 1 (\<lambda>out. then_ex (propagate w) (pass (R_Array (R_Bulk key # out)))))"
    if "w = [if mn then ''ZPOPMIN'' else ''ZPOPMAX'', key]" for key w
  proof (rule instead_sim)
    have "cmd_zpop (again c) (if mn then ''ZPOPMIN'' else ''ZPOPMAX'') w = zpop (again c) key mn 1 (\<lambda>out. pass (R_Array out))"
      using that by (simp add: cmd_zpop_def need_ex_def try_ex_def optional_count_def arg_at_def)
    moreover have "sim (cx_now c) (\<lambda>_ _. True) (zpop c key mn 1 (\<lambda>out. then_ex (propagate w) (pass (R_Array (R_Bulk key # out)))))
        (zpop (again c) key mn 1 (\<lambda>out. pass (R_Array out)))"
      by (rule sim_zpop) (auto simp: sim_def then_ex_def bind_ex_def propagate_def pass_def)
    ultimately show "sim (cx_now c) (\<lambda>_ _. True) (zpop c key mn 1 (\<lambda>out. then_ex (propagate w) (pass (R_Array (R_Bulk key # out)))))
        (dispatch (again c) (command_name w) w)"
      using that by (cases mn) (simp_all add: command_words dispatch_words)
    show "ex_propagate t = Some [w]"
      if "zpop c key mn 1 (\<lambda>out. then_ex (propagate w) (pass (R_Array (R_Bulk key # out)))) s = (t, Inr x)" for s t x
      using that by (auto simp: zpop_def bind_ex_def then_ex_def propagate_def pass_def split: prod.splits sum.splits option.splits)
  qed (use that in simp)
  have "instead c (bzpop_loop c mn keys (then_ex (block_ex c argv timeout) (pass R_Nil)))" for keys timeout
  proof (induction keys)
    case (Cons key keys)
    then show ?case unfolding bzpop_loop.simps by (intro instead_rules z refl)
  qed (simp add: instead_rules)
  then show ?thesis unfolding cmd_bzpop_def by (intro instead_rules)
qed


lemma mut_absent:
  "db_get key (cx_now c) (ex_db s) = None \<Longrightarrow> mut_ex c prj mk fresh key False f s = (s, Inr None)"
  by (simp add: mut_ex_def look_ex_def pass_def)

lemma mut_wrong:
  "db_get key (cx_now c) (ex_db s) = Some e \<Longrightarrow> prj (ent_value e) = None \<Longrightarrow>
   mut_ex c prj mk fresh key create f s = (s, Inl (Failed wrong_type))"
  by (simp add: mut_ex_def look_ex_def need_ex_def refuse_def)

lemma pop_one: "l \<noteq> [] \<Longrightarrow> pop_side left 1 l = ([if left then hd l else List.last l], if left then tl l else butlast l)"
proof (cases left)
  case True
  then show "l \<noteq> [] \<Longrightarrow> ?thesis" by (cases l) (auto simp: pop_side_def)
next
  case False
  then show "l \<noteq> [] \<Longrightarrow> ?thesis" by (cases l rule: rev_cases) (auto simp: pop_side_def)
qed

lemma instead_blpop: "instead c (cmd_blpop c left argv)"
proof -
  let ?f = "\<lambda>l. case pop_side left 1 l of (x # _, rest) \<Rightarrow> (rest, Some x) | _ \<Rightarrow> (l, None)"
  let ?g = "\<lambda>l. let (popped, rest) = pop_side left 1 l in (rest, popped)"
  have "instead c (blpop_loop c left keys (then_ex (block_ex c argv timeout) (pass R_Nil)))" for keys timeout
  proof (induction keys)
    case (Cons key keys)
    let ?rest = "blpop_loop c left keys (then_ex (block_ex c argv timeout) (pass R_Nil))"
    let ?w = "[if left then ''LPOP'' else ''RPOP'', key]"
    show ?case
    proof (rule insteadI)
      fix s s' t :: ex and x
      assume a: "agree (cx_now c) (ex_db s) (ex_db s')"
        and r: "blpop_loop c left (key # keys) (then_ex (block_ex c argv timeout) (pass R_Nil)) s = (t, Inr x)"
      let ?goal = "(ex_dirty t = ex_dirty s \<and> ex_propagate t = ex_propagate s) \<or>
          (\<exists>w t' x'. ex_propagate t = Some [w] \<and> w \<noteq> [] \<and>
             dispatch (again c) (command_name w) w s' = (t', Inr x') \<and> agree (cx_now c) (ex_db t) (ex_db t'))"
      show ?goal
      proof (cases "db_get key (cx_now c) (ex_db s)")
        case None
        then have "?rest s = (t, Inr x)" using r by (simp add: mut_absent bind_ex_def)
        then show ?thesis using Cons a unfolding instead_def by blast
      next
        case (Some e)
        then obtain l where l: "as_list (ent_value e) = Some l"
          using r by (cases "as_list (ent_value e)") (simp_all add: bind_ex_def mut_wrong [OF Some])
        note found = mut_found [where prj = as_list, OF Some l, of V_List "[]"]
        show ?thesis
        proof (cases "l = []")
          case True
          let ?s = "s\<lparr>ex_db := db_get_mut (ser_of c) key (cx_now c) (changed as_list V_List ?f) (ex_db s)\<rparr>"
          have v: "ent_value e = V_List []" using l True by (cases "ent_value e") simp_all
          have nil: "pop_side left (Suc 0) ([] :: str list) = ([], [])" by (simp add: pop_side_def)
          then have "?rest ?s = (t, Inr x)" using r found [of ?f] True by (simp add: bind_ex_def)
          moreover have "agree (cx_now c) (ex_db ?s) (ex_db s')"
          proof -
            have "e\<lparr>ent_value := V_List []\<rparr> = e" using v by (cases e) simp
            then have "db_get k (cx_now c) (ex_db ?s) = db_get k (cx_now c) (ex_db s)" for k
              using Some get_live [OF Some] l True nil by simp
            then show ?thesis using a by (simp add: agree_def)
          qed
          ultimately show ?thesis using Cons unfolding instead_def by fastforce
        next
          case False
          then obtain y rest where y: "pop_side left 1 l = ([y], rest)"
            using pop_one by blast
          obtain e' where e': "db_get key (cx_now c) (ex_db s') = Some e'" "as_list (ent_value e') = Some l"
            and ag: "\<And>(f :: str list \<Rightarrow> str list \<times> str option) (f' :: str list \<Rightarrow> str list \<times> str list). fst (f l) = fst (f' l) \<Longrightarrow>
              agree (cx_now c) (db_prune (ser_of c) key (db_get_mut (ser_of c) key (cx_now c) (changed as_list V_List f) (ex_db s)))
                (db_prune (ser_of c) key (db_get_mut (ser_of c) key (cx_now c) (changed as_list V_List f') (ex_db s')))"
            using pop_agree [where prj = as_list and mk = V_List, OF a _ _ Some l] by auto
          have t: "ex_db t = db_prune (ser_of c) key (db_get_mut (ser_of c) key (cx_now c) (changed as_list V_List ?f) (ex_db s))"
              "ex_propagate t = Some [?w]"
            using r found [of ?f] y
            by (auto simp: bind_ex_def then_ex_def prune_ex_def change_ex_def touch_def propagate_def pass_def)
          have nm: "((if left then ''LPOP'' else ''RPOP'') = ''LPOP'') = left" by (cases left) simp_all
          have e2: "db_get key (cx_now (again c)) (ex_db s') = Some e'" using e' by simp
          obtain t' x' where t': "cmd_pop (again c) (if left then ''LPOP'' else ''RPOP'') ?w s' = (t', Inr x')"
            "ex_db t' = db_prune (ser_of c) key (db_get_mut (ser_of c) key (cx_now c) (changed as_list V_List ?g) (ex_db s'))"
            using mut_found [where prj = as_list, OF e2 e'(2), of V_List "[]" ?g] y
            by (auto simp: cmd_pop_def need_ex_def try_ex_def optional_count_def arg_at_def bind_ex_def then_ex_def
                prune_ex_def change_ex_def when_ex_def touch_def pass_def Let_def nm)
          have "agree (cx_now c) (ex_db t) (ex_db t')"
            unfolding t t' by (rule ag) (use y in simp)
          moreover have "dispatch (again c) (command_name ?w) ?w s' = (t', Inr x')"
            using t'(1) by (cases left) (simp_all add: command_words dispatch_words)
          ultimately show ?thesis using t(2) by blast
        qed
      qed
    qed
  qed (simp add: instead_rules)
  then show ?thesis unfolding cmd_blpop_def by (intro instead_rules)
qed


text \<open>Choosing members draws hashes and changes nothing else.\<close>

definition undrawn :: "ex \<Rightarrow> ex \<Rightarrow> bool" where
  "undrawn s t \<longleftrightarrow> (\<exists>hs. t = s\<lparr>ex_draws := hs\<rparr>)"

lemma undrawn_refl: "undrawn s s"
  unfolding undrawn_def by (rule exI [of _ "ex_draws s"]) simp

lemma undrawn_trans: "undrawn s t \<Longrightarrow> undrawn t u \<Longrightarrow> undrawn s u"
  by (auto simp: undrawn_def)

definition chooses :: "(('p \<Rightarrow> 'a exec) \<Rightarrow> 'a exec) \<Rightarrow> bool" where
  "chooses m \<longleftrightarrow> (\<forall>k s. \<exists>u. undrawn s u \<and> ((\<exists>p. m k s = k p u) \<or> (\<exists>e. m k s = (u, Inl e))))"

lemma choosesD:
  assumes "chooses m"
  obtains p u where "undrawn s u" "m k s = k p u" | e u where "undrawn s u" "m k s = (u, Inl e)"
  using assms unfolding chooses_def by blast

lemma chooses_draw: "chooses (draw_ex n)"
  unfolding chooses_def
proof (intro allI)
  fix k and s :: ex
  show "\<exists>u. undrawn s u \<and> ((\<exists>p. draw_ex n k s = k p u) \<or> (\<exists>e. draw_ex n k s = (u, Inl e)))"
  proof (cases "ex_draws s")
    case Nil
    then have "draw_ex n k s = (s, Inl Starved)" by (simp add: draw_ex_def)
    then show ?thesis using undrawn_refl by blast
  next
    case (Cons h hs)
    then have "draw_ex n k s = k (random_below h n) (s\<lparr>ex_draws := hs\<rparr>)" by (simp add: draw_ex_def)
    then show ?thesis unfolding undrawn_def by blast
  qed
qed

lemma chooses_one: "chooses (\<lambda>k. k p)"
  unfolding chooses_def using undrawn_refl by blast

lemma chooses_chain:
  assumes "chooses m" "\<And>p. chooses (n p)"
  shows "chooses (\<lambda>k. m (\<lambda>p. n p k))"
  unfolding chooses_def
proof (intro allI)
  fix k and s :: ex
  let ?goal = "\<exists>u. undrawn s u \<and> ((\<exists>p. m (\<lambda>p. n p k) s = k p u) \<or> (\<exists>e. m (\<lambda>p. n p k) s = (u, Inl e)))"
  show ?goal
  proof (rule choosesD [OF assms(1), of s "\<lambda>p. n p k"])
    fix p u assume u: "undrawn s u" "m (\<lambda>p. n p k) s = n p k u"
    show ?goal by (rule choosesD [OF assms(2), of u p k]) (use u undrawn_trans in metis)+
  qed blast
qed

lemma chooses_need: "chooses m \<Longrightarrow> chooses (\<lambda>k. need_ex b e (m k))"
proof -
  assume m: "chooses m"
  have "chooses (\<lambda>k :: 'a \<Rightarrow> 'b exec. refuse e)" unfolding chooses_def using undrawn_refl by (auto simp: refuse_def)
  then show ?thesis using m by (cases b) (simp_all add: need_ex_def)
qed

lemma chooses_shuffle: "chooses (shuffle_loop m i idx)"
proof (induction m arbitrary: i idx)
  case (Suc m)
  have eq: "shuffle_loop (Suc m) i idx = (\<lambda>k. draw_ex (length idx - i) (\<lambda>r. shuffle_loop m (i + 1) (idx[i := idx ! (i + r), i + r := idx ! i]) k))"
    by (intro ext) simp
  show ?case unfolding eq by (rule chooses_chain [OF chooses_draw Suc])
next
  case 0
  have eq: "shuffle_loop 0 i idx = (\<lambda>k. k idx)" by (intro ext) simp
  show ?case unfolding eq by (rule chooses_one)
qed

lemma chooses_sample: "chooses (sample_distinct len n)"
proof (cases "min n len * 2 \<ge> len")
  case True
  then have eq: "sample_distinct len n = (\<lambda>k. shuffle_loop (min n len) 0 [0..<len] (\<lambda>idx. k (take (min n len) idx)))"
    by (intro ext) (simp add: sample_distinct_def Let_def)
  show ?thesis unfolding eq by (rule chooses_chain [OF chooses_shuffle chooses_one])
next
  case False
  have "sample_distinct len n k s = (case sample_loop len (min n len) [] (ex_draws s) of
      None \<Rightarrow> (s\<lparr>ex_draws := []\<rparr>, Inl Starved) | Some (picked, hs) \<Rightarrow> k picked (s\<lparr>ex_draws := hs\<rparr>))"
    for k :: "nat list \<Rightarrow> 'a exec" and s
    unfolding sample_distinct_def Let_def if_not_P [OF False] ..
  then show ?thesis unfolding chooses_def undrawn_def by (fastforce split: option.splits)
qed

lemma chooses_members: "chooses (\<lambda>k. pick_members c True wanted v k)"
proof (cases wanted)
  case None
  then have eq: "pick_members c True wanted v = (\<lambda>k. draw_ex (length (bs_list v)) (\<lambda>i. k (if i < length (bs_list v) then [bs_list v ! i] else [])))"
    by (intro ext) (simp add: pick_members_def Let_def)
  show ?thesis unfolding eq by (rule chooses_chain [OF chooses_draw chooses_one])
next
  case (Some n)
  then have eq: "pick_members c True wanted v = (\<lambda>k. need_ex (n \<ge> 0) ''ERR value is out of range, must be positive''
      (sample_distinct (length (bs_list v)) (min (nat n) (length (bs_list v))) (\<lambda>ps. k (pick_at 0 (bs_list v) (sort ps)))))"
    by (intro ext) (simp add: pick_members_def Let_def)
  show ?thesis unfolding eq by (rule chooses_need [OF chooses_chain [OF chooses_sample chooses_one]])
qed

lemma instead_choice:
  assumes "chooses m" "\<And>p. instead c (k p)"
  shows "instead c (m k)"
proof (rule insteadI)
  fix s s' t :: ex and x
  assume a: "agree (cx_now c) (ex_db s) (ex_db s')" and r: "m k s = (t, Inr x)"
  obtain p u where u: "undrawn s u" "k p u = (t, Inr x)"
    by (rule choosesD [OF assms(1), of s k]) (use r in auto)
  then have "agree (cx_now c) (ex_db u) (ex_db s')" "ex_dirty u = ex_dirty s" "ex_propagate u = ex_propagate s"
    using a by (auto simp: undrawn_def)
  then show "(ex_dirty t = ex_dirty s \<and> ex_propagate t = ex_propagate s) \<or>
      (\<exists>w t' x'. ex_propagate t = Some [w] \<and> w \<noteq> [] \<and>
         dispatch (again c) (command_name w) w s' = (t', Inr x') \<and> agree (cx_now c) (ex_db t) (ex_db t'))"
    using assms(2) [of p] u(2) unfolding instead_def by metis
qed

lemma instead_spop: "instead c (cmd_spop c True argv)"
proof -
  let ?key = "argv ! 1"
  have m: "instead c (then_ex (when_ex (True \<and> picked \<noteq> [])
      (bind_ex (set_mut c key False (\<lambda>v. (fst (remove_each picked v), ()))) (\<lambda>u.
       some_ex u syntax_error (\<lambda>_. then_ex (prune_ex c key) (then_ex (touch c key ''spop'') (propagate ([''SREM'', key] @ picked)))))))
      (pass y))" for picked key y
  proof (cases "picked = []")
    case True
    then show ?thesis by (simp add: when_ex_def then_ex_def bind_ex_def pass_def instead_def)
  next
    case False
    let ?w = "[''SREM'', key] @ picked"
    let ?f = "\<lambda>v. (fst (remove_each picked v), ())"
    show ?thesis
    proof (rule insteadI)
      fix s s' t :: ex and x
      assume a: "agree (cx_now c) (ex_db s) (ex_db s')"
        and r: "then_ex (when_ex (True \<and> picked \<noteq> [])
          (bind_ex (set_mut c key False ?f) (\<lambda>u. some_ex u syntax_error (\<lambda>_.
            then_ex (prune_ex c key) (then_ex (touch c key ''spop'') (propagate ?w)))))) (pass y) s = (t, Inr x)"
      show "(ex_dirty t = ex_dirty s \<and> ex_propagate t = ex_propagate s) \<or>
          (\<exists>w t' x'. ex_propagate t = Some [w] \<and> w \<noteq> [] \<and>
             dispatch (again c) (command_name w) w s' = (t', Inr x') \<and> agree (cx_now c) (ex_db t) (ex_db t'))"
      proof (cases "db_get key (cx_now c) (ex_db s)")
        case None
        then show ?thesis using r False by (simp add: mut_absent then_ex_def when_ex_def bind_ex_def some_ex_def refuse_def)
      next
        case (Some e)
        then obtain v where v: "as_set (ent_value e) = Some v"
          using r False by (cases "as_set (ent_value e)") (simp_all add: then_ex_def when_ex_def bind_ex_def mut_wrong [OF Some])
        obtain e' where e': "db_get key (cx_now c) (ex_db s') = Some e'" "as_set (ent_value e') = Some v"
          and ag: "\<And>(f :: str btree_set \<Rightarrow> str btree_set \<times> unit) (f' :: str btree_set \<Rightarrow> str btree_set \<times> nat). fst (f v) = fst (f' v) \<Longrightarrow>
            agree (cx_now c) (db_prune (ser_of c) key (db_get_mut (ser_of c) key (cx_now c) (changed as_set V_Set f) (ex_db s)))
              (db_prune (ser_of c) key (db_get_mut (ser_of c) key (cx_now c) (changed as_set V_Set f') (ex_db s')))"
          using pop_agree [where prj = as_set and mk = V_Set, OF a _ _ Some v] by auto
        have t: "ex_db t = db_prune (ser_of c) key (db_get_mut (ser_of c) key (cx_now c) (changed as_set V_Set ?f) (ex_db s))"
            "ex_propagate t = Some [?w]"
          using r False mut_found [where prj = as_set, OF Some v, of V_Set bm_empty ?f]
          by (auto simp: bind_ex_def then_ex_def when_ex_def some_ex_def prune_ex_def change_ex_def touch_def propagate_def pass_def)
        have e2: "db_get key (cx_now (again c)) (ex_db s') = Some e'" using e' by simp
        obtain t' x' where t': "cmd_srem (again c) ?w s' = (t', Inr x')"
          "ex_db t' = db_prune (ser_of c) key (db_get_mut (ser_of c) key (cx_now c) (changed as_set V_Set (remove_each picked)) (ex_db s'))"
          using mut_found [where prj = as_set, OF e2 e'(2), of V_Set bm_empty "remove_each picked"] False
          by (cases "0 < snd (remove_each picked v)") (auto simp: cmd_srem_def need_args_def need_ex_def bind_ex_def then_ex_def Suc_le_eq
              prune_ex_def change_ex_def when_ex_def touch_def pass_def Let_def)
        have "agree (cx_now c) (ex_db t) (ex_db t')"
          unfolding t t' by (rule ag) simp
        moreover have "dispatch (again c) (command_name ?w) ?w s' = (t', Inr x')"
          using t'(1) by (simp add: command_words dispatch_words)
        ultimately show ?thesis using t(2) by blast
      qed
    qed
  qed
  show ?thesis
    unfolding cmd_spop_def Let_def by (intro instead_rules instead_choice [OF chooses_members] m)
qed

end
