(* ===== verification/Cmd_Tidy.thy ===== *)
theory Cmd_Tidy
  imports Cmd_Instead
begin

text \<open>
  A tidy keyspace and what a command owes it: a command of \<open>src/src/commands.rs\<close> leaves the keyspace
  tidy, and where it fails or has nothing to journal, every live key is as it was. Reads, the
  keyspace-wide commands and the strings.
\<close>

subsection \<open>Keyspaces as the commands leave them\<close>

text \<open>
  No collection but a stream is ever empty, sorted sets keep their index, and whoever has an entry
  of a group pending is one of its consumers.
\<close>

definition group_tidy :: "group \<Rightarrow> bool" where
  "group_tidy g \<longleftrightarrow> (\<forall>i p. bm_get (grp_pending g) i = Some p \<longrightarrow> bm_contains (grp_consumers g) (pe_consumer p))"

fun sound_value :: "kvalue \<Rightarrow> bool" where
  "sound_value (V_ZSet z) = zset_ok z"
| "sound_value (V_Stream s) = (\<forall>grp g. get_group grp s = Some g \<longrightarrow> group_tidy g)"
| "sound_value _ = True"

definition tidy_value :: "kvalue \<Rightarrow> bool" where
  "tidy_value v \<longleftrightarrow> sound_value v \<and> \<not> is_empty_collection v"

definition tidy :: "u64 \<Rightarrow> db \<Rightarrow> bool" where
  "tidy now d \<longleftrightarrow> (\<forall>k e. db_get k now d = Some e \<longrightarrow> tidy_value (ent_value e))"

lemma tidyD: "tidy now d \<Longrightarrow> db_get k now d = Some e \<Longrightarrow> tidy_value (ent_value e)"
  by (simp add: tidy_def)

lemma tidy_same: "(\<And>k. db_get k now d' = db_get k now d) \<Longrightarrow> tidy now d \<Longrightarrow> tidy now d'"
  by (simp add: tidy_def)

lemma tidy_ops:
  assumes "tidy now d"
  shows "tidy_value (ent_value e) \<Longrightarrow> tidy now (db_insert ser key e d)" "tidy now (db_deadline key at d)"
    "tidy now (fst (db_take ser key d))" "tidy now (fst (db_delete ser key t d))" "tidy now (fst (db_remove ser key t d))"
    "tidy now (db_clear ser d)"
  using assms by (auto simp: tidy_def split: if_splits)

lemma prune_tidy:
  assumes "tidy now d"
  shows "db_get k now (db_prune ser key d) = db_get k now d" "tidy now (db_prune ser key d)"
proof -
  show a: "db_get k now (db_prune ser key d) = db_get k now d" for k
    using tidyD [OF assms, of key] by (auto simp: tidy_value_def split: option.split)
  show "tidy now (db_prune ser key d)" by (rule tidy_same [OF a assms])
qed

subsection \<open>What a command owes\<close>

text \<open>
  \<open>good\<close>: a tidy keyspace stays tidy, nothing forgets that there is something to journal, and where
  the command failed or has nothing to journal every live key is as it was.
\<close>

definition good :: "ctx \<Rightarrow> ex \<Rightarrow> ex \<Rightarrow> stop + 'a \<Rightarrow> bool" where
  "good c s t r \<longleftrightarrow> tidy (cx_now c) (ex_db s) \<longrightarrow>
     tidy (cx_now c) (ex_db t) \<and> (ex_dirty s \<longrightarrow> ex_dirty t) \<and>
     (isl r \<or> \<not> ex_dirty t \<longrightarrow> agree (cx_now c) (ex_db s) (ex_db t))"

definition keeps_view :: "ctx \<Rightarrow> 'a exec \<Rightarrow> bool" where
  "keeps_view c m \<longleftrightarrow> (\<forall>s t r. m s = (t, r) \<longrightarrow> good c s t r)"

definition solid :: "ctx \<Rightarrow> 'a exec \<Rightarrow> bool" where
  "solid c m \<longleftrightarrow> keeps_view c m \<and> (\<forall>s t r. m s = (t, r) \<longrightarrow> tidy (cx_now c) (ex_db s) \<longrightarrow> \<not> isl r)"

text \<open>Whatever it changes, it cannot fail and leaves the keyspace tidy; and one that asks for the journal.\<close>

definition calm :: "ctx \<Rightarrow> 'a exec \<Rightarrow> bool" where
  "calm c m \<longleftrightarrow> (\<forall>s t r. m s = (t, r) \<longrightarrow> tidy (cx_now c) (ex_db s) \<longrightarrow>
     tidy (cx_now c) (ex_db t) \<and> (ex_dirty s \<longrightarrow> ex_dirty t) \<and> \<not> isl r)"

definition marks :: "ctx \<Rightarrow> 'a exec \<Rightarrow> bool" where
  "marks c m \<longleftrightarrow> calm c m \<and> (\<forall>s t r. m s = (t, r) \<longrightarrow> tidy (cx_now c) (ex_db s) \<longrightarrow> ex_dirty t)"

definition untouched :: "ex \<Rightarrow> ex \<Rightarrow> bool" where
  "untouched s t \<longleftrightarrow> ex_db t = ex_db s \<and> ex_dirty t = ex_dirty s"

lemma preord_untouched [simp, steps_intros]: "preord untouched"
  by (rule preordI) (simp_all add: untouched_def)

lemma kept_untouched: "steps untouched m \<Longrightarrow> keeps_view c m"
  unfolding steps_def keeps_view_def
proof (intro allI impI)
  fix s t :: ex and r assume "\<forall>s. untouched s (fst (m s))" "m s = (t, r)"
  then have "untouched s t" by (metis fst_conv)
  then show "good c s t r" by (simp add: good_def untouched_def)
qed

lemma solid_keeps: "solid c m \<Longrightarrow> keeps_view c m" by (simp add: solid_def)

lemma marks_solid: "marks c m \<Longrightarrow> solid c m"
  unfolding marks_def calm_def solid_def keeps_view_def good_def by blast

lemma solid_calm: "solid c m \<Longrightarrow> calm c m"
  unfolding calm_def solid_def keeps_view_def good_def by blast

lemma marks_calm: "marks c m \<Longrightarrow> calm c m" by (simp add: marks_def)

lemma keptI: "(\<And>s t r. m s = (t, r) \<Longrightarrow> good c s t r) \<Longrightarrow> keeps_view c m"
  by (simp add: keeps_view_def)

lemma keptD: "keeps_view c m \<Longrightarrow> m s = (t, r) \<Longrightarrow> good c s t r"
  by (simp add: keeps_view_def)

lemma good_refl: "good c s s r" by (simp add: good_def)

named_theorems view_intros \<open>what a part of a command owes its keyspace\<close>

lemma kept_basic [view_intros]:
  "keeps_view c (pass x)" "keeps_view c (refuse e)" "solid c (pass x)"
  "marks c (touch c' key event)" "marks c mark_dirty" "solid c (propagate w)" "solid c (block_ex c' retry timeout)"
  "solid c (prune_ex c key)" "calm c (take_ex c key)" "calm c (change_ex (db_deadline key at))"
  "calm c (change_ex (\<lambda>d. fst (db_delete ser key t d)))"
  by (auto simp: keeps_view_def good_def pass_def refuse_def solid_def marks_def calm_def touch_def mark_dirty_def
      propagate_def block_ex_def prune_ex_def take_ex_def change_ex_def tidy_ops prune_tidy agree_def simp del: get_prune split: if_splits)

lemma calm_insert [view_intros]: "tidy_value (ent_value e) \<Longrightarrow> calm c (change_ex (db_insert ser key e))"
  by (auto simp: calm_def change_ex_def tidy_ops)

lemma kept_bind:
  assumes "keeps_view c m" "\<And>x. solid c (k x)"
  shows "keeps_view c (bind_ex m k)"
proof (rule keptI)
  fix s t :: ex and r assume b: "bind_ex m k s = (t, r)"
  obtain u q where m: "m s = (u, q)" by fastforce
  show "good c s t r"
  proof (cases q)
    case (Inl e)
    then show ?thesis using b m keptD [OF assms(1) m] by (auto simp: bind_ex_def good_def)
  next
    case (Inr x)
    then have k: "k x u = (t, r)" using b m by (simp add: bind_ex_def)
    have "tidy (cx_now c) (ex_db u) \<Longrightarrow> \<not> isl r" using assms(2) [of x] k unfolding solid_def by blast
    then show ?thesis using keptD [OF assms(1) m] keptD [OF solid_keeps [OF assms(2)] k] Inr agree_trans
      unfolding good_def by fastforce
  qed
qed

lemma kept_then: "keeps_view c m \<Longrightarrow> solid c n \<Longrightarrow> keeps_view c (then_ex m n)"
  by (simp add: then_ex_def kept_bind)

lemma solid_then [view_intros]: "solid c m \<Longrightarrow> solid c n \<Longrightarrow> solid c (then_ex m n)"
proof -
  assume m: "solid c m" and n: "solid c n"
  have "keeps_view c (then_ex m n)" by (rule kept_then [OF solid_keeps [OF m] n])
  moreover have "\<not> isl r" if "then_ex m n s = (t, r)" "tidy (cx_now c) (ex_db s)" for s t r
    using that m n unfolding solid_def keeps_view_def good_def then_ex_def bind_ex_def
    by (fastforce split: prod.splits sum.splits)
  ultimately show ?thesis unfolding solid_def by blast
qed

lemma calm_then: "calm c m \<Longrightarrow> calm c n \<Longrightarrow> calm c (then_ex m n)"
  unfolding calm_def then_ex_def bind_ex_def by (fastforce split: prod.splits sum.splits)

lemma marks_then1: "marks c m \<Longrightarrow> calm c n \<Longrightarrow> marks c (then_ex m n)"
  unfolding marks_def calm_def then_ex_def bind_ex_def by (fastforce split: prod.splits sum.splits)

lemma marks_then2: "calm c m \<Longrightarrow> marks c n \<Longrightarrow> marks c (then_ex m n)"
  unfolding marks_def calm_def then_ex_def bind_ex_def by (fastforce split: prod.splits sum.splits)

lemma solid_when [view_intros]: "(b \<Longrightarrow> solid c m) \<Longrightarrow> solid c (when_ex b m)"
  by (simp add: when_ex_def kept_basic)

lemma kept_parts [view_intros]:
  "(b \<Longrightarrow> keeps_view c m) \<Longrightarrow> keeps_view c (need_ex b e m)"
  "(n \<le> length argv \<Longrightarrow> keeps_view c m) \<Longrightarrow> keeps_view c (need_args argv n m)"
  "(length argv = n \<Longrightarrow> keeps_view c m) \<Longrightarrow> keeps_view c (exactly argv n m)"
  "keeps_view c m \<Longrightarrow> keeps_view c (room_for c' len adding m)"
  "(\<And>x. r1 = Inr x \<Longrightarrow> keeps_view c (k1 x)) \<Longrightarrow> keeps_view c (try_ex r1 k1)"
  "(\<And>x. r2 = Some x \<Longrightarrow> keeps_view c (k2 x)) \<Longrightarrow> keeps_view c (some_ex r2 e k2)"
  "(b \<Longrightarrow> keeps_view c m) \<Longrightarrow> (\<not> b \<Longrightarrow> keeps_view c n') \<Longrightarrow> keeps_view c (if b then m else n')"
  "(r3 = None \<Longrightarrow> keeps_view c m) \<Longrightarrow> (\<And>x. r3 = Some x \<Longrightarrow> keeps_view c (k3 x)) \<Longrightarrow>
     keeps_view c (case r3 of None \<Rightarrow> m | Some x \<Rightarrow> k3 x)"
  "(\<And>x y. r4 = (x, y) \<Longrightarrow> keeps_view c (k4 x y)) \<Longrightarrow> keeps_view c (case r4 of (x, y) \<Rightarrow> k4 x y)"
  "(\<And>e. keeps_view c (k5 e)) \<Longrightarrow> keeps_view c (look_ex c' key k5)"
  "(\<And>v. keeps_view c (k6 v)) \<Longrightarrow> keeps_view c (ref_ex c' prj key k6)"
  "keeps_view c m \<Longrightarrow> keeps_view c (admit_ex c' keys m)"
proof -
  show a: "(b \<Longrightarrow> keeps_view c m) \<Longrightarrow> keeps_view c (need_ex b e m)"
    "(n \<le> length argv \<Longrightarrow> keeps_view c m) \<Longrightarrow> keeps_view c (need_args argv n m)"
    "(length argv = n \<Longrightarrow> keeps_view c m) \<Longrightarrow> keeps_view c (exactly argv n m)"
    "keeps_view c m \<Longrightarrow> keeps_view c (room_for c' len adding m)"
    for b and e and m :: "'a exec" and n c' len adding
    by (simp_all add: need_ex_def need_args_def exactly_def room_for_def kept_basic)
  show t: "(\<And>x. r1 = Inr x \<Longrightarrow> keeps_view c (k1 x)) \<Longrightarrow> keeps_view c (try_ex r1 k1)" for r1 :: "str + 'z" and k1
    by (cases r1) (simp_all add: try_ex_def kept_basic)
  show "(\<And>x. r2 = Some x \<Longrightarrow> keeps_view c (k2 x)) \<Longrightarrow> keeps_view c (some_ex r2 e k2)"
    by (cases r2) (simp_all add: some_ex_def kept_basic)
  show "(b \<Longrightarrow> keeps_view c m) \<Longrightarrow> (\<not> b \<Longrightarrow> keeps_view c n') \<Longrightarrow> keeps_view c (if b then m else n')" by simp
  show "(r3 = None \<Longrightarrow> keeps_view c m) \<Longrightarrow> (\<And>x. r3 = Some x \<Longrightarrow> keeps_view c (k3 x)) \<Longrightarrow>
     keeps_view c (case r3 of None \<Rightarrow> m | Some x \<Rightarrow> k3 x)" by (cases r3) simp_all
  show "(\<And>x y. r4 = (x, y) \<Longrightarrow> keeps_view c (k4 x y)) \<Longrightarrow> keeps_view c (case r4 of (x, y) \<Rightarrow> k4 x y)" by (cases r4) simp
  show l: "(\<And>e. keeps_view c (k5 e)) \<Longrightarrow> keeps_view c (look_ex c' key k5)" for k5
    by (simp add: keeps_view_def look_ex_def)
  show "(\<And>v. keeps_view c (k6 v)) \<Longrightarrow> keeps_view c (ref_ex c' prj key k6)"
    unfolding ref_ex_def by (intro l t)
  show "keeps_view c m \<Longrightarrow> keeps_view c (admit_ex c' keys m)"
    by (auto simp: keeps_view_def admit_ex_def try_ex_def refuse_def good_refl split: sum.splits)
qed

subsection \<open>A change of one key\<close>

text \<open>
  \<open>settles\<close>: what follows the change of the value of a key from \<open>v\<close> to \<open>v'\<close> is good for the
  keyspace before it.
\<close>

definition settles :: "ctx \<Rightarrow> str \<Rightarrow> kvalue \<Rightarrow> kvalue \<Rightarrow> 'a exec \<Rightarrow> bool" where
  "settles c key v v' n \<longleftrightarrow>
     (\<forall>s0 s t r e. tidy (cx_now c) (ex_db s0) \<longrightarrow> db_get key (cx_now c) (ex_db s0) = Some e \<longrightarrow> ent_value e = v \<longrightarrow>
        (\<forall>k. db_get k (cx_now c) (ex_db s) = (if k = key then Some (e\<lparr>ent_value := v'\<rparr>) else db_get k (cx_now c) (ex_db s0))) \<longrightarrow>
        ex_dirty s = ex_dirty s0 \<longrightarrow> n s = (t, r) \<longrightarrow> good c s0 t r)"

lemma settles_tidy:
  assumes "tidy_value v'" "durable_value v' = durable_value v \<Longrightarrow> keeps_view c n" "durable_value v' \<noteq> durable_value v \<Longrightarrow> marks c n"
  shows "settles c key v v' n"
  unfolding settles_def
proof (intro allI impI)
  fix s0 s t :: ex and r e
  assume a: "tidy (cx_now c) (ex_db s0)" "db_get key (cx_now c) (ex_db s0) = Some e" "ent_value e = v"
    and g: "\<forall>k. db_get k (cx_now c) (ex_db s) = (if k = key then Some (e\<lparr>ent_value := v'\<rparr>) else db_get k (cx_now c) (ex_db s0))"
    and d: "ex_dirty s = ex_dirty s0" and n: "n s = (t, r)"
  have ts: "tidy (cx_now c) (ex_db s)" using a assms(1) g by (auto simp: tidy_def split: if_splits)
  show "good c s0 t r"
  proof (cases "durable_value v' = durable_value v")
    case True
    have "durable (e\<lparr>ent_value := v'\<rparr>) = durable e" by (rule durable_eqI) (simp_all add: True a(3))
    then have "agree (cx_now c) (ex_db s0) (ex_db s)" using a(2) g by (simp add: agree_def)
    then show ?thesis using keptD [OF assms(2) [OF True] n] ts d agree_trans unfolding good_def by blast
  next
    case False
    then show ?thesis using assms(3) n ts d unfolding marks_def calm_def good_def by blast
  qed
qed

lemma settles_prune:
  assumes "sound_value v'" "solid c n" "v' \<noteq> v \<Longrightarrow> marks c n"
  shows "settles c key v v' (then_ex (prune_ex c key) n)"
  unfolding settles_def
proof (intro allI impI)
  fix s0 s t :: ex and r e
  assume a: "tidy (cx_now c) (ex_db s0)" "db_get key (cx_now c) (ex_db s0) = Some e" "ent_value e = v"
    and g: "\<forall>k. db_get k (cx_now c) (ex_db s) = (if k = key then Some (e\<lparr>ent_value := v'\<rparr>) else db_get k (cx_now c) (ex_db s0))"
    and d: "ex_dirty s = ex_dirty s0" and n: "then_ex (prune_ex c key) n s = (t, r)"
  let ?s = "s\<lparr>ex_db := db_prune (ser_of c) key (ex_db s)\<rparr>"
  have p: "db_get k (cx_now c) (ex_db ?s) = (if k = key then (if is_empty_collection v' then None else Some (e\<lparr>ent_value := v'\<rparr>))
      else db_get k (cx_now c) (ex_db s0))" for k
    using g by simp
  have ts: "tidy (cx_now c) (ex_db ?s)"
    unfolding tidy_def p using a(1) assms(1) by (auto simp: tidy_def tidy_value_def split: if_splits)
  have n': "n ?s = (t, r)" using n by (simp add: then_ex_def bind_ex_def prune_ex_def change_ex_def)
  show "good c s0 t r"
  proof (cases "v' = v")
    case True
    have "\<not> is_empty_collection v" using tidyD [OF a(1,2)] a(3) by (simp add: tidy_value_def)
    then have "agree (cx_now c) (ex_db s0) (ex_db ?s)" unfolding agree_def p using True a(2,3) by auto
    then show ?thesis using keptD [OF solid_keeps [OF assms(2)] n'] ts d agree_trans unfolding good_def by fastforce
  next
    case False
    then show ?thesis using assms(3) n' ts d unfolding marks_def calm_def good_def by fastforce
  qed
qed

lemma settles_unchanged: "tidy_value v \<Longrightarrow> keeps_view c n \<Longrightarrow> settles c key v v n"
  by (rule settles_tidy) simp_all

lemma kept_mut:
  assumes k: "kind_of prj mk" and none: "keeps_view c (k None)"
    and found: "\<And>x. tidy_value (mk x) \<Longrightarrow> settles c key (mk x) (mk (fst (f x))) (k (Some (snd (f x))))"
    and new: "create \<Longrightarrow> tidy_value (mk (fst (f fresh))) \<and> marks c (k (Some (snd (f fresh))))"
  shows "keeps_view c (bind_ex (mut_ex c prj mk fresh key create f) k)"
proof (rule keptI)
  fix s t :: ex and r assume b: "bind_ex (mut_ex c prj mk fresh key create f) k s = (t, r)"
  let ?now = "cx_now c"
  show "good c s t r"
  proof (cases "db_get key ?now (ex_db s)")
    case (Some e)
    show ?thesis
    proof (cases "prj (ent_value e)")
      case None
      then show ?thesis using b by (simp add: bind_ex_def mut_wrong [OF Some] good_refl)
    next
      case p: (Some x)
      let ?s = "s\<lparr>ex_db := db_get_mut (ser_of c) key ?now (changed prj mk f) (ex_db s)\<rparr>"
      have v: "ent_value e = mk x" using k p by (simp add: kind_of_def)
      have "mut_ex c prj mk fresh key create f s = (?s, Inr (Some (snd (f x))))"
        using Some p by (simp add: mut_ex_def look_ex_def need_ex_def value_mut_def bind_ex_def entry_mut_def pass_def)
      then have n: "k (Some (snd (f x))) ?s = (t, r)" using b by (simp add: bind_ex_def)
      have g: "\<forall>k. db_get k ?now (ex_db ?s) = (if k = key then Some (e\<lparr>ent_value := mk (fst (f x))\<rparr>) else db_get k ?now (ex_db s))"
        using Some p get_live [OF Some] by (simp add: entry_expired_def)
      show ?thesis
      proof (cases "tidy ?now (ex_db s)")
        case True
        then have "tidy_value (mk x)" using tidyD [OF _ Some] v by simp
        from found [OF this, unfolded settles_def] True Some v g n show ?thesis by fastforce
      qed (simp add: good_def)
    qed
  next
    case None
    show ?thesis
    proof (cases create)
      case False
      then show ?thesis using b None keptD [OF none] by (simp add: bind_ex_def mut_absent)
    next
      case True
      show ?thesis
      proof (cases "admit_all c [key] (ex_db s)")
        case (Inl e)
        then show ?thesis using b None True
          by (simp add: bind_ex_def mut_ex_def look_ex_def admit_ex_def try_ex_def refuse_def good_refl)
      next
        case (Inr u)
        let ?s = "s\<lparr>ex_db := db_get_mut (ser_of c) key ?now (changed prj mk f) (db_insert (ser_of c) key (entry_new (mk fresh)) (ex_db s))\<rparr>"
        have p: "prj (mk fresh) = Some fresh" using k by (simp add: kind_of_def)
        have l: "\<not> entry_expired ?now (entry_new v)" for v by (simp add: entry_new_def entry_expired_def)
        have "mut_ex c prj mk fresh key create f s = (?s, Inr (Some (snd (f fresh))))"
          using None Inr True p l by (simp add: mut_ex_def look_ex_def admit_ex_def try_ex_def then_ex_def change_ex_def
              value_mut_def bind_ex_def entry_mut_def pass_def) (simp add: entry_new_def)
        then have n: "k (Some (snd (f fresh))) ?s = (t, r)" using b by (simp add: bind_ex_def)
        have "db_get k ?now (ex_db ?s) = (if k = key then Some (entry_new (mk (fst (f fresh)))) else db_get k ?now (ex_db s))" for k
          using None l p by (auto simp: entry_new_def entry_expired_def)
        then have "tidy ?now (ex_db ?s)" if "tidy ?now (ex_db s)"
          using that new [OF True] unfolding tidy_def by (auto simp: entry_new_def split: if_splits)
        then show ?thesis using new [OF True] n unfolding marks_def calm_def good_def by fastforce
      qed
    qed
  qed
qed

subsection \<open>Reads\<close>

lemma untouched_block [steps_intros]: "steps untouched (block_ex c retry timeout)"
  by (simp add: steps_def untouched_def block_ex_def)

lemma untouched_draw [steps_intros]: "(\<And>i. steps untouched (k i)) \<Longrightarrow> steps untouched (draw_ex n k)"
  by (fastforce simp: steps_def draw_ex_def untouched_def split: list.split)

lemma untouched_reads:
  "steps untouched (cmd_ping argv)" "steps untouched (cmd_echo argv)"
  "steps untouched (cmd_time c)" "steps untouched (cmd_command argv)"
  "steps untouched (cmd_type c argv)" "steps untouched (cmd_ttl c name argv)"
  "steps untouched (cmd_get c argv)" "steps untouched (cmd_strlen c argv)"
  "steps untouched (cmd_hget c argv)" "steps untouched (cmd_hmget c argv)"
  "steps untouched (cmd_hgetall c argv)" "steps untouched (cmd_hexists c argv)"
  "steps untouched (cmd_hlen c argv)" "steps untouched (cmd_hkeys c name argv)"
  "steps untouched (cmd_llen c argv)" "steps untouched (cmd_lrange c argv)"
  "steps untouched (cmd_lindex c argv)" "steps untouched (cmd_smembers c argv)"
  "steps untouched (cmd_sismember c argv)" "steps untouched (cmd_smismember c argv)"
  "steps untouched (cmd_scard c argv)" "steps untouched (cmd_zscore c argv)"
  "steps untouched (cmd_zmscore c argv)" "steps untouched (cmd_zcard c argv)"
  "steps untouched (cmd_zcount c argv)" "steps untouched (cmd_zrank c name argv)"
  "steps untouched (cmd_zrange c name argv)" "steps untouched (cmd_xlen c argv)"
  "steps untouched (cmd_xrange c back argv)" "steps untouched (cmd_xpending c argv)"
  "steps untouched (cmd_xinfo c argv)"
  unfolding cmd_ping_def cmd_echo_def cmd_time_def cmd_command_def cmd_type_def cmd_ttl_def cmd_get_def cmd_strlen_def
    cmd_hget_def cmd_hmget_def cmd_hgetall_def cmd_hexists_def cmd_hlen_def cmd_hkeys_def cmd_llen_def
    cmd_lrange_def cmd_lindex_def cmd_smembers_def cmd_sismember_def cmd_smismember_def cmd_scard_def
    cmd_zscore_def cmd_zmscore_def cmd_zcard_def cmd_zcount_def cmd_zrank_def cmd_zrange_def cmd_xlen_def
    cmd_xrange_def cmd_xpending_def cmd_xinfo_def Let_def
  by (intro steps_intros)+

lemma untouched_walks:
  "steps untouched (cmd_dbsize c)" "steps untouched (cmd_keys c argv)" "steps untouched (cmd_scan c argv)"
proof -
  have s: "steps untouched m" if "\<And>s. \<exists>r. m s = (s, r)" for m :: "reply exec"
    unfolding steps_def
  proof
    fix s show "untouched s (fst (m s))" using that [of s] by (auto simp: untouched_def)
  qed
  show "steps untouched (cmd_dbsize c)"
    by (rule s) (auto simp: cmd_dbsize_def Let_def pass_def refuse_def split: prod.split option.split)
  show "steps untouched (cmd_keys c argv)"
    by (rule s) (auto simp: cmd_keys_def exactly_def need_ex_def try_ex_def pass_def refuse_def collect_within_def
        split: prod.split option.split sum.split)
  show "steps untouched (cmd_scan c argv)"
    by (rule s) (auto simp: cmd_scan_def try_ex_def pass_def refuse_def split: option.split sum.split)
qed

lemma untouched_loops [steps_intros]:
  "steps untouched (exists_loop c keys n)" "steps untouched (mget_loop c keys bytes vs)"
proof (induction keys arbitrary: n bytes vs)
  case (Cons key keys)
  { case 1 show ?case by (simp add: Cons steps_intros) }
  { case 2 show ?case by (auto intro!: steps_intros Cons) }
qed (simp_all add: steps_intros)

lemma untouched_named [steps_intros]:
  "(\<And>named. steps untouched (k named)) \<Longrightarrow> steps untouched (named_sets c keys named k)"
  by (induction keys arbitrary: named) (auto intro!: steps_intros)

lemma untouched_sample [steps_intros]:
  assumes "\<And>idx. steps untouched (k idx)"
  shows "steps untouched (sample_distinct len n k)"
proof -
  have s: "steps untouched (shuffle_loop m i idx k')" if "\<And>idx. steps untouched (k' idx)"
    for m i idx and k' :: "nat list \<Rightarrow> 'a exec"
    using that by (induction m arbitrary: i idx) (auto intro!: steps_intros)
  have l: "steps untouched (\<lambda>s. case sample_loop len n picked (ex_draws s) of
        None \<Rightarrow> (s\<lparr>ex_draws := []\<rparr>, Inl Starved) | Some (picked, hs) \<Rightarrow> k picked (s\<lparr>ex_draws := hs\<rparr>))" for len n picked
    using assms by (fastforce simp: steps_def untouched_def split: option.split prod.split)
  show ?thesis
    unfolding sample_distinct_def Let_def by (intro steps_intros s l assms)
qed

lemma untouched_pick [steps_intros]:
  assumes "\<And>idx. steps untouched (k idx)"
  shows "steps untouched (pick_members c pop wanted v k)"
proof -
  have p: "steps untouched (pick_repeated m members bytes picked k)" for m members bytes picked
    using assms by (induction m arbitrary: bytes picked) (auto intro!: steps_intros)
  show ?thesis unfolding pick_members_def Let_def by (intro steps_intros p assms)
qed

lemma untouched_sets:
  "steps untouched (cmd_exists c argv)" "steps untouched (cmd_mget c argv)"
  "steps untouched (cmd_spop c False argv)" "steps untouched (cmd_sets c name argv)"
proof -
  show "steps untouched (cmd_exists c argv)" "steps untouched (cmd_mget c argv)"
    unfolding cmd_exists_def cmd_mget_def by (intro steps_intros)+
  show "steps untouched (cmd_spop c False argv)"
    unfolding cmd_spop_def Let_def by (simp add: when_ex_def) (intro steps_intros)
  show "steps untouched (cmd_sets c name argv)"
    unfolding cmd_sets_def by (intro steps_intros)
qed

lemma untouched_xread: "steps untouched (cmd_xread c argv)"
proof -
  have a: "steps untouched (xread_after c ks after k)" if "\<And>a. steps untouched (k a)" for ks after and k :: "id list \<Rightarrow> reply exec"
    using that by (induction ks arbitrary: after) (auto intro!: steps_intros)
  have l: "steps untouched (xread_loop c limit ps bytes out k)" if "\<And>a. steps untouched (k a)"
    for limit ps bytes out and k :: "reply list \<Rightarrow> reply exec"
    using that by (induction ps arbitrary: bytes out) (auto intro!: steps_intros)
  show ?thesis unfolding cmd_xread_def by (intro steps_intros a l)
qed

subsection \<open>Keys and strings\<close>

text \<open>Reading what a command will change, and acting on it at once.\<close>

lemma good_cases:
  assumes "\<And>s t r. tidy (cx_now c) (ex_db s) \<Longrightarrow> m s = (t, r) \<Longrightarrow>
      tidy (cx_now c) (ex_db t) \<and> (ex_dirty s \<longrightarrow> ex_dirty t) \<and>
      (isl r \<or> \<not> ex_dirty t \<longrightarrow> agree (cx_now c) (ex_db s) (ex_db t))"
  shows "keeps_view c m"
  unfolding keeps_view_def good_def using assms by blast

lemma kept_prim:
  assumes m: "\<And>s. m s = (s\<lparr>ex_db := g (ex_db s)\<rparr>, Inr (h (ex_db s)))"
    and t: "\<And>d. tidy (cx_now c) d \<Longrightarrow> tidy (cx_now c) (g d)"
    and k: "\<And>d. tidy (cx_now c) d \<Longrightarrow> agree (cx_now c) d (g d) \<and> keeps_view c (k (h d)) \<or> marks c (k (h d))"
  shows "keeps_view c (bind_ex m k)"
proof (rule good_cases)
  fix s u :: ex and r
  assume a: "tidy (cx_now c) (ex_db s)" and b: "bind_ex m k s = (u, r)"
  let ?s = "s\<lparr>ex_db := g (ex_db s)\<rparr>"
  have n: "k (h (ex_db s)) ?s = (u, r)" using b by (simp add: bind_ex_def m)
  have ts: "tidy (cx_now c) (ex_db ?s)" using t [OF a] by simp
  from k [OF a] show "tidy (cx_now c) (ex_db u) \<and> (ex_dirty s \<longrightarrow> ex_dirty u) \<and>
      (isl r \<or> \<not> ex_dirty u \<longrightarrow> agree (cx_now c) (ex_db s) (ex_db u))"
  proof (elim disjE conjE)
    assume g: "agree (cx_now c) (ex_db s) (g (ex_db s))" and kk: "keeps_view c (k (h (ex_db s)))"
    have "good c ?s u r" using keptD [OF kk n] .
    then show ?thesis using ts g agree_trans unfolding good_def by fastforce
  next
    assume "marks c (k (h (ex_db s)))"
    then show ?thesis using n ts unfolding marks_def calm_def by fastforce
  qed
qed

lemma solid_prim:
  assumes m: "\<And>s. m s = (s\<lparr>ex_db := g (ex_db s)\<rparr>, Inr (h (ex_db s)))"
    and t: "\<And>d. tidy (cx_now c) d \<Longrightarrow> tidy (cx_now c) (g d)"
    and k: "\<And>d. tidy (cx_now c) d \<Longrightarrow> agree (cx_now c) d (g d) \<and> solid c (k (h d)) \<or> marks c (k (h d))"
  shows "solid c (bind_ex m k)"
  unfolding solid_def
proof (intro conjI allI impI)
  show "keeps_view c (bind_ex m k)"
    by (rule kept_prim [OF m t]) (auto dest: k intro: solid_keeps)
  fix s u :: ex and r
  assume b: "bind_ex m k s = (u, r)" and a: "tidy (cx_now c) (ex_db s)"
  let ?s = "s\<lparr>ex_db := g (ex_db s)\<rparr>"
  have n: "k (h (ex_db s)) ?s = (u, r)" using b by (simp add: bind_ex_def m)
  have ts: "tidy (cx_now c) (ex_db ?s)" using t [OF a] by simp
  have "solid c (k (h (ex_db s)))" using k [OF a] marks_solid by blast
  then show "\<not> isl r" using n ts unfolding solid_def by blast
qed

lemma kept_del: "keeps_view c (cmd_del c argv)"
proof -
  have "solid c (del_loop c keys n)" for keys n
  proof (induction keys arbitrary: n)
    case (Cons key keys)
    show ?case unfolding del_loop.simps
    proof (rule solid_prim [where g = "\<lambda>d. fst (db_delete (ser_of c) key (cx_now c) d)" and h = "\<lambda>d. snd (db_delete (ser_of c) key (cx_now c) d)"])
      fix d assume t: "tidy (cx_now c) d"
      show "tidy (cx_now c) (fst (db_delete (ser_of c) key (cx_now c) d))" by (rule tidy_ops [OF t])
      let ?k = "\<lambda>there. then_ex (when_ex there (touch c key ''del'')) (del_loop c keys (if there then n + 1 else n))"
      show "agree (cx_now c) d (fst (db_delete (ser_of c) key (cx_now c) d)) \<and> solid c (?k (snd (db_delete (ser_of c) key (cx_now c) d))) \<or>
          marks c (?k (snd (db_delete (ser_of c) key (cx_now c) d)))"
      proof (cases "db_get key (cx_now c) d = None")
        case True
        then show ?thesis using Cons by (auto simp: agree_def when_ex_def intro!: view_intros)
      next
        case False
        then show ?thesis using Cons by (auto simp: when_ex_def intro!: marks_then1 view_intros solid_calm)
      qed
    qed simp
  qed (simp add: kept_basic)
  then show ?thesis unfolding cmd_del_def by (intro view_intros solid_keeps)
qed

lemma kept_flush: "keeps_view c (cmd_flush c)"
proof -
  have "keeps_view c (then_ex (flush_ex c) (pass r_ok))"
    by (rule good_cases) (auto simp: flush_ex_def then_ex_def bind_ex_def change_ex_def mark_dirty_def pass_def tidy_ops
        split: if_splits)
  then show ?thesis unfolding cmd_flush_def by (intro view_intros)
qed

lemma tidy_entry:
  assumes "tidy now d" "\<And>e. ent_value (f e) = ent_value e"
  shows "tidy now (db_get_mut ser key now f d)"
  using assms by (auto simp: tidy_def split: option.splits if_splits)

lemma kept_entry:
  assumes v: "\<And>e. ent_value (fst (f e)) = ent_value e"
    and none: "keeps_view c (k None)"
    and found: "\<And>e. fst (f e) = e \<and> keeps_view c (k (Some (snd (f e)))) \<or> marks c (k (Some (snd (f e))))"
  shows "keeps_view c (bind_ex (entry_mut c key f) k)"
proof (rule kept_prim [where g = "db_get_mut (ser_of c) key (cx_now c) (\<lambda>e. fst (f e))"
      and h = "\<lambda>d. map_option (\<lambda>e. snd (f e)) (db_get key (cx_now c) d)"])
  fix d assume t: "tidy (cx_now c) d"
  show "tidy (cx_now c) (db_get_mut (ser_of c) key (cx_now c) (\<lambda>e. fst (f e)) d)" by (rule tidy_entry [OF t v])
  let ?g = "db_get_mut (ser_of c) key (cx_now c) (\<lambda>e. fst (f e)) d"
  show "agree (cx_now c) d ?g \<and> keeps_view c (k (map_option (\<lambda>e. snd (f e)) (db_get key (cx_now c) d))) \<or>
      marks c (k (map_option (\<lambda>e. snd (f e)) (db_get key (cx_now c) d)))"
  proof (cases "db_get key (cx_now c) d")
    case None
    then show ?thesis using none by (auto simp: agree_def)
  next
    case (Some e)
    then show ?thesis using found [of e] get_live [OF Some] by (auto simp: agree_def)
  qed
qed (simp add: entry_mut_def)

lemma kept_expire: "keeps_view c (cmd_expire c name argv)"
proof -
  have m: "marks c (then_ex (change_ex (\<lambda>d. fst (db_delete (ser_of c) key (cx_now c) d))) (then_ex (touch c key ev) (pass x)))"
    "marks c (then_ex (change_ex (db_deadline key w)) (then_ex (touch c key ev) (pass x)))" for key w ev x
    by (intro marks_then2 [OF _ marks_then1] view_intros solid_calm)+
  have k: "keeps_view c (bind_ex (entry_mut c key (\<lambda>e. (if expire_allowed fl at (ent_expires e) \<and> \<not> past
        then e\<lparr>ent_expires := Some w\<rparr> else e, expire_allowed fl at (ent_expires e)))) (\<lambda>allowed.
      if allowed \<noteq> Some True then pass x
      else if past then then_ex (change_ex (\<lambda>d. fst (db_delete (ser_of c) key (cx_now c) d))) (then_ex (touch c key ev) (pass y))
      else then_ex (change_ex (db_deadline key w)) (then_ex (touch c key ev') (pass z))))" for key fl at past x y z ev ev' w
    by (rule kept_entry) (simp_all add: kept_basic m)
  show ?thesis unfolding cmd_expire_def Let_def by (intro view_intros k)
qed

lemma kept_persist: "keeps_view c (cmd_persist c argv)"
proof -
  have "keeps_view c (bind_ex (entry_mut c key (\<lambda>e. (e\<lparr>ent_expires := None\<rparr>, ent_expires e \<noteq> None)))
      (\<lambda>had. if had = Some True then then_ex (touch c key ev) (pass x) else pass y))" for key ev x y
  proof (rule kept_entry)
    fix e :: kentry
    have "ent_expires e = None \<Longrightarrow> e\<lparr>ent_expires := None\<rparr> = e" by (cases e) simp
    then show "fst (e\<lparr>ent_expires := None\<rparr>, ent_expires e \<noteq> None) = e \<and>
        keeps_view c (if Some (snd (e\<lparr>ent_expires := None\<rparr>, ent_expires e \<noteq> None)) = Some True then then_ex (touch c key ev) (pass x) else pass y) \<or>
        marks c (if Some (snd (e\<lparr>ent_expires := None\<rparr>, ent_expires e \<noteq> None)) = Some True then then_ex (touch c key ev) (pass x) else pass y)"
      by (cases "ent_expires e") (auto intro!: view_intros marks_then1 solid_calm)
  qed (simp_all add: kept_basic)
  then show ?thesis unfolding cmd_persist_def Let_def by (intro view_intros)
qed

lemma store_string_cases:
  assumes "store_string c key v expires s = (t, r)"
  shows "(isl r \<and> (\<forall>k now. db_get k now (ex_db t) = db_get k now (ex_db s)) \<and> ex_dirty t = ex_dirty s) \<or>
    (r = Inr () \<and> ex_dirty t \<and> db_keys (ex_db t) = bm_insert key \<lparr>ent_value = V_String v, ent_expires = expires\<rparr> (db_keys (ex_db s)))"
proof (cases "length v \<le> max_string")
  case True
  let ?e = "\<lparr>ent_value = V_String v, ent_expires = expires\<rparr>"
  show ?thesis
  proof (cases "contains_key (ex_db s) key")
    case c: True
    then have "db_keys (fst (db_replace (ser_of c) key ?e (ex_db s))) = bm_insert key ?e (db_keys (ex_db s))"
      by (auto simp: db_replace_def Let_def contains_key_def)
    then show ?thesis using assms True c
      by (cases expires) (auto simp: store_string_def need_ex_def replace_ex_def bind_ex_def then_ex_def deadline_ex_def
        change_ex_def pass_def touch_def)
  next
    case c: False
    then have k: "db_keys (fst (db_replace (ser_of c) key ?e (ex_db s))) = db_keys (ex_db s)"
      by (auto simp: db_replace_def Let_def contains_key_def)
    show ?thesis
    proof (cases "admit_all c [key] (fst (db_replace (ser_of c) key ?e (ex_db s)))")
      case (Inl e)
      then show ?thesis using assms True c get_same_keys [OF k]
        by (auto simp: store_string_def need_ex_def replace_ex_def bind_ex_def then_ex_def admit_ex_def try_ex_def refuse_def
          simp del: get_replace)
    next
      case (Inr u)
      then show ?thesis using assms True c k
        by (cases expires) (auto simp: store_string_def need_ex_def replace_ex_def bind_ex_def then_ex_def deadline_ex_def
          admit_ex_def try_ex_def change_ex_def pass_def touch_def db_insert_def Let_def)
    qed
  qed
qed (use assms in \<open>auto simp: store_string_def need_ex_def refuse_def\<close>)

lemma tidy_insert_keys:
  "tidy now d \<Longrightarrow> tidy_value (ent_value e) \<Longrightarrow> db_keys d' = bm_insert key e (db_keys d) \<Longrightarrow> tidy now d'"
  by (auto simp: tidy_def get_keys split: option.splits if_splits)

lemma kept_store [view_intros]: "keeps_view c (store_string c key v expires)"
proof (rule good_cases)
  fix s t :: ex and r
  assume a: "tidy (cx_now c) (ex_db s)" and b: "store_string c key v expires s = (t, r)"
  from store_string_cases [OF b] show "tidy (cx_now c) (ex_db t) \<and> (ex_dirty s \<longrightarrow> ex_dirty t) \<and>
      (isl r \<or> \<not> ex_dirty t \<longrightarrow> agree (cx_now c) (ex_db s) (ex_db t))"
  proof (elim disjE conjE)
    assume "isl r" "\<forall>k now. db_get k now (ex_db t) = db_get k now (ex_db s)" "ex_dirty t = ex_dirty s"
    then show ?thesis using a by (auto simp: agree_def tidy_def)
  next
    assume "r = Inr ()" "ex_dirty t" "db_keys (ex_db t) = bm_insert key \<lparr>ent_value = V_String v, ent_expires = expires\<rparr> (db_keys (ex_db s))"
    then show ?thesis using tidy_insert_keys [OF a, of "\<lparr>ent_value = V_String v, ent_expires = expires\<rparr>"]
      by (simp add: tidy_value_def)
  qed
qed

lemma kept_write:
  assumes "marks c n"
  shows "keeps_view c (then_ex (write_string_keep_ttl c key v) n)"
proof -
  have i: "keeps_view c (then_ex (admit_ex c [key] (change_ex (db_insert (ser_of c) key e))) n)"
    if "tidy_value (ent_value e)" for e
  proof -
    have "then_ex (admit_ex c [key] (change_ex (db_insert (ser_of c) key e))) n =
        admit_ex c [key] (then_ex (change_ex (db_insert (ser_of c) key e)) n)"
      by (intro ext) (simp add: then_ex_def bind_ex_def admit_ex_def try_ex_def refuse_def split: sum.split)
    moreover have "marks c (then_ex (change_ex (db_insert (ser_of c) key e)) n)"
      by (rule marks_then2 [OF calm_insert [OF that] assms])
    ultimately show ?thesis by (simp add: kept_parts marks_solid solid_keeps)
  qed
  have "then_ex (write_string_keep_ttl c key v) n = look_ex c key (\<lambda>e. then_ex (admit_ex c [key] (change_ex (db_insert (ser_of c) key
      \<lparr>ent_value = V_String v, ent_expires = Option.bind e ent_expires\<rparr>))) n)"
    by (intro ext) (simp add: write_string_keep_ttl_def look_ex_def then_ex_def bind_ex_def)
  then show ?thesis by (simp only:) (intro view_intros i, simp add: tidy_value_def)
qed

lemma kept_append: "keeps_view c (cmd_append c argv)"
  unfolding cmd_append_def Let_def
  by (intro view_intros kept_mut settles_tidy)
    (auto simp: tidy_value_def some_ex_def kept_basic intro!: marks_then1 solid_calm view_intros solid_keeps [OF marks_solid])

lemma kept_strings:
  "keeps_view c (cmd_setnx c argv)" "keeps_view c (cmd_setex c name argv)" "keeps_view c (cmd_getset c argv)"
  "keeps_view c (cmd_getdel c argv)" "keeps_view c (cmd_delifeq c argv)" "keeps_view c (cmd_incr c name argv)"
  "keeps_view c (cmd_incrbyfloat c argv)" "keeps_view c (cmd_set c argv)"
proof -
  show "keeps_view c (cmd_setnx c argv)" "keeps_view c (cmd_setex c name argv)" "keeps_view c (cmd_getset c argv)"
    unfolding cmd_setnx_def cmd_setex_def cmd_getset_def
    by (intro view_intros kept_then)+
  have d: "solid c (then_ex (when_ex b (then_ex (take_ex c key) (touch c key ev))) (pass x))" for b key ev x
    by (intro view_intros marks_solid marks_then2)
  show "keeps_view c (cmd_getdel c argv)" "keeps_view c (cmd_delifeq c argv)"
    unfolding cmd_getdel_def cmd_delifeq_def Let_def
    by (intro view_intros solid_keeps d)+
  have m: "marks c (then_ex (touch c key ev) (pass x))" for key ev x
    by (intro marks_then1 view_intros solid_calm)
  have i: "keeps_view c (incr c argv n)" for n
    unfolding incr_def Let_def by (intro view_intros kept_write m)
  show "keeps_view c (cmd_incr c name argv)"
    unfolding cmd_incr_def Let_def by (intro view_intros i)
  show "keeps_view c (cmd_incrbyfloat c argv)"
    unfolding cmd_incrbyfloat_def Let_def by (intro view_intros kept_write m)
  show "keeps_view c (cmd_set c argv)"
    unfolding cmd_set_def Let_def when_ex_def by (intro view_intros kept_then)
qed

lemma kept_getex: "keeps_view c (cmd_getex c argv)"
proof -
  have m: "marks c (then_ex (deadline_ex key x) (touch c key ev))" for key x ev
    unfolding deadline_ex_def by (cases x) (auto intro!: marks_then2 view_intros solid_calm)
  have t: "then_ex (bind_ex (entry_mut c key f) k) n = bind_ex (entry_mut c key f) (\<lambda>x. then_ex (k x) n)"
    for key f k and n :: "reply exec"
    by (intro ext) (simp add: then_ex_def bind_ex_def split: prod.split sum.split)
  have e: "keeps_view c (then_ex (bind_ex (entry_mut c key (\<lambda>e. (e\<lparr>ent_expires := x\<rparr>, ()))) (\<lambda>found.
      when_ex (found \<noteq> None) (then_ex (deadline_ex key x) (touch c key ev)))) (pass y))" for key x ev and y :: reply
    unfolding t by (rule kept_entry) (auto simp: when_ex_def intro!: marks_then1 m view_intros solid_calm solid_keeps)
  have p: "keeps_view c (then_ex (pass ()) (pass y))" for y :: reply
    by (intro kept_then view_intros)
  have g: "keeps_view c (then_ex (case (change, v) of
        (Some x, Some _) \<Rightarrow> bind_ex (entry_mut c key (\<lambda>e. (e\<lparr>ent_expires := x\<rparr>, ()))) (\<lambda>found.
            when_ex (found \<noteq> None) (then_ex (deadline_ex key x) (touch c key (ev x))))
      | _ \<Rightarrow> pass ()) (pass y))" for change and v :: "str option" and key ev and y :: reply
    by (cases change; cases v) (simp_all only: option.case prod.case e p)
  show ?thesis
    unfolding cmd_getex_def Let_def by (intro kept_parts g)
qed

subsection \<open>MSET\<close>

definition room :: "ctx \<Rightarrow> db \<Rightarrow> str set \<Rightarrow> bool" where
  "room c d K \<longleftrightarrow> cx_replay c \<or> (\<forall>k\<in>K. contains_key d k) \<or>
     bm_len (db_keys d) + card {k \<in> K. \<not> contains_key d k} \<le> cx_max_keys c"

lemma admit_room: "admit_all c keys d = Inr () \<longleftrightarrow> room c d (set keys)"
proof -
  have e: "sort xs = [] \<longleftrightarrow> xs = []" for xs :: "str list" by (metis length_0_conv length_sort)
  have "length (remdups (sort (filter (\<lambda>k. \<not> contains_key d k) keys))) = card {k \<in> set keys. \<not> contains_key d k}"
    by (simp add: length_remdups_card_conv)
  note l = this
  have n: "(remdups (sort (filter (\<lambda>k. \<not> contains_key d k) keys)) = []) = (\<forall>k\<in>set keys. contains_key d k)"
    by (simp add: e filter_empty_conv)
  have i: "(if a then Inr () else if b \<and> \<not> n then Inl e' else Inr ()) = Inr () \<longleftrightarrow> a \<or> n \<or> \<not> b" for a b n and e' :: str
    by auto
  show ?thesis unfolding admit_all_def Let_def room_def l n i not_less ..
qed

lemma contains_insert: "db_keys d' = bm_insert key e (db_keys d) \<Longrightarrow> contains_key d' k \<longleftrightarrow> k = key \<or> contains_key d k"
  by (auto simp: contains_key_def)

lemma len_insert:
  "db_keys d' = bm_insert key e (db_keys d) \<Longrightarrow>
   bm_len (db_keys d') = (if contains_key d key then bm_len (db_keys d) else Suc (bm_len (db_keys d)))"
proof -
  assume k: "db_keys d' = bm_insert key e (db_keys d)"
  have "{k. \<exists>v. bm_get (bm_insert key e (db_keys d)) k = Some v} = insert key {k. \<exists>v. bm_get (db_keys d) k = Some v}" by auto
  then show ?thesis unfolding k bm_len_card by (auto simp: contains_key_def insert_absorb)
qed

lemma room_step:
  assumes "room c d (insert key K)" "finite K" "db_keys d' = bm_insert key e (db_keys d)"
  shows "room c d {key}" "room c d' K"
proof -
  let ?new = "\<lambda>d K. {k \<in> K. \<not> contains_key d k}"
  have f: "finite (?new d (insert key K))" using assms(2) by simp
  have "card (?new d {key}) \<le> card (?new d (insert key K))" by (rule card_mono [OF f]) auto
  then show "room c d {key}" using assms(1) unfolding room_def by auto
  show "room c d' K"
  proof (cases "contains_key d key")
    case True
    then have "?new d' K = ?new d (insert key K)" using contains_insert [OF assms(3)] by auto
    then show ?thesis using assms(1) True len_insert [OF assms(3)] contains_insert [OF assms(3)] unfolding room_def by auto
  next
    case False
    then have "?new d (insert key K) = insert key (?new d' K)" "key \<notin> ?new d' K"
      using contains_insert [OF assms(3)] by auto
    then have "card (?new d (insert key K)) = Suc (card (?new d' K))" using assms(2) by simp
    then show ?thesis using assms(1) False len_insert [OF assms(3)] unfolding room_def by auto
  qed
qed

lemma store_string_fits:
  assumes "length v \<le> max_string" "room c (ex_db s) {key}"
  obtains t where "store_string c key v expires s = (t, Inr ())" "ex_dirty t"
    "db_keys (ex_db t) = bm_insert key \<lparr>ent_value = V_String v, ent_expires = expires\<rparr> (db_keys (ex_db s))"
proof -
  let ?e = "\<lparr>ent_value = V_String v, ent_expires = expires\<rparr>"
  obtain t r where t: "store_string c key v expires s = (t, r)" by fastforce
  have "db_keys (fst (db_replace (ser_of c) key ?e (ex_db s))) = db_keys (ex_db s)" if "\<not> contains_key (ex_db s) key"
    using that by (auto simp: db_replace_def Let_def contains_key_def)
  then have "admit_all c [key] (fst (db_replace (ser_of c) key ?e (ex_db s))) = Inr ()" if "\<not> contains_key (ex_db s) key"
    using that assms(2) by (simp add: admit_room) (simp add: room_def contains_key_def)
  then have "\<not> isl r"
    using t assms(1) by (cases expires; cases "contains_key (ex_db s) key")
      (auto simp: store_string_def need_ex_def replace_ex_def bind_ex_def then_ex_def deadline_ex_def
        admit_ex_def try_ex_def change_ex_def pass_def touch_def)
  then show ?thesis using store_string_cases [OF t] t that by auto
qed

lemma store_all_fits:
  assumes "room c (ex_db s) (fst ` set pairs)" "\<forall>(k, v) \<in> set pairs. length v \<le> max_string" "tidy (cx_now c) (ex_db s)"
  shows "\<exists>t. store_all c pairs s = (t, Inr ()) \<and> tidy (cx_now c) (ex_db t) \<and> (ex_dirty s \<or> pairs \<noteq> [] \<longrightarrow> ex_dirty t)"
  using assms
proof (induction pairs arbitrary: s)
  case (Cons p pairs)
  obtain key v where p: "p = (key, v)" by fastforce
  have l: "length v \<le> max_string" using Cons.prems(2) p by simp
  have r: "room c (ex_db s) (insert key (fst ` set pairs))" using Cons.prems(1) p by simp
  obtain u where u: "store_string c key v None s = (u, Inr ())" "ex_dirty u"
      "db_keys (ex_db u) = bm_insert key \<lparr>ent_value = V_String v, ent_expires = None\<rparr> (db_keys (ex_db s))"
    using store_string_fits [OF l room_step(1) [OF r], of "fst (db_insert (ser_of c) key \<lparr>ent_value = V_String v, ent_expires = None\<rparr> (ex_db s), ())"]
    by (auto simp: db_insert_def Let_def)
  have tu: "tidy (cx_now c) (ex_db u)" by (rule tidy_insert_keys [OF Cons.prems(3) _ u(3)]) (simp add: tidy_value_def)
  have "room c (ex_db u) (fst ` set pairs)" by (rule room_step(2) [OF r _ u(3)]) simp
  from Cons.IH [OF this _ tu] Cons.prems(2) p u show ?case
    by (auto simp: then_ex_def bind_ex_def)
qed (simp add: pass_def)

lemma kept_mset: "keeps_view c (cmd_mset c name argv)"
proof -
  let ?pairs = "pairs_of (tl argv)"
  have w: "keeps_view c (case find (\<lambda>(_, v). length v > max_string) ?pairs of
      Some (key, _) \<Rightarrow> refuse (e key)
    | None \<Rightarrow> admit_ex c (map fst ?pairs) (then_ex (store_all c ?pairs) (pass x)))" for e x
  proof (cases "find (\<lambda>(_, v). length v > max_string) ?pairs")
    case None
    then have l: "\<forall>(k, v) \<in> set ?pairs. length v \<le> max_string" by (auto simp: find_None_iff intro: leI)
    have "keeps_view c (admit_ex c (map fst ?pairs) (then_ex (store_all c ?pairs) (pass x)))"
    proof (rule good_cases)
      fix s t :: ex and r
      assume a: "tidy (cx_now c) (ex_db s)" and b: "admit_ex c (map fst ?pairs) (then_ex (store_all c ?pairs) (pass x)) s = (t, r)"
      show "tidy (cx_now c) (ex_db t) \<and> (ex_dirty s \<longrightarrow> ex_dirty t) \<and> (isl r \<or> \<not> ex_dirty t \<longrightarrow> agree (cx_now c) (ex_db s) (ex_db t))"
      proof (cases "admit_all c (map fst ?pairs) (ex_db s)")
        case (Inl e)
        then show ?thesis using a b by (auto simp: admit_ex_def try_ex_def refuse_def)
      next
        case (Inr u)
        then have "room c (ex_db s) (fst ` set ?pairs)" using admit_room [of c "map fst ?pairs"] by simp
        from store_all_fits [OF this l a] b Inr show ?thesis
          by (cases "?pairs = []") (auto simp: admit_ex_def try_ex_def then_ex_def bind_ex_def pass_def)
      qed
    qed
    then show ?thesis using None by simp
  qed (auto intro: kept_basic)
  have a: "keeps_view c (any_exists c keys k)" if "\<And>b. keeps_view c (k b)" for keys and k :: "bool \<Rightarrow> reply exec"
    by (induction keys) (auto simp: that intro!: kept_parts)
  show ?thesis unfolding cmd_mset_def Let_def by (intro view_intros a w)
qed

end
