(* ===== verification/Cmd_Kept.thy ===== *)
theory Cmd_Kept
  imports Cmd_Tidy
begin

text \<open>
  What renaming and the commands on hashes and lists owe their keyspace.
\<close>

subsection \<open>Renaming\<close>

lemma marks_touch: "marks c (then_ex (touch c key ev) (pass x))"
  by (intro marks_then1 view_intros solid_calm)

lemma kept_rename: "keeps_view c (cmd_rename c nx argv)"
proof -
  have k: "keeps_view c (look_ex c frm (\<lambda>there. need_ex (there \<noteq> None) err (
      if frm = to then pass x else look_ex c to (\<lambda>taken. if nx \<and> taken \<noteq> None then pass y
      else bind_ex (remove_ex c frm) (\<lambda>e. some_ex e err (\<lambda>e.
        then_ex (case ent_expires e of Some at \<Rightarrow> change_ex (db_deadline to at) | None \<Rightarrow> pass ())
       (then_ex (change_ex (db_insert (ser_of c) to e))
       (then_ex (touch c frm ev) (then_ex (touch c to ev') (pass z))))))))))" (is "keeps_view c ?m")
    for frm to err and x y z :: reply and ev ev'
  proof (rule good_cases)
    fix s t :: ex and r
    assume a: "tidy (cx_now c) (ex_db s)" and b: "?m s = (t, r)"
    show "tidy (cx_now c) (ex_db t) \<and> (ex_dirty s \<longrightarrow> ex_dirty t) \<and> (isl r \<or> \<not> ex_dirty t \<longrightarrow> agree (cx_now c) (ex_db s) (ex_db t))"
    proof (cases "db_get frm (cx_now c) (ex_db s)")
      case None
      then show ?thesis using a b by (auto simp: look_ex_def need_ex_def refuse_def)
    next
      case (Some e)
      let ?n = "then_ex (case ent_expires e of Some at \<Rightarrow> change_ex (db_deadline to at) | None \<Rightarrow> pass ())
       (then_ex (change_ex (db_insert (ser_of c) to e)) (then_ex (touch c frm ev) (then_ex (touch c to ev') (pass z))))"
      let ?s = "s\<lparr>ex_db := fst (db_remove (ser_of c) frm (cx_now c) (ex_db s))\<rparr>"
      have v: "tidy_value (ent_value e)" by (rule tidyD [OF a Some])
      have q: "calm c (case ent_expires e of Some at \<Rightarrow> change_ex (db_deadline to at) | None \<Rightarrow> pass ())"
        by (cases "ent_expires e") (auto intro: solid_calm view_intros)
      have m: "marks c ?n"
        by (rule marks_then2 [OF q marks_then2 [OF calm_insert [OF v] marks_then1 [OF kept_basic(4) marks_calm [OF marks_touch]]]])
      show ?thesis
      proof (cases "frm = to \<or> (nx \<and> db_get to (cx_now c) (ex_db s) \<noteq> None)")
        case True
        then show ?thesis using a b Some by (auto simp: look_ex_def need_ex_def pass_def split: if_splits)
      next
        case False
        then have w: "nx = False \<or> db_get to (cx_now c) (ex_db s) = None" "frm \<noteq> to" by auto
        then have "?n ?s = (t, r)"
          using b Some by (elim disjE) (simp_all add: look_ex_def need_ex_def bind_ex_def remove_ex_def some_ex_def)
        moreover have "tidy (cx_now c) (ex_db ?s)" using tidy_ops(5) [OF a] by simp
        ultimately show ?thesis using m unfolding marks_def calm_def by blast
      qed
    qed
  qed
  show ?thesis unfolding cmd_rename_def Let_def by (intro kept_parts k)
qed

subsection \<open>Collections\<close>

text \<open>A value made or changed, and always journaled.\<close>

lemma kept_grow:
  assumes "kind_of prj mk" "\<And>x. tidy_value (mk x) \<Longrightarrow> tidy_value (mk (fst (f x)))" "tidy_value (mk (fst (f fresh)))"
    "\<And>x. marks c (k x)"
  shows "keeps_view c (bind_ex (mut_ex c prj mk fresh key True f) (\<lambda>u. some_ex u err k))"
  by (rule kept_mut [OF assms(1)], simp add: some_ex_def kept_basic)
    (auto simp: some_ex_def assms intro!: settles_tidy solid_keeps [OF marks_solid])

text \<open>Elements taken out, and the key with the last of them.\<close>

lemma kept_shrink:
  assumes "kind_of prj mk" "keeps_view c n0"
    "\<And>x. tidy_value (mk x) \<Longrightarrow> sound_value (mk (fst (f x))) \<and> solid c (n (snd (f x))) \<and> (mk (fst (f x)) \<noteq> mk x \<longrightarrow> marks c (n (snd (f x))))"
  shows "keeps_view c (bind_ex (mut_ex c prj mk fresh key False f) (\<lambda>r. case r of None \<Rightarrow> n0 | Some y \<Rightarrow> then_ex (prune_ex c key) (n y)))"
  by (rule kept_mut [OF assms(1)]) (simp_all add: assms settles_prune)

lemma when_touch: "solid c (then_ex (when_ex b (touch c key ev)) (pass x))" "b \<Longrightarrow> marks c (then_ex (when_ex b (touch c key ev)) (pass x))"
proof -
  show "solid c (then_ex (when_ex b (touch c key ev)) (pass x))" by (intro view_intros marks_solid)
  show "b \<Longrightarrow> marks c (then_ex (when_ex b (touch c key ev)) (pass x))" by (simp add: when_ex_def marks_touch)
qed

lemma bm_len_0: "bm_len m = 0 \<longleftrightarrow> m = bm_empty"
proof
  assume "bm_len m = 0"
  then have "bm_entries m = bm_entries bm_empty" by (simp add: bm_len_def bm_empty.rep_eq)
  then show "m = bm_empty" by (simp only: bm_entries_inject)
qed (simp add: bm_len_def bm_empty.rep_eq)

lemma insert_nonempty: "bm_len (bm_insert k v m) \<noteq> 0"
proof
  assume "bm_len (bm_insert k v m) = 0"
  then have "bm_get (bm_insert k v m) k = None" by (simp only: bm_len_0 bm_get_empty)
  then show False by simp
qed

lemma put_fields_len: "0 < bm_len h \<or> pairs \<noteq> [] \<Longrightarrow> 0 < bm_len (fst (put_fields pairs h))"
proof (induction pairs arbitrary: h)
  case (Cons p pairs)
  obtain f v where p: "p = (f, v)" by fastforce
  have "0 < bm_len (fst (put_fields pairs (bm_insert f v h)))" by (rule Cons.IH) (use insert_nonempty [of f v h] in simp)
  then show ?case unfolding p by (cases "put_fields pairs (bm_insert f v h)") simp
qed simp

lemma remove_each_same: "snd (remove_each ks m) = 0 \<Longrightarrow> fst (remove_each ks m) = m"
proof (induction ks arbitrary: m)
  case (Cons k ks)
  then have "bm_get m k = None" "snd (remove_each ks (bm_remove k m)) = 0"
    by (auto split: prod.splits if_splits)
  moreover have "bm_remove k m = m" using calculation(1) by (intro bm_eqI) auto
  ultimately show ?case using Cons.IH [of m] by (simp split: prod.split)
qed simp

lemma remove_each_moved: "fst (remove_each ks m) \<noteq> m \<Longrightarrow> 0 < snd (remove_each ks m)"
  using remove_each_same by fastforce

lemma pairs_of_nonempty: "2 \<le> length xs \<Longrightarrow> pairs_of xs \<noteq> []"
  by (cases xs rule: pairs_of.cases) simp_all

lemma kept_hashes:
  "keeps_view c (cmd_hset c name argv)" "keeps_view c (cmd_hsetnx c argv)" "keeps_view c (cmd_hdel c argv)"
  "keeps_view c (cmd_hincrby c name argv)"
proof -
  show "keeps_view c (cmd_hset c name argv)"
    unfolding cmd_hset_def Let_def
    by (intro view_intros kept_grow marks_touch)
      (auto simp: tidy_value_def intro!: put_fields_len disjI2 pairs_of_nonempty)
  show "keeps_view c (cmd_hsetnx c argv)"
    unfolding cmd_hsetnx_def Let_def
    by (intro view_intros kept_grow marks_touch) (simp_all add: tidy_value_def insert_nonempty)
  show "keeps_view c (cmd_hdel c argv)"
    unfolding cmd_hdel_def Let_def
    by (intro view_intros kept_shrink) (auto simp: when_touch(1) intro!: when_touch(2) remove_each_moved)
  have i: "keeps_view c (try_ex r (\<lambda>(text, r). bind_ex (hash_mut c key True (\<lambda>h. (bm_insert field text h, ()))) (\<lambda>u.
           some_ex u err (\<lambda>_. then_ex (touch c key ev) (pass r)))))" for r :: "str + str \<times> reply" and key field err ev
    by (intro view_intros kept_grow marks_touch) (simp_all add: tidy_value_def insert_nonempty)
  show "keeps_view c (cmd_hincrby c name argv)"
    unfolding cmd_hincrby_def Let_def by (intro view_intros i)
qed

lemma fold_Cons_nonempty: "fold (#) xs l = [] \<longleftrightarrow> xs = [] \<and> l = []"
  by (induction xs arbitrary: l) auto

lemma remove_some_same: "snd (remove_some n v xs) = 0 \<Longrightarrow> fst (remove_some n v xs) = xs"
  by (induction n v xs rule: remove_some.induct) (auto split: prod.splits if_splits)

lemma remove_some_moved:
  "fst (remove_some n v xs) \<noteq> xs \<Longrightarrow> 0 < snd (remove_some n v xs)"
  "rev (fst (remove_some n v (rev xs))) \<noteq> xs \<Longrightarrow> 0 < snd (remove_some n v (rev xs))"
  using remove_some_same [of n v xs] remove_some_same [of n v "rev xs"] by (fastforce, fastforce)

lemma kept_lists:
  "keeps_view c (cmd_push c name argv)" "keeps_view c (cmd_pop c name argv)" "keeps_view c (cmd_lset c argv)"
  "keeps_view c (cmd_lrem c argv)" "keeps_view c (cmd_ltrim c argv)"
proof -
  show "keeps_view c (cmd_push c name argv)"
    unfolding cmd_push_def Let_def
    by (intro view_intros kept_grow marks_touch) (auto simp: tidy_value_def fold_Cons_nonempty)
  have pop: "snd (pop_side left n l) = l" if "fst (pop_side left n l) = []" for left n and l :: "str list"
    using that by (auto simp: pop_side_def split: if_splits)
  show "keeps_view c (cmd_pop c name argv)"
    unfolding cmd_pop_def Let_def
    by (intro view_intros kept_shrink) (auto simp: case_prod_beta when_touch(1) dest: pop intro!: when_touch(2))
  show "keeps_view c (cmd_lrem c argv)"
    unfolding cmd_lrem_def Let_def
    by (intro view_intros kept_shrink)
      (auto simp: case_prod_beta when_touch(1) intro!: when_touch(2) remove_some_moved)
  have trim: "(case range_bounds start stop (length l) of Some (a, b) \<Rightarrow> drop a (take (b + 1) l) | None \<Rightarrow> []) = l"
    if "length (case range_bounds start stop (length l) of Some (a, b) \<Rightarrow> drop a (take (b + 1) l) | None \<Rightarrow> []) = length l"
    for start stop and l :: "str list"
  proof (cases "range_bounds start stop (length l)")
    case None
    then show ?thesis using that by simp
  next
    case (Some p)
    obtain a b where p: "p = (a, b)" by fastforce
    have "length (drop a (take (b + 1) l)) = length l" using that Some p by simp
    then have "a = 0 \<or> length l = 0" "length l \<le> b + 1 \<or> length l = 0" unfolding length_drop length_take by arith+
    then show ?thesis using Some p by auto
  qed
  show "keeps_view c (cmd_ltrim c argv)"
    unfolding cmd_ltrim_def Let_def
    by (intro view_intros kept_shrink) (auto simp: when_touch(1) dest: trim intro!: when_touch(2))
  show "keeps_view c (cmd_lset c argv)"
    unfolding cmd_lset_def Let_def
    by (intro view_intros kept_mut settles_tidy)
      (auto simp: tidy_value_def some_ex_def need_ex_def kept_basic marks_touch solid_keeps marks_solid split: option.splits)
qed

subsection \<open>From one state\<close>

text \<open>\<open>keeps_view\<close> for one state, where what a command has read of it counts.\<close>

definition keeps_at :: "ctx \<Rightarrow> ex \<Rightarrow> 'a exec \<Rightarrow> bool" where
  "keeps_at c s m \<longleftrightarrow> (\<forall>t r. m s = (t, r) \<longrightarrow> good c s t r)"

lemma kept_atI: "(\<And>s. keeps_at c s m) \<Longrightarrow> keeps_view c m"
  by (simp add: keeps_at_def keeps_view_def)

lemma kept_atD: "keeps_view c m \<Longrightarrow> keeps_at c s m"
  by (simp add: keeps_at_def keeps_view_def)

lemma kept_untidy: "(tidy (cx_now c) (ex_db s) \<Longrightarrow> keeps_at c s m) \<Longrightarrow> keeps_at c s m"
  by (auto simp: keeps_at_def good_def)

lemma kept_at_pass: "keeps_at c s (pass x)" "keeps_at c s (refuse e)"
  by (rule kept_atD, rule kept_basic)+

lemma kept_at_parts:
  "(b \<Longrightarrow> keeps_at c s m) \<Longrightarrow> keeps_at c s (need_ex b e m)"
  "keeps_at c s m \<Longrightarrow> keeps_at c s (room_for c' len adding m)"
  "(\<And>x. r1 = Inr x \<Longrightarrow> keeps_at c s (k1 x)) \<Longrightarrow> keeps_at c s (try_ex r1 k1)"
  "(b \<Longrightarrow> keeps_at c s m) \<Longrightarrow> (\<not> b \<Longrightarrow> keeps_at c s n') \<Longrightarrow> keeps_at c s (if b then m else n')"
  "keeps_at c s m \<Longrightarrow> keeps_at c s (admit_ex c' keys m)"
proof -
  show "(b \<Longrightarrow> keeps_at c s m) \<Longrightarrow> keeps_at c s (need_ex b e m)" "keeps_at c s m \<Longrightarrow> keeps_at c s (room_for c' len adding m)"
    by (simp_all add: need_ex_def room_for_def kept_at_pass)
  show "(\<And>x. r1 = Inr x \<Longrightarrow> keeps_at c s (k1 x)) \<Longrightarrow> keeps_at c s (try_ex r1 k1)"
    by (cases r1) (simp_all add: try_ex_def kept_at_pass)
  show "(b \<Longrightarrow> keeps_at c s m) \<Longrightarrow> (\<not> b \<Longrightarrow> keeps_at c s n') \<Longrightarrow> keeps_at c s (if b then m else n')" by simp
  show "keeps_at c s m \<Longrightarrow> keeps_at c s (admit_ex c' keys m)"
    by (auto simp: keeps_at_def admit_ex_def try_ex_def refuse_def good_refl split: sum.splits)
qed

text \<open>Reading a value of a kind: the key is not there, or it holds one.\<close>

lemma kept_at_ref:
  assumes k: "kind_of prj mk"
    and none: "db_get key (cx_now c) (ex_db s) = None \<Longrightarrow> keeps_at c s (k None)"
    and some: "\<And>e x. db_get key (cx_now c) (ex_db s) = Some e \<Longrightarrow> ent_value e = mk x \<Longrightarrow> prj (ent_value e) = Some x \<Longrightarrow>
      keeps_at c s (k (Some x))"
  shows "keeps_at c s (ref_ex c prj key k)"
proof -
  have s: "ref_ex c prj key k s = try_ex (typed_ref prj (db_get key (cx_now c) (ex_db s))) k s"
    by (simp add: ref_ex_def look_ex_def)
  have "keeps_at c s (try_ex (typed_ref prj (db_get key (cx_now c) (ex_db s))) k)"
  proof (cases "db_get key (cx_now c) (ex_db s)")
    case None
    then show ?thesis using none by (simp add: typed_ref_def try_ex_def)
  next
    case (Some e)
    then show ?thesis
    proof (cases "prj (ent_value e)")
      case p: (Some x)
      then have "ent_value e = mk x" using k by (simp add: kind_of_def)
      then show ?thesis using some [OF Some _ p] Some p by (simp add: typed_ref_def try_ex_def)
    qed (simp add: typed_ref_def try_ex_def kept_at_pass)
  qed
  then show ?thesis by (simp only: keeps_at_def s)
qed

lemma kept_ref:
  assumes k: "kind_of prj mk"
    and none: "\<And>s. db_get key (cx_now c) (ex_db s) = None \<Longrightarrow> keeps_at c s (k None)"
    and some: "\<And>s e x. db_get key (cx_now c) (ex_db s) = Some e \<Longrightarrow> ent_value e = mk x \<Longrightarrow> prj (ent_value e) = Some x \<Longrightarrow>
      keeps_at c s (k (Some x))"
  shows "keeps_view c (ref_ex c prj key k)"
  by (intro kept_atI kept_at_ref [OF k] none some)

text \<open>A change of a key that is there.\<close>

lemma kept_at_absent: "db_get key (cx_now c) (ex_db s) = None \<Longrightarrow> keeps_at c s (k None) \<Longrightarrow> keeps_at c s (bind_ex (mut_ex c prj mk fresh key False f) k)"
  by (simp add: keeps_at_def bind_ex_def mut_absent)

lemma mut_runs:
  assumes "db_get key (cx_now c) (ex_db s) = Some e" "prj (ent_value e) = Some x"
  obtains u where "mut_ex c prj mk fresh key create f s = (u, Inr (Some (snd (f x))))" "ex_dirty u = ex_dirty s"
    "\<And>k. db_get k (cx_now c) (ex_db u) = (if k = key then Some (e\<lparr>ent_value := mk (fst (f x))\<rparr>) else db_get k (cx_now c) (ex_db s))"
proof -
  have "mut_ex c prj mk fresh key create f s = mut_ex c prj mk fresh key False f s"
    using assms(1) by (simp add: mut_ex_def look_ex_def need_ex_def)
  with mut_found [where prj = prj, OF assms, of mk fresh f]
  have "mut_ex c prj mk fresh key create f s =
      (s\<lparr>ex_db := db_get_mut (ser_of c) key (cx_now c) (changed prj mk f) (ex_db s)\<rparr>, Inr (Some (snd (f x))))" by simp
  then show ?thesis
    by (rule that) (use assms get_live [OF assms(1)] in \<open>simp_all add: entry_expired_def\<close>)
qed

lemma kept_at_found:
  assumes e: "db_get key (cx_now c) (ex_db s) = Some e" and p: "prj (ent_value e) = Some x" "ent_value e = mk x"
    and n: "tidy_value (mk x) \<Longrightarrow> settles c key (mk x) (mk (fst (f x))) (k (Some (snd (f x))))"
  shows "keeps_at c s (bind_ex (mut_ex c prj mk fresh key create f) k)"
proof (rule kept_untidy)
  assume a: "tidy (cx_now c) (ex_db s)"
  obtain u where u: "mut_ex c prj mk fresh key create f s = (u, Inr (Some (snd (f x))))" "ex_dirty u = ex_dirty s"
    "\<And>k. db_get k (cx_now c) (ex_db u) = (if k = key then Some (e\<lparr>ent_value := mk (fst (f x))\<rparr>) else db_get k (cx_now c) (ex_db s))"
    using mut_runs [where prj = prj and mk = mk, OF e p(1)] by blast
  have "tidy_value (mk x)" using tidyD [OF a e] p(2) by simp
  from n [OF this, unfolded settles_def] a e p(2) u show "keeps_at c s (bind_ex (mut_ex c prj mk fresh key create f) k)"
    unfolding keeps_at_def bind_ex_def by fastforce
qed

text \<open>What ends in something to journal is good whatever it was before, so long as it ends tidy.\<close>

lemma marks_good:
  "marks c n \<Longrightarrow> tidy (cx_now c) (ex_db u) \<Longrightarrow> n u = (t, r) \<Longrightarrow> good c s t r"
  unfolding marks_def calm_def good_def by blast

subsection \<open>Lists\<close>

lemma kept_linsert: "keeps_view c (cmd_linsert c argv)"
proof -
  have m: "keeps_at c s (bind_ex (list_mut c key False (\<lambda>l. case position_of pivot l of None \<Rightarrow> (l, None)
        | Some at \<Rightarrow> (let grown = insert_at (if ahead then at else at + 1) v l
              in (if cx_replay c \<or> length l + 1 \<le> cx_max_elements c then grown else l, Some (length grown))))) (\<lambda>found.
     case found of None \<Rightarrow> pass x | Some None \<Rightarrow> pass y
     | Some (Some len) \<Rightarrow> room_for c (coll_len length (Some l)) 1 (then_ex (touch c key ev) (pass (r_int len)))))"
    if e: "db_get key (cx_now c) (ex_db s) = Some e" "ent_value e = V_List l"
    for s key pivot ahead v l x y ev e
  proof (rule kept_at_found [where prj = as_list and mk = V_List and e = e and x = l])
    assume t: "tidy_value (V_List l)"
    have k: "keeps_view c (then_ex (touch c key ev) (pass z))" for z
      by (rule solid_keeps [OF marks_solid [OF marks_touch]])
    show "settles c key (V_List l) (V_List (fst (case position_of pivot l of None \<Rightarrow> (l, None)
          | Some at \<Rightarrow> (let grown = insert_at (if ahead then at else at + 1) v l
              in (if cx_replay c \<or> length l + 1 \<le> cx_max_elements c then grown else l, Some (length grown))))))
        (case Some (snd (case position_of pivot l of None \<Rightarrow> (l, None)
          | Some at \<Rightarrow> (let grown = insert_at (if ahead then at else at + 1) v l
              in (if cx_replay c \<or> length l + 1 \<le> cx_max_elements c then grown else l, Some (length grown))))) of
          None \<Rightarrow> pass x | Some None \<Rightarrow> pass y
        | Some (Some len) \<Rightarrow> room_for c (coll_len length (Some l)) 1 (then_ex (touch c key ev) (pass (r_int len))))"
    proof (cases "position_of pivot l")
      case None
      then show ?thesis using t by (simp add: settles_unchanged kept_basic)
    next
      case (Some at)
      show ?thesis
      proof (cases "cx_replay c \<or> length l + 1 \<le> cx_max_elements c")
        case True
        then have o: "room_for c (coll_len length (Some l)) 1 m = m" for m :: "reply exec"
          by (auto simp: room_for_def need_ex_def coll_len_def)
        show ?thesis using Some True unfolding o
          by (auto simp: tidy_value_def insert_at_def marks_touch k o intro!: settles_tidy)
      next
        case False
        then show ?thesis using Some t by (auto simp: settles_unchanged k kept_parts)
      qed
    qed
  qed (simp_all add: e)
  show ?thesis
    unfolding cmd_linsert_def Let_def [of "argv ! 1"] Let_def [of "argv ! 3"] Let_def [of "argv ! 4"]
    by (intro kept_parts(3,5) kept_ref [where mk = V_List];
      ((rule m, assumption+) | (simp add: kept_at_absent kept_at_pass)))
qed


text \<open>Popping one element and putting it into another list.\<close>

lemma insert_runs:
  "\<exists>u. change_ex (db_insert (ser_of c) key (entry_new v)) s = (u, Inr ()) \<and> ex_dirty u = ex_dirty s \<and>
     (\<forall>k. db_get k (cx_now c) (ex_db u) = (if k = key then Some (entry_new v) else db_get k (cx_now c) (ex_db s)))"
  by (simp add: change_ex_def entry_new_def entry_expired_def)

lemma prune_runs:
  "\<exists>u. prune_ex c key s = (u, Inr ()) \<and> ex_dirty u = ex_dirty s \<and>
     (\<forall>k. db_get k (cx_now c) (ex_db u) = (if k = key then (case db_get k (cx_now c) (ex_db s) of
          Some e \<Rightarrow> if is_empty_collection (ent_value e) then None else Some e | None \<Rightarrow> None)
        else db_get k (cx_now c) (ex_db s)))"
  by (simp add: prune_ex_def change_ex_def)

text \<open>
  Something of the value of \<open>src\<close> moves to that of \<open>dst\<close>: the one is what is left of it, gone when
  empty; the other is made when it was not there.
\<close>


lemma moved_rest:
  assumes k: "kind_of prj mk" and a: "tidy (cx_now c) (ex_db s)"
    and g: "\<And>k. db_get k (cx_now c) (ex_db u) = (if k = src then Some (e\<lparr>ent_value := v\<rparr>) else db_get k (cx_now c) (ex_db s))"
    and v: "sound_value v" "src \<noteq> dst"
    and d: "creating \<longleftrightarrow> db_get dst (cx_now c) (ex_db s) = None"
      "\<And>e'. db_get dst (cx_now c) (ex_db s) = Some e' \<Longrightarrow> prj (ent_value e') \<noteq> None"
    and f: "\<And>y. tidy_value (mk (fst (f y)))"
    and n: "marks c n"
    and r: "then_ex (prune_ex c src) (then_ex (when_ex creating (change_ex (db_insert (ser_of c) dst (entry_new (mk fresh)))))
        (bind_ex (mut_ex c prj mk fresh' dst False f) (\<lambda>u. some_ex u err (\<lambda>_. n)))) u = (t, r)"
  shows "good c s t r"
proof -
  obtain u1 where u1: "prune_ex c src u = (u1, Inr ())" and g1: "\<And>k. db_get k (cx_now c) (ex_db u1) =
      (if k = src then (if is_empty_collection v then None else Some (e\<lparr>ent_value := v\<rparr>)) else db_get k (cx_now c) (ex_db s))"
    using prune_runs [of c src u] g by fastforce
  obtain u2 where u2: "when_ex creating (change_ex (db_insert (ser_of c) dst (entry_new (mk fresh)))) u1 = (u2, Inr ())"
    and g2: "\<And>k. k \<noteq> dst \<Longrightarrow> db_get k (cx_now c) (ex_db u2) = db_get k (cx_now c) (ex_db u1)"
    and e2: "\<exists>e' y. db_get dst (cx_now c) (ex_db u2) = Some e' \<and> prj (ent_value e') = Some y"
  proof (cases creating)
    case True
    obtain u2 where "change_ex (db_insert (ser_of c) dst (entry_new (mk fresh))) u1 = (u2, Inr ())"
      "\<And>k. db_get k (cx_now c) (ex_db u2) = (if k = dst then Some (entry_new (mk fresh)) else db_get k (cx_now c) (ex_db u1))"
      using insert_runs by blast
    moreover have "prj (ent_value (entry_new (mk fresh))) = Some fresh" using k by (simp add: kind_of_def entry_new_def)
    ultimately show ?thesis using True by (intro that [of u2]) (simp_all add: when_ex_def)
  next
    case False
    then obtain e' where e': "db_get dst (cx_now c) (ex_db s) = Some e'" "prj (ent_value e') \<noteq> None" using d by blast
    have "db_get dst (cx_now c) (ex_db u1) = Some e'" using g1 [of dst] e'(1) v(2) by simp
    with e'(2) False show ?thesis by (intro that [of u1]) (auto simp: when_ex_def pass_def)
  qed
  obtain e' y where e': "db_get dst (cx_now c) (ex_db u2) = Some e'" "prj (ent_value e') = Some y" using e2 by blast
  obtain u3 where u3: "mut_ex c prj mk fresh' dst False f u2 = (u3, Inr (Some (snd (f y))))"
    and g3: "\<And>k. db_get k (cx_now c) (ex_db u3) = (if k = dst then Some (e'\<lparr>ent_value := mk (fst (f y))\<rparr>) else db_get k (cx_now c) (ex_db u2))"
    using mut_runs [where prj = prj and mk = mk, OF e'] by blast
  have "n u3 = (t, r)" using r by (simp add: then_ex_def bind_ex_def u1 u2 u3 some_ex_def)
  moreover have "tidy (cx_now c) (ex_db u3)"
    unfolding tidy_def
  proof (intro allI impI)
    fix k e3 assume e3: "db_get k (cx_now c) (ex_db u3) = Some e3"
    show "tidy_value (ent_value e3)"
    proof (cases "k = dst")
      case True
      then show ?thesis using e3 f by (auto simp: g3)
    next
      case False
      then show ?thesis using e3 v(1) tidyD [OF a, of k e3]
        by (auto simp: g3 g2 g1 tidy_value_def split: if_splits)
    qed
  qed
  ultimately show ?thesis by (intro marks_good [OF n])
qed

lemma bind_run: "m s = (u, Inr x) \<Longrightarrow> bind_ex m k s = k x u"
  by (simp add: bind_ex_def)

lemma then_pass: "then_ex (pass x) n = n"
  by (intro ext) (simp add: then_ex_def bind_ex_def pass_def)

lemma marks_touch2: "marks c (then_ex (touch c key ev) (then_ex (touch c key' ev') (pass x)))"
  by (rule marks_then1 [OF kept_basic(4) marks_calm [OF marks_touch]])

lemma push_side_nonempty: "push_side left v l \<noteq> []"
  by (simp add: push_side_def)

lemma kept_at_case_list: "(\<And>x l. xs = x # l \<Longrightarrow> keeps_at c s (m x l)) \<Longrightarrow> keeps_at c s n \<Longrightarrow> keeps_at c s (case xs of [] \<Rightarrow> n | x # l \<Rightarrow> m x l)"
  by (cases xs) simp_all

lemma kept_lmove: "keeps_view c (lmove c src dst from_left to_left)"
proof -
  let ?f = "\<lambda>l :: str list. case pop_side from_left 1 l of (x # _, rest) \<Rightarrow> (rest, Some x) | _ \<Rightarrow> (l, None)"
  let ?touch = "\<lambda>item. then_ex (touch c src (if from_left then ''lpop'' else ''rpop''))
             (then_ex (touch c dst (if to_left then ''lpush'' else ''rpush'')) (pass (R_Bulk item)))"
  let ?put = "\<lambda>item. bind_ex (list_mut c dst False (\<lambda>l. (push_side to_left item l, ()))) (\<lambda>u. some_ex u syntax_error (\<lambda>_. ?touch item))"
  let ?go = "\<lambda>dest. bind_ex (list_mut c src False ?f) (\<lambda>popped.
              some_ex popped syntax_error (\<lambda>item.
              some_ex item syntax_error (\<lambda>item.
              then_ex (when_ex (src \<noteq> dst) (prune_ex c src))
             (then_ex (when_ex (dest = None) (change_ex (db_insert (ser_of c) dst (entry_new (V_List []))))) (?put item)))))"
  have go: "keeps_at c s (?go dest)"
    if e: "db_get src (cx_now c) (ex_db s) = Some e" "as_list (ent_value e) = Some l" "l \<noteq> []"
      and d: "dest = None \<longleftrightarrow> db_get dst (cx_now c) (ex_db s) = None"
        "\<And>e'. db_get dst (cx_now c) (ex_db s) = Some e' \<Longrightarrow> as_list (ent_value e') \<noteq> None"
    for s e l and dest :: "str list option"
  proof (rule kept_untidy)
    assume a: "tidy (cx_now c) (ex_db s)"
    obtain item rest where p: "pop_side from_left 1 l = ([item], rest)" using pop_one [OF e(3)] by blast
    have fl: "?f l = (rest, Some item)" using p by simp
    obtain u where u: "list_mut c src False ?f s = (u, Inr (Some (Some item)))" and
      g: "\<And>k. db_get k (cx_now c) (ex_db u) = (if k = src then Some (e\<lparr>ent_value := V_List rest\<rparr>) else db_get k (cx_now c) (ex_db s))"
      using mut_runs [where prj = as_list and mk = V_List, OF e(1,2), of "[]" False ?f] unfolding fl fst_conv snd_conv by blast
    have b: "bind_ex (list_mut c src False ?f) k s = k (Some (Some item)) u" for k :: "str option option \<Rightarrow> reply exec"
      using u by (rule bind_run)
    have n: "keeps_at c s (?go dest) = (\<forall>t r. then_ex (when_ex (src \<noteq> dst) (prune_ex c src))
        (then_ex (when_ex (dest = None) (change_ex (db_insert (ser_of c) dst (entry_new (V_List []))))) (?put item)) u = (t, r) \<longrightarrow> good c s t r)"
      by (simp only: keeps_at_def b some_ex_def option.case)
    show "keeps_at c s (?go dest)"
    proof (cases "src = dst")
      case False
      show ?thesis unfolding n
      proof (intro allI impI)
        fix t r
        assume "then_ex (when_ex (src \<noteq> dst) (prune_ex c src))
          (then_ex (when_ex (dest = None) (change_ex (db_insert (ser_of c) dst (entry_new (V_List []))))) (?put item)) u = (t, r)"
        then have r: "then_ex (prune_ex c src)
          (then_ex (when_ex (dest = None) (change_ex (db_insert (ser_of c) dst (entry_new (V_List []))))) (?put item)) u = (t, r)"
          using False by (simp add: when_ex_def)
        show "good c s t r"
          by (rule moved_rest [where prj = as_list and mk = V_List, OF _ a g _ False _ _ _ marks_touch2 r])
            (use d in \<open>simp_all add: tidy_value_def push_side_nonempty\<close>)
      qed
    next
      case True
      have e': "db_get dst (cx_now c) (ex_db u) = Some (e\<lparr>ent_value := V_List rest\<rparr>)"
        "as_list (ent_value (e\<lparr>ent_value := V_List rest\<rparr>)) = Some rest" using g True by simp_all
      obtain w where w: "list_mut c dst False (\<lambda>l. (push_side to_left item l, ())) u = (w, Inr (Some ()))" and
        g': "\<And>k. db_get k (cx_now c) (ex_db w) = (if k = dst then Some (e\<lparr>ent_value := V_List rest, ent_value := V_List (push_side to_left item rest)\<rparr>)
            else db_get k (cx_now c) (ex_db u))"
        using mut_runs [where prj = as_list and mk = V_List, OF e', of "[]" False "\<lambda>l. (push_side to_left item l, ())"] unfolding fst_conv snd_conv by blast
      have "tidy (cx_now c) (ex_db w)"
        unfolding tidy_def g' g using a True by (auto simp: tidy_value_def push_side_nonempty tidy_def split: if_splits)
      note tw = this
      have b2: "bind_ex (list_mut c dst False (\<lambda>l. (push_side to_left item l, ()))) k u = k (Some ()) w" for k :: "unit option \<Rightarrow> reply exec"
        using w by (rule bind_run)
      have dn: "(dest = None) = False" "(src \<noteq> dst) = False" using d(1) e(1) True by simp_all
      show ?thesis
        unfolding n unfolding when_ex_def dn if_False then_pass b2 some_ex_def option.case
        by (intro allI impI) (rule marks_good [OF marks_touch2 tw])
    qed
  qed
  have "keeps_at c s (lmove c src dst from_left to_left)" for s
    unfolding lmove_def Let_def
  proof (rule kept_at_ref [where mk = V_List])
    fix e l assume e: "db_get src (cx_now c) (ex_db s) = Some e" "as_list (ent_value e) = Some l"
    show "keeps_at c s (case Some l of None \<Rightarrow> pass R_Nil | Some source \<Rightarrow> ref_ex c as_list dst (\<lambda>dest.
         if source = [] then pass R_Nil
         else if src \<noteq> dst then
                 room_for c (coll_len length dest) 1
                   (if dest = None \<and> length source > 1 then admit_ex c [dst] (?go dest) else ?go dest)
               else ?go dest))"
      unfolding option.case
      by (rule kept_at_ref [where mk = V_List]; (intro kept_at_parts kept_at_pass go [OF e])?; simp)
  qed (simp_all add: kept_at_pass)
  then show ?thesis by (rule kept_atI)
qed

lemma kept_moves: "keeps_view c (cmd_lmove c argv)" "keeps_view c (cmd_rpoplpush c argv)" "keeps_view c (cmd_blmove c argv)"
proof -
  show "keeps_view c (cmd_lmove c argv)" "keeps_view c (cmd_rpoplpush c argv)"
    unfolding cmd_lmove_def cmd_rpoplpush_def by (intro view_intros kept_lmove)+
  show "keeps_view c (cmd_blmove c argv)"
    unfolding cmd_blmove_def Let_def by (intro kept_parts kept_bind kept_lmove solid_keeps view_intros)
qed

lemma kept_blpop: "keeps_view c (cmd_blpop c left argv)"
proof -
  have "keeps_view c (blpop_loop c left keys otherwise)" if o: "keeps_view c otherwise" for keys otherwise
  proof (induction keys)
    case (Cons key keys)
    have m: "marks c (then_ex (touch c key ev) (then_ex (propagate w) (pass x)))" for key ev w x
      by (intro marks_then1 view_intros solid_calm)
    show ?case
      unfolding blpop_loop.simps
    proof (rule kept_mut)
      fix l assume t: "tidy_value (V_List l)"
      then obtain item rest where p: "pop_side left 1 l = ([item], rest)" using pop_one [of l left] by (auto simp: tidy_value_def)
      have "settles c key (V_List l) (V_List rest) (then_ex (prune_ex c key)
        (then_ex (touch c key (if left then ''lpop'' else ''rpop''))
        (then_ex (propagate [if left then ''LPOP'' else ''RPOP'', key]) (pass (r_bulks [key, item])))))"
        by (rule settles_prune) (simp_all add: m marks_solid)
      then show "settles c key (V_List l) (V_List (fst (case pop_side left 1 l of (x # _, rest) \<Rightarrow> (rest, Some x) | _ \<Rightarrow> (l, None))))
          (case Option.bind (Some (snd (case pop_side left 1 l of (x # _, rest) \<Rightarrow> (rest, Some x) | _ \<Rightarrow> (l, None)))) id of
            Some item \<Rightarrow> then_ex (prune_ex c key) (then_ex (touch c key (if left then ''lpop'' else ''rpop''))
              (then_ex (propagate [if left then ''LPOP'' else ''RPOP'', key]) (pass (r_bulks [key, item]))))
          | None \<Rightarrow> blpop_loop c left keys otherwise)"
        using p by simp
    qed (simp_all add: Cons)
  qed (simp add: o)
  note b = this
  have "keeps_view c (then_ex (block_ex c retry timeout) (pass R_Nil))" for retry timeout
    by (intro solid_keeps view_intros)
  then show ?thesis unfolding cmd_blpop_def by (intro view_intros b)
qed

end
