(* ===== verification/Cmd_Kept_Sets.thy ===== *)
theory Cmd_Kept_Sets
  imports Cmd_Kept
begin

text \<open>
  What the commands on sets and sorted sets owe their keyspace.
\<close>

subsection \<open>Sets\<close>

lemma kept_smove: "keeps_view c (cmd_smove c argv)"
proof -
  define src dst member where "src = argv ! 1" and "dst = argv ! 2" and "member = argv ! 3"
  let ?f = "\<lambda>v :: str btree_set. (bs_remove member v, ())"
  let ?put = "bind_ex (set_mut c dst False (\<lambda>v. (bs_insert member v, ()))) (\<lambda>u. some_ex u syntax_error (\<lambda>_.
      then_ex (touch c src ''srem'') (then_ex (touch c dst ''sadd'') (pass (R_Int 1)))))"
  let ?go = "\<lambda>dest. bind_ex (set_mut c src False ?f) (\<lambda>u. some_ex u syntax_error (\<lambda>_.
      then_ex (prune_ex c src)
        (then_ex (when_ex (dest = None) (change_ex (db_insert (ser_of c) dst (entry_new (V_Set bm_empty))))) ?put)))"
  have go: "keeps_at c s (?go dest)"
    if e: "db_get src (cx_now c) (ex_db s) = Some e" "as_set (ent_value e) = Some v" "src \<noteq> dst"
      and d: "dest = None \<longleftrightarrow> db_get dst (cx_now c) (ex_db s) = None"
        "\<And>e'. db_get dst (cx_now c) (ex_db s) = Some e' \<Longrightarrow> as_set (ent_value e') \<noteq> None"
    for s e v and dest :: "str btree_set option"
  proof (rule kept_untidy)
    assume a: "tidy (cx_now c) (ex_db s)"
    obtain u where u: "set_mut c src False ?f s = (u, Inr (Some ()))" and
      g: "\<And>k. db_get k (cx_now c) (ex_db u) = (if k = src then Some (e\<lparr>ent_value := V_Set (bs_remove member v)\<rparr>) else db_get k (cx_now c) (ex_db s))"
      using mut_runs [where prj = as_set and mk = V_Set, OF e(1,2), of bm_empty False ?f] unfolding fst_conv snd_conv by blast
    have b: "bind_ex (set_mut c src False ?f) k s = k (Some ()) u" for k :: "unit option \<Rightarrow> reply exec"
      using u by (rule bind_run)
    show "keeps_at c s (?go dest)"
      unfolding keeps_at_def b some_ex_def [of "Some ()"] option.case
      by (intro allI impI, rule moved_rest [where prj = as_set and mk = V_Set, OF _ a g _ e(3) _ _ _ marks_touch2])
        (use d insert_nonempty in \<open>simp_all add: tidy_value_def\<close>)
  qed
  have "keeps_at c s (ref_ex c as_set src (\<lambda>source.
     case source of
       None \<Rightarrow> pass (R_Int 0)
     | Some source \<Rightarrow>
         ref_ex c as_set dst (\<lambda>dest.
         if src = dst \<or> \<not> bm_contains source member then pass (r_bool (bm_contains source member))
         else
           if set_has dest member then ?go dest
               else room_for c (coll_len bm_len dest) 1
                 (if dest = None \<and> bm_len source > 1 then admit_ex c [dst] (?go dest) else ?go dest))))" for s
  proof (rule kept_at_ref [where mk = V_Set])
    fix e v assume e: "db_get src (cx_now c) (ex_db s) = Some e" "as_set (ent_value e) = Some v"
    show "keeps_at c s (case Some v of
       None \<Rightarrow> pass (R_Int 0)
     | Some source \<Rightarrow>
         ref_ex c as_set dst (\<lambda>dest.
         if src = dst \<or> \<not> bm_contains source member then pass (r_bool (bm_contains source member))
         else
           if set_has dest member then ?go dest
               else room_for c (coll_len bm_len dest) 1
                 (if dest = None \<and> bm_len source > 1 then admit_ex c [dst] (?go dest) else ?go dest)))"
      unfolding option.case
      by (rule kept_at_ref [where mk = V_Set]; (intro kept_at_parts kept_at_pass go [OF e])?; simp)
  qed (simp_all add: kept_at_pass)
  note m = this
  show ?thesis
    unfolding cmd_smove_def Let_def src_def [symmetric] dst_def [symmetric] member_def [symmetric]
    by (intro kept_parts(3) kept_atI m)
qed

lemma undrawn_good: "undrawn s u \<Longrightarrow> good c u t r \<Longrightarrow> good c s t r"
  by (auto simp: undrawn_def good_def)

lemma kept_choice:
  assumes "chooses m" "undrawn s0 s" "\<And>p u. undrawn s0 u \<Longrightarrow> keeps_at c u (k p)"
  shows "keeps_at c s (m k)"
proof (rule choosesD [OF assms(1), of s k])
  fix p u assume u: "undrawn s u" "m k s = k p u"
  have "undrawn s0 u" by (rule undrawn_trans [OF assms(2) u(1)])
  from assms(3) [OF this, of p] u show "keeps_at c s (m k)" unfolding keeps_at_def by (auto intro: undrawn_good)
next
  fix e u assume u: "undrawn s u" "m k s = (u, Inl e)"
  show "keeps_at c s (m k)"
    unfolding keeps_at_def u(2) using undrawn_good [OF u(1) good_refl] by blast
qed

lemma then_bind: "then_ex (bind_ex m k) n = bind_ex m (\<lambda>x. then_ex (k x) n)"
  by (intro ext) (simp add: then_ex_def bind_ex_def split: prod.split sum.split)

lemma then_then: "then_ex (then_ex m n) n' = then_ex m (then_ex n n')"
  by (intro ext) (simp add: then_ex_def bind_ex_def split: prod.split sum.split)

lemma kept_spop: "keeps_view c (cmd_spop c True argv)"
proof -
  let ?key = "argv ! 1"
  have m: "keeps_at c s (then_ex (when_ex (True \<and> picked \<noteq> [])
      (bind_ex (set_mut c key False (\<lambda>v. (fst (remove_each picked v), ()))) (\<lambda>u.
       some_ex u syntax_error (\<lambda>_. then_ex (prune_ex c key) (then_ex (touch c key ev) (propagate w))))))
      (pass y))"
    if e: "db_get key (cx_now c) (ex_db s) = Some e" "ent_value e = V_Set v" for picked key y s e v ev w
  proof (cases "picked = []")
    case True
    then show ?thesis by (simp add: when_ex_def then_pass kept_at_pass)
  next
    case False
    have w: "(True \<and> picked \<noteq> []) = True" using False by simp
    have m: "marks c (then_ex (then_ex (touch c key ev) (propagate w)) (pass y))"
      by (intro marks_then1 view_intros solid_calm)
    show ?thesis unfolding when_ex_def w if_True then_bind
      by (rule kept_at_found [where prj = as_set and mk = V_Set and x = v, OF e(1)];
        simp add: e some_ex_def then_then settles_prune m [unfolded then_then] marks_solid)
  qed
  have "keeps_at c s (case v of None \<Rightarrow> pass x | Some v \<Rightarrow> pick_members c True wanted v (\<lambda>picked. k picked))"
    if "\<And>w p u. v = Some w \<Longrightarrow> undrawn s u \<Longrightarrow> keeps_at c u (k p)" for s v x wanted and k :: "str list \<Rightarrow> reply exec"
    using that by (cases v) (auto simp: kept_at_pass intro: kept_choice [OF chooses_members undrawn_refl])
  note c = this
  show ?thesis
    unfolding cmd_spop_def Let_def
    by (intro kept_parts(1,5) kept_ref [where mk = V_Set] c; ((simp; fail) | (rule m; auto simp: undrawn_def)))
qed

lemma add_each_same: "snd (add_each ks m) = 0 \<Longrightarrow> fst (add_each ks m) = m"
proof (induction ks arbitrary: m)
  case (Cons k ks)
  then have "bm_contains m k" "snd (add_each ks (bs_insert k m)) = 0"
    by (auto split: prod.splits if_splits)
  moreover have "bs_insert k m = m" using calculation(1) by (intro bs_eqI) auto
  ultimately show ?case using Cons.IH [of m] by (simp split: prod.split)
qed simp

lemma add_each_moved: "fst (add_each ks m) \<noteq> m \<Longrightarrow> 0 < snd (add_each ks m)"
  using add_each_same by fastforce

lemma add_each_len: "bm_len m \<noteq> 0 \<or> ks \<noteq> [] \<Longrightarrow> bm_len (fst (add_each ks m)) \<noteq> 0"
proof (induction ks arbitrary: m)
  case (Cons k ks)
  show ?case using Cons.IH [of "bs_insert k m"] insert_nonempty [of k "()" m] by (simp add: case_prod_beta)
qed simp

lemma kept_sets: "keeps_view c (cmd_sadd c argv)" "keeps_view c (cmd_srem c argv)"
proof -
  have s: "solid c (then_ex (when_ex b (touch c key ev)) (then_ex (prune_ex c key) (pass x)))" for b key ev and x :: reply
    by (intro view_intros marks_solid)
  have m: "marks c (then_ex (when_ex b (touch c key ev)) (then_ex (prune_ex c key) (pass x)))" if b for b key ev and x :: reply
    using that by (simp add: when_ex_def) (intro marks_then1 view_intros solid_calm)
  have r: "ks = []" if "fst (add_each ks bm_empty) = bm_empty" for ks
    using add_each_len [of bm_empty ks] that by (auto simp: bm_len_0)
  show "keeps_view c (cmd_sadd c argv)"
    unfolding cmd_sadd_def Let_def
    by (intro view_intros kept_mut settles_tidy)
      (auto simp: tidy_value_def some_ex_def kept_basic solid_keeps [OF s] add_each_len intro!: m add_each_moved dest!: r)
  show "keeps_view c (cmd_srem c argv)"
    unfolding cmd_srem_def Let_def
    by (intro view_intros kept_shrink) (auto simp: when_touch(1) intro!: when_touch(2) remove_each_moved)
qed


subsection \<open>Sorted sets\<close>

lemma f_nan_iff: "f_nan x \<longleftrightarrow> uint f_infinity < uint (f_abs x)"
  by (simp add: f_nan_def word_less_def)

lemma f_signed_abs: "f_abs (f_signed b x) = f_abs x"
proof -
  have m: "(0x7FFFFFFFFFFFFFFF :: u64) = mask 63" by (simp add: mask_eq_exp_minus_1)
  have "bit (push_bit 63 (1 :: u64)) n \<longleftrightarrow> n = 63" for n by (auto simp: bit_simps simp del: push_bit_of_1)
  moreover have "push_bit 63 (1 :: u64) = 0x8000000000000000" by (simp add: push_bit_eq_mult)
  ultimately have c: "bit (0x8000000000000000 :: u64) n \<longleftrightarrow> n = 63" for n by simp
  show ?thesis
    unfolding f_signed_def f_abs_def f_minus_zero_def m by (rule bit_word_eqI) (simp only: bit_or_iff bit_and_iff bit_mask_iff c split: if_split, auto)
qed

lemma f_nearest_number: "\<not> f_nan (f_nearest p q)"
proof -
  have i: "\<not> f_nan f_infinity" by code_simp
  have "\<not> f_nan (of_nat b)" if b: "b < unat f_infinity" for b
  proof -
    have "f_abs (of_nat b) \<le> of_nat b" unfolding f_abs_def by (rule word_and_le2)
    also have "of_nat b \<le> f_infinity"
      using b order_trans [OF mod_less_eq_dividend less_imp_le [OF b]] by (simp add: word_le_nat_alt unat_of_nat)
    finally show ?thesis by (simp add: f_nan_def not_less)
  qed
  moreover obtain b where "f_nearest p q = (if unat f_infinity \<le> b then f_infinity else of_nat b)"
    unfolding f_nearest_def Let_def by blast
  ultimately show ?thesis using i by simp
qed

lemma f_add_zero: "\<not> f_nan y \<Longrightarrow> \<not> f_nan (f_add 0 y)"
proof -
  have z: "\<not> f_nan 0" "\<not> f_infinite 0" "\<not> f_nan f_minus_zero" by code_simp+
  assume "\<not> f_nan y"
  moreover have "\<not> f_nan (f_signed b (f_nearest p q))" for b p q
    using f_nearest_number [of p q] by (simp add: f_nan_def f_signed_abs)
  ultimately show ?thesis using z by (simp add: f_add_def Let_def)
qed

lemma float_arg_number: "float_arg a = Inr x \<Longrightarrow> \<not> f_nan x"
  by (auto simp: float_arg_def Let_def split: option.splits if_splits)

lemma f_eq_same: "f_normal x \<Longrightarrow> f_normal y \<Longrightarrow> f_eq x y \<Longrightarrow> x = y"
  using total_le_iff [of x y] total_le_iff [of y x] by (simp add: f_eq_def f_le_def flip: total_key_inject)

lemma zset_insert_same:
  assumes "zset_ok z" "bm_get (zs_scores z) m = Some old" "f_eq old x" "\<not> f_nan x"
  shows "fst (zset_insert m x z) = z"
proof -
  have "f_normal old" using assms(1,2) by (simp add: zset_ok_def)
  moreover have "f_eq old (f_plain_zero x)" using assms(3) by (auto simp: f_plain_zero_def f_eq_def)
  ultimately have s: "f_plain_zero x = old" using f_eq_same f_plain_zero_normal [OF assms(4)] by metis
  have "(Score old, m) \<in> bs_elems (zs_order z)" using assms(1,2) by (simp add: zset_ok_def)
  then have "bs_insert (Score old, m) (bs_remove (Score old, m) (zs_order z)) = zs_order z" by (intro bs_eqI) auto
  moreover have "bm_insert m old (zs_scores z) = zs_scores z" using assms(2) by (intro bm_eqI) auto
  ultimately show ?thesis using assms(2) s by (simp add: zset_insert_def)
qed

text \<open>The pairs a caller gives carry numbers.\<close>

lemma score_pairs_number: "score_pairs ps = Inr xs \<Longrightarrow> (x, m) \<in> set xs \<Longrightarrow> \<not> f_nan x"
proof (induction ps arbitrary: xs)
  case (Cons p ps)
  then show ?case by (cases p) (auto simp: bind_sum_def dest: float_arg_number split: sum.splits)
qed simp

lemma score_pairs_len: "score_pairs ps = Inr xs \<Longrightarrow> length xs = length ps"
proof (induction ps arbitrary: xs)
  case (Cons p ps)
  then show ?case by (cases p) (auto simp: bind_sum_def split: sum.splits)
qed simp

lemma zset_insert_len: "zset_len (fst (zset_insert m x z)) \<noteq> 0"
  using insert_nonempty [of m "f_plain_zero x" "zs_scores z"] by (simp add: zset_insert_def zset_len_def Let_def split: option.split)

text \<open>
  One pair: the loop stops at a NaN, passes the pair over, or takes it in; then it is counted, or
  the member had that score.
\<close>

definition counted :: "zadd_counts \<Rightarrow> nat" where
  "counted zc = zc_added zc + zc_changed zc"

definition summed :: "zadd_flags \<Rightarrow> f64 \<Rightarrow> f64 option \<Rightarrow> f64" where
  "summed fl given old = (if za_incr fl then f_add (case old of None \<Rightarrow> 0 | Some x \<Rightarrow> x) given else given)"

declare zadd_loop.simps(2) [simp del]

lemma zadd_pair:
  obtains e where "f_nan (summed fl given (bm_get (zs_scores z) m))" "zadd_loop fl ((given, m) # ps) z zc = (z, Inl e)"
  | "\<not> (bm_get (zs_scores z) m = None \<and> \<not> za_xx fl)" "zadd_loop fl ((given, m) # ps) z zc = zadd_loop fl ps z zc"
  | x zc' where "\<not> f_nan x" "zadd_loop fl ((given, m) # ps) z zc = zadd_loop fl ps (fst (zset_insert m x z)) zc'"
      "counted zc' = counted zc + 1 \<or> (counted zc' = counted zc \<and> (\<exists>old. bm_get (zs_scores z) m = Some old \<and> f_eq old x))"
      "bm_get (zs_scores z) m = None \<longrightarrow> counted zc' = counted zc + 1"
proof -
  define x where "x = summed fl given (bm_get (zs_scores z) m)"
  define ok where "ok = (case bm_get (zs_scores z) m of None \<Rightarrow> \<not> za_xx fl
      | Some old \<Rightarrow> \<not> za_nx fl \<and> (\<not> za_gt fl \<or> f_lt old x) \<and> (\<not> za_lt fl \<or> f_lt x old))"
  have l: "zadd_loop fl ((given, m) # ps) z zc = (if f_nan x then (z, Inl ''ERR resulting score is not a number (NaN)'')
      else if \<not> ok then zadd_loop fl ps z zc
      else zadd_loop fl ps (fst (zset_insert m x z)) (case bm_get (zs_scores z) m of
          None \<Rightarrow> zc\<lparr>zc_last := Some x, zc_added := zc_added zc + 1\<rparr>
        | Some old \<Rightarrow> if f_eq old x then zc\<lparr>zc_last := Some x\<rparr> else zc\<lparr>zc_last := Some x, zc_changed := zc_changed zc + 1\<rparr>))"
    unfolding zadd_loop.simps(2) Let_def x_def ok_def summed_def ..
  show ?thesis
  proof (cases "f_nan x")
    case True
    then show ?thesis by (intro that(1)) (simp_all add: l flip: x_def)
  next
    case no: False
    show ?thesis
    proof (cases ok)
      case True
      then show ?thesis using no
        by (cases "bm_get (zs_scores z) m") (rule that(3) [OF no], simp add: l, simp_all add: counted_def)+
    next
      case False
      then show ?thesis using no by (intro that(2); cases "bm_get (zs_scores z) m"; simp add: l ok_def)
    qed
  qed
qed

lemma zadd_loop_ok: "zset_ok z \<Longrightarrow> zset_ok (fst (zadd_loop fl ps z zc))"
proof (induction ps arbitrary: z zc)
  case (Cons p ps)
  obtain g m where p: "p = (g, m)" by fastforce
  show ?case unfolding p
    by (rule zadd_pair [of fl g z m ps zc]) (simp_all add: Cons zset_insert_ok)
qed simp

lemma zadd_loop_len: "zset_len z \<noteq> 0 \<Longrightarrow> zset_len (fst (zadd_loop fl ps z zc)) \<noteq> 0"
proof (induction ps arbitrary: z zc)
  case (Cons p ps)
  obtain g m where p: "p = (g, m)" by fastforce
  show ?case unfolding p
    by (rule zadd_pair [of fl g z m ps zc]) (use Cons zset_insert_len in simp_all)
qed simp

lemma zadd_loop_counts: "snd (zadd_loop fl ps z zc) = Inr zc' \<Longrightarrow> counted zc \<le> counted zc'"
proof (induction ps arbitrary: z zc)
  case (Cons p ps)
  obtain g m where p: "p = (g, m)" by fastforce
  show ?case
    by (rule zadd_pair [of fl g z m ps zc]) (use Cons.prems Cons.IH p in \<open>fastforce+\<close>)
qed simp

lemma zadd_loop_same:
  "zset_ok z \<Longrightarrow> snd (zadd_loop fl ps z zc) = Inr zc' \<Longrightarrow> counted zc' = counted zc \<Longrightarrow> fst (zadd_loop fl ps z zc) = z"
proof (induction ps arbitrary: z zc)
  case (Cons p ps)
  obtain g m where p: "p = (g, m)" by fastforce
  show ?case
  proof (rule zadd_pair [of fl g z m ps zc])
    fix x zc1 assume x: "\<not> f_nan x" "zadd_loop fl ((g, m) # ps) z zc = zadd_loop fl ps (fst (zset_insert m x z)) zc1"
      "counted zc1 = counted zc + 1 \<or> (counted zc1 = counted zc \<and> (\<exists>old. bm_get (zs_scores z) m = Some old \<and> f_eq old x))"
    have "counted zc1 \<le> counted zc'" by (rule zadd_loop_counts) (use Cons.prems p x(2) in simp)
    with x(3) Cons.prems(3) have c: "counted zc1 = counted zc" "fst (zset_insert m x z) = z"
      using zset_insert_same [OF Cons.prems(1) _ _ x(1)] by auto
    then show ?thesis using Cons.IH [OF Cons.prems(1), of zc1] Cons.prems(2,3) p x(2) by simp
  qed (use Cons p in auto)
qed simp

text \<open>An error comes of one pair, with INCR, and leaves the set as it was; a fresh set takes the first pair in.\<close>

lemma zadd_loop_error:
  assumes "snd (zadd_loop fl ps z zc) = Inl e" "\<forall>(x, m) \<in> set ps. \<not> f_nan x" "za_incr fl \<longrightarrow> length ps = 1"
  shows "za_incr fl" "fst (zadd_loop fl ps z zc) = z" "bm_get (zs_scores z) (snd (hd ps)) \<noteq> None"
proof -
  have plain: "snd (zadd_loop fl ps z zc) \<noteq> Inl e" if "\<forall>(x, m) \<in> set ps. \<not> f_nan x" "\<not> za_incr fl" for ps z zc
    using that(1)
  proof (induction ps arbitrary: z zc)
    case (Cons p ps)
    obtain g m where p: "p = (g, m)" by fastforce
    show ?case
      by (rule zadd_pair [of fl g z m ps zc]) (use Cons p that(2) in \<open>auto simp: summed_def\<close>)
  qed simp
  show i: "za_incr fl" using plain [OF assms(2)] assms(1) by blast
  then obtain p where "ps = [p]" using assms(3) by (cases ps) auto
  moreover obtain g m where "p = (g, m)" by fastforce
  ultimately have p: "ps = [(g, m)]" by simp
  have "f_nan (summed fl g (bm_get (zs_scores z) m)) \<and> fst (zadd_loop fl ps z zc) = z"
    by (rule zadd_pair [of fl g z m "[]" zc]) (use assms(1) p in auto)
  moreover have "\<not> f_nan (f_add 0 g)" by (rule f_add_zero) (use assms(2) p in simp)
  ultimately show "fst (zadd_loop fl ps z zc) = z" "bm_get (zs_scores z) (snd (hd ps)) \<noteq> None"
    using p i by (cases "bm_get (zs_scores z) m"; simp add: summed_def)+
qed

lemma zadd_loop_fresh:
  assumes "ps \<noteq> []" "\<not> za_xx fl" "snd (zadd_loop fl ps zset_empty zc) = Inr zc'"
  shows "counted zc < counted zc'" "zset_len (fst (zadd_loop fl ps zset_empty zc)) \<noteq> 0"
proof -
  obtain g m qs where p: "ps = (g, m) # qs" using assms(1) by (cases ps) auto
  have e: "bm_get (zs_scores zset_empty) m = None" by (simp add: zset_empty_def)
  have "counted zc < counted zc' \<and> zset_len (fst (zadd_loop fl ps zset_empty zc)) \<noteq> 0"
  proof (rule zadd_pair [of fl g zset_empty m qs zc])
    fix x zc1 assume x: "zadd_loop fl ((g, m) # qs) zset_empty zc = zadd_loop fl qs (fst (zset_insert m x zset_empty)) zc1"
      "bm_get (zs_scores zset_empty) m = None \<longrightarrow> counted zc1 = counted zc + 1"
    have "counted zc1 \<le> counted zc'" by (rule zadd_loop_counts) (use assms(3) p x(1) in simp)
    then show ?thesis using x e zadd_loop_len [OF zset_insert_len] p by simp
  qed (use assms p e in auto)
  then show "counted zc < counted zc'" "zset_len (fst (zadd_loop fl ps zset_empty zc)) \<noteq> 0" by simp_all
qed

lemma new_runs:
  assumes k: "kind_of prj mk" and none: "db_get key (cx_now c) (ex_db s) = None"
  obtains e where "mut_ex c prj mk fresh key True f s = (s, Inl (Failed e))"
  | u where "mut_ex c prj mk fresh key True f s = (u, Inr (Some (snd (f fresh))))" "ex_dirty u = ex_dirty s"
      "\<And>k. db_get k (cx_now c) (ex_db u) = (if k = key then Some (entry_new (mk (fst (f fresh)))) else db_get k (cx_now c) (ex_db s))"
proof (cases "admit_all c [key] (ex_db s)")
  case (Inl e)
  then show ?thesis using none by (intro that(1)) (simp add: mut_ex_def look_ex_def admit_ex_def try_ex_def refuse_def)
next
  case (Inr u)
  let ?now = "cx_now c"
  let ?s = "s\<lparr>ex_db := db_get_mut (ser_of c) key ?now (changed prj mk f) (db_insert (ser_of c) key (entry_new (mk fresh)) (ex_db s))\<rparr>"
  have p: "prj (mk fresh) = Some fresh" using k by (simp add: kind_of_def)
  have l: "\<not> entry_expired ?now (entry_new v)" for v by (simp add: entry_new_def entry_expired_def)
  show ?thesis
  proof (rule that(2) [of ?s])
    show "mut_ex c prj mk fresh key True f s = (?s, Inr (Some (snd (f fresh))))"
      using none Inr p l by (simp add: mut_ex_def look_ex_def admit_ex_def try_ex_def then_ex_def change_ex_def
          value_mut_def bind_ex_def entry_mut_def pass_def) (simp add: entry_new_def)
    show "db_get k ?now (ex_db ?s) = (if k = key then Some (entry_new (mk (fst (f fresh)))) else db_get k ?now (ex_db s))" for k
      using none l p by (auto simp: entry_new_def entry_expired_def)
  qed simp
qed

lemma kept_at_new:
  assumes k: "kind_of prj mk" and none: "db_get key (cx_now c) (ex_db s) = None"
    and new: "tidy_value (mk (fst (f fresh)))" "marks c (k (Some (snd (f fresh))))"
  shows "keeps_at c s (bind_ex (mut_ex c prj mk fresh key True f) k)"
proof (rule new_runs [OF k none, of fresh f])
  fix e assume "mut_ex c prj mk fresh key True f s = (s, Inl (Failed e))"
  then show ?thesis by (simp add: keeps_at_def bind_ex_def good_refl)
next
  fix u assume u: "mut_ex c prj mk fresh key True f s = (u, Inr (Some (snd (f fresh))))"
    "\<And>k. db_get k (cx_now c) (ex_db u) = (if k = key then Some (entry_new (mk (fst (f fresh)))) else db_get k (cx_now c) (ex_db s))"
  have r: "bind_ex (mut_ex c prj mk fresh key True f) k s = k (Some (snd (f fresh))) u" using u(1) by (rule bind_run)
  have td: "tidy (cx_now c) (ex_db u)" if "tidy (cx_now c) (ex_db s)"
    unfolding tidy_def u(2) using that new(1) by (auto simp: tidy_def entry_new_def split: if_splits)
  show ?thesis
    by (rule kept_untidy) (simp only: keeps_at_def r, intro allI impI marks_good [OF new(2) td])
qed

lemma kept_zadd: "keeps_view c (cmd_zadd c argv)"
proof -
  define key where "key = argv ! 1"
  define zc0 where "zc0 = \<lparr>zc_added = 0, zc_changed = 0, zc_last = None\<rparr>"
  define K where "K fl zc = then_ex (prune_ex c key)
       (then_ex (when_ex (zc_added zc + zc_changed zc > 0)
                 (touch c key (if za_incr fl then ''zincr'' else ''zadd'')))
                (pass (if za_incr fl
                       then (case zc_last zc of None \<Rightarrow> R_Nil | Some x \<Rightarrow> R_Bulk (float_text c x))
                       else r_int (if za_ch fl then zc_added zc + zc_changed zc else zc_added zc))))" for fl :: zadd_flags and zc :: zadd_counts
  let ?go = "\<lambda>fl pairs. bind_ex (zset_mut c key True (\<lambda>z. zadd_loop fl pairs z zc0)) (\<lambda>out.
              some_ex out syntax_error (\<lambda>out. try_ex out (K fl)))"
  have mK: "marks c (K fl zc)" if "zc_added zc + zc_changed zc > 0" for fl zc
    unfolding K_def by (rule marks_then2 [OF _ when_touch(2) [OF that]]) (intro solid_calm view_intros)
  have c0: "counted zc0 = 0" by (simp add: zc0_def counted_def)
  have go: "keeps_at c s (?go fl pairs)"
    if ps: "\<forall>(x, m) \<in> set pairs. \<not> f_nan x" "za_incr fl \<longrightarrow> length pairs = 1" "pairs \<noteq> []"
      and v: "db_get key (cx_now c) (ex_db s) = None \<and> \<not> za_xx fl \<or>
        (\<exists>e z. db_get key (cx_now c) (ex_db s) = Some e \<and> ent_value e = V_ZSet z)" for s fl pairs
    using v
  proof (elim disjE conjE exE)
    assume n: "db_get key (cx_now c) (ex_db s) = None" "\<not> za_xx fl"
    show ?thesis
    proof (rule kept_at_new [OF _ n(1)])
      obtain zc where o: "snd (zadd_loop fl pairs zset_empty zc0) = Inr zc"
      proof (cases "snd (zadd_loop fl pairs zset_empty zc0)")
        case (Inl e)
        from zadd_loop_error(3) [OF Inl ps(1,2)] show ?thesis by (simp add: zset_empty_def)
      qed (rule that)
      note f = zadd_loop_fresh [OF ps(3) n(2) o]
      show "tidy_value (V_ZSet (fst (zadd_loop fl pairs zset_empty zc0)))"
        using f(2) zadd_loop_ok [OF zset_empty_ok] by (simp add: tidy_value_def)
      have "zc_added zc + zc_changed zc > 0" using f(1) c0 by (simp add: counted_def)
      then show "marks c (some_ex (Some (snd (zadd_loop fl pairs zset_empty zc0))) syntax_error (\<lambda>out. try_ex out (K fl)))"
        unfolding o by (simp add: some_ex_def try_ex_def mK)
    qed simp
  next
    fix e z assume e: "db_get key (cx_now c) (ex_db s) = Some e" "ent_value e = V_ZSet z"
    show ?thesis
    proof (rule kept_at_found [where prj = as_zset and mk = V_ZSet and x = z, OF e(1)])
      assume t: "tidy_value (V_ZSet z)"
      then have ok: "zset_ok z" by (simp add: tidy_value_def)
      let ?z = "fst (zadd_loop fl pairs z zc0)"
      show "settles c key (V_ZSet z) (V_ZSet ?z) (some_ex (Some (snd (zadd_loop fl pairs z zc0))) syntax_error (\<lambda>out. try_ex out (K fl)))"
      proof (cases "snd (zadd_loop fl pairs z zc0)")
        case (Inl m)
        then show ?thesis using zadd_loop_error(2) [OF Inl ps(1,2)] t
          by (simp add: some_ex_def try_ex_def settles_unchanged kept_basic)
      next
        case (Inr zc)
        have "counted zc > 0" if "?z \<noteq> z" using zadd_loop_same [OF ok Inr] that c0 by fastforce
        then show ?thesis using Inr zadd_loop_ok [OF ok]
          by (auto simp: some_ex_def try_ex_def K_def counted_def when_touch(1) intro!: settles_prune when_touch(2))
      qed
    qed (simp_all add: e)
  qed
  have r: "keeps_view c (ref_ex c as_zset key (\<lambda>current.
     if za_xx fl then if za_xx fl \<and> current = None then pass (if za_incr fl then R_Nil else R_Int 0) else ?go fl pairs
     else room_for c (coll_len zset_len current) (length (filter (\<lambda>(_, m). \<not> has_member current m) pairs))
       (if za_xx fl \<and> current = None then pass (if za_incr fl then R_Nil else R_Int 0) else ?go fl pairs)))"
    if "\<forall>(x, m) \<in> set pairs. \<not> f_nan x" "za_incr fl \<longrightarrow> length pairs = 1" "pairs \<noteq> []" for fl pairs
    by (rule kept_ref [where mk = V_ZSet]; (intro kept_at_parts kept_at_pass go that)?; simp)
  have p: "(\<forall>(x, m) \<in> set pairs. \<not> f_nan x) \<and> (za_incr fl \<longrightarrow> length pairs = 1) \<and> pairs \<noteq> []"
    if p: "score_pairs (pairs_of rest) = Inr pairs" and r: "rest \<noteq> [] \<and> even (length rest)" and i: "\<not> (za_incr fl \<and> length rest \<noteq> 2)"
    for fl :: zadd_flags and rest pairs
  proof -
    have l: "length pairs = length (pairs_of rest)" by (rule score_pairs_len [OF p])
    obtain a b rest' where a: "rest = a # b # rest'" using r by (cases rest rule: pairs_of.cases) auto
    then have "pairs \<noteq> []" using l by auto
    moreover have "za_incr fl \<longrightarrow> length pairs = 1" using l a i by auto
    ultimately show ?thesis using score_pairs_number [OF p] by auto
  qed
  show ?thesis
    unfolding cmd_zadd_def Let_def key_def [symmetric] zc0_def [symmetric] K_def [symmetric]
    by (intro kept_parts(1,2,5,9) r) (use p in blast)+
qed

lemma zrem_each_ok: "zset_ok z \<Longrightarrow> zset_ok (fst (zrem_each ms z))"
proof (induction ms arbitrary: z)
  case (Cons m ms)
  show ?case using Cons.IH [OF zset_remove_ok [OF Cons.prems]] by (simp add: case_prod_beta)
qed simp

lemma zrem_each_moved: "fst (zrem_each ms z) \<noteq> z \<Longrightarrow> 0 < snd (zrem_each ms z)"
proof (induction ms arbitrary: z)
  case (Cons m ms)
  then show ?case by (cases "bm_get (zs_scores z) m") (simp_all add: case_prod_beta zset_remove_def)
qed simp

lemma zpop_loop_ok: "zset_ok z \<Longrightarrow> zset_ok (fst (zpop_loop c mn n z))"
proof (induction n arbitrary: z)
  case (Suc n)
  then show ?case by (auto simp: case_prod_beta zset_remove_ok split: option.split)
qed simp

lemma zpop_loop_moved: "fst (zpop_loop c mn n z) \<noteq> z \<Longrightarrow> snd (zpop_loop c mn n z) \<noteq> []"
  by (cases n) (auto simp: case_prod_beta split del: if_split split: option.splits)

lemma kept_zpop:
  assumes "\<And>out. solid c (k out)"
  shows "keeps_view c (zpop c key mn n k)"
proof -
  have m: "marks c (then_ex (when_ex b (touch c key ev)) (k out))" if b for b ev out
    using that by (simp add: when_ex_def) (intro marks_then1 view_intros solid_calm assms)
  have s: "solid c (then_ex (when_ex b (touch c key ev)) (k out))" for b ev out
    by (intro view_intros marks_solid assms)
  show ?thesis
    unfolding zpop_def
    by (intro kept_shrink) (auto simp: tidy_value_def zpop_loop_ok s solid_keeps assms intro!: m dest: zpop_loop_moved)
qed

lemma kept_zsets:
  "keeps_view c (cmd_zrem c argv)" "keeps_view c (cmd_zpop c name argv)" "keeps_view c (cmd_zremrangebyscore c argv)"
  "keeps_view c (cmd_zremrangebyrank c argv)" "keeps_view c (cmd_bzpop c mn argv)" "keeps_view c (cmd_zincrby c argv)"
proof -
  show "keeps_view c (cmd_zrem c argv)"
    unfolding cmd_zrem_def Let_def
    by (intro view_intros kept_shrink)
      (auto simp: tidy_value_def zrem_each_ok when_touch(1) intro!: when_touch(2) zrem_each_moved)
  show "keeps_view c (cmd_zpop c name argv)"
    unfolding cmd_zpop_def by (intro view_intros kept_zpop)
  have r: "keeps_view c (zrem_ranked c key ev doomed)" for key ev doomed
    unfolding zrem_ranked_def
    by (intro kept_shrink) (auto simp: tidy_value_def zrem_each_ok when_touch(1) kept_basic intro!: when_touch(2))
  show "keeps_view c (cmd_zremrangebyscore c argv)" "keeps_view c (cmd_zremrangebyrank c argv)"
    unfolding cmd_zremrangebyscore_def cmd_zremrangebyrank_def by (intro view_intros r)+
  have b: "keeps_view c (bzpop_loop c mn keys otherwise)" if "keeps_view c otherwise" for keys otherwise
    by (induction keys) (auto simp: that intro!: kept_parts kept_zpop view_intros)
  show "keeps_view c (cmd_bzpop c mn argv)"
    unfolding cmd_bzpop_def by (intro kept_parts b solid_keeps view_intros)
  have g: "keeps_view c (need_ex (\<not> f_nan x) e (bind_ex (zset_mut c key True (\<lambda>z. (fst (zset_insert m x z), ()))) (\<lambda>u.
           some_ex u syntax_error (\<lambda>_. then_ex (touch c key ev) (pass y)))))" for x e key m ev and y :: reply
    by (intro kept_parts(1) kept_grow marks_touch) (use zset_insert_len in \<open>simp_all add: tidy_value_def zset_insert_ok zset_empty_ok\<close>)
  show "keeps_view c (cmd_zincrby c argv)"
    unfolding cmd_zincrby_def Let_def by (intro kept_parts(3,4,5,7,11) g)
qed

end
