(* ===== verification/Cmd_Kept_Streams.thy ===== *)
theory Cmd_Kept_Streams
  imports Cmd_Kept_Sets
begin

text \<open>
  What the commands on streams and consumer groups owe their keyspace.
\<close>

subsection \<open>Streams\<close>

lemma drop_oldest_groups [simp]: "st_groups (drop_oldest n s) = st_groups s"
  by (induction n arbitrary: s) (simp_all split: option.split)

lemma trim_groups [simp]: "st_groups (fst (trim_apply t s)) = st_groups s"
  by (cases t) (simp_all add: trim_to_def trim_before_def Let_def)

lemma xadd_groups [simp]: "st_groups (xadd_entry i fvs trim s) = st_groups s"
  by (cases trim) (simp_all add: xadd_entry_def Let_def)

lemma xdel_groups [simp]: "st_groups (fst (xdel_each is s)) = st_groups s"
  by (induction "is" s rule: xdel_each.induct) (simp_all add: case_prod_beta)

lemma xdel_moved: "fst (xdel_each is s) \<noteq> s \<Longrightarrow> 0 < snd (xdel_each is s)"
  by (induction "is" s rule: xdel_each.induct) (auto simp: case_prod_beta split: if_splits)

lemma trim_moved: "fst (trim_apply t s) \<noteq> s \<Longrightarrow> 0 < snd (trim_apply t s)"
  by (cases t) (auto simp: trim_to_def trim_before_def Let_def intro: ccontr)

lemma tidy_stream: "tidy_value (V_Stream s) \<longleftrightarrow> (\<forall>grp g. bm_get (st_groups s) grp = Some g \<longrightarrow> group_tidy g)"
  by (simp add: tidy_value_def get_group_def)

lemma kept_xadd: "keeps_view c (cmd_xadd c argv)"
proof -
  have "keeps_view c (bind_ex (stream_mut c key True (\<lambda>s. (xadd_entry i fvs trim s, ()))) (\<lambda>u.
      some_ex u e (\<lambda>_. then_ex (touch c key ev) (pass x))))" for key i fvs trim e ev and x :: reply
    by (intro kept_grow marks_touch) (simp_all add: tidy_stream stream_empty_def)
  note g = this
  show ?thesis
    unfolding cmd_xadd_def Let_def by (intro kept_parts kept_basic g)
qed

lemma kept_xdel: "keeps_view c (cmd_xdel c argv)" "keeps_view c (cmd_xtrim c argv)"
proof -
  have w: "keeps_view c (bind_ex (stream_mut c key False f) (\<lambda>removed. case removed of None \<Rightarrow> pass x
      | Some removed \<Rightarrow> then_ex (when_ex (removed > 0) (touch c key ev)) (pass (r_int removed))))"
    if f: "\<And>s. st_groups (fst (f s)) = st_groups s" "\<And>s. fst (f s) \<noteq> s \<Longrightarrow> 0 < snd (f s)"
    for key f x ev
    by (intro kept_mut settles_tidy)
      (auto simp: tidy_stream f when_touch(1) kept_basic solid_keeps intro!: when_touch(2) f(2))
  show "keeps_view c (cmd_xdel c argv)" "keeps_view c (cmd_xtrim c argv)"
    unfolding cmd_xdel_def cmd_xtrim_def Let_def
    by (intro kept_parts w; simp add: xdel_moved trim_moved)+
qed

lemma set_same: "get_group grp s = Some g \<Longrightarrow> set_group grp g s = s"
proof -
  assume "get_group grp s = Some g"
  then have "bm_insert grp g (st_groups s) = st_groups s" by (intro bm_eqI) (auto simp: get_group_def)
  then show ?thesis by (simp add: set_group_def)
qed

lemma durable_set:
  assumes "get_group grp s = Some g" "durable_group g' = durable_group g"
  shows "durable_stream (set_group grp g' s) = durable_stream s"
proof -
  have "bm_map (\<lambda>_. durable_group) (bm_insert grp g' (st_groups s)) = bm_map (\<lambda>_. durable_group) (st_groups s)"
    using assms by (intro bm_eqI) (auto simp: get_group_def)
  then show ?thesis by (simp add: set_group_def durable_stream_def)
qed

lemma tidy_set: "tidy_value (V_Stream s) \<Longrightarrow> group_tidy g \<Longrightarrow> tidy_value (V_Stream (set_group grp g s))"
  by (simp add: tidy_stream set_group_def)

lemma tidy_group: "tidy_value (V_Stream s) \<Longrightarrow> get_group grp s = Some g \<Longrightarrow> group_tidy g"
  by (simp add: tidy_stream get_group_def)

text \<open>A change of a group: it stays tidy, and what a journal keeps of it changes only with something to journal.\<close>

lemma settles_group:
  assumes "tidy_value (V_Stream s)" "get_group grp s = Some g" "group_tidy g'"
    "keeps_view c n" "durable_group g' \<noteq> durable_group g \<Longrightarrow> marks c n"
  shows "settles c key (V_Stream s) (V_Stream (set_group grp g' s)) n"
proof (rule settles_tidy)
  show "tidy_value (V_Stream (set_group grp g' s))" by (rule tidy_set [OF assms(1,3)])
  show "marks c n" if "durable_value (V_Stream (set_group grp g' s)) \<noteq> durable_value (V_Stream s)"
  proof (rule assms(5))
    show "durable_group g' \<noteq> durable_group g"
    proof
      assume "durable_group g' = durable_group g"
      from durable_set [OF assms(2) this] that show False by (simp only: durable_value.simps simp_thms)
    qed
  qed
qed (rule assms(4))

lemma kept_group:
  assumes "\<And>x s g. first s = Inr x \<Longrightarrow> group_tidy g \<Longrightarrow> group_tidy (fst (f x s g)) \<and> keeps_view c (k (snd (f x s g))) \<and>
      (durable_group (fst (f x s g)) \<noteq> durable_group g \<longrightarrow> marks c (k (snd (f x s g))))"
  shows "keeps_view c (group_mut c key grp command first f k)"
  unfolding group_mut_def
proof (rule kept_mut)
  fix s assume t: "tidy_value (V_Stream s)"
  let ?f = "\<lambda>s. case first s of Inl e \<Rightarrow> (s, Inl e) | Inr x \<Rightarrow> (case get_group grp s of
      None \<Rightarrow> (s, Inl (no_group key grp command)) | Some g \<Rightarrow> (set_group grp (fst (f x s g)) s, Inr (snd (f x s g))))"
  show "settles c key (V_Stream s) (V_Stream (fst (?f s))) (some_ex (Some (snd (?f s))) (no_group key grp command) (\<lambda>out. try_ex out k))"
  proof (cases "first s")
    case (Inl e)
    then show ?thesis using t by (simp add: some_ex_def try_ex_def settles_unchanged kept_basic)
  next
    case (Inr x)
    show ?thesis
    proof (cases "get_group grp s")
      case None
      then show ?thesis using Inr t by (simp add: some_ex_def try_ex_def settles_unchanged kept_basic)
    next
      case (Some g)
      from assms [OF Inr tidy_group [OF t Some]] show ?thesis
        using Inr Some by (auto simp: some_ex_def try_ex_def intro!: settles_group [OF t Some])
    qed
  qed
qed (simp_all add: some_ex_def kept_basic)

text \<open>Acknowledging and claiming.\<close>

lemma ack_consumers [simp]: "grp_consumers (fst (ack_each is g)) = grp_consumers g"
  by (induction "is" g rule: ack_each.induct) (simp_all add: case_prod_beta)

lemma ack_pending: "bm_get (grp_pending (fst (ack_each is g))) i = Some p \<Longrightarrow> bm_get (grp_pending g) i = Some p"
  by (induction "is" g rule: ack_each.induct) (auto simp: case_prod_beta split: if_splits)

lemma ack_moved: "fst (ack_each is g) \<noteq> g \<Longrightarrow> 0 < snd (ack_each is g)"
proof (induction "is" arbitrary: g)
  case (Cons i "is")
  show ?case
  proof (cases "bm_contains (grp_pending g) i")
    case False
    then have "bm_remove i (grp_pending g) = grp_pending g" by (intro bm_eqI) (auto simp: bm_contains_def)
    then show ?thesis using Cons False by (simp add: case_prod_beta)
  qed (simp add: case_prod_beta)
qed simp

lemma kept_xack: "keeps_view c (cmd_xack c argv)"
proof -
  have "keeps_view c (bind_ex (stream_mut c key False (\<lambda>s. case get_group grp s of None \<Rightarrow> (s, None)
         | Some g \<Rightarrow> (set_group grp (fst (ack_each is g)) s, Some (snd (ack_each is g))))) (\<lambda>acked.
     case Option.bind acked id of None \<Rightarrow> pass x | Some n \<Rightarrow> then_ex (when_ex (n > 0) mark_dirty) (pass (r_int n))))"
    for key grp "is" x
  proof (rule kept_mut)
    fix s assume t: "tidy_value (V_Stream s)"
    have m: "marks c (then_ex (when_ex b mark_dirty) (pass x))" if b for b and x :: reply
      using that by (simp add: when_ex_def) (intro marks_then1 view_intros solid_calm)
    have k: "keeps_view c (then_ex (when_ex b mark_dirty) (pass x))" for b and x :: reply
      by (intro solid_keeps view_intros marks_solid)
    let ?f = "\<lambda>s. case get_group grp s of None \<Rightarrow> (s, None)
         | Some g \<Rightarrow> (set_group grp (fst (ack_each is g)) s, Some (snd (ack_each is g)))"
    show "settles c key (V_Stream s) (V_Stream (fst (?f s))) (case Option.bind (Some (snd (?f s))) id of
        None \<Rightarrow> pass x | Some n \<Rightarrow> then_ex (when_ex (n > 0) mark_dirty) (pass (r_int n)))"
    proof (cases "get_group grp s")
      case None
      then show ?thesis using t by (simp add: settles_unchanged kept_basic)
    next
      case (Some g)
      have "group_tidy (fst (ack_each is g))"
        unfolding group_tidy_def ack_consumers
      proof (intro allI impI)
        fix i p assume "bm_get (grp_pending (fst (ack_each is g))) i = Some p"
        from ack_pending [OF this] show "bm_contains (grp_consumers g) (pe_consumer p)"
          using tidy_group [OF t Some] unfolding group_tidy_def by blast
      qed
      note tg = this
      have e: "?f s = (set_group grp (fst (ack_each is g)) s, Some (snd (ack_each is g)))" using Some by simp
      have a: "0 < snd (ack_each is g)" if "durable_group (fst (ack_each is g)) \<noteq> durable_group g"
        using that by (intro ack_moved) auto
      show ?thesis
        unfolding e fst_conv snd_conv Option.bind.simps id_apply option.case
        by (rule settles_group [OF t Some tg k m]) (rule a)
    qed
  qed (simp_all add: kept_basic)
  note a = this
  show ?thesis unfolding cmd_xack_def Let_def by (intro kept_parts a)
qed

text \<open>Claiming: whose the pending entries are afterwards, and that nothing changed where nothing is said.\<close>

definition owned :: "str \<Rightarrow> bool \<Rightarrow> (id, pending_entry) btree_map \<Rightarrow> (id, pending_entry) btree_map \<Rightarrow> bool" where
  "owned name took ps ps' \<longleftrightarrow> (\<forall>i p. bm_get ps' i = Some p \<longrightarrow> bm_get ps i = Some p \<or> (pe_consumer p = name \<and> took))"

lemma owned_refl: "owned name took ps ps"
  by (simp add: owned_def)

lemma owned_step:
  "owned name took (bm_insert i p ps) ps' \<Longrightarrow> pe_consumer p = name \<Longrightarrow> owned name True ps ps'"
  "owned name took (bm_remove i ps) ps' \<Longrightarrow> owned name took ps ps'"
  by (fastforce simp: owned_def split: if_splits)+

lemma insert_twice: "bm_insert i p (bm_insert i q ps) = bm_insert i p ps"
  by (rule bm_eqI) simp

lemma claim_one:
  fixes name now min_idle cl es
  defines "loop \<equiv> claim_loop name now min_idle cl es"
  obtains "loop (i # is) ps = loop is ps"
  | p x where "pe_consumer p = name" "loop (i # is) ps =
      (let (ps, out, lost) = loop is (bm_insert i p ps) in (ps, x # out, lost))"
  | "loop (i # is) ps = (let (ps, out, lost) = loop is (bm_remove i ps) in (ps, out, True))"
proof -
  define here where "here = bm_contains ps i"
  define ps1 where "ps1 = (if here then ps else bm_insert i \<lparr>pe_consumer = name, pe_delivered = cl_delivered cl, pe_count = 0\<rparr> ps)"
  have l: "loop (i # is) ps = (if \<not> here \<and> \<not> (cl_force cl \<and> bm_contains es i) then loop is ps
      else (case (bm_get es i, bm_get ps1 i) of
              (Some fvs, Some p) \<Rightarrow>
                if sat_sub now (pe_delivered p) < min_idle \<and> pe_count p > 0 then loop is ps1
                else (let (ps, out, lost) = loop is (bm_insert i \<lparr>pe_consumer = name, pe_delivered = cl_delivered cl,
                           pe_count = (case cl_retry cl of Some n \<Rightarrow> n | None \<Rightarrow> pe_count p + (if cl_justid cl then 0 else 1))\<rparr> ps1)
                   in (ps, claim_reply (cl_justid cl) i fvs # out, lost))
            | _ \<Rightarrow> (let (ps, out, lost) = loop is (bm_remove i ps1) in (ps, out, True))))"
    unfolding loop_def here_def ps1_def claim_loop.simps Let_def ..
  show ?thesis
  proof (cases "\<not> here \<and> \<not> (cl_force cl \<and> bm_contains es i)")
    case True
    then show ?thesis by (intro that(1)) (simp only: l simp_thms if_True)
  next
    case False
    have gone: "bm_remove i ps1 = bm_remove i ps" by (rule bm_eqI) (simp add: ps1_def)
    have l2: "loop (i # is) ps = (case (bm_get es i, bm_get ps1 i) of
              (Some fvs, Some p) \<Rightarrow>
                if sat_sub now (pe_delivered p) < min_idle \<and> pe_count p > 0 then loop is ps1
                else (let (ps, out, lost) = loop is (bm_insert i \<lparr>pe_consumer = name, pe_delivered = cl_delivered cl,
                           pe_count = (case cl_retry cl of Some n \<Rightarrow> n | None \<Rightarrow> pe_count p + (if cl_justid cl then 0 else 1))\<rparr> ps1)
                   in (ps, claim_reply (cl_justid cl) i fvs # out, lost))
            | _ \<Rightarrow> (let (ps, out, lost) = loop is (bm_remove i ps) in (ps, out, True)))"
      unfolding l if_not_P [OF False] gone ..
    show ?thesis
    proof (cases "bm_get es i = None \<or> bm_get ps1 i = None")
      case True
      then show ?thesis by (intro that(3)) (auto simp only: l2 prod.case option.case split: option.splits)
    next
      case no: False
      then obtain fvs p where e: "bm_get es i = Some fvs" "bm_get ps1 i = Some p" by auto
      have c: "ps1 = ps" if "pe_count p > 0" using e(2) that by (auto simp: ps1_def split: if_splits)
      have t: "bm_insert i q ps1 = bm_insert i q ps" for q by (simp add: ps1_def insert_twice)
      show ?thesis
      proof (cases "sat_sub now (pe_delivered p) < min_idle \<and> pe_count p > 0")
        case True
        then have "loop (i # is) ps = loop is ps1" by (simp only: l2 e prod.case option.case if_True simp_thms)
        moreover have "ps1 = ps" using True c by blast
        ultimately show ?thesis by (intro that(1)) (simp only:)
      next
        case False
        show ?thesis
          by (rule that(2) [of "\<lparr>pe_consumer = name, pe_delivered = cl_delivered cl,
                           pe_count = (case cl_retry cl of Some n \<Rightarrow> n | None \<Rightarrow> pe_count p + (if cl_justid cl then 0 else 1))\<rparr>"
                "claim_reply (cl_justid cl) i fvs"])
            (simp, simp only: l2 e t prod.case option.case if_not_P [OF False])
      qed
    qed
  qed
qed

declare claim_loop.simps(2) [simp del]

lemma claim_loop_owned:
  "owned name (fst (snd (claim_loop name now min_idle cl es is ps)) \<noteq> []) ps (fst (claim_loop name now min_idle cl es is ps))"
proof (induction "is" arbitrary: ps)
  case (Cons i "is")
  show ?case
  proof (rule claim_one [of name now min_idle cl es i "is" ps])
    fix p x assume p: "pe_consumer p = name" "claim_loop name now min_idle cl es (i # is) ps =
      (let (ps, out, lost) = claim_loop name now min_idle cl es is (bm_insert i p ps) in (ps, x # out, lost))"
    show ?thesis using owned_step(1) [OF Cons [of "bm_insert i p ps"] p(1)] by (simp add: p(2) case_prod_beta Let_def)
  next
    assume "claim_loop name now min_idle cl es (i # is) ps =
      (let (ps, out, lost) = claim_loop name now min_idle cl es is (bm_remove i ps) in (ps, out, True))"
    then show ?thesis using owned_step(2) [OF Cons [of "bm_remove i ps"]] by (simp add: case_prod_beta Let_def)
  qed (use Cons in simp)
qed (simp add: owned_def)

lemma claim_loop_same:
  "fst (snd (claim_loop name now min_idle cl es is ps)) = [] \<Longrightarrow> \<not> snd (snd (claim_loop name now min_idle cl es is ps)) \<Longrightarrow>
   fst (claim_loop name now min_idle cl es is ps) = ps"
proof (induction "is" arbitrary: ps)
  case (Cons i "is")
  show ?case
    by (rule claim_one [of name now min_idle cl es i "is" ps]) (use Cons in \<open>auto simp: case_prod_beta Let_def\<close>)
qed simp

lemma autoclaim_owned:
  "owned name (fst (snd (autoclaim_loop name now min_idle justid es is ps)) \<noteq> []) ps
     (fst (autoclaim_loop name now min_idle justid es is ps))"
proof (induction "is" arbitrary: ps)
  case (Cons i "is")
  show ?case
    using Cons [of ps] owned_step(1) [OF Cons] owned_step(2) [OF Cons]
    by (auto simp: case_prod_beta Let_def split: option.split)
qed (simp add: owned_def)

lemma autoclaim_same:
  "fst (snd (autoclaim_loop name now min_idle justid es is ps)) = [] \<Longrightarrow>
   snd (snd (autoclaim_loop name now min_idle justid es is ps)) = [] \<Longrightarrow>
   fst (autoclaim_loop name now min_idle justid es is ps) = ps"
proof (induction "is" arbitrary: ps)
  case (Cons i "is")
  then show ?case by (auto simp: case_prod_beta Let_def split: option.splits if_splits)
qed simp

lemma claimed_tidy:
  assumes "group_tidy g" "owned name took (grp_pending g) ps" "took \<Longrightarrow> seen"
  shows "group_tidy (if seen then see_consumer name now (g\<lparr>grp_pending := ps\<rparr>) else g\<lparr>grp_pending := ps\<rparr>)"
proof -
  have p: "grp_pending (if seen then see_consumer name now (g\<lparr>grp_pending := ps\<rparr>) else g\<lparr>grp_pending := ps\<rparr>) = ps"
    by (simp add: see_consumer_def)
  have c: "bm_contains (grp_consumers (if seen then see_consumer name now (g\<lparr>grp_pending := ps\<rparr>) else g\<lparr>grp_pending := ps\<rparr>)) n \<longleftrightarrow>
      (n = name \<and> seen) \<or> bm_contains (grp_consumers g) n" for n
    by (auto simp: see_consumer_def)
  show ?thesis unfolding group_tidy_def p c using assms unfolding group_tidy_def owned_def by blast
qed

lemma kept_claims: "keeps_view c (cmd_xclaim c argv)" "keeps_view c (cmd_xautoclaim c argv)"
proof -
  have k: "keeps_view c (then_ex (when_ex b mark_dirty) (pass x))" for b and x :: reply
    by (intro solid_keeps view_intros marks_solid)
  have m: "marks c (then_ex (when_ex b mark_dirty) (pass x))" if b for b and x :: reply
    using that by (simp add: when_ex_def) (intro marks_then1 view_intros solid_calm)
  show "keeps_view c (cmd_xclaim c argv)"
    unfolding cmd_xclaim_def Let_def
  proof (intro kept_parts kept_group)
    fix min_idle cl "is" and s :: stream and g assume t: "group_tidy g"
    let ?l = "claim_loop (argv ! 3) (cx_now c) (of_nat min_idle) cl (st_entries s) is (grp_pending g)"
    let ?r = "claim (argv ! 3) (cx_now c) (of_nat min_idle) cl is s g"
    have r: "?r = (if fst (snd ?l) \<noteq> [] then see_consumer (argv ! 3) (cx_now c) (g\<lparr>grp_pending := fst ?l\<rparr>)
        else g\<lparr>grp_pending := fst ?l\<rparr>, fst (snd ?l), snd (snd ?l) \<or> fst (snd ?l) \<noteq> [])"
      by (simp add: claim_def Let_def case_prod_beta)
    have o: "owned (argv ! 3) (fst (snd ?l) \<noteq> []) (grp_pending g) (fst ?l)" by (rule claim_loop_owned)
    have gt: "group_tidy (fst ?r)" unfolding r fst_conv by (rule claimed_tidy [OF t o])
    have same: "fst ?r = g" if "\<not> snd (snd ?r)"
      using that claim_loop_same [of "argv ! 3" "cx_now c" "of_nat min_idle" cl "st_entries s" "is" "grp_pending g"] unfolding r by simp
    show "group_tidy (fst ?r) \<and> keeps_view c (case snd ?r of (out, ch) \<Rightarrow> then_ex (when_ex ch mark_dirty) (pass (R_Array out))) \<and>
        (durable_group (fst ?r) \<noteq> durable_group g \<longrightarrow> marks c (case snd ?r of (out, ch) \<Rightarrow> then_ex (when_ex ch mark_dirty) (pass (R_Array out))))"
      unfolding case_prod_beta using gt k m same by metis
  qed
  show "keeps_view c (cmd_xautoclaim c argv)"
    unfolding cmd_xautoclaim_def Let_def
  proof (intro kept_parts kept_group)
    fix min_idle start limit justid and s :: stream and g assume t: "group_tidy g"
    let ?is = "map fst (take limit (bm_from start (grp_pending g)))"
    let ?l = "autoclaim_loop (argv ! 3) (cx_now c) (of_nat min_idle) justid (st_entries s) ?is (grp_pending g)"
    let ?r = "autoclaim (argv ! 3) (cx_now c) (of_nat min_idle) start limit justid s g"
    have r: "fst ?r = (if fst (snd ?l) \<noteq> [] \<or> snd (snd ?l) \<noteq> [] then see_consumer (argv ! 3) (cx_now c) (g\<lparr>grp_pending := fst ?l\<rparr>)
        else g\<lparr>grp_pending := fst ?l\<rparr>)" "fst (snd (snd ?r)) = fst (snd ?l)" "snd (snd (snd ?r)) = snd (snd ?l)"
      by (simp_all add: autoclaim_def Let_def case_prod_beta)
    have o: "owned (argv ! 3) (fst (snd ?l) \<noteq> []) (grp_pending g) (fst ?l)" by (rule autoclaim_owned)
    have gt: "group_tidy (fst ?r)" unfolding r by (rule claimed_tidy [OF t o]) simp
    have same: "fst ?r = g" if "\<not> (fst (snd (snd ?r)) \<noteq> [] \<or> snd (snd (snd ?r)) \<noteq> [])"
      using that autoclaim_same [of "argv ! 3" "cx_now c" "of_nat min_idle" justid "st_entries s" ?is "grp_pending g"] unfolding r by simp
    show "group_tidy (fst ?r) \<and> keeps_view c (case snd ?r of (nxt, claimed, deleted) \<Rightarrow>
          then_ex (when_ex (claimed \<noteq> [] \<or> deleted \<noteq> []) mark_dirty) (pass (R_Array [R_Bulk (id_to_string nxt), R_Array claimed, R_Array deleted]))) \<and>
        (durable_group (fst ?r) \<noteq> durable_group g \<longrightarrow> marks c (case snd ?r of (nxt, claimed, deleted) \<Rightarrow>
          then_ex (when_ex (claimed \<noteq> [] \<or> deleted \<noteq> []) mark_dirty) (pass (R_Array [R_Bulk (id_to_string nxt), R_Array claimed, R_Array deleted]))))"
      unfolding case_prod_beta using gt k m same by metis
  qed
qed

subsection \<open>Groups\<close>

lemma delete_tidy:
  assumes "group_tidy g"
  shows "group_tidy (fst (delete_consumer name g))" "\<not> snd (snd (delete_consumer name g)) \<Longrightarrow> fst (delete_consumer name g) = g"
proof -
  show "group_tidy (fst (delete_consumer name g))"
    using assms by (auto simp: group_tidy_def delete_consumer_def Let_def split: if_splits option.splits)
  assume n: "\<not> snd (snd (delete_consumer name g))"
  then have c: "bm_get (grp_consumers g) name = None" by (simp add: delete_consumer_def Let_def bm_contains_def)
  have "bm_filter (\<lambda>_ p. pe_consumer p \<noteq> name) (grp_pending g) = grp_pending g"
  proof (rule bm_eqI)
    fix i show "bm_get (bm_filter (\<lambda>_ p. pe_consumer p \<noteq> name) (grp_pending g)) i = bm_get (grp_pending g) i"
      using assms c by (cases "bm_get (grp_pending g) i") (fastforce simp: group_tidy_def bm_contains_def)+
  qed
  moreover have "bm_remove name (grp_consumers g) = grp_consumers g" by (rule bm_eqI) (simp add: c)
  ultimately show "fst (delete_consumer name g) = g" by (simp add: delete_consumer_def Let_def)
qed

lemma tidy_new_group: "group_tidy (group_default\<lparr>grp_last_delivered := i\<rparr>)"
  by (simp add: group_tidy_def group_default_def)

lemma kept_create: "keeps_view c (xgroup_create c argv)"
proof -
  define key grp a where "key = argv ! 2" and "grp = argv ! 3" and "a = argv ! 4"
  let ?f = "\<lambda>s. if bm_contains (st_groups s) grp then (s, Inl ''BUSYGROUP Consumer Group name already exists'')
               else (case resolve_id a s of Inl e \<Rightarrow> (s, Inl e)
                     | Inr i \<Rightarrow> (set_group grp (group_default\<lparr>grp_last_delivered := i\<rparr>) s, Inr ()))"
  let ?k = "\<lambda>out. some_ex out syntax_error (\<lambda>out. try_ex out (\<lambda>_. then_ex (touch c key ''xgroup-create'') (pass r_ok)))"
  have go: "keeps_view c (bind_ex (stream_mut c key False ?f) ?k)"
  proof (rule kept_mut)
    fix s assume t: "tidy_value (V_Stream s)"
    show "settles c key (V_Stream s) (V_Stream (fst (?f s))) (?k (Some (snd (?f s))))"
    proof (cases "bm_contains (st_groups s) grp \<or> isl (resolve_id a s)")
      case True
      then show ?thesis using t
        by (auto simp: some_ex_def try_ex_def kept_basic isl_def intro!: settles_unchanged)
    next
      case False
      then obtain i where "resolve_id a s = Inr i" by (cases "resolve_id a s") auto
      then show ?thesis using False t
        by (auto simp: some_ex_def try_ex_def tidy_set tidy_new_group marks_touch solid_keeps [OF marks_solid [OF marks_touch]] intro!: settles_tidy)
    qed
  qed (simp_all add: some_ex_def kept_basic)
  have new: "keeps_at c s (bind_ex (stream_mut c key True (\<lambda>s. (s, ()))) (\<lambda>_. bind_ex (stream_mut c key False ?f) ?k))"
    if n: "db_get key (cx_now c) (ex_db s) = None" and i: "resolve_id a stream_empty = Inr i" for s i
  proof (rule kept_untidy)
    assume td: "tidy (cx_now c) (ex_db s)"
    show "keeps_at c s (bind_ex (stream_mut c key True (\<lambda>s. (s, ()))) (\<lambda>_. bind_ex (stream_mut c key False ?f) ?k))"
    proof (rule new_runs [of as_stream V_Stream key c s stream_empty "\<lambda>s. (s, ())", OF _ n])
      fix e assume "stream_mut c key True (\<lambda>s. (s, ())) s = (s, Inl (Failed e))"
      then show ?thesis by (simp add: keeps_at_def bind_ex_def good_refl)
    next
      fix u assume u: "stream_mut c key True (\<lambda>s. (s, ())) s = (u, Inr (Some (snd (stream_empty, ()))))"
        "\<And>k. db_get k (cx_now c) (ex_db u) = (if k = key then Some (entry_new (V_Stream (fst (stream_empty, ())))) else db_get k (cx_now c) (ex_db s))"
      let ?g = "group_default\<lparr>grp_last_delivered := i\<rparr>"
      have e: "db_get key (cx_now c) (ex_db u) = Some (entry_new (V_Stream stream_empty))" using u(2) by simp
      have p: "as_stream (ent_value (entry_new (V_Stream stream_empty))) = Some stream_empty" by (simp add: entry_new_def)
      have f: "?f stream_empty = (set_group grp ?g stream_empty, Inr ())" using i by (simp add: stream_empty_def)
      obtain w where w: "stream_mut c key False ?f u = (w, Inr (Some (Inr ())))"
        "\<And>k. db_get k (cx_now c) (ex_db w) = (if k = key then Some ((entry_new (V_Stream stream_empty))\<lparr>ent_value := V_Stream (set_group grp ?g stream_empty)\<rparr>)
            else db_get k (cx_now c) (ex_db u))"
        using mut_runs [where prj = as_stream and mk = V_Stream, OF e p, of stream_empty False ?f] unfolding f fst_conv snd_conv by blast
      have sg: "tidy_value (V_Stream (set_group grp ?g stream_empty))"
        by (rule tidy_set [OF _ tidy_new_group]) (simp add: tidy_stream stream_empty_def)
      have tw: "tidy (cx_now c) (ex_db w)"
        unfolding tidy_def w(2) u(2) using td sg by (auto simp: tidy_def split: if_splits)
      have b1: "bind_ex (stream_mut c key True (\<lambda>s. (s, ()))) k s = k (Some ()) u" for k :: "unit option \<Rightarrow> reply exec"
        by (rule bind_run) (use u(1) in simp)
      have b2: "bind_ex (stream_mut c key False ?f) k u = k (Some (Inr ())) w" for k :: "(str + unit) option \<Rightarrow> reply exec"
        using w(1) by (rule bind_run)
      show ?thesis
        unfolding keeps_at_def b1 b2 some_ex_def try_ex_def option.case sum.case
        by (intro allI impI) (rule marks_good [OF marks_touch tw])
    qed simp
  qed
  have "keeps_view c (ref_ex c as_stream key (\<lambda>s. if s = None then need_ex mk needs_key (bind_ex (stream_mut c key True (\<lambda>s. (s, ()))) (\<lambda>_. bind_ex (stream_mut c key False ?f) ?k))
     else bind_ex (stream_mut c key False ?f) ?k))"
    if "(if a \<noteq> ''$'' then id_arg a 0 else Inr id_default) = Inr i" for i mk
  proof (rule kept_ref [where mk = V_Stream])
    fix s :: ex assume n: "db_get key (cx_now c) (ex_db s) = None"
    have "\<exists>i. resolve_id a stream_empty = Inr i" using that by (auto simp: resolve_id_def split: if_splits)
    then show "keeps_at c s (if None = None then need_ex mk needs_key (bind_ex (stream_mut c key True (\<lambda>s. (s, ()))) (\<lambda>_. bind_ex (stream_mut c key False ?f) ?k))
        else bind_ex (stream_mut c key False ?f) ?k)"
      using new [OF n] by (auto intro: kept_at_parts)
  qed (use kept_atD [OF go] in simp_all)
  note r = this
  show ?thesis
    unfolding xgroup_create_def Let_def key_def [symmetric] grp_def [symmetric] a_def [symmetric]
    by (intro kept_parts(2,5) r)
qed

lemma kept_xgroup: "keeps_view c (cmd_xgroup c argv)"
proof -
  have w: "keeps_view c (then_ex (when_ex b (touch c key ev)) (pass x))" for b key ev and x :: reply
    by (rule solid_keeps [OF when_touch(1)])
  have setid: "keeps_view c (xgroup_setid c argv)"
    unfolding xgroup_setid_def Let_def
    by (intro kept_parts(2) kept_group)
      (auto simp: group_tidy_def marks_touch intro: solid_keeps [OF marks_solid [OF marks_touch]])
  have destroy: "keeps_view c (xgroup_destroy c argv)"
  proof -
    have "bm_remove grp m = m" if "\<not> bm_contains m grp" for m :: "(str, group) btree_map" and grp
      using that by (intro bm_eqI) auto
    then have same: "s\<lparr>st_groups := bm_remove grp (st_groups s)\<rparr> = s" if "\<not> bm_contains (st_groups s) grp" for s :: stream and grp
      using that by simp
    show ?thesis
      unfolding xgroup_destroy_def Let_def
    proof (rule kept_mut)
      fix s assume t: "tidy_value (V_Stream s)"
      let ?s = "s\<lparr>st_groups := bm_remove (argv ! 3) (st_groups s)\<rparr>"
      show "settles c (argv ! 2) (V_Stream s) (V_Stream (fst (?s, bm_contains (st_groups s) (argv ! 3))))
          (case Some (snd (?s, bm_contains (st_groups s) (argv ! 3))) of None \<Rightarrow> pass (R_Int 0)
           | Some removed \<Rightarrow> then_ex (when_ex removed (touch c (argv ! 2) ''xgroup-destroy'')) (pass (r_bool removed)))"
        unfolding option.case fst_conv snd_conv
      proof (rule settles_tidy)
        show "tidy_value (V_Stream ?s)" using t by (auto simp: tidy_stream split: if_splits)
        show "marks c (then_ex (when_ex (bm_contains (st_groups s) (argv ! 3)) (touch c (argv ! 2) ''xgroup-destroy'')) (pass (r_bool (bm_contains (st_groups s) (argv ! 3)))))"
          if "durable_value (V_Stream ?s) \<noteq> durable_value (V_Stream s)"
          by (rule when_touch(2)) (use that same [of s "argv ! 3"] in metis)
      qed (rule w)
    qed (simp_all add: kept_basic)
  qed
  have made: "keeps_view c (xgroup_consumer c True argv)"
    unfolding xgroup_consumer_def Let_def if_True
    by (intro kept_parts(3) kept_group)
      (auto simp: create_consumer_def group_tidy_def marks_touch kept_basic intro: solid_keeps [OF marks_solid [OF marks_touch]])
  have gone: "keeps_view c (xgroup_consumer c False argv)"
    unfolding xgroup_consumer_def Let_def if_False
  proof (intro kept_parts(3) kept_group)
    fix s :: stream and g assume t: "group_tidy g"
    let ?r = "delete_consumer (argv ! 4) g"
    show "group_tidy (fst ?r) \<and>
        keeps_view c (case snd ?r of (dropped, there) \<Rightarrow> then_ex (when_ex there (touch c (argv ! 2) ''xgroup-delconsumer'')) (pass (r_int dropped))) \<and>
        (durable_group (fst ?r) \<noteq> durable_group g \<longrightarrow>
          marks c (case snd ?r of (dropped, there) \<Rightarrow> then_ex (when_ex there (touch c (argv ! 2) ''xgroup-delconsumer'')) (pass (r_int dropped))))"
      unfolding case_prod_beta using delete_tidy [OF t, of "argv ! 4"] w when_touch(2) by metis
  qed
  show ?thesis
    unfolding cmd_xgroup_def Let_def by (intro kept_parts kept_basic kept_create setid destroy made gone)
qed

subsection \<open>Reading as a group\<close>

text \<open>What the check before it leaves the reading of the streams with: each has the group, and each id is one.\<close>

definition ready :: "ctx \<Rightarrow> str \<Rightarrow> (str \<times> str) list \<Rightarrow> db \<Rightarrow> bool" where
  "ready c grp ks d \<longleftrightarrow> (\<forall>(key, i) \<in> set ks. (i = ''>'' \<or> (\<exists>j. id_arg i 0 = Inr j)) \<and>
     (\<exists>e s g. db_get key (cx_now c) d = Some e \<and> ent_value e = V_Stream s \<and> get_group grp s = Some g))"

lemma kept_check:
  fixes m :: "reply exec"
  assumes "\<And>s. ready c grp ks (ex_db s) \<Longrightarrow> keeps_at c s m"
  shows "keeps_view c (xreadgroup_check c grp name limit ks named bytes m)"
proof -
  have "keeps_at c s (xreadgroup_check c grp name limit ks named bytes m)"
    if "ready c grp ks (ex_db s) \<Longrightarrow> keeps_at c s m" for s ks named bytes and m :: "reply exec"
    using that
  proof (induction ks arbitrary: named bytes m)
    case Nil
    then show ?case by (simp add: ready_def)
  next
    case (Cons p ks)
    obtain key i where p: "p = (key, i)" by fastforce
    show ?case unfolding p xreadgroup_check.simps
    proof (intro kept_at_parts kept_at_ref [where mk = V_Stream])
      fix e s' assume e: "db_get key (cx_now c) (ex_db s) = Some e" "ent_value e = V_Stream s'"
      show "keeps_at c s (some_ex (Option.bind (Some s') (\<lambda>s. map_option (Pair (st_entries s)) (get_group grp s)))
          (no_group key grp ''XREADGROUP'') (\<lambda>(es, g).
          try_ex (if i = ''>'' then Inr bytes else bind_sum (id_arg i 0) (\<lambda>after. history_size es (pending_of name after limit g) bytes))
            (\<lambda>bytes. xreadgroup_check c grp name limit ks (named @ [key]) bytes m)))"
      proof (cases "get_group grp s'")
        case None
        then show ?thesis by (simp add: some_ex_def kept_at_pass)
      next
        case (Some g)
        have "keeps_at c s (try_ex (if i = ''>'' then Inr bytes else bind_sum (id_arg i 0) (\<lambda>after. history_size (st_entries s') (pending_of name after limit g) bytes))
            (\<lambda>bytes. xreadgroup_check c grp name limit ks (named @ [key]) bytes m))"
        proof (rule kept_at_parts(3))
          fix b assume b: "(if i = ''>'' then Inr bytes else bind_sum (id_arg i 0) (\<lambda>after. history_size (st_entries s') (pending_of name after limit g) bytes)) = Inr b"
          show "keeps_at c s (xreadgroup_check c grp name limit ks (named @ [key]) b m)"
          proof (rule Cons.IH)
            assume r: "ready c grp ks (ex_db s)"
            have "i = ''>'' \<or> (\<exists>j. id_arg i 0 = Inr j)"
              using b by (cases "id_arg i 0") (auto simp: bind_sum_def split: if_splits)
            then have "ready c grp (p # ks) (ex_db s)"
              using r e Some unfolding ready_def p by auto
            then show "keeps_at c s m" by (rule Cons.prems)
          qed
        qed
        then show ?thesis using Some by (simp add: some_ex_def)
      qed
    qed (simp_all add: some_ex_def kept_at_pass)
  qed
  note a = this
  show ?thesis by (intro kept_atI a assms)
qed


text \<open>What reading does to a group.\<close>

lemma deliver_each:
  "grp_consumers (fold (deliver_one name now noack) is g) = grp_consumers g"
  "bm_get (grp_pending (fold (deliver_one name now noack) is g)) i = Some p \<Longrightarrow>
   bm_get (grp_pending g) i = Some p \<or> pe_consumer p = name"
proof -
  show "grp_consumers (fold (deliver_one name now noack) is g) = grp_consumers g"
    by (induction "is" arbitrary: g) (simp_all add: deliver_one_def)
  show "bm_get (grp_pending (fold (deliver_one name now noack) is g)) i = Some p \<Longrightarrow>
   bm_get (grp_pending g) i = Some p \<or> pe_consumer p = name"
  proof (induction "is" arbitrary: g)
    case (Cons j "is")
    from Cons.IH [of "deliver_one name now noack j g"] Cons.prems show ?case
      by (auto simp: deliver_one_def split: if_splits)
  qed simp
qed

lemma read_tidy: "group_tidy g \<Longrightarrow> group_tidy (fst (read_group name now limit noack h s g))"
proof (cases h)
  case None
  assume t: "group_tidy g"
  define seat where "seat = (case bm_get (grp_consumers g) name of Some seat \<Rightarrow> seat | None \<Rightarrow> consumer_default)\<lparr>con_seen := now\<rparr>"
  define fresh where "fresh = map fst (take limit (bm_after (grp_last_delivered g) (st_entries s)))"
  have r: "fst (read_group name now limit noack h s g) = fold (deliver_one name now noack) fresh
      (g\<lparr>grp_consumers := bm_insert name (if fresh \<noteq> [] then seat\<lparr>con_active := Some now\<rparr> else seat) (grp_consumers g)\<rparr>)"
    using None by (simp add: read_group_def Let_def seat_def fresh_def)
  show ?thesis
    unfolding group_tidy_def r deliver_each(1)
  proof (intro allI impI)
    fix i p assume "bm_get (grp_pending (fold (deliver_one name now noack) fresh
      (g\<lparr>grp_consumers := bm_insert name (if fresh \<noteq> [] then seat\<lparr>con_active := Some now\<rparr> else seat) (grp_consumers g)\<rparr>))) i = Some p"
    from deliver_each(2) [OF this] t
    show "bm_contains (grp_consumers (g\<lparr>grp_consumers := bm_insert name (if fresh \<noteq> [] then seat\<lparr>con_active := Some now\<rparr> else seat) (grp_consumers g)\<rparr>)) (pe_consumer p)"
      by (auto simp: group_tidy_def)
  qed
next
  case (Some a)
  then show "group_tidy g \<Longrightarrow> ?thesis" by (auto simp: read_group_def Let_def group_tidy_def)
qed

lemma read_same:
  assumes "read_group name now limit noack h s g = (g', created, items)" "\<not> created" "h \<noteq> None \<or> items = []"
  shows "durable_group g' = durable_group g"
proof -
  obtain k where k: "bm_get (grp_consumers g) name = Some k"
    using assms(1,2) by (auto simp: read_group_def Let_def split: option.splits)
  define fresh where "fresh = map fst (take limit (bm_after (grp_last_delivered g) (st_entries s)))"
  have "g' = g\<lparr>grp_consumers := bm_insert name (k\<lparr>con_seen := now\<rparr>) (grp_consumers g)\<rparr>"
  proof (cases h)
    case None
    then have "fresh = []" using assms(1,3) by (simp add: read_group_def Let_def fresh_def)
    then show ?thesis using assms(1) None k by (auto simp: read_group_def Let_def fresh_def)
  qed (use assms(1) k in \<open>simp add: read_group_def Let_def\<close>)
  moreover have "bm_map (\<lambda>_. durable_consumer) (bm_insert name (k\<lparr>con_seen := now\<rparr>) (grp_consumers g)) =
      bm_map (\<lambda>_. durable_consumer) (grp_consumers g)"
    by (rule bm_eqI) (simp add: k durable_consumer_def)
  ultimately show ?thesis by (simp add: durable_group_def)
qed

lemma durable_changed: "durable_value v = durable_value (ent_value e) \<Longrightarrow> durable (e\<lparr>ent_value := v\<rparr>) = durable e"
  by (rule durable_eqI) simp_all

lemma then_run: "m s = (u, Inr x) \<Longrightarrow> then_ex m n s = n u"
  by (simp add: then_ex_def bind_ex_def)

lemma good_trans:
  assumes "good c s u (Inr x)" "good c u t r" "\<not> isl r"
  shows "good c s t r"
  using assms agree_trans unfolding good_def by fastforce

lemma read_loop_runs:
  assumes k: "\<And>out new. solid c (k out new)"
  shows "ready c grp ks (ex_db s) \<Longrightarrow> tidy (cx_now c) (ex_db s) \<Longrightarrow>
    xreadgroup_loop c grp name limit noack ks out new k s = (t, r) \<Longrightarrow> good c s t r \<and> \<not> isl r"
proof (induction ks arbitrary: s out new)
  case Nil
  then show ?case using k [of out new] kept_mut unfolding solid_def keeps_view_def by auto
next
  case (Cons p ks)
  obtain key i where p: "p = (key, i)" by fastforce
  obtain e st g where e: "db_get key (cx_now c) (ex_db s) = Some e" "ent_value e = V_Stream st" "get_group grp st = Some g"
    and i: "i = ''>'' \<or> (\<exists>j. id_arg i 0 = Inr j)" using Cons.prems(1) unfolding ready_def p by auto
  have "\<exists>h. (if i = ''>'' then Inr None else bind_sum (id_arg i 0) (\<lambda>i. Inr (Some i))) = Inr h"
    using i by (auto simp: bind_sum_def)
  then obtain h where h: "(if i = ''>'' then Inr None else bind_sum (id_arg i 0) (\<lambda>i. Inr (Some i))) = Inr h" by blast
  let ?f = "\<lambda>s. case get_group grp s of None \<Rightarrow> (s, None)
         | Some g \<Rightarrow> (let (g', res) = read_group name (cx_now c) limit noack h s g in (set_group grp g' s, Some res))"
  obtain g' created items where r: "read_group name (cx_now c) limit noack h st g = (g', created, items)" by (metis prod_cases3)
  have f: "?f st = (set_group grp g' st, Some (created, items))" using e(3) r by simp
  have a: "as_stream (ent_value e) = Some st" using e(2) by simp
  obtain u where u: "stream_mut c key False ?f s = (u, Inr (Some (Some (created, items))))" "ex_dirty u = ex_dirty s" and
    gu: "\<And>k. db_get k (cx_now c) (ex_db u) = (if k = key then Some (e\<lparr>ent_value := V_Stream (set_group grp g' st)\<rparr>) else db_get k (cx_now c) (ex_db s))"
    using mut_runs [where prj = as_stream and mk = V_Stream, OF e(1) a, of stream_empty False ?f] unfolding f fst_conv snd_conv by blast
  let ?dirty = "created \<or> (items \<noteq> [] \<and> h = None)"
  let ?u = "if ?dirty then u\<lparr>ex_dirty := True\<rparr> else u"
  have ts: "tidy_value (V_Stream st)" using tidyD [OF Cons.prems(2) e(1)] e(2) by simp
  have "group_tidy g'" using read_tidy [OF tidy_group [OF ts e(3)], of name "cx_now c" limit noack h st] r by simp
  then have tg: "tidy_value (V_Stream (set_group grp g' st))" by (rule tidy_set [OF ts])
  have tu: "tidy (cx_now c) (ex_db ?u)"
    using Cons.prems(2) tg unfolding tidy_def by (auto simp: gu split: if_splits)
  have "agree (cx_now c) (ex_db s) (ex_db u)" if "\<not> ?dirty"
  proof -
    have "durable_group g' = durable_group g" by (rule read_same [OF r]) (use that in auto)
    then have "durable_stream (set_group grp g' st) = durable_stream st" by (rule durable_set [OF e(3)])
    then have "durable (e\<lparr>ent_value := V_Stream (set_group grp g' st)\<rparr>) = durable e"
      by (intro durable_changed) (simp only: e(2) durable_value.simps)
    then show ?thesis using e(1) by (simp add: agree_def gu)
  qed
  then have gd: "good c s ?u (Inr ())" using tu u(2) by (auto simp: good_def)
  have rd: "ready c grp ks (ex_db ?u)"
    unfolding ready_def
  proof (intro ballI, clarify)
    fix key' i' assume m: "(key', i') \<in> set ks"
    have q: "(i' = ''>'' \<or> (\<exists>j. id_arg i' 0 = Inr j)) \<and>
      (\<exists>e s' g. db_get key' (cx_now c) (ex_db s) = Some e \<and> ent_value e = V_Stream s' \<and> get_group grp s' = Some g)"
      using Cons.prems(1) m unfolding ready_def p by auto
    have "get_group grp (set_group grp g' st) = Some g'" by (simp add: get_group_def set_group_def)
    then show "(i' = ''>'' \<or> (\<exists>j. id_arg i' 0 = Inr j)) \<and>
      (\<exists>e s' g. db_get key' (cx_now c) (ex_db ?u) = Some e \<and> ent_value e = V_Stream s' \<and> get_group grp s' = Some g)"
      using q by (auto simp: gu)
  qed
  let ?out = "if h \<noteq> None \<or> items \<noteq> [] then out @ [R_Array [R_Bulk key, R_Array items]] else out"
  have b: "bind_ex (stream_mut c key False ?f) k s = k (Some (Some (created, items))) u" for k :: "(bool \<times> reply list) option option \<Rightarrow> 'a exec"
    using u(1) by (rule bind_run)
  have w: "then_ex (when_ex ?dirty mark_dirty) n u = n ?u" for n :: "'a exec"
    by (rule then_run [of _ _ _ "()"]) (simp add: when_ex_def mark_dirty_def pass_def)
  have "xreadgroup_loop c grp name limit noack ks ?out (new \<or> (h = None \<and> items \<noteq> [])) k ?u = (t, r)"
    using Cons.prems(3) unfolding p xreadgroup_loop.simps h try_ex_def sum.case b some_ex_def option.case Option.bind.simps id_apply prod.case w .
  from Cons.IH [OF rd tu this] good_trans [OF gd] show ?case by blast
qed

lemma kept_xreadgroup: "keeps_view c (cmd_xreadgroup c argv)"
proof -
  have k: "solid c (if b then then_ex (case o1 of None \<Rightarrow> pass () | Some timeout \<Rightarrow> block_ex c retry timeout) (pass R_Nil) else pass (R_Array out))"
    for b o1 retry out
    by (cases o1) (auto intro!: view_intros)
  have "keeps_at c s (xreadgroup_loop c grp name limit noack ks out new k)" if "ready c grp ks (ex_db s)" "\<And>out new. solid c (k out new)"
    for s grp name limit noack ks out new and k :: "reply list \<Rightarrow> bool \<Rightarrow> reply exec"
  proof (rule kept_untidy)
    assume td: "tidy (cx_now c) (ex_db s)"
    show "keeps_at c s (xreadgroup_loop c grp name limit noack ks out new k)"
      unfolding keeps_at_def using read_loop_runs [where k = k, OF that(2,1) td] by blast
  qed
  note r = this
  show ?thesis
    unfolding cmd_xreadgroup_def Let_def by (intro kept_parts(1,2,5) kept_check r k)
qed

end
