(* ===== verification/Cmd_Replay.thy ===== *)
theory Cmd_Replay
  imports Cmd_Kept_Streams
begin

text \<open>
  Every command of the dispatch, and what a journal of them rebuilds.
\<close>

subsection \<open>Replies\<close>

text \<open>A command that does not fail answers with no error.\<close>

definition answers :: "reply exec \<Rightarrow> bool" where
  "answers m \<longleftrightarrow> (\<forall>s t x. m s = (t, Inr x) \<longrightarrow> \<not> is_error x)"

named_theorems answer_intros \<open>replies that are no errors\<close>

lemma answers_basic [answer_intros]:
  "\<not> is_error x \<Longrightarrow> answers (pass x)" "answers (refuse e)"
  by (simp_all add: answers_def pass_def refuse_def)

lemma answers_bind [answer_intros]: "(\<And>x. answers (k x)) \<Longrightarrow> answers (bind_ex m k)"
  by (auto simp: answers_def bind_ex_def split: prod.splits sum.splits)

lemma answers_then [answer_intros]: "answers n \<Longrightarrow> answers (then_ex m n)"
  by (simp add: then_ex_def answers_bind)

lemma answers_parts [answer_intros]:
  "answers m \<Longrightarrow> answers (need_ex b e m)" "answers m \<Longrightarrow> answers (need_args argv n m)"
  "answers m \<Longrightarrow> answers (exactly argv n m)" "answers m \<Longrightarrow> answers (room_for c len adding m)"
  "(\<And>x. answers (k1 x)) \<Longrightarrow> answers (try_ex r1 k1)" "(\<And>x. answers (k2 x)) \<Longrightarrow> answers (some_ex r2 e k2)"
  "answers m \<Longrightarrow> answers n' \<Longrightarrow> answers (if b then m else n')"
  "answers m \<Longrightarrow> (\<And>x. answers (k3 x)) \<Longrightarrow> answers (case r3 of None \<Rightarrow> m | Some x \<Rightarrow> k3 x)"
  "(\<And>x y. answers (k4 x y)) \<Longrightarrow> answers (case r4 of (x, y) \<Rightarrow> k4 x y)"
  "(\<And>e. answers (k5 e)) \<Longrightarrow> answers (look_ex c key k5)" "(\<And>v. answers (k6 v)) \<Longrightarrow> answers (ref_ex c prj key k6)"
  "answers m \<Longrightarrow> answers (admit_ex c keys m)"
proof -
  show "answers m \<Longrightarrow> answers (need_ex b e m)" "answers m \<Longrightarrow> answers (need_args argv n m)"
    "answers m \<Longrightarrow> answers (exactly argv n m)" "answers m \<Longrightarrow> answers (room_for c len adding m)"
    by (simp_all add: need_ex_def need_args_def exactly_def room_for_def answers_basic)
  show t: "(\<And>x. answers (k1 x)) \<Longrightarrow> answers (try_ex r1 k1)" for r1 :: "str + 'z" and k1
    by (cases r1) (simp_all add: try_ex_def answers_basic)
  show "(\<And>x. answers (k2 x)) \<Longrightarrow> answers (some_ex r2 e k2)"
    by (cases r2) (simp_all add: some_ex_def answers_basic)
  show l: "(\<And>e. answers (k5 e)) \<Longrightarrow> answers (look_ex c key k5)" for k5
    unfolding answers_def look_ex_def by blast
  show "(\<And>v. answers (k6 v)) \<Longrightarrow> answers (ref_ex c prj key k6)"
    unfolding ref_ex_def by (intro l t)
  show "answers m \<Longrightarrow> answers (admit_ex c keys m)"
    by (auto simp: answers_def admit_ex_def try_ex_def refuse_def split: sum.splits)
qed (auto split: option.split prod.split)

lemma plain_reply [answer_intros]:
  "\<not> is_error (r_int n)" "\<not> is_error (r_bool b)" "\<not> is_error r_ok" "\<not> is_error (r_bulks ws)"
  "\<not> is_error (R_Bulk w)" "\<not> is_error (r_bulk_or_nil v)" "\<not> is_error (R_Int i)" "\<not> is_error R_Nil" "\<not> is_error (R_Array rs)"
  "\<not> is_error x \<Longrightarrow> \<not> is_error y \<Longrightarrow> \<not> is_error (if b then x else y)"
  "\<not> is_error x \<Longrightarrow> (\<And>w. \<not> is_error (f w)) \<Longrightarrow> \<not> is_error (case r of None \<Rightarrow> x | Some w \<Rightarrow> f w)"
  "\<not> is_error x \<Longrightarrow> (\<And>w ws. \<not> is_error (g w ws)) \<Longrightarrow> \<not> is_error (case l of [] \<Rightarrow> x | w # ws \<Rightarrow> g w ws)"
  by (simp_all add: r_int_def r_bool_def r_ok_def r_bulks_def r_bulk_or_nil_def split: option.split list.split)

lemma answers_del [answer_intros]: "answers (del_loop c keys n)"
  by (induction keys arbitrary: n) (auto intro!: answer_intros)

lemma answers_keys:
  "answers (cmd_del c argv)" "answers (cmd_flush c)" "answers (cmd_expire c name argv)" "answers (cmd_persist c argv)"
  "answers (cmd_rename c nx argv)" "answers (cmd_setnx c argv)" "answers (cmd_setex c name argv)" "answers (cmd_getset c argv)"
  "answers (cmd_getdel c argv)" "answers (cmd_getex c argv)" "answers (cmd_append c argv)" "answers (cmd_incr c name argv)"
  "answers (cmd_incrbyfloat c argv)" "answers (cmd_delifeq c argv)" "answers (cmd_set c argv)"
  unfolding cmd_del_def cmd_flush_def cmd_expire_def cmd_persist_def cmd_rename_def cmd_setnx_def cmd_setex_def cmd_getset_def
    cmd_getdel_def cmd_getex_def cmd_append_def cmd_incr_def incr_def cmd_incrbyfloat_def cmd_delifeq_def cmd_set_def Let_def
  by (intro answer_intros)+

lemma answers_lists:
  "answers (cmd_hset c name argv)" "answers (cmd_hsetnx c argv)" "answers (cmd_hdel c argv)"
  "answers (cmd_push c name argv)" "answers (cmd_pop c name argv)" "answers (cmd_lset c argv)" "answers (cmd_lrem c argv)"
  "answers (cmd_ltrim c argv)" "answers (cmd_linsert c argv)" "answers (lmove c src dst from_left to_left)" "answers (cmd_lmove c argv)" "answers (cmd_rpoplpush c argv)"
  unfolding cmd_hset_def cmd_hsetnx_def cmd_hdel_def cmd_push_def cmd_pop_def cmd_lset_def cmd_lrem_def
    cmd_ltrim_def cmd_linsert_def cmd_lmove_def cmd_rpoplpush_def lmove_def Let_def
  by (intro answer_intros)+

lemma answers_blmove: "answers (cmd_blmove c argv)"
proof -
  have b: "answers (bind_ex m (\<lambda>r. then_ex n (pass r)))" if "answers m" for m :: "reply exec" and n :: "unit exec"
    using that by (auto simp: answers_def bind_ex_def then_ex_def pass_def split: prod.splits sum.splits)
  show ?thesis
    unfolding cmd_blmove_def Let_def by (intro answers_parts b answers_lists(10) answers_then answers_basic plain_reply)
qed

lemma answers_hincrby: "answers (cmd_hincrby c name argv)"
proof -
  have t: "answers (try_ex r k)" if "\<And>x. r = Inr x \<Longrightarrow> answers (k x)" for r :: "str + str \<times> reply" and k
    using that by (cases r) (simp_all add: try_ex_def answers_basic)
  have h: "\<not> is_error y" if "hash_next c name e n = Inr (x, y)" for e n x y
    using that by (auto simp: hash_next_def bind_sum_def Let_def split: if_splits sum.splits option.splits)
  have g: "answers (try_ex (hash_next c name e n) (\<lambda>(text, r). bind_ex (m text) (\<lambda>u. some_ex u err (\<lambda>_. then_ex tc (pass r)))))"
    for e n err and m :: "str \<Rightarrow> unit option exec" and tc :: "unit exec"
  proof (rule t)
    fix x assume "hash_next c name e n = Inr x"
    then have "\<not> is_error (snd x)" by (cases x) (simp add: h)
    then show "answers (case x of (text, r) \<Rightarrow> bind_ex (m text) (\<lambda>u. some_ex u err (\<lambda>_. then_ex tc (pass r))))"
      by (cases x) (auto intro!: answer_intros)
  qed
  show ?thesis
    unfolding cmd_hincrby_def Let_def by (intro answers_parts(3,4,7,11) g)
qed

lemma answers_sets:
  "answers (cmd_sadd c argv)" "answers (cmd_srem c argv)" "answers (cmd_smove c argv)" "answers (cmd_zadd c argv)"
  "answers (cmd_zrem c argv)" "answers (cmd_zincrby c argv)" "answers (cmd_zpop c name argv)"
  "answers (cmd_zremrangebyscore c argv)" "answers (cmd_zremrangebyrank c argv)"
  unfolding cmd_sadd_def cmd_srem_def cmd_smove_def cmd_zadd_def cmd_zrem_def cmd_zincrby_def cmd_zpop_def zpop_def
    cmd_zremrangebyscore_def cmd_zremrangebyrank_def zrem_ranked_def Let_def
  by (intro answer_intros)+

lemma answers_streams:
  "answers (cmd_xadd c argv)" "answers (cmd_xdel c argv)" "answers (cmd_xtrim c argv)" "answers (cmd_xack c argv)"
  "answers (cmd_xclaim c argv)" "answers (cmd_xautoclaim c argv)" "answers (cmd_xgroup c argv)"
  unfolding cmd_xadd_def cmd_xdel_def cmd_xtrim_def cmd_xack_def cmd_xclaim_def cmd_xautoclaim_def cmd_xgroup_def
    xgroup_create_def xgroup_setid_def xgroup_destroy_def xgroup_consumer_def group_mut_def Let_def
  by (intro answer_intros)+

lemma answers_loops:
  "answers (cmd_mset c name argv)" "answers (cmd_blpop c left argv)" "answers (cmd_bzpop c mn argv)" "answers (cmd_xreadgroup c argv)"
  "answers (cmd_spop c True argv)"
proof -
  have a: "answers (any_exists c keys k)" if "\<And>b. answers (k b)" for keys k
    by (induction keys) (auto simp: that intro!: answer_intros)
  show "answers (cmd_mset c name argv)"
    unfolding cmd_mset_def Let_def by (intro answer_intros a)
  have b: "answers (blpop_loop c left keys otherwise)" if "answers otherwise" for keys otherwise
    by (induction keys) (auto simp: that intro!: answer_intros)
  show "answers (cmd_blpop c left argv)"
    unfolding cmd_blpop_def by (intro answer_intros b)
  have z: "answers (bzpop_loop c mn keys otherwise)" if "answers otherwise" for keys otherwise
    by (induction keys) (auto simp: that zpop_def intro!: answer_intros)
  show "answers (cmd_bzpop c mn argv)"
    unfolding cmd_bzpop_def by (intro answer_intros z)
  have x: "answers (xreadgroup_check c grp nm limit ks named bytes m)" if "answers m" for grp nm limit ks named bytes m
    using that by (induction ks arbitrary: named bytes) (auto intro!: answer_intros)
  have l: "answers (xreadgroup_loop c grp nm limit noack ks out new k)" if "\<And>out new. answers (k out new)" for grp nm limit noack ks out new k
    using that by (induction ks arbitrary: out new) (auto simp: Let_def intro!: answer_intros)
  show "answers (cmd_xreadgroup c argv)"
    unfolding cmd_xreadgroup_def Let_def by (intro answer_intros x l)
  have c: "answers (pick_members c True wanted v k)" if a: "\<And>p. answers (k p)" for wanted v k
    unfolding answers_def
  proof (intro allI impI)
    fix s t :: ex and y assume r: "pick_members c True wanted v k s = (t, Inr y)"
    show "\<not> is_error y"
    proof (rule choosesD [OF chooses_members, of s c wanted v k])
      fix p u assume "pick_members c True wanted v k s = k p u"
      then have "k p u = (t, Inr y)" using r by simp
      then show ?thesis using a [of p] unfolding answers_def by blast
    qed (use r in simp)
  qed
  show "answers (cmd_spop c True argv)"
    unfolding cmd_spop_def Let_def by (intro answer_intros c)
qed

subsection \<open>Every command\<close>

text \<open>
  A command owes its keyspace what \<open>keeps_view\<close> says, and either changes nothing, or journals itself
  and does the same again, or journals another that does.
\<close>

definition accounts :: "ctx \<Rightarrow> (ctx \<Rightarrow> reply exec) \<Rightarrow> bool" where
  "accounts c g \<longleftrightarrow> keeps_view c (g c) \<and>
     (steps untouched (g c) \<or>
      answers (g c) \<and> (repeats c g \<and> steps (bounded c UNIV True) (g c) \<or> instead c (g c)))"

definition tabled :: "ctx \<Rightarrow> (ctx \<Rightarrow> reply exec option) \<Rightarrow> bool" where
  "tabled c f \<longleftrightarrow> (f c = None \<and> f (again c) = None) \<or>
     (\<exists>g. f c = Some (g c) \<and> f (again c) = Some (g (again c)) \<and> accounts c g)"

lemma tabled_intros:
  "tabled c (\<lambda>c. None)"
  "(b \<Longrightarrow> accounts c g) \<Longrightarrow> tabled c h \<Longrightarrow> tabled c (\<lambda>c. if b then Some (g c) else h c)"
  by (auto simp: tabled_def)

lemma accounts_table:
  "tabled c f \<Longrightarrow> accounts c h \<Longrightarrow> accounts c (\<lambda>c. case f c of Some m \<Rightarrow> m | None \<Rightarrow> h c)"
  by (auto simp: tabled_def accounts_def)

lemma accounts_read: "steps untouched (g c) \<Longrightarrow> accounts c g"
  by (simp add: accounts_def kept_untouched)

lemma accounts_again:
  "keeps_view c (g c) \<Longrightarrow> answers (g c) \<Longrightarrow> repeats c g \<Longrightarrow> steps (bounded c UNIV True) (g c) \<Longrightarrow> accounts c g"
  by (simp add: accounts_def)

lemma accounts_instead: "keeps_view c (g c) \<Longrightarrow> answers (g c) \<Longrightarrow> instead c (g c) \<Longrightarrow> accounts c g"
  by (simp add: accounts_def)

lemmas all_reads = untouched_reads untouched_walks untouched_sets untouched_xread

lemmas all_kept = kept_del kept_flush kept_expire kept_persist kept_rename kept_strings kept_getex kept_mset kept_append
  kept_hashes kept_lists kept_linsert kept_moves kept_blpop kept_sets kept_smove kept_spop kept_zadd kept_zsets
  kept_xadd kept_xdel kept_xack kept_claims kept_xgroup kept_xreadgroup

lemmas all_answer = answers_keys answers_lists answers_blmove answers_hincrby answers_sets answers_streams answers_loops

lemmas all_repeat = sim_keys sim_rename sim_strings sim_cmd_flush sim_getex sim_set sim_hashes sim_lists sim_moves sim_sets
  sim_zsets sim_streams sim_xack sim_xadd sim_xgroup sim_xreadgroup sim_linsert

lemmas all_instead = instead_blmove instead_bzpop instead_blpop instead_spop

lemmas steps_of_all = bounded_keys bounded_strings bounded_renames bounded_moves bounded_mset bounded_hashes
  bounded_sets bounded_streams bounded_xgroup bounded_xreadgroup

lemma tabled_keys: "tabled c (\<lambda>c. dispatch_keys c name argv)"
  unfolding dispatch_keys_def
  by (intro tabled_intros; (rule accounts_read, rule all_reads |
      rule accounts_again, rule all_kept, rule all_answer, rule all_repeat, rule steps_of_all; simp))

lemma tabled_lists: "tabled c (\<lambda>c. dispatch_lists c name argv)"
  unfolding dispatch_lists_def
  by (intro tabled_intros; (rule accounts_read, rule all_reads |
      rule accounts_instead, rule all_kept, rule all_answer, rule all_instead |
      rule accounts_again, rule all_kept, rule all_answer, rule all_repeat, rule steps_of_all; simp))

lemma tabled_sets: "tabled c (\<lambda>c. dispatch_sets c name argv)"
proof -
  have p: "accounts c (\<lambda>c. cmd_spop c pop argv)" for pop
  proof (cases pop)
    case True
    then show ?thesis by (simp add: accounts_instead all_kept all_answer all_instead)
  next
    case False
    then show ?thesis by (simp add: accounts_read all_reads)
  qed
  show ?thesis
    unfolding dispatch_sets_def
    by (intro tabled_intros; (rule p | rule accounts_read, rule all_reads |
        rule accounts_instead, rule all_kept, rule all_answer, rule all_instead |
        rule accounts_again, rule all_kept, rule all_answer, rule all_repeat, rule steps_of_all; simp))
qed

lemma tabled_streams: "tabled c (\<lambda>c. dispatch_streams c name argv)"
  unfolding dispatch_streams_def
  by (intro tabled_intros; (rule accounts_read, rule all_reads |
      rule accounts_again, rule all_kept, rule all_answer, rule all_repeat, rule steps_of_all; simp))

lemma accounts_dispatch: "accounts c (\<lambda>c. dispatch c name argv)"
proof -
  have r: "accounts c (\<lambda>c. refuse e)" for e
    by (rule accounts_read) (intro steps_intros)
  show ?thesis
    unfolding dispatch_def by (intro accounts_table tabled_keys tabled_lists tabled_sets tabled_streams r)
qed

subsection \<open>What is journaled of an execution\<close>

definition journaled :: "str list \<Rightarrow> outcome option \<Rightarrow> str list list" where
  "journaled argv res = (case res of None \<Rightarrow> [] | Some oc \<Rightarrow> outcome_journal argv oc)"

definition run_of :: "ctx \<Rightarrow> str list \<Rightarrow> reply exec" where
  "run_of c argv = (case argv of [] \<Rightarrow> refuse ''ERR empty command'' | _ \<Rightarrow> dispatch c (command_name argv) argv)"

lemma accounts_run: "accounts c (\<lambda>c. run_of c argv)"
proof (cases argv)
  case Nil
  have "accounts c (\<lambda>c. refuse e)" for e
    by (rule accounts_read) (intro steps_intros)
  then show ?thesis using Nil by (simp add: run_of_def)
next
  case (Cons w ws)
  then show ?thesis using accounts_dispatch [of c "command_name argv" argv] by (simp add: run_of_def)
qed

lemma exec_run:
  assumes "run_of c argv (ex_start d draws) = (t, r)"
  shows "fst (exec c argv draws d) = ex_db t"
    "isl r \<Longrightarrow> journaled argv (snd (exec c argv draws d)) = []"
    "r = Inr x \<Longrightarrow> journaled argv (snd (exec c argv draws d)) =
      (if ex_dirty t \<and> \<not> is_error x then (case ex_propagate t of Some ws \<Rightarrow> ws | None \<Rightarrow> [argv]) else [])"
proof -
  have e: "exec c argv draws d = (case run_of c argv (ex_start d draws) of
        (s, Inl Starved) \<Rightarrow> (ex_db s, None)
      | (s, Inl (Failed e)) \<Rightarrow>
          (ex_db s, Some \<lparr>oc_reply = R_Error e, oc_dirty = False, oc_propagate = ex_propagate s,
             oc_events = ex_events s, oc_block = ex_block s\<rparr>)
      | (s, Inr r) \<Rightarrow>
          (ex_db s, Some \<lparr>oc_reply = r, oc_dirty = ex_dirty s \<and> \<not> is_error r, oc_propagate = ex_propagate s,
             oc_events = ex_events s, oc_block = ex_block s\<rparr>))"
    by (simp add: exec_def run_of_def)
  show "fst (exec c argv draws d) = ex_db t"
    unfolding e assms by (simp split: sum.split stop.split)
  show "isl r \<Longrightarrow> journaled argv (snd (exec c argv draws d)) = []"
    unfolding e assms by (auto simp: isl_def journaled_def outcome_journal_def split: stop.split)
  show "r = Inr x \<Longrightarrow> journaled argv (snd (exec c argv draws d)) =
      (if ex_dirty t \<and> \<not> is_error x then (case ex_propagate t of Some ws \<Rightarrow> ws | None \<Rightarrow> [argv]) else [])"
    unfolding e assms by (auto simp: journaled_def outcome_journal_def)
qed

lemma start_parts [simp]:
  "ex_db (ex_start d draws) = d" "ex_dirty (ex_start d draws) = False" "ex_propagate (ex_start d draws) = None"
  by (simp_all add: ex_start_def)

text \<open>Either nothing is journaled and nothing changed, or one command is, and does it again.\<close>

lemma exec_accounts:
  assumes t: "tidy (cx_now c) d" and a: "agree (cx_now c) d d'"
  obtains "journaled argv (snd (exec c argv draws d)) = []" "agree (cx_now c) d (fst (exec c argv draws d))"
  | w s' x where "journaled argv (snd (exec c argv draws d)) = [w]" "run_of (again c) w (ex_start d' []) = (s', Inr x)"
      "agree (cx_now c) (fst (exec c argv draws d)) (ex_db s')"
proof -
  let ?s = "ex_start d draws" and ?s' = "ex_start d' []"
  obtain u r where r: "run_of c argv ?s = (u, r)" by fastforce
  note e = exec_run [OF r]
  have acc: "keeps_view c (run_of c argv)" "steps untouched (run_of c argv) \<or>
      answers (run_of c argv) \<and> (sim (cx_now c) (=) (run_of c argv) (run_of (again c) argv) \<and>
        steps (bounded c UNIV True) (run_of c argv) \<or> instead c (run_of c argv))"
    using accounts_run [of c argv] by (simp_all add: accounts_def)
  have good: "isl r \<or> \<not> ex_dirty u \<Longrightarrow> agree (cx_now c) d (ex_db u)"
    using keptD [OF acc(1) r] t by (simp add: good_def)
  show thesis
  proof (cases "isl r \<or> \<not> ex_dirty u")
    case True
    have "journaled argv (snd (exec c argv draws d)) = []"
      using True e(2) e(3) by (cases r) auto
    then show ?thesis using good [OF True] e(1) that(1) by simp
  next
    case False
    then obtain x where x: "r = Inr x" "ex_dirty u" by (cases r) auto
    have "\<not> steps untouched (run_of c argv)"
    proof
      assume "steps untouched (run_of c argv)"
      then have "untouched ?s u" unfolding steps_def using r by (metis fst_conv)
      then show False using x(2) by (simp add: untouched_def)
    qed
    then have ans: "\<not> is_error x" and more: "sim (cx_now c) (=) (run_of c argv) (run_of (again c) argv) \<and>
        steps (bounded c UNIV True) (run_of c argv) \<or> instead c (run_of c argv)"
      using acc(2) r x(1) unfolding answers_def by blast+
    have j: "journaled argv (snd (exec c argv draws d)) = (case ex_propagate u of Some ws \<Rightarrow> ws | None \<Rightarrow> [argv])"
      using e(3) [OF x(1)] x(2) ans by simp
    have ag: "agree (cx_now c) (ex_db ?s) (ex_db ?s')" using a by simp
    from more show ?thesis
    proof (elim disjE conjE)
      assume sm: "sim (cx_now c) (=) (run_of c argv) (run_of (again c) argv)" and st: "steps (bounded c UNIV True) (run_of c argv)"
      have "bounded c UNIV True ?s u" using st r unfolding steps_def by (metis fst_conv)
      then have "ex_propagate u = None" by (simp add: bounded_def)
      moreover obtain s' where "run_of (again c) argv ?s' = (s', Inr x)" "agree (cx_now c) (ex_db u) (ex_db s')"
        using simD [OF sm ag] r x(1) by blast
      ultimately show ?thesis using that(2) j e(1) by simp
    next
      assume i: "instead c (run_of c argv)"
      have "m s = (t, Inr x) \<Longrightarrow> agree (cx_now c) (ex_db s) (ex_db s') \<Longrightarrow>
        (ex_dirty t = ex_dirty s \<and> ex_propagate t = ex_propagate s) \<or>
        (\<exists>w t' x'. ex_propagate t = Some [w] \<and> w \<noteq> [] \<and>
           dispatch (again c) (command_name w) w s' = (t', Inr x') \<and> agree (cx_now c) (ex_db t) (ex_db t'))"
        if "instead c m" for m s t x s'
        using that unfolding instead_def by blast
      from this [OF i r [unfolded x(1)] ag] x(2) obtain w s' x' where w: "ex_propagate u = Some [w]" "w \<noteq> []"
        "dispatch (again c) (command_name w) w ?s' = (s', Inr x')" "agree (cx_now c) (ex_db u) (ex_db s')"
        by auto
      have "run_of (again c) w ?s' = (s', Inr x')" using w(2,3) by (cases w) (simp_all add: run_of_def)
      then show ?thesis using that(2) j w(1,4) e(1) by simp
    qed
  qed
qed

lemma replay_run: "run_of (again c) w (ex_start d' []) = (s', Inr x) \<Longrightarrow> exec_replay (cx_rust c) (cx_now c) w d' = ex_db s'"
  by (simp add: exec_replay_def exec_run(1))

lemma commands_keep_tidy:
  assumes "tidy (cx_now c) d"
  shows "tidy (cx_now c) (fst (exec c argv draws d))"
proof -
  obtain u r where r: "run_of c argv (ex_start d draws) = (u, r)" by fastforce
  have "keeps_view c (run_of c argv)" using accounts_run [of c argv] by (simp add: accounts_def)
  from keptD [OF this r] assms show ?thesis by (simp add: good_def exec_run(1) [OF r])
qed

lemma replays_one:
  assumes "tidy (cx_now c) d" and "agree (cx_now c) d d'"
  shows "agree (cx_now c) (fst (exec c argv draws d))
    (fold (exec_replay (cx_rust c) (cx_now c)) (journaled argv (snd (exec c argv draws d))) d')"
proof (rule exec_accounts [OF assms, of argv draws])
  assume "journaled argv (snd (exec c argv draws d)) = []" "agree (cx_now c) d (fst (exec c argv draws d))"
  then show ?thesis using agree_trans [OF agree_sym assms(2)] by simp
next
  fix w s' x
  assume "journaled argv (snd (exec c argv draws d)) = [w]" "run_of (again c) w (ex_start d' []) = (s', Inr x)"
    "agree (cx_now c) (fst (exec c argv draws d)) (ex_db s')"
  then show ?thesis using replay_run by simp
qed

subsection \<open>A whole history\<close>

lemma get_later:
  "now \<le> now' \<Longrightarrow> db_get k now' d = (case db_get k now d of Some e \<Rightarrow> if entry_expired now' e then None else Some e | None \<Rightarrow> None)"
  by (auto simp: get_keys entry_expired_def split: option.splits)

lemma agree_later: "agree now d d' \<Longrightarrow> now \<le> now' \<Longrightarrow> agree now' d d'"
  unfolding agree_def
proof
  fix k assume a: "\<forall>k. map_option durable (db_get k now d) = map_option durable (db_get k now d')" and n: "now \<le> now'"
  show "map_option durable (db_get k now' d) = map_option durable (db_get k now' d')"
  proof (cases "db_get k now d")
    case None
    then show ?thesis using a [rule_format, of k] by (simp add: get_later [OF n])
  next
    case (Some e)
    then obtain e' where e': "db_get k now d' = Some e'" "durable e = durable e'"
      using agreeD(2) [of now d d' k e] a by (auto simp: agree_def)
    then show ?thesis using Some durable_eqD(3) [OF e'(2), of now'] by (simp add: get_later [OF n])
  qed
qed

lemma tidy_later: "tidy now d \<Longrightarrow> now \<le> now' \<Longrightarrow> tidy now' d"
  by (auto simp: tidy_def get_later split: option.splits if_splits)

text \<open>Commands run one after another, and what is journaled of them, each with the time it ran.\<close>

fun history :: "(ctx \<times> str list \<times> u64 list) list \<Rightarrow> db \<Rightarrow> db \<times> (u64 \<times> str list) list" where
  "history [] d = (d, [])"
| "history ((c, argv, draws) # cs) d =
     (let (d1, res) = exec c argv draws d; (d2, js) = history cs d1
      in (d2, map (Pair (cx_now c)) (journaled argv res) @ js))"

definition replayed :: "rust \<Rightarrow> (u64 \<times> str list) list \<Rightarrow> db \<Rightarrow> db" where
  "replayed ru js d = fold (\<lambda>(at, argv). exec_replay ru at argv) js d"

lemma replayed_one: "replayed ru (map (Pair now) ws @ js) d = replayed ru js (fold (exec_replay ru now) ws d)"
  by (simp add: replayed_def fold_map comp_def)

lemma history_tidy:
  assumes "tidy now d" "sorted (now # map (\<lambda>(c, _). cx_now c) cs)"
  shows "\<exists>last \<in> set (now # map (\<lambda>(c, _). cx_now c) cs). tidy last (fst (history cs d))"
  using assms
proof (induction cs arbitrary: now d)
  case (Cons x cs)
  obtain c argv draws where x: "x = (c, argv, draws)" by (metis prod_cases3)
  obtain d1 res where e: "exec c argv draws d = (d1, res)" by fastforce
  have n: "now \<le> cx_now c" and srt: "sorted (cx_now c # map (\<lambda>(c, _). cx_now c) cs)"
    using Cons.prems(2) unfolding x by auto
  have "tidy (cx_now c) d1"
    using commands_keep_tidy [OF tidy_later [OF Cons.prems(1) n], of argv draws] by (simp add: e)
  from Cons.IH [OF this srt] show ?case by (auto simp: x e case_prod_beta Let_def)
qed simp

lemma history_replays:
  assumes "tidy now d" "agree now d d'" "sorted (now # map (\<lambda>(c, _). cx_now c) cs)" "\<forall>(c, _) \<in> set cs. cx_rust c = ru"
  shows "\<exists>last \<in> set (now # map (\<lambda>(c, _). cx_now c) cs). tidy last (fst (history cs d)) \<and>
    agree last (fst (history cs d)) (replayed ru (snd (history cs d)) d')"
  using assms
proof (induction cs arbitrary: now d d')
  case Nil
  then show ?case by (simp add: replayed_def)
next
  case (Cons x cs)
  obtain c argv draws where x: "x = (c, argv, draws)" by (metis prod_cases3)
  obtain d1 res where e: "exec c argv draws d = (d1, res)" by fastforce
  have n: "now \<le> cx_now c" and srt: "sorted (cx_now c # map (\<lambda>(c, _). cx_now c) cs)"
    using Cons.prems(3) unfolding x by auto
  have t: "tidy (cx_now c) d" and a: "agree (cx_now c) d d'"
    using tidy_later [OF Cons.prems(1) n] agree_later [OF Cons.prems(2) n] by simp_all
  have ru: "cx_rust c = ru" using Cons.prems(4) unfolding x by simp
  have "tidy (cx_now c) d1" "agree (cx_now c) d1 (fold (exec_replay ru (cx_now c)) (journaled argv res) d')"
    using commands_keep_tidy [OF t, of argv draws] replays_one [OF t a, of argv draws] by (simp_all add: e ru)
  from Cons.IH [OF this srt] Cons.prems(4)
  have "\<exists>last \<in> set (cx_now c # map (\<lambda>(c, _). cx_now c) cs). tidy last (fst (history cs d1)) \<and>
      agree last (fst (history cs d1)) (replayed ru (snd (history cs d1)) (fold (exec_replay ru (cx_now c)) (journaled argv res) d'))"
    by simp
  then show ?case by (auto simp: x e case_prod_beta replayed_one Let_def)
qed

subsection \<open>A client's command, worked out\<close>

text \<open>A list started on an empty keyspace.\<close>

definition client_at :: "u64 \<Rightarrow> ctx" where
  "client_at now = (ctx_replay reach_rust now)\<lparr>cx_replay := False, cx_max_keys := 100, cx_max_elements := 100\<rparr>"

lemma client_parts [simp]: "cx_now (client_at now) = now" "cx_rust (client_at now) = reach_rust"
  "cx_max_keys (client_at now) = 100" "cx_max_elements (client_at now) = 100" "cx_events (client_at now)"
  by (simp_all add: client_at_def ctx_replay_def)

lemma default_get: "db_get k now db_default = None"
  by (simp add: get_keys db_default_def)

lemma rpush_runs:
  defines "w \<equiv> [''RPUSH'', ''l'', ''x'']"
  obtains u n where "run_of (client_at 1) w (ex_start db_default []) = (u, Inr (r_int n))" "ex_dirty u" "ex_propagate u = None"
    "\<And>k. db_get k 1 (ex_db u) = (if k = ''l'' then Some (entry_new (V_List [''x''])) else None)"
proof -
  have n: "command_name w = ''RPUSH''" unfolding w_def by code_simp
  have d: "dispatch (client_at 1) ''RPUSH'' w = cmd_push (client_at 1) ''RPUSH'' w"
    by (simp add: dispatch_def dispatch_keys_def dispatch_lists_def)
  have e: "ends_with ''RPUSH'' ''X'' = False" "starts_with ''RPUSH'' ''L'' = False" by code_simp+
  have a: "admit_all (client_at 1) [''l''] db_default = Inr ()"
    unfolding admit_room room_def by (simp add: db_default_def contains_key_def bm_len_def bm_empty.rep_eq)
  obtain u r where run: "run_of (client_at 1) w (ex_start db_default []) = (u, r)" by fastforce
  have l: "list_mut (client_at 1) ''l'' True f (ex_start db_default []) = (t, q) \<Longrightarrow>
      q = Inr (Some (snd (f []))) \<and> ex_propagate t = None \<and>
      (\<forall>k. db_get k 1 (ex_db t) = (if k = ''l'' then Some (entry_new (V_List (fst (f [])))) else None))"
    for f :: "str list \<Rightarrow> str list \<times> nat" and t q
    by (auto simp: mut_ex_def look_ex_def default_get admit_ex_def a try_ex_def then_ex_def change_ex_def value_mut_def
      bind_ex_def entry_mut_def pass_def entry_new_def entry_expired_def)
  have "(\<exists>n. r = Inr (r_int n)) \<and> ex_dirty u \<and> ex_propagate u = None \<and>
      (\<forall>k. db_get k 1 (ex_db u) = (if k = ''l'' then Some (entry_new (V_List [''x''])) else None))"
    using run unfolding w_def
    by (auto simp: run_of_def n [unfolded w_def] d [unfolded w_def] cmd_push_def need_args_def need_ex_def Let_def ref_ex_def
      look_ex_def typed_ref_def try_ex_def default_get e room_for_def coll_len_def then_ex_def bind_ex_def some_ex_def touch_def
      pass_def dest: l split: prod.splits sum.splits option.splits)
  then show thesis using run that by blast
qed

lemma rpush_leaves:
  "journaled [''RPUSH'', ''l'', ''x''] (snd (exec (client_at 1) [''RPUSH'', ''l'', ''x''] [] db_default)) = [[''RPUSH'', ''l'', ''x'']]"
  "db_get ''l'' 1 (fst (exec (client_at 1) [''RPUSH'', ''l'', ''x''] [] db_default)) = Some (entry_new (V_List [''x'']))"
  by (rule rpush_runs; use exec_run(1,3) plain_reply(1) in fastforce)+

lemma tidy_default: "tidy now db_default"
  by (simp add: tidy_def default_get)

subsection \<open>The properties\<close>

text \<open>
  C4: The journal rebuilds the keyspace. Whatever commands ran on an empty keyspace, failed ones and
  those that drew random members or waited on a list among them, running what was journaled of them
  again, each at its time, gives a keyspace with the same live keys, values and deadlines, at any
  time after; only when a consumer was last seen may differ.
\<close>

theorem journal_rebuilds_keyspace:
  assumes "sorted (map (\<lambda>(c, _). cx_now c) cs)" and "\<forall>(c, _) \<in> set cs. cx_rust c = ru \<and> cx_now c \<le> now"
  shows "agree now (fst (history cs db_default)) (replayed ru (snd (history cs db_default)) db_default)"
proof -
  have t: "tidy 0 db_default" and a: "agree 0 db_default db_default" by (simp_all add: tidy_default)
  have s: "sorted (0 # map (\<lambda>(c, _). cx_now c) cs)" using assms(1) by simp
  have r: "\<forall>(c, _) \<in> set cs. cx_rust c = ru" using assms(2) by auto
  obtain last where l: "last \<in> set (0 # map (\<lambda>(c, _). cx_now c) cs)"
    "agree last (fst (history cs db_default)) (replayed ru (snd (history cs db_default)) db_default)"
    using history_replays [OF t a s r] by blast
  have "last \<le> now" using l(1) assms(2) by auto
  then show ?thesis by (rule agree_later [OF l(2)])
qed

lemma journal_rebuilds_keyspace_witness:
  "snd (history [(client_at 1, [''RPUSH'', ''l'', ''x''], [])] db_default) = [(1, [''RPUSH'', ''l'', ''x''])] \<and>
   agree 9 (fst (history [(client_at 1, [''RPUSH'', ''l'', ''x''], [])] db_default))
     (exec_replay reach_rust 1 [''RPUSH'', ''l'', ''x''] db_default)"
proof -
  let ?cs = "[(client_at 1, [''RPUSH'', ''l'', ''x''], [])]"
  have j: "snd (history ?cs db_default) = [(1, [''RPUSH'', ''l'', ''x''])]"
    using rpush_leaves(1) by (simp add: case_prod_beta Let_def)
  have "agree 9 (fst (history ?cs db_default)) (replayed reach_rust (snd (history ?cs db_default)) db_default)"
    by (rule journal_rebuilds_keyspace) simp_all
  then show ?thesis unfolding j by (simp add: replayed_def)
qed

text \<open>
  C23: No command changes the keyspace behind the journal's back. Where nothing is journaled of an
  execution, because it failed, waits for randomness, or found nothing to do, every live key holds
  what it held, but for the time a consumer was last seen.
\<close>

theorem unjournaled_unchanged:
  assumes "tidy (cx_now c) d" and "journaled argv (snd (exec c argv draws d)) = []"
  shows "agree (cx_now c) d (fst (exec c argv draws d))"
  by (rule exec_accounts [OF assms(1) agree_refl, of argv draws]) (use assms(2) in auto)

lemma reach_get: "db_get k now reach_db = (if k = ''b'' then Some (entry_new (V_String ''1'')) else None)"
  by (simp add: reach_db_def default_get) (simp add: entry_new_def entry_expired_def)

lemma setnx_taken: "journaled [''SETNX'', ''b'', ''x''] (snd (exec (client_at 5) [''SETNX'', ''b'', ''x''] [] reach_db)) = []"
proof -
  let ?w = "[''SETNX'', ''b'', ''x'']"
  have n: "command_name ?w = ''SETNX''" by code_simp
  have "run_of (client_at 5) ?w (ex_start reach_db []) = (ex_start reach_db [], Inr (R_Int 0))"
    by (simp add: run_of_def n dispatch_def dispatch_keys_def cmd_setnx_def exactly_def need_ex_def look_ex_def reach_get pass_def)
  from exec_run(3) [OF this] show ?thesis by simp
qed

lemma unjournaled_unchanged_witness:
  "agree 5 reach_db (fst (exec (client_at 5) [''SETNX'', ''b'', ''x''] [] reach_db))"
proof -
  have "tidy (cx_now (client_at 5)) reach_db" by (simp add: tidy_def reach_get tidy_value_def entry_new_def)
  from unjournaled_unchanged [OF this setnx_taken] show ?thesis by simp
qed

text \<open>
  C24: Whatever commands ran on an empty keyspace, no live key holds an empty list, hash, set or
  sorted set; the order of a sorted set and its index name the same members with the same scores,
  none of them NaN; and who has an entry of a group pending is one of its consumers.
\<close>

theorem commands_leave_nothing_empty:
  assumes "sorted (map (\<lambda>(c, _). cx_now c) cs)" and "\<forall>(c, _) \<in> set cs. cx_now c \<le> now"
    and "db_get key now (fst (history cs db_default)) = Some e"
  shows "\<not> is_empty_collection (ent_value e) \<and> sound_value (ent_value e)"
proof -
  have s: "sorted (0 # map (\<lambda>(c, _). cx_now c) cs)" using assms(1) by simp
  obtain last where l: "last \<in> set (0 # map (\<lambda>(c, _). cx_now c) cs)" "tidy last (fst (history cs db_default))"
    using history_tidy [OF tidy_default s] by blast
  have "last \<le> now" using l(1) assms(2) by auto
  from tidyD [OF tidy_later [OF l(2) this] assms(3)] show ?thesis by (simp add: tidy_value_def)
qed

lemma commands_leave_nothing_empty_witness:
  "\<not> is_empty_collection (ent_value (entry_new (V_List [''x'']))) \<and> sound_value (ent_value (entry_new (V_List [''x''])))"
proof (rule commands_leave_nothing_empty [of "[(client_at 1, [''RPUSH'', ''l'', ''x''], [])]" 1 "''l''"])
  show "db_get ''l'' 1 (fst (history [(client_at 1, [''RPUSH'', ''l'', ''x''], [])] db_default)) = Some (entry_new (V_List [''x'']))"
    using rpush_leaves(2) by (simp add: case_prod_beta Let_def)
qed simp_all

end
