(* ===== verification/Spec2Isabelle.thy ===== *)
theory Spec2Isabelle
  imports Message_Ack Room_Reading Event_Replay Listing Util Memory Repair Cmd_Replay
begin

text \<open>
  A verification library for postino, an in-memory data and messaging server for agents, written in
  Rust (\<open>src/src/\<close>).

  \<^bold>\<open>The program.\<close> A server holds one \<open>Store\<close> (\<open>store.rs\<close>): a keyspace of typed values with expiry
  (\<open>db.rs\<close>, changed by the commands of \<open>commands.rs\<close>) and the forum's agents, messages, broadcasts and
  rooms. The \<open>Broker\<close> (\<open>broker.rs\<close>) keeps the store under one lock with the journal, the ring of recent
  events, the channels and the requests that wait. Each of its operations checks what it was asked,
  builds the effects of the answer and commits each: the effect is first written to the journal
  (\<open>journal.rs\<close>), then applied to the store, then told as an event. A restart loads the snapshot and
  replays the journals over it. A snapshot is written in runs while the lock is let go between them,
  from maps that keep what the changes since its beginning have overwritten (\<open>capture.rs\<close>). What a
  client may reach is a list of patterns (\<open>glob.rs\<close>, \<open>scope.rs\<close>), checked against the keys a command
  names. Around this stand an HTTP server, an event loop over the operating system's sockets, a client
  and a bridge for tools; these are not modelled.

  \<^bold>\<open>Foundations.\<close> \<open>Prelude\<close>: Rust's machine integers as words with checked and saturating arithmetic;
  a Rust string is the sequence of its bytes. \<open>Utf8\<close>: those bytes against the characters they encode.
  \<open>Sorted_Map\<close>: \<open>BTreeMap\<close> and \<open>BTreeSet\<close> as sorted association lists with their order as an invariant
  of the type. \<open>Decimal\<close>: Rust's integers written in and read from text. \<open>Ids\<close> (\<open>id.rs\<close>): ids, their
  order, their text and the source that never goes back. \<open>Util\<close> (\<open>util.rs\<close>): hexadecimal text, dates,
  names, comparison in constant time. \<open>Memory\<close> (\<open>memory.rs\<close>): the count of memory in use, kept in
  batches per thread.

  \<^bold>\<open>Patterns and scopes.\<close> \<open>Glob\<close> (\<open>glob.rs\<close>): the parser of patterns, the choice of a matcher, and the
  matchers, the bit-parallel automaton included, against the language of the pattern. \<open>Key_Specs\<close>: the
  tables of \<open>commands.rs\<close> that say which arguments are keys and which may be written. \<open>Scope\<close>
  (\<open>scope.rs\<close>): what a token may reach, and the runs of keys a listing has to visit.

  \<^bold>\<open>Keyspace.\<close> \<open>Capture\<close> (\<open>capture.rs\<close>): the map a snapshot reads while it changes, as a step relation.
  \<open>Zset\<close> and \<open>Db\<close> (\<open>db.rs\<close>): values, sorted sets by the bits of their scores, streams, expiry and
  deadlines, and the snapshot of the keyspace. \<open>Listing\<close>: \<open>KEYS\<close>, which visits the keyspace in batches.

  \<^bold>\<open>Commands.\<close> \<open>Floats\<close>: doubles read from text and added. \<open>Exec\<close>: the state of an execution, with the
  ways a command reads its arguments, reaches typed values, is held to the limits and notes what it
  changed. \<open>Cmd_Keys\<close>, \<open>Cmd_Strings\<close>, \<open>Cmd_Hashes\<close> (lists too), \<open>Cmd_Sets\<close> (sorted sets too),
  \<open>Cmd_Streams\<close> and \<open>Cmd_Groups\<close>: the commands of \<open>commands.rs\<close>, one definition for each. \<open>Commands\<close>: the
  dispatch, \<open>Db::exec\<close>, and a command as \<open>Store::apply\<close> replays it. \<open>Cmd_View\<close> reads what an execution
  does to each key; \<open>Cmd_Reach\<close> shows that a command changes only the keys the key table lists for it.
  The journal of a history of commands rebuilds its keyspace (\<open>Cmd_Replay\<close>), because a command does the
  same on keyspaces that agree on their live keys (\<open>Cmd_Sim\<close>, \<open>Cmd_Repeat\<close>), what a command with
  chance or a wait in it journals instead does what it did (\<open>Cmd_Instead\<close>), no command leaves an empty
  collection or an unsound sorted set or group behind (\<open>Cmd_Tidy\<close>), and one that journals nothing changes
  nothing (\<open>Cmd_Kept\<close>, \<open>Cmd_Kept_Sets\<close>, \<open>Cmd_Kept_Streams\<close>). Two keyspaces agree when their live keys
  have the same values and deadlines, up to the time a consumer was last seen, which is not journaled.

  \<^bold>\<open>Forum.\<close> \<open>Store\<close> (\<open>store.rs\<close>): the entries, every effect and \<open>Store::apply\<close>, the queries and the
  parts of a snapshot. \<open>Store_Inv\<close> shows that every effect keeps each index true to the entries;
  \<open>Store_Queries\<close> puts effects, snapshots and the keyspace together as one step relation and reads the
  queries off its invariant. \<open>Store_Limits\<close> counts what an effect adds. \<open>Views\<close>: the JSON forms.

  \<^bold>\<open>Broker.\<close> The state under the lock is the record \<open>core\<close>, and an operation is a function from it to the
  new state and a result; an error leaves the changes made before it, as in the code. The journal is a
  parameter \<open>env\<close> of every operation. \<open>Broker_Base\<close>: state, events, \<open>commit\<close>. \<open>Channels\<close>: subscriptions,
  delivery, waiters. \<open>Broker_Agents\<close>, \<open>Broker_Rules\<close> (limits, quotas, checks), \<open>Broker_Messages\<close>,
  \<open>Broker_Broadcasts\<close>, \<open>Broker_Rooms\<close>, \<open>Broker_Questions\<close>, \<open>Broker_Boards\<close>, \<open>Broker_Sweep\<close>: the operations.
  \<open>Broker_Run\<close>: a server as a sequence of them. What they promise: \<open>Message_Inv\<close> and \<open>Room_Inv\<close> (every
  operation keeps the store's invariant, failures included), \<open>Broker_Total\<close> (in memory nothing panics on
  the journal), \<open>Message_Props\<close>, \<open>Message_Lease\<close>, \<open>Message_Send\<close>, \<open>Message_Ack\<close>, \<open>Broker_Limits\<close>,
  \<open>Room_Limits\<close>, \<open>Private_Rooms\<close>, \<open>Room_Reading\<close>, and \<open>Event_Replay\<close> for the ring of events.

  \<^bold>\<open>Journal.\<close> \<open>Crc32c\<close>: the checksum by table and by either processor's instructions. \<open>Journal_Lines\<close>:
  lines, scanning, replay. \<open>Journal\<close>: the writer on a disk that may refuse or cut short a write, lines
  deferred until after the lock is let go or taken by another thread, and syncs. \<open>Data_Dir\<close>: the files of
  a directory, rewrites step by step, and opening it after a crash at any step. \<open>Repair\<close>: cutting a
  damaged journal and setting aside what follows.

  \<^bold>\<open>Interfaces.\<close> Where one part relies on another through a contract, the contract is a locale and is
  interpreted on the definitions of the part that keeps it: the maps a snapshot reads, the stages of an
  operation, the limits an effect respects. Relations over time (a captured map, a store, a run of the
  journal, the steps of a rewrite) are inductive or lists of steps, with invariants by induction.

  \<^bold>\<open>Bounds and loops.\<close> Integers keep their width wherever the code relies on it: ids, times in
  milliseconds, versions, counters. Lengths of collections are natural numbers. Loops are recursion that
  is shown to end; those that go on while a collection is not empty recurse on a measure of it. Where a
  loop is given fuel, the fuel is the length of what it consumes and the property shows that it
  suffices.

  \<^bold>\<open>Parameters.\<close> Code outside the repository is a parameter: the serializers (\<open>codec\<close>, \<open>line_codec\<close>, the
  reader of snapshots), with what is asked of them as named hypotheses (reading gives back what was
  written; a line holds no line break), each shown to be satisfiable; random tokens and the clock; and the disk,
  which answers each write and sync with an outcome of its choice. Floating-point numbers are their 64
  bits, compared as the standard library compares them; their sum and the reading of a decimal are
  worked out exactly and rounded to even, and the text of one is a parameter (the record \<open>rust\<close>). The
  hashes that commands draw members by are a list of any length given to an execution, which is
  \<open>Starved\<close> when it would draw one more; \<open>Starved\<close> executions are part of every theorem on commands.

  \<^bold>\<open>Not modelled.\<close> The lock itself and waiting on it (operations are atomic, and what happens between two
  holds of the lock is the order of the steps), the thread that writes snapshots (its steps are), system
  randomness and the host name, messages on standard error, \<open>INFO\<close>, the JSON form of a reply; the
  connection loop
  (\<open>event.rs\<close>, \<open>poll.rs\<close>), requests and routes (\<open>http.rs\<close>, \<open>api.rs\<close>), configuration and start
  (\<open>config.rs\<close>, \<open>main.rs\<close>, \<open>serve.rs\<close>), and the clients (\<open>client.rs\<close>, \<open>mcp.rs\<close>): input and output around
  the core. To the store (\<open>Store\<close>) the keyspace commands are a parameter, a function of the keyspace,
  the time and the arguments, so what is shown of it holds of any.
\<close>

end
